(* ===== verification/GoLib.thy ===== *)
theory GoLib
  imports Main "HOL-Library.Word" "HOL-Library.Char_ord" "HOL-Library.Sublist"
begin

text \<open>
  The part of the Go language and its standard library that the modelled files use:
  machine integers, byte strings, the operations of the packages \<open>strings\<close> and
  \<open>strconv\<close>, and decimal printing, with the lemmas every component shares.

  A Go string is a sequence of bytes and is modelled by the type \<^typ>\<open>string\<close>, a list
  of 8-bit characters.  \<open>strings.ToLower\<close> and \<open>strings.TrimSpace\<close> are modelled on ASCII
  text, where Go maps byte by byte.  A call that returns an error besides a value returns
  an \<open>option\<close> here when the caller only asks whether the error is nil.
\<close>

unbundle bit_operations_syntax

type_synonym u8 = "8 word"
type_synonym u16 = "16 word"
type_synonym u32 = "32 word"
type_synonym u64 = "64 word"
type_synonym bytes = "u8 list"

section \<open>Characters\<close>

definition ord :: "char \<Rightarrow> nat" where
  "ord c = of_char c"

definition chr :: "nat \<Rightarrow> char" where
  "chr n = char_of n"

lemma ord_less_256 [simp]: "ord c < 256"
  by (simp add: ord_def)

lemma chr_ord [simp]: "chr (ord c) = c"
  by (simp add: ord_def chr_def)

lemma ord_chr [simp]: "n < 256 \<Longrightarrow> ord (chr n) = n"
  by (simp add: ord_def chr_def)

lemma ord_inject [simp]: "ord c = ord d \<longleftrightarrow> c = d"
  by (metis chr_ord)

definition isDigitByte :: "char \<Rightarrow> bool" where
  "isDigitByte c \<longleftrightarrow> 48 \<le> ord c \<and> ord c \<le> 57"

definition toLowerByte :: "char \<Rightarrow> char" where
  "toLowerByte c = (if 65 \<le> ord c \<and> ord c \<le> 90 then chr (ord c + 32) else c)"

text \<open>ASCII white space of \<open>unicode.IsSpace\<close>: tab, newline, vertical tab, form feed,
  carriage return and blank.\<close>

definition isSpaceByte :: "char \<Rightarrow> bool" where
  "isSpaceByte c \<longleftrightarrow> (9 \<le> ord c \<and> ord c \<le> 13) \<or> ord c = 32"

section \<open>Package strings\<close>

definition hasPrefix :: "string \<Rightarrow> string \<Rightarrow> bool" where
  "hasPrefix s p \<longleftrightarrow> take (length p) s = p"

definition hasSuffix :: "string \<Rightarrow> string \<Rightarrow> bool" where
  "hasSuffix s p \<longleftrightarrow> length p \<le> length s \<and> drop (length s - length p) s = p"

definition trimPrefix :: "string \<Rightarrow> string \<Rightarrow> string" where
  "trimPrefix s p = (if hasPrefix s p then drop (length p) s else s)"

definition toLower :: "string \<Rightarrow> string" where
  "toLower = map toLowerByte"

definition trimSpace :: "string \<Rightarrow> string" where
  "trimSpace s = rev (dropWhile isSpaceByte (rev (dropWhile isSpaceByte s)))"

definition equalFold :: "string \<Rightarrow> string \<Rightarrow> bool" where
  "equalFold s t \<longleftrightarrow> toLower s = toLower t"

text \<open>\<open>strings.IndexByte\<close>; the result -1 is \<open>None\<close>.\<close>

fun indexByte :: "string \<Rightarrow> char \<Rightarrow> nat option" where
  "indexByte [] c = None"
| "indexByte (x # xs) c = (if x = c then Some 0 else map_option Suc (indexByte xs c))"

text \<open>\<open>strings.Split\<close> on a one-byte separator.\<close>

fun splitByte :: "char \<Rightarrow> string \<Rightarrow> string list" where
  "splitByte c [] = [[]]"
| "splitByte c (x # xs) =
     (if x = c then [] # splitByte c xs
      else (case splitByte c xs of [] \<Rightarrow> [[x]] | y # ys \<Rightarrow> (x # y) # ys))"

fun joinStrings :: "string list \<Rightarrow> string \<Rightarrow> string" where
  "joinStrings [] sep = []"
| "joinStrings [x] sep = x"
| "joinStrings (x # y # ys) sep = x @ sep @ joinStrings (y # ys) sep"

section \<open>Package strconv\<close>

text \<open>The digit of a byte in any base up to 36, as the loop of \<open>strconv.ParseUint\<close> reads it.\<close>

definition digitVal :: "char \<Rightarrow> nat option" where
  "digitVal c =
     (let n = ord c in
      if 48 \<le> n \<and> n \<le> 57 then Some (n - 48)
      else if 97 \<le> n \<and> n \<le> 122 then Some (n - 87)
      else if 65 \<le> n \<and> n \<le> 90 then Some (n - 55)
      else None)"

text \<open>The accumulation loop: \<open>None\<close> is a syntax or range error.\<close>

fun parseDigits :: "bool \<Rightarrow> nat \<Rightarrow> nat \<Rightarrow> nat \<Rightarrow> string \<Rightarrow> nat option" where
  "parseDigits base0 base maxVal n [] = Some n"
| "parseDigits base0 base maxVal n (c # cs) =
     (if base0 \<and> c = CHR ''_'' then parseDigits base0 base maxVal n cs
      else (case digitVal c of
              None \<Rightarrow> None
            | Some d \<Rightarrow>
                if base \<le> d then None
                else if maxVal < n * base + d then None
                else parseDigits base0 base maxVal (n * base + d) cs))"

lemma parseDigits_append:
  "parseDigits b0 base m n (xs @ ys) =
   (case parseDigits b0 base m n xs of None \<Rightarrow> None | Some k \<Rightarrow> parseDigits b0 base m k ys)"
  by (induction xs arbitrary: n) (auto split: option.splits)

text \<open>\<open>strconv.underscoreOK\<close>: underscores separate digits only, or follow a base prefix.
  The state is the class of the last byte: \<open>^\<close> start, \<open>0\<close> digit, \<open>_\<close>, \<open>!\<close> other.\<close>

fun underscoreLoop :: "bool \<Rightarrow> char \<Rightarrow> string \<Rightarrow> bool" where
  "underscoreLoop hex i [] = (i \<noteq> CHR ''_'')"
| "underscoreLoop hex i (c # cs) =
     (if isDigitByte c \<or> (hex \<and> (case digitVal c of None \<Rightarrow> False | Some d \<Rightarrow> d < 16))
      then underscoreLoop hex (CHR ''0'') cs
      else if c = CHR ''_'' then i = CHR ''0'' \<and> underscoreLoop hex (CHR ''_'') cs
      else i \<noteq> CHR ''_'' \<and> underscoreLoop hex (CHR ''!'') cs)"

definition underscoreOK :: "string \<Rightarrow> bool" where
  "underscoreOK s0 =
     (let s = (case s0 of [] \<Rightarrow> [] | c # cs \<Rightarrow> if c = CHR ''-'' \<or> c = CHR ''+'' then cs else s0)
      in case s of
           a # b # rest \<Rightarrow>
             (let l = toLowerByte b in
              if a = CHR ''0'' \<and> (l = CHR ''b'' \<or> l = CHR ''o'' \<or> l = CHR ''x'')
              then underscoreLoop (l = CHR ''x'') (CHR ''0'') rest
              else underscoreLoop False (CHR ''^'') s)
         | _ \<Rightarrow> underscoreLoop False (CHR ''^'') s)"

text \<open>The base prefix that base 0 selects: the base and the digits after it.\<close>

definition basePrefix :: "string \<Rightarrow> nat \<times> string" where
  "basePrefix s =
     (case s of
        a # rest \<Rightarrow>
          if a = CHR ''0'' then
            (case rest of
               b # ds \<Rightarrow>
                 if ds \<noteq> [] \<and> toLowerByte b = CHR ''b'' then (2, ds)
                 else if ds \<noteq> [] \<and> toLowerByte b = CHR ''o'' then (8, ds)
                 else if ds \<noteq> [] \<and> toLowerByte b = CHR ''x'' then (16, ds)
                 else (8, rest)
             | [] \<Rightarrow> (8, rest))
          else (10, s)
      | [] \<Rightarrow> (10, s))"

text \<open>\<open>strconv.ParseUint(s, base, bits)\<close>.\<close>

definition parseUint :: "string \<Rightarrow> nat \<Rightarrow> nat \<Rightarrow> nat option" where
  "parseUint s base bits =
     (if s = [] then None
      else let base0 = (base = 0);
               bd = (if base0 then basePrefix s else (base, s))
           in case parseDigits base0 (fst bd) (2 ^ bits - 1) 0 (snd bd) of
                None \<Rightarrow> None
              | Some n \<Rightarrow>
                  if base0 \<and> CHR ''_'' \<in> set s \<and> \<not> underscoreOK s then None else Some n)"

text \<open>\<open>strconv.ParseInt(s, 10, 64)\<close>, and \<open>strconv.Atoi\<close> on a 64-bit platform.\<close>

definition parseInt64 :: "string \<Rightarrow> int option" where
  "parseInt64 s =
     (case s of
        [] \<Rightarrow> None
      | c # cs \<Rightarrow>
          (let neg = (c = CHR ''-'');
               body = (if c = CHR ''-'' \<or> c = CHR ''+'' then cs else s)
           in case parseUint body 10 64 of
                None \<Rightarrow> None
              | Some un \<Rightarrow>
                  if \<not> neg \<and> 2 ^ 63 \<le> un then None
                  else if neg \<and> 2 ^ 63 < un then None
                  else Some (if neg then - int un else int un)))"

section \<open>Printing\<close>

text \<open>The verb \<open>%d\<close> on an unsigned number, and \<open>%02x\<close> on a byte.\<close>

definition digitChar :: "nat \<Rightarrow> char" where
  "digitChar d = (if d < 10 then chr (48 + d) else chr (87 + d))"

fun showDec :: "nat \<Rightarrow> string" where
  "showDec n = (if n < 10 then [digitChar n] else showDec (n div 10) @ [digitChar (n mod 10)])"

declare showDec.simps [simp del]

definition showHex2 :: "nat \<Rightarrow> string" where
  "showHex2 n = [digitChar (n div 16), digitChar (n mod 16)]"

lemma sort_key_sorted_id: "sorted (map f xs) \<Longrightarrow> sort_key f xs = xs"
  by (induction xs) (auto simp: insort_is_Cons)

end
