(* ===== verification/ByteCodec.thy ===== *)
theory ByteCodec
  imports GoLib
begin

text \<open>
  Byte slices: \<open>copy\<close> and slicing, the little-endian accessors of \<open>encoding/binary\<close>, the
  checksum of \<open>hash/crc32\<close> and the disk as an addressable file.  The locale
  \<open>byte_field\<close> states the contract of a fixed-width accessor (read-after-write and frame);
  it is interpreted for the 16, 32 and 64-bit accessors, and the partition-table
  components use its lemmas to read back what they have written.
\<close>

section \<open>Slices\<close>

definition slice :: "'a list \<Rightarrow> nat \<Rightarrow> nat \<Rightarrow> 'a list" where
  "slice b lo hi = take (hi - lo) (drop lo b)"

text \<open>\<open>copy(b[off:], xs)\<close> where \<open>xs\<close> fits.\<close>

definition spliceAt :: "'a list \<Rightarrow> nat \<Rightarrow> 'a list \<Rightarrow> 'a list" where
  "spliceAt b off xs = take off b @ xs @ drop (off + length xs) b"

text \<open>\<open>copy(dst, src)\<close>: the shorter of the two lengths is copied.\<close>

definition copyInto :: "'a list \<Rightarrow> 'a list \<Rightarrow> 'a list" where
  "copyInto dst src = take (length dst) src @ drop (length src) dst"

lemma length_slice [simp]: "hi \<le> length b \<Longrightarrow> length (slice b lo hi) = hi - lo"
  by (simp add: slice_def)

lemma nth_slice [simp]: "lo + i < hi \<Longrightarrow> hi \<le> length b \<Longrightarrow> slice b lo hi ! i = b ! (lo + i)"
  by (simp add: slice_def)

lemma length_spliceAt [simp]:
  "off + length xs \<le> length b \<Longrightarrow> length (spliceAt b off xs) = length b"
  by (simp add: spliceAt_def)

lemma nth_spliceAt_in:
  "off + length xs \<le> length b \<Longrightarrow> off \<le> i \<Longrightarrow> i < off + length xs \<Longrightarrow>
   spliceAt b off xs ! i = xs ! (i - off)"
  by (auto simp: spliceAt_def nth_append less_diff_conv2 ac_simps)

lemma nth_spliceAt_out:
  "off + length xs \<le> length b \<Longrightarrow> i < length b \<Longrightarrow> i < off \<or> off + length xs \<le> i \<Longrightarrow>
   spliceAt b off xs ! i = b ! i"
  by (auto simp: spliceAt_def nth_append min_def)

lemma length_copyInto [simp]: "length (copyInto dst src) = length dst"
  by (simp add: copyInto_def)

lemma copyInto_same [simp]: "length src = length dst \<Longrightarrow> copyInto dst src = src"
  by (simp add: copyInto_def)

lemma slice_spliceAt_same [simp]:
  "off + length xs \<le> length b \<Longrightarrow> hi = off + length xs \<Longrightarrow> slice (spliceAt b off xs) off hi = xs"
  by (simp add: slice_def spliceAt_def)

lemma slice_cong:
  assumes "length b' = length b" "hi \<le> length b" "\<And>i. lo \<le> i \<Longrightarrow> i < hi \<Longrightarrow> b' ! i = b ! i"
  shows "slice b' lo hi = slice b lo hi"
  by (rule nth_equalityI) (use assms in \<open>auto simp: less_diff_conv\<close>)

lemma slice_spliceAt_disjoint [simp]:
  assumes "off + length xs \<le> length b" "hi \<le> length b" "hi \<le> off \<or> off + length xs \<le> lo"
  shows "slice (spliceAt b off xs) lo hi = slice b lo hi"
  by (rule slice_cong) (use assms in \<open>auto intro!: nth_spliceAt_out\<close>)

lemma slice_list_update [simp]:
  "k < lo \<or> hi \<le> k \<Longrightarrow> slice (b[k := v]) lo hi = slice b lo hi"
  by (cases "lo \<le> k") (auto simp: slice_def drop_update_swap)

section \<open>Little-endian accessors\<close>

fun leNat :: "bytes \<Rightarrow> nat" where
  "leNat [] = 0"
| "leNat (x # xs) = unat x + 256 * leNat xs"

fun leBytes :: "nat \<Rightarrow> nat \<Rightarrow> bytes" where
  "leBytes 0 n = []"
| "leBytes (Suc k) n = word_of_nat n # leBytes k (n div 256)"

lemma length_leBytes [simp]: "length (leBytes k n) = k"
  by (induction k arbitrary: n) auto

lemma leNat_leBytes: "leNat (leBytes k n) = n mod 256 ^ k"
proof (induction k arbitrary: n)
  case 0
  then show ?case by simp
next
  case (Suc k)
  have "unat (word_of_nat n :: u8) = n mod 256" by (simp add: unat_of_nat)
  with Suc show ?case by (simp add: mod_mult2_eq)
qed

lemma leNat_bound: "leNat xs < 256 ^ length xs"
proof (induction xs)
  case (Cons x xs)
  have "unat x < 2 ^ LENGTH(8)" by (rule unsigned_less)
  then have "unat x < 256" by simp
  with Cons show ?case by simp
qed simp

definition getU16 :: "bytes \<Rightarrow> nat \<Rightarrow> u16" where
  "getU16 b off = word_of_nat (leNat (slice b off (off + 2)))"

definition putU16 :: "bytes \<Rightarrow> nat \<Rightarrow> u16 \<Rightarrow> bytes" where
  "putU16 b off v = spliceAt b off (leBytes 2 (unat v))"

definition getU32 :: "bytes \<Rightarrow> nat \<Rightarrow> u32" where
  "getU32 b off = word_of_nat (leNat (slice b off (off + 4)))"

definition putU32 :: "bytes \<Rightarrow> nat \<Rightarrow> u32 \<Rightarrow> bytes" where
  "putU32 b off v = spliceAt b off (leBytes 4 (unat v))"

definition getU64 :: "bytes \<Rightarrow> nat \<Rightarrow> u64" where
  "getU64 b off = word_of_nat (leNat (slice b off (off + 8)))"

definition putU64 :: "bytes \<Rightarrow> nat \<Rightarrow> u64 \<Rightarrow> bytes" where
  "putU64 b off v = spliceAt b off (leBytes 8 (unat v))"

section \<open>The contract of an accessor\<close>

locale byte_field =
  fixes get :: "bytes \<Rightarrow> nat \<Rightarrow> 'v"
    and put :: "bytes \<Rightarrow> nat \<Rightarrow> 'v \<Rightarrow> bytes"
    and width :: nat
  assumes get_put: "off + width \<le> length b \<Longrightarrow> get (put b off v) off = v"
    and length_put: "off + width \<le> length b \<Longrightarrow> length (put b off v) = length b"
    and nth_put: "off + width \<le> length b \<Longrightarrow> i < length b \<Longrightarrow>
                  i < off \<or> off + width \<le> i \<Longrightarrow> put b off v ! i = b ! i"
    and get_slice: "slice b off (off + width) = slice b' off' (off' + width) \<Longrightarrow>
                    get b off = get b' off'"
begin

lemma slice_put:
  assumes "off + width \<le> length b" "hi \<le> length b" "hi \<le> off \<or> off + width \<le> lo"
  shows "slice (put b off v) lo hi = slice b lo hi"
  by (rule slice_cong) (use assms in \<open>auto simp: length_put nth_put\<close>)

lemma get_put_disjoint:
  assumes "off + width \<le> length b" "off' + width \<le> length b"
    and "off' + width \<le> off \<or> off + width \<le> off'"
  shows "get (put b off v) off' = get b off'"
  by (rule get_slice) (use assms in \<open>auto intro: slice_put\<close>)

lemma get_cong:
  assumes "length b' = length b" "off + width \<le> length b"
    and "\<And>i. off \<le> i \<Longrightarrow> i < off + width \<Longrightarrow> b' ! i = b ! i"
  shows "get b' off = get b off"
  by (rule get_slice) (use assms in \<open>auto intro: slice_cong\<close>)

lemma get_spliceAt_disjoint:
  assumes "off + length xs \<le> length b" "off' + width \<le> length b"
    and "off' + width \<le> off \<or> off + length xs \<le> off'"
  shows "get (spliceAt b off xs) off' = get b off'"
  by (rule get_slice) (use assms in auto)

lemma get_list_update:
  "k < off \<or> off + width \<le> k \<Longrightarrow> get (b[k := v]) off = get b off"
  by (rule get_slice) auto

lemma get_in_slice:
  assumes "lo + off + width \<le> hi" "hi \<le> length b"
  shows "get (slice b lo hi) off = get b (lo + off)"
proof (rule get_slice)
  show "slice (slice b lo hi) off (off + width) = slice b (lo + off) (lo + off + width)"
    by (rule nth_equalityI) (use assms in \<open>auto simp: add.assoc\<close>)
qed

lemmas frame = length_put nth_put get_put get_put_disjoint get_spliceAt_disjoint get_list_update
  slice_put

end

lemma word_leBytes:
  "LENGTH('a::len) = 8 * k \<Longrightarrow> word_of_nat (leNat (leBytes k (unat v))) = (v :: 'a word)"
proof -
  assume len: "LENGTH('a) = 8 * k"
  have "unat v < 2 ^ LENGTH('a)" by (rule unsigned_less)
  with len have "unat v < 256 ^ k" by (simp add: power_mult)
  then show ?thesis by (simp add: leNat_leBytes)
qed

interpretation u16: byte_field getU16 putU16 2
  by unfold_locales
    (auto simp: getU16_def putU16_def word_leBytes nth_spliceAt_out)

interpretation u32: byte_field getU32 putU32 4
  by unfold_locales
    (auto simp: getU32_def putU32_def word_leBytes nth_spliceAt_out)

interpretation u64: byte_field getU64 putU64 8
  by unfold_locales
    (auto simp: getU64_def putU64_def word_leBytes nth_spliceAt_out)

declare u16.length_put [simp] u32.length_put [simp] u64.length_put [simp]

section \<open>Checksums and zero tests\<close>

text \<open>\<open>crc32.ChecksumIEEE\<close>: the reflected polynomial, one bit at a time.\<close>

definition crcBit :: "u32 \<Rightarrow> u32" where
  "crcBit c = (if c AND 1 = 1 then drop_bit 1 c XOR 0xEDB88320 else drop_bit 1 c)"

definition crcByte :: "u32 \<Rightarrow> u8 \<Rightarrow> u32" where
  "crcByte c x = (crcBit ^^ 8) (c XOR ucast x)"

definition crc32 :: "bytes \<Rightarrow> u32" where
  "crc32 b = NOT (foldl crcByte 0xFFFFFFFF b)"

definition allZero :: "bytes \<Rightarrow> bool" where
  "allZero data \<longleftrightarrow> (\<forall>x \<in> set data. x = 0)"

lemma allZero_replicate [simp]: "allZero (replicate n 0)"
  by (simp add: allZero_def)

lemma allZero_iff: "allZero data \<longleftrightarrow> data = replicate (length data) 0"
  unfolding allZero_def by (metis in_set_replicate replicate_eqI)

section \<open>The device\<close>

text \<open>
  A block device or image: its bytes, its length, and the faults a run can meet.
  \<open>dev_rfault off\<close>: a \<open>ReadAt\<close> at this offset reports an I/O error.  \<open>dev_short off = Some k\<close>:
  a \<open>WriteAt\<close> at this offset stops after \<open>k\<close> bytes and reports the error.  The flags
  refuse the open for writing, the \<open>Sync\<close> and the \<open>Close\<close>; \<open>dev_file\<close> is a regular file, which
  an open with \<open>O_TRUNC\<close> empties.  A read past the end is the
  short read with \<open>io.EOF\<close>.
\<close>

record device =
  dev_byte :: "nat \<Rightarrow> u8"
  dev_size :: nat
  dev_rfault :: "nat \<Rightarrow> bool"
  dev_short :: "nat \<Rightarrow> nat option"
  dev_noopen :: bool
  dev_nosync :: bool
  dev_noclose :: bool
  dev_file :: bool

definition readAt :: "device \<Rightarrow> nat \<Rightarrow> nat \<Rightarrow> bytes option" where
  "readAt d off n =
     (if dev_rfault d off then None
      else Some (map (dev_byte d) [off ..< min (off + n) (dev_size d)]))"

definition putAt :: "device \<Rightarrow> nat \<Rightarrow> bytes \<Rightarrow> device" where
  "putAt d off data =
     d\<lparr>dev_byte := (\<lambda>i. if off \<le> i \<and> i < off + length data then data ! (i - off) else dev_byte d i)\<rparr>"

text \<open>The device after the write, and whether all bytes were written.\<close>

definition writeAt :: "device \<Rightarrow> nat \<Rightarrow> bytes \<Rightarrow> device \<times> bool" where
  "writeAt d off data =
     (case dev_short d off of
        None \<Rightarrow> (putAt d off data, True)
      | Some k \<Rightarrow> (putAt d off (take k data), length data \<le> k))"

lemma putAt_frame [simp]:
  "dev_size (putAt d off data) = dev_size d"
  "dev_rfault (putAt d off data) = dev_rfault d"
  "dev_short (putAt d off data) = dev_short d"
  "dev_noopen (putAt d off data) = dev_noopen d"
  "dev_nosync (putAt d off data) = dev_nosync d"
  "dev_noclose (putAt d off data) = dev_noclose d"
  "dev_file (putAt d off data) = dev_file d"
  by (simp_all add: putAt_def)

lemma writeAt_ok: "writeAt d off data = (d', True) \<Longrightarrow> d' = putAt d off data"
  by (auto simp: writeAt_def split: option.splits)

lemma readAt_putAt_same:
  "\<not> dev_rfault d off \<Longrightarrow> off + length data \<le> dev_size d \<Longrightarrow> n = length data \<Longrightarrow>
   readAt (putAt d off data) off n = Some data"
  by (auto simp: readAt_def putAt_def intro!: nth_equalityI)

lemma readAt_putAt_disjoint:
  "off + length data \<le> off' \<or> off' + n \<le> off \<Longrightarrow>
   readAt (putAt d off data) off' n = readAt d off' n"
  by (auto simp: readAt_def putAt_def)

lemma readAt_cong:
  assumes "dev_size d' = dev_size d" "dev_rfault d' = dev_rfault d"
    and "\<And>i. off \<le> i \<Longrightarrow> i < off + n \<Longrightarrow> dev_byte d' i = dev_byte d i"
  shows "readAt d' off n = readAt d off n"
  using assms by (auto simp: readAt_def)

end
