(* ===== verification/Extents.thy ===== *)
theory Extents
  imports ByteCodec "HOL-Library.Multiset"
begin

text \<open>
  Extents of sectors, as half-open pairs of natural numbers, and the interface that the three
  partition tables (DOS primaries, the logical chain, GPT) share: the locale
  \<open>disk_allocator\<close> takes a table's validity test, its occupied extents and its list of free
  regions, assumes that for a valid table these come from one ordered chain, and derives that
  the free regions are exactly the unoccupied sectors and that an allocation inside one of
  them cannot overlap anything.  Each table's theory interprets it on the functions of the code.
\<close>

section \<open>Ordered chains of extents and their gaps\<close>

type_synonym extent = "nat \<times> nat"

definition ext_set :: "extent \<Rightarrow> nat set" where
  "ext_set x = {fst x ..< snd x}"

definition ext_disjoint :: "extent \<Rightarrow> extent \<Rightarrow> bool" where
  "ext_disjoint x y \<longleftrightarrow> snd x \<le> fst y \<or> snd y \<le> fst x"

text \<open>\<open>chain c xs l\<close>: the extents of \<open>xs\<close> are nonempty, ordered, disjoint and inside \<open>[c, l)\<close>.\<close>

fun chain :: "nat \<Rightarrow> extent list \<Rightarrow> nat \<Rightarrow> bool" where
  "chain c [] l \<longleftrightarrow> c \<le> l"
| "chain c (x # xs) l \<longleftrightarrow> c \<le> fst x \<and> fst x < snd x \<and> chain (snd x) xs l"

fun gaps :: "nat \<Rightarrow> extent list \<Rightarrow> nat \<Rightarrow> extent list" where
  "gaps c [] l = (if c < l then [(c, l)] else [])"
| "gaps c (x # xs) l = (if c < fst x then [(c, fst x)] else []) @ gaps (snd x) xs l"

lemma chain_le: "chain c xs l \<Longrightarrow> c \<le> l"
  by (induction xs arbitrary: c) force+

lemma chain_bounds: "chain c xs l \<Longrightarrow> x \<in> set xs \<Longrightarrow> c \<le> fst x \<and> fst x < snd x \<and> snd x \<le> l"
proof (induction xs arbitrary: c)
  case (Cons y ys)
  then show ?case by (auto dest: chain_le) force+
qed simp

lemma chain_disjoint: "chain c xs l \<Longrightarrow> sorted_wrt ext_disjoint xs"
proof (induction xs arbitrary: c)
  case (Cons x xs)
  then have c: "chain (snd x) xs l" by simp
  from Cons.IH [OF c] chain_bounds [OF c] show ?case
    by (auto simp: ext_disjoint_def)
qed simp

lemma gaps_bounds:
  "chain c xs l \<Longrightarrow> g \<in> set (gaps c xs l) \<Longrightarrow> c \<le> fst g \<and> fst g < snd g \<and> snd g \<le> l"
proof (induction xs arbitrary: c)
  case (Cons y ys)
  then show ?case by (auto split: if_splits dest: chain_le) force+
qed (auto split: if_splits)

lemma gaps_union:
  "chain c xs l \<Longrightarrow> (\<Union>g \<in> set (gaps c xs l). ext_set g) = {c ..< l} - (\<Union>x \<in> set xs. ext_set x)"
proof (induction xs arbitrary: c)
  case Nil
  then show ?case by (auto simp: ext_set_def)
next
  case (Cons x xs)
  from Cons.prems have c: "c \<le> fst x" "fst x < snd x" "chain (snd x) xs l" by auto
  have le: "snd x \<le> l" using c(3) by (rule chain_le)
  have tail: "ext_set y \<subseteq> {snd x ..< l}" if "y \<in> set xs" for y
    using chain_bounds [OF c(3) that] by (auto simp: ext_set_def)
  have "(\<Union>g \<in> set (gaps c (x # xs) l). ext_set g) =
        {c ..< fst x} \<union> ({snd x ..< l} - (\<Union>y \<in> set xs. ext_set y))"
    using Cons.IH [OF c(3)] by (auto simp: ext_set_def)
  also have "\<dots> = {c ..< l} - (\<Union>y \<in> set (x # xs). ext_set y)"
    using c(1,2) le tail by (fastforce simp: ext_set_def)
  finally show ?case .
qed

lemma gaps_disjoint_used:
  "chain c xs l \<Longrightarrow> g \<in> set (gaps c xs l) \<Longrightarrow> x \<in> set xs \<Longrightarrow> ext_disjoint g x"
proof (induction xs arbitrary: c)
  case (Cons y ys)
  from Cons.prems(1) have c: "c \<le> fst y" "fst y < snd y" "chain (snd y) ys l" by auto
  show ?case
  proof (cases "g \<in> set (gaps (snd y) ys l)")
    case True
    with Cons.IH c(3) Cons.prems(3) gaps_bounds [OF c(3) True] show ?thesis
      by (auto simp: ext_disjoint_def)
  next
    case False
    with Cons.prems(2) have "g = (c, fst y)" by (auto split: if_splits)
    with Cons.prems(3) c chain_bounds [OF c(3), of x] show ?thesis
      by (auto simp: ext_disjoint_def)
  qed
qed simp

lemma gaps_disjoint: "chain c xs l \<Longrightarrow> sorted_wrt ext_disjoint (gaps c xs l)"
proof (induction xs arbitrary: c)
  case (Cons y ys)
  then have c: "c \<le> fst y" "fst y < snd y" "chain (snd y) ys l" by auto
  from Cons.IH [OF c(3)] gaps_bounds [OF c(3)] c(2) show ?case
    by (force simp: ext_disjoint_def)
qed simp

text \<open>An extent that starts inside a gap is separated from the gap's neighbours.\<close>

lemma ext_disjoint_sub:
  "ext_disjoint g x \<Longrightarrow> fst g \<le> fst y \<Longrightarrow> snd y \<le> snd g \<Longrightarrow> ext_disjoint y x"
  by (auto simp: ext_disjoint_def)

text \<open>Sorted, pairwise disjoint, nonempty extents inside the bounds form a chain.\<close>

lemma sorted_disjoint_chain:
  "sorted (map fst xs) \<Longrightarrow> sorted_wrt ext_disjoint xs \<Longrightarrow>
   \<forall>x \<in> set xs. c \<le> fst x \<and> fst x < snd x \<and> snd x \<le> l \<Longrightarrow> c \<le> l \<Longrightarrow> chain c xs l"
proof (induction xs arbitrary: c)
  case (Cons x xs)
  then have "\<forall>y \<in> set xs. snd x \<le> fst y"
    by (force simp: ext_disjoint_def)
  with Cons show ?case by auto
qed simp

section \<open>Pairwise disjointness does not depend on the order\<close>

lemma ext_disjoint_sym: "ext_disjoint x y \<longleftrightarrow> ext_disjoint y x"
  by (auto simp: ext_disjoint_def)

lemma sorted_wrt_perm:
  assumes sym: "\<And>x y. P x y \<longleftrightarrow> P y x"
  shows "mset xs = mset ys \<Longrightarrow> sorted_wrt P xs \<longleftrightarrow> sorted_wrt P ys"
proof (induction xs arbitrary: ys)
  case Nil
  then show ?case by simp
next
  case (Cons x xs)
  have "x \<in> set ys" using Cons.prems by (metis list.set_intros(1) set_mset_mset)
  then obtain as bs where ys: "ys = as @ x # bs" by (auto simp: in_set_conv_decomp)
  with Cons.prems have m: "mset xs = mset (as @ bs)" by simp
  then have s: "set xs = set as \<union> set bs" by (metis set_append set_mset_mset)
  from Cons.IH [OF m] s sym show ?case
    unfolding ys by (auto simp: sorted_wrt_append)
qed

section \<open>Conflicts between neighbours\<close>

text \<open>The second loop of every validator: neighbours in start order must not collide.\<close>

fun firstConflict :: "('r \<Rightarrow> 'r \<Rightarrow> bool) \<Rightarrow> 'r list \<Rightarrow> ('r \<times> 'r) option" where
  "firstConflict bad (a # b # rs) = (if bad a b then Some (a, b) else firstConflict bad (b # rs))"
| "firstConflict bad _ = None"

text \<open>\<open>ex\<close> reads the extent of a range.  A list in start order has no neighbour conflict
  exactly when its extents are pairwise disjoint.\<close>

lemma firstConflict_None_iff:
  assumes bad: "\<And>a b. bad a b \<longleftrightarrow> fst (ex b) < snd (ex a)"
    and sorted: "sorted (map (\<lambda>r. fst (ex r)) rs)"
    and ne: "\<forall>r \<in> set rs. fst (ex r) < snd (ex r)"
  shows "firstConflict bad rs = None \<longleftrightarrow> sorted_wrt ext_disjoint (map ex rs)"
  using sorted ne
proof (induction rs)
  case Nil
  then show ?case by simp
next
  case (Cons r rs)
  show ?case
  proof (cases rs)
    case Nil
    then show ?thesis by simp
  next
    case (Cons r' rs')
    with Cons.IH Cons.prems show ?thesis
      by (force simp: bad ext_disjoint_def)
  qed
qed

section \<open>The allocator interface\<close>

locale disk_allocator =
  fixes valid :: "'t \<Rightarrow> bool"
    and extents :: "'t \<Rightarrow> extent list"
    and lo :: "'t \<Rightarrow> nat"
    and hi :: "'t \<Rightarrow> nat"
    and free :: "'t \<Rightarrow> extent list"
  assumes ordered: "valid t \<Longrightarrow>
    \<exists>xs. mset xs = mset (extents t) \<and> chain (lo t) xs (hi t) \<and> free t = gaps (lo t) xs (hi t)"
begin

lemma extents_disjoint: "valid t \<Longrightarrow> sorted_wrt ext_disjoint (extents t)"
  using ordered chain_disjoint sorted_wrt_perm [of ext_disjoint, OF ext_disjoint_sym] by metis

lemma extents_bounds:
  assumes "valid t" "x \<in> set (extents t)"
  shows "lo t \<le> fst x \<and> fst x < snd x \<and> snd x \<le> hi t"
proof -
  obtain xs where "mset xs = mset (extents t)" "chain (lo t) xs (hi t)"
    using ordered [OF assms(1)] by blast
  with assms(2) show ?thesis by (metis chain_bounds set_mset_mset)
qed

lemma free_exact:
  assumes "valid t"
  shows "(\<Union>g \<in> set (free t). ext_set g) = {lo t ..< hi t} - (\<Union>x \<in> set (extents t). ext_set x)"
proof -
  obtain xs where "mset xs = mset (extents t)" "chain (lo t) xs (hi t)"
    "free t = gaps (lo t) xs (hi t)"
    using ordered [OF assms] by blast
  then show ?thesis by (metis gaps_union set_mset_mset)
qed

lemma free_bounds:
  "valid t \<Longrightarrow> g \<in> set (free t) \<Longrightarrow> lo t \<le> fst g \<and> fst g < snd g \<and> snd g \<le> hi t"
  using ordered gaps_bounds by metis

lemma free_disjoint: "valid t \<Longrightarrow> sorted_wrt ext_disjoint (free t)"
  using ordered gaps_disjoint by metis

lemma free_disjoint_used:
  assumes "valid t" "g \<in> set (free t)" "x \<in> set (extents t)"
  shows "ext_disjoint g x"
proof -
  obtain xs where "mset xs = mset (extents t)" "chain (lo t) xs (hi t)"
    "free t = gaps (lo t) xs (hi t)"
    using ordered [OF assms(1)] by blast
  with assms(2,3) show ?thesis by (metis gaps_disjoint_used set_mset_mset)
qed

text \<open>Allocating any part of a free region keeps the extents disjoint and in bounds.\<close>

lemma allocate:
  assumes "valid t" "g \<in> set (free t)" "fst g \<le> fst y" "snd y \<le> snd g"
  shows "sorted_wrt ext_disjoint (y # extents t) \<and> lo t \<le> fst y \<and> snd y \<le> hi t"
proof -
  have "ext_disjoint y x" if "x \<in> set (extents t)" for x
    using free_disjoint_used [OF assms(1,2) that] assms(3,4) by (rule ext_disjoint_sub)
  with extents_disjoint [OF assms(1)] free_bounds [OF assms(1,2)] assms(3,4) show ?thesis
    by auto
qed

text \<open>No free region at all means that every allocatable sector is occupied.\<close>

lemma free_empty_iff:
  assumes "valid t"
  shows "free t = [] \<longleftrightarrow> {lo t ..< hi t} \<subseteq> (\<Union>x \<in> set (extents t). ext_set x)"
proof -
  have "free t = [] \<longleftrightarrow> (\<Union>g \<in> set (free t). ext_set g) = {}"
  proof (cases "free t")
    case (Cons g gs)
    then have "fst g \<in> ext_set g"
      using free_bounds [OF assms, of g] by (simp add: ext_set_def)
    with Cons show ?thesis by auto
  qed simp
  with free_exact [OF assms] show ?thesis by auto
qed

end

end
