(* ===== verification/Mbr.thy ===== *)
theory Mbr
  imports Extents
begin

text \<open>
  The DOS/MBR partition table of \<open>cfdisk_linux.go\<close>: the four primary slots, their encoding in
  the boot sector, the validator, the free regions between partitions and the region that
  \<open>New\<close> suggests.  Sectors are 64-bit words as in the code; the lemmas read them as natural
  numbers.  The table implements the allocator interface (interpretation \<open>mbr_alloc\<close>).

  \<open>sort.Slice\<close> is modelled by a stable sort.  Ranges with equal starts always overlap, so the
  choice only decides which of two colliding partitions an error message names first.
\<close>

section \<open>Data\<close>

record mbrPartition =
  part_start :: u32
  part_size :: u32
  part_kind :: u8
  part_bootable :: bool

definition noPartition :: mbrPartition where
  "noPartition = \<lparr>part_start = 0, part_size = 0, part_kind = 0, part_bootable = False\<rparr>"

record cfdiskFreeRegion =
  region_start :: u64
  region_size :: u64

datatype mbr_error =
    StartsAtZero nat
  | NoType nat
  | SecondExtended nat
  | OutsideDisk nat
  | Overlaps nat nat
  | NoUnallocated

definition cfdiskExtendedType :: "u8 \<Rightarrow> bool" where
  "cfdiskExtendedType kind \<longleftrightarrow> kind = 0x05 \<or> kind = 0x0f \<or> kind = 0x85"

definition u64of :: "u32 \<Rightarrow> u64" where
  "u64of x = ucast x"

definition partEnd :: "mbrPartition \<Rightarrow> u64" where
  "partEnd p = u64of (part_start p) + u64of (part_size p)"

section \<open>The boot sector\<close>

definition cfdiskReadEntry :: "bytes \<Rightarrow> nat \<Rightarrow> mbrPartition" where
  "cfdiskReadEntry sector offset =
     (let entry = slice sector offset (offset + 16);
          partition = \<lparr>part_start = getU32 entry 8, part_size = getU32 entry 12,
                       part_kind = entry ! 4, part_bootable = (entry ! 0 = 0x80)\<rparr>
      in if part_size partition = 0 then noPartition else partition)"

definition cfdiskReadPartitions :: "bytes \<Rightarrow> mbrPartition list" where
  "cfdiskReadPartitions sector = map (\<lambda>index. cfdiskReadEntry sector (446 + index * 16)) [0 ..< 4]"

definition cfdiskHasProtectiveGPT :: "bytes \<Rightarrow> bool" where
  "cfdiskHasProtectiveGPT sector \<longleftrightarrow>
     (\<exists>index \<in> set [0 ..< 4].
        446 + (index + 1) * 16 \<le> length sector \<and> sector ! (446 + index * 16 + 4) = 0xee)"

text \<open>The body of the loop of \<open>cfdiskBuildMBR\<close>: one entry, written over zeroed bytes.\<close>

definition mbrPutEntry :: "bytes \<Rightarrow> nat \<Rightarrow> mbrPartition \<Rightarrow> bytes" where
  "mbrPutEntry sector base p =
     (if part_size p = 0 then sector
      else let s1 = (if part_bootable p then sector[base := 0x80] else sector);
               s2 = s1[base + 1 := 0xfe, base + 2 := 0xff, base + 3 := 0xff];
               s3 = s2[base + 4 := part_kind p];
               s4 = s3[base + 5 := 0xfe, base + 6 := 0xff, base + 7 := 0xff];
               s5 = putU32 s4 (base + 8) (part_start p)
           in putU32 s5 (base + 12) (part_size p))"

fun mbrPutEntries :: "bytes \<Rightarrow> nat \<Rightarrow> mbrPartition list \<Rightarrow> bytes" where
  "mbrPutEntries sector index [] = sector"
| "mbrPutEntries sector index (p # ps) =
     mbrPutEntries (mbrPutEntry sector (446 + index * 16) p) (Suc index) ps"

definition cfdiskBuildMBR :: "bytes \<Rightarrow> mbrPartition list \<Rightarrow> bytes" where
  "cfdiskBuildMBR original partitions =
     (let sector = copyInto (replicate 512 0) original;
          cleared = spliceAt sector 446 (replicate (510 - 446) 0);
          filled = mbrPutEntries cleared 0 partitions
      in filled[510 := 0x55, 511 := 0xaa])"

section \<open>Validation\<close>

text \<open>The first loop of \<open>validateCfdiskPartitions\<close>: the checks of one slot and its range.\<close>

fun mbrRanges :: "nat \<Rightarrow> bool \<Rightarrow> mbrPartition list \<Rightarrow> u64 \<Rightarrow> mbr_error + (u64 \<times> u64 \<times> nat) list" where
  "mbrRanges index extendedSeen [] sectors = Inr []"
| "mbrRanges index extendedSeen (p # ps) sectors =
     (if part_size p = 0 then mbrRanges (Suc index) extendedSeen ps sectors
      else if part_start p = 0 then Inl (StartsAtZero (index + 1))
      else if part_kind p = 0 then Inl (NoType (index + 1))
      else if cfdiskExtendedType (part_kind p) \<and> extendedSeen then Inl (SecondExtended (index + 1))
      else if sectors < partEnd p then Inl (OutsideDisk (index + 1))
      else (case mbrRanges (Suc index) (extendedSeen \<or> cfdiskExtendedType (part_kind p)) ps sectors of
              Inl e \<Rightarrow> Inl e
            | Inr ranges \<Rightarrow> Inr ((u64of (part_start p), partEnd p, index) # ranges)))"

definition validateCfdiskPartitions :: "mbrPartition list \<Rightarrow> u64 \<Rightarrow> mbr_error option" where
  "validateCfdiskPartitions partitions sectors =
     (case mbrRanges 0 False partitions sectors of
        Inl e \<Rightarrow> Some e
      | Inr ranges \<Rightarrow>
          (case firstConflict (\<lambda>a b. fst b < fst (snd a)) (sort_key fst ranges) of
             None \<Rightarrow> None
           | Some (a, b) \<Rightarrow> Some (Overlaps (snd (snd b) + 1) (snd (snd a) + 1))))"

section \<open>Free regions\<close>

text \<open>The cursor loop over the used regions; \<open>next\<close> is the first sector after a region's end.\<close>

fun gapLoop :: "(u64 \<Rightarrow> u64) \<Rightarrow> u64 \<Rightarrow> (u64 \<times> u64) list \<Rightarrow> cfdiskFreeRegion list \<times> u64" where
  "gapLoop next cursor [] = ([], cursor)"
| "gapLoop next cursor (r # rs) =
     (let rest = gapLoop next (next (snd r)) rs
      in ((if cursor < fst r then [\<lparr>region_start = cursor, region_size = fst r - cursor\<rparr>] else [])
          @ fst rest, snd rest))"

definition gapsUpTo :: "u64 \<Rightarrow> (u64 \<times> u64) list \<Rightarrow> u64 \<Rightarrow> cfdiskFreeRegion list" where
  "gapsUpTo cursor used limit =
     (let (regions, last) = gapLoop (\<lambda>e. e) cursor used
      in if last < limit then regions @ [\<lparr>region_start = last, region_size = limit - last\<rparr>]
         else regions)"

definition cfdiskFreeRegions :: "mbrPartition list \<Rightarrow> u64 \<Rightarrow> mbr_error + cfdiskFreeRegion list" where
  "cfdiskFreeRegions partitions sectors =
     (case validateCfdiskPartitions partitions sectors of
        Some e \<Rightarrow> Inl e
      | None \<Rightarrow>
          (let used = map (\<lambda>p. (u64of (part_start p), partEnd p))
                        (filter (\<lambda>p. part_size p \<noteq> 0) partitions)
           in Inr (gapsUpTo 1 (sort_key fst used) sectors)))"

definition align1MiB :: "u64 \<Rightarrow> u64" where
  "align1MiB x = (x + 2047) AND NOT 2047"

text \<open>The loop that keeps the largest candidate; \<open>lowest\<close> is the least aligned start it accepts.\<close>

definition regionCandidate :: "u64 \<Rightarrow> cfdiskFreeRegion \<Rightarrow> cfdiskFreeRegion" where
  "regionCandidate lowest r =
     (let aligned = align1MiB (region_start r);
          end = region_start r + region_size r;
          start = (if lowest \<le> aligned \<and> aligned < end then aligned else region_start r)
      in \<lparr>region_start = start, region_size = end - start\<rparr>)"

fun bestRegion :: "u64 \<Rightarrow> cfdiskFreeRegion \<Rightarrow> cfdiskFreeRegion list \<Rightarrow> cfdiskFreeRegion" where
  "bestRegion lowest best [] = best"
| "bestRegion lowest best (r # rs) =
     (let candidate = regionCandidate lowest r
      in bestRegion lowest (if region_size best < region_size candidate then candidate else best) rs)"

definition noRegion :: cfdiskFreeRegion where
  "noRegion = \<lparr>region_start = 0, region_size = 0\<rparr>"

definition cfdiskSuggestedFreeRegion :: "mbrPartition list \<Rightarrow> u64 \<Rightarrow> mbr_error + cfdiskFreeRegion" where
  "cfdiskSuggestedFreeRegion partitions sectors =
     (case cfdiskFreeRegions partitions sectors of
        Inl e \<Rightarrow> Inl e
      | Inr regions \<Rightarrow>
          (let best = bestRegion 2048 noRegion regions
           in if region_size best = 0 then Inl NoUnallocated else Inr best))"

section \<open>Ordering the slots\<close>

definition cfdiskSortedPartitions :: "mbrPartition list \<Rightarrow> mbrPartition list" where
  "cfdiskSortedPartitions partitions =
     copyInto (replicate 4 noPartition)
       (sort_key part_start (filter (\<lambda>p. part_size p \<noteq> 0) partitions))"

text \<open>The slot of the extended partition; -1 is \<open>None\<close>.\<close>

fun findExtendedFrom :: "nat \<Rightarrow> mbrPartition list \<Rightarrow> nat option" where
  "findExtendedFrom index [] = None"
| "findExtendedFrom index (p # ps) =
     (if part_size p \<noteq> 0 \<and> cfdiskExtendedType (part_kind p) then Some index
      else findExtendedFrom (Suc index) ps)"

definition cfdiskFindExtended :: "mbrPartition list \<Rightarrow> nat option" where
  "cfdiskFindExtended partitions = findExtendedFrom 0 partitions"

section \<open>Machine arithmetic\<close>

lemma unat_u32_bound: "unat (x :: u32) < 4294967296"
  using unsigned_less [of x] by simp

lemma unat_u64of [simp]: "unat (u64of x) = unat x"
  using unat_u32_bound [of x] by (simp add: u64of_def unsigned_ucast_eq take_bit_nat_eq_self)

lemma u64of_eq_0 [simp]: "u64of x = 0 \<longleftrightarrow> x = 0"
  by (metis unat_u64of unat_eq_zero)

lemma unat_partEnd [simp]: "unat (partEnd p) = unat (part_start p) + unat (part_size p)"
  using unat_u32_bound [of "part_start p"] unat_u32_bound [of "part_size p"]
  by (simp add: partEnd_def unat_word_ariths)

lemma unat_add_u64: "unat x + unat y < 2 ^ 64 \<Longrightarrow> unat (x + y :: u64) = unat x + unat y"
  by (simp add: unat_word_ariths)

lemma unat_sub_u64: "x \<le> y \<Longrightarrow> unat (y - x :: u64) = unat y - unat x"
  by (simp add: unat_sub)

lemma round_up_ge: "(x :: nat) \<le> (x + 2047) div 2048 * 2048"
proof -
  have "(x + 2047) mod 2048 \<le> 2047"
    using mod_less_divisor [of 2048 "x + 2047"] by linarith
  with div_mult_mod_eq [of "x + 2047" 2048] show ?thesis by linarith
qed

lemma align1MiB_unat:
  assumes "unat x + 2047 < 2 ^ 64"
  shows "unat (align1MiB x) = (unat x + 2047) div 2048 * 2048"
proof -
  have m: "(2047 :: u64) = mask 11" by (simp add: mask_eq_exp_minus_1)
  have "align1MiB x = push_bit 11 (drop_bit 11 (x + 2047))"
    unfolding align1MiB_def m by (rule bit_word_eqI) (auto simp: bit_simps)
  then show ?thesis
    using assms
    by (simp add: unsigned_push_bit_eq unat_drop_bit_eq drop_bit_eq_div push_bit_eq_mult
        unat_word_ariths take_bit_eq_mod)
qed

section \<open>The boot sector\<close>

lemma length_mbrPutEntry [simp]:
  "base + 16 \<le> length s \<Longrightarrow> length (mbrPutEntry s base p) = length s"
  by (simp add: mbrPutEntry_def Let_def)

lemma nth_mbrPutEntry_out:
  "base + 16 \<le> length s \<Longrightarrow> i < length s \<Longrightarrow> i < base \<or> base + 16 \<le> i \<Longrightarrow>
   mbrPutEntry s base p ! i = s ! i"
  by (auto simp: mbrPutEntry_def Let_def u32.nth_put)

lemma length_mbrPutEntries [simp]:
  "446 + (index + length ps) * 16 \<le> length s \<Longrightarrow> length (mbrPutEntries s index ps) = length s"
  by (induction ps arbitrary: s index) auto

lemma nth_mbrPutEntries_out:
  "446 + (index + length ps) * 16 \<le> length s \<Longrightarrow> i < length s \<Longrightarrow>
   i < 446 + index * 16 \<or> 446 + (index + length ps) * 16 \<le> i \<Longrightarrow>
   mbrPutEntries s index ps ! i = s ! i"
  by (induction ps arbitrary: s index) (auto simp: nth_mbrPutEntry_out)

lemma readEntry_cong:
  assumes "length b' = length b" "off + 16 \<le> length b"
    and "\<And>i. off \<le> i \<Longrightarrow> i < off + 16 \<Longrightarrow> b' ! i = b ! i"
  shows "cfdiskReadEntry b' off = cfdiskReadEntry b off"
proof -
  have "slice b' off (off + 16) = slice b off (off + 16)"
    by (rule slice_cong) (use assms in auto)
  then show ?thesis by (simp add: cfdiskReadEntry_def)
qed

text \<open>What an entry reads back as: an empty slot loses its start, type and flag.\<close>

definition mbrSlot :: "mbrPartition \<Rightarrow> mbrPartition" where
  "mbrSlot p = (if part_size p = 0 then noPartition else p)"

lemma readEntry_fields:
  assumes "off + 16 \<le> length b"
  shows "cfdiskReadEntry b off =
    mbrSlot \<lparr>part_start = getU32 b (off + 8), part_size = getU32 b (off + 12),
             part_kind = b ! (off + 4), part_bootable = (b ! off = 0x80)\<rparr>"
  using assms by (simp add: cfdiskReadEntry_def mbrSlot_def Let_def u32.get_in_slice add.commute)

lemma read_put_entry:
  assumes "base + 16 \<le> length s" "\<And>i. base \<le> i \<Longrightarrow> i < base + 16 \<Longrightarrow> s ! i = 0"
  shows "cfdiskReadEntry (mbrPutEntry s base p) base = mbrSlot p"
proof (cases "part_size p = 0")
  case True
  have "getU32 s (base + 12) = getU32 (replicate (length s) 0) (base + 12)"
    by (rule u32.get_cong) (use assms in auto)
  also have "\<dots> = 0"
    using assms(1) by (simp add: getU32_def slice_def numeral_eq_Suc)
  finally show ?thesis
    using True assms by (simp add: readEntry_fields mbrPutEntry_def mbrSlot_def)
next
  case False
  with assms show ?thesis
    by (simp add: readEntry_fields mbrPutEntry_def mbrSlot_def Let_def u32.get_put
        u32.get_put_disjoint u32.nth_put)
qed

lemma read_put_entries:
  assumes "446 + (index + length ps) * 16 \<le> length s" "k < length ps"
    and "\<And>i. 446 + index * 16 \<le> i \<Longrightarrow> i < 446 + (index + length ps) * 16 \<Longrightarrow> s ! i = 0"
  shows "cfdiskReadEntry (mbrPutEntries s index ps) (446 + (index + k) * 16) = mbrSlot (ps ! k)"
  using assms
proof (induction ps arbitrary: s index k)
  case Nil
  then show ?case by simp
next
  case (Cons p ps)
  let ?s = "mbrPutEntry s (446 + index * 16) p"
  show ?case
  proof (cases k)
    case 0
    have "cfdiskReadEntry (mbrPutEntries ?s (Suc index) ps) (446 + index * 16) =
          cfdiskReadEntry ?s (446 + index * 16)"
      by (rule readEntry_cong) (use Cons.prems in \<open>auto simp: nth_mbrPutEntries_out\<close>)
    also have "\<dots> = mbrSlot p"
      by (rule read_put_entry) (use Cons.prems in auto)
    finally show ?thesis using 0 by simp
  next
    case (Suc k')
    have "cfdiskReadEntry (mbrPutEntries ?s (Suc index) ps) (446 + (Suc index + k') * 16) =
          mbrSlot (ps ! k')"
      by (rule Cons.IH) (use Cons.prems Suc in \<open>auto simp: nth_mbrPutEntry_out\<close>)
    then show ?thesis using Suc by simp
  qed
qed

lemma read_build_entry:
  assumes "length ps = 4" "k < 4"
  shows "cfdiskReadEntry (cfdiskBuildMBR original ps) (446 + k * 16) = mbrSlot (ps ! k)"
proof -
  let ?cleared = "spliceAt (copyInto (replicate 512 0) original) 446 (replicate (510 - 446) 0)"
  let ?filled = "mbrPutEntries ?cleared 0 ps"
  have len: "length ?filled = 512" using assms by simp
  have "cfdiskReadEntry (cfdiskBuildMBR original ps) (446 + k * 16) =
        cfdiskReadEntry ?filled (446 + (0 + k) * 16)"
    unfolding cfdiskBuildMBR_def Let_def add_0
    by (rule readEntry_cong) (use len assms(2) in auto)
  also have "\<dots> = mbrSlot (ps ! k)"
    by (rule read_put_entries) (use assms in \<open>auto simp: nth_spliceAt_in\<close>)
  finally show ?thesis .
qed

lemma length_buildMBR [simp]: "length ps = 4 \<Longrightarrow> length (cfdiskBuildMBR original ps) = 512"
  by (simp add: cfdiskBuildMBR_def Let_def)

lemma buildMBR_signature:
  "length ps = 4 \<Longrightarrow> cfdiskBuildMBR original ps ! 510 = 0x55 \<and> cfdiskBuildMBR original ps ! 511 = 0xaa"
  by (simp add: cfdiskBuildMBR_def Let_def)

lemma nth_buildMBR_boot:
  assumes "length ps = 4" "length original = 512" "i < 446"
  shows "cfdiskBuildMBR original ps ! i = original ! i"
  using assms
  by (simp add: cfdiskBuildMBR_def Let_def nth_mbrPutEntries_out nth_spliceAt_out)

section \<open>What the validator accepts\<close>

definition mbrUsed :: "mbrPartition list \<Rightarrow> mbrPartition list" where
  "mbrUsed ps = filter (\<lambda>p. part_size p \<noteq> 0) ps"

definition mbrExtent :: "mbrPartition \<Rightarrow> extent" where
  "mbrExtent p = (unat (part_start p), unat (part_start p) + unat (part_size p))"

definition mbrExtents :: "mbrPartition list \<Rightarrow> extent list" where
  "mbrExtents ps = map mbrExtent (mbrUsed ps)"

definition mbrExtendedCount :: "mbrPartition list \<Rightarrow> nat" where
  "mbrExtendedCount ps = length (filter (\<lambda>p. cfdiskExtendedType (part_kind p)) (mbrUsed ps))"

text \<open>The specification: every used slot has a start, a type and an end on the disk, the used
  extents are pairwise disjoint, and at most one slot is an extended container.\<close>

definition mbr_wf :: "mbrPartition list \<Rightarrow> nat \<Rightarrow> bool" where
  "mbr_wf ps n \<longleftrightarrow>
     (\<forall>p \<in> set (mbrUsed ps).
        part_start p \<noteq> 0 \<and> part_kind p \<noteq> 0 \<and> unat (part_start p) + unat (part_size p) \<le> n) \<and>
     sorted_wrt ext_disjoint (mbrExtents ps) \<and> mbrExtendedCount ps \<le> 1"

definition rangeExtent :: "u64 \<times> u64 \<times> nat \<Rightarrow> extent" where
  "rangeExtent r = (unat (fst r), unat (fst (snd r)))"

lemma mbrUsed_simps [simp]:
  "mbrUsed [] = []"
  "mbrUsed (p # ps) = (if part_size p = 0 then mbrUsed ps else p # mbrUsed ps)"
  by (auto simp: mbrUsed_def)

lemma mbrExtent_nonempty: "p \<in> set (mbrUsed ps) \<Longrightarrow> fst (mbrExtent p) < snd (mbrExtent p)"
  by (simp add: mbrUsed_def mbrExtent_def unat_gt_0)

lemma mbrRanges_Inr:
  "mbrRanges i seen ps sectors = Inr rs \<Longrightarrow>
     map rangeExtent rs = mbrExtents ps \<and>
     map (\<lambda>r. (fst r, fst (snd r))) rs =
       map (\<lambda>p. (u64of (part_start p), partEnd p)) (mbrUsed ps)"
proof (induction i seen ps sectors arbitrary: rs rule: mbrRanges.induct)
  case (1 i seen sectors)
  then show ?case by (simp add: mbrExtents_def)
next
  case (2 i seen p ps sectors)
  then show ?case
    by (auto simp: mbrExtents_def mbrExtent_def rangeExtent_def split: if_splits sum.splits)
qed

lemma mbrRanges_ok_iff:
  "(\<exists>rs. mbrRanges i seen ps sectors = Inr rs) \<longleftrightarrow>
     (\<forall>p \<in> set (mbrUsed ps).
        part_start p \<noteq> 0 \<and> part_kind p \<noteq> 0 \<and>
        unat (part_start p) + unat (part_size p) \<le> unat sectors) \<and>
     mbrExtendedCount ps + (if seen then 1 else 0) \<le> 1"
proof (induction i seen ps sectors rule: mbrRanges.induct)
  case (1 i seen sectors)
  then show ?case by (simp add: mbrExtendedCount_def)
next
  case (2 i seen p ps sectors)
  have cnt: "mbrExtendedCount (p # ps) =
    (if part_size p \<noteq> 0 \<and> cfdiskExtendedType (part_kind p) then 1 else 0) + mbrExtendedCount ps"
    by (simp add: mbrExtendedCount_def)
  have le: "sectors < partEnd p \<longleftrightarrow> \<not> unat (part_start p) + unat (part_size p) \<le> unat sectors"
    by (simp add: word_less_nat_alt not_le)
  show ?case
    using 2 unfolding cnt
    by (auto simp: le split: sum.splits if_splits)
qed

lemma mbrExtents_nonempty:
  "map rangeExtent rs = mbrExtents ps \<Longrightarrow> r \<in> set rs \<Longrightarrow> fst (rangeExtent r) < snd (rangeExtent r)"
proof -
  assume eq: "map rangeExtent rs = mbrExtents ps" and r: "r \<in> set rs"
  from r have "rangeExtent r \<in> set (map rangeExtent rs)" by simp
  then obtain p where "p \<in> set (mbrUsed ps)" "rangeExtent r = mbrExtent p"
    unfolding eq mbrExtents_def by auto
  then show ?thesis using mbrExtent_nonempty by simp
qed

lemma sort_ranges_extent:
  "sorted (map (\<lambda>r. fst (rangeExtent r)) (sort_key fst rs))"
proof -
  have "sorted (map fst (sort_key fst rs))" by simp
  then have "sorted (map unat (map fst (sort_key fst rs)))"
    by (auto simp: sorted_map sorted_wrt_map word_le_nat_alt elim!: sorted_wrt_mono_rel [rotated])
  then show ?thesis by (simp add: rangeExtent_def comp_def)
qed

lemma firstConflict_ranges_iff:
  assumes "map rangeExtent rs = mbrExtents ps"
  shows "firstConflict (\<lambda>a b. fst b < fst (snd a)) (sort_key fst rs) = None \<longleftrightarrow>
         sorted_wrt ext_disjoint (mbrExtents ps)"
proof -
  have "firstConflict (\<lambda>a b. fst b < fst (snd a)) (sort_key fst rs) = None \<longleftrightarrow>
        sorted_wrt ext_disjoint (map rangeExtent (sort_key fst rs))"
    by (rule firstConflict_None_iff [where ex = rangeExtent])
      (use mbrExtents_nonempty [OF assms] sort_ranges_extent in
        \<open>auto simp: rangeExtent_def word_less_nat_alt\<close>)
  also have "\<dots> \<longleftrightarrow> sorted_wrt ext_disjoint (map rangeExtent rs)"
    by (rule sorted_wrt_perm [OF ext_disjoint_sym]) simp
  finally show ?thesis using assms by simp
qed

lemma validate_iff_wf:
  "validateCfdiskPartitions ps sectors = None \<longleftrightarrow> mbr_wf ps (unat sectors)"
proof (cases "mbrRanges 0 False ps sectors")
  case (Inl e)
  then show ?thesis
    using mbrRanges_ok_iff [of 0 False ps sectors]
    by (auto simp: validateCfdiskPartitions_def mbr_wf_def)
next
  case (Inr rs)
  with mbrRanges_Inr [OF Inr] mbrRanges_ok_iff [of 0 False ps sectors]
    firstConflict_ranges_iff [of rs ps]
  show ?thesis
    by (auto simp: validateCfdiskPartitions_def mbr_wf_def split: option.splits)
qed

section \<open>The free regions are the gaps of the chain\<close>

definition regionExtent :: "cfdiskFreeRegion \<Rightarrow> extent" where
  "regionExtent r = (unat (region_start r), unat (region_start r) + unat (region_size r))"

definition wordExtent :: "u64 \<times> u64 \<Rightarrow> extent" where
  "wordExtent r = (unat (fst r), unat (snd r))"

lemma gapsUpTo_Nil:
  "gapsUpTo c [] l = (if c < l then [\<lparr>region_start = c, region_size = l - c\<rparr>] else [])"
  by (simp add: gapsUpTo_def)

lemma gapsUpTo_Cons:
  "gapsUpTo c (r # rs) l =
     (if c < fst r then [\<lparr>region_start = c, region_size = fst r - c\<rparr>] else []) @ gapsUpTo (snd r) rs l"
  by (auto simp: gapsUpTo_def Let_def split: prod.splits)

lemma regionExtent_diff:
  "a \<le> b \<Longrightarrow> regionExtent \<lparr>region_start = a, region_size = b - a\<rparr> = (unat a, unat b)"
  by (simp add: regionExtent_def unat_sub_u64 word_le_nat_alt)

lemma gapsUpTo_gaps:
  "chain (unat c) (map wordExtent us) (unat l) \<Longrightarrow>
   map regionExtent (gapsUpTo c us l) = gaps (unat c) (map wordExtent us) (unat l)"
proof (induction us arbitrary: c)
  case Nil
  then show ?case by (auto simp: gapsUpTo_Nil regionExtent_diff word_less_nat_alt word_le_nat_alt)
next
  case (Cons u us)
  then show ?case
    by (auto simp: gapsUpTo_Cons regionExtent_diff word_less_nat_alt word_le_nat_alt wordExtent_def)
qed

lemma sort_key_fst_sorted: "sorted (map fst (map wordExtent (sort_key fst us)))"
proof -
  have "sorted (map fst (sort_key fst us))" by simp
  then have "sorted (map unat (map fst (sort_key fst us)))"
    by (auto simp: sorted_map sorted_wrt_map word_le_nat_alt elim!: sorted_wrt_mono_rel [rotated])
  then show ?thesis by (simp add: wordExtent_def comp_def)
qed

lemma sort_key_chain:
  assumes "sorted_wrt ext_disjoint (map wordExtent us)" "c \<le> l"
    and "\<forall>u \<in> set us. c \<le> unat (fst u) \<and> fst u < snd u \<and> unat (snd u) \<le> l"
  shows "chain c (map wordExtent (sort_key fst us)) l"
proof (rule sorted_disjoint_chain)
  show "sorted_wrt ext_disjoint (map wordExtent (sort_key fst us))"
    using assms(1) sorted_wrt_perm [OF ext_disjoint_sym, of "map wordExtent (sort_key fst us)"
        "map wordExtent us"] by simp
qed (use assms in \<open>auto simp: sort_key_fst_sorted wordExtent_def word_less_nat_alt simp del: map_map\<close>)

definition mbrWords :: "mbrPartition list \<Rightarrow> (u64 \<times> u64) list" where
  "mbrWords ps = map (\<lambda>p. (u64of (part_start p), partEnd p)) (mbrUsed ps)"

lemma mbrWords_extents: "map wordExtent (mbrWords ps) = mbrExtents ps"
  by (simp add: mbrWords_def mbrExtents_def wordExtent_def mbrExtent_def)

lemma mbr_chain:
  assumes "mbr_wf ps (unat n)" "0 < n"
  shows "chain 1 (map wordExtent (sort_key fst (mbrWords ps))) (unat n)"
proof (rule sort_key_chain)
  show "\<forall>u \<in> set (mbrWords ps). 1 \<le> unat (fst u) \<and> fst u < snd u \<and> unat (snd u) \<le> unat n"
    using assms(1)
    by (auto simp: mbr_wf_def mbrWords_def word_less_nat_alt mbrUsed_def unat_gt_0 Suc_le_eq)
qed (use assms in \<open>auto simp: mbrWords_extents mbr_wf_def unat_gt_0 Suc_le_eq\<close>)

lemma freeRegions_valid:
  "validateCfdiskPartitions ps n = None \<Longrightarrow>
   cfdiskFreeRegions ps n = Inr (gapsUpTo 1 (sort_key fst (mbrWords ps)) n)"
  by (simp add: cfdiskFreeRegions_def mbrWords_def mbrUsed_def)

definition mbrFree :: "mbrPartition list \<times> u64 \<Rightarrow> extent list" where
  "mbrFree t = (case cfdiskFreeRegions (fst t) (snd t) of Inl _ \<Rightarrow> [] | Inr rs \<Rightarrow> map regionExtent rs)"

interpretation mbr_alloc: disk_allocator
  "\<lambda>t. validateCfdiskPartitions (fst t) (snd t) = None \<and> 0 < snd t"
  "\<lambda>t. mbrExtents (fst t)" "\<lambda>t. 1" "\<lambda>t. unat (snd t)" mbrFree
proof
  fix t :: "mbrPartition list \<times> u64"
  obtain ps n where t: "t = (ps, n)" by force
  let ?xs = "map wordExtent (sort_key fst (mbrWords ps))"
  assume "validateCfdiskPartitions (fst t) (snd t) = None \<and> 0 < snd t"
  then have v: "validateCfdiskPartitions ps n = None" "0 < n" by (auto simp: t)
  have ch: "chain 1 ?xs (unat n)" using v mbr_chain validate_iff_wf by blast
  then have "mbrFree t = gaps 1 ?xs (unat n)"
    using gapsUpTo_gaps [of 1 "sort_key fst (mbrWords ps)" n] v
    by (simp add: mbrFree_def t freeRegions_valid)
  moreover have "mset ?xs = mset (mbrExtents ps)"
    by (simp flip: mbrWords_extents)
  ultimately show "\<exists>xs. mset xs = mset (mbrExtents (fst t)) \<and> chain 1 xs (unat (snd t)) \<and>
      mbrFree t = gaps 1 xs (unat (snd t))"
    using ch by (simp only: t fst_conv snd_conv) blast
qed


section \<open>The suggested region\<close>

lemma unat_u64_bound: "unat (x :: u64) < 2 ^ 64"
  using unsigned_less [of x] by simp

lemma candidate_within:
  assumes "unat (region_start r) + unat (region_size r) < 2 ^ 64"
    and "unat (region_start r) + 2047 < 2 ^ 64"
  shows "region_start r \<le> region_start (regionCandidate low r)"
    and "snd (regionExtent (regionCandidate low r)) = snd (regionExtent r)"
    and "region_size r \<noteq> 0 \<Longrightarrow> region_size (regionCandidate low r) \<noteq> 0"
proof -
  let ?stop = "region_start r + region_size r"
  have e: "unat ?stop = unat (region_start r) + unat (region_size r)"
    using assms(1) by (rule unat_add_u64)
  have al: "region_start r \<le> align1MiB (region_start r)"
    unfolding word_le_nat_alt align1MiB_unat [OF assms(2)] by (rule round_up_ge)
  obtain s where s: "regionCandidate low r = \<lparr>region_start = s, region_size = ?stop - s\<rparr>"
    "region_start r \<le> s" "s = region_start r \<or> s < ?stop"
  proof (cases "low \<le> align1MiB (region_start r) \<and> align1MiB (region_start r) < ?stop")
    case True
    then have "regionCandidate low r =
        \<lparr>region_start = align1MiB (region_start r), region_size = ?stop - align1MiB (region_start r)\<rparr>"
      by (simp only: regionCandidate_def Let_def simp_thms if_True)
    then show ?thesis using that al True by blast
  next
    case False
    then have "regionCandidate low r =
        \<lparr>region_start = region_start r, region_size = ?stop - region_start r\<rparr>"
      by (simp only: regionCandidate_def Let_def simp_thms if_False)
    then show ?thesis using that by blast
  qed
  have le: "s \<le> ?stop"
    using s(3) e by (auto simp: word_le_nat_alt word_less_nat_alt)
  show "region_start r \<le> region_start (regionCandidate low r)"
    using s by simp
  show "snd (regionExtent (regionCandidate low r)) = snd (regionExtent r)"
    using le by (simp add: s(1) regionExtent_diff) (simp add: regionExtent_def e)
  show "region_size (regionCandidate low r) \<noteq> 0" if "region_size r \<noteq> 0"
    using s(1,3) that by auto
qed

lemma bestRegion_cases:
  "bestRegion low best rs = best \<or> (\<exists>r \<in> set rs. bestRegion low best rs = regionCandidate low r)"
proof (induction rs arbitrary: best)
  case (Cons r rs)
  let ?b = "if region_size best < region_size (regionCandidate low r) then regionCandidate low r else best"
  from Cons.IH [of ?b] show ?case by (auto simp: Let_def)
qed simp

lemma bestRegion_max:
  "region_size best \<le> region_size (bestRegion low best rs) \<and>
   (\<forall>r \<in> set rs. region_size (regionCandidate low r) \<le> region_size (bestRegion low best rs))"
proof (induction rs arbitrary: best)
  case (Cons r rs)
  let ?b = "if region_size best < region_size (regionCandidate low r) then regionCandidate low r else best"
  have "region_size best \<le> region_size ?b" "region_size (regionCandidate low r) \<le> region_size ?b"
    by auto
  with Cons.IH [of ?b] show ?case by (auto simp: Let_def)
qed simp

lemma bestRegion_zero:
  assumes "region_size (bestRegion low noRegion rs) = 0" "r \<in> set rs"
    and "unat (region_start r) + unat (region_size r) < 2 ^ 64"
    and "unat (region_start r) + 2047 < 2 ^ 64"
  shows "region_size r = 0"
  using bestRegion_max [of noRegion low rs] candidate_within(3) [OF assms(3,4)] assms(1,2)
  by fastforce

lemma bestRegion_within:
  assumes "region_size (bestRegion low noRegion rs) \<noteq> 0"
    and "\<forall>r \<in> set rs. unat (region_start r) + unat (region_size r) < 2 ^ 64 \<and>
           unat (region_start r) + 2047 < 2 ^ 64"
  obtains r where "r \<in> set rs"
    and "fst (regionExtent r) \<le> fst (regionExtent (bestRegion low noRegion rs))"
    and "snd (regionExtent (bestRegion low noRegion rs)) = snd (regionExtent r)"
proof -
  obtain r where r: "r \<in> set rs" "bestRegion low noRegion rs = regionCandidate low r"
    using bestRegion_cases [of low noRegion rs] assms(1) by (auto simp: noRegion_def)
  with assms(2) candidate_within [of r low] that show ?thesis
    by (auto simp: regionExtent_def word_le_nat_alt)
qed

text \<open>Every free region starts at sector 1 or where a partition ends, so no sum overflows.\<close>

lemma gapsUpTo_starts:
  "r \<in> set (gapsUpTo c us l) \<Longrightarrow> region_start r = c \<or> region_start r \<in> snd ` set us"
proof (induction us arbitrary: c)
  case Nil
  then show ?case by (auto simp: gapsUpTo_Nil split: if_splits)
next
  case (Cons u us)
  then show ?case by (fastforce simp: gapsUpTo_Cons split: if_splits)
qed

lemma mbr_region_bounds:
  assumes "validateCfdiskPartitions ps n = None" "0 < n" "cfdiskFreeRegions ps n = Inr rs" "r \<in> set rs"
  shows "unat (region_start r) + unat (region_size r) \<le> unat n"
    and "unat (region_start r) + 2047 < 2 ^ 64"
    and "regionExtent r \<in> set (mbrFree (ps, n))"
proof -
  show in_free: "regionExtent r \<in> set (mbrFree (ps, n))"
    using assms(3,4) by (simp add: mbrFree_def)
  then show "unat (region_start r) + unat (region_size r) \<le> unat n"
    using mbr_alloc.free_bounds [of "(ps, n)"] assms(1,2) by (force simp: regionExtent_def)
  have "region_start r = 1 \<or> region_start r \<in> snd ` set (mbrWords ps)"
    using assms gapsUpTo_starts [of r 1 "sort_key fst (mbrWords ps)" n]
    by (simp add: freeRegions_valid)
  then show "unat (region_start r) + 2047 < 2 ^ 64"
  proof
    assume "region_start r \<in> snd ` set (mbrWords ps)"
    then obtain p where "region_start r = partEnd p" by (auto simp: mbrWords_def)
    then show ?thesis
      using unat_u32_bound [of "part_start p"] unat_u32_bound [of "part_size p"] by simp
  qed simp
qed

lemma suggestion_is_free:
  assumes "cfdiskSuggestedFreeRegion ps n = Inr r" "0 < n"
  shows "0 < region_size r \<and>
         (\<exists>g \<in> set (mbrFree (ps, n)). fst g \<le> unat (region_start r) \<and>
            unat (region_start r) + unat (region_size r) = snd g)"
proof -
  from assms(1) obtain rs where rs: "cfdiskFreeRegions ps n = Inr rs"
    and r: "r = bestRegion 2048 noRegion rs" "region_size r \<noteq> 0"
    by (auto simp: cfdiskSuggestedFreeRegion_def Let_def split: sum.splits if_splits)
  then have v: "validateCfdiskPartitions ps n = None"
    by (auto simp: cfdiskFreeRegions_def split: option.splits)
  note b = mbr_region_bounds [OF v assms(2) rs]
  obtain g where "g \<in> set rs" "fst (regionExtent g) \<le> fst (regionExtent r)"
    "snd (regionExtent r) = snd (regionExtent g)"
    using bestRegion_within [of 2048 rs] r b unat_u64_bound [of n]
    by (metis (no_types, lifting) order_le_less_trans)
  with b(3) r(2) show ?thesis
    by (auto simp: regionExtent_def word_gt_0 intro!: bexI [of _ "regionExtent g"])
qed

lemma mbrRanges_error: "mbrRanges i seen ps n = Inl e \<Longrightarrow> e \<noteq> NoUnallocated"
  by (induction i seen ps n arbitrary: e rule: mbrRanges.induct) (auto split: if_splits sum.splits)

lemma validate_error: "validateCfdiskPartitions ps n = Some e \<Longrightarrow> e \<noteq> NoUnallocated"
  by (auto simp: validateCfdiskPartitions_def dest: mbrRanges_error split: sum.splits option.splits)

lemma no_suggestion_iff_full:
  assumes "0 < n"
  shows "cfdiskSuggestedFreeRegion ps n = Inl NoUnallocated \<longleftrightarrow>
         validateCfdiskPartitions ps n = None \<and>
         {1 ..< unat n} \<subseteq> (\<Union>x \<in> set (mbrExtents ps). ext_set x)"
proof (cases "validateCfdiskPartitions ps n")
  case (Some e)
  then show ?thesis
    using validate_error [OF Some]
    by (auto simp: cfdiskSuggestedFreeRegion_def cfdiskFreeRegions_def)
next
  case None
  define rs where "rs = gapsUpTo 1 (sort_key fst (mbrWords ps)) n"
  have rs: "cfdiskFreeRegions ps n = Inr rs" using None by (simp add: rs_def freeRegions_valid)
  note b = mbr_region_bounds [OF None assms rs]
  have nz: "region_size r \<noteq> 0" if "r \<in> set rs" for r
    using mbr_alloc.free_bounds [of "(ps, n)", OF _ b(3) [OF that]] None assms
    by (auto simp: regionExtent_def unat_gt_0)
  have "region_size (bestRegion 2048 noRegion rs) = 0 \<longleftrightarrow> rs = []"
  proof
    assume z: "region_size (bestRegion 2048 noRegion rs) = 0"
    have "r \<notin> set rs" for r
    proof
      assume r: "r \<in> set rs"
      have "unat (region_start r) + unat (region_size r) < 2 ^ 64"
        using b(1) [OF r] unat_u64_bound [of n] by (rule order_le_less_trans)
      then show False
        using bestRegion_zero [OF z r _ b(2) [OF r]] nz [OF r] by simp
    qed
    then show "rs = []" by (cases rs) auto
  qed (simp add: noRegion_def)
  moreover have "rs = [] \<longleftrightarrow> mbrFree (ps, n) = []" using rs by (simp add: mbrFree_def)
  ultimately show ?thesis
    using None assms mbr_alloc.free_empty_iff [of "(ps, n)"]
    by (simp add: cfdiskSuggestedFreeRegion_def rs Let_def)
qed

section \<open>Changing one slot\<close>

lemma mbr_wf_cong:
  assumes "mset (mbrUsed qs) = mset (mbrUsed ps)"
  shows "mbr_wf qs n \<longleftrightarrow> mbr_wf ps n"
proof -
  have s: "set (mbrUsed qs) = set (mbrUsed ps)" using assms by (metis set_mset_mset)
  have d: "sorted_wrt ext_disjoint (mbrExtents qs) \<longleftrightarrow> sorted_wrt ext_disjoint (mbrExtents ps)"
    by (rule sorted_wrt_perm [OF ext_disjoint_sym]) (simp add: mbrExtents_def assms)
  have c: "mbrExtendedCount qs = mbrExtendedCount ps"
    unfolding mbrExtendedCount_def using assms by (metis mset_filter size_mset)
  show ?thesis by (simp add: mbr_wf_def s d c)
qed

text \<open>Well-formedness of a table with one more used slot.\<close>

lemma mbr_wf_add:
  assumes "mset (mbrUsed qs) = add_mset p (mset (mbrUsed ps))" "part_size p \<noteq> 0"
  shows "mbr_wf qs n \<longleftrightarrow>
    part_start p \<noteq> 0 \<and> part_kind p \<noteq> 0 \<and> unat (part_start p) + unat (part_size p) \<le> n \<and>
    (\<forall>x \<in> set (mbrExtents ps). ext_disjoint (mbrExtent p) x) \<and>
    (cfdiskExtendedType (part_kind p) \<longrightarrow> mbrExtendedCount ps = 0) \<and> mbr_wf ps n"
proof -
  have u: "mbrUsed (p # ps) = p # mbrUsed ps" using assms(2) by simp
  have "mbr_wf qs n \<longleftrightarrow> mbr_wf (p # ps) n"
    by (rule mbr_wf_cong) (simp add: u assms(1) del: mbrUsed_simps)
  also have "\<dots> \<longleftrightarrow> part_start p \<noteq> 0 \<and> part_kind p \<noteq> 0 \<and>
      unat (part_start p) + unat (part_size p) \<le> n \<and>
      (\<forall>x \<in> set (mbrExtents ps). ext_disjoint (mbrExtent p) x) \<and>
      (cfdiskExtendedType (part_kind p) \<longrightarrow> mbrExtendedCount ps = 0) \<and> mbr_wf ps n"
    unfolding mbr_wf_def mbrExtents_def mbrExtendedCount_def u by auto
  finally show ?thesis .
qed

lemma mbrUsed_mset: "mset (mbrUsed ps) = filter_mset (\<lambda>p. part_size p \<noteq> 0) (mset ps)"
  by (simp add: mbrUsed_def)

lemma mbrUsed_fill:
  assumes "i < length ps" "part_size (ps ! i) = 0" "part_size p \<noteq> 0"
  shows "mset (mbrUsed (ps[i := p])) = add_mset p (mset (mbrUsed ps))"
  using assms by (simp add: mbrUsed_mset mset_update)

lemma mbrUsed_split:
  assumes "i < length ps" "part_size (ps ! i) \<noteq> 0"
  shows "mset (mbrUsed ps) = add_mset (ps ! i) (mset (mbrUsed (ps[i := noPartition])))"
  using assms mbrUsed_fill [of i "ps[i := noPartition]" "ps ! i"]
  by (simp add: noPartition_def)

lemma suggested_partition_valid:
  assumes "cfdiskSuggestedFreeRegion ps n = Inr r" "0 < n"
    and "i < length ps" "part_size (ps ! i) = 0"
    and "unat (region_start r) < 2 ^ 32" "unat (region_size r) < 2 ^ 32"
  shows "validateCfdiskPartitions
    (ps[i := \<lparr>part_start = ucast (region_start r), part_size = ucast (region_size r),
               part_kind = 0x83, part_bootable = False\<rparr>]) n = None"
proof -
  let ?p = "\<lparr>part_start = ucast (region_start r), part_size = ucast (region_size r),
               part_kind = 0x83, part_bootable = False\<rparr> :: mbrPartition"
  have cast: "unat (ucast x :: u32) = unat x" if "unat x < 2 ^ 32" for x :: u64
    using that by (simp add: unsigned_ucast_eq take_bit_nat_eq_self)
  have v: "validateCfdiskPartitions ps n = None"
    using assms(1)
    by (auto simp: cfdiskSuggestedFreeRegion_def cfdiskFreeRegions_def split: sum.splits option.splits)
  obtain g where g: "g \<in> set (mbrFree (ps, n))" "fst g \<le> unat (region_start r)"
    "unat (region_start r) + unat (region_size r) = snd g" and pos: "0 < region_size r"
    using suggestion_is_free [OF assms(1,2)] by blast
  have ext: "mbrExtent ?p = (unat (region_start r), snd g)"
    using g(3) assms(5,6) by (simp add: mbrExtent_def cast)
  have al: "sorted_wrt ext_disjoint (mbrExtent ?p # mbrExtents ps) \<and> 1 \<le> fst (mbrExtent ?p) \<and>
        snd (mbrExtent ?p) \<le> unat n"
    using mbr_alloc.allocate [of "(ps, n)" g "mbrExtent ?p"] v assms(2) g ext by simp
  have nz: "part_size ?p \<noteq> 0" "part_start ?p \<noteq> 0"
    using pos al ext cast [OF assms(5)] cast [OF assms(6)] by (auto simp: word_gt_0 simp flip: unat_gt_0)
  have "mset (mbrUsed (ps[i := ?p])) = add_mset ?p (mset (mbrUsed ps))"
    using assms(3,4) nz(1) by (rule mbrUsed_fill)
  from mbr_wf_add [OF this nz(1), of "unat n"] al nz v show ?thesis
    by (simp add: validate_iff_wf cfdiskExtendedType_def mbrExtent_def)
qed

section \<open>Sorting the slots\<close>

lemma mbrUsed_append: "mbrUsed (xs @ ys) = mbrUsed xs @ mbrUsed ys"
  by (simp add: mbrUsed_def)

lemma sortedPartitions_used:
  assumes "length ps \<le> 4"
  shows "mbrUsed (cfdiskSortedPartitions ps) = sort_key part_start (mbrUsed ps)"
proof -
  have le: "length (sort_key part_start (mbrUsed ps)) \<le> 4"
    using assms le_trans [OF length_filter_le] by (simp add: mbrUsed_def)
  have "mbrUsed (sort_key part_start (mbrUsed ps)) = sort_key part_start (mbrUsed ps)"
    by (simp add: mbrUsed_def filter_id_conv)
  moreover have "mbrUsed (replicate k noPartition) = []" for k
    by (induction k) (auto simp: noPartition_def)
  moreover have "cfdiskSortedPartitions ps =
      sort_key part_start (mbrUsed ps) @ drop (length (mbrUsed ps)) (replicate 4 noPartition)"
    using le unfolding cfdiskSortedPartitions_def copyInto_def by (simp add: mbrUsed_def)
  ultimately show ?thesis by (simp add: mbrUsed_append)
qed

lemma sorted_partitions_correct:
  assumes "length ps = 4"
  shows "length (cfdiskSortedPartitions ps) = 4 \<and>
         mset (mbrUsed (cfdiskSortedPartitions ps)) = mset (mbrUsed ps) \<and>
         sorted (map part_start (mbrUsed (cfdiskSortedPartitions ps))) \<and>
         (validateCfdiskPartitions (cfdiskSortedPartitions ps) n = None \<longleftrightarrow>
          validateCfdiskPartitions ps n = None)"
proof -
  have m: "mset (mbrUsed (cfdiskSortedPartitions ps)) = mset (mbrUsed ps)"
    using assms by (simp add: sortedPartitions_used)
  then have "validateCfdiskPartitions (cfdiskSortedPartitions ps) n = None \<longleftrightarrow>
      validateCfdiskPartitions ps n = None"
    unfolding validate_iff_wf by (rule mbr_wf_cong)
  with m assms show ?thesis
    by (simp add: sortedPartitions_used) (simp add: cfdiskSortedPartitions_def)
qed

section \<open>Properties of the MBR editor\<close>

text \<open>
  Whatever sector the table is built from, reading the four entries back
  gives the table, with unused slots blank; the signature is in place and the boot code in
  front of the table is kept.\<close>

lemma mbr_roundtrip:
  assumes "length ps = 4"
  shows "cfdiskReadPartitions (cfdiskBuildMBR original ps) = map mbrSlot ps \<and>
    cfdiskBuildMBR original ps ! 510 = 0x55 \<and> cfdiskBuildMBR original ps ! 511 = 0xaa \<and>
    (length original = 512 \<longrightarrow> take 446 (cfdiskBuildMBR original ps) = take 446 original)"
proof (intro conjI)
  show "cfdiskReadPartitions (cfdiskBuildMBR original ps) = map mbrSlot ps"
  proof (rule nth_equalityI)
    show "length (cfdiskReadPartitions (cfdiskBuildMBR original ps)) = length (map mbrSlot ps)"
      using assms by (simp add: cfdiskReadPartitions_def)
    fix k assume "k < length (cfdiskReadPartitions (cfdiskBuildMBR original ps))"
    then have "k < 4" by (simp add: cfdiskReadPartitions_def)
    then show "cfdiskReadPartitions (cfdiskBuildMBR original ps) ! k = map mbrSlot ps ! k"
      using read_build_entry [OF assms] assms by (simp add: cfdiskReadPartitions_def)
  qed
  show "cfdiskBuildMBR original ps ! 510 = 0x55" "cfdiskBuildMBR original ps ! 511 = 0xaa"
    using buildMBR_signature [OF assms] by simp_all
  show "length original = 512 \<longrightarrow> take 446 (cfdiskBuildMBR original ps) = take 446 original"
    using assms nth_buildMBR_boot by (auto intro!: nth_equalityI)
qed

definition exampleTable :: "mbrPartition list" where
  "exampleTable =
     [\<lparr>part_start = 2048, part_size = 4096, part_kind = 0x83, part_bootable = True\<rparr>, noPartition,
      \<lparr>part_start = 8192, part_size = 2048, part_kind = 0x82, part_bootable = False\<rparr>, noPartition]"

lemma length_exampleTable [simp]: "length exampleTable = 4"
  by (simp add: exampleTable_def)

text \<open>C33 (equivalence): the validator accepts a table exactly when every used slot has a start,
  a type and an end on the disk, the used extents are pairwise disjoint, and at most one slot
  is extended - although the code compares only neighbours after sorting.\<close>

theorem validator_accepts_exactly:
  "validateCfdiskPartitions ps sectors = None \<longleftrightarrow> mbr_wf ps (unat sectors)"
  by (rule validate_iff_wf)

text \<open>The free regions of an accepted table are pairwise disjoint and cover
  exactly the sectors from 1 to the end of the disk that no partition uses.\<close>

lemma free_regions_exact:
  assumes "cfdiskFreeRegions ps n = Inr rs" "0 < n"
  shows "(\<Union>r \<in> set rs. ext_set (regionExtent r)) =
         {1 ..< unat n} - (\<Union>p \<in> set (mbrUsed ps). ext_set (mbrExtent p)) \<and>
         sorted_wrt ext_disjoint (map regionExtent rs)"
proof -
  have v: "validateCfdiskPartitions ps n = None \<and> 0 < n"
    using assms by (auto simp: cfdiskFreeRegions_def split: option.splits)
  have f: "mbrFree (ps, n) = map regionExtent rs" using assms(1) by (simp add: mbrFree_def)
  show ?thesis
    using mbr_alloc.free_exact [of "(ps, n)"] mbr_alloc.free_disjoint [of "(ps, n)"] v f
    by (simp add: mbrExtents_def)
qed

lemma exampleTable_valid: "validateCfdiskPartitions exampleTable 16384 = None"
  by (simp add: validate_iff_wf mbr_wf_def exampleTable_def mbrExtents_def mbrExtent_def
      mbrExtendedCount_def cfdiskExtendedType_def noPartition_def ext_disjoint_def)

text \<open>
  Sorting the slots keeps the same partitions, puts them in start order from
  slot 1 on, and neither makes a table valid nor invalid.\<close>

lemma sorting_slots:
  assumes "length ps = 4"
  shows "length (cfdiskSortedPartitions ps) = 4 \<and>
         mset (mbrUsed (cfdiskSortedPartitions ps)) = mset (mbrUsed ps) \<and>
         sorted (map part_start (mbrUsed (cfdiskSortedPartitions ps))) \<and>
         (validateCfdiskPartitions (cfdiskSortedPartitions ps) n = None \<longleftrightarrow>
          validateCfdiskPartitions ps n = None)"
  using assms by (rule sorted_partitions_correct)

end
