(* ===== verification/Ebr.thy ===== *)
theory Ebr
  imports Mbr
begin

text \<open>
  Extended and logical partitions (\<open>cfdisk_extended_linux.go\<close>): the chain of boot records is
  read from the device, validated, searched for free space, encoded and written.  The
  logical partitions of one container implement the allocator interface, with each boot
  record counted as used space (interpretation \<open>ebr_alloc\<close>).
\<close>

section \<open>Data\<close>

record cfdiskLogical =
  log_part :: mbrPartition
  log_ebr :: u64

record cfdiskLogicalRegion =
  lr_ebr :: u64
  lr_start :: u64
  lr_size :: u64

record cfdiskEBRWrite =
  ew_lba :: u64
  ew_sector :: bytes

datatype ebr_error =
    ChainTooLong
  | ChainOutside
  | ChainReadError
  | LogicalOutsideExtended u64
  | ChainDoesNotAdvance
  | NoSpaceInside
  | StartNotFree u64
  | LogNoSize nat
  | LogNoType nat
  | LogExtended nat
  | LogBadRecord nat
  | LogOutside nat
  | LogOverlaps nat nat
  | LogTooFar nat
  | LogBadChain nat

definition maxU32 :: u64 where
  "maxU32 = 0xFFFFFFFF"

definition logStart :: "cfdiskLogical \<Rightarrow> u64" where
  "logStart e = u64of (part_start (log_part e))"

definition logEnd :: "cfdiskLogical \<Rightarrow> u64" where
  "logEnd e = partEnd (log_part e)"

section \<open>Reading the chain\<close>

definition cfdiskEBRChainLimit :: nat where
  "cfdiskEBRChainLimit = 256"

text \<open>A 512-byte buffer after \<open>ReadAt\<close>: a short read leaves the rest zero.\<close>

definition readSector :: "device \<Rightarrow> nat \<Rightarrow> bytes option" where
  "readSector d off = map_option (copyInto (replicate 512 0)) (readAt d off 512)"

text \<open>The loop of \<open>cfdiskReadLogicalChain\<close>; \<open>hops\<close> counts down the chain limit.\<close>

fun readChain :: "nat \<Rightarrow> device \<Rightarrow> mbrPartition \<Rightarrow> u64 \<Rightarrow> u64 \<Rightarrow> ebr_error + cfdiskLogical list" where
  "readChain 0 file extended diskSectors ebrLBA = Inl ChainTooLong"
| "readChain (Suc hops) file extended diskSectors ebrLBA =
     (let containerEnd = partEnd extended in
      if ebrLBA < u64of (part_start extended) \<or> containerEnd \<le> ebrLBA \<or> diskSectors \<le> ebrLBA
      then Inl ChainOutside
      else (case readSector file (unat ebrLBA * 512) of
        None \<Rightarrow> Inl ChainReadError
      | Some sector \<Rightarrow>
          if sector ! 510 \<noteq> 0x55 \<or> sector ! 511 \<noteq> 0xaa then Inr []
          else
            let logicalEntry = cfdiskReadEntry sector 446;
                linkEntry = cfdiskReadEntry sector 462;
                dataStart = ebrLBA + u64of (part_start logicalEntry);
                nextEBR = u64of (part_start extended) + u64of (part_start linkEntry)
            in if part_size logicalEntry \<noteq> 0 \<and>
                  (maxU32 < dataStart \<or> containerEnd < dataStart + u64of (part_size logicalEntry))
               then Inl (LogicalOutsideExtended ebrLBA)
               else
                 let here = (if part_size logicalEntry = 0 then []
                             else [\<lparr>log_part = logicalEntry\<lparr>part_start := ucast dataStart\<rparr>,
                                    log_ebr = ebrLBA\<rparr>])
                 in if part_size linkEntry = 0 then Inr here
                    else if nextEBR \<le> ebrLBA then Inl ChainDoesNotAdvance
                    else (case readChain hops file extended diskSectors nextEBR of
                            Inl e \<Rightarrow> Inl e
                          | Inr rest \<Rightarrow> Inr (here @ rest))))"

definition cfdiskReadLogicalChain :: "device \<Rightarrow> mbrPartition \<Rightarrow> u64 \<Rightarrow> ebr_error + cfdiskLogical list" where
  "cfdiskReadLogicalChain file extended diskSectors =
     (case readChain cfdiskEBRChainLimit file extended diskSectors (u64of (part_start extended)) of
        Inl e \<Rightarrow> Inl e
      | Inr result \<Rightarrow> Inr (sort_key (\<lambda>e. part_start (log_part e)) result))"

section \<open>Free space inside the container\<close>

definition cfdiskLogicalFreeRegions :: "mbrPartition \<Rightarrow> cfdiskLogical list \<Rightarrow> cfdiskFreeRegion list" where
  "cfdiskLogicalFreeRegions extended logical =
     (let used = map (\<lambda>e. (log_ebr e, logEnd e)) logical
      in gapsUpTo (u64of (part_start extended)) (sort_key fst used) (partEnd extended))"

definition logicalCandidate :: "cfdiskFreeRegion \<Rightarrow> cfdiskLogicalRegion option" where
  "logicalCandidate region =
     (let ebrLBA = region_start region;
          dataStart = align1MiB (ebrLBA + 1);
          regionEnd = region_start region + region_size region
      in if regionEnd \<le> dataStart then None
         else Some \<lparr>lr_ebr = ebrLBA, lr_start = dataStart, lr_size = regionEnd - dataStart\<rparr>)"

fun bestLogical :: "cfdiskLogicalRegion \<Rightarrow> cfdiskFreeRegion list \<Rightarrow> cfdiskLogicalRegion" where
  "bestLogical best [] = best"
| "bestLogical best (r # rs) =
     (case logicalCandidate r of
        None \<Rightarrow> bestLogical best rs
      | Some candidate \<Rightarrow>
          bestLogical (if lr_size best < lr_size candidate then candidate else best) rs)"

definition cfdiskSuggestedLogicalRegion ::
    "mbrPartition \<Rightarrow> cfdiskLogical list \<Rightarrow> ebr_error + cfdiskLogicalRegion" where
  "cfdiskSuggestedLogicalRegion extended logical =
     (let best = bestLogical \<lparr>lr_ebr = 0, lr_start = 0, lr_size = 0\<rparr>
                   (cfdiskLogicalFreeRegions extended logical)
      in if lr_size best = 0 then Inl NoSpaceInside else Inr best)"

text \<open>The gap a chosen start falls into; the record goes at the gap's first sector.\<close>

definition cfdiskLogicalBootRecordFor ::
    "mbrPartition \<Rightarrow> cfdiskLogical list \<Rightarrow> u64 \<Rightarrow> ebr_error + u64" where
  "cfdiskLogicalBootRecordFor extended logical start =
     (case filter (\<lambda>r. region_start r < start \<and> start < region_start r + region_size r)
             (cfdiskLogicalFreeRegions extended logical) of
        [] \<Rightarrow> Inl (StartNotFree start)
      | r # _ \<Rightarrow> Inr (region_start r))"

section \<open>Validation\<close>

fun logRanges ::
    "nat \<Rightarrow> mbrPartition \<Rightarrow> cfdiskLogical list \<Rightarrow> ebr_error + (u64 \<times> u64 \<times> nat) list" where
  "logRanges index extended [] = Inr []"
| "logRanges index extended (e # es) =
     (if part_size (log_part e) = 0 then Inl (LogNoSize (index + 5))
      else if part_kind (log_part e) = 0 then Inl (LogNoType (index + 5))
      else if cfdiskExtendedType (part_kind (log_part e)) then Inl (LogExtended (index + 5))
      else if log_ebr e < u64of (part_start extended) \<or> logStart e \<le> log_ebr e
      then Inl (LogBadRecord (index + 5))
      else if partEnd extended < logEnd e then Inl (LogOutside (index + 5))
      else (case logRanges (Suc index) extended es of
              Inl err \<Rightarrow> Inl err
            | Inr ranges \<Rightarrow> Inr ((log_ebr e, logEnd e, index) # ranges)))"

definition validateCfdiskLogicalPartitions :: "mbrPartition \<Rightarrow> cfdiskLogical list \<Rightarrow> ebr_error option" where
  "validateCfdiskLogicalPartitions extended logical =
     (case logRanges 0 extended logical of
        Inl e \<Rightarrow> Some e
      | Inr ranges \<Rightarrow>
          (case firstConflict (\<lambda>a b. fst b < fst (snd a)) (sort_key fst ranges) of
             None \<Rightarrow> None
           | Some (a, b) \<Rightarrow> Some (LogOverlaps (snd (snd b) + 5) (snd (snd a) + 5))))"

section \<open>Building and writing the chain\<close>

text \<open>The link entry of record \<open>index\<close>, from the logical partitions that follow it.\<close>

definition ebrLink :: "nat \<Rightarrow> mbrPartition \<Rightarrow> cfdiskLogical list \<Rightarrow> ebr_error + mbrPartition" where
  "ebrLink index extended following =
     (case following of
        [] \<Rightarrow> Inr noPartition
      | e1 # rest \<Rightarrow>
          (let nextEBR = log_ebr e1 in
           if nextEBR < u64of (part_start extended) then Inl (LogBadRecord (index + 6))
           else
             let linkEnd = (case rest of [] \<Rightarrow> partEnd extended | e2 # _ \<Rightarrow> log_ebr e2);
                 linkStart = nextEBR - u64of (part_start extended)
             in if linkEnd \<le> nextEBR \<or> maxU32 < linkStart \<or> maxU32 < linkEnd - nextEBR
                then Inl (LogBadChain (index + 6))
                else Inr \<lparr>part_start = ucast linkStart, part_size = ucast (linkEnd - nextEBR),
                          part_kind = part_kind extended, part_bootable = False\<rparr>))"

fun ebrWrites :: "nat \<Rightarrow> mbrPartition \<Rightarrow> cfdiskLogical list \<Rightarrow> ebr_error + cfdiskEBRWrite list" where
  "ebrWrites index extended [] = Inr []"
| "ebrWrites index extended (e # es) =
     (if logStart e \<le> log_ebr e then Inl (LogBadRecord (index + 5))
      else
        let relStart = logStart e - log_ebr e in
        if maxU32 < relStart then Inl (LogTooFar (index + 5))
        else (case ebrLink index extended es of
          Inl err \<Rightarrow> Inl err
        | Inr link \<Rightarrow>
            let table = [(log_part e)\<lparr>part_start := ucast relStart\<rparr>, link, noPartition, noPartition];
                sector = cfdiskBuildMBR (replicate 512 0) table
            in (case ebrWrites (Suc index) extended es of
                  Inl err \<Rightarrow> Inl err
                | Inr writes \<Rightarrow> Inr (\<lparr>ew_lba = log_ebr e, ew_sector = sector\<rparr> # writes))))"

definition cfdiskBuildEBRChain :: "mbrPartition \<Rightarrow> cfdiskLogical list \<Rightarrow> ebr_error + cfdiskEBRWrite list" where
  "cfdiskBuildEBRChain extended logical =
     (if logical = [] then Inr []
      else ebrWrites 0 extended (sort_key (\<lambda>e. part_start (log_part e)) logical))"

fun writeRecords :: "device \<Rightarrow> cfdiskEBRWrite list \<Rightarrow> device \<times> bool" where
  "writeRecords d [] = (d, True)"
| "writeRecords d (w # ws) =
     (let (d', ok) = writeAt d (unat (ew_lba w) * 512) (ew_sector w)
      in if ok then writeRecords d' ws else (d', False))"

definition writeCfdiskEBRChain :: "device \<Rightarrow> cfdiskEBRWrite list \<Rightarrow> device \<times> bool" where
  "writeCfdiskEBRChain device writes =
     (if writes = [] then (device, True)
      else if dev_noopen device then (device, False)
      else let (d, ok) = writeRecords device writes
           in (d, ok \<and> \<not> dev_nosync device))"

section \<open>What the validator accepts\<close>

definition logExtent :: "cfdiskLogical \<Rightarrow> extent" where
  "logExtent e = (unat (log_ebr e), unat (logEnd e))"

definition log_ok :: "mbrPartition \<Rightarrow> cfdiskLogical \<Rightarrow> bool" where
  "log_ok ext e \<longleftrightarrow>
     part_size (log_part e) \<noteq> 0 \<and> part_kind (log_part e) \<noteq> 0 \<and>
     \<not> cfdiskExtendedType (part_kind (log_part e)) \<and>
     unat (part_start ext) \<le> unat (log_ebr e) \<and> unat (log_ebr e) < unat (logStart e) \<and>
     unat (logEnd e) \<le> unat (partEnd ext)"

text \<open>The specification: each logical partition is a real partition behind its own boot record
  inside the container, and the extents, records included, are pairwise disjoint.\<close>

definition log_wf :: "mbrPartition \<Rightarrow> cfdiskLogical list \<Rightarrow> bool" where
  "log_wf ext ls \<longleftrightarrow>
     (\<forall>e \<in> set ls. log_ok ext e) \<and> sorted_wrt ext_disjoint (map logExtent ls)"

lemma unat_logStart [simp]: "unat (logStart e) = unat (part_start (log_part e))"
  by (simp add: logStart_def)

lemma unat_logEnd:
  "unat (logEnd e) = unat (part_start (log_part e)) + unat (part_size (log_part e))"
  by (simp add: logEnd_def)

lemma log_ok_extent: "log_ok ext e \<Longrightarrow> fst (logExtent e) < snd (logExtent e)"
  by (simp add: log_ok_def logExtent_def unat_logEnd)

lemma logRanges_Inr:
  "logRanges i ext ls = Inr rs \<Longrightarrow> map rangeExtent rs = map logExtent ls"
  by (induction i ext ls arbitrary: rs rule: logRanges.induct)
    (auto simp: rangeExtent_def logExtent_def split: if_splits sum.splits)

lemma logRanges_ok_iff:
  "(\<exists>rs. logRanges i ext ls = Inr rs) \<longleftrightarrow> (\<forall>e \<in> set ls. log_ok ext e)"
  by (induction i ext ls rule: logRanges.induct)
    (auto simp: log_ok_def word_less_nat_alt word_le_nat_alt not_less not_le split: sum.splits)

lemma firstConflict_log_iff:
  assumes "map rangeExtent rs = map logExtent ls" "\<forall>e \<in> set ls. log_ok ext e"
  shows "firstConflict (\<lambda>a b. fst b < fst (snd a)) (sort_key fst rs) = None \<longleftrightarrow>
         sorted_wrt ext_disjoint (map logExtent ls)"
proof -
  have ne: "fst (rangeExtent r) < snd (rangeExtent r)" if "r \<in> set rs" for r
  proof -
    from that have "rangeExtent r \<in> set (map rangeExtent rs)" by simp
    then obtain e where "e \<in> set ls" "rangeExtent r = logExtent e"
      unfolding assms(1) by auto
    with assms(2) log_ok_extent [of ext e] show ?thesis by simp
  qed
  have "firstConflict (\<lambda>a b. fst b < fst (snd a)) (sort_key fst rs) = None \<longleftrightarrow>
        sorted_wrt ext_disjoint (map rangeExtent (sort_key fst rs))"
    by (rule firstConflict_None_iff [where ex = rangeExtent])
      (use ne sort_ranges_extent in \<open>auto simp: rangeExtent_def word_less_nat_alt\<close>)
  also have "\<dots> \<longleftrightarrow> sorted_wrt ext_disjoint (map rangeExtent rs)"
    by (rule sorted_wrt_perm [OF ext_disjoint_sym]) simp
  finally show ?thesis using assms(1) by simp
qed

lemma validateLogical_iff_wf: "validateCfdiskLogicalPartitions ext ls = None \<longleftrightarrow> log_wf ext ls"
proof (cases "logRanges 0 ext ls")
  case (Inl e)
  then show ?thesis
    using logRanges_ok_iff [of 0 ext ls]
    by (auto simp: validateCfdiskLogicalPartitions_def log_wf_def)
next
  case (Inr rs)
  with logRanges_ok_iff [of 0 ext ls] firstConflict_log_iff [OF logRanges_Inr [OF Inr]]
  show ?thesis
    by (auto simp: validateCfdiskLogicalPartitions_def log_wf_def split: option.splits)
qed

section \<open>The container is an allocator\<close>

definition logWords :: "cfdiskLogical list \<Rightarrow> (u64 \<times> u64) list" where
  "logWords ls = map (\<lambda>e. (log_ebr e, logEnd e)) ls"

lemma logWords_extents: "map wordExtent (logWords ls) = map logExtent ls"
  by (simp add: logWords_def wordExtent_def logExtent_def)

lemma log_chain:
  assumes "log_wf ext ls"
  shows "chain (unat (part_start ext)) (map wordExtent (sort_key fst (logWords ls))) (unat (partEnd ext))"
proof (rule sort_key_chain)
  show "sorted_wrt ext_disjoint (map wordExtent (logWords ls))"
    using assms by (simp add: logWords_extents log_wf_def)
  show "\<forall>u \<in> set (logWords ls). unat (part_start ext) \<le> unat (fst u) \<and> fst u < snd u \<and>
      unat (snd u) \<le> unat (partEnd ext)"
    using assms
    by (force simp: log_wf_def log_ok_def logWords_def word_less_nat_alt unat_logEnd)
qed simp

definition logFree :: "mbrPartition \<times> cfdiskLogical list \<Rightarrow> extent list" where
  "logFree t = map regionExtent (cfdiskLogicalFreeRegions (fst t) (snd t))"

interpretation ebr_alloc: disk_allocator
  "\<lambda>t. validateCfdiskLogicalPartitions (fst t) (snd t) = None"
  "\<lambda>t. map logExtent (snd t)" "\<lambda>t. unat (part_start (fst t))" "\<lambda>t. unat (partEnd (fst t))" logFree
proof
  fix t :: "mbrPartition \<times> cfdiskLogical list"
  obtain ext ls where t: "t = (ext, ls)" by force
  let ?xs = "map wordExtent (sort_key fst (logWords ls))"
  assume "validateCfdiskLogicalPartitions (fst t) (snd t) = None"
  then have ch: "chain (unat (part_start ext)) ?xs (unat (partEnd ext))"
    using log_chain validateLogical_iff_wf by (auto simp: t)
  then have "logFree t = gaps (unat (part_start ext)) ?xs (unat (partEnd ext))"
    using gapsUpTo_gaps [of "u64of (part_start ext)" "sort_key fst (logWords ls)" "partEnd ext"]
    by (simp add: logFree_def t cfdiskLogicalFreeRegions_def logWords_def)
  moreover have "mset ?xs = mset (map logExtent ls)"
    by (simp flip: logWords_extents)
  ultimately show "\<exists>xs. mset xs = mset (map logExtent (snd t)) \<and>
      chain (unat (part_start (fst t))) xs (unat (partEnd (fst t))) \<and>
      logFree t = gaps (unat (part_start (fst t))) xs (unat (partEnd (fst t)))"
    using ch by (simp only: t fst_conv snd_conv) blast
qed

section \<open>New logical partitions\<close>

lemma unat_partEnd_bound: "unat (partEnd p) + 2049 < 2 ^ 64"
  using unat_u32_bound [of "part_start p"] unat_u32_bound [of "part_size p"] by simp

lemma log_region_bounds:
  assumes "validateCfdiskLogicalPartitions ext ls = None" "r \<in> set (cfdiskLogicalFreeRegions ext ls)"
  shows "regionExtent r \<in> set (logFree (ext, ls))"
    and "unat (part_start ext) \<le> unat (region_start r)"
    and "unat (region_start r + region_size r) = unat (region_start r) + unat (region_size r)"
    and "unat (region_start r) + unat (region_size r) \<le> unat (partEnd ext)"
proof -
  show in_free: "regionExtent r \<in> set (logFree (ext, ls))"
    using assms(2) by (simp add: logFree_def)
  with ebr_alloc.free_bounds [of "(ext, ls)" "regionExtent r"] assms(1)
  show "unat (part_start ext) \<le> unat (region_start r)"
    and le: "unat (region_start r) + unat (region_size r) \<le> unat (partEnd ext)"
    by (simp_all add: regionExtent_def)
  show "unat (region_start r + region_size r) = unat (region_start r) + unat (region_size r)"
    using le unat_partEnd_bound [of ext] by (intro unat_add_u64) simp
qed

lemma bestLogical_cases:
  "bestLogical best rs = best \<or> (\<exists>r \<in> set rs. logicalCandidate r = Some (bestLogical best rs))"
proof (induction rs arbitrary: best)
  case (Cons r rs)
  show ?case
  proof (cases "logicalCandidate r")
    case None
    with Cons.IH [of best] show ?thesis by auto
  next
    case (Some c)
    with Cons.IH [of "if lr_size best < lr_size c then c else best"] show ?thesis
      by (auto split: if_splits)
  qed
qed simp

lemma suggested_logical_free:
  assumes "validateCfdiskLogicalPartitions ext ls = None"
    and "cfdiskSuggestedLogicalRegion ext ls = Inr c"
  shows "\<exists>g \<in> set (logFree (ext, ls)).
    unat (lr_ebr c) = fst g \<and> fst g < unat (lr_start c) \<and> unat (lr_start c) mod 2048 = 0 \<and>
    0 < lr_size c \<and> unat (lr_start c) + unat (lr_size c) = snd g"
proof -
  obtain r where r: "r \<in> set (cfdiskLogicalFreeRegions ext ls)" "logicalCandidate r = Some c"
    and nz: "lr_size c \<noteq> 0"
    using bestLogical_cases [of "\<lparr>lr_ebr = 0, lr_start = 0, lr_size = 0\<rparr>"
        "cfdiskLogicalFreeRegions ext ls"] assms(2)
    by (auto simp: cfdiskSuggestedLogicalRegion_def Let_def split: if_splits)
  note b = log_region_bounds [OF assms(1) r(1)]
  have small: "unat (region_start r) + 1 + 2047 < 2 ^ 64"
    using b(4) unat_partEnd_bound [of ext] by simp
  have one: "unat (region_start r + 1) = unat (region_start r) + 1"
    using small by (subst unat_add_u64) auto
  have al: "unat (align1MiB (region_start r + 1)) = (unat (region_start r) + 2048) div 2048 * 2048"
    using small by (subst align1MiB_unat) (simp_all add: one)
  from r(2) have c: "lr_ebr c = region_start r" "lr_start c = align1MiB (region_start r + 1)"
    "lr_size c = region_start r + region_size r - lr_start c"
    "lr_start c < region_start r + region_size r"
    by (auto simp: logicalCandidate_def Let_def not_le split: if_splits)
  have "unat (lr_start c) + unat (lr_size c) = unat (region_start r) + unat (region_size r)"
    using c(3,4) b(3) by (simp add: unat_sub_u64 word_less_nat_alt word_le_nat_alt)
  moreover have "unat (region_start r) < unat (lr_start c)" "unat (lr_start c) mod 2048 = 0"
    using round_up_ge [of "unat (region_start r) + 1"] unfolding c(2) al by (simp_all add: add.commute)
  ultimately show ?thesis
    using b(1) nz c(1) by (intro bexI [of _ "regionExtent r"]) (auto simp: regionExtent_def word_gt_0)
qed

lemma bootRecordFor_free:
  assumes "validateCfdiskLogicalPartitions ext ls = None"
    and "cfdiskLogicalBootRecordFor ext ls s = Inr b"
  shows "\<exists>g \<in> set (logFree (ext, ls)). unat b = fst g \<and> fst g < unat s \<and> unat s < snd g"
proof -
  let ?P = "\<lambda>r. region_start r < s \<and> s < region_start r + region_size r"
  obtain r rs where f: "filter ?P (cfdiskLogicalFreeRegions ext ls) = r # rs" "b = region_start r"
    using assms(2) by (auto simp: cfdiskLogicalBootRecordFor_def split: list.splits)
  then have "r \<in> set (filter ?P (cfdiskLogicalFreeRegions ext ls))" by simp
  with f(2) log_region_bounds [OF assms(1), of r] show ?thesis
    by (intro bexI [of _ "regionExtent r"]) (auto simp: regionExtent_def word_less_nat_alt)
qed

lemma log_wf_perm:
  assumes "mset ls' = mset ls"
  shows "log_wf ext ls' \<longleftrightarrow> log_wf ext ls"
proof -
  have "sorted_wrt ext_disjoint (map logExtent ls') \<longleftrightarrow> sorted_wrt ext_disjoint (map logExtent ls)"
    by (rule sorted_wrt_perm [OF ext_disjoint_sym]) (simp add: assms)
  moreover have "set ls' = set ls" using assms by (metis set_mset_mset)
  ultimately show ?thesis by (simp add: log_wf_def)
qed

text \<open>A logical partition inside one gap, its record at the gap's first sector.\<close>

lemma new_logical_valid:
  assumes v: "validateCfdiskLogicalPartitions ext ls = None"
    and g: "g \<in> set (logFree (ext, ls))" "unat (log_ebr e) = fst g" "fst g < unat (logStart e)"
      "unat (logEnd e) \<le> snd g"
    and k: "part_size (log_part e) \<noteq> 0" "part_kind (log_part e) \<noteq> 0"
      "\<not> cfdiskExtendedType (part_kind (log_part e))"
  shows "validateCfdiskLogicalPartitions ext (ls @ [e]) = None"
proof -
  have "log_wf ext (e # ls)"
    using ebr_alloc.allocate [of "(ext, ls)" g "logExtent e"] v g k
    by (auto simp: validateLogical_iff_wf log_wf_def log_ok_def logExtent_def)
  then show ?thesis
    using log_wf_perm [of "ls @ [e]" "e # ls" ext] by (simp add: validateLogical_iff_wf)
qed

section \<open>The chain round trip\<close>

abbreviation sortLogical :: "cfdiskLogical list \<Rightarrow> cfdiskLogical list" where
  "sortLogical \<equiv> sort_key (\<lambda>e. part_start (log_part e))"

lemma sorted_logical_chain:
  assumes "log_wf ext ls"
  shows "chain (unat (part_start ext)) (map logExtent (sortLogical ls)) (unat (partEnd ext))"
proof (rule sorted_disjoint_chain)
  have wf: "log_wf ext (sortLogical ls)" using assms log_wf_perm [of "sortLogical ls" ls] by simp
  then show dj: "sorted_wrt ext_disjoint (map logExtent (sortLogical ls))"
    by (simp add: log_wf_def)
  show "\<forall>x \<in> set (map logExtent (sortLogical ls)). unat (part_start ext) \<le> fst x \<and> fst x < snd x \<and>
      snd x \<le> unat (partEnd ext)"
  proof
    fix x assume "x \<in> set (map logExtent (sortLogical ls))"
    then obtain e where e: "e \<in> set ls" "x = logExtent e" by auto
    with assms have "log_ok ext e" by (simp add: log_wf_def)
    then show "unat (part_start ext) \<le> fst x \<and> fst x < snd x \<and> snd x \<le> unat (partEnd ext)"
      using log_ok_extent [of ext e] e(2) by (simp add: log_ok_def logExtent_def)
  qed
  have srt: "sorted_wrt (\<lambda>a b. part_start (log_part a) \<le> part_start (log_part b)) (sortLogical ls)"
    using sorted_sort_key [of "\<lambda>e. part_start (log_part e)" ls] by (simp only: sorted_map)
  have ok: "\<forall>e \<in> set (sortLogical ls). log_ok ext e" using wf by (simp add: log_wf_def)
  have "sorted_wrt (\<lambda>a b. log_ebr a \<le> log_ebr b) (sortLogical ls)"
  proof -
    have "sorted_wrt (\<lambda>a b. part_start (log_part a) \<le> part_start (log_part b) \<and>
        ext_disjoint (logExtent a) (logExtent b)) (sortLogical ls)"
      using srt dj by (simp add: sorted_wrt_iff_nth_less)
    then show ?thesis
      using ok
      by (elim sorted_wrt_mono_rel [rotated])
        (fastforce simp: ext_disjoint_def logExtent_def log_ok_def word_le_nat_alt unat_logEnd)
  qed
  then show "sorted (map fst (map logExtent (sortLogical ls)))"
    by (simp add: sorted_map sorted_wrt_map logExtent_def comp_def word_le_nat_alt)
qed simp

lemma unat_ucast_u32: "unat x < 2 ^ 32 \<Longrightarrow> unat (ucast (x :: u64) :: u32) = unat x"
  by (simp add: unsigned_ucast_eq take_bit_nat_eq_self)

lemma ucast_u64of_cancel: "unat x < 2 ^ 32 \<Longrightarrow> u64of (ucast x) = x"
  by (rule word_unat_eq_iff [THEN iffD2]) (simp add: unat_ucast_u32)

lemma ucast_u64of [simp]: "(ucast (u64of x) :: u32) = x"
  using unat_u32_bound [of x] by (simp add: word_unat_eq_iff unat_ucast_u32)

lemma unat_maxU32 [simp]: "unat maxU32 = 4294967295"
  by (simp add: maxU32_def)

lemma maxU32_less: "maxU32 < x \<longleftrightarrow> 2 ^ 32 \<le> unat x"
  by (simp add: maxU32_def word_less_nat_alt) arith

lemma logExtent_sel [simp]:
  "fst (logExtent e) = unat (log_ebr e)" "snd (logExtent e) = unat (logEnd e)"
  by (simp_all add: logExtent_def)

text \<open>The link to the next record, for an ordered chain inside the container.\<close>

lemma ebrLink_ok:
  assumes "chain c (map logExtent (e1 # es)) (unat (partEnd ext))" "unat (part_start ext) \<le> c"
  shows "\<exists>size. ebrLink i ext (e1 # es) = Inr \<lparr>part_start = ucast (log_ebr e1 - u64of (part_start ext)),
           part_size = size, part_kind = part_kind ext, part_bootable = False\<rparr> \<and> size \<noteq> 0 \<and>
         u64of (part_start ext) + u64of (ucast (log_ebr e1 - u64of (part_start ext))) = log_ebr e1"
proof -
  define linkEnd where "linkEnd = (case es of [] \<Rightarrow> partEnd ext | e2 # _ \<Rightarrow> log_ebr e2)"
  have lt: "unat (log_ebr e1) < unat linkEnd" "unat linkEnd \<le> unat (partEnd ext)"
    using assms(1) by (cases es; force simp: linkEnd_def dest: chain_le)+
  have ge: "unat (part_start ext) \<le> unat (log_ebr e1)"
    using assms by simp
  have start: "unat (log_ebr e1 - u64of (part_start ext)) = unat (log_ebr e1) - unat (part_start ext)"
    and len: "unat (linkEnd - log_ebr e1) = unat linkEnd - unat (log_ebr e1)"
    using ge lt by (simp_all add: unat_sub_u64 word_le_nat_alt)
  have s32: "unat (log_ebr e1 - u64of (part_start ext)) < 2 ^ 32" "unat (linkEnd - log_ebr e1) < 2 ^ 32"
    using start len lt ge unat_u32_bound [of "part_size ext"] by simp_all
  have nz: "(ucast (linkEnd - log_ebr e1) :: u32) \<noteq> 0"
    using unat_ucast_u32 [OF s32(2)] len lt by (auto simp flip: unat_gt_0)
  have "\<not> log_ebr e1 < u64of (part_start ext)" "\<not> linkEnd \<le> log_ebr e1"
    "\<not> maxU32 < log_ebr e1 - u64of (part_start ext)" "\<not> maxU32 < linkEnd - log_ebr e1"
    using ge lt s32 by (auto simp: word_less_nat_alt word_le_nat_alt maxU32_less)
  then show ?thesis
    using nz s32(1) by (simp add: ebrLink_def Let_def ucast_u64of_cancel flip: linkEnd_def)
qed

text \<open>Building succeeds on a validated chain, and writes the records in order.\<close>

lemma ebrWrites_ok:
  "\<forall>e \<in> set es. log_ok ext e \<Longrightarrow> chain c (map logExtent es) (unat (partEnd ext)) \<Longrightarrow>
   unat (part_start ext) \<le> c \<Longrightarrow> \<exists>ws. ebrWrites i ext es = Inr ws \<and> map ew_lba ws = map log_ebr es"
proof (induction es arbitrary: i c)
  case Nil
  then show ?case by simp
next
  case (Cons e es)
  have ok: "log_ok ext e" using Cons.prems(1) by simp
  have ch: "chain (unat (logEnd e)) (map logExtent es) (unat (partEnd ext))"
    using Cons.prems(2) by simp
  have ge: "unat (part_start ext) \<le> unat (logEnd e)"
    using ok by (simp add: log_ok_def unat_logEnd)
  obtain ws where ws: "ebrWrites (Suc i) ext es = Inr ws" "map ew_lba ws = map log_ebr es"
    using Cons.IH [OF _ ch ge] Cons.prems(1) by auto
  have link: "\<exists>link. ebrLink i ext es = Inr link"
  proof (cases es)
    case Nil
    then show ?thesis by (simp add: ebrLink_def)
  next
    case (Cons e1 es')
    then show ?thesis using ebrLink_ok [of "unat (logEnd e)" e1 es' ext i] ch ge by auto
  qed
  have rel: "\<not> logStart e \<le> log_ebr e" "\<not> maxU32 < logStart e - log_ebr e"
    using ok unat_u32_bound [of "part_start (log_part e)"]
    by (auto simp: log_ok_def word_le_nat_alt maxU32_less unat_sub_u64)
  show ?case using ws link rel by (auto simp: Let_def)
qed

text \<open>What the first record of a chain reads back as.\<close>

lemma readSector_record:
  assumes "length table = 4" "readAt d off 512 = Some (cfdiskBuildMBR (replicate 512 0) table)"
  shows "\<exists>sector. readSector d off = Some sector \<and> sector ! 510 = 0x55 \<and> sector ! 511 = 0xaa \<and>
           cfdiskReadEntry sector 446 = mbrSlot (table ! 0) \<and>
           cfdiskReadEntry sector 462 = mbrSlot (table ! 1)"
  using assms buildMBR_signature [of table "replicate 512 0"]
    read_build_entry [of table 0 "replicate 512 0"] read_build_entry [of table 1 "replicate 512 0"]
  by (simp add: readSector_def)

lemma logEnd_sum: "logStart e + u64of (part_size (log_part e)) = logEnd e"
  by (simp add: logStart_def logEnd_def partEnd_def)

lemma readChain_written:
  assumes "\<forall>e \<in> set es. log_ok ext e" "chain c (map logExtent es) (unat (partEnd ext))"
    and "unat (part_start ext) \<le> c" "es \<noteq> []" "length es \<le> hops" "partEnd ext \<le> ds"
    and "ebrWrites i ext es = Inr ws"
    and "\<forall>w \<in> set ws. readAt d (unat (ew_lba w) * 512) 512 = Some (ew_sector w)"
  shows "readChain hops d ext ds (log_ebr (hd es)) = Inr es"
  using assms
proof (induction es arbitrary: i c hops ws)
  case Nil
  then show ?case by simp
next
  case (Cons e es)
  obtain hops' where hops: "hops = Suc hops'" using Cons.prems(5) by (cases hops) auto
  have ok: "log_ok ext e" using Cons.prems(1) by simp
  let ?rel = "logStart e - log_ebr e"
  have lt: "unat (log_ebr e) < unat (logStart e)" using ok by (simp add: log_ok_def)
  have rel: "unat ?rel = unat (logStart e) - unat (log_ebr e)"
    using lt by (simp add: unat_sub_u64 word_le_nat_alt)
  have rel32: "unat ?rel < 2 ^ 32"
    using rel unat_u32_bound [of "part_start (log_part e)"] by simp
  have data: "log_ebr e + u64of (ucast ?rel) = logStart e"
    using ucast_u64of_cancel [OF rel32] by simp
  from Cons.prems(7) obtain link ws' where link: "ebrLink i ext es = Inr link"
    and ws': "ebrWrites (Suc i) ext es = Inr ws'"
    and ws: "ws = \<lparr>ew_lba = log_ebr e, ew_sector = cfdiskBuildMBR (replicate 512 0)
              [(log_part e)\<lparr>part_start := ucast ?rel\<rparr>, link, noPartition, noPartition]\<rparr> # ws'"
    by (auto simp: Let_def split: if_splits sum.splits)
  obtain sector where sec: "readSector d (unat (log_ebr e) * 512) = Some sector"
    "sector ! 510 = 0x55" "sector ! 511 = 0xaa"
    "cfdiskReadEntry sector 446 = mbrSlot ((log_part e)\<lparr>part_start := ucast ?rel\<rparr>)"
    "cfdiskReadEntry sector 462 = mbrSlot link"
    using Cons.prems(8) readSector_record
      [of "[(log_part e)\<lparr>part_start := ucast ?rel\<rparr>, link, noPartition, noPartition]" d
        "unat (log_ebr e) * 512"] by (auto simp: ws)
  have slot: "mbrSlot ((log_part e)\<lparr>part_start := ucast ?rel\<rparr>) = (log_part e)\<lparr>part_start := ucast ?rel\<rparr>"
    using ok by (simp add: mbrSlot_def log_ok_def)
  have bounds: "\<not> log_ebr e < u64of (part_start ext)" "\<not> partEnd ext \<le> log_ebr e"
    "\<not> ds \<le> log_ebr e"
    using ok Cons.prems(6) by (auto simp: log_ok_def word_less_nat_alt word_le_nat_alt unat_logEnd)
  have fits: "\<not> maxU32 < logStart e" "\<not> partEnd ext < logStart e + u64of (part_size (log_part e))"
    using ok unat_u32_bound [of "part_start (log_part e)"]
    by (auto simp: maxU32_less log_ok_def word_less_nat_alt logEnd_sum)
  have here: "\<lparr>log_part = (log_part e)\<lparr>part_start := ucast ?rel, part_start := ucast (logStart e)\<rparr>,
      log_ebr = log_ebr e\<rparr> = e"
    by (cases e; cases "log_part e") (simp add: logStart_def)
  have ch: "chain (unat (logEnd e)) (map logExtent es) (unat (partEnd ext))"
    using Cons.prems(2) by simp
  have ge: "unat (part_start ext) \<le> unat (logEnd e)"
    using ok by (simp add: log_ok_def unat_logEnd)
  show ?case
  proof (cases es)
    case Nil
    then have "link = noPartition" using link by (simp add: ebrLink_def)
    then show ?thesis
      using Nil sec bounds fits here data ok slot
      by (simp add: hops Let_def mbrSlot_def noPartition_def log_ok_def)
  next
    case (Cons e1 es')
    have IH: "readChain hops' d ext ds (log_ebr (hd es)) = Inr es"
      by (rule Cons.IH [OF _ ch ge _ _ Cons.prems(6) ws'])
        (use Cons.prems Cons hops ws in auto)
    obtain size where lk: "link = \<lparr>part_start = ucast (log_ebr e1 - u64of (part_start ext)),
        part_size = size, part_kind = part_kind ext, part_bootable = False\<rparr>" "size \<noteq> 0"
      "u64of (part_start ext) + u64of (ucast (log_ebr e1 - u64of (part_start ext))) = log_ebr e1"
      using ebrLink_ok [of "unat (logEnd e)" e1 es' ext i] ch ge link Cons by auto
    have adv: "\<not> log_ebr e1 \<le> log_ebr e"
      using ch Cons ok by (simp add: log_ok_def word_le_nat_alt unat_logEnd)
    show ?thesis
      using sec bounds fits here data ok slot lk adv IH Cons
      by (simp add: hops Let_def mbrSlot_def log_ok_def)
  qed
qed

section \<open>Writing the records\<close>

lemma writeRecords_frame:
  "writeRecords d ws = (d', ok) \<Longrightarrow>
     dev_size d' = dev_size d \<and> dev_rfault d' = dev_rfault d \<and> dev_short d' = dev_short d"
proof (induction ws arbitrary: d)
  case (Cons w ws)
  then show ?case
    by (auto simp: writeAt_def split: prod.splits if_splits option.splits)
qed simp

lemma writeRecords_outside:
  "writeRecords d ws = (d', True) \<Longrightarrow>
   \<forall>w \<in> set ws. length (ew_sector w) = 512 \<and>
      (unat (ew_lba w) * 512 + 512 \<le> off \<or> off + n \<le> unat (ew_lba w) * 512) \<Longrightarrow>
   readAt d' off n = readAt d off n"
proof (induction ws arbitrary: d)
  case (Cons w ws)
  from Cons.prems(1) obtain d1 where d1: "writeAt d (unat (ew_lba w) * 512) (ew_sector w) = (d1, True)"
    and rest: "writeRecords d1 ws = (d', True)"
    by (auto split: prod.splits if_splits)
  have "readAt d' off n = readAt d1 off n" using rest Cons by auto
  also have "\<dots> = readAt d off n"
    using writeAt_ok [OF d1] Cons.prems(2) by (simp add: readAt_putAt_disjoint)
  finally show ?case .
qed simp

lemma writeRecords_read:
  assumes "writeRecords d ws = (d', True)" "distinct (map ew_lba ws)"
    and "\<forall>w \<in> set ws. length (ew_sector w) = 512 \<and> unat (ew_lba w) * 512 + 512 \<le> dev_size d \<and>
           \<not> dev_rfault d (unat (ew_lba w) * 512)"
  shows "\<forall>w \<in> set ws. readAt d' (unat (ew_lba w) * 512) 512 = Some (ew_sector w)"
  using assms
proof (induction ws arbitrary: d)
  case Nil
  then show ?case by simp
next
  case (Cons w ws)
  from Cons.prems(1) obtain d1 where d1: "writeAt d (unat (ew_lba w) * 512) (ew_sector w) = (d1, True)"
    and rest: "writeRecords d1 ws = (d', True)"
    by (auto split: prod.splits if_splits)
  have put: "d1 = putAt d (unat (ew_lba w) * 512) (ew_sector w)" using d1 by (rule writeAt_ok)
  have "readAt d' (unat (ew_lba w) * 512) 512 = readAt d1 (unat (ew_lba w) * 512) 512"
  proof (rule writeRecords_outside [OF rest], intro ballI conjI)
    fix w' assume w': "w' \<in> set ws"
    then show "length (ew_sector w') = 512" using Cons.prems(3) by simp
    have "unat (ew_lba w') \<noteq> unat (ew_lba w)"
      using w' Cons.prems(2) by (metis distinct.simps(2) image_eqI list.set_map list.simps(9) word_unat_eq_iff)
    then show "unat (ew_lba w') * 512 + 512 \<le> unat (ew_lba w) * 512 \<or>
        unat (ew_lba w) * 512 + 512 \<le> unat (ew_lba w') * 512" by arith
  qed
  also have "\<dots> = Some (ew_sector w)"
    unfolding put by (rule readAt_putAt_same) (use Cons.prems(3) in auto)
  finally have "readAt d' (unat (ew_lba w) * 512) 512 = Some (ew_sector w)" .
  moreover have "\<forall>w \<in> set ws. readAt d' (unat (ew_lba w) * 512) 512 = Some (ew_sector w)"
    by (rule Cons.IH [OF rest]) (use Cons.prems(2,3) put in auto)
  ultimately show ?case by simp
qed

lemma ebrWrites_length: "ebrWrites i ext es = Inr ws \<Longrightarrow> w \<in> set ws \<Longrightarrow> length (ew_sector w) = 512"
  by (induction es arbitrary: i ws) (auto simp: Let_def split: if_splits sum.splits)

lemma chain_ebr_distinct: "chain c (map logExtent es) l \<Longrightarrow> distinct (map log_ebr es)"
proof (induction es arbitrary: c)
  case (Cons e es)
  have "log_ebr e \<noteq> log_ebr x" if "x \<in> set es" for x
    using chain_bounds [of "unat (logEnd e)" "map logExtent es" l "logExtent x"] Cons.prems that by auto
  with Cons show ?case by auto
qed simp

text \<open>What was written reads back, if the first boot record is at the container's start.\<close>

lemma chain_readback:
  assumes "validateCfdiskLogicalPartitions ext ls = None" "ls \<noteq> []" "length ls \<le> 256"
    and "log_ebr (hd (sortLogical ls)) = u64of (part_start ext)"
    and "partEnd ext \<le> ds" "unat ds * 512 \<le> dev_size d" "\<forall>off. \<not> dev_rfault d off"
    and "cfdiskBuildEBRChain ext ls = Inr ws" "writeCfdiskEBRChain d ws = (d', True)"
  shows "cfdiskReadLogicalChain d' ext ds = Inr (sortLogical ls)"
proof -
  let ?es = "sortLogical ls"
  have wf: "log_wf ext ls" using assms(1) by (simp add: validateLogical_iff_wf)
  have ok: "\<forall>e \<in> set ?es. log_ok ext e" using wf by (simp add: log_wf_def)
  have ch: "chain (unat (part_start ext)) (map logExtent ?es) (unat (partEnd ext))"
    using wf by (rule sorted_logical_chain)
  have ws: "ebrWrites 0 ext ?es = Inr ws"
    using assms(2,8) by (simp add: cfdiskBuildEBRChain_def)
  have lbas: "map ew_lba ws = map log_ebr ?es"
    using ebrWrites_ok [OF ok ch order_refl, of 0] ws by simp
  have ne: "?es \<noteq> []" using assms(2) by (metis length_0_conv length_sort)
  then have "ws \<noteq> []" using lbas by auto
  then have wr: "writeRecords d ws = (d', True)"
    using assms(9) by (auto simp: writeCfdiskEBRChain_def split: prod.splits if_splits)
  have fits: "unat (ew_lba w) * 512 + 512 \<le> dev_size d" if "w \<in> set ws" for w
  proof -
    from that have "ew_lba w \<in> set (map log_ebr ?es)" unfolding lbas [symmetric] by simp
    then obtain e where "e \<in> set ls" "ew_lba w = log_ebr e" by auto
    then have "unat (ew_lba w) < unat (partEnd ext)"
      using wf by (force simp: log_wf_def log_ok_def unat_logEnd)
    then have "unat (ew_lba w) < unat ds" using assms(5) by (simp add: word_le_nat_alt)
    then show ?thesis using assms(6) by simp
  qed
  have "\<forall>w \<in> set ws. readAt d' (unat (ew_lba w) * 512) 512 = Some (ew_sector w)"
    by (rule writeRecords_read [OF wr])
      (use chain_ebr_distinct [OF ch] lbas ebrWrites_length [OF ws] fits assms(7) in auto)
  then have "readChain 256 d' ext ds (log_ebr (hd ?es)) = Inr ?es"
    using readChain_written [OF ok ch order_refl ne _ assms(5) ws] assms(3) by simp
  then show ?thesis
    using assms(4) by (simp add: cfdiskReadLogicalChain_def cfdiskEBRChainLimit_def sort_key_sorted_id)
qed

section \<open>Properties of the extended partition\<close>

text \<open>The validator of logical partitions accepts exactly the layouts in which
  each partition is a real one behind its own boot record inside the container, and all the
  extents, boot records included, are pairwise disjoint.\<close>

lemma logical_validator_accepts_exactly:
  "validateCfdiskLogicalPartitions ext ls = None \<longleftrightarrow> log_wf ext ls"
  by (rule validateLogical_iff_wf)

text \<open>C24 (round trip): for a valid layout whose first boot record is at the container's start, the
  chain always builds, and once written without an error it reads back as the logical
  partitions in start order, whatever the disk held before.\<close>

theorem logical_chain_roundtrip:
  assumes "validateCfdiskLogicalPartitions ext ls = None" "ls \<noteq> []" "length ls \<le> 256"
    and "log_ebr (hd (sortLogical ls)) = u64of (part_start ext)"
    and "partEnd ext \<le> ds" "unat ds * 512 \<le> dev_size d" "\<forall>off. \<not> dev_rfault d off"
  shows "\<exists>ws. cfdiskBuildEBRChain ext ls = Inr ws \<and>
    (\<forall>d'. writeCfdiskEBRChain d ws = (d', True) \<longrightarrow>
          cfdiskReadLogicalChain d' ext ds = Inr (sortLogical ls))"
proof -
  have wf: "log_wf ext ls" using assms(1) by (simp add: validateLogical_iff_wf)
  then have "\<forall>e \<in> set (sortLogical ls). log_ok ext e" by (simp add: log_wf_def)
  from ebrWrites_ok [OF this sorted_logical_chain [OF wf] order_refl, of 0]
  obtain ws where "cfdiskBuildEBRChain ext ls = Inr ws"
    using assms(2) by (auto simp: cfdiskBuildEBRChain_def)
  then show ?thesis using chain_readback [OF assms] by blast
qed

definition exampleExtended :: mbrPartition where
  "exampleExtended = \<lparr>part_start = 2048, part_size = 8192, part_kind = 0x05, part_bootable = False\<rparr>"

definition exampleLogical :: "cfdiskLogical list" where
  "exampleLogical =
     [\<lparr>log_part = \<lparr>part_start = 8192, part_size = 1024, part_kind = 0x83, part_bootable = False\<rparr>,
       log_ebr = 6144\<rparr>,
      \<lparr>log_part = \<lparr>part_start = 4096, part_size = 2048, part_kind = 0x82, part_bootable = True\<rparr>,
       log_ebr = 2048\<rparr>]"

definition blankDisk :: "nat \<Rightarrow> device" where
  "blankDisk bytes = \<lparr>dev_byte = \<lambda>_. 0, dev_size = bytes, dev_rfault = \<lambda>_. False,
     dev_short = \<lambda>_. None, dev_noopen = False, dev_nosync = False, dev_noclose = False,
     dev_file = False\<rparr>"

lemma exampleLogical_wf: "log_wf exampleExtended exampleLogical"
  by (simp add: log_wf_def log_ok_def exampleLogical_def exampleExtended_def logExtent_def
      ext_disjoint_def logEnd_def logStart_def cfdiskExtendedType_def)

theorem logical_chain_roundtrip_witness:
  "\<exists>ws. cfdiskBuildEBRChain exampleExtended exampleLogical = Inr ws \<and>
    (\<forall>d'. writeCfdiskEBRChain (blankDisk (20000 * 512)) ws = (d', True) \<longrightarrow>
          cfdiskReadLogicalChain d' exampleExtended 20000 = Inr (rev exampleLogical))"
proof -
  have s: "sortLogical exampleLogical = rev exampleLogical"
    by (simp add: exampleLogical_def)
  have "log_ebr (hd (sortLogical exampleLogical)) = u64of (part_start exampleExtended)"
    unfolding s by (simp add: exampleLogical_def exampleExtended_def u64of_def)
  moreover have "partEnd exampleExtended \<le> 20000"
    by (simp add: word_le_nat_alt) (simp add: exampleExtended_def)
  ultimately show ?thesis
    using logical_chain_roundtrip [of exampleExtended exampleLogical 20000 "blankDisk (20000 * 512)"]
      exampleLogical_wf
    by (simp add: validateLogical_iff_wf s) (simp add: exampleLogical_def blankDisk_def)
qed

text \<open>A logical partition placed where the editor puts it - its boot record at the front
  of the free gap its start falls into, its end within that gap - keeps the layout valid.\<close>

lemma new_logical_never_invalid:
  assumes "validateCfdiskLogicalPartitions ext ls = None"
    and "cfdiskLogicalBootRecordFor ext ls (logStart e) = Inr (log_ebr e)"
    and "\<forall>g \<in> set (logFree (ext, ls)). unat (log_ebr e) = fst g \<longrightarrow> unat (logEnd e) \<le> snd g"
    and "part_size (log_part e) \<noteq> 0" "part_kind (log_part e) \<noteq> 0"
    and "\<not> cfdiskExtendedType (part_kind (log_part e))"
  shows "validateCfdiskLogicalPartitions ext (ls @ [e]) = None"
  using bootRecordFor_free [OF assms(1,2)] new_logical_valid [OF assms(1) _ _ _ _ assms(4-6)] assms(3)
  by metis

text \<open>Writing an empty list of logical partitions writes no boot record, so a chain that is on the
  disk stays there and reads back, although every logical partition was deleted.\<close>

theorem deleted_chain_survives:
  assumes "cfdiskReadLogicalChain d ext ds = Inr old"
  shows "\<exists>ws. cfdiskBuildEBRChain ext [] = Inr ws \<and>
    (\<exists>d'. writeCfdiskEBRChain d ws = (d', True) \<and> cfdiskReadLogicalChain d' ext ds = Inr old)"
  using assms by (simp add: cfdiskBuildEBRChain_def writeCfdiskEBRChain_def)

end
