(* ===== verification/Gpt.thy ===== *)
theory Gpt
  imports Ebr
begin

text \<open>
  The GUID partition table of \<open>cfdisk_gpt_linux.go\<close>: geometry, headers with their checksums,
  the 128 entries, the validator, free regions, the complete on-disk image (protective MBR,
  primary and backup header and entries) and its reading and writing.  The table implements
  the allocator interface (interpretation \<open>gpt_alloc\<close>).

  A GUID is its 16 bytes.  A partition name is a Go string of valid UTF-8, which the code
  only ever converts to and from runes, so it is modelled by its list of runes.
\<close>

section \<open>Data\<close>

record cfdiskGPTPartition =
  gp_type :: bytes
  gp_unique :: bytes
  gp_start :: u64
  gp_end :: u64
  gp_attr :: u64
  gp_name :: "nat list"

record cfdiskGPTTable =
  gt_disk :: bytes
  gt_first :: u64
  gt_last :: u64
  gt_parts :: "cfdiskGPTPartition list"

record cfdiskGPTRawState =
  raw_mbr :: bytes
  raw_header :: bytes
  raw_entries :: bytes
  raw_backup_entries :: bytes
  raw_backup_header :: bytes

definition zeroGUID :: bytes where
  "zeroGUID = replicate 16 0"

definition noGPTPartition :: cfdiskGPTPartition where
  "noGPTPartition = \<lparr>gp_type = zeroGUID, gp_unique = zeroGUID, gp_start = 0, gp_end = 0,
                     gp_attr = 0, gp_name = []\<rparr>"

definition emptyGPTTable :: cfdiskGPTTable where
  "emptyGPTTable = \<lparr>gt_disk = zeroGUID, gt_first = 0, gt_last = 0,
                    gt_parts = replicate 128 noGPTPartition\<rparr>"

definition emptyRawState :: cfdiskGPTRawState where
  "emptyRawState = \<lparr>raw_mbr = [], raw_header = [], raw_entries = [], raw_backup_entries = [],
                    raw_backup_header = []\<rparr>"

datatype header_error =
  BadSectorSize | UnsupportedHeader | BadChecksum | UnsupportedGeometry | BadEntryChecksum | NoDiskGUID

datatype gpt_error =
    DiskTooSmall
  | NoUsableSectors
  | BadProtectiveMBR
  | PrimaryHeader header_error
  | BackupHeader header_error
  | CopiesDisagree
  | UnusedWithData nat
  | InvalidGeometry
  | NoUniqueGUID nat
  | SameGUID nat nat
  | OutsideUsable nat
  | GPTOverlaps nat nat
  | GPTNoUnallocated
  | GeometryChanged
  | BeyondOffsets
  | GPTReadError
  | GPTReadEOF
  | GPTInvalidGenerated
  | GPTOpenError
  | GPTWriteError
  | GPTSyncError
  | GPTCloseError

section \<open>Geometry\<close>

record gptGeometry =
  geo_first :: u64
  geo_last :: u64
  geo_backup_entries :: u64
  geo_backup_header :: u64

definition cfdiskGPTEntrySectors :: u64 where
  "cfdiskGPTEntrySectors = 32"

definition cfdiskGPTGeometry :: "u64 \<Rightarrow> gpt_error + gptGeometry" where
  "cfdiskGPTGeometry sectors =
     (if sectors < 2 * cfdiskGPTEntrySectors + 4 then Inl DiskTooSmall
      else
        let firstUsable = 2 + cfdiskGPTEntrySectors;
            backupHeader = sectors - 1;
            backupEntries = backupHeader - cfdiskGPTEntrySectors;
            lastUsable = backupEntries - 1
        in if lastUsable < firstUsable then Inl NoUsableSectors
           else Inr \<lparr>geo_first = firstUsable, geo_last = lastUsable,
                     geo_backup_entries = backupEntries, geo_backup_header = backupHeader\<rparr>)"

section \<open>Names\<close>

text \<open>\<open>utf16.Encode\<close> and \<open>utf16.Decode\<close> on runes and 16-bit units.\<close>

definition encodeRune :: "nat \<Rightarrow> nat list" where
  "encodeRune r =
     (if r < 0xd800 \<or> (0xe000 \<le> r \<and> r < 0x10000) then [r]
      else if 0x10000 \<le> r \<and> r \<le> 0x10ffff
      then [0xd800 + (r - 0x10000) div 1024, 0xdc00 + (r - 0x10000) mod 1024]
      else [0xfffd])"

definition utf16Encode :: "nat list \<Rightarrow> nat list" where
  "utf16Encode rs = concat (map encodeRune rs)"

fun utf16Decode :: "nat list \<Rightarrow> nat list" where
  "utf16Decode [] = []"
| "utf16Decode (u # us) =
     (if u < 0xd800 \<or> 0xe000 \<le> u then u # utf16Decode us
      else (case us of
              v # vs \<Rightarrow>
                if u < 0xdc00 \<and> 0xdc00 \<le> v \<and> v < 0xe000
                then ((u - 0xd800) * 1024 + (v - 0xdc00) + 0x10000) # utf16Decode vs
                else 0xfffd # utf16Decode us
            | [] \<Rightarrow> 0xfffd # utf16Decode us))"

fun putUnits :: "bytes \<Rightarrow> nat \<Rightarrow> nat list \<Rightarrow> bytes" where
  "putUnits dest index [] = dest"
| "putUnits dest index (u # us) = putUnits (putU16 dest (index * 2) (word_of_nat u)) (Suc index) us"

text \<open>The name field after the call; \<open>n\<close> is the length of the destination.\<close>

definition cfdiskEncodeGPTName :: "nat \<Rightarrow> nat list \<Rightarrow> bytes" where
  "cfdiskEncodeGPTName n name =
     putUnits (replicate n 0) 0 (take (n div 2) (utf16Encode name))"

fun nameUnits :: "bytes \<Rightarrow> nat list" where
  "nameUnits (a # b # rest) =
     (let unit = unat (getU16 [a, b] 0) in if unit = 0 then [] else unit # nameUnits rest)"
| "nameUnits _ = []"

definition decodeGPTName :: "bytes \<Rightarrow> nat list" where
  "decodeGPTName raw = utf16Decode (nameUnits raw)"

section \<open>Validation\<close>

definition gptPartitionEmpty :: "cfdiskGPTPartition \<Rightarrow> bool" where
  "gptPartitionEmpty p \<longleftrightarrow> allZero (gp_type p)"

text \<open>The first loop: \<open>seen\<close> maps the unique GUIDs of earlier entries to their indices.\<close>

fun gptRanges ::
    "nat \<Rightarrow> (bytes \<times> nat) list \<Rightarrow> cfdiskGPTTable \<Rightarrow> cfdiskGPTPartition list \<Rightarrow>
     gpt_error + (u64 \<times> u64 \<times> nat) list" where
  "gptRanges index seen table [] = Inr []"
| "gptRanges index seen table (p # ps) =
     (if gptPartitionEmpty p then gptRanges (Suc index) seen table ps
      else if allZero (gp_unique p) then Inl (NoUniqueGUID (index + 1))
      else (case map_of seen (gp_unique p) of
              Some previous \<Rightarrow> Inl (SameGUID (previous + 1) (index + 1))
            | None \<Rightarrow>
                if gp_start p < gt_first table \<or> gp_end p < gp_start p \<or> gt_last table < gp_end p
                then Inl (OutsideUsable (index + 1))
                else (case gptRanges (Suc index) ((gp_unique p, index) # seen) table ps of
                        Inl e \<Rightarrow> Inl e
                      | Inr ranges \<Rightarrow> Inr ((gp_start p, gp_end p, index) # ranges))))"

definition validateCfdiskGPTTable :: "cfdiskGPTTable \<Rightarrow> gpt_error option" where
  "validateCfdiskGPTTable table =
     (if gt_first table = 0 \<or> gt_last table < gt_first table \<or> allZero (gt_disk table)
      then Some InvalidGeometry
      else (case gptRanges 0 [] table (gt_parts table) of
              Inl e \<Rightarrow> Some e
            | Inr ranges \<Rightarrow>
                (case firstConflict (\<lambda>a b. fst b \<le> fst (snd a)) (sort_key fst ranges) of
                   None \<Rightarrow> None
                 | Some (a, b) \<Rightarrow> Some (GPTOverlaps (snd (snd b) + 1) (snd (snd a) + 1)))))"

section \<open>Free regions\<close>

definition cfdiskGPTFreeRegions :: "cfdiskGPTTable \<Rightarrow> gpt_error + cfdiskFreeRegion list" where
  "cfdiskGPTFreeRegions table =
     (case validateCfdiskGPTTable table of
        Some e \<Rightarrow> Inl e
      | None \<Rightarrow>
          (let used = map (\<lambda>p. (gp_start p, gp_end p))
                        (filter (\<lambda>p. \<not> gptPartitionEmpty p) (gt_parts table));
               (regions, cursor) = gapLoop (\<lambda>e. e + 1) (gt_first table) (sort_key fst used)
           in Inr (if cursor \<le> gt_last table
                   then regions @ [\<lparr>region_start = cursor, region_size = gt_last table - cursor + 1\<rparr>]
                   else regions)))"

definition cfdiskSuggestedGPTFreeRegion :: "cfdiskGPTTable \<Rightarrow> gpt_error + cfdiskFreeRegion" where
  "cfdiskSuggestedGPTFreeRegion table =
     (case cfdiskGPTFreeRegions table of
        Inl e \<Rightarrow> Inl e
      | Inr regions \<Rightarrow>
          (let best = bestRegion (gt_first table) noRegion regions
           in if region_size best = 0 then Inl GPTNoUnallocated else Inr best))"

section \<open>The image on disk\<close>

text \<open>The GPT signature \<open>EFI PART\<close>.\<close>

definition efiPart :: bytes where
  "efiPart = [0x45, 0x46, 0x49, 0x20, 0x50, 0x41, 0x52, 0x54]"

text \<open>The header without its own checksum, then with it.\<close>

definition gptHeaderFields :: "u64 \<Rightarrow> u64 \<Rightarrow> u64 \<Rightarrow> u64 \<Rightarrow> u64 \<Rightarrow> bytes \<Rightarrow> u32 \<Rightarrow> bytes" where
  "gptHeaderFields current backup entriesLBA firstUsable lastUsable diskGUID entryCRC =
     (let h0 = spliceAt (replicate 512 0) 0 efiPart;
          h1 = putU32 h0 8 0x00010000;
          h2 = putU32 h1 12 92;
          h3 = putU64 h2 24 current;
          h4 = putU64 h3 32 backup;
          h5 = putU64 h4 40 firstUsable;
          h6 = putU64 h5 48 lastUsable;
          h7 = spliceAt h6 56 diskGUID;
          h8 = putU64 h7 72 entriesLBA;
          h9 = putU32 h8 80 128;
          h10 = putU32 h9 84 128
      in putU32 h10 88 entryCRC)"

definition cfdiskBuildGPTHeader ::
    "u64 \<Rightarrow> u64 \<Rightarrow> u64 \<Rightarrow> u64 \<Rightarrow> u64 \<Rightarrow> bytes \<Rightarrow> u32 \<Rightarrow> bytes" where
  "cfdiskBuildGPTHeader current backup entriesLBA firstUsable lastUsable diskGUID entryCRC =
     (let header = gptHeaderFields current backup entriesLBA firstUsable lastUsable diskGUID entryCRC
      in putU32 header 16 (crc32 (take 92 header)))"

definition cfdiskParseGPTHeader ::
    "bytes \<Rightarrow> u64 \<Rightarrow> u64 \<Rightarrow> u64 \<Rightarrow> u64 \<Rightarrow> u64 \<Rightarrow> bytes \<Rightarrow> header_error + (bytes \<times> u32)" where
  "cfdiskParseGPTHeader header current backup entriesLBA firstUsable lastUsable entries =
     (if length header \<noteq> 512 then Inl BadSectorSize
      else if take 8 header \<noteq> efiPart \<or> getU32 header 8 \<noteq> 0x00010000 \<or> getU32 header 12 \<noteq> 92
      then Inl UnsupportedHeader
      else
        let copyHeader = take 92 header;
            wantCRC = getU32 copyHeader 16
        in if crc32 (spliceAt copyHeader 16 [0, 0, 0, 0]) \<noteq> wantCRC then Inl BadChecksum
           else if getU64 header 24 \<noteq> current \<or> getU64 header 32 \<noteq> backup \<or>
                   getU64 header 40 \<noteq> firstUsable \<or> getU64 header 48 \<noteq> lastUsable \<or>
                   getU64 header 72 \<noteq> entriesLBA \<or> getU32 header 80 \<noteq> 128 \<or>
                   getU32 header 84 \<noteq> 128
           then Inl UnsupportedGeometry
           else if length entries \<noteq> 128 * 128 \<or> crc32 entries \<noteq> getU32 header 88
           then Inl BadEntryChecksum
           else
             let diskGUID = slice header 56 72
             in if allZero diskGUID then Inl NoDiskGUID
                else Inr (diskGUID, getU32 header 88))"

text \<open>One entry written over its 128 zero bytes, and read back.\<close>

definition gptPutEntry :: "bytes \<Rightarrow> cfdiskGPTPartition \<Rightarrow> bytes" where
  "gptPutEntry entry p =
     (let e1 = spliceAt entry 0 (gp_type p);
          e2 = spliceAt e1 16 (gp_unique p);
          e3 = putU64 e2 32 (gp_start p);
          e4 = putU64 e3 40 (gp_end p);
          e5 = putU64 e4 48 (gp_attr p)
      in spliceAt e5 56 (cfdiskEncodeGPTName (128 - 56) (gp_name p)))"

definition gptGetEntry :: "bytes \<Rightarrow> cfdiskGPTPartition" where
  "gptGetEntry entry =
     \<lparr>gp_type = slice entry 0 16, gp_unique = slice entry 16 32, gp_start = getU64 entry 32,
      gp_end = getU64 entry 40, gp_attr = getU64 entry 48, gp_name = decodeGPTName (drop 56 entry)\<rparr>"

fun gptPutEntries :: "bytes \<Rightarrow> nat \<Rightarrow> cfdiskGPTPartition list \<Rightarrow> bytes" where
  "gptPutEntries entries index [] = entries"
| "gptPutEntries entries index (p # ps) =
     (if gptPartitionEmpty p then gptPutEntries entries (Suc index) ps
      else
        let entry = slice entries (index * 128) ((index + 1) * 128)
        in gptPutEntries (spliceAt entries (index * 128) (gptPutEntry entry p)) (Suc index) ps)"

definition cfdiskBuildProtectiveMBR :: "bytes \<Rightarrow> u64 \<Rightarrow> bytes" where
  "cfdiskBuildProtectiveMBR original sectors =
     (let mbr = spliceAt (copyInto (replicate 512 0) original) 446 (replicate (510 - 446) 0);
          m1 = mbr[447 := 0xfe, 448 := 0xff, 449 := 0xff];
          m2 = m1[450 := 0xee];
          m3 = m2[451 := 0xfe, 452 := 0xff, 453 := 0xff];
          m4 = putU32 m3 454 1;
          len = (if maxU32 < sectors - 1 then maxU32 else sectors - 1);
          m5 = putU32 m4 458 (ucast len)
      in m5[510 := 0x55, 511 := 0xaa])"

definition cfdiskBuildGPT :: "bytes \<Rightarrow> u64 \<Rightarrow> cfdiskGPTTable \<Rightarrow> gpt_error + cfdiskGPTRawState" where
  "cfdiskBuildGPT originalMBR sectors table =
     (case cfdiskGPTGeometry sectors of
        Inl e \<Rightarrow> Inl e
      | Inr g \<Rightarrow>
          if gt_first table \<noteq> geo_first g \<or> gt_last table \<noteq> geo_last g then Inl GeometryChanged
          else (case validateCfdiskGPTTable table of
             Some e \<Rightarrow> Inl e
           | None \<Rightarrow>
               (let entries = gptPutEntries (replicate (128 * 128) 0) 0 (gt_parts table);
                    entryCRC = crc32 entries
                in Inr \<lparr>raw_mbr = cfdiskBuildProtectiveMBR originalMBR sectors,
                        raw_header = cfdiskBuildGPTHeader 1 (geo_backup_header g) 2 (geo_first g)
                                       (geo_last g) (gt_disk table) entryCRC,
                        raw_entries = entries,
                        raw_backup_entries = entries,
                        raw_backup_header = cfdiskBuildGPTHeader (geo_backup_header g) 1
                                       (geo_backup_entries g) (geo_first g) (geo_last g)
                                       (gt_disk table) entryCRC\<rparr>)))"

text \<open>The loop over the entries of a raw table.\<close>

fun gptGetEntries :: "nat \<Rightarrow> bytes \<Rightarrow> nat \<Rightarrow> gpt_error + cfdiskGPTPartition list" where
  "gptGetEntries index entries 0 = Inr []"
| "gptGetEntries index entries (Suc n) =
     (let entry = slice entries (index * 128) ((index + 1) * 128)
      in if \<not> allZero entry \<and> allZero (take 16 entry) then Inl (UnusedWithData (index + 1))
         else (case gptGetEntries (Suc index) entries n of
                 Inl e \<Rightarrow> Inl e
               | Inr ps \<Rightarrow> Inr ((if allZero entry then noGPTPartition else gptGetEntry entry) # ps)))"

definition cfdiskGPTTableFromRawState :: "cfdiskGPTRawState \<Rightarrow> u64 \<Rightarrow> gpt_error + cfdiskGPTTable" where
  "cfdiskGPTTableFromRawState st sectors =
     (case cfdiskGPTGeometry sectors of
        Inl e \<Rightarrow> Inl e
      | Inr g \<Rightarrow>
          if length (raw_mbr st) \<noteq> 512 \<or> raw_mbr st ! 510 \<noteq> 0x55 \<or> raw_mbr st ! 511 \<noteq> 0xaa \<or>
             raw_mbr st ! (446 + 4) \<noteq> 0xee
          then Inl BadProtectiveMBR
          else (case cfdiskParseGPTHeader (raw_header st) 1 (geo_backup_header g) 2 (geo_first g)
                       (geo_last g) (raw_entries st) of
             Inl e \<Rightarrow> Inl (PrimaryHeader e)
           | Inr primary \<Rightarrow>
               (case cfdiskParseGPTHeader (raw_backup_header st) (geo_backup_header g) 1
                       (geo_backup_entries g) (geo_first g) (geo_last g) (raw_backup_entries st) of
                  Inl e \<Rightarrow> Inl (BackupHeader e)
                | Inr backup \<Rightarrow>
                    if fst primary \<noteq> fst backup \<or> snd primary \<noteq> snd backup \<or>
                       raw_entries st \<noteq> raw_backup_entries st
                    then Inl CopiesDisagree
                    else (case gptGetEntries 0 (raw_entries st) 128 of
                            Inl e \<Rightarrow> Inl e
                          | Inr ps \<Rightarrow>
                              (let table = \<lparr>gt_disk = fst primary, gt_first = geo_first g,
                                            gt_last = geo_last g, gt_parts = ps\<rparr>
                               in (case validateCfdiskGPTTable table of
                                     Some e \<Rightarrow> Inl e
                                   | None \<Rightarrow> Inr table))))))"

section \<open>Geometry facts\<close>

lemma geometry_unat:
  assumes "cfdiskGPTGeometry n = Inr g"
  shows "68 \<le> unat n" "geo_first g = 34" "unat (geo_last g) = unat n - 34"
    "unat (geo_backup_entries g) = unat n - 33" "unat (geo_backup_header g) = unat n - 1"
proof -
  have big: "\<not> n < 68"
    using assms by (auto simp: cfdiskGPTGeometry_def cfdiskGPTEntrySectors_def split: if_splits)
  then show n: "68 \<le> unat n" by (simp add: word_less_nat_alt not_less)
  have bh: "unat (n - 1) = unat n - 1"
    using n by (subst unat_sub_u64) (auto simp: word_le_nat_alt)
  have be: "unat (n - 1 - 32) = unat n - 33"
    using n bh by (subst unat_sub_u64) (auto simp: word_le_nat_alt)
  have la: "unat (n - 1 - 32 - 1) = unat n - 34"
    using n be by (subst unat_sub_u64) (auto simp: word_le_nat_alt)
  from assms show "geo_first g = 34" "unat (geo_last g) = unat n - 34"
    "unat (geo_backup_entries g) = unat n - 33" "unat (geo_backup_header g) = unat n - 1"
    using bh be la
    by (auto simp: cfdiskGPTGeometry_def cfdiskGPTEntrySectors_def Let_def split: if_splits)
qed

lemma geometry_total: "68 \<le> unat n \<Longrightarrow> \<exists>g. cfdiskGPTGeometry n = Inr g"
proof -
  assume n: "68 \<le> unat n"
  have bh: "unat (n - 1) = unat n - 1"
    using n by (subst unat_sub_u64) (auto simp: word_le_nat_alt)
  have be: "unat (n - 1 - 32) = unat n - 33"
    using n bh by (subst unat_sub_u64) (auto simp: word_le_nat_alt)
  have la: "unat (n - 1 - 32 - 1) = unat n - 34"
    using n be by (subst unat_sub_u64) (auto simp: word_le_nat_alt)
  show ?thesis
    using n la by (simp add: cfdiskGPTGeometry_def cfdiskGPTEntrySectors_def Let_def word_less_nat_alt)
qed

section \<open>Names survive the encoding\<close>

definition scalarRune :: "nat \<Rightarrow> bool" where
  "scalarRune r \<longleftrightarrow> 0 < r \<and> (r < 0xd800 \<or> (0xe000 \<le> r \<and> r \<le> 0x10ffff))"

lemma utf16_roundtrip: "\<forall>r \<in> set rs. scalarRune r \<Longrightarrow> utf16Decode (utf16Encode rs) = rs"
proof (induction rs)
  case Nil
  then show ?case by (simp add: utf16Encode_def)
next
  case (Cons r rs)
  have IH: "utf16Decode (concat (map encodeRune rs)) = rs"
    using Cons by (simp add: utf16Encode_def)
  consider "r < 0xd800 \<or> (0xe000 \<le> r \<and> r < 0x10000)" | "0x10000 \<le> r" "r \<le> 0x10ffff"
    using Cons.prems by (force simp: scalarRune_def)
  then show ?case
  proof cases
    case 1
    then show ?thesis using IH by (auto simp: utf16Encode_def encodeRune_def)
  next
    case 2
    have hi: "(r - 0x10000) div 1024 < 1024" using 2 by simp
    have "(r - 0x10000) div 1024 * 1024 + (r - 0x10000) mod 1024 + 0x10000 = r" using 2 by simp
    then show ?thesis using 2 hi IH by (simp add: utf16Encode_def encodeRune_def)
  qed
qed

lemma encodeRune_units: "scalarRune r \<Longrightarrow> u \<in> set (encodeRune r) \<Longrightarrow> 0 < u \<and> u < 65536"
proof -
  assume "scalarRune r" "u \<in> set (encodeRune r)"
  moreover have "r \<le> 0x10ffff \<Longrightarrow> (r - 0x10000) div 1024 < 1024" by simp
  ultimately show ?thesis by (auto simp: encodeRune_def scalarRune_def split: if_splits)
qed

lemma length_putUnits [simp]:
  "(index + length us) * 2 \<le> length dest \<Longrightarrow> length (putUnits dest index us) = length dest"
  by (induction us arbitrary: dest index) auto

lemma putUnits_drop:
  "(index + length us) * 2 \<le> length dest \<Longrightarrow> putUnits dest index us =
   take (index * 2) dest @ concat (map (leBytes 2 \<circ> unat \<circ> (word_of_nat :: nat \<Rightarrow> u16)) us) @
   drop ((index + length us) * 2) dest"
proof (induction us arbitrary: dest index)
  case Nil
  then show ?case by simp
next
  case (Cons u us)
  let ?d = "putU16 dest (index * 2) (word_of_nat u)"
  have d: "?d = take (index * 2) dest @ leBytes 2 (unat (word_of_nat u :: u16)) @ drop (index * 2 + 2) dest"
    by (simp add: putU16_def spliceAt_def)
  have len: "length ?d = length dest" using Cons.prems by simp
  have t: "take (Suc index * 2) ?d = take (index * 2) dest @ leBytes 2 (unat (word_of_nat u :: u16))"
    using Cons.prems unfolding d by (simp add: min_def)
  have dr: "drop ((Suc index + length us) * 2) ?d = drop ((Suc index + length us) * 2) dest"
    using Cons.prems unfolding d by (simp add: min_def algebra_simps)
  show ?case
    using Cons.IH [of "Suc index" ?d] Cons.prems len t dr by (simp add: algebra_simps)
qed

lemma nameUnits_encode:
  "\<forall>u \<in> set us. 0 < u \<and> u < 65536 \<Longrightarrow> rest = [] \<or> hd rest = 0 \<and> hd (tl rest) = 0 \<Longrightarrow>
   nameUnits (concat (map (leBytes 2 \<circ> unat \<circ> (word_of_nat :: nat \<Rightarrow> u16)) us) @ rest) = us"
proof (induction us)
  case Nil
  then show ?case
    by (cases rest rule: nameUnits.cases) (auto simp: getU16_def slice_def Let_def)
next
  case (Cons u us)
  then have u: "0 < u" "u < 65536" by auto
  obtain a b where ab: "leBytes 2 (unat (word_of_nat u :: u16)) = [a, b]"
    by (simp add: numeral_2_eq_2)
  have "getU16 [a, b] 0 = word_of_nat u"
    by (simp add: getU16_def slice_def word_leBytes flip: ab)
  then have "unat (getU16 [a, b] 0) = u"
    using u(2) by (simp add: unat_of_nat)
  then show ?case using Cons u ab by (simp add: Let_def)
qed

lemma name_roundtrip:
  assumes "\<forall>r \<in> set name. scalarRune r" "length (utf16Encode name) \<le> 36"
  shows "decodeGPTName (cfdiskEncodeGPTName 72 name) = name"
proof -
  let ?us = "utf16Encode name"
  have u: "\<forall>u \<in> set ?us. 0 < u \<and> u < 65536"
    using assms(1) encodeRune_units by (auto simp: utf16Encode_def)
  have e: "cfdiskEncodeGPTName 72 name =
      concat (map (leBytes 2 \<circ> unat \<circ> (word_of_nat :: nat \<Rightarrow> u16)) ?us) @
      replicate (72 - length ?us * 2) 0"
    using assms(2) by (simp add: cfdiskEncodeGPTName_def putUnits_drop)
  have z: "replicate (72 - length ?us * 2) (0 :: u8) = [] \<or>
      hd (replicate (72 - length ?us * 2) (0 :: u8)) = 0 \<and>
      hd (tl (replicate (72 - length ?us * 2) (0 :: u8))) = 0"
  proof (cases "length ?us = 36")
    case False
    then obtain k where "72 - length ?us * 2 = Suc (Suc k)"
      using assms(2) by (intro that [of "70 - length ?us * 2"]) arith
    then show ?thesis by simp
  qed simp
  show ?thesis
    using nameUnits_encode [OF u z] utf16_roundtrip [OF assms(1)] by (simp add: decodeGPTName_def e)
qed

section \<open>Entries survive the encoding\<close>

text \<open>A well-formed entry: 16-byte GUIDs and a name of at most 36 UTF-16 units; an unused
  entry is blank.\<close>

definition gpt_part_wf :: "cfdiskGPTPartition \<Rightarrow> bool" where
  "gpt_part_wf p \<longleftrightarrow>
     length (gp_type p) = 16 \<and> length (gp_unique p) = 16 \<and>
     (\<forall>r \<in> set (gp_name p). scalarRune r) \<and> length (utf16Encode (gp_name p)) \<le> 36 \<and>
     (gptPartitionEmpty p \<longrightarrow> p = noGPTPartition)"

definition gpt_table_wf :: "cfdiskGPTTable \<Rightarrow> bool" where
  "gpt_table_wf t \<longleftrightarrow>
     length (gt_disk t) = 16 \<and> length (gt_parts t) = 128 \<and> (\<forall>p \<in> set (gt_parts t). gpt_part_wf p)"

lemma length_encodeGPTName [simp]: "length (cfdiskEncodeGPTName 72 name) = 72"
  by (simp add: cfdiskEncodeGPTName_def)

lemma length_gptPutEntry [simp]:
  "length e = 128 \<Longrightarrow> length (gp_type p) = 16 \<Longrightarrow> length (gp_unique p) = 16 \<Longrightarrow>
   length (gptPutEntry e p) = 128"
  by (simp add: gptPutEntry_def Let_def)

lemma drop_spliceAt: "off + length xs = length b \<Longrightarrow> drop off (spliceAt b off xs) = xs"
  by (simp add: spliceAt_def)

lemma entry_roundtrip:
  assumes "length e = 128" "gpt_part_wf p"
  shows "gptGetEntry (gptPutEntry e p) = p"
    and "take 16 (gptPutEntry e p) = gp_type p"
proof -
  have wf: "length (gp_type p) = 16" "length (gp_unique p) = 16"
    "decodeGPTName (cfdiskEncodeGPTName 72 (gp_name p)) = gp_name p"
    using assms(2) name_roundtrip by (auto simp: gpt_part_wf_def)
  let ?E = "gptPutEntry e p"
  have ty: "slice ?E 0 16 = gp_type p"
    using assms(1) wf(1,2) by (simp add: gptPutEntry_def Let_def u64.slice_put)
  have "slice ?E 16 32 = gp_unique p"
    using assms(1) wf(1,2) by (simp add: gptPutEntry_def Let_def u64.slice_put)
  moreover have "getU64 ?E 32 = gp_start p" "getU64 ?E 40 = gp_end p" "getU64 ?E 48 = gp_attr p"
    using assms(1) wf(1,2)
    by (simp_all add: gptPutEntry_def Let_def u64.get_put u64.get_put_disjoint u64.get_spliceAt_disjoint)
  moreover have "drop 56 ?E = cfdiskEncodeGPTName 72 (gp_name p)"
    using assms(1) wf(1,2) by (simp add: gptPutEntry_def Let_def drop_spliceAt)
  ultimately show "gptGetEntry ?E = p"
    using ty wf(3) by (simp add: gptGetEntry_def)
  show "take 16 ?E = gp_type p" using ty by (simp add: slice_def)
qed

lemma length_gptPutEntries [simp]:
  "(index + length ps) * 128 \<le> length b \<Longrightarrow> \<forall>p \<in> set ps. gpt_part_wf p \<Longrightarrow>
   length (gptPutEntries b index ps) = length b"
  by (induction ps arbitrary: b index) (auto simp: Let_def gpt_part_wf_def)

lemma gptPutEntries_frame:
  "(index + length ps) * 128 \<le> length b \<Longrightarrow> \<forall>p \<in> set ps. gpt_part_wf p \<Longrightarrow> hi \<le> index * 128 \<Longrightarrow>
   slice (gptPutEntries b index ps) lo hi = slice b lo hi"
  by (induction ps arbitrary: b index) (auto simp: Let_def gpt_part_wf_def)

lemma gptPutEntries_slice:
  assumes "(index + length ps) * 128 \<le> length b" "\<forall>p \<in> set ps. gpt_part_wf p" "k < length ps"
    and "\<And>j. j < length ps \<Longrightarrow> slice b ((index + j) * 128) ((index + j + 1) * 128) = replicate 128 0"
  shows "slice (gptPutEntries b index ps) ((index + k) * 128) ((index + k + 1) * 128) =
    (if gptPartitionEmpty (ps ! k) then replicate 128 0 else gptPutEntry (replicate 128 0) (ps ! k))"
  using assms
proof (induction ps arbitrary: b index k)
  case Nil
  then show ?case by simp
next
  case (Cons p ps)
  have z0: "slice b (index * 128) ((index + 1) * 128) = replicate 128 0"
    using Cons.prems(4) [of 0] by simp
  let ?b = "if gptPartitionEmpty p then b
            else spliceAt b (index * 128) (gptPutEntry (replicate 128 0) p)"
  have step: "gptPutEntries b index (p # ps) = gptPutEntries ?b (Suc index) ps"
    using z0 by (simp add: Let_def)
  have wf: "length (gp_type p) = 16" "length (gp_unique p) = 16"
    using Cons.prems(2) by (auto simp: gpt_part_wf_def)
  have len: "length ?b = length b" using Cons.prems(1) wf by simp
  show ?case
  proof (cases k)
    case 0
    have "slice (gptPutEntries ?b (Suc index) ps) (index * 128) ((index + 1) * 128) =
          slice ?b (index * 128) ((index + 1) * 128)"
      by (rule gptPutEntries_frame) (use Cons.prems len in auto)
    then show ?thesis using 0 z0 wf Cons.prems(1) by (simp only: step) simp
  next
    case (Suc k')
    have "slice (gptPutEntries ?b (Suc index) ps) ((Suc index + k') * 128) ((Suc index + k' + 1) * 128) =
      (if gptPartitionEmpty (ps ! k') then replicate 128 0 else gptPutEntry (replicate 128 0) (ps ! k'))"
    proof (rule Cons.IH)
      fix j assume "j < length ps"
      then show "slice ?b ((Suc index + j) * 128) ((Suc index + j + 1) * 128) = replicate 128 0"
        using Cons.prems(1) Cons.prems(4) [of "Suc j"] wf by auto
    qed (use Cons.prems Suc len in auto)
    then show ?thesis using Suc by (simp only: step) simp
  qed
qed

lemma putEntry_not_zero:
  assumes "gpt_part_wf p" "\<not> gptPartitionEmpty p" "length e = 128"
  shows "\<not> allZero (gptPutEntry e p)" and "\<not> allZero (take 16 (gptPutEntry e p))"
proof -
  show t: "\<not> allZero (take 16 (gptPutEntry e p))"
    using assms by (simp add: entry_roundtrip gptPartitionEmpty_def)
  then show "\<not> allZero (gptPutEntry e p)"
    by (auto simp: allZero_def dest: in_set_takeD)
qed

lemma gptGetEntries_ok:
  assumes "\<forall>p \<in> set ps. gpt_part_wf p"
    and "\<And>k. k < length ps \<Longrightarrow> slice b ((index + k) * 128) ((index + k + 1) * 128) =
      (if gptPartitionEmpty (ps ! k) then replicate 128 0 else gptPutEntry (replicate 128 0) (ps ! k))"
  shows "gptGetEntries index b (length ps) = Inr ps"
  using assms
proof (induction ps arbitrary: index)
  case Nil
  then show ?case by simp
next
  case (Cons p ps)
  have IH: "gptGetEntries (Suc index) b (length ps) = Inr ps"
    by (rule Cons.IH) (use Cons.prems(1) Cons.prems(2) [of "Suc k" for k] in auto)
  have s: "slice b (index * 128) ((index + 1) * 128) =
      (if gptPartitionEmpty p then replicate 128 0 else gptPutEntry (replicate 128 0) p)"
    using Cons.prems(2) [of 0] by simp
  have wf: "gpt_part_wf p" using Cons.prems(1) by simp
  show ?case
  proof (cases "gptPartitionEmpty p")
    case True
    with wf have "p = noGPTPartition" by (simp add: gpt_part_wf_def)
    with True s IH show ?thesis by (simp add: Let_def)
  next
    case False
    with s IH wf putEntry_not_zero [OF wf False, of "replicate 128 0"] show ?thesis
      by (simp add: Let_def entry_roundtrip)
  qed
qed

lemma entries_roundtrip:
  assumes "length ps = 128" "\<forall>p \<in> set ps. gpt_part_wf p"
  shows "gptGetEntries 0 (gptPutEntries (replicate (128 * 128) 0) 0 ps) 128 = Inr ps"
proof -
  have "gptGetEntries 0 (gptPutEntries (replicate (128 * 128) 0) 0 ps) (length ps) = Inr ps"
  proof (rule gptGetEntries_ok [OF assms(2)])
    fix k assume "k < length ps"
    then show "slice (gptPutEntries (replicate (128 * 128) 0) 0 ps) ((0 + k) * 128) ((0 + k + 1) * 128) =
      (if gptPartitionEmpty (ps ! k) then replicate 128 0 else gptPutEntry (replicate 128 0) (ps ! k))"
      using assms by (intro gptPutEntries_slice) (auto simp: slice_def)
  qed
  then show ?thesis using assms(1) by simp
qed

section \<open>Headers survive the encoding\<close>

lemma getU32_slice: "slice b off hi = leBytes 4 (unat v) \<Longrightarrow> hi = off + 4 \<Longrightarrow> getU32 b off = v"
  by (simp add: getU32_def word_leBytes)

lemma getU64_slice: "slice b off hi = leBytes 8 (unat v) \<Longrightarrow> hi = off + 8 \<Longrightarrow> getU64 b off = v"
  by (simp add: getU64_def word_leBytes)

lemma slice_putU32_same:
  "off + 4 \<le> length b \<Longrightarrow> hi = off + 4 \<Longrightarrow> slice (putU32 b off v) off hi = leBytes 4 (unat v)"
  by (simp add: putU32_def)

lemma slice_putU64_same:
  "off + 8 \<le> length b \<Longrightarrow> hi = off + 8 \<Longrightarrow> slice (putU64 b off v) off hi = leBytes 8 (unat v)"
  by (simp add: putU64_def)

lemmas slice_puts = u32.slice_put u64.slice_put slice_putU32_same slice_putU64_same

lemma length_efiPart [simp]: "length efiPart = 8"
  by (simp add: efiPart_def)

lemma length_headerFields [simp]:
  "length guid = 16 \<Longrightarrow> length (gptHeaderFields cur bak ent fu lu guid crc) = 512"
  by (simp add: gptHeaderFields_def Let_def)

lemma headerFields_slices:
  fixes guid :: bytes and cur bak ent fu lu :: u64 and crc :: u32
  assumes "length guid = 16"
  defines "h \<equiv> gptHeaderFields cur bak ent fu lu guid crc"
  shows "slice h 0 8 = efiPart" "slice h 8 12 = leBytes 4 (unat (0x00010000 :: u32))"
    "slice h 12 16 = leBytes 4 (unat (92 :: u32))" "slice h 16 20 = [0, 0, 0, 0]"
    "slice h 24 32 = leBytes 8 (unat cur)" "slice h 32 40 = leBytes 8 (unat bak)"
    "slice h 40 48 = leBytes 8 (unat fu)" "slice h 48 56 = leBytes 8 (unat lu)"
    "slice h 56 72 = guid" "slice h 72 80 = leBytes 8 (unat ent)"
    "slice h 80 84 = leBytes 4 (unat (128 :: u32))" "slice h 84 88 = leBytes 4 (unat (128 :: u32))"
    "slice h 88 92 = leBytes 4 (unat crc)"
proof -
  define h0 where "h0 = spliceAt (replicate 512 0) 0 efiPart"
  define h1 where "h1 = putU32 h0 8 0x00010000"
  define h2 where "h2 = putU32 h1 12 92"
  define h3 where "h3 = putU64 h2 24 cur"
  define h4 where "h4 = putU64 h3 32 bak"
  define h5 where "h5 = putU64 h4 40 fu"
  define h6 where "h6 = putU64 h5 48 lu"
  define h7 where "h7 = spliceAt h6 56 guid"
  define h8 where "h8 = putU64 h7 72 ent"
  define h9 where "h9 = putU32 h8 80 128"
  define h10 where "h10 = putU32 h9 84 128"
  have h: "h = putU32 h10 88 crc"
    by (simp only: h_def gptHeaderFields_def Let_def h0_def h1_def h2_def h3_def h4_def h5_def h6_def
        h7_def h8_def h9_def h10_def)
  have l0: "length h0 = 512" by (simp add: h0_def)
  have l1: "length h1 = 512" by (simp add: h1_def l0)
  have l2: "length h2 = 512" by (simp add: h2_def l1)
  have l3: "length h3 = 512" by (simp add: h3_def l2)
  have l4: "length h4 = 512" by (simp add: h4_def l3)
  have l5: "length h5 = 512" by (simp add: h5_def l4)
  have l6: "length h6 = 512" by (simp add: h6_def l5)
  have l7: "length h7 = 512" by (simp add: h7_def l6 assms(1))
  have l8: "length h8 = 512" by (simp add: h8_def l7)
  have l9: "length h9 = 512" by (simp add: h9_def l8)
  have l10: "length h10 = 512" by (simp add: h10_def l9)
  have z: "slice h0 16 20 = [0, 0, 0, 0]"
    by (simp add: h0_def) (simp add: slice_def numeral_eq_Suc)
  have s1: "slice h1 lo hi = slice h0 lo hi" if "hi \<le> 8 \<or> 12 \<le> lo" "hi \<le> 512" for lo hi
    unfolding h1_def using that by (simp add: slice_puts l0)
  have s2: "slice h2 lo hi = slice h1 lo hi" if "hi \<le> 12 \<or> 16 \<le> lo" "hi \<le> 512" for lo hi
    unfolding h2_def using that by (simp add: slice_puts l1)
  have s3: "slice h3 lo hi = slice h2 lo hi" if "hi \<le> 24 \<or> 32 \<le> lo" "hi \<le> 512" for lo hi
    unfolding h3_def using that by (simp add: slice_puts l2)
  have s4: "slice h4 lo hi = slice h3 lo hi" if "hi \<le> 32 \<or> 40 \<le> lo" "hi \<le> 512" for lo hi
    unfolding h4_def using that by (simp add: slice_puts l3)
  have s5: "slice h5 lo hi = slice h4 lo hi" if "hi \<le> 40 \<or> 48 \<le> lo" "hi \<le> 512" for lo hi
    unfolding h5_def using that by (simp add: slice_puts l4)
  have s6: "slice h6 lo hi = slice h5 lo hi" if "hi \<le> 48 \<or> 56 \<le> lo" "hi \<le> 512" for lo hi
    unfolding h6_def using that by (simp add: slice_puts l5)
  have s7: "slice h7 lo hi = slice h6 lo hi" if "hi \<le> 56 \<or> 72 \<le> lo" "hi \<le> 512" for lo hi
    unfolding h7_def using that by (simp add: slice_puts l6 assms(1))
  have s8: "slice h8 lo hi = slice h7 lo hi" if "hi \<le> 72 \<or> 80 \<le> lo" "hi \<le> 512" for lo hi
    unfolding h8_def using that by (simp add: slice_puts l7)
  have s9: "slice h9 lo hi = slice h8 lo hi" if "hi \<le> 80 \<or> 84 \<le> lo" "hi \<le> 512" for lo hi
    unfolding h9_def using that by (simp add: slice_puts l8)
  have s10: "slice h10 lo hi = slice h9 lo hi" if "hi \<le> 84 \<or> 88 \<le> lo" "hi \<le> 512" for lo hi
    unfolding h10_def using that by (simp add: slice_puts l9)
  have s11: "slice h lo hi = slice h10 lo hi" if "hi \<le> 88 \<or> 92 \<le> lo" "hi \<le> 512" for lo hi
    unfolding h using that by (simp add: slice_puts l10)
  note keep = s1 s2 s3 s4 s5 s6 s7 s8 s9 s10 s11
  have "slice h0 0 8 = efiPart" unfolding h0_def by (simp add: slice_puts assms(1))
  then show "slice h 0 8 = efiPart" by (simp add: keep)
  have "slice h1 8 12 = leBytes 4 (unat (0x00010000 :: u32))" unfolding h1_def by (simp add: slice_puts l0 assms(1))
  then show "slice h 8 12 = leBytes 4 (unat (0x00010000 :: u32))" by (simp add: keep)
  have "slice h2 12 16 = leBytes 4 (unat (92 :: u32))" unfolding h2_def by (simp add: slice_puts l1 assms(1))
  then show "slice h 12 16 = leBytes 4 (unat (92 :: u32))" by (simp add: keep)
  show "slice h 16 20 = [0, 0, 0, 0]" by (simp add: keep z)
  have "slice h3 24 32 = leBytes 8 (unat cur)" unfolding h3_def by (simp add: slice_puts l2 assms(1))
  then show "slice h 24 32 = leBytes 8 (unat cur)" by (simp add: keep)
  have "slice h4 32 40 = leBytes 8 (unat bak)" unfolding h4_def by (simp add: slice_puts l3 assms(1))
  then show "slice h 32 40 = leBytes 8 (unat bak)" by (simp add: keep)
  have "slice h5 40 48 = leBytes 8 (unat fu)" unfolding h5_def by (simp add: slice_puts l4 assms(1))
  then show "slice h 40 48 = leBytes 8 (unat fu)" by (simp add: keep)
  have "slice h6 48 56 = leBytes 8 (unat lu)" unfolding h6_def by (simp add: slice_puts l5 assms(1))
  then show "slice h 48 56 = leBytes 8 (unat lu)" by (simp add: keep)
  have "slice h7 56 72 = guid" unfolding h7_def by (simp add: slice_puts l6 assms(1))
  then show "slice h 56 72 = guid" by (simp add: keep)
  have "slice h8 72 80 = leBytes 8 (unat ent)" unfolding h8_def by (simp add: slice_puts l7 assms(1))
  then show "slice h 72 80 = leBytes 8 (unat ent)" by (simp add: keep)
  have "slice h9 80 84 = leBytes 4 (unat (128 :: u32))" unfolding h9_def by (simp add: slice_puts l8 assms(1))
  then show "slice h 80 84 = leBytes 4 (unat (128 :: u32))" by (simp add: keep)
  have "slice h10 84 88 = leBytes 4 (unat (128 :: u32))" unfolding h10_def by (simp add: slice_puts l9 assms(1))
  then show "slice h 84 88 = leBytes 4 (unat (128 :: u32))" by (simp add: keep)
  show "slice h 88 92 = leBytes 4 (unat crc)" unfolding h by (simp add: slice_puts l10)
qed

lemma length_buildGPTHeader [simp]:
  "length guid = 16 \<Longrightarrow> length (cfdiskBuildGPTHeader cur bak ent fu lu guid crc) = 512"
  by (simp add: cfdiskBuildGPTHeader_def Let_def)

lemma clear_checksum:
  assumes "length h = 512" "slice h 16 20 = [0, 0, 0, 0]"
  shows "spliceAt (take 92 (putU32 h 16 v)) 16 [0, 0, 0, 0] = take 92 h"
proof (rule nth_equalityI)
  fix i assume "i < length (spliceAt (take 92 (putU32 h 16 v)) 16 [0, 0, 0, 0])"
  then have i: "i < 92" using assms(1) by simp
  show "spliceAt (take 92 (putU32 h 16 v)) 16 [0, 0, 0, 0] ! i = take 92 h ! i"
  proof (cases "16 \<le> i \<and> i < 20")
    case True
    then have "h ! i = slice h 16 20 ! (i - 16)" using assms(1) by simp
    with True i assms show ?thesis by (simp add: nth_spliceAt_in)
  next
    case False
    with i assms(1) show ?thesis by (auto simp: nth_spliceAt_out u32.nth_put)
  qed
qed (use assms(1) in simp)

lemma header_roundtrip:
  assumes guid: "length guid = 16" "\<not> allZero guid" and ent: "length entries = 128 * 128"
  shows "cfdiskParseGPTHeader (cfdiskBuildGPTHeader cur bak el fu lu guid (crc32 entries))
           cur bak el fu lu entries = Inr (guid, crc32 entries)"
proof -
  define h where "h = gptHeaderFields cur bak el fu lu guid (crc32 entries)"
  let ?H = "putU32 h 16 (crc32 (take 92 h))"
  have H: "cfdiskBuildGPTHeader cur bak el fu lu guid (crc32 entries) = ?H"
    by (simp add: cfdiskBuildGPTHeader_def Let_def h_def)
  have len: "length h = 512" using guid by (simp add: h_def)
  note s = headerFields_slices [OF guid(1), of cur bak el fu lu "crc32 entries", folded h_def]
  have out: "slice ?H lo hi = slice h lo hi" if "hi \<le> 16 \<or> 20 \<le> lo" "hi \<le> 512" for lo hi
    using that len by (simp add: u32.slice_put)
  have magic: "take 8 ?H = efiPart" using s(1) out [of 8 0] by (simp add: slice_def)
  note so = s(2,3,11,12,13,5,6,7,8,10)
  have w32: "getU32 ?H 8 = 0x00010000" "getU32 ?H 12 = 92" "getU32 ?H 80 = 128" "getU32 ?H 84 = 128"
    "getU32 ?H 88 = crc32 entries"
    by (rule getU32_slice [of _ _ 12] getU32_slice [of _ _ 16] getU32_slice [of _ _ 84]
        getU32_slice [of _ _ 88] getU32_slice [of _ _ 92], (simp add: so out; fail), simp)+
  have w64: "getU64 ?H 24 = cur" "getU64 ?H 32 = bak" "getU64 ?H 40 = fu" "getU64 ?H 48 = lu"
    "getU64 ?H 72 = el"
    by (rule getU64_slice [of _ _ 32] getU64_slice [of _ _ 40] getU64_slice [of _ _ 48]
        getU64_slice [of _ _ 56] getU64_slice [of _ _ 80], (simp add: so out; fail), simp)+
  have want: "getU32 (take 92 ?H) 16 = crc32 (take 92 h)"
    using len u32.get_in_slice [of 0 16 92 ?H] by (simp add: slice_def u32.get_put)
  have g: "slice ?H 56 72 = guid" using s(9) out by simp
  show ?thesis
    using assms len magic w32 w64 want g clear_checksum [OF len s(4)]
    unfolding H by (simp add: cfdiskParseGPTHeader_def Let_def)
qed

section \<open>The image reads back as the table\<close>

lemma geometry_fields:
  "cfdiskGPTGeometry n = Inr g \<Longrightarrow> cfdiskGPTGeometry n = Inr g' \<Longrightarrow> g = g'"
  by simp

lemma length_copyInto_mbr [simp]: "length (copyInto (replicate 512 0) b) = 512"
  by (simp add: copyInto_def)

lemma protective_mbr:
  "length (cfdiskBuildProtectiveMBR b n) = 512"
  "cfdiskBuildProtectiveMBR b n ! 510 = 0x55" "cfdiskBuildProtectiveMBR b n ! 511 = 0xaa"
  "cfdiskBuildProtectiveMBR b n ! 450 = 0xee"
proof -
  show "length (cfdiskBuildProtectiveMBR b n) = 512"
    by (simp add: cfdiskBuildProtectiveMBR_def Let_def)
  show "cfdiskBuildProtectiveMBR b n ! 510 = 0x55" "cfdiskBuildProtectiveMBR b n ! 511 = 0xaa"
    by (simp_all add: cfdiskBuildProtectiveMBR_def Let_def)
  show "cfdiskBuildProtectiveMBR b n ! 450 = 0xee"
    by (simp add: cfdiskBuildProtectiveMBR_def Let_def u32.nth_put)
qed

lemma build_image:
  assumes "cfdiskBuildGPT b n t = Inr st"
  obtains g where "cfdiskGPTGeometry n = Inr g" "gt_first t = geo_first g" "gt_last t = geo_last g"
    "validateCfdiskGPTTable t = None"
    "st = \<lparr>raw_mbr = cfdiskBuildProtectiveMBR b n,
           raw_header = cfdiskBuildGPTHeader 1 (geo_backup_header g) 2 (gt_first t) (gt_last t)
             (gt_disk t) (crc32 (gptPutEntries (replicate (128 * 128) 0) 0 (gt_parts t))),
           raw_entries = gptPutEntries (replicate (128 * 128) 0) 0 (gt_parts t),
           raw_backup_entries = gptPutEntries (replicate (128 * 128) 0) 0 (gt_parts t),
           raw_backup_header = cfdiskBuildGPTHeader (geo_backup_header g) 1 (geo_backup_entries g)
             (gt_first t) (gt_last t) (gt_disk t)
             (crc32 (gptPutEntries (replicate (128 * 128) 0) 0 (gt_parts t)))\<rparr>"
proof (cases "cfdiskGPTGeometry n")
  case (Inl e)
  then show ?thesis using assms by (simp add: cfdiskBuildGPT_def)
next
  case (Inr g)
  then show ?thesis using assms that [of g]
    by (auto simp: cfdiskBuildGPT_def Let_def split: if_splits option.splits)
qed

lemma image_roundtrip:
  assumes build: "cfdiskBuildGPT b n t = Inr st" and wf: "gpt_table_wf t"
  shows "cfdiskGPTTableFromRawState st n = Inr t"
proof -
  obtain g where g: "cfdiskGPTGeometry n = Inr g" "gt_first t = geo_first g" "gt_last t = geo_last g"
    "validateCfdiskGPTTable t = None"
    and st: "st = \<lparr>raw_mbr = cfdiskBuildProtectiveMBR b n,
           raw_header = cfdiskBuildGPTHeader 1 (geo_backup_header g) 2 (gt_first t) (gt_last t)
             (gt_disk t) (crc32 (gptPutEntries (replicate (128 * 128) 0) 0 (gt_parts t))),
           raw_entries = gptPutEntries (replicate (128 * 128) 0) 0 (gt_parts t),
           raw_backup_entries = gptPutEntries (replicate (128 * 128) 0) 0 (gt_parts t),
           raw_backup_header = cfdiskBuildGPTHeader (geo_backup_header g) 1 (geo_backup_entries g)
             (gt_first t) (gt_last t) (gt_disk t)
             (crc32 (gptPutEntries (replicate (128 * 128) 0) 0 (gt_parts t)))\<rparr>"
    using build by (rule build_image)
  define E where "E = gptPutEntries (replicate (128 * 128) 0) 0 (gt_parts t)"
  have ps: "length (gt_parts t) = 128" "\<forall>p \<in> set (gt_parts t). gpt_part_wf p" "length (gt_disk t) = 16"
    using wf by (simp_all add: gpt_table_wf_def)
  have nz: "\<not> allZero (gt_disk t)"
    using g(4) by (auto simp: validateCfdiskGPTTable_def split: if_splits)
  have lenE: "length E = 128 * 128" unfolding E_def using ps by (subst length_gptPutEntries) auto
  have get: "gptGetEntries 0 E 128 = Inr (gt_parts t)"
    unfolding E_def by (rule entries_roundtrip [OF ps(1,2)])
  note head = header_roundtrip [OF ps(3) nz lenE]
  have t: "\<lparr>gt_disk = gt_disk t, gt_first = geo_first g, gt_last = geo_last g, gt_parts = gt_parts t\<rparr> = t"
    using g(2,3) by simp
  have t': "\<lparr>gt_disk = gt_disk t, gt_first = gt_first t, gt_last = gt_last t, gt_parts = gt_parts t\<rparr> = t"
    using t unfolding g(2,3) .
  show ?thesis
    unfolding cfdiskGPTTableFromRawState_def st E_def [symmetric]
    using g(1,4) by (simp add: protective_mbr head get Let_def t' flip: g(2,3))
qed


section \<open>What the validator accepts\<close>

definition gptUsed :: "cfdiskGPTPartition list \<Rightarrow> cfdiskGPTPartition list" where
  "gptUsed ps = filter (\<lambda>p. \<not> gptPartitionEmpty p) ps"

definition gptExtent :: "cfdiskGPTPartition \<Rightarrow> extent" where
  "gptExtent p = (unat (gp_start p), Suc (unat (gp_end p)))"

definition gptExtents :: "cfdiskGPTTable \<Rightarrow> extent list" where
  "gptExtents t = map gptExtent (gptUsed (gt_parts t))"

text \<open>The specification: used entries have distinct nonzero GUIDs, lie inside the usable range and
  are pairwise disjoint.\<close>

definition gpt_ok :: "cfdiskGPTTable \<Rightarrow> bool" where
  "gpt_ok t \<longleftrightarrow>
     gt_first t \<noteq> 0 \<and> gt_first t \<le> gt_last t \<and> \<not> allZero (gt_disk t) \<and>
     (\<forall>p \<in> set (gptUsed (gt_parts t)).
        \<not> allZero (gp_unique p) \<and> gt_first t \<le> gp_start p \<and> gp_start p \<le> gp_end p \<and>
        gp_end p \<le> gt_last t) \<and>
     distinct (map gp_unique (gptUsed (gt_parts t))) \<and>
     sorted_wrt ext_disjoint (gptExtents t)"

definition gptRangeExtent :: "u64 \<times> u64 \<times> nat \<Rightarrow> extent" where
  "gptRangeExtent r = (unat (fst r), Suc (unat (fst (snd r))))"

lemma gptUsed_simps [simp]:
  "gptUsed [] = []"
  "gptUsed (p # ps) = (if gptPartitionEmpty p then gptUsed ps else p # gptUsed ps)"
  by (simp_all add: gptUsed_def)

lemma gptRanges_Inr:
  "gptRanges i seen t ps = Inr rs \<Longrightarrow>
     map (\<lambda>r. (fst r, fst (snd r))) rs = map (\<lambda>p. (gp_start p, gp_end p)) (gptUsed ps)"
  by (induction i seen t ps arbitrary: rs rule: gptRanges.induct)
    (auto split: if_splits option.splits sum.splits)

lemma gptRanges_ok_iff:
  "(\<exists>rs. gptRanges i seen t ps = Inr rs) \<longleftrightarrow>
     (\<forall>p \<in> set (gptUsed ps).
        \<not> allZero (gp_unique p) \<and> gt_first t \<le> gp_start p \<and> gp_start p \<le> gp_end p \<and>
        gp_end p \<le> gt_last t) \<and>
     distinct (map gp_unique (gptUsed ps)) \<and>
     set (map gp_unique (gptUsed ps)) \<inter> fst ` set seen = {}"
proof (induction ps arbitrary: i seen)
  case Nil
  then show ?case by simp
next
  case (Cons p ps)
  show ?case
  proof (cases "gptPartitionEmpty p")
    case True
    then show ?thesis using Cons.IH [of "Suc i" seen] by simp
  next
    case False
    have IH: "(\<exists>rs. gptRanges (Suc i) ((gp_unique p, i) # seen) t ps = Inr rs) \<longleftrightarrow>
        (\<forall>p \<in> set (gptUsed ps).
           \<not> allZero (gp_unique p) \<and> gt_first t \<le> gp_start p \<and> gp_start p \<le> gp_end p \<and>
           gp_end p \<le> gt_last t) \<and>
        distinct (map gp_unique (gptUsed ps)) \<and>
        set (map gp_unique (gptUsed ps)) \<inter> insert (gp_unique p) (fst ` set seen) = {}"
      using Cons.IH [of "Suc i" "(gp_unique p, i) # seen"] by simp
    have step: "(\<exists>rs. gptRanges i seen t (p # ps) = Inr rs) \<longleftrightarrow>
        \<not> allZero (gp_unique p) \<and> gp_unique p \<notin> fst ` set seen \<and> gt_first t \<le> gp_start p \<and>
        gp_start p \<le> gp_end p \<and> gp_end p \<le> gt_last t \<and>
        (\<exists>rs. gptRanges (Suc i) ((gp_unique p, i) # seen) t ps = Inr rs)"
    proof (cases "map_of seen (gp_unique p)")
      case None
      then have "gp_unique p \<notin> fst ` set seen" by (simp add: map_of_eq_None_iff)
      with None False show ?thesis
        by (cases "gptRanges (Suc i) ((gp_unique p, i) # seen) t ps") (simp_all flip: not_less)
    next
      case (Some k)
      then have "gp_unique p \<in> fst ` set seen" by (force dest: map_of_SomeD)
      with Some False show ?thesis by simp
    qed
    show ?thesis unfolding step IH using False by auto
  qed
qed

lemma gpt_extents_nonempty:
  assumes "gptRanges i seen t ps = Inr rs" "r \<in> set rs"
  shows "fst (gptRangeExtent r) < snd (gptRangeExtent r)"
proof -
  have "(fst r, fst (snd r)) \<in> set (map (\<lambda>p. (gp_start p, gp_end p)) (gptUsed ps))"
    unfolding gptRanges_Inr [OF assms(1), symmetric] using assms(2) by force
  then obtain p where "p \<in> set (gptUsed ps)" "fst r = gp_start p" "fst (snd r) = gp_end p" by auto
  moreover have "\<forall>p \<in> set (gptUsed ps). gp_start p \<le> gp_end p"
    using gptRanges_ok_iff [of i seen t ps] assms(1) by blast
  ultimately show ?thesis by (auto simp: gptRangeExtent_def word_le_nat_alt less_Suc_eq_le)
qed

lemma gptRangeExtent_map:
  assumes "gptRanges i seen t ps = Inr rs"
  shows "map gptRangeExtent rs = map gptExtent (gptUsed ps)"
proof -
  have "map gptRangeExtent rs = map (\<lambda>x. (unat (fst x), Suc (unat (snd x)))) (map (\<lambda>r. (fst r, fst (snd r))) rs)"
    by (simp add: gptRangeExtent_def)
  then show ?thesis unfolding gptRanges_Inr [OF assms] by (simp add: gptExtent_def)
qed

lemma sorted_fst_unat: "sorted (map (\<lambda>r. unat (fst r)) (sort_key fst (rs :: (u64 \<times> 'b) list)))"
proof -
  have "sorted (map fst (sort_key fst rs))" by simp
  then have "sorted (map unat (map fst (sort_key fst rs)))"
    by (auto simp: sorted_map sorted_wrt_map word_le_nat_alt elim!: sorted_wrt_mono_rel [rotated])
  then show ?thesis by (simp add: comp_def)
qed

lemma gpt_conflict_iff:
  assumes "gptRanges 0 [] t (gt_parts t) = Inr rs"
  shows "firstConflict (\<lambda>a b. fst b \<le> fst (snd a)) (sort_key fst rs) = None \<longleftrightarrow>
         sorted_wrt ext_disjoint (gptExtents t)"
proof -
  have "firstConflict (\<lambda>a b. fst b \<le> fst (snd a)) (sort_key fst rs) = None \<longleftrightarrow>
        sorted_wrt ext_disjoint (map gptRangeExtent (sort_key fst rs))"
    by (rule firstConflict_None_iff [where ex = gptRangeExtent])
      (use gpt_extents_nonempty [OF assms] sorted_fst_unat [of rs] in
        \<open>auto simp: gptRangeExtent_def word_le_nat_alt less_Suc_eq_le\<close>)
  also have "\<dots> \<longleftrightarrow> sorted_wrt ext_disjoint (map gptRangeExtent rs)"
    by (rule sorted_wrt_perm [OF ext_disjoint_sym]) simp
  finally show ?thesis by (simp add: gptExtents_def gptRangeExtent_map [OF assms])
qed

lemma validateGPT_iff_ok: "validateCfdiskGPTTable t = None \<longleftrightarrow> gpt_ok t"
proof (cases "gptRanges 0 [] t (gt_parts t)")
  case (Inl e)
  then have "\<nexists>rs. gptRanges 0 [] t (gt_parts t) = Inr rs" by simp
  with Inl show ?thesis
    unfolding gptRanges_ok_iff by (auto simp: validateCfdiskGPTTable_def gpt_ok_def)
next
  case (Inr rs)
  then have ok: "\<exists>rs. gptRanges 0 [] t (gt_parts t) = Inr rs" by blast
  show ?thesis
    using gpt_conflict_iff [OF Inr] Inr ok [unfolded gptRanges_ok_iff]
    by (auto simp: validateCfdiskGPTTable_def gpt_ok_def not_less not_le split: option.splits)
qed


section \<open>The free regions of a GPT\<close>

definition gptWords :: "cfdiskGPTTable \<Rightarrow> (u64 \<times> u64) list" where
  "gptWords t = map (\<lambda>p. (gp_start p, gp_end p + 1)) (gptUsed (gt_parts t))"

text \<open>Inclusive ends become exclusive ones, and the order is that of the starts either way.\<close>

lemma gapLoop_inclusive:
  "gapLoop (\<lambda>e. e + 1) c us = gapLoop (\<lambda>e. e) c (map (\<lambda>u. (fst u, snd u + 1)) us)"
  by (induction us arbitrary: c) (simp_all add: Let_def)

lemma insort_key_map:
  "(\<And>x. f (h x) = f x) \<Longrightarrow> insort_key f (h x) (map h xs) = map h (insort_key f x xs)"
  by (induction xs) auto

lemma sort_key_map: "(\<And>x. f (h x) = f x) \<Longrightarrow> sort_key f (map h xs) = map h (sort_key f xs)"
  by (induction xs) (simp_all add: insort_key_map)

lemma unat_plus_one:
  fixes x :: u64
  assumes "x \<noteq> - 1"
  shows "unat (x + 1) = Suc (unat x)"
proof -
  have "1 + x \<noteq> 0" using assms by (metis add_eq_0_iff)
  then show ?thesis using unatSuc [of x] by (simp add: add.commute)
qed

lemma gptFree_gapsUpTo:
  assumes "validateCfdiskGPTTable t = None" "gt_last t \<noteq> - 1"
  shows "cfdiskGPTFreeRegions t =
    Inr (gapsUpTo (gt_first t) (sort_key fst (gptWords t)) (gt_last t + 1))"
proof -
  let ?us = "map (\<lambda>p. (gp_start p, gp_end p)) (gptUsed (gt_parts t))"
  have words: "map (\<lambda>u. (fst u, snd u + 1)) (sort_key fst ?us) = sort_key fst (gptWords t)"
    by (subst sort_key_map [symmetric]) (simp_all add: gptWords_def comp_def)
  have lt: "c \<le> gt_last t \<longleftrightarrow> c < gt_last t + 1" for c
    by (simp add: word_le_nat_alt word_less_nat_alt unat_plus_one [OF assms(2)] less_Suc_eq_le)
  show ?thesis
    unfolding cfdiskGPTFreeRegions_def gapsUpTo_def gapLoop_inclusive words [symmetric]
    using assms(1) by (simp add: gptUsed_def lt Let_def case_prod_beta algebra_simps)
qed


definition gptFree :: "cfdiskGPTTable \<Rightarrow> extent list" where
  "gptFree t = (case cfdiskGPTFreeRegions t of Inl _ \<Rightarrow> [] | Inr rs \<Rightarrow> map regionExtent rs)"

lemma end_not_max: "(e :: u64) \<le> l \<Longrightarrow> l \<noteq> - 1 \<Longrightarrow> e \<noteq> - 1"
  using word_order.extremum_unique by blast

lemma gptWords_extents:
  assumes "gpt_ok t" "gt_last t \<noteq> - 1"
  shows "map wordExtent (gptWords t) = gptExtents t"
proof -
  have "unat (gp_end p + 1) = Suc (unat (gp_end p))" if "p \<in> set (gptUsed (gt_parts t))" for p
    by (rule unat_plus_one, rule end_not_max [of _ "gt_last t"]) (use that assms in \<open>auto simp: gpt_ok_def\<close>)
  then show ?thesis by (simp add: gptWords_def gptExtents_def wordExtent_def gptExtent_def)
qed

lemma gpt_chain:
  assumes ok: "gpt_ok t" and last: "gt_last t \<noteq> - 1"
  shows "chain (unat (gt_first t)) (map wordExtent (sort_key fst (gptWords t))) (Suc (unat (gt_last t)))"
proof (rule sort_key_chain)
  show "sorted_wrt ext_disjoint (map wordExtent (gptWords t))"
    using ok by (simp only: gptWords_extents [OF assms] gpt_ok_def)
  show "unat (gt_first t) \<le> Suc (unat (gt_last t))"
    using ok by (simp add: gpt_ok_def word_le_nat_alt)
  show "\<forall>u \<in> set (gptWords t). unat (gt_first t) \<le> unat (fst u) \<and> fst u < snd u \<and>
      unat (snd u) \<le> Suc (unat (gt_last t))"
  proof
    fix u assume "u \<in> set (gptWords t)"
    then obtain p where p: "p \<in> set (gptUsed (gt_parts t))" "u = (gp_start p, gp_end p + 1)"
      by (auto simp: gptWords_def)
    then have b: "gt_first t \<le> gp_start p" "gp_start p \<le> gp_end p" "gp_end p \<le> gt_last t"
      using ok by (auto simp: gpt_ok_def)
    have "unat (gp_end p + 1) = Suc (unat (gp_end p))"
      by (rule unat_plus_one) (rule end_not_max [OF b(3) last])
    with b p(2) show "unat (gt_first t) \<le> unat (fst u) \<and> fst u < snd u \<and>
      unat (snd u) \<le> Suc (unat (gt_last t))"
      by (simp add: word_le_nat_alt word_less_nat_alt less_Suc_eq_le)
  qed
qed

interpretation gpt_alloc: disk_allocator
  "\<lambda>t. validateCfdiskGPTTable t = None \<and> gt_last t \<noteq> - 1"
  gptExtents "\<lambda>t. unat (gt_first t)" "\<lambda>t. Suc (unat (gt_last t))" gptFree
proof
  fix t :: cfdiskGPTTable
  let ?xs = "map wordExtent (sort_key fst (gptWords t))"
  assume v: "validateCfdiskGPTTable t = None \<and> gt_last t \<noteq> - 1"
  then have ok: "gpt_ok t" "gt_last t \<noteq> - 1" by (simp_all add: validateGPT_iff_ok)
  note ch = gpt_chain [OF ok]
  have "gptFree t = gaps (unat (gt_first t)) ?xs (Suc (unat (gt_last t)))"
    using gapsUpTo_gaps [of "gt_first t" "sort_key fst (gptWords t)" "gt_last t + 1"] ch v
    by (simp add: gptFree_def gptFree_gapsUpTo unat_plus_one)
  moreover have "mset ?xs = mset (gptExtents t)"
    by (simp flip: gptWords_extents [OF ok])
  ultimately show "\<exists>xs. mset xs = mset (gptExtents t) \<and>
      chain (unat (gt_first t)) xs (Suc (unat (gt_last t))) \<and>
      gptFree t = gaps (unat (gt_first t)) xs (Suc (unat (gt_last t)))"
    using ch by blast
qed


section \<open>The suggested region of a GPT\<close>

lemma small_not_max: "unat (x :: u64) < 2 ^ 63 \<Longrightarrow> x \<noteq> - 1"
  by (auto simp: unsigned_minus_1_eq_mask mask_eq_exp_minus_1)

lemma gpt_region_bounds:
  assumes "validateCfdiskGPTTable t = None" "unat (gt_last t) < 2 ^ 63"
    and "cfdiskGPTFreeRegions t = Inr rs" "r \<in> set rs"
  shows "regionExtent r \<in> set (gptFree t)"
    and "unat (region_start r) + unat (region_size r) < 2 ^ 64"
    and "unat (region_start r) + 2047 < 2 ^ 64"
    and "region_size r \<noteq> 0"
proof -
  show f: "regionExtent r \<in> set (gptFree t)" using assms(3,4) by (simp add: gptFree_def)
  have "gt_last t \<noteq> - 1" using assms(2) by (rule small_not_max)
  with f assms(1) gpt_alloc.free_bounds [of t "regionExtent r"]
  have b: "unat (region_start r) < unat (region_start r) + unat (region_size r)"
    "unat (region_start r) + unat (region_size r) \<le> Suc (unat (gt_last t))"
    by (simp_all add: regionExtent_def)
  then show "unat (region_start r) + unat (region_size r) < 2 ^ 64"
    "unat (region_start r) + 2047 < 2 ^ 64" using assms(2) by simp_all
  show "region_size r \<noteq> 0" using b(1) by auto
qed

lemma gpt_suggestion_free:
  assumes "cfdiskSuggestedGPTFreeRegion t = Inr r" "unat (gt_last t) < 2 ^ 63"
  shows "0 < region_size r \<and>
         (\<exists>g \<in> set (gptFree t). fst g \<le> unat (region_start r) \<and>
            unat (region_start r) + unat (region_size r) = snd g)"
proof -
  from assms(1) obtain rs where rs: "cfdiskGPTFreeRegions t = Inr rs"
    and r: "r = bestRegion (gt_first t) noRegion rs" "region_size r \<noteq> 0"
    by (auto simp: cfdiskSuggestedGPTFreeRegion_def Let_def split: sum.splits if_splits)
  then have v: "validateCfdiskGPTTable t = None"
    by (auto simp: cfdiskGPTFreeRegions_def split: option.splits)
  note b = gpt_region_bounds [OF v assms(2) rs]
  obtain g where "g \<in> set rs" "fst (regionExtent g) \<le> fst (regionExtent r)"
    "snd (regionExtent r) = snd (regionExtent g)"
    using bestRegion_within [of "gt_first t" rs] r b by metis
  with b(1) r(2) show ?thesis
    by (auto simp: regionExtent_def word_gt_0 intro!: bexI [of _ "regionExtent g"])
qed

lemma gptRanges_error: "gptRanges i seen t ps = Inl e \<Longrightarrow> e \<noteq> GPTNoUnallocated"
  by (induction i seen t ps arbitrary: e rule: gptRanges.induct)
    (auto split: if_splits sum.splits option.splits)

lemma validateGPT_error: "validateCfdiskGPTTable t = Some e \<Longrightarrow> e \<noteq> GPTNoUnallocated"
  by (auto simp: validateCfdiskGPTTable_def dest: gptRanges_error
      split: if_splits sum.splits option.splits)

lemma gpt_no_suggestion_iff_full:
  assumes "unat (gt_last t) < 2 ^ 63"
  shows "cfdiskSuggestedGPTFreeRegion t = Inl GPTNoUnallocated \<longleftrightarrow>
         validateCfdiskGPTTable t = None \<and>
         {unat (gt_first t) .. unat (gt_last t)} \<subseteq> (\<Union>x \<in> set (gptExtents t). ext_set x)"
proof (cases "validateCfdiskGPTTable t")
  case (Some e)
  then show ?thesis
    using validateGPT_error [OF Some]
    by (auto simp: cfdiskSuggestedGPTFreeRegion_def cfdiskGPTFreeRegions_def)
next
  case None
  have last: "gt_last t \<noteq> - 1" using assms by (rule small_not_max)
  obtain rs where rs: "cfdiskGPTFreeRegions t = Inr rs"
    using gptFree_gapsUpTo [OF None last] by blast
  note b = gpt_region_bounds [OF None assms rs]
  have "region_size (bestRegion (gt_first t) noRegion rs) = 0 \<longleftrightarrow> rs = []"
  proof
    assume z: "region_size (bestRegion (gt_first t) noRegion rs) = 0"
    have "r \<notin> set rs" for r
      using bestRegion_zero [OF z _ b(2,3)] b(4) by blast
    then show "rs = []" by (cases rs) auto
  qed (simp add: noRegion_def)
  moreover have "rs = [] \<longleftrightarrow> gptFree t = []" using rs by (simp add: gptFree_def)
  ultimately show ?thesis
    using None last gpt_alloc.free_empty_iff [of t]
    by (simp add: cfdiskSuggestedGPTFreeRegion_def rs Let_def atLeastLessThanSuc_atLeastAtMost)
qed

section \<open>Reading the device\<close>

text \<open>The largest signed 64-bit file offset.\<close>

definition maxSignedOffset :: u64 where
  "maxSignedOffset = 0x7FFFFFFFFFFFFFFF"

definition cfdiskReadGPTBytes :: "device \<Rightarrow> u64 \<Rightarrow> nat \<Rightarrow> gpt_error + bytes" where
  "cfdiskReadGPTBytes file lba n =
     (if maxSignedOffset div 512 < lba \<or> maxSignedOffset - lba * 512 < word_of_nat n
      then Inl BeyondOffsets
      else (case readAt file (unat (lba * 512)) n of
              None \<Rightarrow> Inl GPTReadError
            | Some data \<Rightarrow> if length data \<noteq> n then Inl GPTReadEOF else Inr data))"

definition cfdiskReadGPTRawState :: "device \<Rightarrow> u64 \<Rightarrow> gpt_error + cfdiskGPTRawState" where
  "cfdiskReadGPTRawState file sectors =
     (case cfdiskGPTGeometry sectors of
        Inl e \<Rightarrow> Inl e
      | Inr g \<Rightarrow>
          (case cfdiskReadGPTBytes file 0 512 of
             Inl e \<Rightarrow> Inl e
           | Inr mbr \<Rightarrow>
          (case cfdiskReadGPTBytes file 1 512 of
             Inl e \<Rightarrow> Inl e
           | Inr header \<Rightarrow>
          (case cfdiskReadGPTBytes file 2 (128 * 128) of
             Inl e \<Rightarrow> Inl e
           | Inr entries \<Rightarrow>
          (case cfdiskReadGPTBytes file (geo_backup_entries g) (128 * 128) of
             Inl e \<Rightarrow> Inl e
           | Inr backupEntries \<Rightarrow>
          (case cfdiskReadGPTBytes file (geo_backup_header g) 512 of
             Inl e \<Rightarrow> Inl e
           | Inr backupHeader \<Rightarrow>
               Inr \<lparr>raw_mbr = mbr, raw_header = header, raw_entries = entries,
                    raw_backup_entries = backupEntries, raw_backup_header = backupHeader\<rparr>))))))"

definition cfdiskReadGPT ::
    "device \<Rightarrow> u64 \<Rightarrow> gpt_error + (cfdiskGPTTable \<times> cfdiskGPTRawState)" where
  "cfdiskReadGPT file sectors =
     (case cfdiskReadGPTRawState file sectors of
        Inl e \<Rightarrow> Inl e
      | Inr st \<Rightarrow>
          (case cfdiskGPTTableFromRawState st sectors of
             Inl e \<Rightarrow> Inl e
           | Inr table \<Rightarrow> Inr (table, st)))"

text \<open>The 16 bytes \<open>crypto/rand\<close> delivered are the argument.\<close>

definition cfdiskRandomGPTGUID :: "bytes \<Rightarrow> bytes" where
  "cfdiskRandomGPTGUID random =
     random[7 := (random ! 7 AND 0x0f) OR 0x40, 8 := (random ! 8 AND 0x3f) OR 0x80]"

definition cfdiskNewGPT ::
    "bytes \<Rightarrow> device \<Rightarrow> u64 \<Rightarrow> gpt_error + (cfdiskGPTTable \<times> cfdiskGPTRawState)" where
  "cfdiskNewGPT random file sectors =
     (case cfdiskGPTGeometry sectors of
        Inl e \<Rightarrow> Inl e
      | Inr g \<Rightarrow>
          (case cfdiskReadGPTRawState file sectors of
             Inl e \<Rightarrow> Inl e
           | Inr original \<Rightarrow>
               Inr (emptyGPTTable\<lparr>gt_disk := cfdiskRandomGPTGUID random, gt_first := geo_first g,
                                  gt_last := geo_last g\<rparr>, original)))"

section \<open>Writing the device\<close>

text \<open>The closure \<open>write\<close>, and the chain of steps that each run only while no error occurred.\<close>

definition gptWrite :: "device \<Rightarrow> u64 \<Rightarrow> bytes \<Rightarrow> device \<times> gpt_error option" where
  "gptWrite file lba data =
     (if maxSignedOffset div 512 < lba then (file, Some BeyondOffsets)
      else (case writeAt file (unat (lba * 512)) data of
              (file', ok) \<Rightarrow> (file', if ok then None else Some GPTWriteError)))"

datatype io_step = WriteStep u64 bytes | SyncStep

fun runSteps :: "device \<Rightarrow> io_step list \<Rightarrow> device \<times> gpt_error option" where
  "runSteps file [] = (file, None)"
| "runSteps file (SyncStep # steps) =
     (if dev_nosync file then (file, Some GPTSyncError) else runSteps file steps)"
| "runSteps file (WriteStep lba data # steps) =
     (case gptWrite file lba data of
        (file', Some e) \<Rightarrow> (file', Some e)
      | (file', None) \<Rightarrow> runSteps file' steps)"

definition gptWriteSteps :: "gptGeometry \<Rightarrow> cfdiskGPTRawState \<Rightarrow> io_step list" where
  "gptWriteSteps g st =
     [WriteStep (geo_backup_entries g) (raw_backup_entries st),
      WriteStep (geo_backup_header g) (raw_backup_header st),
      SyncStep,
      WriteStep 2 (raw_entries st),
      WriteStep 1 (raw_header st),
      WriteStep 0 (raw_mbr st),
      SyncStep]"

definition writeCfdiskGPT :: "device \<Rightarrow> u64 \<Rightarrow> cfdiskGPTRawState \<Rightarrow> device \<times> gpt_error option" where
  "writeCfdiskGPT file sectors st =
     (case cfdiskGPTGeometry sectors of
        Inl e \<Rightarrow> (file, Some e)
      | Inr g \<Rightarrow>
          if length (raw_mbr st) \<noteq> 512 \<or> length (raw_header st) \<noteq> 512 \<or>
             length (raw_backup_header st) \<noteq> 512 \<or> length (raw_entries st) \<noteq> 128 * 128 \<or>
             length (raw_backup_entries st) \<noteq> 128 * 128
          then (file, Some GPTInvalidGenerated)
          else (case cfdiskGPTTableFromRawState st sectors of
             Inl e \<Rightarrow> (file, Some GPTInvalidGenerated)
           | Inr table \<Rightarrow>
               if dev_noopen file then (file, Some GPTOpenError)
               else (case runSteps file (gptWriteSteps g st) of
                       (file', Some e) \<Rightarrow> (file', Some e)
                     | (file', None) \<Rightarrow>
                         (file', if dev_noclose file' then Some GPTCloseError else None))))"

text \<open>
  Power loss.  \<open>crash m pending steps m'\<close>: running \<open>steps\<close> on a device whose durable content is
  \<open>m\<close>, with \<open>pending\<close> writes since the last sync, may leave the content \<open>m'\<close> behind.  Until a
  sync returns, any byte of a pending write may or may not have reached the medium.
\<close>

definition torn :: "device \<Rightarrow> (nat \<times> bytes) list \<Rightarrow> device \<Rightarrow> bool" where
  "torn m pending m' \<longleftrightarrow>
     m' = m\<lparr>dev_byte := dev_byte m'\<rparr> \<and>
     (\<forall>i. dev_byte m' i = dev_byte m i \<or>
        (\<exists>(off, data) \<in> set pending. off \<le> i \<and> i < off + length data \<and>
           dev_byte m' i = data ! (i - off)))"

fun flush :: "device \<Rightarrow> (nat \<times> bytes) list \<Rightarrow> device" where
  "flush m [] = m"
| "flush m ((off, data) # ws) = flush (putAt m off data) ws"

inductive crash :: "device \<Rightarrow> (nat \<times> bytes) list \<Rightarrow> io_step list \<Rightarrow> device \<Rightarrow> bool" where
  lost: "torn m pending m' \<Longrightarrow> crash m pending steps m'"
| wrote: "crash m (pending @ [(unat (lba * 512), data)]) steps m' \<Longrightarrow>
          crash m pending (WriteStep lba data # steps) m'"
| synced: "crash (flush m pending) [] steps m' \<Longrightarrow> crash m pending (SyncStep # steps) m'"

inductive_simps crash_simps:
  "crash m pending [] m'"
  "crash m pending (WriteStep lba data # steps) m'"
  "crash m pending (SyncStep # steps) m'"

section \<open>What reads and writes do to the device\<close>

lemma unat_offset: "unat (lba :: u64) < 2 ^ 53 \<Longrightarrow> unat (lba * 512) = unat lba * 512"
  by (simp add: unat_word_ariths)

definition devBytes :: "device \<Rightarrow> nat \<Rightarrow> nat \<Rightarrow> bytes" where
  "devBytes d off n = map (dev_byte d) [off ..< off + n]"

lemma readBytes_ok:
  assumes "unat lba < 2 ^ 53" "n \<le> 2 ^ 14" "unat lba * 512 + n \<le> dev_size d"
    and "\<not> dev_rfault d (unat lba * 512)"
  shows "cfdiskReadGPTBytes d lba n = Inr (devBytes d (unat lba * 512) n)"
proof -
  have off: "unat (lba * 512) = unat lba * 512" using assms(1) by (rule unat_offset)
  have n: "unat (word_of_nat n :: u64) = n"
    using assms(2) by (simp add: unat_of_nat take_bit_nat_eq_self)
  have le: "lba \<le> maxSignedOffset div 512"
    using assms(1) by (simp add: maxSignedOffset_def word_le_nat_alt)
  have le2: "lba * 512 \<le> maxSignedOffset"
    using assms(1) off by (simp add: maxSignedOffset_def word_le_nat_alt)
  have "unat (maxSignedOffset - lba * 512) = unat maxSignedOffset - unat lba * 512"
    using le2 off by (simp add: unat_sub_u64 word_le_nat_alt)
  then have "word_of_nat n \<le> maxSignedOffset - lba * 512"
    using assms(1,2) n by (simp add: word_le_nat_alt maxSignedOffset_def)
  with le show ?thesis
    using assms(3,4) off by (simp add: cfdiskReadGPTBytes_def readAt_def devBytes_def not_less)
qed

lemma readBytes_cong:
  assumes "unat lba < 2 ^ 53" "dev_size d' = dev_size d" "dev_rfault d' = dev_rfault d"
    and "\<And>i. unat lba * 512 \<le> i \<Longrightarrow> i < unat lba * 512 + n \<Longrightarrow> dev_byte d' i = dev_byte d i"
  shows "cfdiskReadGPTBytes d' lba n = cfdiskReadGPTBytes d lba n"
proof -
  have "readAt d' (unat (lba * 512)) n = readAt d (unat (lba * 512)) n"
    by (rule readAt_cong) (use assms unat_offset [OF assms(1)] in auto)
  then show ?thesis by (simp add: cfdiskReadGPTBytes_def)
qed

lemma torn_frame:
  "torn m pending m' \<Longrightarrow> dev_size m' = dev_size m \<and> dev_rfault m' = dev_rfault m"
  unfolding torn_def by (metis device.select_convs(2,3) device.update_convs(1) device.surjective)

lemma torn_outside:
  assumes "torn m pending m'"
    and "\<And>off data. (off, data) \<in> set pending \<Longrightarrow> i < off \<or> off + length data \<le> i"
  shows "dev_byte m' i = dev_byte m i"
proof -
  from assms(1) consider "dev_byte m' i = dev_byte m i"
    | off data where "(off, data) \<in> set pending" "off \<le> i" "i < off + length data"
    unfolding torn_def by blast
  then show ?thesis using assms(2) by cases force+
qed

lemma torn_readBytes:
  assumes "torn m pending m'" "unat lba < 2 ^ 53"
    and "\<And>off data. (off, data) \<in> set pending \<Longrightarrow>
           unat lba * 512 + n \<le> off \<or> off + length data \<le> unat lba * 512"
  shows "cfdiskReadGPTBytes m' lba n = cfdiskReadGPTBytes m lba n"
proof (rule readBytes_cong [OF assms(2)])
  fix i assume i: "unat lba * 512 \<le> i" "i < unat lba * 512 + n"
  show "dev_byte m' i = dev_byte m i"
    by (rule torn_outside [OF assms(1)]) (use assms(3) i in force)
qed (use torn_frame [OF assms(1)] in simp_all)

lemma putAt_readBytes_other:
  assumes "unat lba < 2 ^ 53" "unat lba * 512 + n \<le> off \<or> off + length data \<le> unat lba * 512"
  shows "cfdiskReadGPTBytes (putAt d off data) lba n = cfdiskReadGPTBytes d lba n"
  by (rule readBytes_cong [OF assms(1)]) (use assms(2) in \<open>auto simp: putAt_def\<close>)

lemma putAt_readBytes_same:
  assumes "unat lba < 2 ^ 53" "length data \<le> 2 ^ 14" "unat lba * 512 + length data \<le> dev_size d"
    and "\<not> dev_rfault d (unat lba * 512)"
  shows "cfdiskReadGPTBytes (putAt d (unat lba * 512) data) lba (length data) = Inr data"
  using assms by (subst readBytes_ok) (auto simp: devBytes_def putAt_def intro!: nth_equalityI)

section \<open>A failed or interrupted run is a crash\<close>

lemma flush_append: "flush m (ws @ [(off, data)]) = putAt (flush m ws) off data"
  by (induction m ws rule: flush.induct) auto

lemma flush_device: "flush m ws = m\<lparr>dev_byte := dev_byte (flush m ws)\<rparr>"
proof (induction m ws rule: flush.induct)
  case (2 m off data ws)
  have "flush m ((off, data) # ws) = flush (putAt m off data) ws" by simp
  also have "\<dots> = (putAt m off data)\<lparr>dev_byte := dev_byte (flush (putAt m off data) ws)\<rparr>"
    by (rule 2)
  also have "\<dots> = m\<lparr>dev_byte := dev_byte (flush (putAt m off data) ws)\<rparr>"
    by (simp add: putAt_def)
  finally show ?case by simp
qed simp

lemma torn_flush: "torn m ws (flush m ws)"
proof -
  have "dev_byte (flush m ws) i = dev_byte m i \<or>
      (\<exists>(off, data) \<in> set ws. off \<le> i \<and> i < off + length data \<and>
         dev_byte (flush m ws) i = data ! (i - off))" for i
  proof (induction ws rule: rev_induct)
    case (snoc w ws)
    then show ?case by (cases w) (auto simp: flush_append putAt_def)
  qed simp
  with flush_device [of m ws] show ?thesis unfolding torn_def by blast
qed

lemma torn_partial: "torn m (ws @ [(off, data)]) (putAt (flush m ws) off (take k data))"
proof -
  let ?d = "putAt (flush m ws) off (take k data)"
  have "?d = m\<lparr>dev_byte := dev_byte ?d\<rparr>"
  proof -
    obtain f where "flush m ws = m\<lparr>dev_byte := f\<rparr>" using flush_device by blast
    then show ?thesis by (simp add: putAt_def)
  qed
  moreover have "dev_byte ?d i = dev_byte m i \<or>
      (\<exists>(off, data) \<in> set (ws @ [(off, data)]). off \<le> i \<and> i < off + length data \<and>
         dev_byte ?d i = data ! (i - off))" for i
    using torn_flush [of m ws] unfolding torn_def by (force simp: putAt_def)
  ultimately show ?thesis unfolding torn_def by blast
qed

lemma runSteps_crash:
  "runSteps (flush m ws) steps = (d', e) \<Longrightarrow> crash m ws steps d'"
proof (induction steps arbitrary: m ws)
  case Nil
  then show ?case using torn_flush by (auto intro: lost)
next
  case (Cons step steps)
  show ?case
  proof (cases step)
    case (WriteStep lba data)
    show ?thesis
    proof (cases "gptWrite (flush m ws) lba data")
      case (Pair d1 r)
      show ?thesis
      proof (cases r)
        case (Some x)
        then have d1: "d' = d1" using Cons.prems Pair WriteStep by simp
        show ?thesis
        proof (cases "d1 = flush m ws")
          case True
          then show ?thesis using d1 torn_flush by (auto intro: lost)
        next
          case False
          then obtain k where "d1 = putAt (flush m ws) (unat (lba * 512)) (take k data)"
            using Pair Some
            by (auto simp: gptWrite_def writeAt_def split: if_splits option.splits prod.splits)
          then show ?thesis unfolding WriteStep d1
            by (simp only:) (rule wrote, rule lost, rule torn_partial)
        qed
      next
        case None
        then have "d1 = flush m (ws @ [(unat (lba * 512), data)])"
          using Pair
          by (auto simp: gptWrite_def flush_append dest: writeAt_ok split: if_splits prod.splits)
        then show ?thesis
          using Cons.prems Cons.IH Pair None unfolding WriteStep by (auto intro: wrote)
      qed
    qed
  next
    case SyncStep
    show ?thesis
    proof (cases "dev_nosync (flush m ws)")
      case True
      then show ?thesis using Cons.prems SyncStep torn_flush by (auto intro: lost)
    next
      case False
      then have "runSteps (flush (flush m ws) []) steps = (d', e)"
        using Cons.prems SyncStep by simp
      then show ?thesis using Cons.IH SyncStep by (auto intro: synced)
    qed
  qed
qed


section \<open>A valid copy survives\<close>

text \<open>The primary copy reads as it did on the old content.\<close>

definition primaryKept :: "device \<Rightarrow> device \<Rightarrow> bool" where
  "primaryKept d d' \<longleftrightarrow>
     cfdiskReadGPTBytes d' 0 512 = cfdiskReadGPTBytes d 0 512 \<and>
     cfdiskReadGPTBytes d' 1 512 = cfdiskReadGPTBytes d 1 512 \<and>
     cfdiskReadGPTBytes d' 2 (128 * 128) = cfdiskReadGPTBytes d 2 (128 * 128)"

text \<open>The backup copy reads as the new entries and header.\<close>

definition backupWritten :: "gptGeometry \<Rightarrow> cfdiskGPTRawState \<Rightarrow> device \<Rightarrow> bool" where
  "backupWritten g st d' \<longleftrightarrow>
     cfdiskReadGPTBytes d' (geo_backup_entries g) (128 * 128) = Inr (raw_backup_entries st) \<and>
     cfdiskReadGPTBytes d' (geo_backup_header g) 512 = Inr (raw_backup_header st)"

text \<open>What a raw state must have to be written, and a device to hold it.\<close>

definition raw_lengths :: "cfdiskGPTRawState \<Rightarrow> bool" where
  "raw_lengths st \<longleftrightarrow>
     length (raw_mbr st) = 512 \<and> length (raw_header st) = 512 \<and> length (raw_backup_header st) = 512 \<and>
     length (raw_entries st) = 128 * 128 \<and> length (raw_backup_entries st) = 128 * 128"

definition gpt_device :: "device \<Rightarrow> u64 \<Rightarrow> bool" where
  "gpt_device d sectors \<longleftrightarrow>
     unat sectors < 2 ^ 53 \<and> unat sectors * 512 \<le> dev_size d \<and> (\<forall>off. \<not> dev_rfault d off)"

lemma geometry_offsets:
  assumes "cfdiskGPTGeometry n = Inr g" "unat n < 2 ^ 53"
  shows "unat (geo_backup_entries g * 512) = unat (geo_backup_entries g) * 512"
    "unat (geo_backup_header g * 512) = unat (geo_backup_header g) * 512"
    "unat (geo_backup_entries g) < 2 ^ 53" "unat (geo_backup_header g) < 2 ^ 53"
    "35 \<le> unat (geo_backup_entries g)"
    "unat (geo_backup_header g) = unat (geo_backup_entries g) + 32"
    "unat (geo_backup_header g) + 1 = unat n"
proof -
  note u = geometry_unat [OF assms(1)]
  show b: "unat (geo_backup_entries g) < 2 ^ 53" "unat (geo_backup_header g) < 2 ^ 53"
    using u assms(2) by simp_all
  from unat_offset [OF b(1)] unat_offset [OF b(2)]
  show "unat (geo_backup_entries g * 512) = unat (geo_backup_entries g) * 512"
    "unat (geo_backup_header g * 512) = unat (geo_backup_header g) * 512" .
  show "35 \<le> unat (geo_backup_entries g)"
    "unat (geo_backup_header g) = unat (geo_backup_entries g) + 32"
    "unat (geo_backup_header g) + 1 = unat n"
    using u by simp_all
qed

lemma backup_after_sync:
  assumes g: "cfdiskGPTGeometry n = Inr g" and d: "gpt_device m n" and len: "raw_lengths st"
  shows "backupWritten g st
    (flush m [(unat (geo_backup_entries g * 512), raw_backup_entries st),
              (unat (geo_backup_header g * 512), raw_backup_header st)])"
proof -
  have n: "unat n < 2 ^ 53" "unat n * 512 \<le> dev_size m" "\<And>off. \<not> dev_rfault m off"
    using d by (auto simp: gpt_device_def)
  note o = geometry_offsets [OF g n(1)]
  let ?b = "unat (geo_backup_entries g) * 512" and ?h = "unat (geo_backup_header g) * 512"
  let ?m1 = "putAt m ?b (raw_backup_entries st)"
  have entries: "cfdiskReadGPTBytes ?m1 (geo_backup_entries g) (128 * 128) = Inr (raw_backup_entries st)"
    using putAt_readBytes_same [OF o(3), of "raw_backup_entries st" m] len n o
    by (simp add: raw_lengths_def)
  have "cfdiskReadGPTBytes (putAt ?m1 ?h (raw_backup_header st)) (geo_backup_entries g) (128 * 128) =
        cfdiskReadGPTBytes ?m1 (geo_backup_entries g) (128 * 128)"
    by (rule putAt_readBytes_other) (use o in auto)
  moreover have "cfdiskReadGPTBytes (putAt ?m1 ?h (raw_backup_header st)) (geo_backup_header g) 512 =
        Inr (raw_backup_header st)"
    using putAt_readBytes_same [OF o(4), of "raw_backup_header st" ?m1] len n o
    by (simp add: raw_lengths_def)
  ultimately show ?thesis
    using entries o by (simp add: backupWritten_def)
qed

lemma backup_kept:
  assumes g: "cfdiskGPTGeometry n = Inr g" "unat n < 2 ^ 53" and b: "backupWritten g st m"
    and t: "torn m pending m'"
    and low: "\<And>off data. (off, data) \<in> set pending \<Longrightarrow> off + length data \<le> 34 * 512"
  shows "backupWritten g st m'"
proof -
  note o = geometry_offsets [OF g]
  have "cfdiskReadGPTBytes m' (geo_backup_entries g) (128 * 128) =
        cfdiskReadGPTBytes m (geo_backup_entries g) (128 * 128)"
    by (rule torn_readBytes [OF t o(3)]) (use low o in force)
  moreover have "cfdiskReadGPTBytes m' (geo_backup_header g) 512 =
        cfdiskReadGPTBytes m (geo_backup_header g) 512"
    by (rule torn_readBytes [OF t o(4)]) (use low o in force)
  ultimately show ?thesis using b by (simp add: backupWritten_def)
qed

lemma primary_kept:
  assumes g: "cfdiskGPTGeometry n = Inr g" "unat n < 2 ^ 53" and t: "torn m pending m'"
    and high: "\<And>off data. (off, data) \<in> set pending \<Longrightarrow> 34 * 512 \<le> off"
  shows "primaryKept m m'"
  unfolding primaryKept_def
  by (intro conjI; rule torn_readBytes [OF t]) (use high in \<open>force+\<close>)

lemma crash_dichotomy:
  assumes g: "cfdiskGPTGeometry n = Inr g" and d: "gpt_device m n" and len: "raw_lengths st"
    and crash: "crash m [] (gptWriteSteps g st) m'"
  shows "primaryKept m m' \<or> backupWritten g st m'"
proof -
  have n: "unat n < 2 ^ 53" using d by (simp add: gpt_device_def)
  note o = geometry_offsets [OF g n]
  define wb where "wb = (unat (geo_backup_entries g * 512), raw_backup_entries st)"
  define wh where "wh = (unat (geo_backup_header g * 512), raw_backup_header st)"
  define m1 where "m1 = flush m [wb, wh]"
  define p1 where "p1 = (unat ((2 :: u64) * 512), raw_entries st)"
  define p2 where "p2 = (unat ((1 :: u64) * 512), raw_header st)"
  define p3 where "p3 = (unat ((0 :: u64) * 512), raw_mbr st)"
  have high: "34 * 512 \<le> off" if "(off, data) \<in> {wb, wh}" for off data
    using that o by (auto simp: wb_def wh_def)
  have low: "off + length data \<le> 34 * 512" if "(off, data) \<in> {p1, p2, p3}" for off data
    using that len by (auto simp: p1_def p2_def p3_def raw_lengths_def)
  have b1: "backupWritten g st m1"
    unfolding m1_def wb_def wh_def by (rule backup_after_sync [OF g d len])
  have early: "primaryKept m m'" if "torn m ws m'" "set ws \<subseteq> {wb, wh}" for ws
    by (rule primary_kept [OF g n that(1)]) (use that(2) high in blast)
  have late: "backupWritten g st m'" if "torn m1 ws m'" "set ws \<subseteq> {p1, p2, p3}" for ws
    by (rule backup_kept [OF g n b1 that(1)]) (use that(2) low in blast)
  have final: "backupWritten g st m'" if t: "torn (flush m1 [p1, p2, p3]) [] m'"
  proof -
    have "backupWritten g st (flush m1 [p1, p2, p3])"
      by (rule backup_kept [OF g n b1 torn_flush]) (use low in auto)
    from backup_kept [OF g n this t] show ?thesis by simp
  qed
  have "torn m [] m' \<or> torn m [wb] m' \<or> torn m [wb, wh] m' \<or> torn m1 [] m' \<or> torn m1 [p1] m' \<or>
        torn m1 [p1, p2] m' \<or> torn m1 [p1, p2, p3] m' \<or> torn (flush m1 [p1, p2, p3]) [] m'"
    using crash
    unfolding gptWriteSteps_def crash_simps append.simps wb_def wh_def m1_def p1_def p2_def p3_def
    by blast
  then show ?thesis
    using early [of "[]"] early [of "[wb]"] early [of "[wb, wh]"] late [of "[]"] late [of "[p1]"]
      late [of "[p1, p2]"] late [of "[p1, p2, p3]"] final by auto
qed


lemma fromRaw_lengths:
  assumes "cfdiskGPTTableFromRawState st n = Inr t"
  shows "raw_lengths st"
proof -
  have p: "length h = 512 \<and> length es = 128 * 128"
    if "cfdiskParseGPTHeader h c b e f l es = Inr x" for h c b e f l es x
    using that by (auto simp: cfdiskParseGPTHeader_def Let_def split: if_splits)
  from assms p show ?thesis
    unfolding cfdiskGPTTableFromRawState_def raw_lengths_def
    by (auto split: if_splits sum.splits dest!: p)
qed

lemma write_crash:
  assumes "writeCfdiskGPT d n st = (d', e)" "cfdiskGPTGeometry n = Inr g"
  shows "d' = d \<or> raw_lengths st \<and> crash d [] (gptWriteSteps g st) d'"
proof (cases "runSteps d (gptWriteSteps g st)")
  case (Pair d1 r)
  have c: "crash d [] (gptWriteSteps g st) d1"
    using runSteps_crash [of d "[]"] Pair by simp
  show ?thesis
    using assms c fromRaw_lengths Pair
    by (auto simp: writeCfdiskGPT_def raw_lengths_def split: if_splits sum.splits option.splits)
qed

lemma primaryKept_refl: "primaryKept d d"
  by (simp add: primaryKept_def)

lemma write_dichotomy:
  assumes "writeCfdiskGPT d n st = (d', e)" "cfdiskGPTGeometry n = Inr g" "gpt_device d n"
  shows "primaryKept d d' \<or> backupWritten g st d'"
  using write_crash [OF assms(1,2)] crash_dichotomy [OF assms(2,3)] primaryKept_refl by blast

section \<open>A successful write reads back\<close>

lemma runSteps_flush:
  assumes "runSteps d steps = (d', None)"
  shows "d' = flush d (concat (map (\<lambda>s. case s of WriteStep lba data \<Rightarrow> [(unat (lba * 512), data)]
                                          | SyncStep \<Rightarrow> []) steps))"
  using assms
proof (induction d steps rule: runSteps.induct)
  case (3 d lba data steps)
  then show ?case
    by (auto simp: gptWrite_def dest!: writeAt_ok split: if_splits prod.splits option.splits)
qed (auto split: if_splits)

lemma write_ok_flush:
  assumes "writeCfdiskGPT d n st = (d', None)" "cfdiskGPTGeometry n = Inr g"
  shows "d' = flush d [(unat (geo_backup_entries g * 512), raw_backup_entries st),
                       (unat (geo_backup_header g * 512), raw_backup_header st),
                       (1024, raw_entries st), (512, raw_header st), (0, raw_mbr st)]
       \<and> raw_lengths st \<and> (\<exists>t. cfdiskGPTTableFromRawState st n = Inr t)"
proof -
  obtain d1 t where r: "runSteps d (gptWriteSteps g st) = (d1, None)" "d' = d1"
    and t: "cfdiskGPTTableFromRawState st n = Inr t"
    using assms
    by (auto simp: writeCfdiskGPT_def split: if_splits sum.splits option.splits prod.splits)
  show ?thesis
    using runSteps_flush [OF r(1)] r(2) t fromRaw_lengths [OF t]
    by (simp add: gptWriteSteps_def)
qed

lemma primary_reads:
  assumes len: "raw_lengths st" and d: "34 * 512 \<le> dev_size d" "\<And>off. \<not> dev_rfault d off"
  defines "e \<equiv> flush d [(1024, raw_entries st), (512, raw_header st), (0, raw_mbr st)]"
  shows "cfdiskReadGPTBytes e 0 512 = Inr (raw_mbr st)"
    and "cfdiskReadGPTBytes e 1 512 = Inr (raw_header st)"
    and "cfdiskReadGPTBytes e 2 (128 * 128) = Inr (raw_entries st)"
proof -
  let ?a = "putAt d 1024 (raw_entries st)"
  let ?b = "putAt ?a 512 (raw_header st)"
  have e: "e = putAt ?b 0 (raw_mbr st)" by (simp add: e_def)
  have l: "length (raw_mbr st) = 512" "length (raw_header st) = 512"
    "length (raw_entries st) = 128 * 128"
    using len by (simp_all add: raw_lengths_def)
  show "cfdiskReadGPTBytes e 0 512 = Inr (raw_mbr st)"
    using putAt_readBytes_same [of 0 "raw_mbr st" ?b] l d by (simp add: e)
  have "cfdiskReadGPTBytes ?b 1 512 = Inr (raw_header st)"
    using putAt_readBytes_same [of 1 "raw_header st" ?a] l d by simp
  then show "cfdiskReadGPTBytes e 1 512 = Inr (raw_header st)"
    unfolding e by (subst putAt_readBytes_other) (use l in auto)
  have a: "cfdiskReadGPTBytes ?a 2 (128 * 128) = Inr (raw_entries st)"
    using putAt_readBytes_same [of 2 "raw_entries st" d] l d by simp
  have "cfdiskReadGPTBytes ?b 2 (128 * 128) = cfdiskReadGPTBytes ?a 2 (128 * 128)"
    by (rule putAt_readBytes_other) (use l in auto)
  moreover have "cfdiskReadGPTBytes e 2 (128 * 128) = cfdiskReadGPTBytes ?b 2 (128 * 128)"
    unfolding e by (rule putAt_readBytes_other) (use l in auto)
  ultimately show "cfdiskReadGPTBytes e 2 (128 * 128) = Inr (raw_entries st)" using a by simp
qed

lemma write_reads_back:
  assumes w: "writeCfdiskGPT d n st = (d', None)" and d: "gpt_device d n"
  shows "cfdiskReadGPTRawState d' n = Inr st"
proof -
  obtain g where g: "cfdiskGPTGeometry n = Inr g"
    using w by (cases "cfdiskGPTGeometry n") (auto simp: writeCfdiskGPT_def)
  note ok = write_ok_flush [OF w g]
  have n: "unat n < 2 ^ 53" using d by (simp add: gpt_device_def)
  note o = geometry_offsets [OF g n]
  let ?m = "flush d [(unat (geo_backup_entries g * 512), raw_backup_entries st),
                     (unat (geo_backup_header g * 512), raw_backup_header st)]"
  let ?w = "[(1024, raw_entries st), (512, raw_header st), (0, raw_mbr st)]"
  have d': "d' = flush ?m ?w" using ok by simp
  have len: "raw_lengths st" using ok by blast
  have fr: "dev_size ?m = dev_size d" "dev_rfault ?m = dev_rfault d"
    using torn_frame [OF torn_flush] by auto
  have big: "34 * 512 \<le> dev_size d" using d o by (simp add: gpt_device_def)
  have "backupWritten g st d'"
    unfolding d' by (rule backup_kept [OF g n backup_after_sync [OF g d len] torn_flush])
      (use len in \<open>auto simp: raw_lengths_def\<close>)
  moreover note primary_reads [OF len, of ?m, folded d']
  ultimately show ?thesis
    using big d fr g
    by (simp add: cfdiskReadGPTRawState_def backupWritten_def gpt_device_def)
qed

lemma build_write_read:
  assumes "cfdiskBuildGPT b n t = Inr st" "gpt_table_wf t"
    and "writeCfdiskGPT d n st = (d', None)" "gpt_device d n"
  shows "cfdiskReadGPT d' n = Inr (t, st)"
  using write_reads_back [OF assms(3,4)] image_roundtrip [OF assms(1,2)]
  by (simp add: cfdiskReadGPT_def)

lemma write_succeeds:
  assumes "cfdiskGPTTableFromRawState st n = Inr t" "gpt_device d n"
    and "\<not> dev_noopen d" "\<not> dev_nosync d" "\<not> dev_noclose d" "\<And>off. dev_short d off = None"
  shows "\<exists>d'. writeCfdiskGPT d n st = (d', None)"
proof -
  obtain g where g: "cfdiskGPTGeometry n = Inr g"
    using assms(1) by (cases "cfdiskGPTGeometry n") (auto simp: cfdiskGPTTableFromRawState_def)
  have n: "unat n < 2 ^ 53" using assms(2) by (simp add: gpt_device_def)
  note o = geometry_offsets [OF g n]
  have le: "\<not> maxSignedOffset div 512 < lba" if "unat lba < 2 ^ 53" for lba
    using that by (simp add: maxSignedOffset_def word_less_nat_alt)
  have wr: "gptWrite m lba data = (putAt m (unat (lba * 512)) data, None)"
    if "unat lba < 2 ^ 53" "dev_short m = dev_short d" for m lba data
    using that assms(6) by (simp add: gptWrite_def le writeAt_def)
  have "\<exists>d'. runSteps d (gptWriteSteps g st) = (d', None) \<and> dev_noclose d' = dev_noclose d"
    using assms(4) o by (simp add: gptWriteSteps_def wr)
  then show ?thesis
    using assms(1,3,5) g fromRaw_lengths [OF assms(1)]
    by (auto simp: writeCfdiskGPT_def raw_lengths_def)
qed

section \<open>Properties of the GPT editor\<close>

text \<open>
  A partition name of at most 36 UTF-16 units, characters outside the basic
  plane included, survives being written to its 72-byte field and read back.\<close>

lemma gpt_name_roundtrip:
  assumes "\<forall>r \<in> set name. scalarRune r" "length (utf16Encode name) \<le> 36"
  shows "decodeGPTName (cfdiskEncodeGPTName 72 name) = name"
  using name_roundtrip assms by blast

text \<open>C34 (equivalence): the GPT validator accepts exactly the tables whose used entries have
  distinct nonzero GUIDs, lie in the usable range and are pairwise disjoint.\<close>

theorem gpt_validator_accepts_exactly: "validateCfdiskGPTTable t = None \<longleftrightarrow> gpt_ok t"
  by (rule validateGPT_iff_ok)

text \<open>
  The free regions of a valid GPT are pairwise disjoint and cover exactly the
  usable sectors no partition occupies.\<close>

lemma gpt_free_regions_exact:
  assumes "cfdiskGPTFreeRegions t = Inr rs" "gt_last t \<noteq> - 1"
  shows "(\<Union>r \<in> set rs. ext_set (regionExtent r)) =
         {unat (gt_first t) .. unat (gt_last t)} -
         (\<Union>p \<in> set (gptUsed (gt_parts t)). {unat (gp_start p) .. unat (gp_end p)}) \<and>
         sorted_wrt ext_disjoint (map regionExtent rs)"
proof -
  have v: "validateCfdiskGPTTable t = None \<and> gt_last t \<noteq> - 1"
    using assms by (auto simp: cfdiskGPTFreeRegions_def split: option.splits)
  have f: "gptFree t = map regionExtent rs" using assms(1) by (simp add: gptFree_def)
  show ?thesis
    using gpt_alloc.free_exact [OF v] gpt_alloc.free_disjoint [OF v] f
    by (simp add: gptExtents_def gptExtent_def ext_set_def atLeastLessThanSuc_atLeastAtMost)
qed

definition examplePart :: cfdiskGPTPartition where
  "examplePart = \<lparr>gp_type = replicate 16 1, gp_unique = replicate 16 2, gp_start = 40, gp_end = 49,
                  gp_attr = 0, gp_name = [76, 105]\<rparr>"

definition exampleGPT :: cfdiskGPTTable where
  "exampleGPT = \<lparr>gt_disk = replicate 16 3, gt_first = 34, gt_last = 94,
                 gt_parts = examplePart # replicate 127 noGPTPartition\<rparr>"

lemma used_example: "gptUsed (gt_parts exampleGPT) = [examplePart]"
proof -
  have "gptUsed (replicate n noGPTPartition) = []" for n
    by (induction n) (simp_all add: gptPartitionEmpty_def noGPTPartition_def zeroGUID_def)
  moreover have "\<not> gptPartitionEmpty examplePart"
    by (simp add: gptPartitionEmpty_def examplePart_def allZero_def)
  ultimately show ?thesis by (simp add: exampleGPT_def)
qed

lemma exampleGPT_ok: "gpt_ok exampleGPT"
  by (simp add: gpt_ok_def used_example gptExtents_def)
    (simp add: exampleGPT_def examplePart_def allZero_def)

lemma exampleGPT_wf: "gpt_table_wf exampleGPT"
proof -
  have "gpt_part_wf examplePart"
    by (simp add: gpt_part_wf_def examplePart_def scalarRune_def utf16Encode_def encodeRune_def
        gptPartitionEmpty_def allZero_def)
  moreover have "gpt_part_wf noGPTPartition"
    by (simp add: gpt_part_wf_def noGPTPartition_def zeroGUID_def utf16Encode_def)
  ultimately show ?thesis by (auto simp: gpt_table_wf_def exampleGPT_def)
qed

text \<open>C31 (round trip): the image built from a well-formed table - protective MBR, both headers with
  their checksums, both entry arrays - is accepted by the reader and reads back as that table.\<close>

theorem gpt_image_roundtrip:
  assumes "cfdiskBuildGPT mbr n t = Inr st" "gpt_table_wf t"
  shows "cfdiskGPTTableFromRawState st n = Inr t"
  using assms by (rule image_roundtrip)

lemma example_geometry:
  "cfdiskGPTGeometry 128 = Inr \<lparr>geo_first = 34, geo_last = 94, geo_backup_entries = 95,
     geo_backup_header = 127\<rparr>"
  by (simp add: cfdiskGPTGeometry_def cfdiskGPTEntrySectors_def)

lemma example_build: "\<exists>st. cfdiskBuildGPT mbr 128 exampleGPT = Inr st"
proof -
  have "validateCfdiskGPTTable exampleGPT = None" using exampleGPT_ok by (simp add: validateGPT_iff_ok)
  moreover have "gt_first exampleGPT = 34" "gt_last exampleGPT = 94" by (simp_all add: exampleGPT_def)
  ultimately show ?thesis by (simp add: cfdiskBuildGPT_def example_geometry Let_def)
qed

theorem gpt_image_roundtrip_witness:
  "\<exists>st. cfdiskBuildGPT (replicate 512 0) 128 exampleGPT = Inr st \<and>
        cfdiskGPTTableFromRawState st 128 = Inr exampleGPT"
proof -
  obtain st where st: "cfdiskBuildGPT (replicate 512 0) 128 exampleGPT = Inr st"
    using example_build by blast
  with gpt_image_roundtrip [OF st exampleGPT_wf] show ?thesis by blast
qed

text \<open>C26 (round trip): when writing a built image reports success, opening the disk again yields
  that table and that image.\<close>

theorem gpt_write_then_read:
  assumes "cfdiskBuildGPT mbr n t = Inr st" "gpt_table_wf t"
    and "writeCfdiskGPT d n st = (d', None)" "gpt_device d n"
  shows "cfdiskReadGPT d' n = Inr (t, st)"
  using assms by (rule build_write_read)

definition zeroDisk :: "nat \<Rightarrow> device" where
  "zeroDisk bytes = \<lparr>dev_byte = \<lambda>_. 0, dev_size = bytes, dev_rfault = \<lambda>_. False,
     dev_short = \<lambda>_. None, dev_noopen = False, dev_nosync = False, dev_noclose = False,
     dev_file = False\<rparr>"

lemma zeroDisk_device: "gpt_device (zeroDisk (128 * 512)) 128"
  by (simp add: gpt_device_def zeroDisk_def)

theorem gpt_write_then_read_witness:
  "\<exists>st d'. cfdiskBuildGPT (replicate 512 0) 128 exampleGPT = Inr st \<and>
     writeCfdiskGPT (zeroDisk (128 * 512)) 128 st = (d', None) \<and>
     cfdiskReadGPT d' 128 = Inr (exampleGPT, st)"
proof -
  obtain st where st: "cfdiskBuildGPT (replicate 512 0) 128 exampleGPT = Inr st"
    using example_build by blast
  obtain d' where d': "writeCfdiskGPT (zeroDisk (128 * 512)) 128 st = (d', None)"
    using write_succeeds [OF image_roundtrip [OF st exampleGPT_wf] zeroDisk_device]
    by (auto simp: zeroDisk_def)
  with gpt_write_then_read [OF st exampleGPT_wf d' zeroDisk_device] st show ?thesis by blast
qed

text \<open>C23 (safety): power may fail at any point of the write, and until a sync returns any byte of a
  pending write may or may not be on the medium.  Whatever remains, either the primary copy reads
  as before, or the complete new backup is there and its header is accepted.\<close>

theorem gpt_power_loss:
  assumes "cfdiskGPTTableFromRawState st n = Inr t" "cfdiskGPTGeometry n = Inr g" "gpt_device d n"
    and "crash d [] (gptWriteSteps g st) d'"
  shows "primaryKept d d' \<or>
         (backupWritten g st d' \<and>
          (\<exists>c. cfdiskParseGPTHeader (raw_backup_header st) (geo_backup_header g) 1
                 (geo_backup_entries g) (geo_first g) (geo_last g) (raw_backup_entries st) =
               Inr (gt_disk t, c)))"
proof -
  have "\<exists>c. cfdiskParseGPTHeader (raw_backup_header st) (geo_backup_header g) 1
          (geo_backup_entries g) (geo_first g) (geo_last g) (raw_backup_entries st) =
        Inr (gt_disk t, c)"
    using assms(1,2)
    by (auto simp: cfdiskGPTTableFromRawState_def Let_def split: if_splits sum.splits option.splits)
  then show ?thesis
    using crash_dichotomy [OF assms(2,3) fromRaw_lengths [OF assms(1)] assms(4)] by blast
qed

theorem gpt_power_loss_witness:
  "\<exists>st g. cfdiskBuildGPT (replicate 512 0) 128 exampleGPT = Inr st \<and> cfdiskGPTGeometry 128 = Inr g \<and>
     crash (zeroDisk (128 * 512)) [] (gptWriteSteps g st) (zeroDisk (128 * 512)) \<and>
     (primaryKept (zeroDisk (128 * 512)) (zeroDisk (128 * 512)) \<or>
      backupWritten g st (zeroDisk (128 * 512)))"
proof -
  obtain st where st: "cfdiskBuildGPT (replicate 512 0) 128 exampleGPT = Inr st"
    using example_build by blast
  obtain g where g: "cfdiskGPTGeometry 128 = Inr g" using example_geometry by blast
  have c: "crash (zeroDisk (128 * 512)) [] (gptWriteSteps g st) (zeroDisk (128 * 512))"
    by (rule lost) (simp add: torn_def)
  from gpt_power_loss [OF image_roundtrip [OF st exampleGPT_wf] g zeroDisk_device c] st g c
  show ?thesis by blast
qed

end
