(* ===== verification/GptText.thy ===== *)
theory GptText
  imports Gpt
begin

text \<open>
  The textual side of a GPT: GUIDs printed and parsed (\<open>formatGPTGUID\<close> of
  \<open>recovery_linux.go\<close>, \<open>cfdiskParseGPTGUID\<close> of \<open>cfdisk_gpt_linux.go\<close>) and the names of the known
  partition types.
\<close>

section \<open>Hexadecimal\<close>

text \<open>The verbs \<open>%08x\<close>, \<open>%04x\<close>, \<open>%02x\<close> on a number that fits, and \<open>%x\<close> on bytes.\<close>

definition showHexW :: "nat \<Rightarrow> nat \<Rightarrow> string" where
  "showHexW w n = map (\<lambda>i. digitChar (n div 16 ^ i mod 16)) (rev [0 ..< w])"

definition showHexBytes :: "bytes \<Rightarrow> string" where
  "showHexBytes bs = concat (map (\<lambda>b. showHexW 2 (unat b)) bs)"

text \<open>\<open>hex.DecodeString\<close>; any bad digit or an odd length is an error.\<close>

definition hexVal :: "char \<Rightarrow> nat option" where
  "hexVal c = (case digitVal c of None \<Rightarrow> None | Some d \<Rightarrow> if d < 16 then Some d else None)"

fun hexDecode :: "string \<Rightarrow> bytes option" where
  "hexDecode [] = Some []"
| "hexDecode [c] = None"
| "hexDecode (a # b # rest) =
     (case (hexVal a, hexVal b, hexDecode rest) of
        (Some x, Some y, Some bs) \<Rightarrow> Some (word_of_nat (x * 16 + y) # bs)
      | _ \<Rightarrow> None)"

section \<open>GUIDs\<close>

definition formatGPTGUID :: "bytes \<Rightarrow> string" where
  "formatGPTGUID raw =
     (if length raw < 16 then ''''
      else showHexW 8 (unat (getU32 raw 0)) @ ''-'' @ showHexW 4 (unat (getU16 raw 4)) @ ''-'' @
           showHexW 4 (unat (getU16 raw 6)) @ ''-'' @ showHexW 2 (unat (raw ! 8)) @
           showHexW 2 (unat (raw ! 9)) @ ''-'' @ showHexBytes (slice raw 10 16))"

definition cfdiskParseGPTGUID :: "string \<Rightarrow> bytes option" where
  "cfdiskParseGPTGUID value =
     (let parts = splitByte CHR ''-'' (toLower (trimSpace value)) in
      if map length parts \<noteq> [8, 4, 4, 4, 12] then None
      else (case hexDecode (concat parts) of
              None \<Rightarrow> None
            | Some d \<Rightarrow>
                if length d \<noteq> 16 then None
                else Some ([d ! 3, d ! 2, d ! 1, d ! 0, d ! 5, d ! 4, d ! 7, d ! 6] @ drop 8 d)))"

definition cfdiskGPTLinuxFilesystemType :: bytes where
  "cfdiskGPTLinuxFilesystemType =
     [0xaf, 0x3d, 0xc6, 0x0f, 0x83, 0x84, 0x72, 0x47, 0x8e, 0x79, 0x3d, 0x69, 0xd8, 0x47, 0x7d, 0xe4]"

definition cfdiskGPTLinuxSwapType :: bytes where
  "cfdiskGPTLinuxSwapType =
     [0x6d, 0xfd, 0x57, 0x06, 0xab, 0xa4, 0xc4, 0x43, 0x84, 0xe5, 0x09, 0x33, 0xc8, 0x4b, 0x4f, 0x4f]"

definition cfdiskGPTEFISystemType :: bytes where
  "cfdiskGPTEFISystemType =
     [0x28, 0x73, 0x2a, 0xc1, 0x1f, 0xf8, 0xd2, 0x11, 0xba, 0x4b, 0x00, 0xa0, 0xc9, 0x3e, 0xc9, 0x3b]"

definition gptTypeName :: "bytes \<Rightarrow> string" where
  "gptTypeName raw =
     (let guid = toLower (formatGPTGUID raw) in
      if guid = ''0fc63daf-8483-4772-8e79-3d69d8477de4'' then ''Linux filesystem''
      else if guid = ''0657fd6d-a4ab-43c4-84e5-0933c84b4f4f'' then ''Linux swap''
      else if guid = ''c12a7328-f81f-11d2-ba4b-00a0c93ec93b'' then ''EFI System''
      else guid)"

definition cfdiskParseGPTType :: "string \<Rightarrow> bytes option" where
  "cfdiskParseGPTType value =
     (let v = toLower (trimSpace value) in
      if v = ''linux'' \<or> v = ''linux filesystem'' \<or> v = ''0fc63daf-8483-4772-8e79-3d69d8477de4''
      then Some cfdiskGPTLinuxFilesystemType
      else if v = ''swap'' \<or> v = ''linux swap'' \<or> v = ''0657fd6d-a4ab-43c4-84e5-0933c84b4f4f''
      then Some cfdiskGPTLinuxSwapType
      else if v = ''efi'' \<or> v = ''efi system'' \<or> v = ''c12a7328-f81f-11d2-ba4b-00a0c93ec93b''
      then Some cfdiskGPTEFISystemType
      else (case cfdiskParseGPTGUID value of
              None \<Rightarrow> None
            | Some guid \<Rightarrow> if allZero guid then None else Some guid))"

section \<open>Parsing what was printed\<close>

definition isHexLower :: "char \<Rightarrow> bool" where
  "isHexLower c \<longleftrightarrow> (48 \<le> ord c \<and> ord c \<le> 57) \<or> (97 \<le> ord c \<and> ord c \<le> 102)"

lemma digitVal_digitChar: "d < 36 \<Longrightarrow> digitVal (digitChar d) = Some d"
  by (simp add: digitVal_def digitChar_def Let_def)

lemma digitChar_hex:
  assumes "d < 16"
  shows "hexVal (digitChar d) = Some d" "isHexLower (digitChar d)"
proof -
  show "hexVal (digitChar d) = Some d" using assms by (simp add: hexVal_def digitVal_digitChar)
  show "isHexLower (digitChar d)" using assms by (simp add: isHexLower_def digitChar_def)
qed

lemma length_showHexW [simp]: "length (showHexW w n) = w"
  by (simp add: showHexW_def)

lemma hexLower_showHexW: "\<forall>c \<in> set (showHexW w n). isHexLower c"
  using digitChar_hex(2) by (auto simp: showHexW_def)

lemma showHexW_2: "showHexW 2 n = [digitChar (n div 16 mod 16), digitChar (n mod 16)]"
  by (simp add: showHexW_def numeral_2_eq_2)

lemma showHexBytes_simps [simp]:
  "showHexBytes [] = []"
  "showHexBytes (b # bs) = showHexW 2 (unat b) @ showHexBytes bs"
  by (simp_all add: showHexBytes_def)

lemma hexLower_showHexBytes: "\<forall>c \<in> set (showHexBytes bs). isHexLower c"
  using hexLower_showHexW by (induction bs) auto

lemma length_showHexBytes [simp]: "length (showHexBytes bs) = 2 * length bs"
  by (induction bs) auto

lemma hexDecode_showHexBytes: "hexDecode (showHexBytes bs) = Some bs"
proof (induction bs)
  case (Cons b bs)
  have "unat b < 256" using unsigned_less [of b] by simp
  then have "unat b div 16 < 16" by simp
  with Cons show ?case by (simp add: showHexW_2 digitChar_hex(1))
qed simp

lemma hexLower_plain:
  assumes "isHexLower c"
  shows "toLowerByte c = c" "\<not> isSpaceByte c" "c \<noteq> CHR ''-''"
proof -
  show "toLowerByte c = c" "\<not> isSpaceByte c"
    using assms by (auto simp: isHexLower_def toLowerByte_def isSpaceByte_def)
  have "ord CHR ''-'' = 45" by (simp add: ord_def)
  then show "c \<noteq> CHR ''-''" using assms by (auto simp: isHexLower_def)
qed

lemma splitByte_ne [simp]: "splitByte c s \<noteq> []"
  by (induction s) (auto split: list.splits)

lemma splitByte_append:
  assumes "c \<notin> set a"
  shows "splitByte c (a @ c # s) = a # splitByte c s"
  using assms by (induction a) (auto split: list.splits)

lemma splitByte_single: "c \<notin> set a \<Longrightarrow> splitByte c a = [a]"
  by (induction a) auto

lemma trimSpace_id:
  assumes "s = [] \<or> (\<not> isSpaceByte (hd s) \<and> \<not> isSpaceByte (last s))"
  shows "trimSpace s = s"
proof (cases "s = []")
  case False
  then have "dropWhile isSpaceByte s = s" using assms by (cases s) auto
  moreover have "dropWhile isSpaceByte (rev s) = rev s"
    using assms False by (cases "rev s") (auto simp: hd_rev [symmetric])
  ultimately show ?thesis by (simp add: trimSpace_def)
qed (simp add: trimSpace_def)

lemma toLower_id: "\<forall>c \<in> set s. toLowerByte c = c \<Longrightarrow> toLower s = s"
  by (simp add: toLower_def map_idI)

lemma rev_upt2: "rev [0 ..< Suc (Suc n)] = map (\<lambda>i. Suc (Suc i)) (rev [0 ..< n]) @ [1, 0]"
  by (induction n) simp_all

text \<open>A little-endian field prints its bytes from the last to the first.\<close>

lemma showHexW_le: "showHexW (2 * length bs) (leNat bs) = showHexBytes (rev bs)"
proof (induction bs)
  case Nil
  then show ?case by (simp add: showHexW_def)
next
  case (Cons b bs)
  have b: "unat b < 256" using unsigned_less [of b] by simp
  have hi: "(unat b + 256 * n) div 16 ^ Suc (Suc i) = n div 16 ^ i" for n i
  proof -
    have "(unat b + 256 * n) div 16 ^ Suc (Suc i) = (unat b + 256 * n) div 256 div 16 ^ i"
      by (simp add: div_mult2_eq)
    also have "(unat b + 256 * n) div 256 = n" using b by simp
    finally show ?thesis .
  qed
  have two: "2 * length (b # bs) = Suc (Suc (2 * length bs))" by simp
  have n: "leNat (b # bs) = unat b + 256 * leNat bs" by simp
  have low: "(unat b + 256 * m) div 16 mod 16 = unat b div 16 mod 16"
    "(unat b + 256 * m) mod 16 = unat b mod 16" for m
  proof -
    have "(unat b + 256 * m) div 16 = unat b div 16 + 16 * m" by simp
    then show "(unat b + 256 * m) div 16 mod 16 = unat b div 16 mod 16" by simp
    have "unat b + 256 * m = unat b + 16 * (16 * m)" by simp
    then show "(unat b + 256 * m) mod 16 = unat b mod 16" by (metis mod_mult_self2)
  qed
  have "showHexW (2 * length (b # bs)) (leNat (b # bs)) =
        showHexW (2 * length bs) (leNat bs) @ showHexW 2 (unat b)"
    unfolding two n showHexW_def [of "Suc (Suc (2 * length bs))"] rev_upt2 showHexW_2
    by (simp add: hi low comp_def del: power_Suc upt_Suc) (simp add: showHexW_def)
  also have "\<dots> = showHexBytes (rev (b # bs))"
    using Cons by (simp add: showHexBytes_def)
  finally show ?case .
qed

lemma unat_leNat:
  assumes "LENGTH('a::len) = 8 * length bs"
  shows "unat (word_of_nat (leNat bs) :: 'a word) = leNat bs"
proof -
  have "leNat bs < 2 ^ LENGTH('a)"
    using leNat_bound [of bs] by (simp add: assms power_mult)
  then show ?thesis by (simp add: unsigned_of_nat take_bit_nat_eq_self)
qed

lemma length16_cases:
  assumes "length g = 16"
  obtains a b c d e f h i j k l m n p q r where
    "g = [a, b, c, d, e, f, h, i, j, k, l, m, n, p, q, r]"
  using assms by (auto simp: length_Suc_conv numeral_eq_Suc)


lemma format_hex:
  assumes "length g = 16"
  shows "formatGPTGUID g = showHexBytes (rev (slice g 0 4)) @ CHR ''-'' # showHexBytes (rev (slice g 4 6)) @
    CHR ''-'' # showHexBytes (rev (slice g 6 8)) @ CHR ''-'' # showHexBytes (slice g 8 10) @
    CHR ''-'' # showHexBytes (slice g 10 16)"
proof -
  have f32: "showHexW 8 (unat (getU32 g 0)) = showHexBytes (rev (slice g 0 4))"
    using showHexW_le [of "slice g 0 4"] assms by (simp add: getU32_def unat_leNat)
  have f16: "showHexW 4 (unat (getU16 g off)) = showHexBytes (rev (slice g off (off + 2)))"
    if "off + 2 \<le> 16" for off
    using showHexW_le [of "slice g off (off + 2)"] assms that by (simp add: getU16_def unat_leNat)
  have "slice g 8 10 = [g ! 8, g ! 9]"
    by (rule nth_equalityI) (use assms in \<open>auto simp: less_Suc_eq numeral_2_eq_2\<close>)
  then show ?thesis
    using assms f32 f16 [of 4] f16 [of 6] by (simp add: formatGPTGUID_def)
qed

lemma guid_reorder:
  assumes "length g = 16"
  defines "d \<equiv> rev (slice g 0 4) @ rev (slice g 4 6) @ rev (slice g 6 8) @ slice g 8 10 @ slice g 10 16"
  shows "[d ! 3, d ! 2, d ! 1, d ! 0, d ! 5, d ! 4, d ! 7, d ! 6] @ drop 8 d = g"
  using assms(1) unfolding d_def
  by (elim length16_cases) (simp add: slice_def)

lemma showHexBytes_append: "showHexBytes (a @ b) = showHexBytes a @ showHexBytes b"
  by (simp add: showHexBytes_def)

lemma parse_format_guid:
  assumes "length g = 16"
  shows "cfdiskParseGPTGUID (formatGPTGUID g) = Some g"
proof -
  let ?p = "[showHexBytes (rev (slice g 0 4)), showHexBytes (rev (slice g 4 6)),
             showHexBytes (rev (slice g 6 8)), showHexBytes (slice g 8 10), showHexBytes (slice g 10 16)]"
  have nodash: "CHR ''-'' \<notin> set (showHexBytes bs)" for bs
    using hexLower_showHexBytes [of bs] hexLower_plain(3) by blast
  have all: "\<forall>c \<in> set (formatGPTGUID g). isHexLower c \<or> c = CHR ''-''"
    unfolding format_hex [OF assms] using hexLower_showHexBytes by auto
  have dash: "toLowerByte CHR ''-'' = CHR ''-''" "\<not> isSpaceByte CHR ''-''"
    by (simp_all add: toLowerByte_def isSpaceByte_def ord_def)
  have "toLower (formatGPTGUID g) = formatGPTGUID g"
    by (rule toLower_id) (use all hexLower_plain(1) dash in auto)
  moreover have "trimSpace (formatGPTGUID g) = formatGPTGUID g"
    by (rule trimSpace_id)
      (metis all dash(2) hd_in_set hexLower_plain(2) last_in_set)
  moreover have "splitByte CHR ''-'' (formatGPTGUID g) = ?p"
    unfolding format_hex [OF assms] by (simp add: splitByte_append splitByte_single nodash)
  moreover have "map length ?p = [8, 4, 4, 4, 12]" using assms by simp
  moreover have "concat ?p = showHexBytes (rev (slice g 0 4) @ rev (slice g 4 6) @ rev (slice g 6 8) @
      slice g 8 10 @ slice g 10 16)"
    by (simp only: showHexBytes_append concat.simps append_Nil2)
  ultimately show ?thesis
    using guid_reorder [OF assms] assms
    by (simp add: cfdiskParseGPTGUID_def hexDecode_showHexBytes del: concat.simps list.map)
qed


lemma chr_eq: "ord c = n \<Longrightarrow> chr n = c"
  by auto

lemma digitChar_table:
  "digitChar 0 = CHR ''0''" "digitChar 1 = CHR ''1''" "digitChar 2 = CHR ''2''" "digitChar 3 = CHR ''3''" "digitChar 4 = CHR ''4''" "digitChar 5 = CHR ''5''" "digitChar 6 = CHR ''6''" "digitChar 7 = CHR ''7''" "digitChar 8 = CHR ''8''" "digitChar 9 = CHR ''9''" "digitChar 10 = CHR ''a''" "digitChar 11 = CHR ''b''" "digitChar 12 = CHR ''c''" "digitChar 13 = CHR ''d''" "digitChar 14 = CHR ''e''" "digitChar 15 = CHR ''f''"
  by (simp_all add: digitChar_def, (rule chr_eq, simp add: ord_def)+)

lemma known_types:
  "formatGPTGUID cfdiskGPTLinuxFilesystemType = ''0fc63daf-8483-4772-8e79-3d69d8477de4''"
  "formatGPTGUID cfdiskGPTLinuxSwapType = ''0657fd6d-a4ab-43c4-84e5-0933c84b4f4f''"
  "formatGPTGUID cfdiskGPTEFISystemType = ''c12a7328-f81f-11d2-ba4b-00a0c93ec93b''"
  by (simp_all add: format_hex cfdiskGPTLinuxFilesystemType_def cfdiskGPTLinuxSwapType_def
      cfdiskGPTEFISystemType_def slice_def showHexW_2 digitChar_table
      digitChar_table(2) [unfolded One_nat_def])


lemma format_inj:
  "length g = 16 \<Longrightarrow> length k = 16 \<Longrightarrow> formatGPTGUID g = formatGPTGUID k \<Longrightarrow> g = k"
  using parse_format_guid by (metis option.inject)

lemma length_known_types [simp]:
  "length cfdiskGPTLinuxFilesystemType = 16" "length cfdiskGPTLinuxSwapType = 16"
  "length cfdiskGPTEFISystemType = 16"
  by (simp_all add: cfdiskGPTLinuxFilesystemType_def cfdiskGPTLinuxSwapType_def
      cfdiskGPTEFISystemType_def)

lemma format_plain:
  assumes "length g = 16"
  shows "toLower (formatGPTGUID g) = formatGPTGUID g" "trimSpace (formatGPTGUID g) = formatGPTGUID g"
    "length (formatGPTGUID g) = 36"
proof -
  have all: "\<forall>c \<in> set (formatGPTGUID g). isHexLower c \<or> c = CHR ''-''"
    unfolding format_hex [OF assms] using hexLower_showHexBytes by auto
  have dash: "toLowerByte CHR ''-'' = CHR ''-''" "\<not> isSpaceByte CHR ''-''"
    by (simp_all add: toLowerByte_def isSpaceByte_def ord_def)
  show "toLower (formatGPTGUID g) = formatGPTGUID g"
    by (rule toLower_id) (use all hexLower_plain(1) dash in auto)
  show "trimSpace (formatGPTGUID g) = formatGPTGUID g"
    by (rule trimSpace_id)
      (metis all dash(2) hd_in_set hexLower_plain(2) last_in_set)
  show "length (formatGPTGUID g) = 36" using assms by (simp add: format_hex)
qed

lemma name_words:
  "toLower (trimSpace ''Linux filesystem'') = ''linux filesystem''"
  "toLower (trimSpace ''Linux swap'') = ''linux swap''"
  "toLower (trimSpace ''EFI System'') = ''efi system''"
  by (simp_all add: trimSpace_def toLower_def toLowerByte_def isSpaceByte_def ord_def
      chr_eq [of "CHR ''l''"] chr_eq [of "CHR ''e''"] chr_eq [of "CHR ''f''"] chr_eq [of "CHR ''i''"]
      chr_eq [of "CHR ''s''"])

lemma type_name_roundtrip:
  assumes "length g = 16" "\<not> allZero g"
  shows "cfdiskParseGPTType (gptTypeName g) = Some g"
proof -
  have known: "g = k" if "formatGPTGUID g = formatGPTGUID k" "length k = 16" for k
    using format_inj assms(1) that by blast
  have short: "formatGPTGUID g \<noteq> s" if "length s \<noteq> 36" for s
    using format_plain(3) [OF assms(1)] that by auto
  show ?thesis
    using known [of cfdiskGPTLinuxFilesystemType] known [of cfdiskGPTLinuxSwapType]
      known [of cfdiskGPTEFISystemType] assms
    by (auto simp: gptTypeName_def cfdiskParseGPTType_def Let_def format_plain name_words known_types
        parse_format_guid short)
qed

section \<open>Properties of the GUID syntax\<close>

text \<open>
  Parsing the printed form of any 16-byte GUID gives the GUID back, mixed byte
  order included; so the printed form determines the GUID.\<close>

lemma guid_text_roundtrip:
  assumes "length g = 16"
  shows "cfdiskParseGPTGUID (formatGPTGUID g) = Some g"
  using assms by (rule parse_format_guid)

end
