(* ===== verification/Sfdisk.thy ===== *)
theory Sfdisk
  imports GptText
begin

text \<open>
  The script language shared by \<open>cfdisk\<close> and \<open>sfdisk\<close>: \<open>cfdiskDump\<close> of \<open>cfdisk_linux.go\<close> prints
  a DOS table, \<open>parseSfdiskScript\<close> of \<open>recovery_linux.go\<close> reads one, and the two parsers of
  sector numbers and sizes serve the prompts as well.  Texts are ASCII.
\<close>

section \<open>Sector numbers and sizes\<close>

definition parseSectorNumber :: "string \<Rightarrow> nat option" where
  "parseSectorNumber value0 =
     (let value = trimSpace value0;
          (multiplier, digits) =
            (if value = [] then (1, value)
             else if last value \<in> {CHR ''K'', CHR ''k''} then (2, butlast value)
             else if last value \<in> {CHR ''M'', CHR ''m''} then (2048, butlast value)
             else if last value \<in> {CHR ''G'', CHR ''g''} then (2097152, butlast value)
             else (1, value))
      in case parseUint digits 0 64 of
           None \<Rightarrow> None
         | Some number \<Rightarrow>
             if (2 ^ 64 - 1) div multiplier < number then None else Some (number * multiplier))"

definition sizeUnits :: "(string \<times> nat) list" where
  "sizeUnits =
     [(''tib'', 2 ^ 40), (''ti'', 2 ^ 40), (''tb'', 2 ^ 40), (''t'', 2 ^ 40),
      (''gib'', 2 ^ 30), (''gi'', 2 ^ 30), (''gb'', 2 ^ 30), (''g'', 2 ^ 30),
      (''mib'', 2 ^ 20), (''mi'', 2 ^ 20), (''mb'', 2 ^ 20), (''m'', 2 ^ 20),
      (''kib'', 2 ^ 10), (''ki'', 2 ^ 10), (''kb'', 2 ^ 10), (''k'', 2 ^ 10)]"

text \<open>The loop over the units: the first suffix that matches decides.\<close>

fun parseSizeUnit :: "string \<Rightarrow> string \<Rightarrow> nat \<Rightarrow> (string \<times> nat) list \<Rightarrow> nat option" where
  "parseSizeUnit value lower sectorSize [] = parseUint value 0 64"
| "parseSizeUnit value lower sectorSize ((sfx, unit) # units) =
     (if \<not> hasSuffix lower sfx then parseSizeUnit value lower sectorSize units
      else (case parseUint (trimSpace (take (length value - length sfx) value)) 0 64 of
              None \<Rightarrow> None
            | Some parsed \<Rightarrow>
                if (2 ^ 64 - 1) div unit < parsed then None
                else if parsed * unit mod sectorSize \<noteq> 0 then None
                else Some (parsed * unit div sectorSize)))"

definition cfdiskParseSize :: "string \<Rightarrow> nat \<Rightarrow> nat option" where
  "cfdiskParseSize value0 sectorSize =
     (let value = trimPrefix (trimSpace value0) ''+'' in
      if value = [] \<or> sectorSize = 0 then None
      else parseSizeUnit value (toLower value) sectorSize sizeUnits)"

section \<open>Printing a table\<close>

definition partitionName :: "string \<Rightarrow> nat \<Rightarrow> string" where
  "partitionName device number =
     device @ (if device \<noteq> [] \<and> isDigitByte (last device) then ''p'' else []) @ showDec number"

definition newline :: string where
  "newline = [CHR 0x0A]"

definition dumpLine :: "string \<Rightarrow> nat \<Rightarrow> mbrPartition \<Rightarrow> string" where
  "dumpLine device number p =
     partitionName device number @ '' : start='' @ showDec (unat (part_start p)) @ '', size='' @
     showDec (unat (part_size p)) @ '', type='' @ showHex2 (unat (part_kind p)) @
     (if part_bootable p then '', bootable'' else []) @ newline"

text \<open>The loop over the four slots, with the number of the next slot.\<close>

fun dumpSlots :: "string \<Rightarrow> nat \<Rightarrow> mbrPartition list \<Rightarrow> string" where
  "dumpSlots device number [] = []"
| "dumpSlots device number (p # ps) =
     (if part_size p = 0 then dumpSlots device (Suc number) ps
      else dumpLine device number p @ dumpSlots device (Suc number) ps)"

fun dumpLogical :: "string \<Rightarrow> nat \<Rightarrow> cfdiskLogical list \<Rightarrow> string" where
  "dumpLogical device number [] = []"
| "dumpLogical device number (e # es) =
     dumpLine device number (log_part e) @ dumpLogical device (Suc number) es"

definition cfdiskDump :: "string \<Rightarrow> mbrPartition list \<Rightarrow> cfdiskLogical list \<Rightarrow> string" where
  "cfdiskDump device partitions logical =
     ''label: dos'' @ newline @ ''unit: sectors'' @ newline @
     dumpSlots device 1 partitions @ dumpLogical device 5 logical"

text \<open>The dump of a GPT.  \<open>quote\<close> is the verb \<open>%q\<close>, whose table of printable characters is the standard
  library's.\<close>

definition dumpEntry :: "(nat list \<Rightarrow> string) \<Rightarrow> string \<Rightarrow> nat \<Rightarrow> cfdiskGPTPartition \<Rightarrow> string" where
  "dumpEntry quote device number p =
     (if gptPartitionEmpty p then []
      else
        partitionName device number @ '' : start='' @ showDec (unat (gp_start p)) @ '', size='' @
        showDec (unat (gp_end p - gp_start p + 1)) @ '', type='' @ formatGPTGUID (gp_type p) @
        '', uuid='' @ formatGPTGUID (gp_unique p) @
        (if gp_name p \<noteq> [] then '', name='' @ quote (gp_name p) else []) @
        (if gp_attr p \<noteq> 0
         then '', attrs=0x'' @ dropWhile (\<lambda>c. c = CHR ''0'') (showHexW 16 (unat (gp_attr p))) else []) @
        newline)"

definition cfdiskGPTDump :: "(nat list \<Rightarrow> string) \<Rightarrow> string \<Rightarrow> cfdiskGPTTable \<Rightarrow> string" where
  "cfdiskGPTDump quote device table =
     ''label: gpt'' @ newline @ ''unit: sectors'' @ newline @
     ''first-lba: '' @ showDec (unat (gt_first table)) @ newline @
     ''last-lba: '' @ showDec (unat (gt_last table)) @ newline @
     concat (map (\<lambda>(i, p). dumpEntry quote device (i + 1) p) (List.enumerate 0 (gt_parts table)))"

section \<open>Reading a script\<close>

datatype sfdisk_error =
    NotDosLabel nat
  | NotSectors nat
  | TooManyPartitions nat
  | TooManyFields nat
  | InvalidStart nat
  | InvalidSize nat
  | InvalidType nat
  | InvalidBootable nat
  | UnsupportedField nat
  | MissingStartOrSize nat
  | OutsideDevice nat
  | OverlapsEarlier nat
  | LineTooLong
  | NoPartitions

text \<open>\<open>bufio.Scanner\<close> with \<open>ScanLines\<close>: no empty last line, one trailing \<open>\\r\<close> removed.\<close>

definition scanLines :: "string \<Rightarrow> string list" where
  "scanLines s =
     (let ls = splitByte CHR 0x0A s in if last ls = [] then butlast ls else ls)"

definition dropCR :: "string \<Rightarrow> string" where
  "dropCR l = (if l \<noteq> [] \<and> last l = CHR 0x0D then butlast l else l)"

record scriptEntry =
  se_part :: mbrPartition
  se_start :: bool
  se_size :: bool

text \<open>The key, the value and whether a \<open>=\<close> was there; \<open>None\<close> is a field too many.\<close>

definition fieldKey :: "nat \<Rightarrow> string \<Rightarrow> (string \<times> string \<times> bool) option" where
  "fieldKey position field =
     (case indexByte field CHR ''='' of
        Some i \<Rightarrow> Some (toLower (trimSpace (take i field)), trimSpace (drop (i + 1) field), True)
      | None \<Rightarrow>
          if position = 0 then Some (''start'', field, False)
          else if position = 1 then Some (''size'', field, False)
          else if position = 2 then Some (''type'', field, False)
          else if position = 3 then Some (''bootable'', field, False)
          else None)"

definition applyField ::
    "nat \<Rightarrow> string \<Rightarrow> string \<Rightarrow> bool \<Rightarrow> scriptEntry \<Rightarrow> sfdisk_error + scriptEntry" where
  "applyField line key value keyed e =
     (if key = ''start'' then
        (case parseSectorNumber value of
           None \<Rightarrow> Inl (InvalidStart line)
         | Some number \<Rightarrow>
             if 2 ^ 32 - 1 < number then Inl (InvalidStart line)
             else Inr (e\<lparr>se_part := (se_part e)\<lparr>part_start := word_of_nat number\<rparr>, se_start := True\<rparr>))
      else if key = ''size'' then
        (case parseSectorNumber value of
           None \<Rightarrow> Inl (InvalidSize line)
         | Some number \<Rightarrow>
             if number = 0 \<or> 2 ^ 32 - 1 < number then Inl (InvalidSize line)
             else Inr (e\<lparr>se_part := (se_part e)\<lparr>part_size := word_of_nat number\<rparr>, se_size := True\<rparr>))
      else if key = ''type'' then
        (case parseUint (trimPrefix (toLower value) ''0x'') 16 8 of
           None \<Rightarrow> Inl (InvalidType line)
         | Some number \<Rightarrow>
             if number = 0 then Inl (InvalidType line)
             else Inr (e\<lparr>se_part := (se_part e)\<lparr>part_kind := word_of_nat number\<rparr>\<rparr>))
      else if key = ''bootable'' \<or> key = ''boot'' then
        (if keyed \<and> value \<noteq> [] \<and> value \<noteq> ''1'' \<and> \<not> equalFold value ''yes'' then Inl (InvalidBootable line)
         else Inr (e\<lparr>se_part := (se_part e)\<lparr>part_bootable := True\<rparr>\<rparr>))
      else Inl (UnsupportedField line))"

fun applyFields :: "nat \<Rightarrow> nat \<Rightarrow> string list \<Rightarrow> scriptEntry \<Rightarrow> sfdisk_error + scriptEntry" where
  "applyFields line position [] e = Inr e"
| "applyFields line position (raw # raws) e =
     (let field = trimSpace raw in
      if field = [] then applyFields line (Suc position) raws e
      else (case fieldKey position field of
              None \<Rightarrow> Inl (TooManyFields line)
            | Some (key, value, keyed) \<Rightarrow>
                (case applyField line key value keyed e of
                   Inl err \<Rightarrow> Inl err
                 | Inr e' \<Rightarrow> applyFields line (Suc position) raws e')))"

definition overlapsPart :: "mbrPartition \<Rightarrow> mbrPartition \<Rightarrow> bool" where
  "overlapsPart p previous \<longleftrightarrow>
     u64of (part_start p) < partEnd previous \<and> u64of (part_start previous) < partEnd p"

definition parseEntry ::
    "nat \<Rightarrow> u32 \<Rightarrow> mbrPartition list \<Rightarrow> string \<Rightarrow> sfdisk_error + mbrPartition" where
  "parseEntry line sectors partitions text =
     (case applyFields line 0 (splitByte CHR '','' text)
             \<lparr>se_part = noPartition\<lparr>part_kind := 0x83\<rparr>, se_start = False, se_size = False\<rparr> of
        Inl err \<Rightarrow> Inl err
      | Inr e \<Rightarrow>
          if \<not> se_start e \<or> \<not> se_size e then Inl (MissingStartOrSize line)
          else
            let p = se_part e in
            if part_start p = 0 \<or> u64of sectors < partEnd p then Inl (OutsideDevice line)
            else if \<exists>previous \<in> set partitions. overlapsPart p previous then Inl (OverlapsEarlier line)
            else Inr p)"

fun parseScriptLines ::
    "nat \<Rightarrow> u32 \<Rightarrow> bool \<Rightarrow> mbrPartition list \<Rightarrow> string list \<Rightarrow> sfdisk_error + (mbrPartition list \<times> bool)" where
  "parseScriptLines lineNumber sectors sawDOS partitions [] = Inr (partitions, sawDOS)"
| "parseScriptLines lineNumber sectors sawDOS partitions (raw # rest) =
     (if 65535 < length raw then Inl LineTooLong
      else
        let n = Suc lineNumber;
            line = trimSpace (takeWhile (\<lambda>c. c \<noteq> CHR ''#'') (dropCR raw));
            lower = toLower line
        in if line = [] then parseScriptLines n sectors sawDOS partitions rest
           else if hasPrefix lower ''label:'' then
             (if trimSpace (trimPrefix lower ''label:'') \<noteq> ''dos'' then Inl (NotDosLabel n)
              else parseScriptLines n sectors True partitions rest)
           else if hasPrefix lower ''unit:'' then
             (if trimSpace (trimPrefix lower ''unit:'') \<noteq> ''sectors'' then Inl (NotSectors n)
              else parseScriptLines n sectors sawDOS partitions rest)
           else if hasPrefix lower ''device:'' \<or> hasPrefix lower ''label-id:'' \<or>
                   hasPrefix lower ''sector-size:''
           then parseScriptLines n sectors sawDOS partitions rest
           else
             let entry = (case indexByte line CHR '':'' of
                            Some colon \<Rightarrow> trimSpace (drop (colon + 1) line)
                          | None \<Rightarrow> line)
             in if length partitions = 4 then Inl (TooManyPartitions n)
                else (case parseEntry n sectors partitions entry of
                        Inl err \<Rightarrow> Inl err
                      | Inr p \<Rightarrow> parseScriptLines n sectors sawDOS (partitions @ [p]) rest))"

definition parseSfdiskScript :: "string \<Rightarrow> u32 \<Rightarrow> sfdisk_error + mbrPartition list" where
  "parseSfdiskScript script sectors =
     (case parseScriptLines 0 sectors False [] (scanLines script) of
        Inl err \<Rightarrow> Inl err
      | Inr (partitions, sawDOS) \<Rightarrow>
          if partitions = [] \<and> \<not> sawDOS then Inl NoPartitions else Inr partitions)"

section \<open>Numbers survive printing\<close>

lemma isDigit_digitChar: "d < 10 \<Longrightarrow> isDigitByte (digitChar d)"
  by (simp add: isDigitByte_def digitChar_def)

lemma digitChar_not_underscore: "d < 16 \<Longrightarrow> digitChar d \<noteq> CHR ''_''"
  using digitChar_hex(2) [of d] by (auto simp: isHexLower_def ord_def)

lemma showDec_step:
  "showDec n = (if n < 10 then [] else showDec (n div 10)) @ [digitChar (n mod 10)]"
  by (subst showDec.simps) simp

lemma showDec_ne [simp]: "showDec n \<noteq> []"
  by (subst showDec_step) simp

lemma showDec_digits: "\<forall>c \<in> set (showDec n). isDigitByte c"
proof (induction n rule: less_induct)
  case (less n)
  have "\<not> n < 10 \<Longrightarrow> \<forall>c \<in> set (showDec (n div 10)). isDigitByte c"
    using less [of "n div 10"] by simp
  then show ?case by (subst showDec_step) (auto simp: isDigit_digitChar)
qed

lemma parseDigits_showDec:
  "n \<le> m \<Longrightarrow> parseDigits b0 10 m 0 (showDec n) = Some n"
proof (induction n rule: less_induct)
  case (less n)
  have d: "digitVal (digitChar (n mod 10)) = Some (n mod 10)"
    by (rule digitVal_digitChar) simp
  have u: "digitChar (n mod 10) \<noteq> CHR ''_''" by (rule digitChar_not_underscore) simp
  show ?case
  proof (cases "n < 10")
    case True
    then show ?thesis using less.prems d u by (subst showDec_step) simp
  next
    case False
    then have "parseDigits b0 10 m 0 (showDec (n div 10)) = Some (n div 10)"
      using less.IH [of "n div 10"] less.prems by simp
    then show ?thesis
      using False less.prems d u by (subst showDec_step) (simp add: parseDigits_append)
  qed
qed

lemma hd_showDec: "0 < n \<Longrightarrow> hd (showDec n) \<noteq> CHR ''0''"
proof (induction n rule: less_induct)
  case (less n)
  show ?case
  proof (cases "n < 10")
    case True
    then have "digitChar n \<noteq> digitChar 0"
      using less.prems digitVal_digitChar [of n] digitVal_digitChar [of 0] by auto
    then show ?thesis using True by (subst showDec_step) (simp add: digitChar_table)
  next
    case False
    then show ?thesis using less.IH [of "n div 10"] less.prems by (subst showDec_step) simp
  qed
qed

lemma parseUint_showDec:
  assumes "0 < n" "n < 2 ^ 64"
  shows "parseUint (showDec n) 0 64 = Some n"
proof -
  have "CHR ''_'' \<notin> set (showDec n)"
    using showDec_digits [of n] by (auto simp: isDigitByte_def ord_def)
  moreover have "basePrefix (showDec n) = (10, showDec n)"
    using hd_showDec [OF assms(1)] by (cases "showDec n") (auto simp: basePrefix_def)
  ultimately show ?thesis
    using parseDigits_showDec [of n "2 ^ 64 - 1"] assms(2) by (simp add: parseUint_def)
qed

lemma digit_plain:
  assumes "isDigitByte c"
  shows "\<not> isSpaceByte c" "c \<notin> set ''KkMmGg:#,=ps''" "c \<noteq> CHR 0x0A" "toLowerByte c = c"
  using assms by (auto simp: isDigitByte_def isSpaceByte_def toLowerByte_def ord_def)

lemma parseSectorNumber_showDec:
  assumes "0 < n" "n < 2 ^ 64"
  shows "parseSectorNumber (showDec n) = Some n"
proof -
  have l: "isDigitByte (last (showDec n))" "isDigitByte (hd (showDec n))"
    using showDec_digits [of n] by simp_all
  have t: "trimSpace (showDec n) = showDec n"
    by (rule trimSpace_id) (use l digit_plain(1) in blast)
  have "last (showDec n) \<notin> set ''KkMmGg''" using digit_plain(2) [OF l(1)] by simp
  then show ?thesis
    using parseUint_showDec [OF assms] assms(2) by (simp add: parseSectorNumber_def t Let_def)
qed

lemma parse_showHex2:
  assumes "k < 256"
  shows "parseUint (trimPrefix (toLower (showHex2 k)) ''0x'') 16 8 = Some k"
proof -
  have d: "k div 16 < 16" "k mod 16 < 16" using assms by simp_all
  have low: "toLower (showHex2 k) = showHex2 k"
    using hexLower_plain(1) digitChar_hex(2) d by (simp add: toLower_def showHex2_def)
  have "digitChar (k mod 16) \<noteq> CHR ''x''"
    using digitChar_hex(2) [OF d(2)] by (auto simp: isHexLower_def ord_def)
  then have p: "trimPrefix (showHex2 k) ''0x'' = showHex2 k"
    by (simp add: trimPrefix_def hasPrefix_def showHex2_def)
  show ?thesis
    using d assms digitVal_digitChar [of "k div 16"] digitVal_digitChar [of "k mod 16"]
    unfolding low p by (simp add: parseUint_def showHex2_def)
qed


section \<open>Lines survive scanning\<close>

lemma scanLines_concat:
  assumes "\<forall>l \<in> set ls. CHR 0x0A \<notin> set l"
  shows "scanLines (concat (map (\<lambda>l. l @ newline) ls)) = ls"
proof -
  have "splitByte CHR 0x0A (concat (map (\<lambda>l. l @ newline) ls)) = ls @ [[]]"
    using assms by (induction ls) (simp_all add: newline_def splitByte_append)
  then show ?thesis by (simp add: scanLines_def Let_def)
qed

definition dumpBody :: "string \<Rightarrow> nat \<Rightarrow> mbrPartition \<Rightarrow> string" where
  "dumpBody device number p =
     partitionName device number @ '' : start='' @ showDec (unat (part_start p)) @ '', size='' @
     showDec (unat (part_size p)) @ '', type='' @ showHex2 (unat (part_kind p)) @
     (if part_bootable p then '', bootable'' else [])"

lemma dumpLine_body: "dumpLine device number p = dumpBody device number p @ newline"
  by (simp add: dumpLine_def dumpBody_def)

fun dumpBodies :: "string \<Rightarrow> nat \<Rightarrow> mbrPartition list \<Rightarrow> string list" where
  "dumpBodies device number [] = []"
| "dumpBodies device number (p # ps) =
     (if part_size p = 0 then [] else [dumpBody device number p]) @ dumpBodies device (Suc number) ps"

lemma dumpSlots_bodies:
  "dumpSlots device number ps = concat (map (\<lambda>l. l @ newline) (dumpBodies device number ps))"
  by (induction ps arbitrary: number) (simp_all add: dumpLine_body)

text \<open>The text after the colon, and its four fields.\<close>

definition dumpFields :: "mbrPartition \<Rightarrow> string" where
  "dumpFields p =
     ''start='' @ showDec (unat (part_start p)) @ '', size='' @
     showDec (unat (part_size p)) @ '', type='' @ showHex2 (unat (part_kind p)) @
     (if part_bootable p then '', bootable'' else [])"

lemma digits_free:
  assumes "c \<in> set (''KkMmGg:#,=ps '' @ [CHR 0x0A, CHR 0x0D])"
  shows "c \<notin> set (showDec n)" "d < 256 \<Longrightarrow> c \<notin> set (showHex2 d)"
proof -
  show "c \<notin> set (showDec n)"
    using assms showDec_digits [of n] by (auto simp: isDigitByte_def ord_def)
  show "c \<notin> set (showHex2 d)" if "d < 256"
  proof -
    have "isHexLower x" if "x \<in> set (showHex2 d)" for x
      using that \<open>d < 256\<close> digitChar_hex(2) by (auto simp: showHex2_def)
    moreover have "\<not> isHexLower c" using assms by (auto simp: isHexLower_def ord_def)
    ultimately show ?thesis by blast
  qed
qed

lemma unat_u8: "unat (x :: u8) < 256"
  using unsigned_less [of x] by simp

lemma split_fields:
  "splitByte CHR '','' (dumpFields p) =
   [''start='' @ showDec (unat (part_start p)), '' size='' @ showDec (unat (part_size p)),
    '' type='' @ showHex2 (unat (part_kind p))] @ (if part_bootable p then ['' bootable''] else [])"
proof -
  have c: "CHR '','' \<notin> set (showDec n)" "CHR '','' \<notin> set (showHex2 (unat (part_kind p)))" for n
    using digits_free [of "CHR '',''"] unat_u8 by simp_all
  have a: "CHR '','' \<notin> set (''start='' @ showDec (unat (part_start p)))"
    "CHR '','' \<notin> set ('' size='' @ showDec (unat (part_size p)))"
    "CHR '','' \<notin> set ('' type='' @ showHex2 (unat (part_kind p)))" "CHR '','' \<notin> set '' bootable''"
    using c by simp_all
  have f: "dumpFields p = (''start='' @ showDec (unat (part_start p))) @ CHR '','' #
      ('' size='' @ showDec (unat (part_size p))) @ CHR '','' #
      (if part_bootable p
       then ('' type='' @ showHex2 (unat (part_kind p))) @ CHR '','' # '' bootable''
       else '' type='' @ showHex2 (unat (part_kind p)))"
    by (simp add: dumpFields_def)
  show ?thesis unfolding f by (simp only: splitByte_append [OF a(1)] splitByte_append [OF a(2)]
      splitByte_append [OF a(3)] splitByte_single [OF a(3)] splitByte_single [OF a(4)] split: if_split)
      simp
qed


section \<open>The fields of a dumped line\<close>

lemma last_showDec: "isDigitByte (last (showDec n))"
  using showDec_digits [of n] by simp

lemma not_space_consts:
  "\<not> isSpaceByte CHR ''s''" "\<not> isSpaceByte CHR ''t''" "\<not> isSpaceByte CHR ''b''" "\<not> isSpaceByte CHR ''e''"
  "isSpaceByte CHR '' ''" "\<not> isSpaceByte CHR ''='' " "\<not> isSpaceByte CHR ''/''"
  by (simp_all add: isSpaceByte_def ord_def)

lemma trimSpace_blank: "trimSpace (CHR '' '' # s) = trimSpace s"
  by (simp add: trimSpace_def not_space_consts)

lemma indexByte_append: "c \<notin> set a \<Longrightarrow> indexByte (a @ c # s) c = Some (length a)"
  by (induction a) auto

lemma toLower_words:
  "toLower ''start'' = ''start''" "toLower ''size'' = ''size''" "toLower ''type'' = ''type''"
  by (simp_all add: toLower_def toLowerByte_def ord_def)

lemma trim_words:
  "trimSpace ''start'' = ''start''" "trimSpace ''size'' = ''size''" "trimSpace ''type'' = ''type''"
  "trimSpace ''bootable'' = ''bootable''"
  by (simp_all add: trimSpace_def not_space_consts)

lemma last_showHex2: "d < 256 \<Longrightarrow> \<not> isSpaceByte (last (showHex2 d)) \<and> \<not> isSpaceByte (hd (showHex2 d))"
  using hexLower_plain(2) digitChar_hex(2) by (simp add: showHex2_def)

lemma field_values:
  "trimSpace (showDec n) = showDec n" "d < 256 \<Longrightarrow> trimSpace (showHex2 d) = showHex2 d"
  "trimSpace (''start='' @ showDec n) = ''start='' @ showDec n"
  "trimSpace ('' size='' @ showDec n) = ''size='' @ showDec n"
  "d < 256 \<Longrightarrow> trimSpace ('' type='' @ showHex2 d) = ''type='' @ showHex2 d"
  "trimSpace '' bootable'' = ''bootable''"
proof -
  have e: "\<not> isSpaceByte (last (showDec n))" using digit_plain(1) last_showDec by blast
  have h: "\<not> isSpaceByte (hd (showDec n))" using digit_plain(1) showDec_digits [of n] by simp
  have x: "showHex2 d \<noteq> []" for d by (simp add: showHex2_def)
  show "trimSpace (showDec n) = showDec n" by (rule trimSpace_id) (simp add: e h)
  show "trimSpace (showHex2 d) = showHex2 d" if "d < 256"
    by (rule trimSpace_id) (simp add: last_showHex2 that)
  show "trimSpace (''start='' @ showDec n) = ''start='' @ showDec n"
    by (rule trimSpace_id) (simp add: e not_space_consts)
  have "trimSpace (''size='' @ showDec n) = ''size='' @ showDec n"
    by (rule trimSpace_id) (simp add: e not_space_consts)
  then show "trimSpace ('' size='' @ showDec n) = ''size='' @ showDec n"
    by (simp add: trimSpace_blank)
  show "trimSpace ('' type='' @ showHex2 d) = ''type='' @ showHex2 d" if "d < 256"
  proof -
    have "trimSpace (''type='' @ showHex2 d) = ''type='' @ showHex2 d"
      by (rule trimSpace_id) (simp add: last_showHex2 that x not_space_consts)
    then show ?thesis by (simp add: trimSpace_blank)
  qed
  show "trimSpace '' bootable'' = ''bootable''" by (simp add: trimSpace_blank trim_words)
qed

lemma field_keys:
  "fieldKey i (''start='' @ showDec n) = Some (''start'', showDec n, True)"
  "fieldKey i (''size='' @ showDec n) = Some (''size'', showDec n, True)"
  "d < 256 \<Longrightarrow> fieldKey i (''type='' @ showHex2 d) = Some (''type'', showHex2 d, True)"
  "fieldKey 3 ''bootable'' = Some (''bootable'', ''bootable'', False)"
  using indexByte_append [of "CHR ''=''" "''start''" "showDec n"]
    indexByte_append [of "CHR ''=''" "''size''" "showDec n"]
    indexByte_append [of "CHR ''=''" "''type''" "showHex2 d"]
  by (simp_all add: fieldKey_def field_values toLower_words trim_words)

lemma applyFields_dump:
  assumes "part_start p \<noteq> 0" "part_size p \<noteq> 0" "part_kind p \<noteq> 0"
  shows "applyFields line 0 (splitByte CHR '','' (dumpFields p))
      \<lparr>se_part = noPartition\<lparr>part_kind := 0x83\<rparr>, se_start = False, se_size = False\<rparr> =
    Inr \<lparr>se_part = p, se_start = True, se_size = True\<rparr>"
proof -
  have u: "0 < unat (part_start p)" "0 < unat (part_size p)" "0 < unat (part_kind p)"
    "unat (part_kind p) < 256" "unat (part_start p) < 2 ^ 32" "unat (part_size p) < 2 ^ 32"
    using assms unat_u8 unat_u32_bound by (simp_all add: unat_gt_0)
  then have s: "parseSectorNumber (showDec (unat (part_start p))) = Some (unat (part_start p))"
    "parseSectorNumber (showDec (unat (part_size p))) = Some (unat (part_size p))"
    by (intro parseSectorNumber_showDec; simp)+
  have k: "parseUint (trimPrefix (toLower (showHex2 (unat (part_kind p)))) ''0x'') 16 8 =
      Some (unat (part_kind p))"
    by (rule parse_showHex2) (rule u(4))
  obtain a b t f where p: "p = \<lparr>part_start = a, part_size = b, part_kind = t, part_bootable = f\<rparr>"
    by (cases p)
  show ?thesis
    using u assms s k unfolding split_fields p
    by (simp add: Let_def field_values(1,2,6) field_values(3-5) [simplified]
        field_keys(1-3) [simplified] field_keys(4) [unfolded numeral_3_eq_3] applyField_def
        noPartition_def)
qed

section \<open>A whole dump\<close>

definition plainDevice :: "string \<Rightarrow> bool" where
  "plainDevice device \<longleftrightarrow>
     (\<exists>rest. device = CHR ''/'' # rest) \<and> length device < 60000 \<and>
     set device \<inter> {CHR ''#'', CHR '':'', CHR 0x0A} = {}"

lemma dumpBody_colon:
  "dumpBody device number p = (partitionName device number @ '' '') @ CHR '':'' # CHR '' '' # dumpFields p"
  by (simp add: dumpBody_def dumpFields_def)

lemma name_free:
  assumes "plainDevice device"
  shows "set (partitionName device number) \<inter> {CHR ''#'', CHR '':'', CHR 0x0A} = {}"
  using assms digits_free(1) [of "CHR ''#''" number] digits_free(1) [of "CHR '':''" number]
    digits_free(1) [of "CHR 0x0A" number]
  by (auto simp: partitionName_def plainDevice_def)

lemma fields_free: "set (dumpFields p) \<inter> {CHR ''#'', CHR 0x0A, CHR 0x0D} = {}"
  using digits_free [of "CHR ''#''"] digits_free [of "CHR 0x0A"] digits_free [of "CHR 0x0D"] unat_u8
  by (auto simp: dumpFields_def)

lemma body_free:
  "plainDevice device \<Longrightarrow> set (dumpBody device number p) \<inter> {CHR ''#'', CHR 0x0A} = {}"
  using name_free [of device number] fields_free [of p] unfolding dumpBody_colon by auto

lemma last_fields: "\<not> isSpaceByte (last (dumpFields p)) \<and> dumpFields p \<noteq> [] \<and>
    \<not> isSpaceByte (hd (dumpFields p))"
proof -
  have x: "showHex2 d \<noteq> []" for d by (simp add: showHex2_def)
  show ?thesis
    using last_showHex2 [of "unat (part_kind p)"] unat_u8 [of "part_kind p"]
    by (simp add: dumpFields_def not_space_consts x)
qed

lemma length_showDec: "n < 10 ^ k \<Longrightarrow> 0 < k \<Longrightarrow> length (showDec n) \<le> k"
proof (induction k arbitrary: n)
  case (Suc k)
  show ?case
  proof (cases "n < 10")
    case True
    then show ?thesis by (subst showDec_step) simp
  next
    case False
    then have k: "0 < k" using Suc.prems by (cases k) auto
    have "n div 10 < 10 ^ k" using Suc.prems by (simp add: less_mult_imp_div_less mult.commute)
    from Suc.IH [OF this k] False show ?thesis by (subst showDec_step) simp
  qed
qed simp

lemma length_body:
  assumes "plainDevice device" "number < 10"
  shows "length (dumpBody device number p) \<le> 65535"
proof -
  have "length (showDec number) \<le> 1" using length_showDec [of number 1] assms(2) by simp
  moreover have "length (showDec (unat x)) \<le> 10" for x :: u32
    using length_showDec [of "unat x" 10] unat_u32_bound [of x] by simp
  note this [of "part_start p"] this [of "part_size p"]
  ultimately show ?thesis
    using assms(1)
    by (simp add: dumpBody_def partitionName_def plainDevice_def showHex2_def)
qed

lemma line_of_body:
  fixes device :: string and number :: nat and p :: mbrPartition
  assumes "plainDevice device" "number < 10"
  defines "l \<equiv> dumpBody device number p"
  shows "length l \<le> 65535" "trimSpace (takeWhile (\<lambda>c. c \<noteq> CHR ''#'') (dropCR l)) = l"
    and "l \<noteq> []" "\<And>w. w \<noteq> [] \<Longrightarrow> hd w \<noteq> CHR ''/'' \<Longrightarrow> \<not> hasPrefix (toLower l) w"
    and "indexByte l CHR '':'' = Some (Suc (length (partitionName device number)))"
    and "trimSpace (drop (Suc (Suc (length (partitionName device number)))) l) = dumpFields p"
proof -
  have free: "set l \<inter> {CHR ''#'', CHR 0x0A} = {}" using body_free [OF assms(1)] by (simp add: l_def)
  obtain rest where dev: "device = CHR ''/'' # rest" using assms(1) by (auto simp: plainDevice_def)
  then obtain r where l: "l = CHR ''/'' # r" by (simp add: l_def dumpBody_def partitionName_def)
  have la: "last l = last (dumpFields p)" unfolding l_def dumpBody_colon
    using last_fields by simp
  show "length l \<le> 65535" unfolding l_def by (rule length_body [OF assms(1,2)])
  show ne: "l \<noteq> []" using l by simp
  have "last l \<noteq> CHR 0x0D" using la last_fields [of p] by (auto simp: isSpaceByte_def ord_def)
  then have cr: "dropCR l = l" by (simp add: dropCR_def)
  have "takeWhile (\<lambda>c. c \<noteq> CHR ''#'') l = l" using free by (auto simp: takeWhile_eq_all_conv)
  moreover have "trimSpace l = l"
    by (rule trimSpace_id) (use la last_fields [of p] l in \<open>simp add: not_space_consts\<close>)
  ultimately show "trimSpace (takeWhile (\<lambda>c. c \<noteq> CHR ''#'') (dropCR l)) = l"
    unfolding cr by (simp only:)
  show "\<not> hasPrefix (toLower l) w" if "w \<noteq> []" "hd w \<noteq> CHR ''/''" for w
    using that by (cases w) (auto simp: l toLower_def hasPrefix_def toLowerByte_def ord_def)
  have "CHR '':'' \<notin> set (partitionName device number @ '' '')" using name_free [OF assms(1)] by auto
  from indexByte_append [OF this]
  show "indexByte l CHR '':'' = Some (Suc (length (partitionName device number)))"
    unfolding l_def dumpBody_colon by simp
  have "trimSpace (dumpFields p) = dumpFields p"
    by (rule trimSpace_id) (use last_fields [of p] in simp)
  then show "trimSpace (drop (Suc (Suc (length (partitionName device number)))) l) = dumpFields p"
    unfolding l_def dumpBody_colon by (simp add: trimSpace_blank)
qed


lemma overlapsPart_disjoint: "overlapsPart p q \<longleftrightarrow> \<not> ext_disjoint (mbrExtent p) (mbrExtent q)"
  by (auto simp: overlapsPart_def ext_disjoint_def mbrExtent_def word_less_nat_alt)

lemma parseEntry_dump:
  assumes "part_start p \<noteq> 0" "part_size p \<noteq> 0" "part_kind p \<noteq> 0"
    and "unat (part_start p) + unat (part_size p) \<le> unat sectors"
    and "\<forall>q \<in> set acc. ext_disjoint (mbrExtent p) (mbrExtent q)"
  shows "parseEntry line sectors acc (dumpFields p) = Inr p"
  using assms
  by (auto simp: parseEntry_def applyFields_dump Let_def overlapsPart_disjoint word_less_nat_alt)

lemma parse_body:
  assumes dev: "plainDevice device" "number < 10" and len: "length acc < 4"
    and ok: "part_start p \<noteq> 0" "part_size p \<noteq> 0" "part_kind p \<noteq> 0"
      "unat (part_start p) + unat (part_size p) \<le> unat sectors"
      "\<forall>q \<in> set acc. ext_disjoint (mbrExtent p) (mbrExtent q)"
  shows "parseScriptLines n sectors saw acc (dumpBody device number p # rest) =
         parseScriptLines (Suc n) sectors saw (acc @ [p]) rest"
proof -
  note l = line_of_body [OF dev, where p = p]
  have w: "\<not> hasPrefix (toLower (dumpBody device number p)) ''label:''"
    "\<not> hasPrefix (toLower (dumpBody device number p)) ''unit:''"
    "\<not> hasPrefix (toLower (dumpBody device number p)) ''device:''"
    "\<not> hasPrefix (toLower (dumpBody device number p)) ''label-id:''"
    "\<not> hasPrefix (toLower (dumpBody device number p)) ''sector-size:''"
    by (intro l(4); simp)+
  show ?thesis
    using len l(1) by (simp add: l(2,3,5,6) w parseEntry_dump [OF ok] Let_def)
qed

lemma parse_bodies:
  assumes "plainDevice device" "number + length ps \<le> 10" "length (acc @ mbrUsed ps) \<le> 4"
    and "\<forall>p \<in> set (mbrUsed ps). part_start p \<noteq> 0 \<and> part_kind p \<noteq> 0 \<and>
           unat (part_start p) + unat (part_size p) \<le> unat sectors"
    and "sorted_wrt ext_disjoint (map mbrExtent (acc @ mbrUsed ps))"
  shows "parseScriptLines n sectors saw acc (dumpBodies device number ps) = Inr (acc @ mbrUsed ps, saw)"
  using assms
proof (induction ps arbitrary: n number acc)
  case Nil
  then show ?case by simp
next
  case (Cons p ps)
  show ?case
  proof (cases "part_size p = 0")
    case True
    then show ?thesis using Cons.IH [of "Suc number" acc n] Cons.prems by simp
  next
    case False
    have d: "\<forall>q \<in> set acc. ext_disjoint (mbrExtent p) (mbrExtent q)"
      using Cons.prems(5) False by (auto simp: sorted_wrt_append ext_disjoint_sym)
    have "parseScriptLines n sectors saw acc (dumpBody device number p # dumpBodies device (Suc number) ps) =
          parseScriptLines (Suc n) sectors saw (acc @ [p]) (dumpBodies device (Suc number) ps)"
      by (rule parse_body) (use Cons.prems False d in auto)
    also have "\<dots> = Inr ((acc @ [p]) @ mbrUsed ps, saw)"
      by (rule Cons.IH) (use Cons.prems False in auto)
    finally show ?thesis using False by simp
  qed
qed

lemma header_words:
  "toLower ''label: dos'' = ''label: dos''" "toLower ''unit: sectors'' = ''unit: sectors''"
  "trimSpace ''label: dos'' = ''label: dos''" "trimSpace ''unit: sectors'' = ''unit: sectors''"
  "trimSpace '' dos'' = ''dos''" "trimSpace '' sectors'' = ''sectors''"
  by (simp_all add: toLower_def toLowerByte_def ord_def trimSpace_def isSpaceByte_def)

lemma parse_header:
  "parseScriptLines 0 sectors False [] (''label: dos'' # ''unit: sectors'' # rest) =
   parseScriptLines 2 sectors True [] rest"
  by (simp add: Let_def dropCR_def header_words hasPrefix_def trimPrefix_def numeral_2_eq_2)

lemma dump_lines:
  "cfdiskDump device ps [] =
   concat (map (\<lambda>l. l @ newline) (''label: dos'' # ''unit: sectors'' # dumpBodies device 1 ps))"
  by (simp add: cfdiskDump_def dumpSlots_bodies)

lemma bodies_free:
  "plainDevice device \<Longrightarrow> \<forall>l \<in> set (dumpBodies device number ps). CHR 0x0A \<notin> set l"
  using body_free by (induction ps arbitrary: number) auto

lemma dump_parse:
  assumes dev: "plainDevice device" and ps: "length ps = 4"
    and v: "validateCfdiskPartitions ps (u64of sectors) = None"
  shows "parseSfdiskScript (cfdiskDump device ps []) sectors = Inr (mbrUsed ps)"
proof -
  have wf: "mbr_wf ps (unat sectors)" using v by (simp add: validate_iff_wf)
  have "scanLines (cfdiskDump device ps []) =
      ''label: dos'' # ''unit: sectors'' # dumpBodies device 1 ps"
    unfolding dump_lines by (rule scanLines_concat) (use bodies_free [OF dev] in auto)
  moreover have "parseScriptLines 2 sectors True [] (dumpBodies device 1 ps) = Inr ([] @ mbrUsed ps, True)"
    by (rule parse_bodies)
      (use dev ps wf length_filter_le [of _ ps] in \<open>auto simp: mbr_wf_def mbrExtents_def mbrUsed_def\<close>)
  ultimately show ?thesis unfolding parseSfdiskScript_def by (simp only: parse_header) simp
qed

section \<open>Properties of the script language\<close>

text \<open>C32 (round trip): the dump of a valid table of primary partitions is a script from which
  \<open>sfdisk\<close> reads the same partitions, flags and types included, for any device path without
  a hash sign, a colon or a newline.\<close>

theorem dump_script_roundtrip:
  assumes "plainDevice device" "length ps = 4"
    and "validateCfdiskPartitions ps (u64of sectors) = None"
  shows "parseSfdiskScript (cfdiskDump device ps []) sectors = Inr (mbrUsed ps)"
  using assms by (rule dump_parse)

theorem dump_script_roundtrip_witness:
  "parseSfdiskScript (cfdiskDump ''/dev/sda'' exampleTable []) 16384 = Inr (mbrUsed exampleTable)"
proof -
  have "plainDevice ''/dev/sda''" by (simp add: plainDevice_def)
  moreover have "u64of 16384 = 16384" by (simp add: u64of_def)
  ultimately show ?thesis
    using dump_script_roundtrip [of "''/dev/sda''" exampleTable 16384] exampleTable_valid by simp
qed

text \<open>A size typed with a binary unit counts that many units, in sectors.\<close>

lemma parseSize_bound:
  assumes "cfdiskParseSize v 512 = Some n"
  shows "n < 2 ^ 64"
proof -
  have u: "parseUint s b 64 = Some k \<Longrightarrow> k < 2 ^ 64" for s b k
  proof -
    have p: "parseDigits b0 base m n0 ds = Some k \<Longrightarrow> n0 \<le> m \<Longrightarrow> k \<le> m" for b0 base m n0 ds
      by (induction ds arbitrary: n0) (auto split: if_splits option.splits)
    assume "parseUint s b 64 = Some k"
    then obtain b0 base ds where "parseDigits b0 base (2 ^ 64 - 1) 0 ds = Some k"
      by (auto simp: parseUint_def Let_def split: if_splits option.splits)
    from p [OF this] show ?thesis by simp
  qed
  have w: "parseSizeUnit v l 512 us = Some n \<Longrightarrow> n < 2 ^ 64" for v l us
  proof (induction v l "512 :: nat" us rule: parseSizeUnit.induct)
    case (2 v l sfx unit us)
    show ?case
    proof (cases "hasSuffix l sfx")
      case True
      with 2(2) obtain k where k: "k \<le> (2 ^ 64 - 1) div unit" "n = k * unit div 512"
        by (auto simp: not_less split: option.splits if_splits)
      have "k * unit \<le> 2 ^ 64 - 1"
        using mult_le_mono1 [OF k(1), of unit] div_times_less_eq_dividend [of "2 ^ 64 - 1 :: nat" unit]
        by (rule le_trans)
      then have "n \<le> 2 ^ 64 - 1" unfolding k(2) using div_le_dividend le_trans by blast
      then show ?thesis by simp
    qed (use 2 in simp)
  qed (auto dest: u)
  from assms show ?thesis by (auto simp: cfdiskParseSize_def Let_def dest: w split: if_splits)
qed

end
