(* ===== verification/Session.thy ===== *)
theory Session
  imports Sfdisk
begin

text \<open>
  The editor session of \<open>cfdisk\<close> (\<open>cfdisk_linux.go\<close> with the GPT handlers of
  \<open>cfdisk_gpt_linux.go\<close> and the logical rows of \<open>cfdisk_extended_linux.go\<close>): opening a disk, the
  handlers behind the keys, the prompt, the checks before a write and the main loop.

  Everything outside the program is the record \<open>world\<close>; while the program waits for a key,
  another process may replace it (event \<open>Change\<close>).  The program reads the disk through the
  descriptor it holds open, but writes by opening a path: \<open>w_at\<close> says what a path leads to.  The
  events are the input of one session up to its end.  A handler maps a session to an outcome:
  the loop goes on, ends, ends with an error, or the program panics on an index out of range.
  Drawing the screen changes only the remembered terminal size and is left out.
\<close>

section \<open>The state\<close>

datatype lstat = LExists | LMissing | LError

text \<open>
  What a path leads to: the disk that is open, or something else, which for a path that leads nowhere
  is the empty file that creating it makes.  Other things are told apart by their paths.
\<close>

datatype place = OpenDisk | Elsewhere device

record world =
  w_disk :: device
  w_at :: "string \<Rightarrow> place"
  w_opens :: bool
  w_locks :: bool
  w_size :: "u64 option"
  w_in_use :: "bool option"
  w_lstat :: "string \<Rightarrow> lstat"

text \<open>A key press, a read error of the terminal, or a change of the world in between.\<close>

datatype event = Key nat | ReadError | Change world

datatype color_mode = ColorAuto | ColorAlways | ColorNever

record cfdiskOptions =
  opt_device :: string
  opt_read_only :: bool
  opt_zero :: bool
  opt_lock :: bool
  opt_lock_nb :: bool
  opt_sector_size :: nat
  opt_color :: color_mode
  opt_help :: bool
  opt_version :: bool

datatype label_kind = LabelNone | LabelGPT | LabelDOS

datatype target_error =
    DeviceClosed
  | SizeUnavailable
  | SizeChanged
  | TargetReadError
  | TableChanged
  | GPTUnreadable gpt_error
  | GPTDataChanged
  | MountUnknown
  | TargetInUse

text \<open>The status line: the format of the source with its numbers, a quoted text, or the reason.\<close>

datatype message =
    Info string "nat list"
  | Quoted string string
  | BootFlag string nat bool
  | NamedInfo string nat string
  | MbrProblem string mbr_error
  | EbrProblem string ebr_error
  | GptProblem string gpt_error
  | TargetProblem string target_error

record cfdiskSession =
  world :: world
  events :: "event list"
  random :: "nat \<Rightarrow> bytes"
  draws :: nat
  quoted :: "nat list \<Rightarrow> string"
  options :: cfdiskOptions
  fileOpen :: bool
  diskBytes :: u64
  diskSectors :: u64
  sector :: bytes
  partitions :: "mbrPartition list"
  logical :: "cfdiskLogical list"
  labelType :: label_kind
  gpt :: cfdiskGPTTable
  gptOriginal :: cfdiskGPTRawState
  selected :: nat
  menuSelected :: nat
  labelSelected :: nat
  dirty :: bool
  helpScreen :: bool
  labelSelector :: bool
  extra :: bool
  message :: message

datatype outcome =
    Running cfdiskSession
  | Finished cfdiskSession
  | Failed cfdiskSession
  | Panicked

section \<open>Messages, the read-only guard and the prompt\<close>

definition say :: "message \<Rightarrow> cfdiskSession \<Rightarrow> outcome" where
  "say m s = Running (s\<lparr>message := m\<rparr>)"

definition unlessReadOnly :: "string \<Rightarrow> cfdiskSession \<Rightarrow> (cfdiskSession \<Rightarrow> outcome) \<Rightarrow> outcome" where
  "unlessReadOnly action s k =
     (if opt_read_only (options s) then say (Quoted ''Read-only mode cannot '' action) s else k s)"

datatype reply = Answer string | Cancelled | ReadFailed

fun promptLoop :: "string \<Rightarrow> world \<Rightarrow> event list \<Rightarrow> reply \<times> world \<times> event list" where
  "promptLoop input w [] = (Cancelled, w, [])"
| "promptLoop input w (ReadError # es) = (ReadFailed, w, es)"
| "promptLoop input w (Change w' # es) = promptLoop input w' es"
| "promptLoop input w (Key key # es) =
     (if key = 13 \<or> key = 10 then (Answer input, w, es)
      else if key = 3 \<or> key = 27 then (Cancelled, w, es)
      else if key = 8 \<or> key = 127 then promptLoop (butlast input) w es
      else if 32 \<le> key \<and> key < 127 \<and> length input < 64 then promptLoop (input @ [chr key]) w es
      else promptLoop input w es)"

text \<open>Every caller returns at once when the prompt was cancelled or failed.\<close>

definition withPrompt :: "cfdiskSession \<Rightarrow> (string \<Rightarrow> cfdiskSession \<Rightarrow> outcome) \<Rightarrow> outcome" where
  "withPrompt s k =
     (case promptLoop '''' (world s) (events s) of
        (reply, w, es) \<Rightarrow>
          (let s' = s\<lparr>world := w, events := es\<rparr>
           in case reply of
                Answer value \<Rightarrow> k value s'
              | Cancelled \<Rightarrow> Running s'
              | ReadFailed \<Rightarrow> Failed s'))"

definition confirmed :: "string \<Rightarrow> bool" where
  "confirmed answer = equalFold (trimSpace answer) ''yes''"

section \<open>Writing through a path\<close>

definition deviceAt :: "string \<Rightarrow> world \<Rightarrow> device" where
  "deviceAt path w = (case w_at w path of OpenDisk \<Rightarrow> w_disk w | Elsewhere d \<Rightarrow> d)"

definition storeAt :: "string \<Rightarrow> device \<Rightarrow> world \<Rightarrow> world" where
  "storeAt path d w =
     (case w_at w path of
        OpenDisk \<Rightarrow> w\<lparr>w_disk := d\<rparr>
      | Elsewhere _ \<Rightarrow> w\<lparr>w_at := (w_at w)(path := Elsewhere d)\<rparr>)"

text \<open>What the path given on the command line leads to, before and after a write to it.\<close>

definition target :: "cfdiskSession \<Rightarrow> device" where
  "target s = deviceAt (opt_device (options s)) (world s)"

definition setDisk :: "device \<Rightarrow> cfdiskSession \<Rightarrow> cfdiskSession" where
  "setDisk d s = s\<lparr>world := storeAt (opt_device (options s)) d (world s)\<rparr>"

section \<open>The rows of the DOS view\<close>

datatype cfdiskRow = RowPrimary nat | RowLogical nat | RowLogicalFree cfdiskLogicalRegion

definition partitionRows :: "cfdiskSession \<Rightarrow> cfdiskRow list" where
  "partitionRows s =
     map RowPrimary [0 ..< 4] @
     (case cfdiskFindExtended (partitions s) of
        None \<Rightarrow> []
      | Some extIndex \<Rightarrow>
          map RowLogical [0 ..< length (logical s)] @
          (case cfdiskSuggestedLogicalRegion (partitions s ! extIndex) (logical s) of
             Inl _ \<Rightarrow> []
           | Inr region \<Rightarrow> [RowLogicalFree region]))"

definition selectedRow :: "cfdiskSession \<Rightarrow> cfdiskRow" where
  "selectedRow s =
     (let rows = partitionRows s
      in rows ! (if length rows \<le> selected s then length rows - 1 else selected s))"

text \<open>Indexing the array of four slots with \<open>selected\<close>, and the slice of logical partitions; an index
  out of range panics.\<close>

definition withSelected :: "cfdiskSession \<Rightarrow> (mbrPartition \<Rightarrow> outcome) \<Rightarrow> outcome" where
  "withSelected s k = (if 4 \<le> selected s then Panicked else k (partitions s ! selected s))"

definition withLogical :: "nat \<Rightarrow> cfdiskSession \<Rightarrow> (cfdiskLogical \<Rightarrow> outcome) \<Rightarrow> outcome" where
  "withLogical index s k = (if length (logical s) \<le> index then Panicked else k (logical s ! index))"

section \<open>Creating partitions\<close>

text \<open>The value typed at a sector or size prompt; an empty answer takes the dflt.\<close>

definition typedSector :: "string \<Rightarrow> u64 \<Rightarrow> u64 option" where
  "typedSector text dflt =
     (if text = [] then Some dflt else map_option word_of_nat (parseSectorNumber text))"

definition typedSize :: "cfdiskSession \<Rightarrow> string \<Rightarrow> u64 \<Rightarrow> u64 option" where
  "typedSize s text dflt =
     (if text = [] then Some dflt
      else (case cfdiskParseSize text (opt_sector_size (options s)) of
              None \<Rightarrow> None
            | Some sz \<Rightarrow> if sz = 0 then None else Some (word_of_nat sz)))"

fun firstEmptySlot :: "nat \<Rightarrow> mbrPartition list \<Rightarrow> nat option" where
  "firstEmptySlot index [] = None"
| "firstEmptySlot index (p # ps) =
     (if part_size p = 0 then Some index else firstEmptySlot (Suc index) ps)"

definition newPrimaryPartition :: "nat \<Rightarrow> cfdiskSession \<Rightarrow> outcome" where
  "newPrimaryPartition slot s =
     (case cfdiskSuggestedFreeRegion (partitions s) (diskSectors s) of
        Inl e \<Rightarrow> say (MbrProblem ''Cannot create a partition: '' e) s
      | Inr region \<Rightarrow>
          withPrompt s (\<lambda>startText s1.
            case typedSector startText (region_start region) of
              None \<Rightarrow> say (Quoted ''Invalid start sector %q'' startText) s1
            | Some start \<Rightarrow>
                withPrompt s1 (\<lambda>sizeText s2.
                  case typedSize s2 sizeText (region_size region) of
                    None \<Rightarrow> say (Quoted ''Invalid partition size %q'' sizeText) s2
                  | Some sz \<Rightarrow>
                      if start = 0 \<or> maxU32 < start \<or> maxU32 < sz then say (Info ''Partition range is outside the DOS/MBR address space'' []) s2
                      else
                        let proposed = (partitions s2)
                              [slot := \<lparr>part_start = ucast start, part_size = ucast sz,
                                        part_kind = 0x83, part_bootable = False\<rparr>]
                        in (case validateCfdiskPartitions proposed (diskSectors s2) of
                              Some e \<Rightarrow> say (MbrProblem ''Cannot create partition: '' e) s2
                            | None \<Rightarrow>
                                Running (s2\<lparr>partitions := proposed, selected := slot, dirty := True,
                                            message := Info ''Created partition %d'' [slot + 1]\<rparr>)))))"

fun findStart :: "nat \<Rightarrow> u64 \<Rightarrow> cfdiskLogical list \<Rightarrow> nat option" where
  "findStart index start [] = None"
| "findStart index start (e # es) =
     (if logStart e = start then Some index else findStart (Suc index) start es)"

definition addLogical ::
    "mbrPartition \<Rightarrow> u64 \<Rightarrow> u64 \<Rightarrow> u64 \<Rightarrow> cfdiskSession \<Rightarrow> outcome" where
  "addLogical extended ebrLBA start sz s =
     (let proposed = logical s @ [\<lparr>log_part = \<lparr>part_start = ucast start, part_size = ucast sz,
                                               part_kind = 0x83, part_bootable = False\<rparr>,
                                   log_ebr = ebrLBA\<rparr>]
      in case validateCfdiskLogicalPartitions extended proposed of
           Some e \<Rightarrow> say (EbrProblem ''Cannot create logical partition: '' e) s
         | None \<Rightarrow>
             (let sorted = sort_key (\<lambda>e. part_start (log_part e)) proposed;
                  row = 4 + (case findStart 0 start sorted of None \<Rightarrow> 0 | Some index \<Rightarrow> index)
              in Running (s\<lparr>logical := sorted, dirty := True, selected := row,
                            message := Info ''Created logical partition %d'' [row + 1]\<rparr>)))"

definition newLogicalPartition :: "cfdiskSession \<Rightarrow> outcome" where
  "newLogicalPartition s =
     (case cfdiskFindExtended (partitions s) of
        None \<Rightarrow> say (Info ''No extended partition exists yet'' []) s
      | Some extIndex \<Rightarrow>
          (let extended = partitions s ! extIndex in
           case cfdiskSuggestedLogicalRegion extended (logical s) of
             Inl e \<Rightarrow> say (EbrProblem ''Cannot create a logical partition: '' e) s
           | Inr suggested \<Rightarrow>
               withPrompt s (\<lambda>startText s1.
                 case typedSector startText (lr_start suggested) of
                   None \<Rightarrow> say (Quoted ''Invalid start sector %q'' startText) s1
                 | Some start \<Rightarrow>
                     (case cfdiskLogicalBootRecordFor extended (logical s1) start of
                        Inl e \<Rightarrow> say (EbrProblem ''Cannot create a logical partition: '' e) s1
                      | Inr ebrLBA \<Rightarrow>
                          withPrompt s1 (\<lambda>sizeText s2.
                            case typedSize s2 sizeText
                                   (if start = lr_start suggested then lr_size suggested
                                    else partEnd extended - start) of
                              None \<Rightarrow> say (Quoted ''Invalid partition size %q'' sizeText) s2
                            | Some sz \<Rightarrow>
                                if start = 0 \<or> maxU32 < start \<or> maxU32 < sz then say (Info ''Partition range is outside the DOS/MBR address space'' []) s2
                                else addLogical extended ebrLBA start sz s2)))))"

definition newMbrPartition :: "cfdiskSession \<Rightarrow> outcome" where
  "newMbrPartition s =
     unlessReadOnly ''create a partition'' s (\<lambda>s.
       case selectedRow s of
         RowLogical _ \<Rightarrow> newLogicalPartition s
       | RowLogicalFree _ \<Rightarrow> newLogicalPartition s
       | RowPrimary _ \<Rightarrow>
           withSelected s (\<lambda>p.
             if part_size p = 0 then newPrimaryPartition (selected s) s
             else (case firstEmptySlot 0 (partitions s) of
                     None \<Rightarrow> say (Info ''DOS labels have at most four primary partitions'' []) s
                   | Some slot \<Rightarrow> newPrimaryPartition slot s)))"

section \<open>Deleting and resizing\<close>

definition deleteAt :: "nat \<Rightarrow> 'a list \<Rightarrow> 'a list" where
  "deleteAt index xs = take index xs @ drop (index + 1) xs"

definition deletePrimary :: "cfdiskSession \<Rightarrow> outcome" where
  "deletePrimary s =
     withSelected s (\<lambda>p.
       if part_size p = 0 then say (Info ''Partition %d is already empty'' [selected s + 1]) s
       else
         let wasExtended = cfdiskExtendedType (part_kind p);
             removedLogical = length (logical s);
             s' = s\<lparr>partitions := (partitions s)[selected s := noPartition],
                    logical := (if wasExtended then [] else logical s), dirty := True\<rparr>
         in if wasExtended \<and> 0 < removedLogical
            then say (Info ''Deleted extended partition %d and %d logical partition(s) in memory''
                        [selected s + 1, removedLogical]) s'
            else say (Info ''Deleted partition %d in memory'' [selected s + 1]) s')"

definition deleteMbrPartition :: "cfdiskSession \<Rightarrow> outcome" where
  "deleteMbrPartition s =
     unlessReadOnly ''delete a partition'' s (\<lambda>s.
       case selectedRow s of
         RowLogical index \<Rightarrow>
           withLogical index s (\<lambda>_.
             say (Info ''Deleted logical partition %d in memory'' [index + 5])
               (s\<lparr>logical := deleteAt index (logical s), dirty := True\<rparr>))
       | RowLogicalFree _ \<Rightarrow> say (Info ''Select an existing partition first'' []) s
       | RowPrimary _ \<Rightarrow> deletePrimary s)"

text \<open>The size typed at the resize prompt; \<open>None\<close> is an invalid one.\<close>

definition resizedTo :: "cfdiskSession \<Rightarrow> string \<Rightarrow> u32 option" where
  "resizedTo s value =
     (case cfdiskParseSize value (opt_sector_size (options s)) of
        None \<Rightarrow> None
      | Some n \<Rightarrow> if n = 0 \<or> 2 ^ 32 - 1 < n then None else Some (word_of_nat n))"

definition applyResize :: "string \<Rightarrow> cfdiskSession \<Rightarrow> outcome" where
  "applyResize value s =
     (case resizedTo s value of
        None \<Rightarrow> say (Quoted ''Invalid partition size %q'' value) s
      | Some sz \<Rightarrow> withSelected s (\<lambda>p.
          let resized = p\<lparr>part_size := sz\<rparr>;
              proposed = (partitions s)[selected s := resized]
           in case validateCfdiskPartitions proposed (diskSectors s) of
                Some e \<Rightarrow> say (MbrProblem ''Cannot resize partition: '' e) s
              | None \<Rightarrow>
                  (case (if cfdiskExtendedType (part_kind resized)
                         then validateCfdiskLogicalPartitions resized (logical s) else None) of
                     Some e \<Rightarrow> say (EbrProblem ''Cannot resize extended partition: '' e) s
                   | None \<Rightarrow>
                       if proposed = partitions s
                       then say (Info ''Partition %d size is unchanged'' [selected s + 1]) s
                       else say (Info ''Resized partition %d to %d sectors'' [selected s + 1, unat sz])
                              (s\<lparr>partitions := proposed, dirty := True\<rparr>))))"

definition resizePrimary :: "cfdiskSession \<Rightarrow> outcome" where
  "resizePrimary s =
     withSelected s (\<lambda>p.
       if part_size p = 0 then say (Info ''Select an existing partition first'' []) s
       else withPrompt s (\<lambda>value s1. if value = [] then Running s1 else applyResize value s1))"

definition applyLogicalResize :: "nat \<Rightarrow> string \<Rightarrow> cfdiskSession \<Rightarrow> outcome" where
  "applyLogicalResize index value s =
     (case resizedTo s value of
        None \<Rightarrow> say (Quoted ''Invalid partition size %q'' value) s
      | Some sz \<Rightarrow>
          withLogical index s (\<lambda>e.
          let proposed = (logical s)[index := e\<lparr>log_part := (log_part e)\<lparr>part_size := sz\<rparr>\<rparr>]
           in case cfdiskFindExtended (partitions s) of
                None \<Rightarrow> Panicked
              | Some extIndex \<Rightarrow>
                  (case validateCfdiskLogicalPartitions (partitions s ! extIndex) proposed of
                     Some e \<Rightarrow> say (EbrProblem ''Cannot resize logical partition: '' e) s
                   | None \<Rightarrow>
                       say (Info ''Resized logical partition %d to %d sectors'' [index + 5, unat sz])
                         (s\<lparr>logical := proposed, dirty := True\<rparr>))))"

definition resizeLogicalPartition :: "nat \<Rightarrow> cfdiskSession \<Rightarrow> outcome" where
  "resizeLogicalPartition index s =
     withLogical index s (\<lambda>_.
       withPrompt s (\<lambda>value s1. if value = [] then Running s1 else applyLogicalResize index value s1))"

definition resizeMbrPartition :: "cfdiskSession \<Rightarrow> outcome" where
  "resizeMbrPartition s =
     unlessReadOnly ''resize a partition'' s (\<lambda>s.
       case selectedRow s of
         RowLogical index \<Rightarrow> resizeLogicalPartition index s
       | RowLogicalFree _ \<Rightarrow> say (Info ''Select an existing partition first'' []) s
       | RowPrimary _ \<Rightarrow> resizePrimary s)"

section \<open>Sorting, types and the boot flag\<close>

fun findPartition :: "nat \<Rightarrow> mbrPartition \<Rightarrow> mbrPartition list \<Rightarrow> nat option" where
  "findPartition index p [] = None"
| "findPartition index p (q # qs) = (if q = p then Some index else findPartition (Suc index) p qs)"

definition sortMbrPartitions :: "cfdiskSession \<Rightarrow> outcome" where
  "sortMbrPartitions s =
     unlessReadOnly ''sort partitions'' s (\<lambda>s.
       let sorted = cfdiskSortedPartitions (partitions s);
           unchanged = say (Info ''Partitions are already ordered by start sector'' []) s
       in if 4 \<le> selected s then
            (if sorted = partitions s then unchanged
             else say (Info ''Sorted partition slots by start sector'' []) (s\<lparr>partitions := sorted, dirty := True\<rparr>))
          else withSelected s (\<lambda>p.
            if sorted = partitions s then unchanged
            else
              let row = (if part_size p = 0 then 0
                         else (case findPartition 0 p sorted of None \<Rightarrow> 0 | Some index \<Rightarrow> index))
              in say (Info ''Sorted partition slots by start sector'' [])
                   (s\<lparr>partitions := sorted, selected := row, dirty := True\<rparr>)))"

text \<open>The type typed at the prompt, as a byte; \<open>None\<close> is an unsupported one.\<close>

definition typedKind :: "string \<Rightarrow> u8 option" where
  "typedKind value =
     (case parseUint (trimPrefix (toLower (trimSpace value)) ''0x'') 16 8 of
        None \<Rightarrow> None
      | Some kind \<Rightarrow> if kind = 0 then None else Some (word_of_nat kind))"

definition applyType :: "string \<Rightarrow> cfdiskSession \<Rightarrow> outcome" where
  "applyType value s =
     (case typedKind value of
        None \<Rightarrow> say (Quoted ''Unsupported partition type %q'' value) s
      | Some kind \<Rightarrow> withSelected s (\<lambda>p.
          let wasExtended = cfdiskExtendedType (part_kind p);
               willBeExtended = cfdiskExtendedType kind
           in if willBeExtended \<and> \<not> wasExtended \<and> cfdiskFindExtended (partitions s) \<noteq> None
              then say (Info ''Partition table already has an extended partition'' []) s
              else if wasExtended \<and> \<not> willBeExtended \<and> logical s \<noteq> []
              then say (Info ''Delete its %d logical partition(s) first'' [length (logical s)]) s
              else say (Info ''Changed partition %d type to %02x'' [selected s + 1, unat kind])
                     (s\<lparr>partitions := (partitions s)[selected s := p\<lparr>part_kind := kind\<rparr>],
                        dirty := True\<rparr>)))"

definition applyLogicalType :: "nat \<Rightarrow> string \<Rightarrow> cfdiskSession \<Rightarrow> outcome" where
  "applyLogicalType index value s =
     (case typedKind value of
        None \<Rightarrow> say (Quoted ''Unsupported partition type %q'' value) s
      | Some kind \<Rightarrow>
          if cfdiskExtendedType kind then say (Quoted ''Unsupported partition type %q'' value) s
          else
            withLogical index s (\<lambda>e.
            say (Info ''Changed logical partition %d type to %02x'' [index + 5, unat kind])
              (s\<lparr>logical := (logical s)[index := e\<lparr>log_part := (log_part e)\<lparr>part_kind := kind\<rparr>\<rparr>],
                 dirty := True\<rparr>)))"

definition changeLogicalType :: "nat \<Rightarrow> cfdiskSession \<Rightarrow> outcome" where
  "changeLogicalType index s =
     withLogical index s (\<lambda>_.
       withPrompt s (\<lambda>value s1. if value = [] then Running s1 else applyLogicalType index value s1))"

definition changeMbrType :: "cfdiskSession \<Rightarrow> outcome" where
  "changeMbrType s =
     unlessReadOnly ''change a partition type'' s (\<lambda>s.
       case selectedRow s of
         RowLogicalFree _ \<Rightarrow> say (Info ''Select an existing partition first'' []) s
       | RowLogical index \<Rightarrow> changeLogicalType index s
       | RowPrimary _ \<Rightarrow>
           withSelected s (\<lambda>p.
             if part_size p = 0 then say (Info ''Select an existing partition first'' []) s
             else withPrompt s (\<lambda>value s1. if value = [] then Running s1 else applyType value s1)))"

definition toggleMbrBootable :: "cfdiskSession \<Rightarrow> outcome" where
  "toggleMbrBootable s =
     unlessReadOnly ''toggle the boot flag'' s (\<lambda>s.
       case selectedRow s of
         RowLogical index \<Rightarrow>
           withLogical index s (\<lambda>e.
             let p = (log_part e)\<lparr>part_bootable := \<not> part_bootable (log_part e)\<rparr>
            in say (BootFlag ''Logical partition %d boot flag is now %v'' (index + 5) (part_bootable p))
                 (s\<lparr>logical := (logical s)[index := e\<lparr>log_part := p\<rparr>], dirty := True\<rparr>))
       | RowLogicalFree _ \<Rightarrow> say (Info ''Select an existing partition first'' []) s
       | RowPrimary _ \<Rightarrow>
           withSelected s (\<lambda>p.
             if part_size p = 0 then say (Info ''Select an existing partition first'' []) s
             else
               let p' = p\<lparr>part_bootable := \<not> part_bootable p\<rparr>
               in say (BootFlag ''Partition %d boot flag is now %v'' (selected s + 1) (part_bootable p'))
                    (s\<lparr>partitions := (partitions s)[selected s := p'], dirty := True\<rparr>)))"

section \<open>Writing a DOS table\<close>

definition writeCfdiskMBR :: "device \<Rightarrow> bytes \<Rightarrow> device \<times> bool" where
  "writeCfdiskMBR device data =
     (if length data \<noteq> 512 then (device, False)
      else if dev_noopen device then (device, False)
      else
        let (d, ok) = writeAt device 0 data
        in (d, ok \<and> \<not> dev_nosync d \<and> \<not> dev_noclose d))"

definition verifyMbrTarget :: "cfdiskSession \<Rightarrow> target_error option" where
  "verifyMbrTarget s =
     (if \<not> fileOpen s then Some DeviceClosed
      else (case w_size (world s) of
              None \<Rightarrow> Some SizeUnavailable
            | Some sz \<Rightarrow>
                if sz \<noteq> diskBytes s then Some SizeChanged
                else (case readSector (w_disk (world s)) 0 of
                        None \<Rightarrow> Some TargetReadError
                      | Some current \<Rightarrow>
                          if current \<noteq> sector s then Some TableChanged
                          else (case w_in_use (world s) of
                                  None \<Rightarrow> Some MountUnknown
                                | Some inUse \<Rightarrow> if inUse then Some TargetInUse else None))))"

definition writeTable :: "cfdiskSession \<Rightarrow> outcome" where
  "writeTable s =
     (let newSector = cfdiskBuildMBR (sector s) (partitions s) in
      case writeCfdiskMBR (target s) newSector of
        (d, ok) \<Rightarrow>
          if \<not> ok then say (Info ''Write failed: '' []) (setDisk d s)
          else say (Info ''Partition table written; ask the kernel to reread it if needed'' [])
                 ((setDisk d s)\<lparr>sector := newSector, dirty := False\<rparr>))"

definition writeConfirmed :: "cfdiskSession \<Rightarrow> outcome" where
  "writeConfirmed s =
     (case verifyMbrTarget s of
        Some e \<Rightarrow> say (TargetProblem ''Cannot write partition table: '' e) s
      | None \<Rightarrow>
          (case cfdiskFindExtended (partitions s) of
             None \<Rightarrow> writeTable s
           | Some extIndex \<Rightarrow>
               (case cfdiskBuildEBRChain (partitions s ! extIndex) (logical s) of
                  Inl e \<Rightarrow> say (EbrProblem ''Cannot write partition table: '' e) s
                | Inr writes \<Rightarrow>
                    (case writeCfdiskEBRChain (target s) writes of
                       (d, ok) \<Rightarrow>
                         if \<not> ok then say (Info ''Write failed: '' []) (setDisk d s)
                         else writeTable (setDisk d s)))))"

definition mbrProblem :: "cfdiskSession \<Rightarrow> message option" where
  "mbrProblem s =
     (case validateCfdiskPartitions (partitions s) (diskSectors s) of
        Some e \<Rightarrow> Some (MbrProblem ''Cannot write partition table: '' e)
      | None \<Rightarrow>
          (case cfdiskFindExtended (partitions s) of
             None \<Rightarrow> None
           | Some extIndex \<Rightarrow>
               map_option (EbrProblem ''Cannot write partition table: '')
                 (validateCfdiskLogicalPartitions (partitions s ! extIndex) (logical s))))"

definition writeMbr :: "cfdiskSession \<Rightarrow> outcome" where
  "writeMbr s =
     unlessReadOnly ''write the partition table'' s (\<lambda>s.
       if \<not> dirty s then say (Info ''No changes to write'' []) s
       else (case mbrProblem s of
               Some m \<Rightarrow> say m s
             | None \<Rightarrow>
                 (case verifyMbrTarget s of
                    Some e \<Rightarrow> say (TargetProblem ''Cannot write partition table: '' e) s
                  | None \<Rightarrow>
                      withPrompt s (\<lambda>answer s1.
                        if \<not> confirmed answer then say (Info ''Write cancelled'' []) s1
                        else writeConfirmed s1))))"


section \<open>The GPT handlers\<close>

definition gptVisibleSlots :: "cfdiskSession \<Rightarrow> nat list" where
  "gptVisibleSlots s =
     (let parts = gt_parts (gpt s);
          used = filter (\<lambda>i. \<not> gptPartitionEmpty (parts ! i)) [0 ..< length parts];
          empty = filter (\<lambda>i. gptPartitionEmpty (parts ! i)) [0 ..< length parts];
          emptySlot = (if selected s < length parts \<and> gptPartitionEmpty (parts ! selected s)
                       then [selected s] else take 1 empty)
      in sort (used @ emptySlot))"

text \<open>One step up or down among the visible slots, clamped at both ends.\<close>

definition moveGPTSelection :: "bool \<Rightarrow> cfdiskSession \<Rightarrow> cfdiskSession" where
  "moveGPTSelection down s =
     (let slots = gptVisibleSlots s in
      if slots = [] then s
      else (case filter (\<lambda>i. slots ! i = selected s) [0 ..< length slots] of
              [] \<Rightarrow> s\<lparr>selected := slots ! 0\<rparr>
            | position # _ \<Rightarrow>
                (let moved = (if down then min (position + 1) (length slots - 1) else position - 1)
                 in s\<lparr>selected := slots ! moved\<rparr>)))"

fun firstEmptyGPT :: "nat \<Rightarrow> cfdiskGPTPartition list \<Rightarrow> nat option" where
  "firstEmptyGPT index [] = None"
| "firstEmptyGPT index (p # ps) =
     (if gptPartitionEmpty p then Some index else firstEmptyGPT (Suc index) ps)"

text \<open>Indexing the entries with \<open>selected\<close>, and the check of the selected entry that opens several handlers.\<close>

definition withEntry :: "cfdiskSession \<Rightarrow> (cfdiskGPTPartition \<Rightarrow> outcome) \<Rightarrow> outcome" where
  "withEntry s k =
     (if length (gt_parts (gpt s)) \<le> selected s then Panicked else k (gt_parts (gpt s) ! selected s))"

definition unlessNoEntry :: "cfdiskSession \<Rightarrow> outcome \<Rightarrow> outcome" where
  "unlessNoEntry s k =
     (let none = say (Info ''Select an existing GPT partition first'' []) s
      in if length (gt_parts (gpt s)) \<le> selected s then none
         else withEntry s (\<lambda>p. if gptPartitionEmpty p then none else k))"

definition linuxName :: "nat list" where
  "linuxName = map ord ''Linux filesystem''"

definition addGPT :: "nat \<Rightarrow> u64 \<Rightarrow> u64 \<Rightarrow> cfdiskSession \<Rightarrow> outcome" where
  "addGPT slot start sz s0 =
     (let p = \<lparr>gp_type = cfdiskGPTLinuxFilesystemType,
               gp_unique = cfdiskRandomGPTGUID (random s0 (draws s0)),
               gp_start = start, gp_end = start + sz - 1, gp_attr = 0, gp_name = linuxName\<rparr>;
          s = s0\<lparr>draws := Suc (draws s0)\<rparr>;
          proposed = (gpt s)\<lparr>gt_parts := (gt_parts (gpt s))[slot := p]\<rparr>
      in case validateCfdiskGPTTable proposed of
           Some e \<Rightarrow> say (GptProblem ''Cannot create partition: '' e) s
         | None \<Rightarrow> say (Info ''Created GPT partition %d'' [slot + 1])
                     (s\<lparr>gpt := proposed, selected := slot, dirty := True\<rparr>))"

definition newGPTAt :: "nat \<Rightarrow> cfdiskSession \<Rightarrow> outcome" where
  "newGPTAt slot s =
     (case cfdiskSuggestedGPTFreeRegion (gpt s) of
        Inl e \<Rightarrow> say (GptProblem ''Cannot create a partition: '' e) s
      | Inr region \<Rightarrow>
          withPrompt s (\<lambda>startText s1.
            case typedSector startText (region_start region) of
              None \<Rightarrow> say (Quoted ''Invalid start sector %q'' startText) s1
            | Some start \<Rightarrow>
                withPrompt s1 (\<lambda>sizeText s2.
                  case typedSize s2 sizeText (region_size region) of
                    None \<Rightarrow> say (Quoted ''Invalid partition size %q'' sizeText) s2
                  | Some sz \<Rightarrow>
                      if start = 0 \<or> sz = 0 \<or> (- 1) - sz + 1 < start
                      then say (Info ''Partition range is outside the GPT address space'' []) s2
                      else addGPT slot start sz s2)))"

definition newGPTPartition :: "cfdiskSession \<Rightarrow> outcome" where
  "newGPTPartition s =
     unlessReadOnly ''create a partition'' s (\<lambda>s.
       let parts = gt_parts (gpt s);
           search = (case firstEmptyGPT 0 parts of
                       None \<Rightarrow> say (Info ''GPT has no unused partition entries'' []) s
                     | Some slot \<Rightarrow> newGPTAt slot s)
       in if length parts \<le> selected s then search
          else withEntry s (\<lambda>p. if gptPartitionEmpty p then newGPTAt (selected s) s else search))"

definition deleteGPTPartition :: "cfdiskSession \<Rightarrow> outcome" where
  "deleteGPTPartition s =
     unlessReadOnly ''delete a partition'' s (\<lambda>s.
       unlessNoEntry s
         (say (Info ''Deleted GPT partition %d in memory'' [selected s + 1])
              (s\<lparr>gpt := (gpt s)\<lparr>gt_parts := (gt_parts (gpt s))[selected s := noGPTPartition]\<rparr>,
                 dirty := True\<rparr>)))"

definition applyGPTResize :: "string \<Rightarrow> cfdiskSession \<Rightarrow> outcome" where
  "applyGPTResize value s =
     withEntry s (\<lambda>p.
      case cfdiskParseSize value (opt_sector_size (options s)) of
        None \<Rightarrow> say (Quoted ''Invalid partition size %q'' value) s
      | Some n \<Rightarrow>
          (let sz = word_of_nat n :: u64 in
           if n = 0 \<or> (- 1) - sz + 1 < gp_start p then say (Quoted ''Invalid partition size %q'' value) s
           else
             let proposed = (gpt s)\<lparr>gt_parts :=
                   (gt_parts (gpt s))[selected s := p\<lparr>gp_end := gp_start p + sz - 1\<rparr>]\<rparr>
             in case validateCfdiskGPTTable proposed of
                  Some e \<Rightarrow> say (GptProblem ''Cannot resize partition: '' e) s
                | None \<Rightarrow>
                    if proposed = gpt s
                    then say (Info ''GPT partition %d size is unchanged'' [selected s + 1]) s
                    else say (Info ''Resized GPT partition %d to %d sectors'' [selected s + 1, n])
                           (s\<lparr>gpt := proposed, dirty := True\<rparr>)))"

definition resizeGPTPartition :: "cfdiskSession \<Rightarrow> outcome" where
  "resizeGPTPartition s =
     unlessReadOnly ''resize a partition'' s (\<lambda>s.
       unlessNoEntry s
         (withPrompt s (\<lambda>value s1. if value = [] then Running s1 else applyGPTResize value s1)))"

fun findUnique :: "nat \<Rightarrow> bytes \<Rightarrow> cfdiskGPTPartition list \<Rightarrow> nat option" where
  "findUnique index guid [] = None"
| "findUnique index guid (p # ps) =
     (if gp_unique p = guid then Some index else findUnique (Suc index) guid ps)"

definition sortGPTPartitions :: "cfdiskSession \<Rightarrow> outcome" where
  "sortGPTPartitions s =
     unlessReadOnly ''sort partitions'' s (\<lambda>s.
       let parts = gt_parts (gpt s);
           current = (if selected s < length parts then parts ! selected s else noGPTPartition);
           ordered = sort_key gp_start (filter (\<lambda>p. \<not> gptPartitionEmpty p) parts);
           sorted = copyInto (replicate 128 noGPTPartition) ordered;
           proposed = (gpt s)\<lparr>gt_parts := sorted\<rparr>
       in if proposed = gpt s
          then say (Info ''GPT partition entries are already ordered by start sector'' []) s
          else
            let row = (if gptPartitionEmpty current then 0
                       else (case findUnique 0 (gp_unique current) sorted of
                               None \<Rightarrow> 0 | Some index \<Rightarrow> index))
            in say (Info ''Sorted GPT partition entries by start sector'' [])
                 (s\<lparr>gpt := proposed, selected := row, dirty := True\<rparr>))"

definition changeGPTType :: "cfdiskSession \<Rightarrow> outcome" where
  "changeGPTType s =
     unlessReadOnly ''change a partition type'' s (\<lambda>s.
       unlessNoEntry s
         (withPrompt s (\<lambda>value s1.
         if trimSpace value = [] then Running s1
         else (case cfdiskParseGPTType value of
                 None \<Rightarrow> say (Quoted ''Invalid GPT partition type %q'' value) s1
               | Some guid \<Rightarrow>
                   withEntry s1 (\<lambda>p.
                       say (NamedInfo ''Changed GPT partition %d type to %s'' (selected s1 + 1) (gptTypeName guid))
                         (s1\<lparr>gpt := (gpt s1)\<lparr>gt_parts :=
                               (gt_parts (gpt s1))[selected s1 := p\<lparr>gp_type := guid\<rparr>]\<rparr>,
                             dirty := True\<rparr>))))))"

definition verifyGPTWriteTarget :: "cfdiskSession \<Rightarrow> target_error option" where
  "verifyGPTWriteTarget s =
     (if \<not> fileOpen s then Some DeviceClosed
      else (case w_size (world s) of
              None \<Rightarrow> Some SizeUnavailable
            | Some sz \<Rightarrow>
                if sz \<noteq> diskBytes s then Some SizeChanged
                else (case cfdiskReadGPTRawState (w_disk (world s)) (diskSectors s) of
                        Inl e \<Rightarrow> Some (GPTUnreadable e)
                      | Inr current \<Rightarrow>
                          if current \<noteq> gptOriginal s then Some GPTDataChanged
                          else (case w_in_use (world s) of
                                  None \<Rightarrow> Some MountUnknown
                                | Some inUse \<Rightarrow> if inUse then Some TargetInUse else None))))"

definition writeGPTConfirmed :: "cfdiskSession \<Rightarrow> outcome" where
  "writeGPTConfirmed s =
     (case verifyGPTWriteTarget s of
        Some e \<Rightarrow> say (TargetProblem ''Cannot write GPT: '' e) s
      | None \<Rightarrow>
          (case cfdiskBuildGPT (sector s) (diskSectors s) (gpt s) of
             Inl e \<Rightarrow> say (GptProblem ''Cannot write GPT: '' e) s
           | Inr st \<Rightarrow>
               (case writeCfdiskGPT (target s) (diskSectors s) st of
                  (d, Some e) \<Rightarrow> say (GptProblem ''Write failed: '' e) (setDisk d s)
                | (d, None) \<Rightarrow>
                    say (Info ''GPT written; ask the kernel to reread it if needed'' [])
                      ((setDisk d s)\<lparr>sector := raw_mbr st, gptOriginal := st, dirty := False\<rparr>))))"

definition writeGPT :: "cfdiskSession \<Rightarrow> outcome" where
  "writeGPT s =
     unlessReadOnly ''write the GPT'' s (\<lambda>s.
       if \<not> dirty s then say (Info ''No changes to write'' []) s
       else (case validateCfdiskGPTTable (gpt s) of
               Some e \<Rightarrow> say (GptProblem ''Cannot write GPT: '' e) s
             | None \<Rightarrow>
                 (case verifyGPTWriteTarget s of
                    Some e \<Rightarrow> say (TargetProblem ''Cannot write GPT: '' e) s
                  | None \<Rightarrow>
                      withPrompt s (\<lambda>answer s1.
                        if \<not> confirmed answer then say (Info ''Write cancelled'' []) s1
                        else writeGPTConfirmed s1))))"

section \<open>The keys\<close>

definition newPartition :: "cfdiskSession \<Rightarrow> outcome" where
  "newPartition s = (if labelType s = LabelGPT then newGPTPartition s else newMbrPartition s)"

definition deletePartition :: "cfdiskSession \<Rightarrow> outcome" where
  "deletePartition s = (if labelType s = LabelGPT then deleteGPTPartition s else deleteMbrPartition s)"

definition resizePartition :: "cfdiskSession \<Rightarrow> outcome" where
  "resizePartition s = (if labelType s = LabelGPT then resizeGPTPartition s else resizeMbrPartition s)"

definition sortPartitions :: "cfdiskSession \<Rightarrow> outcome" where
  "sortPartitions s = (if labelType s = LabelGPT then sortGPTPartitions s else sortMbrPartitions s)"

definition changeType :: "cfdiskSession \<Rightarrow> outcome" where
  "changeType s = (if labelType s = LabelGPT then changeGPTType s else changeMbrType s)"

definition toggleBootable :: "cfdiskSession \<Rightarrow> outcome" where
  "toggleBootable s =
     (if labelType s = LabelGPT then say (Info ''GPT partitions do not have an MBR boot flag'' []) s
      else toggleMbrBootable s)"

definition writePartitions :: "cfdiskSession \<Rightarrow> outcome" where
  "writePartitions s = (if labelType s = LabelGPT then writeGPT s else writeMbr s)"

definition quit :: "cfdiskSession \<Rightarrow> outcome" where
  "quit s =
     (if \<not> dirty s then Finished s
      else withPrompt s (\<lambda>answer s1.
        if confirmed answer then Finished s1 else say (Info ''Changes kept in memory'' []) s1))"

text \<open>Opening a path with \<open>O_TRUNC\<close>, writing the text, \<open>Sync\<close> and \<open>Close\<close>: the device after it, and whether all
  went well.  A device that is no regular file keeps its size and what lies behind the text.\<close>

definition writeCfdiskDump :: "device \<Rightarrow> string \<Rightarrow> device \<times> bool" where
  "writeCfdiskDump d text =
     (if dev_noopen d then (d, False)
      else
        let data = map (\<lambda>c. word_of_nat (ord c)) text;
            d = (if dev_file d then d\<lparr>dev_byte := (\<lambda>_. 0), dev_size := 0\<rparr> else d);
            fits = (if dev_file d then data else take (dev_size d) data)
        in case writeAt d 0 fits of
             (d, ok) \<Rightarrow>
               let written = (case dev_short d 0 of None \<Rightarrow> length fits | Some k \<Rightarrow> min k (length fits));
                   d = (if dev_file d then d\<lparr>dev_size := written\<rparr> else d)
               in (d, ok \<and> fits = data \<and> \<not> dev_nosync d \<and> \<not> dev_noclose d))"

definition dumpText :: "cfdiskSession \<Rightarrow> string" where
  "dumpText s =
     (if labelType s = LabelGPT then cfdiskGPTDump (quoted s) (opt_device (options s)) (gpt s)
      else cfdiskDump (opt_device (options s)) (partitions s) (logical s))"

text \<open>The world after a dump: the path exists once it could be opened, and an open regular file has a new size.\<close>

definition dumpedTo :: "string \<Rightarrow> device \<Rightarrow> world \<Rightarrow> world" where
  "dumpedTo path d w =
     (let w' = storeAt path d w
      in if dev_noopen d then w'
         else w'\<lparr>w_lstat := (w_lstat w')(path := LExists),
                 w_size := (if w_at w path = OpenDisk \<and> dev_file d then Some (word_of_nat (dev_size d)) else w_size w')\<rparr>)"

definition writeDump :: "string \<Rightarrow> cfdiskSession \<Rightarrow> outcome" where
  "writeDump path s =
     (case writeCfdiskDump (deviceAt path (world s)) (dumpText s) of
        (d, ok) \<Rightarrow>
          say (if \<not> ok then Info ''Dump failed: '' []
               else Quoted (if labelType s = LabelGPT then ''Wrote GPT sfdisk-style dump to ''
                            else ''Wrote sfdisk-compatible dump to '') path)
            (s\<lparr>world := dumpedTo path d (world s)\<rparr>))"

definition dump :: "cfdiskSession \<Rightarrow> outcome" where
  "dump s =
     withPrompt s (\<lambda>answer s1.
       let path = trimSpace answer in
       if path = [] then say (Info ''Dump cancelled: no output file was given'' []) s1
       else (case w_lstat (world s1) path of
               LExists \<Rightarrow>
                 withPrompt s1 (\<lambda>answer2 s2.
                   if \<not> confirmed answer2 then say (Info ''Dump cancelled'' []) s2
                   else writeDump path s2)
             | LMissing \<Rightarrow> writeDump path s1
             | LError \<Rightarrow> say (Info ''Cannot inspect dump path: '' []) s1))"

datatype menu_action = MenuNew | MenuQuit | MenuHelp | MenuWrite | MenuDump

definition cfdiskMenuItems :: "menu_action list" where
  "cfdiskMenuItems = [MenuNew, MenuQuit, MenuHelp, MenuWrite, MenuDump]"

definition activateMenu :: "cfdiskSession \<Rightarrow> outcome" where
  "activateMenu s0 =
     (let s = (if length cfdiskMenuItems \<le> menuSelected s0 then s0\<lparr>menuSelected := 0\<rparr> else s0)
      in if length cfdiskMenuItems \<le> menuSelected s then Panicked
         else case cfdiskMenuItems ! menuSelected s of
           MenuNew \<Rightarrow> newPartition s
         | MenuQuit \<Rightarrow> quit s
         | MenuHelp \<Rightarrow> Running (s\<lparr>helpScreen := True\<rparr>)
         | MenuWrite \<Rightarrow> writePartitions s
         | MenuDump \<Rightarrow> dump s)"

definition cfdiskLabelTypes :: "label_kind list" where
  "cfdiskLabelTypes = [LabelGPT, LabelDOS]"

definition startLabel :: "cfdiskSession \<Rightarrow> outcome" where
  "startLabel s =
     (if length cfdiskLabelTypes \<le> labelSelected s then Panicked
      else
      let choice = cfdiskLabelTypes ! labelSelected s in
      unlessReadOnly ''create a partition table'' s (\<lambda>s.
       case choice of
         LabelDOS \<Rightarrow>
           say (Info ''Started with an empty DOS/MBR partition table'' [])
             (s\<lparr>labelType := LabelDOS, partitions := replicate 4 noPartition,
                gpt := emptyGPTTable, gptOriginal := emptyRawState,
                labelSelector := False, dirty := True\<rparr>)
       | LabelGPT \<Rightarrow>
           (let s1 = s\<lparr>draws := Suc (draws s)\<rparr> in
            case cfdiskNewGPT (random s (draws s)) (w_disk (world s)) (diskSectors s) of
              Inl e \<Rightarrow> say (GptProblem ''Cannot create GPT: '' e) s1
            | Inr (table, original) \<Rightarrow>
                say (Info ''Started with an empty GPT partition table'' [])
                  (s1\<lparr>labelType := LabelGPT, gpt := table, gptOriginal := original,
                      partitions := replicate 4 noPartition, labelSelector := False, dirty := True\<rparr>))
       | LabelNone \<Rightarrow> Running s))"

definition handleLabelSelectorKey :: "nat \<Rightarrow> cfdiskSession \<Rightarrow> outcome" where
  "handleLabelSelectorKey key s =
     (if key = 1000 \<or> key = ord CHR ''k''
      then say (Info [] []) (s\<lparr>labelSelected := labelSelected s - 1\<rparr>)
      else if key = 1001 \<or> key = ord CHR ''j''
      then say (Info [] [])
             (if labelSelected s + 1 < length cfdiskLabelTypes
              then s\<lparr>labelSelected := labelSelected s + 1\<rparr> else s)
      else if key \<in> {ord CHR ''?'', ord CHR ''h'', ord CHR ''H''} then Running (s\<lparr>helpScreen := True\<rparr>)
      else if key = 13 \<or> key = 10 then startLabel s
      else if key \<in> {ord CHR ''q'', ord CHR ''Q'', 3, 27} then Finished s
      else Running s)"

definition handleKey :: "nat \<Rightarrow> cfdiskSession \<Rightarrow> outcome" where
  "handleKey key s =
     (if helpScreen s then Running (s\<lparr>helpScreen := False\<rparr>)
      else if labelSelector s then handleLabelSelectorKey key s
      else if key \<in> {ord CHR ''?'', ord CHR ''h'', ord CHR ''H''} then Running (s\<lparr>helpScreen := True\<rparr>)
      else if key = 1000 \<or> key = ord CHR ''k''
      then say (Info [] [])
             (if labelType s = LabelGPT then moveGPTSelection False s
              else s\<lparr>selected := selected s - 1\<rparr>)
      else if key = 1001 \<or> key = ord CHR ''j''
      then say (Info [] [])
             (if labelType s = LabelGPT then moveGPTSelection True s
              else if selected s + 1 < length (partitionRows s) then s\<lparr>selected := selected s + 1\<rparr>
              else s)
      else if key = 1002
      then say (Info [] [])
             (s\<lparr>menuSelected := (menuSelected s + length cfdiskMenuItems - 1) mod length cfdiskMenuItems\<rparr>)
      else if key = 1003
      then say (Info [] []) (s\<lparr>menuSelected := (menuSelected s + 1) mod length cfdiskMenuItems\<rparr>)
      else if key = 13 \<or> key = 10 then activateMenu s
      else if key \<in> {ord CHR ''n'', ord CHR ''N''} then newPartition s
      else if key \<in> {ord CHR ''d'', ord CHR ''D''} then deletePartition s
      else if key \<in> {ord CHR ''r'', ord CHR ''R''} then resizePartition s
      else if key \<in> {ord CHR ''s'', ord CHR ''S''} then sortPartitions s
      else if key \<in> {ord CHR ''t'', ord CHR ''T''} then changeType s
      else if key \<in> {ord CHR ''b'', ord CHR ''B''} then toggleBootable s
      else if key \<in> {ord CHR ''u'', ord CHR ''U''} then dump s
      else if key \<in> {ord CHR ''x'', ord CHR ''X''}
      then say (Info (if extra s then ''Extra partition information hidden''
                      else ''Extra partition information shown'') []) (s\<lparr>extra := \<not> extra s\<rparr>)
      else if key \<in> {ord CHR ''w'', ord CHR ''W''} then writePartitions s
      else if key \<in> {ord CHR ''q'', ord CHR ''Q'', 3} then quit s
      else Running s)"

section \<open>Opening a disk\<close>

text \<open>\<open>w_disk\<close> is what the path given on the command line led to when it was opened.\<close>

datatype open_error =
    OpenFailed
  | LockFailed
  | SizeFailed
  | UnsupportedDisk
  | FirstSectorError
  | OpenGPT gpt_error
  | OpenChain ebr_error

definition loadTable :: "cfdiskSession \<Rightarrow> open_error + cfdiskSession" where
  "loadTable s =
     (if opt_zero (options s)
      then Inr (s\<lparr>labelSelector := True, message := Info ''Started with an empty in-memory table'' []\<rparr>)
      else if cfdiskHasProtectiveGPT (sector s) then
        (case cfdiskReadGPT (w_disk (world s)) (diskSectors s) of
           Inl e \<Rightarrow> Inl (OpenGPT e)
         | Inr (table, original) \<Rightarrow>
             Inr (s\<lparr>labelType := LabelGPT, gpt := table, gptOriginal := original\<rparr>))
      else if sector s ! 510 = 0x55 \<and> sector s ! 511 = 0xaa then
        (let ps = cfdiskReadPartitions (sector s);
             s' = s\<lparr>labelType := LabelDOS, partitions := ps\<rparr>
         in case cfdiskFindExtended ps of
              None \<Rightarrow> Inr s'
            | Some extIndex \<Rightarrow>
                (case cfdiskReadLogicalChain (w_disk (world s)) (ps ! extIndex) (diskSectors s) of
                   Inl e \<Rightarrow> Inl (OpenChain e)
                 | Inr ls \<Rightarrow> Inr (s'\<lparr>logical := ls\<rparr>)))
      else Inr (s\<lparr>labelSelector := True, message := Info ''No recognized partition table found'' []\<rparr>))"

definition newCfdiskSession ::
    "cfdiskOptions \<Rightarrow> world \<Rightarrow> event list \<Rightarrow> (nat \<Rightarrow> bytes) \<Rightarrow> (nat list \<Rightarrow> string) \<Rightarrow> open_error + cfdiskSession" where
  "newCfdiskSession opts w es rnd quote =
     (if \<not> w_opens w then Inl OpenFailed
      else if opt_lock opts \<and> \<not> w_locks w then Inl LockFailed
      else (case w_size w of
              None \<Rightarrow> Inl SizeFailed
            | Some sz \<Rightarrow>
                if sz < 1024 \<or> sz mod 512 \<noteq> 0 \<or> maxSignedOffset < sz then Inl UnsupportedDisk
                else (case readSector (w_disk w) 0 of
                        None \<Rightarrow> Inl FirstSectorError
                      | Some first \<Rightarrow>
                          loadTable
                            \<lparr>world = w, events = es, random = rnd, draws = 0, quoted = quote,
                             options = opts, fileOpen = True, diskBytes = sz, diskSectors = sz div 512,
                             sector = first, partitions = replicate 4 noPartition, logical = [],
                             labelType = LabelNone, gpt = emptyGPTTable, gptOriginal = emptyRawState,
                             selected = 0, menuSelected = 0, labelSelected = 0, dirty = False,
                             helpScreen = False, labelSelector = False, extra = False,
                             message = Info [] []\<rparr>)))"

section \<open>The main loop\<close>

text \<open>One turn: wait for a key, then handle it.  At the end of the input the editor leaves.\<close>

definition turn :: "cfdiskSession \<Rightarrow> outcome" where
  "turn s =
     (case events s of
        [] \<Rightarrow> Finished s
      | ReadError # es \<Rightarrow> Failed (s\<lparr>events := es\<rparr>)
      | Change w # es \<Rightarrow> Running (s\<lparr>world := w, events := es\<rparr>)
      | Key key # es \<Rightarrow> handleKey key (s\<lparr>events := es\<rparr>))"

end
