(* ===== verification/SessionInv.thy ===== *)
theory SessionInv
  imports Session
begin

text \<open>
  What the keys of the editor may do.  A statement about every result of a handler is
  \<open>outcomeAll P\<close>.  The locales name the elementary changes a property must survive; inside them it
  is shown once that every handler, every turn and so the main loop keeps the property, and the
  interpretations use it: the loop consumes its input, a key changes the disk only with consent, a
  read-only session keeps its table, and the label selector stays on its list.
\<close>

section \<open>Statements about outcomes\<close>

fun outcomeAll :: "(cfdiskSession \<Rightarrow> bool) \<Rightarrow> outcome \<Rightarrow> bool" where
  "outcomeAll P (Running s) = P s"
| "outcomeAll P (Finished s) = P s"
| "outcomeAll P (Failed s) = P s"
| "outcomeAll P Panicked = True"

text \<open>What a prompt may do to a session: consume events, and let the world change in between.\<close>

definition prompted :: "cfdiskSession \<Rightarrow> cfdiskSession \<Rightarrow> bool" where
  "prompted s s' \<longleftrightarrow>
     (\<exists>w es. s' = s\<lparr>world := w, events := es\<rparr> \<and> length es \<le> length (events s) \<and>
        set es \<subseteq> set (events s) \<and> (w = world s \<or> Change w \<in> set (events s)))"

lemma promptLoop_env:
  "promptLoop input w es = (r, w', es') \<Longrightarrow>
   length es' \<le> length es \<and> set es' \<subseteq> set es \<and> (w' = w \<or> Change w' \<in> set es)"
proof (induction es arbitrary: input w)
  case (Cons e es)
  have grow: "length es' \<le> length es \<and> set es' \<subseteq> set es \<and> (w' = w1 \<or> Change w' \<in> set es) \<Longrightarrow>
      w1 = w \<or> e = Change w1 \<Longrightarrow>
      length es' \<le> length (e # es) \<and> set es' \<subseteq> set (e # es) \<and> (w' = w \<or> Change w' \<in> set (e # es))"
    for w1 by auto
  show ?case
  proof (cases e)
    case (Key key)
    with Cons.prems have "(es' = es \<and> w' = w) \<or> (\<exists>i. promptLoop i w es = (r, w', es'))"
      by (auto split: if_splits)
    then show ?thesis using Cons.IH [of _ w] grow [of w] by blast
  next
    case ReadError
    then show ?thesis using Cons.prems by auto
  next
    case (Change w1)
    then show ?thesis using Cons.prems Cons.IH [of input w1] grow [of w1] by simp
  qed
qed simp

lemma oa_say [simp]: "outcomeAll P (say m s) \<longleftrightarrow> P (s\<lparr>message := m\<rparr>)"
  by (simp add: say_def)

lemma oa_running: "P s \<Longrightarrow> outcomeAll P (Running s)"
  and oa_finished: "P s \<Longrightarrow> outcomeAll P (Finished s)"
  and oa_panicked: "outcomeAll P Panicked"
  by simp_all

lemma oa_withPrompt:
  assumes "\<And>s'. prompted s s' \<Longrightarrow> P s'" "\<And>v s'. prompted s s' \<Longrightarrow> outcomeAll P (k v s')"
  shows "outcomeAll P (withPrompt s k)"
proof (cases "promptLoop '''' (world s) (events s)")
  case (fields r w es)
  have "prompted s (s\<lparr>world := w, events := es\<rparr>)"
    using promptLoop_env [OF fields] unfolding prompted_def by blast
  with assms show ?thesis
    by (cases r) (auto simp: withPrompt_def fields Let_def)
qed

lemma oa_withSelected:
  "(\<And>p. selected s < 4 \<Longrightarrow> p = partitions s ! selected s \<Longrightarrow> outcomeAll P (k p)) \<Longrightarrow>
    outcomeAll P (withSelected s k)"
  by (simp add: withSelected_def)

lemma oa_withLogical:
  "(\<And>e. i < length (logical s) \<Longrightarrow> e = logical s ! i \<Longrightarrow> outcomeAll P (k e)) \<Longrightarrow>
    outcomeAll P (withLogical i s k)"
  by (simp add: withLogical_def)

lemma oa_withEntry:
  "(\<And>p. p = gt_parts (gpt s) ! selected s \<Longrightarrow> outcomeAll P (k p)) \<Longrightarrow> outcomeAll P (withEntry s k)"
  by (simp add: withEntry_def)

lemma oa_if:
  "(b \<Longrightarrow> outcomeAll P x) \<Longrightarrow> (\<not> b \<Longrightarrow> outcomeAll P y) \<Longrightarrow> outcomeAll P (if b then x else y)"
  by simp

lemma oa_option:
  "(x = None \<Longrightarrow> outcomeAll P a) \<Longrightarrow> (\<And>y. x = Some y \<Longrightarrow> outcomeAll P (f y)) \<Longrightarrow>
   outcomeAll P (case x of None \<Rightarrow> a | Some y \<Rightarrow> f y)"
  by (cases x) simp_all

lemma oa_sum:
  "(\<And>y. x = Inl y \<Longrightarrow> outcomeAll P (f y)) \<Longrightarrow> (\<And>y. x = Inr y \<Longrightarrow> outcomeAll P (g y)) \<Longrightarrow>
   outcomeAll P (case x of Inl y \<Rightarrow> f y | Inr y \<Rightarrow> g y)"
  by (cases x) simp_all

lemma oa_prod:
  "(\<And>a b. x = (a, b) \<Longrightarrow> outcomeAll P (f a b)) \<Longrightarrow> outcomeAll P (case x of (a, b) \<Rightarrow> f a b)"
  by (cases x) simp

lemma oa_let: "(\<And>y. y = x \<Longrightarrow> outcomeAll P (f y)) \<Longrightarrow> outcomeAll P (let y = x in f y)"
  by (simp add: Let_def)

lemma oa_row:
  "(\<And>i. x = RowPrimary i \<Longrightarrow> outcomeAll P (f i)) \<Longrightarrow>
   (\<And>i. x = RowLogical i \<Longrightarrow> outcomeAll P (g i)) \<Longrightarrow>
   (\<And>r. x = RowLogicalFree r \<Longrightarrow> outcomeAll P (h r)) \<Longrightarrow>
   outcomeAll P (case x of RowPrimary i \<Rightarrow> f i | RowLogical i \<Rightarrow> g i | RowLogicalFree r \<Rightarrow> h r)"
  by (cases x) simp_all

lemma oa_lstat:
  "outcomeAll P a \<Longrightarrow> outcomeAll P b \<Longrightarrow> outcomeAll P c \<Longrightarrow>
   outcomeAll P (case x of LExists \<Rightarrow> a | LMissing \<Rightarrow> b | LError \<Rightarrow> c)"
  by (cases x) simp_all

lemma oa_label:
  "outcomeAll P a \<Longrightarrow> outcomeAll P b \<Longrightarrow> outcomeAll P c \<Longrightarrow>
   outcomeAll P (case x of LabelNone \<Rightarrow> a | LabelGPT \<Rightarrow> b | LabelDOS \<Rightarrow> c)"
  by (cases x) simp_all

lemma oa_menu:
  "outcomeAll P a \<Longrightarrow> outcomeAll P b \<Longrightarrow> outcomeAll P c \<Longrightarrow> outcomeAll P d \<Longrightarrow> outcomeAll P e \<Longrightarrow>
   outcomeAll P (case x of MenuNew \<Rightarrow> a | MenuQuit \<Rightarrow> b | MenuHelp \<Rightarrow> c | MenuWrite \<Rightarrow> d | MenuDump \<Rightarrow> e)"
  by (cases x) simp_all

lemmas oa_rules = oa_running oa_finished oa_panicked oa_withSelected oa_withLogical oa_withEntry oa_if oa_option
  oa_sum oa_prod oa_let oa_row oa_lstat oa_label oa_menu

section \<open>Properties every handler keeps\<close>

text \<open>
  A property that survives a new status line, a wait at a prompt and a move of the selection
  survives every key of a read-only session, if it survives a dump; if it also survives every edit of
  the table in memory and every change of the world, it survives every key of any session.
\<close>

locale session_view =
  fixes P :: "cfdiskSession \<Rightarrow> bool"
  assumes msg: "P s \<Longrightarrow> P (s\<lparr>message := m\<rparr>)"
    and wait: "prompted s s' \<Longrightarrow> P s \<Longrightarrow> P s'"
    and view: "P s \<Longrightarrow> P (s\<lparr>selected := n\<rparr>)" "P s \<Longrightarrow> P (s\<lparr>menuSelected := n\<rparr>)"
      "P s \<Longrightarrow> (labelSelected s < length cfdiskLabelTypes \<Longrightarrow> n < length cfdiskLabelTypes) \<Longrightarrow>
        P (s\<lparr>labelSelected := n\<rparr>)" "P s \<Longrightarrow> P (s\<lparr>helpScreen := b\<rparr>)"
      "P s \<Longrightarrow> P (s\<lparr>extra := b\<rparr>)"

locale session_quiet = session_view +
  assumes edit: "P s \<Longrightarrow> P (s\<lparr>partitions := ps\<rparr>)"
      "P s \<Longrightarrow> P (s\<lparr>logical := ls\<rparr>)" "P s \<Longrightarrow> P (s\<lparr>gpt := t\<rparr>)"
      "P s \<Longrightarrow> P (s\<lparr>gptOriginal := st\<rparr>)" "P s \<Longrightarrow> P (s\<lparr>labelType := lk\<rparr>)"
      "P s \<Longrightarrow> P (s\<lparr>labelSelector := b\<rparr>)" "P s \<Longrightarrow> P (s\<lparr>draws := n\<rparr>)"
      "P s \<Longrightarrow> P (s\<lparr>sector := bs\<rparr>)" "P s \<Longrightarrow> P (s\<lparr>dirty := b\<rparr>)"

locale session_edit = session_quiet +
  assumes outside: "P s \<Longrightarrow> P (s\<lparr>world := w\<rparr>)"

locale session_locked = session_view +
  assumes locked: "P s \<Longrightarrow> opt_read_only (options s)"
    and dumping: "P s \<Longrightarrow> outcomeAll P (writeDump path s)"

context session_view begin

lemma said: "P s \<Longrightarrow> outcomeAll P (say m s)"
  by (simp add: msg)

lemma asked:
  "P s \<Longrightarrow> (\<And>v s'. P s' \<Longrightarrow> outcomeAll P (k v s')) \<Longrightarrow> outcomeAll P (withPrompt s k)"
  by (rule oa_withPrompt) (auto intro: wait)

lemma either: "(b \<Longrightarrow> P x) \<Longrightarrow> (\<not> b \<Longrightarrow> P y) \<Longrightarrow> P (if b then x else y)"
  by simp

lemma entry: "P s \<Longrightarrow> outcomeAll P k \<Longrightarrow> outcomeAll P (unlessNoEntry s k)"
  by (simp add: unlessNoEntry_def withEntry_def Let_def msg)

lemma moved: "P s \<Longrightarrow> P (moveGPTSelection down s)"
  by (auto simp: moveGPTSelection_def Let_def intro: view split: list.splits)

lemma started: "P s \<Longrightarrow> events s = Key key # es \<Longrightarrow> P (s\<lparr>events := es\<rparr>)"
  by (rule wait [of s]) (auto simp: prompted_def intro!: exI [of _ "world s"])

lemma changed: "P s \<Longrightarrow> events s = Change w # es \<Longrightarrow> P (s\<lparr>world := w, events := es\<rparr>)"
  by (rule wait [of s]) (auto simp: prompted_def intro!: exI [of _ w] exI [of _ es])

lemma failed: "P s \<Longrightarrow> events s = ReadError # es \<Longrightarrow> P (s\<lparr>events := es\<rparr>)"
  by (rule wait [of s]) (auto simp: prompted_def intro!: exI [of _ "world s"])

lemma turnLaw:
  assumes "\<And>key s. P s \<Longrightarrow> outcomeAll P (handleKey key s)" "P s"
  shows "outcomeAll P (turn s)"
proof (cases "events s")
  case (Cons e es)
  then show ?thesis
    using assms started [of s _ es] changed [of s _ es] failed [of s es]
    by (cases e) (simp_all add: turn_def)
qed (simp add: turn_def assms)

lemmas view_rules = oa_rules either entry moved said asked msg view less_imp_diff_less

lemma quitLaw: "P s \<Longrightarrow> outcomeAll P (quit s)"
  unfolding quit_def
  by (assumption | rule view_rules)+

lemma dumpLaw:
  assumes "\<And>path s. P s \<Longrightarrow> outcomeAll P (writeDump path s)"
  shows "P s \<Longrightarrow> outcomeAll P (dump s)"
  unfolding dump_def
  by (assumption | rule view_rules assms)+

end

context session_quiet begin

lemma unless: "P s \<Longrightarrow> (P s \<Longrightarrow> outcomeAll P (k s)) \<Longrightarrow> outcomeAll P (unlessReadOnly a s k)"
  by (simp add: unlessReadOnly_def msg)

lemmas edit_rules = view_rules edit unless

lemma newMbr: "P s \<Longrightarrow> outcomeAll P (newMbrPartition s)"
  unfolding newMbrPartition_def newPrimaryPartition_def newLogicalPartition_def addLogical_def
  by (assumption | rule edit_rules)+

lemma deleteMbr: "P s \<Longrightarrow> outcomeAll P (deleteMbrPartition s)"
  unfolding deleteMbrPartition_def deletePrimary_def
  by (assumption | rule edit_rules | hypsubst)+

lemma resizeMbr: "P s \<Longrightarrow> outcomeAll P (resizeMbrPartition s)"
  unfolding resizeMbrPartition_def resizePrimary_def resizeLogicalPartition_def applyResize_def
    applyLogicalResize_def
  by (assumption | rule edit_rules)+

lemma typeMbr: "P s \<Longrightarrow> outcomeAll P (changeMbrType s)"
  unfolding changeMbrType_def changeLogicalType_def applyLogicalType_def applyType_def
  by (assumption | rule edit_rules)+

lemma sortBootMbr:
  "P s \<Longrightarrow> outcomeAll P (sortMbrPartitions s)" "P s \<Longrightarrow> outcomeAll P (toggleMbrBootable s)"
  unfolding sortMbrPartitions_def toggleMbrBootable_def
  by (assumption | rule edit_rules | hypsubst)+

lemma newGPT: "P s \<Longrightarrow> outcomeAll P (newGPTPartition s)"
  unfolding newGPTPartition_def newGPTAt_def addGPT_def
  by (assumption | rule edit_rules | hypsubst)+

lemma editGPT:
  "P s \<Longrightarrow> outcomeAll P (deleteGPTPartition s)" "P s \<Longrightarrow> outcomeAll P (resizeGPTPartition s)"
  "P s \<Longrightarrow> outcomeAll P (sortGPTPartitions s)" "P s \<Longrightarrow> outcomeAll P (changeGPTType s)"
  unfolding deleteGPTPartition_def resizeGPTPartition_def applyGPTResize_def sortGPTPartitions_def
    changeGPTType_def
  by (assumption | rule edit_rules)+

lemmas handlers = newMbr deleteMbr resizeMbr typeMbr sortBootMbr newGPT editGPT quitLaw

lemma startLabel: "P s \<Longrightarrow> outcomeAll P (startLabel s)"
  unfolding startLabel_def
  by (assumption | rule edit_rules | hypsubst)+

text \<open>The keys that write and those that dump; \<open>b\<close> is a menu position that is out of range.\<close>

lemma keyOrWrite:
  assumes "key = 13 \<or> key = 10 \<Longrightarrow> outcomeAll P (writePartitions (if b then s\<lparr>menuSelected := 0\<rparr> else s))"
    and "key \<in> {ord CHR ''w'', ord CHR ''W''} \<Longrightarrow> outcomeAll P (writePartitions s)"
    and "key = 13 \<or> key = 10 \<Longrightarrow> outcomeAll P (dump (if b then s\<lparr>menuSelected := 0\<rparr> else s))"
    and "key \<in> {ord CHR ''u'', ord CHR ''U''} \<Longrightarrow> outcomeAll P (dump s)"
    and b: "b = (length cfdiskMenuItems \<le> menuSelected s)"
  shows "P s \<Longrightarrow> outcomeAll P (handleKey key s)"
  unfolding handleKey_def handleLabelSelectorKey_def activateMenu_def newPartition_def
    deletePartition_def resizePartition_def sortPartitions_def changeType_def toggleBootable_def
    b [symmetric]
  by (assumption | rule edit_rules handlers startLabel assms(1-4) | hypsubst)+

end

context session_edit begin

lemma writes: "P s \<Longrightarrow> outcomeAll P (writeMbr s)" "P s \<Longrightarrow> outcomeAll P (writeGPT s)"
  unfolding writeMbr_def writeConfirmed_def writeTable_def writeGPT_def writeGPTConfirmed_def setDisk_def
  by (assumption | rule edit_rules outside)+

lemma dumpAny: "P s \<Longrightarrow> outcomeAll P (dump s)"
  by (rule dumpLaw) (auto simp: writeDump_def msg outside split: prod.splits)

lemma anyKey: "P s \<Longrightarrow> outcomeAll P (handleKey key s)"
  by (rule keyOrWrite [OF _ _ _ _ refl]; assumption?) (simp_all add: writePartitions_def writes dumpAny view)

end

context session_locked begin

lemma refused: "P s \<Longrightarrow> outcomeAll P (unlessReadOnly a s k)"
  by (simp add: unlessReadOnly_def msg locked)

lemmas locked_rules = view_rules refused

lemma refusals:
  "P s \<Longrightarrow> outcomeAll P (newMbrPartition s)" "P s \<Longrightarrow> outcomeAll P (deleteMbrPartition s)"
  "P s \<Longrightarrow> outcomeAll P (resizeMbrPartition s)" "P s \<Longrightarrow> outcomeAll P (sortMbrPartitions s)"
  "P s \<Longrightarrow> outcomeAll P (changeMbrType s)" "P s \<Longrightarrow> outcomeAll P (toggleMbrBootable s)"
  "P s \<Longrightarrow> outcomeAll P (writeMbr s)" "P s \<Longrightarrow> outcomeAll P (newGPTPartition s)"
  "P s \<Longrightarrow> outcomeAll P (deleteGPTPartition s)" "P s \<Longrightarrow> outcomeAll P (resizeGPTPartition s)"
  "P s \<Longrightarrow> outcomeAll P (sortGPTPartitions s)" "P s \<Longrightarrow> outcomeAll P (changeGPTType s)"
  "P s \<Longrightarrow> outcomeAll P (writeGPT s)"
  unfolding newMbrPartition_def deleteMbrPartition_def resizeMbrPartition_def
    sortMbrPartitions_def changeMbrType_def toggleMbrBootable_def writeMbr_def newGPTPartition_def
    deleteGPTPartition_def resizeGPTPartition_def sortGPTPartitions_def changeGPTType_def
    writeGPT_def
  by (erule refused)+

lemma startRefused: "P s \<Longrightarrow> outcomeAll P (startLabel s)"
  unfolding startLabel_def
  by (assumption | rule oa_if oa_let oa_panicked refused)+

lemma lockedKey: "P s \<Longrightarrow> outcomeAll P (handleKey key s)"
  unfolding handleKey_def handleLabelSelectorKey_def activateMenu_def newPartition_def
    deletePartition_def resizePartition_def sortPartitions_def changeType_def toggleBootable_def
    writePartitions_def
  by (assumption | rule view_rules refusals startRefused quitLaw dumpLaw dumping | hypsubst)+

end

section \<open>What every key leaves alone, and the main loop\<close>

text \<open>The options, the geometry and the random source never change, and input is only consumed.\<close>

definition tame :: "cfdiskSession \<Rightarrow> cfdiskSession \<Rightarrow> bool" where
  "tame s s' \<longleftrightarrow>
     options s' = options s \<and> fileOpen s' = fileOpen s \<and> diskBytes s' = diskBytes s \<and>
     diskSectors s' = diskSectors s \<and> random s' = random s \<and>
     length (events s') \<le> length (events s) \<and> set (events s') \<subseteq> set (events s)"

lemma tame_refl [simp]: "tame s s" by (simp add: tame_def)

lemma tame_trans: "tame s s' \<Longrightarrow> tame s' s'' \<Longrightarrow> tame s s''"
  by (auto simp: tame_def)

lemma prompted_tame: "prompted s s' \<Longrightarrow> tame s s'"
  by (auto simp: prompted_def tame_def)

interpretation tame: session_edit "tame s" for s
  by unfold_locales (auto simp: tame_def prompted_def)

text \<open>The label selector stays on its list.\<close>

definition onLabels :: "cfdiskSession \<Rightarrow> bool" where
  "onLabels s \<longleftrightarrow> labelSelected s < length cfdiskLabelTypes"

interpretation labels: session_edit onLabels
  by unfold_locales (auto simp: onLabels_def prompted_def)

text \<open>The disks that other processes put in place.\<close>

definition changedDisks :: "event list \<Rightarrow> device set" where
  "changedDisks es = w_disk ` {w. Change w \<in> set es}"

lemma changedDisks_mono: "set es \<subseteq> set es' \<Longrightarrow> changedDisks es \<subseteq> changedDisks es'"
  by (auto simp: changedDisks_def)

lemma changedDisksI: "Change w \<in> set es \<Longrightarrow> w_disk w \<in> changedDisks es"
  by (simp add: changedDisks_def)

text \<open>The disk is the one at the start, or one that another process has put there.\<close>

definition quiet :: "cfdiskSession \<Rightarrow> cfdiskSession \<Rightarrow> bool" where
  "quiet s0 s \<longleftrightarrow>
     changedDisks (events s) \<subseteq> changedDisks (events s0) \<and>
     w_disk (world s) \<in> insert (w_disk (world s0)) (changedDisks (events s0))"

lemma quiet_prompted:
  assumes "prompted s s'" "quiet s0 s" shows "quiet s0 s'"
proof -
  obtain w es where s': "s' = s\<lparr>world := w, events := es\<rparr>" and es: "set es \<subseteq> set (events s)"
    and w: "w = world s \<or> Change w \<in> set (events s)"
    using assms(1) by (auto simp: prompted_def)
  have "changedDisks es \<subseteq> changedDisks (events s0)"
    using changedDisks_mono [OF es] assms(2) unfolding quiet_def by blast
  moreover have "w_disk w \<in> insert (w_disk (world s0)) (changedDisks (events s0))"
    using w assms(2) changedDisksI [of w "events s"] unfolding quiet_def by blast
  ultimately show ?thesis by (simp add: quiet_def s')
qed

interpretation quiet: session_quiet "quiet s" for s
  by unfold_locales (auto simp: quiet_prompted, simp_all add: quiet_def)

text \<open>The disks that come of dumping a text over one of the disks \<open>D\<close>, any number of times.\<close>

inductive_set overwritten :: "device set \<Rightarrow> string \<Rightarrow> device set" for D :: "device set" and content :: string where
  kept: "d \<in> D \<Longrightarrow> d \<in> overwritten D content"
| over: "d \<in> overwritten D content \<Longrightarrow> fst (writeCfdiskDump d content) \<in> overwritten D content"

text \<open>A read-only session moreover keeps its table, and with it the text of its dump.\<close>

definition untouched :: "cfdiskSession \<Rightarrow> cfdiskSession \<Rightarrow> bool" where
  "untouched s0 s \<longleftrightarrow>
     opt_read_only (options s0) \<and> options s = options s0 \<and> quoted s = quoted s0 \<and>
     labelType s = labelType s0 \<and> dirty s = dirty s0 \<and> partitions s = partitions s0 \<and>
     logical s = logical s0 \<and> gpt s = gpt s0 \<and>
     changedDisks (events s) \<subseteq> changedDisks (events s0) \<and>
     w_disk (world s) \<in> overwritten (insert (w_disk (world s0)) (changedDisks (events s0))) (dumpText s0)"

lemma untouched_prompted:
  assumes "prompted s s'" "untouched s0 s" shows "untouched s0 s'"
proof -
  obtain w es where s': "s' = s\<lparr>world := w, events := es\<rparr>" and es: "set es \<subseteq> set (events s)"
    and w: "w = world s \<or> Change w \<in> set (events s)"
    using assms(1) by (auto simp: prompted_def)
  have "changedDisks es \<subseteq> changedDisks (events s0)"
    using changedDisks_mono [OF es] assms(2) unfolding untouched_def by blast
  moreover have "w_disk w \<in> overwritten (insert (w_disk (world s0)) (changedDisks (events s0))) (dumpText s0)"
    using w assms(2) changedDisksI [of w "events s"] unfolding untouched_def by (blast intro: overwritten.kept)
  ultimately show ?thesis using assms(2) by (simp add: untouched_def s')
qed

lemma untouched_dump:
  assumes "untouched s0 s" shows "outcomeAll (untouched s0) (writeDump path s)"
proof -
  have same: "dumpText s = dumpText s0" using assms by (simp add: untouched_def dumpText_def)
  obtain d ok where w: "writeCfdiskDump (deviceAt path (world s)) (dumpText s0) = (d, ok)" by (rule prod.exhaust)
  let ?D = "overwritten (insert (w_disk (world s0)) (changedDisks (events s0))) (dumpText s0)"
  have "w_disk (dumpedTo path d (world s)) \<in> ?D"
  proof (cases "w_at (world s) path")
    case OpenDisk
    then have "d = fst (writeCfdiskDump (w_disk (world s)) (dumpText s0))"
      using w by (simp add: deviceAt_def)
    then show ?thesis using assms OpenDisk overwritten.over [of "w_disk (world s)"]
      by (auto simp: dumpedTo_def storeAt_def untouched_def Let_def)
  qed (use assms in \<open>simp add: dumpedTo_def storeAt_def untouched_def Let_def\<close>)
  then show ?thesis using assms by (simp add: writeDump_def same w untouched_def)
qed

interpretation untouched: session_locked "untouched s" for s
proof unfold_locales
  fix t path
  show "untouched s t \<Longrightarrow> outcomeAll (untouched s) (writeDump path t)" by (rule untouched_dump)
next
  fix t t'
  show "prompted t t' \<Longrightarrow> untouched s t \<Longrightarrow> untouched s t'" by (rule untouched_prompted)
qed (simp_all add: untouched_def)

lemma turn_tame: "outcomeAll (tame s) (turn s)"
  by (rule tame.turnLaw) (simp_all add: tame.anyKey)

lemma turn_consumes: "turn s = Running s' \<Longrightarrow> length (events s') < length (events s)"
proof -
  assume a: "turn s = Running s'"
  show ?thesis
  proof (cases "events s")
    case Nil with a show ?thesis by (simp add: turn_def)
  next
    case (Cons e es)
    show ?thesis
    proof (cases e)
      case (Key key)
      with a Cons have "handleKey key (s\<lparr>events := es\<rparr>) = Running s'" by (simp add: turn_def)
      with tame.anyKey [of "s\<lparr>events := es\<rparr>" "s\<lparr>events := es\<rparr>" key] Cons show ?thesis
        by (simp add: tame_def)
    qed (use a Cons in \<open>auto simp: turn_def\<close>)
  qed
qed

function run :: "cfdiskSession \<Rightarrow> outcome" where
  "run s = (case turn s of Running s' \<Rightarrow> run s' | stop \<Rightarrow> stop)"
  by pat_completeness auto
termination
  by (relation "measure (\<lambda>s. length (events s))") (simp_all add: turn_consumes)

declare run.simps [simp del]

lemma run_law:
  assumes "\<And>s. P s \<Longrightarrow> outcomeAll P (turn s)"
  shows "P s \<Longrightarrow> outcomeAll P (run s)"
proof (induction s rule: run.induct)
  case (1 s)
  then show ?case using assms [OF 1(2)]
    by (subst run.simps) (auto split: outcome.splits)
qed

lemma run_returns: "run s \<noteq> Running s'"
proof (induction s arbitrary: s' rule: run.induct)
  case (1 s)
  then show ?case by (subst run.simps) (auto split: outcome.splits)
qed

section \<open>When a key may change the disk\<close>

text \<open>The user typed \<open>yes\<close>; before the question and after it, the table was valid and the disk was
  the one the session had read.\<close>

definition consented :: "(cfdiskSession \<Rightarrow> target_error option) \<Rightarrow> cfdiskSession \<Rightarrow> bool" where
  "consented verify s \<longleftrightarrow>
     \<not> opt_read_only (options s) \<and> dirty s \<and> verify s = None \<and>
     (\<exists>answer w es. promptLoop '''' (world s) (events s) = (Answer answer, w, es) \<and>
        confirmed answer \<and> verify (s\<lparr>world := w, events := es\<rparr>) = None)"

definition mayWrite :: "cfdiskSession \<Rightarrow> bool" where
  "mayWrite s \<longleftrightarrow>
     (if labelType s = LabelGPT
      then validateCfdiskGPTTable (gpt s) = None \<and> consented verifyGPTWriteTarget s
      else mbrProblem s = None \<and> consented verifyMbrTarget s)"

text \<open>The user typed a path that leads to the open disk, and \<open>yes\<close> when something is there already.\<close>

definition dumpsOverDisk :: "cfdiskSession \<Rightarrow> bool" where
  "dumpsOverDisk s \<longleftrightarrow>
     (\<exists>answer w es. promptLoop '''' (world s) (events s) = (Answer answer, w, es) \<and>
        trimSpace answer \<noteq> [] \<and>
        (case w_lstat w (trimSpace answer) of
           LMissing \<Rightarrow> w_at w (trimSpace answer) = OpenDisk
         | LExists \<Rightarrow>
             (\<exists>answer2 w2 es2. promptLoop '''' w es = (Answer answer2, w2, es2) \<and> confirmed answer2 \<and>
                w_at w2 (trimSpace answer) = OpenDisk)
         | LError \<Rightarrow> False))"

lemma withPrompt_cases:
  assumes "\<And>s'. prompted s s' \<Longrightarrow> P s'"
    and "\<And>v w es. promptLoop '''' (world s) (events s) = (Answer v, w, es) \<Longrightarrow>
           prompted s (s\<lparr>world := w, events := es\<rparr>) \<Longrightarrow> outcomeAll P (k v (s\<lparr>world := w, events := es\<rparr>))"
  shows "outcomeAll P (withPrompt s k)"
proof (cases "promptLoop '''' (world s) (events s)")
  case (fields r w es)
  have "prompted s (s\<lparr>world := w, events := es\<rparr>)"
    using promptLoop_env [OF fields] unfolding prompted_def by blast
  with assms fields show ?thesis
    by (cases r) (auto simp: withPrompt_def Let_def)
qed

lemma quiet_refl [simp]: "quiet s s"
  by (simp add: quiet_def)

lemma quiet_message [simp]: "quiet s0 (s\<lparr>message := m\<rparr>) = quiet s0 s"
  by (simp add: quiet_def)

lemma write_quiet:
  assumes "\<not> mayWrite s" shows "outcomeAll (quiet s) (writePartitions s)"
proof (cases "labelType s = LabelGPT")
  case True
  then show ?thesis using assms
    by (auto simp: writePartitions_def writeGPT_def unlessReadOnly_def mayWrite_def consented_def
        writeGPTConfirmed_def quiet_prompted split: option.splits intro!: withPrompt_cases)
next
  case False
  then show ?thesis using assms
    by (auto simp: writePartitions_def writeMbr_def unlessReadOnly_def mayWrite_def consented_def
        writeConfirmed_def quiet_prompted split: option.splits intro!: withPrompt_cases)
qed

lemma quiet_writeDump:
  assumes "quiet s0 s" "w_at (world s) path \<noteq> OpenDisk" shows "outcomeAll (quiet s0) (writeDump path s)"
proof -
  obtain d where "w_at (world s) path = Elsewhere d" using assms(2) by (cases "w_at (world s) path") auto
  then have "w_disk (dumpedTo path d' (world s)) = w_disk (world s)" for d'
    by (simp add: dumpedTo_def storeAt_def Let_def)
  then show ?thesis using assms(1) by (auto simp: writeDump_def quiet_def split: prod.split)
qed

lemma dump_quiet:
  assumes "\<not> dumpsOverDisk s" shows "outcomeAll (quiet s) (dump s)"
  unfolding dump_def
proof (rule withPrompt_cases)
  fix v w es
  assume a: "promptLoop '''' (world s) (events s) = (Answer v, w, es)"
    and p: "prompted s (s\<lparr>world := w, events := es\<rparr>)"
  let ?s = "s\<lparr>world := w, events := es\<rparr>"
  have q: "quiet s ?s" using quiet_prompted [OF p] by simp
  have yes: "outcomeAll (quiet s) (withPrompt ?s (\<lambda>answer2 s2.
      if \<not> confirmed answer2 then say (Info ''Dump cancelled'' []) s2 else writeDump (trimSpace v) s2))"
    if "w_lstat w (trimSpace v) = LExists" "trimSpace v \<noteq> []"
  proof (rule withPrompt_cases)
    fix v2 w2 es2
    assume a2: "promptLoop '''' (world ?s) (events ?s) = (Answer v2, w2, es2)"
      and p2: "prompted ?s (?s\<lparr>world := w2, events := es2\<rparr>)"
    have "w_at w2 (trimSpace v) \<noteq> OpenDisk" if "confirmed v2"
      using assms a a2 that \<open>w_lstat w (trimSpace v) = LExists\<close> \<open>trimSpace v \<noteq> []\<close>
      by (auto simp: dumpsOverDisk_def)
    then show "outcomeAll (quiet s) (if \<not> confirmed v2 then say (Info ''Dump cancelled'' []) (?s\<lparr>world := w2, events := es2\<rparr>)
        else writeDump (trimSpace v) (?s\<lparr>world := w2, events := es2\<rparr>))"
      using quiet_prompted [OF p2 q] by (auto intro!: quiet_writeDump)
  qed (use q quiet_prompted in blast)
  have no: "w_at w (trimSpace v) \<noteq> OpenDisk" if "w_lstat w (trimSpace v) = LMissing" "trimSpace v \<noteq> []"
    using assms a that by (auto simp: dumpsOverDisk_def)
  show "outcomeAll (quiet s) (let path = trimSpace v in
       if path = [] then say (Info ''Dump cancelled: no output file was given'' []) ?s
       else (case w_lstat (world ?s) path of
               LExists \<Rightarrow> withPrompt ?s (\<lambda>answer2 s2.
                   if \<not> confirmed answer2 then say (Info ''Dump cancelled'' []) s2 else writeDump path s2)
             | LMissing \<Rightarrow> writeDump path ?s
             | LError \<Rightarrow> say (Info ''Cannot inspect dump path: '' []) ?s))"
    using q yes no quiet_writeDump [OF q, of "trimSpace v"]
    by (auto simp: Let_def split: lstat.split)
qed (simp add: quiet_prompted)

lemma verify_menu:
  "verifyMbrTarget (s\<lparr>menuSelected := n\<rparr>) = verifyMbrTarget s"
  "verifyGPTWriteTarget (s\<lparr>menuSelected := n\<rparr>) = verifyGPTWriteTarget s"
  "verifyMbrTarget (s\<lparr>menuSelected := n, world := w, events := es\<rparr>) =
     verifyMbrTarget (s\<lparr>world := w, events := es\<rparr>)"
  "verifyGPTWriteTarget (s\<lparr>menuSelected := n, world := w, events := es\<rparr>) =
     verifyGPTWriteTarget (s\<lparr>world := w, events := es\<rparr>)"
  "mbrProblem (s\<lparr>menuSelected := n\<rparr>) = mbrProblem s"
  by (simp_all add: verifyMbrTarget_def verifyGPTWriteTarget_def mbrProblem_def
      cong: option.case_cong sum.case_cong if_cong)

lemma mayWrite_menu: "mayWrite (s\<lparr>menuSelected := n\<rparr>) = mayWrite s"
  by (simp add: mayWrite_def consented_def verify_menu)

lemma dumps_menu: "dumpsOverDisk (s\<lparr>menuSelected := n\<rparr>) = dumpsOverDisk s"
  by (simp add: dumpsOverDisk_def)

lemma quiet_menu: "quiet (s\<lparr>menuSelected := n\<rparr>) = quiet s"
  by (simp add: quiet_def fun_eq_iff)

text \<open>C1 (safety): a key changes the disk only with the user's consent.  Unless the key is one that writes, the session
  may be edited, is dirty and holds a valid table, the target still is what was read, and the user answers yes with
  the target checked again after the answer; or the key is one that dumps and the user types a path that leads
  to the disk, with a yes when the path exists; the disk after the key is the disk before it or one that another process
  has put there.\<close>

theorem writes_need_consent:
  "outcomeAll (\<lambda>s'.
      (key \<in> {13, 10, ord CHR ''w'', ord CHR ''W''} \<and> mayWrite s) \<or>
      (key \<in> {13, 10, ord CHR ''u'', ord CHR ''U''} \<and> dumpsOverDisk s) \<or>
      w_disk (world s') \<in> insert (w_disk (world s)) (changedDisks (events s))) (handleKey key s)"
proof (cases "(key \<in> {13, 10, ord CHR ''w'', ord CHR ''W''} \<and> mayWrite s) \<or>
      (key \<in> {13, 10, ord CHR ''u'', ord CHR ''U''} \<and> dumpsOverDisk s)")
  case False
  define b where "b = (length cfdiskMenuItems \<le> menuSelected s)"
  let ?s = "if b then s\<lparr>menuSelected := 0\<rparr> else s"
  have wr: "outcomeAll (quiet s) (writePartitions s)" "outcomeAll (quiet s) (writePartitions ?s)" if "\<not> mayWrite s"
    using write_quiet [OF that] write_quiet [of ?s] that by (cases b; simp add: mayWrite_menu quiet_menu)+
  have dm: "outcomeAll (quiet s) (dump s)" "outcomeAll (quiet s) (dump ?s)" if "\<not> dumpsOverDisk s"
    using dump_quiet [OF that] dump_quiet [of ?s] that by (cases b; simp add: dumps_menu quiet_menu)+
  have "outcomeAll (quiet s) (handleKey key s)"
    by (rule quiet.keyOrWrite [OF _ _ _ _ b_def]) (use False wr dm in auto)
  then show ?thesis by (cases "handleKey key s") (auto simp: quiet_def)
qed (cases "handleKey key s"; simp only: outcomeAll.simps; blast)

lemma run_keeps: "outcomeAll (tame s) (run s)"
proof -
  have "outcomeAll (tame s) (turn t)" if "tame s t" for t
    by (rule tame.turnLaw) (simp_all add: tame.anyKey that)
  then show ?thesis by (rule run_law) simp_all
qed

text \<open>C27 (invariant): a read-only session keeps its table, and of the disk changes no more than a dump does.
  Whatever keys arrive, the session ends with the table it read, not dirty, and the disk holds what it held at the start
  or what another process has put there, possibly overwritten by the text that dumps that table.\<close>

theorem read_only_session:
  assumes "newCfdiskSession opts w es rnd quote = Inr s" and "opt_read_only opts"
  shows "outcomeAll (\<lambda>s'. partitions s' = partitions s \<and> logical s' = logical s \<and> gpt s' = gpt s \<and>
           \<not> dirty s' \<and> w_disk (world s') \<in> overwritten (insert (w_disk w) (changedDisks es)) (dumpText s)) (run s)"
proof -
  have start: "options s = opts \<and> world s = w \<and> events s = es \<and> \<not> dirty s"
    using assms(1)
    by (auto simp: newCfdiskSession_def loadTable_def Let_def
        split: if_splits option.splits sum.splits prod.splits)
  have "outcomeAll (untouched s) (turn t)" if "untouched s t" for t
    by (rule untouched.turnLaw) (simp_all add: untouched.lockedKey that)
  moreover have "untouched s s"
    using start assms(2) by (simp add: untouched_def) (blast intro: overwritten.kept)
  ultimately have "outcomeAll (untouched s) (run s)" by (rule run_law)
  then show ?thesis using start by (cases "run s") (auto simp: untouched_def)
qed

section \<open>Panics\<close>

text \<open>The selection points at one of the four slots or at a row that is shown.\<close>

definition onScreen :: "cfdiskSession \<Rightarrow> bool" where
  "onScreen s \<longleftrightarrow> selected s < 4 \<or> selected s < length (partitionRows s)"

lemma rows_split:
  "partitionRows s = map RowPrimary [0 ..< 4] @ drop 4 (partitionRows s) \<and>
   (\<forall>r \<in> set (drop 4 (partitionRows s)). \<forall>i. r \<noteq> RowPrimary i)"
  by (auto simp: partitionRows_def split: option.splits sum.splits)

lemma primary_selected: "onScreen s \<Longrightarrow> selectedRow s = RowPrimary i \<Longrightarrow> selected s < 4"
proof (rule ccontr)
  assume a: "onScreen s" "selectedRow s = RowPrimary i" "\<not> selected s < 4"
  then have l: "selected s < length (partitionRows s)" by (simp add: onScreen_def)
  have "drop 4 (partitionRows s) ! (selected s - 4) \<in> set (drop 4 (partitionRows s))"
    using a(3) l by (intro nth_mem) simp
  then have "selectedRow s \<in> set (drop 4 (partitionRows s))"
    using a(3) l by (simp add: selectedRow_def Let_def)
  then show False using rows_split [of s] a(2) by blast
qed

lemma logical_in_range: "selectedRow s = RowLogical i \<Longrightarrow> i < length (logical s)"
proof -
  assume a: "selectedRow s = RowLogical i"
  have "0 < length (partitionRows s)" by (simp add: partitionRows_def)
  then have "selectedRow s \<in> set (partitionRows s)"
    unfolding selectedRow_def Let_def by (intro nth_mem) simp
  then show ?thesis by (auto simp: a partitionRows_def split: option.splits sum.splits)
qed

lemma logical_has_container: "selectedRow s = RowLogical i \<Longrightarrow> cfdiskFindExtended (partitions s) \<noteq> None"
proof
  assume a: "selectedRow s = RowLogical i" "cfdiskFindExtended (partitions s) = None"
  then have "selectedRow s = RowPrimary (if 4 \<le> selected s then 3 else selected s)"
    by (auto simp: selectedRow_def partitionRows_def Let_def)
  with a(1) show False by simp
qed

text \<open>Rules for showing that an outcome is not a panic.\<close>

definition calm :: "outcome \<Rightarrow> bool" where
  "calm out \<longleftrightarrow> out \<noteq> Panicked"

lemma calm_simps [simp]:
  "calm (Running s)" "calm (Finished s)" "calm (Failed s)" "\<not> calm Panicked" "calm (say m s)"
  by (simp_all add: calm_def say_def)

lemma calm_unless: "calm (k s) \<Longrightarrow> calm (unlessReadOnly a s k)"
  by (simp add: unlessReadOnly_def)

lemma calm_prompt: "(\<And>v w es. calm (k v (s\<lparr>world := w, events := es\<rparr>))) \<Longrightarrow> calm (withPrompt s k)"
  by (simp add: withPrompt_def Let_def split: prod.splits reply.splits)

lemma calm_selected: "selected s < 4 \<Longrightarrow> (\<And>p. calm (k p)) \<Longrightarrow> calm (withSelected s k)"
  by (simp add: withSelected_def)

lemma calm_logical: "i < length (logical s) \<Longrightarrow> (\<And>e. calm (k e)) \<Longrightarrow> calm (withLogical i s k)"
  by (simp add: withLogical_def)

lemma calm_entry: "calm k \<Longrightarrow> calm (unlessNoEntry s k)"
  by (simp add: unlessNoEntry_def withEntry_def Let_def)

lemma calm_if: "calm x \<Longrightarrow> calm y \<Longrightarrow> calm (if b then x else y)"
  by simp

lemmas calm_rules = calm_unless calm_prompt

lemma calm_newPrimary: "calm (newPrimaryPartition n s)"
  by (auto simp: newPrimaryPartition_def Let_def split: sum.splits option.splits intro!: calm_rules)

lemma calm_newLogical: "calm (newLogicalPartition s)"
  by (auto simp: newLogicalPartition_def addLogical_def Let_def split: sum.splits option.splits
      intro!: calm_rules)

lemma calm_newMbr: "onScreen s \<Longrightarrow> calm (newMbrPartition s)"
  by (auto simp: newMbrPartition_def primary_selected calm_newPrimary calm_newLogical
      split: cfdiskRow.splits option.splits intro!: calm_rules calm_selected)

lemma calm_deleteMbr: "onScreen s \<Longrightarrow> calm (deleteMbrPartition s)"
  by (auto simp: deleteMbrPartition_def deletePrimary_def primary_selected Let_def
      split: cfdiskRow.splits intro!: calm_rules calm_selected calm_logical logical_in_range)

lemma calm_resizeMbr:
  assumes "onScreen s" shows "calm (resizeMbrPartition s)"
proof (cases "selectedRow s")
  case (RowPrimary i)
  then show ?thesis using primary_selected [OF assms RowPrimary]
    by (auto simp: resizeMbrPartition_def resizePrimary_def applyResize_def Let_def
        split: option.splits intro!: calm_rules calm_selected)
next
  case (RowLogical i)
  then show ?thesis using logical_has_container [OF RowLogical] logical_in_range [OF RowLogical]
    by (auto simp: resizeMbrPartition_def resizeLogicalPartition_def applyLogicalResize_def Let_def
        split: option.splits intro!: calm_rules calm_logical)
qed (auto simp: resizeMbrPartition_def intro!: calm_rules)

lemma calm_typeMbr: "onScreen s \<Longrightarrow> calm (changeMbrType s)"
  by (auto simp: changeMbrType_def changeLogicalType_def applyLogicalType_def applyType_def
      primary_selected logical_in_range Let_def split: cfdiskRow.splits option.splits
      intro!: calm_rules calm_selected calm_logical)

lemma calm_toggleMbr: "onScreen s \<Longrightarrow> calm (toggleMbrBootable s)"
  by (auto simp: toggleMbrBootable_def primary_selected Let_def
      split: cfdiskRow.splits intro!: calm_rules calm_selected calm_logical logical_in_range)

lemma calm_writeTable: "calm (writeTable s)"
  by (simp add: writeTable_def Let_def split: prod.splits)

lemma calm_writeConfirmed: "calm (writeConfirmed s)"
  by (auto simp: writeConfirmed_def calm_writeTable split: option.splits sum.splits prod.splits)

lemma calm_writes: "calm (writePartitions s)"
  by (auto simp: writePartitions_def writeMbr_def writeGPT_def writeGPTConfirmed_def calm_writeConfirmed
      split: option.splits sum.splits prod.splits intro!: calm_rules)

lemma calm_newGPTAt: "calm (newGPTAt slot s)"
  by (auto simp: newGPTAt_def addGPT_def Let_def split: option.splits sum.splits intro!: calm_rules)

lemma calm_newGPT: "calm (newGPTPartition s)"
  by (auto simp: newGPTPartition_def withEntry_def calm_newGPTAt Let_def split: option.splits intro!: calm_rules)

text \<open>Past the check of the selected entry, its index is in range, also after a prompt.\<close>

lemma calm_entryPrompt:
  assumes "\<And>v w es. selected s < length (gt_parts (gpt s)) \<Longrightarrow> calm (k v (s\<lparr>world := w, events := es\<rparr>))"
  shows "calm (unlessNoEntry s (withPrompt s k))"
  using calm_prompt [of k s] assms by (simp add: unlessNoEntry_def withEntry_def Let_def)

lemma calm_gpt:
  "calm (deleteGPTPartition s)" "calm (resizeGPTPartition s)"
  "calm (sortGPTPartitions s)" "calm (changeGPTType s)"
proof -
  show "calm (deleteGPTPartition s)" "calm (sortGPTPartitions s)"
    by (auto simp: deleteGPTPartition_def sortGPTPartitions_def Let_def intro!: calm_unless calm_entry)
  show "calm (resizeGPTPartition s)" "calm (changeGPTType s)"
    by (auto simp: resizeGPTPartition_def applyGPTResize_def changeGPTType_def withEntry_def Let_def
        split: option.splits intro!: calm_unless calm_entryPrompt)
qed

lemma calm_sortMbr: "calm (sortMbrPartitions s)"
  by (auto simp: sortMbrPartitions_def Let_def intro!: calm_rules calm_selected)

lemma calm_quit: "calm (quit s)"
  by (auto simp: quit_def intro!: calm_rules)

lemma calm_dump: "calm (dump s)"
  by (auto simp: dump_def writeDump_def Let_def split: lstat.splits prod.splits intro!: calm_rules)

lemma calm_startLabel: "onLabels s \<Longrightarrow> calm (startLabel s)"
  by (auto simp: startLabel_def onLabels_def Let_def split: label_kind.splits sum.splits prod.splits
      intro!: calm_rules)

lemmas calm_handlers = calm_newMbr calm_deleteMbr calm_resizeMbr calm_typeMbr calm_toggleMbr
  calm_writes calm_newGPT calm_gpt calm_sortMbr calm_quit calm_dump calm_startLabel

lemma onScreen_menu [simp]: "onScreen (s\<lparr>menuSelected := n\<rparr>) = onScreen s"
  by (simp add: onScreen_def partitionRows_def cong: option.case_cong)

lemma calm_label: "onLabels s \<Longrightarrow> calm (handleLabelSelectorKey key s)"
  unfolding handleLabelSelectorKey_def
  by (intro calm_if calm_simps calm_startLabel)

lemma calm_key:
  assumes "onLabels s" "labelType s = LabelGPT \<or> onScreen s" shows "calm (handleKey key s)"
proof -
  have rows: "calm (newPartition s)" "calm (deletePartition s)" "calm (resizePartition s)" "calm (sortPartitions s)"
      "calm (changeType s)" "calm (toggleBootable s)"
    if "labelType s = LabelGPT \<or> onScreen s" for s
    using that by (auto simp: newPartition_def deletePartition_def resizePartition_def sortPartitions_def changeType_def
        toggleBootable_def calm_handlers)
  have "calm (activateMenu s)"
    using assms(2) by (auto simp: activateMenu_def Let_def rows calm_handlers not_le cfdiskMenuItems_def
        split: menu_action.splits)
  then show ?thesis
    unfolding handleKey_def
    by (intro calm_if calm_simps calm_handlers calm_label assms rows)
qed

text \<open>The states a session passes through.\<close>

inductive reaches :: "cfdiskSession \<Rightarrow> cfdiskSession \<Rightarrow> bool" where
  stay: "reaches s s"
| turned: "turn s = Running t \<Longrightarrow> reaches t u \<Longrightarrow> reaches s u"

lemma panic_reached: "run s = Panicked \<Longrightarrow> \<exists>t. reaches s t \<and> turn t = Panicked"
proof (induction s rule: run.induct)
  case (1 s)
  then show ?case
    by (subst (asm) (2) run.simps) (auto split: outcome.splits intro: reaches.intros)
qed

lemma reached_onLabels: "reaches s t \<Longrightarrow> onLabels s \<Longrightarrow> onLabels t"
proof (induction rule: reaches.induct)
  case (turned s t u)
  have "outcomeAll onLabels (turn s)"
    by (rule labels.turnLaw) (simp_all add: labels.anyKey turned.prems)
  with turned show ?case by simp
qed

text \<open>C36 (safety): a session in which the selection stays on the screen - it points at one of the four slots or at a row
  that is shown, or the table is a GPT - never panics, whatever keys arrive.  Every index into the slots, the logical
  partitions, the entries of a GPT, the label types and the menu is then in range.\<close>

theorem no_panic_on_screen:
  assumes "newCfdiskSession opts w es rnd quote = Inr s"
    and "\<And>t. reaches s t \<Longrightarrow>
      labelType t = LabelGPT \<or> selected t < 4 \<or> selected t < length (partitionRows t)"
  shows "run s \<noteq> Panicked"
proof
  assume "run s = Panicked"
  then obtain t where t: "reaches s t" "turn t = Panicked" using panic_reached by blast
  then obtain key es where k: "events t = Key key # es" "handleKey key (t\<lparr>events := es\<rparr>) = Panicked"
    by (auto simp: turn_def split: list.splits event.splits)
  have "onLabels s"
    using assms(1) by (auto simp: newCfdiskSession_def loadTable_def Let_def onLabels_def cfdiskLabelTypes_def
        split: if_splits option.splits sum.splits prod.splits)
  then have "onLabels (t\<lparr>events := es\<rparr>)" using reached_onLabels [OF t(1)] by (simp add: onLabels_def)
  moreover have "partitionRows (t\<lparr>events := es\<rparr>) = partitionRows t"
    by (simp add: partitionRows_def cong: option.case_cong)
  ultimately have "calm (handleKey key (t\<lparr>events := es\<rparr>))"
    using assms(2) [OF t(1)] by (intro calm_key) (auto simp: onScreen_def)
  with k show False by simp
qed

text \<open>C37: deleting twice can panic.  When the only logical partition is selected and its container is
  too small for an aligned one, deleting it removes its row and leaves the selection beyond the
  last row; deleting again indexes the four slots with it.\<close>

theorem second_delete_panics:
  assumes "\<not> opt_read_only (options s)" "labelType s = LabelDOS" "selected s = 4" "logical s = [e]"
    and "cfdiskFindExtended (partitions s) = Some i"
    and "cfdiskSuggestedLogicalRegion (partitions s ! i) [] = Inl err"
  shows "\<exists>s'. deletePartition s = Running s' \<and> logical s' = [] \<and> deletePartition s' = Panicked"
proof -
  define s' where "s' = s\<lparr>logical := [], dirty := True,
      message := Info ''Deleted logical partition %d in memory'' [5]\<rparr>"
  have upt4: "[0 ..< 4] = [0, 1, 2, 3 :: nat]" by (simp add: upt_rec)
  have "selectedRow s = RowLogical 0"
    using assms by (auto simp: selectedRow_def partitionRows_def Let_def upt4 split: sum.splits)
  then have 1: "deletePartition s = Running s'"
    using assms by (simp add: deletePartition_def deleteMbrPartition_def unlessReadOnly_def say_def
        withLogical_def deleteAt_def s'_def)
  have "selectedRow s' = RowPrimary 3"
    using assms by (simp add: selectedRow_def partitionRows_def Let_def upt4 s'_def)
  then have "deletePartition s' = Panicked"
    using assms by (simp add: deletePartition_def deleteMbrPartition_def unlessReadOnly_def
        deletePrimary_def withSelected_def s'_def)
  with 1 show ?thesis by (auto simp: s'_def)
qed

section \<open>Writes that the checks do not cover\<close>

definition typed :: "string \<Rightarrow> event list" where
  "typed answer = map (\<lambda>c. Key (ord c)) answer @ [Key 13]"

definition printable :: "string \<Rightarrow> bool" where
  "printable answer \<longleftrightarrow> length answer \<le> 64 \<and> list_all (\<lambda>c. 32 \<le> ord c \<and> ord c < 127) answer"

lemma promptLoop_typed:
  "list_all (\<lambda>c. 32 \<le> ord c \<and> ord c < 127) answer \<Longrightarrow> length input + length answer \<le> 64 \<Longrightarrow>
   promptLoop input w (typed answer @ es) = (Answer (input @ answer), w, es)"
proof (induction answer arbitrary: input)
  case (Cons c answer)
  then show ?case using Cons.IH [of "input @ [c]"] by (auto simp: typed_def)
qed (simp add: typed_def)

lemma prompt_typed:
  "printable answer \<Longrightarrow> events s = typed answer @ es \<Longrightarrow>
   withPrompt s k = k answer (s\<lparr>events := es\<rparr>)"
  using promptLoop_typed [of answer "''''" "world s" es] by (simp add: printable_def withPrompt_def)

lemma printable_yes: "printable ''yes''" and confirmed_yes: "confirmed ''yes''"
  by code_simp+

lemma dump_bytes:
  assumes "\<not> dev_noopen d" "dev_short d 0 = None"
    and "i < length content" "dev_file d \<or> i < dev_size d"
  shows "dev_byte (fst (writeCfdiskDump d content)) i = word_of_nat (ord (content ! i))"
  using assms by (auto simp: writeCfdiskDump_def writeAt_def putAt_def Let_def)

lemma dumpText_events: "dumpText (s\<lparr>events := es\<rparr>) = dumpText s"
  by (simp add: dumpText_def)

text \<open>C28 (error): read-only mode does not protect the disk from a dump.  In a session opened with
  \<open>--read-only\<close> the key \<open>u\<close>, a path that leads to the disk and \<open>yes\<close> replace the beginning of the disk, partition
  table included, by the text of the dump: \<open>dump\<close> has no read-only guard and does not compare the path with the disk.\<close>

theorem read_only_dump_overwrites:
  assumes "opt_read_only (options s)" "\<not> helpScreen s" "\<not> labelSelector s"
    and "printable path" "path \<noteq> []" "trimSpace path = path"
    and "w_at (world s) path = OpenDisk" "w_lstat (world s) path = LExists"
    and "\<not> dev_noopen (w_disk (world s))" "dev_short (w_disk (world s)) 0 = None"
    and "events s = typed path @ typed ''yes'' @ es"
  shows "\<exists>s'. handleKey (ord CHR ''u'') s = Running s' \<and> events s' = es \<and>
    (\<forall>i < length (dumpText s). dev_file (w_disk (world s)) \<or> i < dev_size (w_disk (world s)) \<longrightarrow>
       dev_byte (w_disk (world s')) i = word_of_nat (ord (dumpText s ! i)))"
proof -
  obtain d ok where w: "writeCfdiskDump (w_disk (world s)) (dumpText s) = (d, ok)" by (rule prod.exhaust)
  have "(ord CHR ''u'', ord CHR ''?'', ord CHR ''h'', ord CHR ''H'', ord CHR ''k'', ord CHR ''j'') = (117, 63, 104, 72, 107, 106)"
    and "map ord ''nNdDrRsStTbBU'' = [110, 78, 100, 68, 114, 82, 115, 83, 116, 84, 98, 66, 85]" by code_simp+
  then have "handleKey (ord CHR ''u'') s = dump s" using assms(2,3) by (simp add: handleKey_def)
  also have "\<dots> = writeDump path (s\<lparr>events := es\<rparr>)"
    using assms by (simp add: dump_def prompt_typed [OF assms(4,11)] prompt_typed [OF printable_yes] confirmed_yes)
  also have "\<dots> = say (if \<not> ok then Info ''Dump failed: '' []
      else Quoted (if labelType s = LabelGPT then ''Wrote GPT sfdisk-style dump to '' else ''Wrote sfdisk-compatible dump to '') path)
      (s\<lparr>events := es, world := dumpedTo path d (world s)\<rparr>)"
    using w assms(7) by (simp add: writeDump_def deviceAt_def dumpText_events)
  finally show ?thesis
    using dump_bytes [OF assms(9,10), of _ "dumpText s"] w assms(7)
    by (auto simp: say_def dumpedTo_def storeAt_def Let_def)
qed

text \<open>C29 (error): the checks before a write look at the disk that is open, the write opens the path again.
  When the path leads elsewhere by then, a session whose checks all pass writes its table over the first sector of that
  other device, whatever was there, reports success and counts its changes as saved; the disk it was to edit is left
  as it was.\<close>

theorem write_follows_the_path:
  assumes "\<not> opt_read_only (options s)" "dirty s" "labelType s = LabelDOS"
    and "mbrProblem s = None" "verifyMbrTarget s = None" "cfdiskFindExtended (partitions s) = None"
    and "w_at (world s) (opt_device (options s)) = Elsewhere d"
    and "\<not> dev_noopen d" "dev_short d 0 = None" "\<not> dev_nosync d" "\<not> dev_noclose d"
    and "events s = typed ''yes'' @ es" "length (partitions s) = 4"
  shows "\<exists>s'. writePartitions s = Running s' \<and> \<not> dirty s' \<and> w_disk (world s') = w_disk (world s) \<and>
    w_at (world s') (opt_device (options s)) = Elsewhere (putAt d 0 (cfdiskBuildMBR (sector s) (partitions s)))"
proof -
  let ?s = "s\<lparr>events := es\<rparr>"
  have checks: "verifyMbrTarget ?s = None" "cfdiskFindExtended (partitions ?s) = None"
    using assms(5,6) by (simp_all add: verifyMbrTarget_def cong: option.case_cong if_cong)
  have len: "length (cfdiskBuildMBR (sector s) (partitions s)) = 512" using assms(13) by simp
  have "writePartitions s = writeTable ?s"
    using assms checks by (simp add: writePartitions_def writeMbr_def unlessReadOnly_def
        prompt_typed [OF printable_yes assms(12)] confirmed_yes writeConfirmed_def)
  also have "\<exists>s'. \<dots> = Running s' \<and> \<not> dirty s' \<and> w_disk (world s') = w_disk (world s) \<and>
      w_at (world s') (opt_device (options s)) = Elsewhere (putAt d 0 (cfdiskBuildMBR (sector s) (partitions s)))"
    using assms(7-11) len by (simp add: writeTable_def target_def deviceAt_def writeCfdiskMBR_def writeAt_def say_def
        setDisk_def storeAt_def Let_def)
  finally show ?thesis .
qed

section \<open>Example sessions\<close>

definition exampleWorld :: world where
  "exampleWorld = \<lparr>w_disk = zeroDisk (128 * 512),
     w_at = (\<lambda>path. if path = ''/dev/sda'' then OpenDisk else Elsewhere ((zeroDisk 0)\<lparr>dev_file := True\<rparr>)), w_opens = True, w_locks = True,
     w_size = Some (128 * 512), w_in_use = Some False, w_lstat = (\<lambda>path. if path = ''/dev/sda'' then LExists else LMissing)\<rparr>"

definition exampleOptions :: "bool \<Rightarrow> cfdiskOptions" where
  "exampleOptions ro = \<lparr>opt_device = ''/dev/sda'', opt_read_only = ro, opt_zero = False,
     opt_lock = True, opt_lock_nb = False, opt_sector_size = 512, opt_color = ColorAuto,
     opt_help = False, opt_version = False\<rparr>"

definition exampleSession :: "mbrPartition list \<Rightarrow> cfdiskLogical list \<Rightarrow> nat \<Rightarrow> event list \<Rightarrow> cfdiskSession" where
  "exampleSession ps ls row es =
     \<lparr>world = exampleWorld, events = es, random = (\<lambda>_. replicate 16 1), draws = 0, quoted = (\<lambda>_. []),
      options = exampleOptions False, fileOpen = True, diskBytes = 128 * 512, diskSectors = 128,
      sector = replicate 512 0, partitions = ps, logical = ls, labelType = LabelDOS,
      gpt = emptyGPTTable, gptOriginal = emptyRawState, selected = row, menuSelected = 0,
      labelSelected = 0, dirty = False, helpScreen = False, labelSelector = False, extra = False,
      message = Info [] []\<rparr>"

theorem second_delete_panics_witness:
  "\<exists>s'. deletePartition (exampleSession
          [\<lparr>part_start = 2, part_size = 100, part_kind = 5, part_bootable = False\<rparr>,
           noPartition, noPartition, noPartition]
          [\<lparr>log_part = \<lparr>part_start = 3, part_size = 99, part_kind = 0x83, part_bootable = False\<rparr>,
            log_ebr = 2\<rparr>] 4 []) = Running s' \<and>
        logical s' = [] \<and> deletePartition s' = Panicked"
proof (rule second_delete_panics)
  have f: "cfdiskLogicalFreeRegions \<lparr>part_start = 2, part_size = 100, part_kind = 5, part_bootable = False\<rparr> [] =
      [\<lparr>region_start = 2, region_size = 100\<rparr>]"
    by (simp add: cfdiskLogicalFreeRegions_def gapsUpTo_def u64of_def partEnd_def)
  show "cfdiskSuggestedLogicalRegion (partitions (exampleSession
          [\<lparr>part_start = 2, part_size = 100, part_kind = 5, part_bootable = False\<rparr>,
           noPartition, noPartition, noPartition]
          [\<lparr>log_part = \<lparr>part_start = 3, part_size = 99, part_kind = 0x83, part_bootable = False\<rparr>,
            log_ebr = 2\<rparr>] 4 []) ! 0) [] = Inl NoSpaceInside"
    by (simp add: exampleSession_def cfdiskSuggestedLogicalRegion_def f logicalCandidate_def
        align1MiB_def Let_def)
qed (simp_all add: exampleSession_def exampleOptions_def cfdiskFindExtended_def cfdiskExtendedType_def)

lemma zeroSector: "readSector (zeroDisk 65536) 0 = Some (replicate 512 0)"
  by (simp add: readSector_def readAt_def zeroDisk_def map_replicate_const)

lemma exampleOpens:
  obtains s where "newCfdiskSession (exampleOptions ro) exampleWorld es (\<lambda>_. []) (\<lambda>_. []) = Inr s"
  by (simp add: newCfdiskSession_def loadTable_def exampleWorld_def exampleOptions_def zeroSector
      maxSignedOffset_def cfdiskHasProtectiveGPT_def Let_def)

theorem read_only_session_witness:
  "\<exists>s. newCfdiskSession (exampleOptions True) exampleWorld [Key 13, Change exampleWorld, Key 3] (\<lambda>_. []) (\<lambda>_. []) = Inr s \<and>
     outcomeAll (\<lambda>s'. w_disk (world s') \<in> overwritten {zeroDisk (128 * 512)} (dumpText s)) (run s)"
proof -
  let ?es = "[Key 13, Change exampleWorld, Key 3]"
  obtain s where s: "newCfdiskSession (exampleOptions True) exampleWorld ?es (\<lambda>_. []) (\<lambda>_. []) = Inr s"
    by (rule exampleOpens)
  have D: "insert (w_disk exampleWorld) (changedDisks ?es) = {zeroDisk (128 * 512)}"
    by (auto simp: changedDisks_def exampleWorld_def)
  show ?thesis
    using read_only_session [OF s, unfolded D] s by (cases "run s") (auto simp: exampleOptions_def)
qed

theorem no_panic_on_screen_witness:
  "\<exists>s. newCfdiskSession (exampleOptions False) exampleWorld [Key 1001] (\<lambda>_. []) (\<lambda>_. []) = Inr s \<and> run s \<noteq> Panicked"
proof -
  obtain s where s: "newCfdiskSession (exampleOptions False) exampleWorld [Key 1001] (\<lambda>_. []) (\<lambda>_. []) = Inr s"
    by (rule exampleOpens)
  then have start: "selected s = 0" "events s = [Key 1001]" "labelSelector s" "\<not> helpScreen s" "labelSelected s = 0"
    by (auto simp: newCfdiskSession_def loadTable_def exampleWorld_def exampleOptions_def zeroSector
        maxSignedOffset_def cfdiskHasProtectiveGPT_def Let_def)
  have code: "ord CHR ''k'' = 107" by code_simp
  have "selected t < 4" if "reaches s t" for t
    using that
  proof (cases rule: reaches.cases)
    case (turned u)
    then have u: "u = s\<lparr>events := [], labelSelected := 1, message := Info [] []\<rparr>"
      using start code by (simp add: turn_def handleKey_def handleLabelSelectorKey_def say_def cfdiskLabelTypes_def)
    have "turn u \<noteq> Running v" for v by (simp add: turn_def u)
    with turned(2) have "t = u" by (cases rule: reaches.cases) auto
    then show ?thesis using start u by simp
  qed (use start in simp)
  then have "run s \<noteq> Panicked" using no_panic_on_screen [OF s] by blast
  with s show ?thesis by blast
qed

theorem read_only_dump_overwrites_witness:
  "\<exists>s'. handleKey (ord CHR ''u'')
      ((exampleSession exampleTable [] 0 (typed ''/dev/sda'' @ typed ''yes''))\<lparr>options := exampleOptions True\<rparr>) = Running s' \<and>
     dev_byte (w_disk (world s')) 0 = word_of_nat (ord CHR ''l'')"
proof -
  let ?s = "(exampleSession exampleTable [] 0 (typed ''/dev/sda'' @ typed ''yes'' @ []))\<lparr>options := exampleOptions True\<rparr>"
  have text0: "dumpText ?s ! 0 = CHR ''l''" "0 < length (dumpText ?s)"
    by (simp_all add: dumpText_def exampleSession_def cfdiskDump_def)
  have "printable ''/dev/sda''" "trimSpace ''/dev/sda'' = ''/dev/sda''" by code_simp+
  then have "\<exists>s'. handleKey (ord CHR ''u'') ?s = Running s' \<and> events s' = [] \<and>
    (\<forall>i < length (dumpText ?s). dev_file (w_disk (world ?s)) \<or> i < dev_size (w_disk (world ?s)) \<longrightarrow>
       dev_byte (w_disk (world s')) i = word_of_nat (ord (dumpText ?s ! i)))"
    by (intro read_only_dump_overwrites [of ?s "''/dev/sda''" "[]"])
      (simp_all add: exampleSession_def exampleWorld_def exampleOptions_def zeroDisk_def)
  moreover have "dev_size (w_disk (world ?s)) = 128 * 512"
    by (simp add: exampleSession_def exampleWorld_def zeroDisk_def)
  ultimately show ?thesis using text0 by (metis append_Nil2 less_numeral_extra(1) mult_pos_pos zero_less_numeral)
qed

theorem write_follows_the_path_witness:
  "\<exists>s'. writePartitions ((exampleSession exampleTable [] 0 (typed ''yes''))
       \<lparr>dirty := True, diskSectors := 16384, world := exampleWorld\<lparr>w_at := (\<lambda>_. Elsewhere (zeroDisk 512))\<rparr>\<rparr>) = Running s' \<and>
     \<not> dirty s' \<and> w_disk (world s') = w_disk exampleWorld"
proof -
  let ?s = "(exampleSession exampleTable [] 0 (typed ''yes'' @ []))
    \<lparr>dirty := True, diskSectors := 16384, world := exampleWorld\<lparr>w_at := (\<lambda>_. Elsewhere (zeroDisk 512))\<rparr>\<rparr>"
  have ext: "cfdiskFindExtended exampleTable = None" by code_simp
  have "mbrProblem ?s = None"
    using exampleTable_valid ext by (simp add: mbrProblem_def exampleSession_def)
  moreover have "verifyMbrTarget ?s = None"
    using zeroSector by (simp add: verifyMbrTarget_def exampleSession_def exampleWorld_def)
  moreover have "length (partitions ?s) = 4" by (simp add: exampleSession_def exampleTable_def)
  ultimately have "\<exists>s'. writePartitions ?s = Running s' \<and> \<not> dirty s' \<and> w_disk (world s') = w_disk (world ?s) \<and>
      w_at (world s') (opt_device (options ?s)) = Elsewhere (putAt (zeroDisk 512) 0 (cfdiskBuildMBR (sector ?s) (partitions ?s)))"
    by (intro write_follows_the_path; (assumption | simp add: exampleSession_def exampleOptions_def zeroDisk_def ext))
  then show ?thesis by auto
qed

end
