(* ===== verification/TextIO.thy ===== *)
theory TextIO
  imports GoLib
begin

text \<open>
  What the text tools share: UTF-8 as Go reads and writes it, splitting at a separator, the line
  scanner of \<open>util.go\<close>, and the input and output of a command.

  A file is its content and whether reading it ends without an error.  Standard input is consumed
  by the first command operand that reads it.  A command ends with what it wrote to standard output
  and its exit status, or the program panics.  Diagnostics on standard error are not modelled; the
  status tells whether there were any.
\<close>

section \<open>UTF-8\<close>

text \<open>
  \<open>utf8.DecodeRuneInString\<close> on a non-empty string: the code point and the number of bytes it takes.
  A byte that starts no well-formed sequence is the replacement character and takes one byte.
\<close>

definition runeError :: nat where
  "runeError = 0xFFFD"

definition contByte :: "nat \<Rightarrow> nat \<Rightarrow> char \<Rightarrow> bool" where
  "contByte lo hi c \<longleftrightarrow> lo \<le> ord c \<and> ord c \<le> hi"

text \<open>The length of the sequence a first byte announces and the range of its second byte.\<close>

definition leadByte :: "char \<Rightarrow> (nat \<times> nat \<times> nat) option" where
  "leadByte c =
     (let b = ord c in
      if 0xC2 \<le> b \<and> b \<le> 0xDF then Some (2, 0x80, 0xBF)
      else if b = 0xE0 then Some (3, 0xA0, 0xBF)
      else if b = 0xED then Some (3, 0x80, 0x9F)
      else if 0xE1 \<le> b \<and> b \<le> 0xEF then Some (3, 0x80, 0xBF)
      else if b = 0xF0 then Some (4, 0x90, 0xBF)
      else if 0xF1 \<le> b \<and> b \<le> 0xF3 then Some (4, 0x80, 0xBF)
      else if b = 0xF4 then Some (4, 0x80, 0x8F)
      else None)"

definition cont6 :: "char \<Rightarrow> nat" where
  "cont6 c = ord c mod 64"

fun decodeRune :: "string \<Rightarrow> nat \<times> nat" where
  "decodeRune [] = (runeError, 0)"
| "decodeRune (a # s) =
     (if ord a < 0x80 then (ord a, 1)
      else (case leadByte a of
              None \<Rightarrow> (runeError, 1)
            | Some (n, lo, hi) \<Rightarrow>
                (case s of
                   b # s2 \<Rightarrow>
                     if \<not> contByte lo hi b then (runeError, 1)
                     else if n = 2 then ((ord a mod 32) * 64 + cont6 b, 2)
                     else (case s2 of
                             c # s3 \<Rightarrow>
                               if \<not> contByte 0x80 0xBF c then (runeError, 1)
                               else if n = 3 then ((ord a mod 16) * 4096 + cont6 b * 64 + cont6 c, 3)
                               else (case s3 of
                                       d # _ \<Rightarrow>
                                         if \<not> contByte 0x80 0xBF d then (runeError, 1)
                                         else ((ord a mod 8) * 262144 + cont6 b * 4096 + cont6 c * 64 + cont6 d, 4)
                                     | [] \<Rightarrow> (runeError, 1))
                           | [] \<Rightarrow> (runeError, 1))
                 | [] \<Rightarrow> (runeError, 1))))"

lemma decodeRune_size: "s \<noteq> [] \<Longrightarrow> 0 < snd (decodeRune s) \<and> snd (decodeRune s) \<le> length s"
proof (induction s rule: decodeRune.induct)
  case (2 a s)
  show ?case by (simp split: option.split prod.split list.split)
qed simp

text \<open>Ranging over a string: each code point with the bytes it was read from.\<close>

lemma decodeRune_drop: "s \<noteq> [] \<Longrightarrow> length (drop (snd (decodeRune s)) s) < length s"
  using decodeRune_size [of s] by simp

function runesOf :: "string \<Rightarrow> (nat \<times> string) list" where
  "runesOf s =
     (if s = [] then []
      else (fst (decodeRune s), take (snd (decodeRune s)) s) # runesOf (drop (snd (decodeRune s)) s))"
  by pat_completeness auto
termination
  by (relation "measure length") (auto simp: decodeRune_drop simp del: length_drop)

declare runesOf.simps [simp del]

text \<open>\<open>utf8.RuneLen\<close> and the conversion of a code point to a string; what is no scalar value
  becomes the replacement character.\<close>

definition runeLen :: "nat \<Rightarrow> nat" where
  "runeLen r = (if r < 0x80 then 1 else if r < 0x800 then 2 else if r < 0x10000 then 3 else 4)"

definition utf8Encode :: "nat \<Rightarrow> string" where
  "utf8Encode r0 =
     (let r = (if r0 < 0xD800 \<or> (0xDFFF < r0 \<and> r0 < 0x110000) then r0 else runeError) in
      if r < 0x80 then [chr r]
      else if r < 0x800 then [chr (0xC0 + r div 64), chr (0x80 + r mod 64)]
      else if r < 0x10000
      then [chr (0xE0 + r div 4096), chr (0x80 + r div 64 mod 64), chr (0x80 + r mod 64)]
      else [chr (0xF0 + r div 262144), chr (0x80 + r div 4096 mod 64), chr (0x80 + r div 64 mod 64),
            chr (0x80 + r mod 64)])"

lemma runesOf_concat: "concat (map snd (runesOf s)) = s"
proof (induction s rule: runesOf.induct)
  case (1 s)
  show ?case
  proof (cases "s = []")
    case False
    with 1 show ?thesis by (subst runesOf.simps) simp
  qed (simp add: runesOf.simps)
qed

text \<open>On ASCII text the code points are the bytes.\<close>

lemma runesOf_ascii: "\<forall>c \<in> set s. ord c < 0x80 \<Longrightarrow> runesOf s = map (\<lambda>c. (ord c, [c])) s"
proof (induction s)
  case (Cons a s)
  then show ?case by (subst runesOf.simps) simp
qed (simp add: runesOf.simps)

text \<open>A scalar value survives encoding and decoding, whatever follows it.\<close>

lemma lead_mod:
  "q < 32 \<Longrightarrow> (192 + q) mod 32 = (q :: nat)" "q < 16 \<Longrightarrow> (224 + q) mod 16 = (q :: nat)"
  "q < 8 \<Longrightarrow> (240 + q) mod 8 = (q :: nat)" "q < 64 \<Longrightarrow> (128 + q) mod 64 = (q :: nat)"
  using mod_add_self2 [of q 32] by (simp_all add: mod_if)

lemma decode_utf8:
  assumes "r < 0xD800 \<or> (0xDFFF < r \<and> r < 0x110000)"
  shows "decodeRune (utf8Encode r @ s) = (r, length (utf8Encode r))"
proof -
  define q where "q = r div 64"
  define w where "w = q div 64"
  have r: "r = 64 * q + r mod 64" and q: "q = 64 * w + q mod 64" and w: "w = 64 * (w div 64) + w mod 64"
    by (simp_all add: q_def w_def)
  have lt: "r mod 64 < 64" "q mod 64 < 64" "w mod 64 < 64"
    and le: "r mod 64 \<le> 63" "q mod 64 \<le> 63" "w mod 64 \<le> 63" by simp_all
  have d: "r div 4096 = w" "r div 262144 = w div 64"
    by (simp_all add: q_def w_def div_mult2_eq [symmetric])
  consider "r < 0x80" | "0x80 \<le> r" "r < 0x800" | "0x800 \<le> r" "r < 0x10000" | "0x10000 \<le> r" by linarith
  then show ?thesis
  proof cases
    case 1 then show ?thesis by (simp add: utf8Encode_def)
  next
    case 2
    then have "q < 32" "2 \<le> q" using r lt by linarith+
    then show ?thesis using 2 lt r
      by (simp add: utf8Encode_def leadByte_def contByte_def cont6_def Let_def lead_mod q_def [symmetric])
  next
    case 3
    then have "w < 16" "w = 0 \<longrightarrow> 32 \<le> q" "w = 0 \<longrightarrow> 32 \<le> q mod 64" "w = 13 \<longrightarrow> q mod 64 < 32"
      using assms r q lt by linarith+
    then show ?thesis using 3 le r q assms
      by (cases "w = 0"; cases "w = 13")
        (simp_all add: utf8Encode_def leadByte_def contByte_def cont6_def Let_def lead_mod d
          q_def [symmetric])
  next
    case 4
    then have "w div 64 \<noteq> 0 \<or> 16 \<le> w mod 64" "w div 64 = 4 \<longrightarrow> w mod 64 < 16" "w div 64 \<le> 4"
      and sum: "w div 64 * 262144 + w mod 64 * 4096 + q mod 64 * 64 + r mod 64 = r"
      using assms r q w lt by linarith+
    moreover have "\<not> r < 0xD800" "0xDFFF < r \<and> r < 0x110000" "\<not> r < 0x10000" "\<not> r < 0x80" "\<not> r < 0x800"
      using assms 4 by linarith+
    ultimately show ?thesis
      by (cases "w div 64 = 0"; cases "w div 64 = 4")
        (simp_all add: utf8Encode_def leadByte_def contByte_def cont6_def Let_def lead_mod d le
          q_def [symmetric] w_def [symmetric])
  qed
qed

section \<open>Searching and splitting\<close>

fun indexString :: "string \<Rightarrow> string \<Rightarrow> nat option" where
  "indexString [] sub = (if sub = [] then Some 0 else None)"
| "indexString (c # s) sub =
     (if hasPrefix (c # s) sub then Some 0 else map_option Suc (indexString s sub))"

lemma indexString_bound: "indexString s sub = Some i \<Longrightarrow> i + length sub \<le> length s"
proof (induction s arbitrary: i)
  case (Cons c s)
  then show ?case
  proof (cases "hasPrefix (c # s) sub")
    case True
    then have "length sub \<le> length (c # s)"
      by (metis hasPrefix_def length_take min.absorb_iff2)
    with True Cons.prems show ?thesis by simp
  qed (auto simp: Cons.IH)
qed (auto split: if_splits)

text \<open>\<open>strings.Split\<close> at a separator that is not empty.\<close>

function splitOn :: "string \<Rightarrow> string \<Rightarrow> string list" where
  "splitOn sep s =
     (if sep = [] then map (\<lambda>c. [c]) s
      else (case indexString s sep of
              None \<Rightarrow> [s]
            | Some i \<Rightarrow> take i s # splitOn sep (drop (i + length sep) s)))"
  by pat_completeness auto
termination
  by (relation "measure (\<lambda>(sep, s). length s)") (auto dest!: indexString_bound simp flip: length_greater_0_conv)

declare splitOn.simps [simp del]

section \<open>Go integers\<close>

text \<open>The value of a Go \<open>int\<close>, which wraps around at 64 bits.\<close>

definition goInt :: "int \<Rightarrow> int" where
  "goInt z = (z + 2 ^ 63) mod 2 ^ 64 - 2 ^ 63"

definition maxInt :: int where
  "maxInt = 2 ^ 63 - 1"

lemma goInt_id: "- (2 ^ 63) \<le> z \<Longrightarrow> z \<le> maxInt \<Longrightarrow> goInt z = z"
  by (simp add: goInt_def maxInt_def)

text \<open>\<open>xs[lo:hi]\<close>; out of range it panics.\<close>

definition goSlice :: "'a list \<Rightarrow> int \<Rightarrow> int \<Rightarrow> 'a list option" where
  "goSlice xs lo hi =
     (if 0 \<le> lo \<and> lo \<le> hi \<and> hi \<le> int (length xs)
      then Some (take (nat hi - nat lo) (drop (nat lo) xs)) else None)"

section \<open>Bytes in octal\<close>

definition backslash :: char where
  "backslash = chr 92"

lemma octal_digits:
  "ord c div 64 < 8" "ord c div 8 mod 8 < 8" "ord c mod 8 < 8"
  "ord c div 64 * 64 + ord c div 8 mod 8 * 8 + ord c mod 8 = ord c"
proof -
  show "ord c div 64 < 8" "ord c div 8 mod 8 < 8" "ord c mod 8 < 8"
    using ord_less_256 [of c] by (auto intro!: less_mult_imp_div_less simp del: ord_less_256)
  have "ord c div 64 = ord c div 8 div 8" by (simp add: div_mult2_eq [symmetric])
  then show "ord c div 64 * 64 + ord c div 8 mod 8 * 8 + ord c mod 8 = ord c"
    using div_mult_mod_eq [of "ord c" 8] div_mult_mod_eq [of "ord c div 8" 8] by linarith
qed

section \<open>Input and output\<close>

type_synonym input = "string \<times> bool"

record sys =
  sys_stdin :: input
  sys_file :: "string \<Rightarrow> input option"
  sys_out_ok :: bool

datatype cmd_result = Exit string nat | Crash

definition openInput :: "sys \<Rightarrow> string \<Rightarrow> input option \<times> sys" where
  "openInput sys path =
     (if path = ''-'' then (Some (sys_stdin sys), sys\<lparr>sys_stdin := ('''', True)\<rparr>)
      else (sys_file sys path, sys))"

text \<open>The line scanner: records end at a newline or a NUL byte.  A record that does not fit the buffer
  with its separator stops the scan with an error.  Lines lose a carriage return before the newline,
  as \<open>bufio.ScanLines\<close> has it.\<close>

definition maxScanLine :: nat where
  "maxScanLine = 64 * 1024 * 1024"

fun scanLoop :: "char \<Rightarrow> string \<Rightarrow> string \<Rightarrow> string list \<times> bool" where
  "scanLoop sep acc [] =
     (if acc = [] then ([], True)
      else if maxScanLine \<le> length acc then ([], False)
      else ([acc], True))"
| "scanLoop sep acc (c # s) =
     (if c = sep then
        (if maxScanLine \<le> length acc then ([], False)
         else (acc # fst (scanLoop sep [] s), snd (scanLoop sep [] s)))
      else scanLoop sep (acc @ [c]) s)"

definition dropCR :: "string \<Rightarrow> string" where
  "dropCR line = (if line \<noteq> [] \<and> last line = chr 13 then butlast line else line)"

definition newLine :: char where
  "newLine = chr 10"

definition nulByte :: char where
  "nulByte = chr 0"

definition scanLines :: "string \<Rightarrow> string list \<times> bool" where
  "scanLines text = (map dropCR (fst (scanLoop newLine [] text)), snd (scanLoop newLine [] text))"

definition scanNulLines :: "string \<Rightarrow> string list \<times> bool" where
  "scanNulLines text = scanLoop nulByte [] text"

lemma scanLoop_record:
  "sep \<notin> set l \<Longrightarrow> length acc + length l < maxScanLine \<Longrightarrow>
   scanLoop sep acc (l @ sep # s) = (case scanLoop sep [] s of (ls, ok) \<Rightarrow> ((acc @ l) # ls, ok))"
  by (induction l arbitrary: acc) (auto simp: case_prod_beta)

lemma scanLoop_lines:
  "\<forall>l \<in> set ls. sep \<notin> set l \<and> length l < maxScanLine \<Longrightarrow>
   scanLoop sep [] (concat (map (\<lambda>l. l @ [sep]) ls)) = (ls, True)"
  by (induction ls) (simp_all add: scanLoop_record)

section \<open>File modes\<close>

type_synonym fileMode = u32

text \<open>The bits of \<open>os.FileMode\<close>.\<close>

definition modeDir :: fileMode where "modeDir = 0x80000000"
definition modeSymlink :: fileMode where "modeSymlink = 0x08000000"
definition modeDevice :: fileMode where "modeDevice = 0x04000000"
definition modeNamedPipe :: fileMode where "modeNamedPipe = 0x02000000"
definition modeSocket :: fileMode where "modeSocket = 0x01000000"
definition modeCharDevice :: fileMode where "modeCharDevice = 0x00200000"
definition modeIrregular :: fileMode where "modeIrregular = 0x00080000"

definition modeHas :: "fileMode \<Rightarrow> fileMode \<Rightarrow> bool" where
  "modeHas mode flag \<longleftrightarrow> mode AND flag \<noteq> 0"

definition modeRegular :: "fileMode \<Rightarrow> bool" where
  "modeRegular mode \<longleftrightarrow>
     mode AND (modeDir OR modeSymlink OR modeNamedPipe OR modeSocket OR modeDevice OR modeCharDevice OR
               modeIrregular) = 0"

definition modeSetuid :: fileMode where "modeSetuid = 0x00800000"
definition modeSetgid :: fileMode where "modeSetgid = 0x00400000"
definition modeSticky :: fileMode where "modeSticky = 0x00100000"

end
