(* ===== verification/Cut.thy ===== *)
theory Cut
  imports TextIO
begin

text \<open>
  The command \<open>cut\<close> (\<open>cut.go\<close>): its options, the lists of ranges, and the selection of bytes,
  characters and fields of a line.  Positions are Go \<open>int\<close>s, with the wrap-around where the code
  adds to or subtracts from one.
\<close>

section \<open>Options\<close>

datatype cutMode = CutNone | CutBytes | CutChars | CutFields

text \<open>An inclusive range of positions from 1; \<open>hi = 0\<close> means to the end of the line.\<close>

record cutRange =
  lo :: int
  hi :: int

record cutOptions =
  cut_mode :: cutMode
  cut_list :: string
  cut_delim :: string
  cut_outDelim :: string
  cut_outSet :: bool
  cut_onlyDelim :: bool
  cut_complement :: bool
  cut_zeroTerm :: bool
  cut_ranges :: "cutRange list"

text \<open>A usage error is \<open>None\<close>.\<close>

definition setList :: "cutOptions \<Rightarrow> char \<Rightarrow> string \<Rightarrow> cutOptions option" where
  "setList opts kind list =
     (let mode = (if kind = CHR ''c'' then CutChars else if kind = CHR ''b'' then CutBytes else CutFields)
      in if cut_mode opts \<noteq> CutNone \<and> cut_mode opts \<noteq> mode then None
         else Some (opts\<lparr>cut_mode := mode, cut_list := list\<rparr>))"

text \<open>A bundle of short options; a list or delimiter takes the rest of the word or the next argument.\<close>

fun parseCluster :: "cutOptions \<Rightarrow> string \<Rightarrow> string list \<Rightarrow> (cutOptions \<times> string list) option" where
  "parseCluster opts [] rest = Some (opts, rest)"
| "parseCluster opts (c # cs) rest =
     (if c = CHR ''s'' then parseCluster (opts\<lparr>cut_onlyDelim := True\<rparr>) cs rest
      else if c = CHR ''z'' then parseCluster (opts\<lparr>cut_zeroTerm := True\<rparr>) cs rest
      else if c = CHR ''n'' then parseCluster opts cs rest
      else if c \<in> {CHR ''b'', CHR ''c'', CHR ''f'', CHR ''d''} then
        (case (if cs = [] then (case rest of [] \<Rightarrow> None | v # rest' \<Rightarrow> Some (v, rest')) else Some (cs, rest)) of
           None \<Rightarrow> None
         | Some (v, rest') \<Rightarrow>
             if c = CHR ''d'' then Some (opts\<lparr>cut_delim := v\<rparr>, rest')
             else map_option (\<lambda>o'. (o', rest')) (setList opts c v))
      else None)"

lemma parseCluster_rest: "parseCluster opts cs rest = Some (opts', rest') \<Longrightarrow> length rest' \<le> length rest"
  by (induction opts cs rest rule: parseCluster.induct) (auto split: if_splits list.splits)

definition trimLeftDash :: "string \<Rightarrow> string" where
  "trimLeftDash = dropWhile (\<lambda>c. c = CHR ''-'')"

text \<open>The text behind the first \<open>=\<close>.\<close>

definition afterEqual :: "string \<Rightarrow> string" where
  "afterEqual a = drop 1 (dropWhile (\<lambda>c. c \<noteq> CHR ''='') a)"

function parseCutArgs ::
    "cutOptions \<Rightarrow> string list \<Rightarrow> string list \<Rightarrow> (cutOptions \<times> string list) option" where
  "parseCutArgs opts files [] = Some (opts, files)"
| "parseCutArgs opts files (a # rest) =
     (if a = ''--'' then Some (opts, files @ rest)
      else if a \<in> {''-s'', ''--only-delimited''} then parseCutArgs (opts\<lparr>cut_onlyDelim := True\<rparr>) files rest
      else if a = ''--complement'' then parseCutArgs (opts\<lparr>cut_complement := True\<rparr>) files rest
      else if a \<in> {''-z'', ''--zero-terminated''} then parseCutArgs (opts\<lparr>cut_zeroTerm := True\<rparr>) files rest
      else if a = ''-n'' then parseCutArgs opts files rest
      else if a \<in> {''-f'', ''--fields'', ''-c'', ''--characters'', ''-b'', ''--bytes''} then
        (case rest of
           [] \<Rightarrow> None
         | value # rest' \<Rightarrow>
             (case setList opts (hd (trimLeftDash a)) value of
                None \<Rightarrow> None
              | Some opts' \<Rightarrow> parseCutArgs opts' files rest'))
      else if hasPrefix a ''--fields='' \<or> hasPrefix a ''--characters='' \<or> hasPrefix a ''--bytes='' then
        (case setList opts (a ! 2) (afterEqual a) of
           None \<Rightarrow> None
         | Some opts' \<Rightarrow> parseCutArgs opts' files rest)
      else if 2 < length a \<and> a ! 0 = CHR ''-'' \<and> a ! 1 \<in> {CHR ''f'', CHR ''c'', CHR ''b''} then
        (case setList opts (a ! 1) (drop 2 a) of
           None \<Rightarrow> None
         | Some opts' \<Rightarrow> parseCutArgs opts' files rest)
      else if a \<in> {''-d'', ''--delimiter''} then
        (case rest of
           [] \<Rightarrow> None
         | value # rest' \<Rightarrow> parseCutArgs (opts\<lparr>cut_delim := value\<rparr>) files rest')
      else if hasPrefix a ''--delimiter='' then
        parseCutArgs (opts\<lparr>cut_delim := trimPrefix a ''--delimiter=''\<rparr>) files rest
      else if hasPrefix a ''-d'' \<and> 2 < length a then
        parseCutArgs (opts\<lparr>cut_delim := drop 2 a\<rparr>) files rest
      else if a = ''--output-delimiter'' then
        (case rest of
           [] \<Rightarrow> None
         | value # rest' \<Rightarrow>
             parseCutArgs (opts\<lparr>cut_outDelim := value, cut_outSet := True\<rparr>) files rest')
      else if hasPrefix a ''--output-delimiter='' then
        parseCutArgs (opts\<lparr>cut_outDelim := drop (length ''--output-delimiter='') a, cut_outSet := True\<rparr>)
          files rest
      else if 1 < length a \<and> a ! 0 = CHR ''-'' then
        (case parseCluster opts (drop 1 a) rest of
           None \<Rightarrow> None
         | Some (opts', rest') \<Rightarrow> parseCutArgs opts' files rest')
      else parseCutArgs opts (files @ [a]) rest)"
  by pat_completeness auto
termination
  by (relation "measure (\<lambda>(opts, files, args). length args)")
    (auto dest: parseCluster_rest simp: le_imp_less_Suc)

section \<open>Lists of ranges\<close>

datatype cut_error = NotFromOne | BadPosition string | DecreasingRange | NoRange

definition cutNumber :: "string \<Rightarrow> cut_error + int" where
  "cutNumber text =
     (let digits = takeWhile isDigitByte text in
      if digits \<noteq> text \<or> digits = [] then Inl (BadPosition (dropWhile isDigitByte text))
      else (case parseInt64 text of
              None \<Rightarrow> Inl (BadPosition text)
            | Some n \<Rightarrow> if n < 1 then Inl NotFromOne else Inr n))"

definition cutPart :: "string \<Rightarrow> cut_error + cutRange" where
  "cutPart part =
     (case indexByte part (CHR ''-'') of
        None \<Rightarrow>
          (case cutNumber part of Inl e \<Rightarrow> Inl e | Inr n \<Rightarrow> Inr \<lparr>lo = n, hi = n\<rparr>)
      | Some dash \<Rightarrow>
          (case (if take dash part = [] then Inr 1 else cutNumber (take dash part)) of
             Inl e \<Rightarrow> Inl e
           | Inr l \<Rightarrow>
               (case (if drop (dash + 1) part = [] then Inr 0 else cutNumber (drop (dash + 1) part)) of
                  Inl e \<Rightarrow> Inl e
                | Inr h \<Rightarrow> if h \<noteq> 0 \<and> h < l then Inl DecreasingRange else Inr \<lparr>lo = l, hi = h\<rparr>)))"

fun cutParts :: "string list \<Rightarrow> cut_error + cutRange list" where
  "cutParts [] = Inr []"
| "cutParts (part # parts) =
     (if part = [] then cutParts parts
      else (case cutPart part of
              Inl e \<Rightarrow> Inl e
            | Inr r \<Rightarrow> (case cutParts parts of Inl e \<Rightarrow> Inl e | Inr rs \<Rightarrow> Inr (r # rs))))"

definition parseRanges :: "string \<Rightarrow> cut_error + cutRange list" where
  "parseRanges spec =
     (case cutParts (splitByte (CHR '','') spec) of
        Inl e \<Rightarrow> Inl e
      | Inr rs \<Rightarrow> if rs = [] then Inl NotFromOne else Inr rs)"

text \<open>The insertion sort by the lower bound, then the fold of neighbours.\<close>

fun insertRange :: "cutRange \<Rightarrow> cutRange list \<Rightarrow> cutRange list" where
  "insertRange r [] = [r]"
| "insertRange r (x # xs) = (if lo r < lo x then r # x # xs else x # insertRange r xs)"

fun mergeLoop :: "cutRange \<Rightarrow> cutRange list \<Rightarrow> cutRange list" where
  "mergeLoop cur [] = [cur]"
| "mergeLoop cur (r # rs) =
     (if hi cur = 0 then mergeLoop cur rs
      else if goInt (hi cur + 1) < lo r then cur # mergeLoop r rs
      else if hi r = 0 \<or> hi cur < hi r then mergeLoop (cur\<lparr>hi := hi r\<rparr>) rs
      else mergeLoop cur rs)"

definition mergeRanges :: "cutRange list \<Rightarrow> cutRange list" where
  "mergeRanges ranges =
     (case fold insertRange ranges [] of [] \<Rightarrow> [] | r # rs \<Rightarrow> mergeLoop r rs)"

fun complementLoop :: "int \<Rightarrow> cutRange list \<Rightarrow> cutRange list" where
  "complementLoop start [] = [\<lparr>lo = start, hi = 0\<rparr>]"
| "complementLoop start (r # rs) =
     (if start < lo r then [\<lparr>lo = start, hi = lo r - 1\<rparr>] else []) @
     (if hi r = 0 then [] else complementLoop (goInt (hi r + 1)) rs)"

definition complementRanges :: "cutRange list \<Rightarrow> cutRange list" where
  "complementRanges ranges = complementLoop 1 ranges"

definition inRange :: "int \<Rightarrow> cutRange \<Rightarrow> bool" where
  "inRange pos r \<longleftrightarrow> lo r \<le> pos \<and> (hi r = 0 \<or> pos \<le> hi r)"

definition inRanges :: "int \<Rightarrow> cutRange list \<Rightarrow> bool" where
  "inRanges pos ranges \<longleftrightarrow> (\<exists>r \<in> set ranges. inRange pos r)"

section \<open>Cutting a line\<close>

definition cutUnits :: "cutOptions \<Rightarrow> string \<Rightarrow> string list" where
  "cutUnits opts line =
     (if cut_mode opts = CutBytes then map (\<lambda>c. [c]) line
      else map (\<lambda>(r, _). utf8Encode r) (runesOf line))"

text \<open>The pieces of the selected runs; \<open>None\<close> is a panic.\<close>

fun cutPieces :: "string list \<Rightarrow> cutRange list \<Rightarrow> string list option" where
  "cutPieces units [] = Some []"
| "cutPieces units (r # rs) =
     (let n = int (length units);
          h = (if hi r = 0 \<or> n < hi r then n else hi r)
      in if n < lo r \<or> h < lo r then cutPieces units rs
         else (case goSlice units (goInt (lo r - 1)) h of
                 None \<Rightarrow> None
               | Some piece \<Rightarrow> map_option ((#) (concat piece)) (cutPieces units rs)))"

definition cutPositions :: "cutOptions \<Rightarrow> string \<Rightarrow> string option" where
  "cutPositions opts line =
     map_option (\<lambda>pieces. joinStrings pieces (cut_outDelim opts))
       (cutPieces (cutUnits opts line) (cut_ranges opts))"

text \<open>\<open>None\<close> suppresses the line.\<close>

definition cutFields :: "cutOptions \<Rightarrow> string \<Rightarrow> string option" where
  "cutFields opts line =
     (if indexString line (cut_delim opts) = None
      then (if cut_onlyDelim opts then None else Some line)
      else
        let fields = splitOn (cut_delim opts) line;
            chosen = map snd (filter (\<lambda>(i, f). inRanges (int i) (cut_ranges opts))
                                (zip [1 ..< Suc (length fields)] fields))
        in Some (joinStrings chosen (if cut_outSet opts then cut_outDelim opts else cut_delim opts)))"

section \<open>The command\<close>

text \<open>One line: the text to write, nothing, or a panic.\<close>

definition cutLine :: "cutOptions \<Rightarrow> string \<Rightarrow> string option option" where
  "cutLine opts line =
     (if cut_mode opts = CutFields then Some (cutFields opts line)
      else map_option Some (cutPositions opts line))"

fun cutLines :: "cutOptions \<Rightarrow> string list \<Rightarrow> string option" where
  "cutLines opts [] = Some []"
| "cutLines opts (line # lines) =
     (case cutLine opts line of
        None \<Rightarrow> None
      | Some text \<Rightarrow>
          map_option (\<lambda>more. (case text of None \<Rightarrow> more
                               | Some t \<Rightarrow> t @ (if cut_zeroTerm opts then nulByte else newLine) # more))
            (cutLines opts lines))"

fun cutFiles :: "cutOptions \<Rightarrow> sys \<Rightarrow> string list \<Rightarrow> (string \<times> bool) option" where
  "cutFiles opts sys [] = Some ([], True)"
| "cutFiles opts sys (f # fs) =
     (case openInput sys f of
        (None, sys') \<Rightarrow> map_option (\<lambda>(text, ok). (text, False)) (cutFiles opts sys' fs)
      | (Some (content, readable), sys') \<Rightarrow>
          (let (lines, scanned) = (if cut_zeroTerm opts then scanNulLines content else scanLines content)
           in case cutLines opts lines of
                None \<Rightarrow> None
              | Some text \<Rightarrow>
                  map_option (\<lambda>(more, ok). (text @ more, scanned \<and> readable \<and> ok))
                    (cutFiles opts sys' fs)))"

definition cutRun :: "cutOptions \<Rightarrow> sys \<Rightarrow> string list \<Rightarrow> cmd_result" where
  "cutRun opts sys files =
     (case cutFiles opts sys files of
        None \<Rightarrow> Crash
      | Some (text, ok) \<Rightarrow>
          if sys_out_ok sys then Exit text (if ok then 0 else 1) else Exit [] 1)"

definition cutStart :: cutOptions where
  "cutStart = \<lparr>cut_mode = CutNone, cut_list = [], cut_delim = [chr 9], cut_outDelim = [],
     cut_outSet = False, cut_onlyDelim = False, cut_complement = False, cut_zeroTerm = False,
     cut_ranges = []\<rparr>"

definition cmdCut :: "sys \<Rightarrow> string list \<Rightarrow> cmd_result" where
  "cmdCut sys args =
     (case parseCutArgs cutStart [] args of
        None \<Rightarrow> Exit [] 1
      | Some (opts, files) \<Rightarrow>
          if cut_mode opts = CutNone then Exit [] 1
          else if cut_mode opts = CutFields \<and> length (runesOf (cut_delim opts)) \<noteq> 1 then Exit [] 1
          else if cut_mode opts \<noteq> CutFields \<and> cut_onlyDelim opts then Exit [] 1
          else (case parseRanges (cut_list opts) of
                  Inl e \<Rightarrow> Exit [] 1
                | Inr parsed \<Rightarrow>
                    (let merged = mergeRanges parsed;
                         ranges = (if cut_complement opts then complementRanges merged else merged)
                     in cutRun (opts\<lparr>cut_ranges := ranges\<rparr>) sys (if files = [] then [''-''] else files))))"

section \<open>What a list of ranges selects\<close>

definition rangeOk :: "cutRange \<Rightarrow> bool" where
  "rangeOk r \<longleftrightarrow> 1 \<le> lo r \<and> lo r \<le> maxInt \<and> hi r < maxInt \<and> (hi r = 0 \<or> lo r \<le> hi r)"

text \<open>Ordered ranges with a gap between neighbours.\<close>

fun separated :: "cutRange list \<Rightarrow> bool" where
  "separated [] = True"
| "separated [r] = rangeOk r"
| "separated (r # s # rs) = (rangeOk r \<and> hi r \<noteq> 0 \<and> hi r + 1 < lo s \<and> separated (s # rs))"

lemma goInt_succ: "0 \<le> z \<Longrightarrow> z < maxInt \<Longrightarrow> goInt (z + 1) = z + 1"
  by (rule goInt_id) (auto simp: maxInt_def)

lemma goInt_pred: "1 \<le> z \<Longrightarrow> z \<le> maxInt \<Longrightarrow> goInt (z - 1) = z - 1"
  by (rule goInt_id) (auto simp: maxInt_def)

lemma inRanges_simps [simp]:
  "inRanges pos [] = False" "inRanges pos (r # rs) \<longleftrightarrow> inRange pos r \<or> inRanges pos rs"
  by (auto simp: inRanges_def)

lemma set_insertRange [simp]: "set (insertRange r rs) = insert r (set rs)"
  by (induction rs) auto

lemma sorted_insertRange: "sorted (map lo rs) \<Longrightarrow> sorted (map lo (insertRange r rs))"
  by (induction rs) auto

lemma fold_insertRange:
  "set (fold insertRange rs acc) = set rs \<union> set acc \<and>
   (sorted (map lo acc) \<longrightarrow> sorted (map lo (fold insertRange rs acc)))"
  by (induction rs arbitrary: acc) (auto simp: sorted_insertRange)

lemma mergeLoop_head: "\<exists>r rs'. mergeLoop cur rs = r # rs' \<and> lo r = lo cur"
  by (induction cur rs rule: mergeLoop.induct) auto

lemma mergeLoop_sel:
  assumes "rangeOk cur" "\<forall>r \<in> set rs. rangeOk r" "sorted (lo cur # map lo rs)"
  shows "inRanges pos (mergeLoop cur rs) \<longleftrightarrow> inRange pos cur \<or> inRanges pos rs"
  using assms
proof (induction cur rs rule: mergeLoop.induct)
  case (2 cur r rs)
  have g: "hi cur \<noteq> 0 \<Longrightarrow> goInt (hi cur + 1) = hi cur + 1"
    using 2(5) by (intro goInt_succ) (auto simp: rangeOk_def)
  consider "hi cur = 0" | "hi cur \<noteq> 0" "hi cur + 1 < lo r"
    | "hi cur \<noteq> 0" "\<not> hi cur + 1 < lo r" "hi r = 0 \<or> hi cur < hi r"
    | "hi cur \<noteq> 0" "\<not> hi cur + 1 < lo r" "\<not> (hi r = 0 \<or> hi cur < hi r)" by blast
  then show ?case
  proof cases
    case 1
    then show ?thesis using 2(1) 2(5-7) by (auto simp: inRange_def)
  next
    case gap: 2
    then show ?thesis using 2(2) 2(5-7) g by auto
  next
    case 3
    then have "rangeOk (cur\<lparr>hi := hi r\<rparr>)" using 2(5-7) by (auto simp: rangeOk_def)
    then show ?thesis using 3 2(3) 2(5-7) g by (auto simp: inRange_def rangeOk_def)
  next
    case 4
    then show ?thesis using 2(4) 2(5-7) g by (auto simp: inRange_def rangeOk_def)
  qed
qed simp

lemma separated_Cons:
  "separated (r # rs) \<longleftrightarrow>
     rangeOk r \<and> (rs \<noteq> [] \<longrightarrow> hi r \<noteq> 0 \<and> hi r + 1 < lo (hd rs)) \<and> separated rs"
  by (cases rs) auto

lemma mergeLoop_separated:
  assumes "rangeOk cur" "\<forall>r \<in> set rs. rangeOk r" "sorted (lo cur # map lo rs)"
  shows "separated (mergeLoop cur rs)"
  using assms
proof (induction cur rs rule: mergeLoop.induct)
  case (2 cur r rs)
  have g: "hi cur \<noteq> 0 \<Longrightarrow> goInt (hi cur + 1) = hi cur + 1"
    using 2(5) by (intro goInt_succ) (auto simp: rangeOk_def)
  consider "hi cur = 0" | "hi cur \<noteq> 0" "hi cur + 1 < lo r"
    | "hi cur \<noteq> 0" "\<not> hi cur + 1 < lo r" "hi r = 0 \<or> hi cur < hi r"
    | "hi cur \<noteq> 0" "\<not> hi cur + 1 < lo r" "\<not> (hi r = 0 \<or> hi cur < hi r)" by blast
  then show ?case
  proof cases
    case 1
    then show ?thesis using 2(1) 2(5-7) by auto
  next
    case gap: 2
    obtain s rs' where "mergeLoop r rs = s # rs'" "lo s = lo r" using mergeLoop_head by blast
    then show ?thesis using gap 2(2) 2(5-7) g by simp
  next
    case 3
    then have "rangeOk (cur\<lparr>hi := hi r\<rparr>)" using 2(5-7) by (auto simp: rangeOk_def)
    then show ?thesis using 3 2(3) 2(5-7) g by auto
  next
    case 4
    then show ?thesis using 2(4) 2(5-7) g by auto
  qed
qed simp

lemma mergeRanges_ok:
  assumes "\<forall>r \<in> set rs. rangeOk r"
  shows "separated (mergeRanges rs)" "inRanges pos (mergeRanges rs) \<longleftrightarrow> inRanges pos rs"
proof -
  have f: "set (fold insertRange rs []) = set rs" "sorted (map lo (fold insertRange rs []))"
    using fold_insertRange [of rs "[]"] by simp_all
  then have same: "inRanges pos (fold insertRange rs []) \<longleftrightarrow> inRanges pos rs"
    by (simp add: inRanges_def)
  show "separated (mergeRanges rs)" "inRanges pos (mergeRanges rs) \<longleftrightarrow> inRanges pos rs"
  proof (atomize (full), cases "fold insertRange rs []")
    case (Cons a l)
    then have "rangeOk a" "\<forall>r \<in> set l. rangeOk r" "sorted (lo a # map lo l)"
      using f assms by (metis insert_iff list.set(2)) (use f assms Cons in auto)
    with mergeLoop_separated [of a l] mergeLoop_sel [of a l pos] same Cons
    show "separated (mergeRanges rs) \<and> inRanges pos (mergeRanges rs) = inRanges pos rs"
      by (simp add: mergeRanges_def)
  qed (use same in \<open>simp add: mergeRanges_def\<close>)
qed

lemma separated_above: "separated (r # rs) \<Longrightarrow> hi r \<noteq> 0 \<Longrightarrow> \<forall>s \<in> set rs. hi r + 1 < lo s"
proof (induction rs arbitrary: r)
  case (Cons s rs)
  then show ?case by (cases "rs = []") (force simp: separated_Cons rangeOk_def)+
qed simp

lemma complementLoop_ok:
  assumes "separated rs" "1 \<le> start" "start \<le> maxInt" "rs \<noteq> [] \<longrightarrow> start \<le> lo (hd rs)"
  shows "(inRanges pos (complementLoop start rs) \<longleftrightarrow> start \<le> pos \<and> \<not> inRanges pos rs) \<and>
    separated (complementLoop start rs) \<and>
    (complementLoop start rs \<noteq> [] \<longrightarrow> start \<le> lo (hd (complementLoop start rs)))"
  using assms
proof (induction start rs rule: complementLoop.induct)
  case (1 start)
  then show ?case by (auto simp: inRange_def rangeOk_def maxInt_def)
next
  case (2 start r rs)
  have r: "rangeOk r" "separated rs" using 2(2) by (cases rs; auto)+
  show ?case
  proof (cases "hi r = 0")
    case True
    then show ?thesis using 2(2-5) r separated_above [OF 2(2)]
      by (cases rs) (auto simp: inRange_def rangeOk_def)
  next
    case False
    have g: "goInt (hi r + 1) = hi r + 1"
      using r(1) False by (intro goInt_succ) (auto simp: rangeOk_def)
    let ?more = "complementLoop (hi r + 1) rs"
    have above: "\<forall>s \<in> set rs. hi r + 1 < lo s" using separated_above [OF 2(2) False] .
    have IH: "(inRanges pos ?more \<longleftrightarrow> hi r + 1 \<le> pos \<and> \<not> inRanges pos rs) \<and> separated ?more \<and>
        (?more \<noteq> [] \<longrightarrow> hi r + 1 \<le> lo (hd ?more))"
      using 2(1) [OF False] r False above unfolding g
      by (cases rs) (auto simp: rangeOk_def)
    have none: "pos \<le> hi r \<Longrightarrow> \<not> inRanges pos rs" using above by (auto simp: inRanges_def inRange_def)
    have "separated (\<lparr>lo = start, hi = lo r - 1\<rparr> # ?more)" if "start < lo r"
      using IH r(1) that 2(3,4) False by (auto simp: separated_Cons rangeOk_def)
    then show ?thesis
      using IH r(1) False 2(3,5) none by (auto simp: g inRange_def rangeOk_def)
  qed
qed

lemma nths_union:
  assumes "\<And>a b. a \<in> A \<Longrightarrow> b \<in> B \<Longrightarrow> a < b"
  shows "nths xs (A \<union> B) = nths xs A @ nths xs B"
  using assms
proof (induction xs arbitrary: A B)
  case (Cons x xs)
  have t: "{j. Suc j \<in> A \<union> B} = {j. Suc j \<in> A} \<union> {j. Suc j \<in> B}" by auto
  have IH: "nths xs ({j. Suc j \<in> A} \<union> {j. Suc j \<in> B}) = nths xs {j. Suc j \<in> A} @ nths xs {j. Suc j \<in> B}"
    by (rule Cons.IH) (use Cons.prems in force)
  have e: "0 \<in> B \<Longrightarrow> A = {}" using Cons.prems [of _ 0] by auto
  show ?case
    using IH e by (auto simp: nths_Cons t Collect_disj_eq)
qed simp

lemma nths_same: "(\<And>i. i < length xs \<Longrightarrow> i \<in> A \<longleftrightarrow> i \<in> B) \<Longrightarrow> nths xs A = nths xs B"
  unfolding nths_def by (intro arg_cong [of _ _ "map fst"] filter_cong) (auto dest: set_zip_rightD)

lemma nths_interval: "nths xs {l ..< h} = take (h - l) (drop l xs)"
proof -
  have "nths (drop l xs) {..< h - l} = nths xs ((+) l ` {..< h - l})"
    by (rule nths_drop)
  also have "(+) l ` {..< h - l} = {l ..< h}"
    by (cases "l \<le> h") (auto simp: lessThan_atLeast0)
  finally show ?thesis by (simp add: nths_upt_eq_take)
qed

text \<open>The positions of a list that a list of ranges selects, counted from 0.\<close>

definition chosen :: "cutRange list \<Rightarrow> nat set" where
  "chosen rs = {i. inRanges (int i + 1) rs}"

lemma cutPieces_ok:
  assumes "separated rs"
  shows "\<exists>pieces. cutPieces units rs = Some pieces \<and> concat pieces = concat (nths units (chosen rs))"
  using assms
proof (induction rs)
  case Nil
  then show ?case by (simp add: chosen_def)
next
  case (Cons r rs)
  let ?n = "int (length units)"
  let ?h = "if hi r = 0 \<or> ?n < hi r then ?n else hi r"
  have r: "rangeOk r" "separated rs" using Cons(2) by (cases rs; auto)+
  then obtain pieces where IH: "cutPieces units rs = Some pieces"
      "concat pieces = concat (nths units (chosen rs))"
    using Cons(1) by blast
  from r have g: "goInt (lo r - 1) = lo r - 1" by (intro goInt_pred) (auto simp: rangeOk_def)
  have above: "\<forall>b \<in> chosen rs. hi r \<noteq> 0 \<and> hi r < int b + 1"
  proof (cases rs)
    case t: (Cons t rs')
    then have "hi r \<noteq> 0" using Cons.prems by simp
    then show ?thesis using separated_above [OF Cons.prems] by (auto simp: chosen_def inRanges_def inRange_def)
  qed (simp add: chosen_def)
  have "chosen (r # rs) = {i. inRange (int i + 1) r} \<union> chosen rs"
    by (auto simp: chosen_def)
  then have split: "nths units (chosen (r # rs)) =
      nths units {i. inRange (int i + 1) r} @ nths units (chosen rs)"
    by (simp add: nths_union) (rule nths_union, use above in \<open>auto simp: inRange_def\<close>)
  have first: "nths units {i. inRange (int i + 1) r} = nths units {nat (lo r - 1) ..< nat ?h}"
    using r(1) by (intro nths_same) (auto simp: inRange_def rangeOk_def)
  show ?case
  proof (cases "?n < lo r \<or> ?h < lo r")
    case True
    then have "nat ?h \<le> nat (lo r - 1)" by auto
    then have "nths units {i. inRange (int i + 1) r} = []" unfolding first by simp
    with True IH show ?thesis by (auto simp: split Let_def)
  next
    case False
    then have "goSlice units (lo r - 1) ?h = Some (nths units {nat (lo r - 1) ..< nat ?h})"
      using r(1) by (auto simp: goSlice_def rangeOk_def nths_interval)
    with False IH g show ?thesis by (auto simp: split first Let_def)
  qed
qed

lemma parseInt64_max: "parseInt64 s = Some n \<Longrightarrow> n \<le> maxInt"
  by (auto simp: parseInt64_def maxInt_def Let_def split: list.splits option.splits if_splits)

lemma cutNumber_bounds: "cutNumber text = Inr n \<Longrightarrow> 1 \<le> n \<and> n \<le> maxInt"
  by (auto simp: cutNumber_def Let_def split: if_splits option.splits dest: parseInt64_max)

definition rangeRead :: "cutRange \<Rightarrow> bool" where
  "rangeRead r \<longleftrightarrow> 1 \<le> lo r \<and> lo r \<le> maxInt \<and> hi r \<le> maxInt \<and> (hi r = 0 \<or> lo r \<le> hi r)"

lemma cutPart_bounds: "cutPart part = Inr r \<Longrightarrow> rangeRead r"
  by (auto simp: cutPart_def rangeRead_def maxInt_def split: option.splits sum.splits if_splits
      dest!: cutNumber_bounds)

lemma cutParts_bounds: "cutParts parts = Inr rs \<Longrightarrow> \<forall>r \<in> set rs. rangeRead r"
  by (induction parts arbitrary: rs) (auto split: if_splits sum.splits dest: cutPart_bounds)

text \<open>C30: the selected pieces are the selected positions.  For every list the parser accepts whose
  bounds are below the largest \<open>int\<close>, sorting and merging the ranges, and complementing them when
  asked to, then slicing the line never panics and yields exactly the bytes or characters whose
  position the list selects, or exactly those it does not select.\<close>

theorem cut_selects:
  assumes "parseRanges spec = Inr rs" and "\<forall>r \<in> set rs. hi r < maxInt"
    and "cut_ranges opts = (if compl then complementRanges (mergeRanges rs) else mergeRanges rs)"
    and "cut_outDelim opts = []"
  shows "cutPositions opts line =
    Some (concat (nths (cutUnits opts line) {i. inRanges (int i + 1) rs \<noteq> compl}))"
proof -
  have ok: "\<forall>r \<in> set rs. rangeOk r"
    using assms(1,2) cutParts_bounds [of "splitByte (CHR '','') spec"]
    by (auto simp: parseRanges_def rangeRead_def rangeOk_def split: sum.splits if_splits)
  have first: "mergeRanges rs \<noteq> [] \<longrightarrow> 1 \<le> lo (hd (mergeRanges rs))"
    using mergeRanges_ok(1) [OF ok] by (cases "mergeRanges rs") (auto simp: separated_Cons rangeOk_def)
  have c: "(inRanges pos (complementRanges (mergeRanges rs)) \<longleftrightarrow> 1 \<le> pos \<and> \<not> inRanges pos rs) \<and>
      separated (complementRanges (mergeRanges rs))" for pos
    using complementLoop_ok [OF mergeRanges_ok(1) [OF ok] _ _ first] mergeRanges_ok(2) [OF ok, of pos]
    by (simp add: complementRanges_def maxInt_def)
  have sep: "separated (cut_ranges opts)"
    and sel: "chosen (cut_ranges opts) = {i. inRanges (int i + 1) rs \<noteq> compl}"
    using c mergeRanges_ok [OF ok] by (auto simp: assms(3) chosen_def)
  have join: "joinStrings pieces [] = concat pieces" for pieces
    by (induction pieces "[] :: string" rule: joinStrings.induct) auto
  obtain pieces where "cutPieces (cutUnits opts line) (cut_ranges opts) = Some pieces"
      "concat pieces = concat (nths (cutUnits opts line) (chosen (cut_ranges opts)))"
    using cutPieces_ok [OF sep] by blast
  then show ?thesis by (simp add: cutPositions_def assms(4) join sel)
qed

theorem cut_selects_witness:
  "cutPositions (cutStart\<lparr>cut_mode := CutBytes, cut_ranges := complementRanges (mergeRanges
       [\<lparr>lo = 2, hi = 3\<rparr>])\<rparr>) ''abcde'' = Some ''ade''"
proof -
  have p: "parseRanges ''2-3'' = Inr [\<lparr>lo = 2, hi = 3\<rparr>]"
    by (simp add: parseRanges_def cutPart_def cutNumber_def isDigitByte_def ord_def parseInt64_def
        parseUint_def digitVal_def)
  have s: "nths [''a'', ''b'', ''c'', ''d'', ''e''] {i. \<not> inRange (int i + 1) \<lparr>lo = 2, hi = 3\<rparr>} =
      [''a'', ''d'', ''e'']"
    by (simp add: nths_Cons inRange_def)
  show ?thesis
    using cut_selects [OF p, of "cutStart\<lparr>cut_mode := CutBytes, cut_ranges := complementRanges (mergeRanges
       [\<lparr>lo = 2, hi = 3\<rparr>])\<rparr>" True "''abcde''"] s
    by (simp add: cutUnits_def cutStart_def maxInt_def)
qed

text \<open>C39: a bound of the largest \<open>int\<close> wraps around in the complement: the command
  \<open>cut -b 1-9223372036854775807 --complement\<close>, which should print an empty line, panics.\<close>

theorem complement_overflow_panics:
  "cmdCut (sys\<lparr>sys_stdin := (''abc'', True)\<rparr>) [''-b'', ''1-9223372036854775807'', ''--complement''] = Crash"
proof -
  have p: "parseRanges ''1-9223372036854775807'' = Inr [\<lparr>lo = 1, hi = maxInt\<rparr>]"
    by (simp add: parseRanges_def cutPart_def cutNumber_def isDigitByte_def ord_def parseInt64_def
        parseUint_def digitVal_def maxInt_def)
  have a: "parseCutArgs cutStart [] [''-b'', ''1-9223372036854775807'', ''--complement''] =
      Some (cutStart\<lparr>cut_mode := CutBytes, cut_list := ''1-9223372036854775807'', cut_complement := True\<rparr>, [])"
    by (simp add: setList_def trimLeftDash_def cutStart_def)
  have c: "complementRanges (mergeRanges [\<lparr>lo = 1, hi = maxInt\<rparr>]) = [\<lparr>lo = - (2 ^ 63), hi = 0\<rparr>]"
    by (simp add: complementRanges_def mergeRanges_def maxInt_def goInt_def)
  have l: "scanLines ''abc'' = ([''abc''], True)"
    by (simp add: scanLines_def newLine_def maxScanLine_def dropCR_def chr_def char_of_def)
  have o: "\<not> cut_onlyDelim cutStart" "\<not> cut_zeroTerm cutStart" by (simp_all add: cutStart_def)
  let ?opts = "cutStart\<lparr>cut_mode := CutBytes, cut_list := ''1-9223372036854775807'',
      cut_complement := True, cut_ranges := [\<lparr>lo = - (2 ^ 63), hi = 0\<rparr>]\<rparr>"
  have "cmdCut (sys\<lparr>sys_stdin := (''abc'', True)\<rparr>) [''-b'', ''1-9223372036854775807'', ''--complement''] =
      cutRun ?opts (sys\<lparr>sys_stdin := (''abc'', True)\<rparr>) [''-'']"
    unfolding cmdCut_def a by (simp add: p c o)
  moreover have "cutLine ?opts ''abc'' = None"
    by (simp add: cutLine_def cutPositions_def cutUnits_def goSlice_def goInt_def)
  ultimately show ?thesis
    by (simp add: cutRun_def openInput_def l o)
qed

end
