(* ===== verification/Tr.thy ===== *)
theory Tr
  imports TextIO
begin

text \<open>
  The command \<open>tr\<close> (\<open>tr.go\<close>): the expansion of a set specification, the three filters and the
  command line.  What the filters read from standard input is one string; a failing read leaves
  the buffered output unwritten.
\<close>

section \<open>Sets\<close>

text \<open>\<open>forEachByte\<close> with a test: the bytes that pass, in ascending order.\<close>

definition bytesWhere :: "(char \<Rightarrow> bool) \<Rightarrow> string" where
  "bytesWhere pred = filter pred (map chr [0 ..< 256])"

definition betweenBytes :: "char \<Rightarrow> char \<Rightarrow> char \<Rightarrow> bool" where
  "betweenBytes a b c \<longleftrightarrow> ord a \<le> ord c \<and> ord c \<le> ord b"

definition isDigitChar :: "char \<Rightarrow> bool" where
  "isDigitChar = betweenBytes (CHR ''0'') (CHR ''9'')"

definition isLowerChar :: "char \<Rightarrow> bool" where
  "isLowerChar = betweenBytes (CHR ''a'') (CHR ''z'')"

definition isUpperChar :: "char \<Rightarrow> bool" where
  "isUpperChar = betweenBytes (CHR ''A'') (CHR ''Z'')"

text \<open>The characters of the class \<open>punct\<close>: the printable ones that are neither letter, digit nor
  blank, written out in the source.\<close>

definition punctChars :: string where
  "punctChars = CHR ''!'' # CHR 0x22 # ''#$%&'' @ CHR 0x27 # ''()*+,-./:;<=>?@['' @ CHR 0x5C # '']^_'' @
     CHR 0x60 # ''{|}~''"

definition expandClass :: "string \<Rightarrow> string option" where
  "expandClass name =
     (if name = ''digit'' then Some (bytesWhere isDigitChar)
      else if name = ''lower'' then Some (bytesWhere isLowerChar)
      else if name = ''upper'' then Some (bytesWhere isUpperChar)
      else if name = ''alpha'' then Some (bytesWhere (\<lambda>b. isLowerChar b \<or> isUpperChar b))
      else if name = ''alnum'' then Some (bytesWhere (\<lambda>b. isDigitChar b \<or> isLowerChar b \<or> isUpperChar b))
      else if name = ''space'' then Some (map chr [32, 9, 10, 13, 11, 12])
      else if name = ''blank'' then Some (map chr [32, 9])
      else if name = ''punct'' then Some (bytesWhere (\<lambda>b. b \<in> set punctChars))
      else None)"

definition complementSet :: "string \<Rightarrow> string" where
  "complementSet s = bytesWhere (\<lambda>b. b \<notin> set s)"

definition unescapeByte :: "char \<Rightarrow> char" where
  "unescapeByte c =
     (if c = CHR ''n'' then chr 10 else if c = CHR ''t'' then chr 9 else if c = CHR ''r'' then chr 13
      else if c = CHR ''f'' then chr 12 else if c = CHR ''v'' then chr 11 else if c = CHR ''a'' then chr 7
      else if c = CHR ''b'' then chr 8 else c)"

definition isOctal :: "char \<Rightarrow> bool" where
  "isOctal = betweenBytes (CHR ''0'') (CHR ''7'')"

text \<open>One turn of the loop of \<open>expandSet\<close>: the bytes it emits and the rest of the specification, an
  error, or a panic when a class is closed before it has opened.\<close>

datatype set_error = UnknownClass string | ReversedRange string

datatype set_step = Emit string string | StepError set_error | StepPanic

text \<open>At most three octal digits; a value above 255 is capped by \<open>strconv.ParseUint\<close>, whose error is
  ignored.\<close>

definition octalDigits :: "string \<Rightarrow> string" where
  "octalDigits s = takeWhile isOctal (take 3 s)"

definition octalValue :: "string \<Rightarrow> nat" where
  "octalValue ds = min 255 (foldl (\<lambda>v d. v * 8 + (ord d - 48)) 0 ds)"

definition expandPlain :: "string \<Rightarrow> set_step" where
  "expandPlain s =
     (if 2 < length s \<and> s ! 1 = CHR ''-'' \<and> s ! 2 \<noteq> backslash
      then (if ord (s ! 0) \<le> ord (s ! 2)
            then Emit (map chr [ord (s ! 0) ..< Suc (ord (s ! 2))]) (drop 3 s)
            else StepError (ReversedRange (take 3 s)))
      else Emit [s ! 0] (drop 1 s))"

definition expandEscape :: "string \<Rightarrow> set_step" where
  "expandEscape s =
     (if isOctal (s ! 1)
      then Emit [chr (octalValue (octalDigits (drop 1 s)))] (drop (1 + length (octalDigits (drop 1 s))) s)
      else Emit [unescapeByte (s ! 1)] (drop 2 s))"

definition expandStep :: "string \<Rightarrow> set_step" where
  "expandStep s =
     (case (if 1 < length s \<and> s ! 0 = CHR ''['' \<and> s ! 1 = CHR '':'' then indexString s '':]'' else None) of
        Some stop \<Rightarrow>
          if stop < 2 then StepPanic
          else (case expandClass (take (stop - 2) (drop 2 s)) of
                  None \<Rightarrow> StepError (UnknownClass (take (stop - 2) (drop 2 s)))
                | Some expanded \<Rightarrow> Emit expanded (drop (stop + 2) s))
      | None \<Rightarrow>
          if s ! 0 = backslash \<and> 1 < length s then expandEscape s else expandPlain s)"

datatype set_result = SetBytes string | SetError set_error | SetPanic

lemma expandStep_shorter: "s \<noteq> [] \<Longrightarrow> expandStep s = Emit out rest \<Longrightarrow> length rest < length s"
  by (auto simp: expandStep_def expandEscape_def expandPlain_def split: option.splits if_splits)

function expandSet :: "string \<Rightarrow> set_result" where
  "expandSet s =
     (if s = [] then SetBytes []
      else (case expandStep s of
              StepPanic \<Rightarrow> SetPanic
            | StepError e \<Rightarrow> SetError e
            | Emit out rest \<Rightarrow>
                (case expandSet rest of SetBytes ys \<Rightarrow> SetBytes (out @ ys) | stop \<Rightarrow> stop)))"
  by pat_completeness auto
termination
  by (relation "measure length") (auto dest: expandStep_shorter)

declare expandSet.simps [simp del]

section \<open>The filters\<close>

text \<open>The loops over the input; \<open>prev\<close> is the last byte written.\<close>

fun runDelete :: "string \<Rightarrow> bool \<Rightarrow> string \<Rightarrow> char option \<Rightarrow> string \<Rightarrow> string" where
  "runDelete set1 squeeze set2 prev [] = []"
| "runDelete set1 squeeze set2 prev (b # s) =
     (if b \<in> set set1 then runDelete set1 squeeze set2 prev s
      else if squeeze \<and> b \<in> set set2 \<and> prev = Some b then runDelete set1 squeeze set2 prev s
      else b # runDelete set1 squeeze set2 (Some b) s)"

text \<open>The translation table; later entries of the first set overwrite earlier ones, and the last byte
  of the second set stands for the missing ones.\<close>

fun buildTable :: "nat \<Rightarrow> string \<Rightarrow> string \<Rightarrow> (char \<Rightarrow> char) \<Rightarrow> char \<Rightarrow> char" where
  "buildTable i [] set2 tbl = tbl"
| "buildTable i (b # bs) set2 tbl =
     buildTable (Suc i) bs set2
       (tbl(b := (if i < length set2 then set2 ! i else set2 ! (length set2 - 1))))"

fun translateLoop :: "(char \<Rightarrow> char) \<Rightarrow> string \<Rightarrow> bool \<Rightarrow> string \<Rightarrow> char option \<Rightarrow> string \<Rightarrow> string" where
  "translateLoop tbl set1 squeeze set2 prev [] = []"
| "translateLoop tbl set1 squeeze set2 prev (b # s) =
     (let c = (if b \<in> set set1 then tbl b else b) in
      if squeeze \<and> c \<in> set set2 \<and> prev = Some c then translateLoop tbl set1 squeeze set2 prev s
      else c # translateLoop tbl set1 squeeze set2 (Some c) s)"

definition runTranslate :: "string \<Rightarrow> string \<Rightarrow> bool \<Rightarrow> string \<Rightarrow> string" where
  "runTranslate set1 set2 squeeze s =
     translateLoop (buildTable 0 set1 set2 (\<lambda>b. b)) set1 squeeze set2 None s"

fun runSqueezeOnly :: "string \<Rightarrow> char option \<Rightarrow> string \<Rightarrow> string" where
  "runSqueezeOnly set1 prev [] = []"
| "runSqueezeOnly set1 prev (b # s) =
     (if b \<in> set set1 \<and> prev = Some b then runSqueezeOnly set1 prev s
      else b # runSqueezeOnly set1 (Some b) s)"

section \<open>The command\<close>

record trOptions =
  tr_del :: bool
  tr_squeeze :: bool
  tr_complement :: bool
  tr_sets :: "string list"

fun trLetters :: "trOptions \<Rightarrow> string \<Rightarrow> trOptions option" where
  "trLetters opts [] = Some opts"
| "trLetters opts (c # cs) =
     (if c = CHR ''d'' then trLetters (opts\<lparr>tr_del := True\<rparr>) cs
      else if c = CHR ''s'' then trLetters (opts\<lparr>tr_squeeze := True\<rparr>) cs
      else if c = CHR ''c'' \<or> c = CHR ''C'' then trLetters (opts\<lparr>tr_complement := True\<rparr>) cs
      else None)"

fun trArgs :: "bool \<Rightarrow> trOptions \<Rightarrow> string list \<Rightarrow> trOptions option" where
  "trArgs noMore opts [] = Some opts"
| "trArgs noMore opts (a # rest) =
     (if \<not> noMore \<and> a = ''--'' then trArgs True opts rest
      else if \<not> noMore \<and> a = ''--delete'' then trArgs noMore (opts\<lparr>tr_del := True\<rparr>) rest
      else if \<not> noMore \<and> a = ''--squeeze-repeats'' then trArgs noMore (opts\<lparr>tr_squeeze := True\<rparr>) rest
      else if \<not> noMore \<and> a = ''--complement'' then trArgs noMore (opts\<lparr>tr_complement := True\<rparr>) rest
      else if \<not> noMore \<and> 1 < length a \<and> a ! 0 = CHR ''-'' then
        (case trLetters opts (drop 1 a) of None \<Rightarrow> None | Some opts' \<Rightarrow> trArgs noMore opts' rest)
      else trArgs noMore (opts\<lparr>tr_sets := tr_sets opts @ [a]\<rparr>) rest)"

text \<open>When reading fails the command returns without flushing: only full buffers were written.\<close>

definition bufferedOutput :: "string \<Rightarrow> string" where
  "bufferedOutput out = take (4096 * ((length out - 1) div 4096)) out"

definition trOutput :: "trOptions \<Rightarrow> string \<Rightarrow> string \<Rightarrow> string \<Rightarrow> string option" where
  "trOutput opts set1 set2 text =
     (if tr_del opts then Some (runDelete set1 (tr_squeeze opts) set2 None text)
      else if set2 \<noteq> [] then Some (runTranslate set1 set2 (tr_squeeze opts) text)
      else if tr_squeeze opts then Some (runSqueezeOnly set1 None text)
      else None)"

definition trRun :: "trOptions \<Rightarrow> sys \<Rightarrow> string \<Rightarrow> string \<Rightarrow> cmd_result" where
  "trRun opts sys set1 set2 =
     (case trOutput opts set1 set2 (fst (sys_stdin sys)) of
        None \<Rightarrow> Exit [] 1
      | Some out \<Rightarrow>
          if \<not> sys_out_ok sys then Exit [] 1
          else if \<not> snd (sys_stdin sys) then Exit (bufferedOutput out) 1
          else Exit out 0)"

definition cmdTr :: "sys \<Rightarrow> string list \<Rightarrow> cmd_result" where
  "cmdTr sys args =
     (case trArgs False \<lparr>tr_del = False, tr_squeeze = False, tr_complement = False, tr_sets = []\<rparr> args of
        None \<Rightarrow> Exit [] 1
      | Some opts \<Rightarrow>
          (let n = length (tr_sets opts);
               wantSets = (if tr_del opts \<and> \<not> tr_squeeze opts \<or>
                              tr_squeeze opts \<and> \<not> tr_del opts \<and> n = 1 then 1 else 2)
           in if n \<noteq> wantSets then Exit [] 1
              else (case expandSet (tr_sets opts ! 0) of
                      SetPanic \<Rightarrow> Crash
                    | SetError e \<Rightarrow> Exit [] 1
                    | SetBytes s1 \<Rightarrow>
                        (let set1 = (if tr_complement opts then complementSet s1 else s1)
                         in if n < 2 then trRun opts sys set1 []
                            else (case expandSet (tr_sets opts ! 1) of
                                    SetPanic \<Rightarrow> Crash
                                  | SetError e \<Rightarrow> Exit [] 1
                                  | SetBytes set2 \<Rightarrow> trRun opts sys set1 set2)))))"

section \<open>Translating\<close>

lemma buildTable_other: "b \<notin> set set1 \<Longrightarrow> buildTable i set1 set2 tbl b = tbl b"
  by (induction i set1 set2 tbl rule: buildTable.induct) auto

lemma buildTable_nth:
  "distinct set1 \<Longrightarrow> k < length set1 \<Longrightarrow> i + k < length set2 \<Longrightarrow>
   buildTable i set1 set2 tbl (set1 ! k) = set2 ! (i + k)"
proof (induction set1 arbitrary: i k tbl)
  case (Cons b bs)
  then show ?case by (cases k) (simp_all add: buildTable_other)
qed simp

lemma translate_map:
  "runTranslate set1 set2 False s =
   map (\<lambda>b. if b \<in> set set1 then buildTable 0 set1 set2 (\<lambda>b. b) b else b) s"
proof -
  have "translateLoop tbl set1 False set2 prev s = map (\<lambda>b. if b \<in> set set1 then tbl b else b) s" for tbl prev
    by (induction s arbitrary: prev) (auto simp: Let_def)
  then show ?thesis by (simp add: runTranslate_def)
qed

text \<open>Translating back restores the text: for two sets of distinct bytes of the same size,
  translating from the first to the second and then from the second to the first is the identity on
  every text without bytes that are only in the second set.\<close>

lemma translating_back:
  assumes "distinct set1" "distinct set2" "length set1 = length set2"
    and "\<forall>b \<in> set s. b \<in> set set2 \<longrightarrow> b \<in> set set1"
  shows "runTranslate set2 set1 False (runTranslate set1 set2 False s) = s"
proof -
  have "(if c \<in> set set2 then buildTable 0 set2 set1 (\<lambda>b. b) c else c) = b"
    if "b \<in> set s" "c = (if b \<in> set set1 then buildTable 0 set1 set2 (\<lambda>b. b) b else b)" for b c
  proof (cases "b \<in> set set1")
    case True
    then obtain k where k: "k < length set1" "b = set1 ! k" by (auto simp: in_set_conv_nth)
    then have "c = set2 ! k" using that(2) True assms buildTable_nth [of set1 k 0 set2] by simp
    moreover have "buildTable 0 set2 set1 (\<lambda>b. b) (set2 ! k) = set1 ! k"
      using assms k buildTable_nth [of set2 k 0 set1] by simp
    ultimately show ?thesis using k assms(3) by simp
  next
    case False
    then show ?thesis using that assms(4) by auto
  qed
  then show ?thesis unfolding translate_map by (intro trans [OF map_map map_idI]) simp
qed

text \<open>
  Squeezing keeps a byte unless it repeats the byte before it and is in the set: the loop with
  its memory of the last byte written is the plain selection of these positions.\<close>

lemma squeeze_exact:
  "runSqueezeOnly set1 None s =
   nths s (- {i. 0 < i \<and> s ! i = s ! (i - 1) \<and> s ! i \<in> set set1})"
proof -
  define keep where "keep prev s = {i. s ! i \<notin> set set1 \<or> (case i of 0 \<Rightarrow> prev | Suc j \<Rightarrow> Some (s ! j)) \<noteq> Some (s ! i)}"
    for prev :: "char option" and s
  have step: "{j. Suc j \<in> keep prev (b # s)} = keep (Some b) s" for prev b s
    by (rule set_eqI) (simp add: keep_def split: nat.split)
  have "runSqueezeOnly set1 prev s = nths s (keep prev s)" for prev
  proof (induction s arbitrary: prev)
    case (Cons b s)
    have "0 \<in> keep prev (b # s) \<longleftrightarrow> \<not> (b \<in> set set1 \<and> prev = Some b)" by (auto simp: keep_def)
    then show ?case using Cons by (auto simp: nths_Cons step)
  qed simp
  then have "runSqueezeOnly set1 None s = nths s (keep None s)" .
  also have "keep None s = - {i. 0 < i \<and> s ! i = s ! (i - 1) \<and> s ! i \<in> set set1}"
    by (rule set_eqI) (auto simp: keep_def split: nat.split)
  finally show ?thesis .
qed

section \<open>Writing any set\<close>

definition octalEscape :: "char \<Rightarrow> string" where
  "octalEscape c =
     [backslash, chr (48 + ord c div 64), chr (48 + ord c div 8 mod 8), chr (48 + ord c mod 8)]"

lemma octal_chr: "n < 8 \<Longrightarrow> isOctal (chr (48 + n)) \<and> ord (chr (48 + n)) = 48 + n"
  by (simp add: isOctal_def betweenBytes_def) (simp add: ord_def)

lemma expandStep_octal: "expandStep (octalEscape c @ rest) = Emit [c] rest"
proof -
  note n = octal_digits(1-3) [of c]
  have o: "ord (chr (48 + ord c div 64)) = 48 + ord c div 64"
    "ord (chr (48 + ord c div 8 mod 8)) = 48 + ord c div 8 mod 8"
    "ord (chr (48 + ord c mod 8)) = 48 + ord c mod 8"
    using n octal_chr by blast+
  have v': "64 * (ord c div 64) + ord c div 8 mod 8 * 8 + ord c mod 8 = ord c"
    using octal_digits(4) [of c] by (simp add: algebra_simps)
  have m: "min 255 (ord c) = ord c" using ord_less_256 [of c] by linarith
  have e: "expandEscape (octalEscape c @ rest) = Emit [c] rest"
    using octal_chr [OF n(1)] octal_chr [OF n(2)] octal_chr [OF n(3)]
    by (simp add: expandEscape_def octalEscape_def octalDigits_def octalValue_def o v' m del: ord_chr)
  have "(octalEscape c @ rest) ! 0 = backslash" "1 < length (octalEscape c @ rest)"
    by (simp_all add: octalEscape_def)
  moreover have "backslash \<noteq> CHR ''[''" by (simp add: backslash_def chr_def char_of_def)
  ultimately show ?thesis by (simp add: expandStep_def e)
qed

text \<open>
  Every sequence of bytes can be written as a set: the octal escapes of its bytes expand to
  it, whatever bytes it holds.\<close>

lemma octal_set_roundtrip: "expandSet (concat (map octalEscape s)) = SetBytes s"
proof (induction s)
  case (Cons c s)
  have "concat (map octalEscape (c # s)) \<noteq> []" by (simp add: octalEscape_def)
  then show ?case
    using Cons by (subst expandSet.simps) (simp add: expandStep_octal)
qed (simp add: expandSet.simps)

text \<open>C40: a class that is closed before it has a name makes the program panic: in \<open>[:]\<close> the closing
  bracket is found inside the opening one, and the slice of the name has its bounds reversed.\<close>

theorem short_class_panics: "cmdTr sys [''[:]'', ''x''] = Crash"
proof -
  have "expandSet ''[:]'' = SetPanic"
    by (subst expandSet.simps) (simp add: expandStep_def hasPrefix_def)
  then show ?thesis by (simp add: cmdTr_def)
qed

end
