(* ===== verification/TestCmd.thy ===== *)
theory TestCmd
  imports TextIO
begin

text \<open>
  The commands \<open>test\<close> and \<open>[\<close> (\<open>testcmd.go\<close>): the operators and the recursive descent over the
  words.  Reading the state of a file is a parameter, the record \<open>file_system\<close>.  The fuel of the
  parser counts calls; six for each word are enough.
\<close>

section \<open>Files as the operators see them\<close>

record file_info =
  fi_mode :: fileMode
  fi_size :: int
  fi_mtime :: int
  fi_id :: "nat \<times> nat"

record file_system =
  fs_stat :: "string \<Rightarrow> file_info option"
  fs_lstat :: "string \<Rightarrow> file_info option"
  fs_access :: "string \<Rightarrow> nat \<Rightarrow> bool"
  fs_terminal :: "int \<Rightarrow> bool"

section \<open>Operators\<close>

datatype test_error =
    BadDescriptor string
  | BadInteger string
  | MissingParen
  | MissingExpression
  | NeedsOperand string
  | NeedsRightOperand string
  | UnexpectedOperand string
  | UnknownOperator string

type_synonym test_value = "test_error + bool"

definition testUnaryOps :: "string list" where
  "testUnaryOps = [''-n'', ''-z'', ''-e'', ''-f'', ''-d'', ''-L'', ''-h'', ''-r'', ''-w'', ''-x'', ''-s'', ''-b'',
     ''-c'', ''-p'', ''-S'', ''-t'']"

definition isTestUnary :: "string \<Rightarrow> bool" where
  "isTestUnary w \<longleftrightarrow> w \<in> set testUnaryOps"

definition testBinaryOps :: "string list" where
  "testBinaryOps = [''='', ''=='', ''!='', ''<'', ''>'', ''-eq'', ''-ne'', ''-lt'', ''-le'', ''-gt'', ''-ge'', ''-nt'',
     ''-ot'', ''-ef'']"

definition isTestBinary :: "string \<Rightarrow> bool" where
  "isTestBinary w \<longleftrightarrow> w \<in> set testBinaryOps"

definition evalFileTest :: "string \<Rightarrow> file_info \<Rightarrow> test_value" where
  "evalFileTest w info =
     (if w = ''-e'' then Inr True
      else if w = ''-f'' then Inr (modeRegular (fi_mode info))
      else if w = ''-d'' then Inr (modeHas (fi_mode info) modeDir)
      else if w = ''-s'' then Inr (0 < fi_size info)
      else if w = ''-b'' then Inr (modeHas (fi_mode info) modeDevice \<and> \<not> modeHas (fi_mode info) modeCharDevice)
      else if w = ''-c'' then Inr (modeHas (fi_mode info) modeCharDevice)
      else if w = ''-p'' then Inr (modeHas (fi_mode info) modeNamedPipe)
      else if w = ''-S'' then Inr (modeHas (fi_mode info) modeSocket)
      else Inl (UnknownOperator w))"

definition evalTestUnary :: "file_system \<Rightarrow> string \<Rightarrow> string \<Rightarrow> test_value" where
  "evalTestUnary fs w val =
     (if w = ''-n'' then Inr (val \<noteq> [])
      else if w = ''-z'' then Inr (val = [])
      else if w = ''-t'' then
        (case parseInt64 val of
           None \<Rightarrow> Inl (BadDescriptor val)
         | Some fd \<Rightarrow> if fd < 0 then Inl (BadDescriptor val) else Inr (fs_terminal fs fd))
      else if w = ''-L'' \<or> w = ''-h'' then
        Inr (case fs_lstat fs val of None \<Rightarrow> False | Some info \<Rightarrow> modeHas (fi_mode info) modeSymlink)
      else if w = ''-r'' then Inr (fs_access fs val 4)
      else if w = ''-w'' then Inr (fs_access fs val 2)
      else if w = ''-x'' then Inr (fs_access fs val 1)
      else (case fs_stat fs val of None \<Rightarrow> Inr False | Some info \<Rightarrow> evalFileTest w info))"

text \<open>Go compares strings byte by byte.\<close>

fun stringLess :: "string \<Rightarrow> string \<Rightarrow> bool" where
  "stringLess [] [] = False"
| "stringLess [] (b # bs) = True"
| "stringLess (a # as) [] = False"
| "stringLess (a # as) (b # bs) = (ord a < ord b \<or> a = b \<and> stringLess as bs)"

definition evalFileBinary :: "file_system \<Rightarrow> string \<Rightarrow> string \<Rightarrow> string \<Rightarrow> bool" where
  "evalFileBinary fs left w right =
     (case (fs_stat fs left, fs_stat fs right) of
        (Some l, Some r) \<Rightarrow>
          (if w = ''-ef'' then fi_id l = fi_id r
           else if w = ''-nt'' then fi_mtime r < fi_mtime l
           else fi_mtime l < fi_mtime r)
      | (Some l, None) \<Rightarrow> w = ''-nt''
      | (None, Some r) \<Rightarrow> w = ''-ot''
      | (None, None) \<Rightarrow> False)"

definition evalIntegers :: "string \<Rightarrow> int \<Rightarrow> int \<Rightarrow> test_value" where
  "evalIntegers w a b =
     (if w = ''-eq'' then Inr (a = b) else if w = ''-ne'' then Inr (a \<noteq> b)
      else if w = ''-lt'' then Inr (a < b) else if w = ''-le'' then Inr (a \<le> b)
      else if w = ''-gt'' then Inr (b < a) else if w = ''-ge'' then Inr (b \<le> a)
      else Inl (UnknownOperator w))"

definition evalTestBinary :: "file_system \<Rightarrow> string \<Rightarrow> string \<Rightarrow> string \<Rightarrow> test_value" where
  "evalTestBinary fs left w right =
     (if w = ''='' \<or> w = ''=='' then Inr (left = right)
      else if w = ''!='' then Inr (left \<noteq> right)
      else if w = ''<'' then Inr (stringLess left right)
      else if w = ''>'' then Inr (stringLess right left)
      else if w \<in> {''-nt'', ''-ot'', ''-ef''} then Inr (evalFileBinary fs left w right)
      else (case parseInt64 left of
              None \<Rightarrow> Inl (BadInteger left)
            | Some a \<Rightarrow>
                (case parseInt64 right of
                   None \<Rightarrow> Inl (BadInteger right)
                 | Some b \<Rightarrow> evalIntegers w a b)))"

section \<open>The parser\<close>

text \<open>
  The recursive descent of \<open>testParser\<close>: the words from the current position on; the value or the
  error, and the words that are left.  \<open>None\<close> means that the fuel ran out.
\<close>

type_synonym parsed = "(test_value \<times> string list) option"

definition parsePlain :: "file_system \<Rightarrow> string list \<Rightarrow> test_value \<times> string list" where
  "parsePlain fs args =
     (case args of
        [] \<Rightarrow> (Inl MissingExpression, [])
      | a # rest \<Rightarrow>
          if isTestUnary a then
            (case rest of
               [] \<Rightarrow> (Inl (NeedsOperand a), [])
             | val # rest' \<Rightarrow> (evalTestUnary fs a val, rest'))
          else
            (case rest of
               w # rest' \<Rightarrow>
                 if isTestBinary w then
                   (case rest' of
                      [] \<Rightarrow> (Inl (NeedsRightOperand w), [])
                    | right # rest'' \<Rightarrow> (evalTestBinary fs a w right, rest''))
                 else (Inr (a \<noteq> []), rest)
             | [] \<Rightarrow> (Inr (a \<noteq> []), rest)))"

text \<open>The methods \<open>parseOr\<close>, \<open>parseAnd\<close>, \<open>parseNot\<close> and \<open>parsePrimary\<close>, and the loops of the first two.\<close>

datatype parserMethod = POr | OrLoop bool | PAnd | AndLoop bool | PNot | PPrimary

definition takes :: "string \<Rightarrow> string list \<Rightarrow> bool" where
  "takes w args \<longleftrightarrow> args \<noteq> [] \<and> hd args = w"

text \<open>Continue with a value, pass an error on.\<close>

definition andThen :: "parsed \<Rightarrow> (bool \<Rightarrow> string list \<Rightarrow> parsed) \<Rightarrow> parsed" where
  "andThen p k =
     (case p of
        None \<Rightarrow> None
      | Some (Inl e, rest) \<Rightarrow> Some (Inl e, rest)
      | Some (Inr v, rest) \<Rightarrow> k v rest)"

definition testStep ::
    "file_system \<Rightarrow> (parserMethod \<Rightarrow> string list \<Rightarrow> parsed) \<Rightarrow> parserMethod \<Rightarrow> string list \<Rightarrow> parsed" where
  "testStep fs call mth args =
     (case mth of
        POr \<Rightarrow> andThen (call PAnd args) (\<lambda>left. call (OrLoop left))
      | OrLoop left \<Rightarrow>
          if takes ''-o'' args
          then andThen (call PAnd (tl args)) (\<lambda>right. call (OrLoop (left \<or> right)))
          else Some (Inr left, args)
      | PAnd \<Rightarrow> andThen (call PNot args) (\<lambda>left. call (AndLoop left))
      | AndLoop left \<Rightarrow>
          if takes ''-a'' args
          then andThen (call PNot (tl args)) (\<lambda>right. call (AndLoop (left \<and> right)))
          else Some (Inr left, args)
      | PNot \<Rightarrow>
          if takes ''!'' args
          then andThen (call PNot (tl args)) (\<lambda>v rest. Some (Inr (\<not> v), rest))
          else call PPrimary args
      | PPrimary \<Rightarrow>
          if takes ''('' args
          then andThen (call POr (tl args))
                 (\<lambda>v rest. if takes '')'' rest then Some (Inr v, tl rest) else Some (Inl MissingParen, rest))
          else Some (parsePlain fs args))"

primrec testParse :: "nat \<Rightarrow> file_system \<Rightarrow> parserMethod \<Rightarrow> string list \<Rightarrow> parsed" where
  "testParse 0 fs mth args = None"
| "testParse (Suc n) fs mth args = testStep fs (testParse n fs) mth args"

section \<open>The commands\<close>

definition testStatus :: "test_value \<Rightarrow> nat" where
  "testStatus v = (case v of Inl e \<Rightarrow> 2 | Inr b \<Rightarrow> if b then 0 else 1)"

definition testFuel :: "string list \<Rightarrow> nat" where
  "testFuel args = 6 * length args + 6"

definition runTestExpression :: "file_system \<Rightarrow> string list \<Rightarrow> nat option" where
  "runTestExpression fs args =
     (if args = [] then Some 1
      else if length args = 1 then Some (if args ! 0 \<noteq> [] then 0 else 1)
      else if length args = 2 \<and> args ! 0 = ''!'' then Some (if args ! 1 = [] then 0 else 1)
      else if length args = 3 \<and> isTestBinary (args ! 1)
      then Some (testStatus (evalTestBinary fs (args ! 0) (args ! 1) (args ! 2)))
      else (case testParse (testFuel args) fs POr args of
              None \<Rightarrow> None
            | Some (Inr val, []) \<Rightarrow> Some (testStatus (Inr val))
            | Some (Inr val, w # rest) \<Rightarrow> Some (testStatus (Inl (UnexpectedOperand w)))
            | Some (Inl e, rest) \<Rightarrow> Some (testStatus (Inl e))))"

definition cmdTest :: "file_system \<Rightarrow> string list \<Rightarrow> nat option" where
  "cmdTest fs args = runTestExpression fs args"

definition cmdBracket :: "file_system \<Rightarrow> string list \<Rightarrow> nat option" where
  "cmdBracket fs args =
     (if args = [] \<or> last args \<noteq> '']'' then Some 2 else runTestExpression fs (butlast args))"

section \<open>The parser returns\<close>

lemma parsePlain_rest: "length (snd (parsePlain fs args)) \<le> length args - 1"
  by (auto simp: parsePlain_def split: list.split)

text \<open>The fuel each routine needs for a word list, and how much of it is left over at least: the loops
  may take nothing, the others take a word.\<close>

fun need :: "parserMethod \<Rightarrow> nat" where
  "need POr = 5" | "need (OrLoop b) = 1" | "need PAnd = 4" | "need (AndLoop b) = 0" | "need PNot = 3"
| "need PPrimary = 2"

fun taken :: "parserMethod \<Rightarrow> nat" where
  "taken (OrLoop b) = 0" | "taken (AndLoop b) = 0" | "taken mth = 1"

lemma andThen_returns:
  assumes "\<exists>v rest. p = Some (v, rest) \<and> length rest \<le> m" "m \<le> m'"
    and "\<And>v rest. length rest \<le> m \<Longrightarrow> \<exists>v' rest'. k v rest = Some (v', rest') \<and> length rest' \<le> m'"
  shows "\<exists>v rest. andThen p k = Some (v, rest) \<and> length rest \<le> m'"
  using assms by (fastforce simp: andThen_def split: sum.split)

lemma parser_returns:
  "6 * length args + need mth < n \<Longrightarrow>
   \<exists>v rest. testParse n fs mth args = Some (v, rest) \<and> length rest \<le> length args - taken mth"
proof (induction n arbitrary: mth args)
  case (Suc n)
  have sub: "\<exists>v rest. testParse n fs m as = Some (v, rest) \<and> length rest \<le> k"
    if "6 * length as + need m < n" "length as - taken m \<le> k" for m as k
    using Suc.IH [OF that(1)] that(2) by (meson le_trans)
  have tl: "6 * length (tl args) + need mth + 6 < Suc n" if "args \<noteq> []"
    using Suc.prems that by (cases args) auto
  note rule = andThen_returns [where m = "length args - 1"]
  show ?case
  proof (cases mth)
    case POr
    with Suc.prems show ?thesis by (auto simp: testStep_def intro!: rule sub)
  next
    case (OrLoop b)
    with tl show ?thesis by (auto simp: testStep_def takes_def intro!: rule sub)
  next
    case PAnd
    with Suc.prems show ?thesis by (auto simp: testStep_def intro!: rule sub)
  next
    case (AndLoop b)
    with tl show ?thesis by (auto simp: testStep_def takes_def intro!: rule sub)
  next
    case PNot
    with tl Suc.prems sub [of "[]" PPrimary 0] show ?thesis
      by (cases "args = []") (auto simp: testStep_def takes_def intro!: rule sub)
  next
    case PPrimary
    with tl parsePlain_rest [of fs args] show ?thesis
      by (cases "parsePlain fs args") (auto simp: testStep_def takes_def intro!: rule sub)
  qed
qed simp

text \<open>More fuel does not change a result.\<close>

lemma andThen_mono:
  "andThen p k = Some r \<Longrightarrow> (\<And>q. p = Some q \<Longrightarrow> p' = Some q) \<Longrightarrow>
   (\<And>v rest. k v rest = Some r \<Longrightarrow> k' v rest = Some r) \<Longrightarrow> andThen p' k' = Some r"
  by (auto simp: andThen_def split: option.splits sum.splits)

lemma testStep_mono:
  "testStep fs f mth args = Some r \<Longrightarrow> (\<And>m as q. f m as = Some q \<Longrightarrow> g m as = Some q) \<Longrightarrow>
   testStep fs g mth args = Some r"
  by (cases r) (auto simp: testStep_def split: parserMethod.splits if_splits elim!: andThen_mono)

lemma parser_mono: "testParse n fs mth args = Some r \<Longrightarrow> testParse (Suc n) fs mth args = Some r"
proof (induction n arbitrary: mth args r)
  case (Suc n)
  then show ?case
    using testStep_mono [of fs "testParse n fs" mth args r "testParse (Suc n) fs"] by simp
qed simp

lemma parser_mono_le:
  assumes "testParse n fs mth args = Some r" "n \<le> k" shows "testParse k fs mth args = Some r"
  using assms(2,1) by (induction rule: dec_induct) (simp_all only: parser_mono)

section \<open>The grammar\<close>

text \<open>The expressions the words stand for, their value, and their words with the parentheses that
  the precedence of \<open>!\<close>, \<open>-a\<close> and \<open>-o\<close> asks for.\<close>

datatype test_expr =
    TOr test_expr test_expr
  | TAnd test_expr test_expr
  | TNot test_expr
  | TUnary string string
  | TBinary string string string
  | TWord string

definition both :: "(bool \<Rightarrow> bool \<Rightarrow> bool) \<Rightarrow> test_value \<Rightarrow> test_value \<Rightarrow> test_value" where
  "both f a b = (case a of Inl e \<Rightarrow> Inl e | Inr x \<Rightarrow> (case b of Inl e \<Rightarrow> Inl e | Inr y \<Rightarrow> Inr (f x y)))"

fun evalT :: "file_system \<Rightarrow> test_expr \<Rightarrow> test_value" where
  "evalT fs (TOr a b) = both (\<or>) (evalT fs a) (evalT fs b)"
| "evalT fs (TAnd a b) = both (\<and>) (evalT fs a) (evalT fs b)"
| "evalT fs (TNot a) = map_sum id Not (evalT fs a)"
| "evalT fs (TUnary w val) = evalTestUnary fs w val"
| "evalT fs (TBinary l w r) = evalTestBinary fs l w r"
| "evalT fs (TWord w) = Inr (w \<noteq> [])"

definition paren :: "bool \<Rightarrow> string list \<Rightarrow> string list" where
  "paren b ws = (if b then ''('' # ws @ ['')''] else ws)"

fun showT :: "nat \<Rightarrow> test_expr \<Rightarrow> string list" where
  "showT l (TOr a b) = paren (0 < l) (showT 0 a @ ''-o'' # showT 1 b)"
| "showT l (TAnd a b) = paren (1 < l) (showT 1 a @ ''-a'' # showT 2 b)"
| "showT l (TNot a) = ''!'' # showT 2 a"
| "showT l (TUnary w val) = [w, val]"
| "showT l (TBinary a w b) = [a, w, b]"
| "showT l (TWord w) = [w]"

text \<open>A word that cannot be taken for an operator in front.\<close>

definition operandWord :: "string \<Rightarrow> bool" where
  "operandWord w \<longleftrightarrow> w \<noteq> ''('' \<and> w \<noteq> ''!'' \<and> \<not> isTestUnary w"

fun wfT :: "test_expr \<Rightarrow> bool" where
  "wfT (TOr a b) \<longleftrightarrow> wfT a \<and> wfT b"
| "wfT (TAnd a b) \<longleftrightarrow> wfT a \<and> wfT b"
| "wfT (TNot a) \<longleftrightarrow> wfT a"
| "wfT (TUnary w val) \<longleftrightarrow> isTestUnary w"
| "wfT (TBinary a w b) \<longleftrightarrow> operandWord a \<and> isTestBinary w"
| "wfT (TWord w) \<longleftrightarrow> operandWord w"

section \<open>What a routine yields with some fuel\<close>

definition yields :: "file_system \<Rightarrow> parserMethod \<Rightarrow> string list \<Rightarrow> test_value \<times> string list \<Rightarrow> bool" where
  "yields fs mth args out \<longleftrightarrow> (\<exists>n. testParse n fs mth args = Some out)"

lemma yields_step:
  assumes "testStep fs (testParse n fs) mth args = Some out" shows "yields fs mth args out"
  unfolding yields_def by (rule exI [of _ "Suc n"]) (simp add: assms)

lemma yields_then:
  assumes "yields fs m as (Inr v, rest)" "yields fs (k v) rest out"
  shows "\<exists>n. andThen (testParse n fs m as) (\<lambda>v. testParse n fs (k v)) = Some out"
proof -
  obtain n1 n2 where n: "testParse n1 fs m as = Some (Inr v, rest)" "testParse n2 fs (k v) rest = Some out"
    using assms by (auto simp: yields_def)
  then have "testParse (max n1 n2) fs m as = Some (Inr v, rest)" "testParse (max n1 n2) fs (k v) rest = Some out"
    using parser_mono_le by (meson max.cobounded1 max.cobounded2)+
  then have "andThen (testParse (max n1 n2) fs m as) (\<lambda>v. testParse (max n1 n2) fs (k v)) = Some out"
    by (simp add: andThen_def)
  then show ?thesis by (rule exI)
qed

lemma yields_error:
  assumes "yields fs m as (Inl e, rest)"
  obtains n where "\<And>k. andThen (testParse n fs m as) k = Some (Inl e, rest)"
proof -
  obtain n where "testParse n fs m as = Some (Inl e, rest)" using assms by (auto simp: yields_def)
  then show thesis by (intro that [of n]) (simp add: andThen_def)
qed

lemma yields_value:
  assumes "yields fs m as (Inr v, rest)"
  obtains n where "\<And>k. andThen (testParse n fs m as) k = k v rest"
proof -
  obtain n where "testParse n fs m as = Some (Inr v, rest)" using assms by (auto simp: yields_def)
  then show thesis by (intro that [of n]) (simp add: andThen_def)
qed

text \<open>The rules of the grammar.\<close>

lemma y_or: "yields fs PAnd as (Inr v, rest) \<Longrightarrow> yields fs (OrLoop v) rest out \<Longrightarrow> yields fs POr as out"
  using yields_then [of fs PAnd as v rest OrLoop out] yields_step [of fs _ POr as out]
  by (auto simp: testStep_def)

lemma y_or_error: "yields fs PAnd as (Inl e, rest) \<Longrightarrow> yields fs POr as (Inl e, rest)"
  by (erule yields_error, rule yields_step) (simp add: testStep_def)

lemma y_and: "yields fs PNot as (Inr v, rest) \<Longrightarrow> yields fs (AndLoop v) rest out \<Longrightarrow> yields fs PAnd as out"
  using yields_then [of fs PNot as v rest AndLoop out] yields_step [of fs _ PAnd as out]
  by (auto simp: testStep_def)

lemma y_and_error: "yields fs PNot as (Inl e, rest) \<Longrightarrow> yields fs PAnd as (Inl e, rest)"
  by (erule yields_error, rule yields_step) (simp add: testStep_def)

lemma y_orLoop:
  "yields fs PAnd as (Inr v, rest) \<Longrightarrow> yields fs (OrLoop (left \<or> v)) rest out \<Longrightarrow>
   yields fs (OrLoop left) (''-o'' # as) out"
  using yields_then [of fs PAnd as v rest "\<lambda>v. OrLoop (left \<or> v)" out]
    yields_step [of fs _ "OrLoop left" "''-o'' # as" out]
  by (auto simp: testStep_def takes_def)

lemma y_orLoop_error:
  "yields fs PAnd as (Inl e, rest) \<Longrightarrow> yields fs (OrLoop left) (''-o'' # as) (Inl e, rest)"
  by (erule yields_error, rule yields_step) (simp add: testStep_def takes_def)

lemma y_andLoop:
  "yields fs PNot as (Inr v, rest) \<Longrightarrow> yields fs (AndLoop (left \<and> v)) rest out \<Longrightarrow>
   yields fs (AndLoop left) (''-a'' # as) out"
  using yields_then [of fs PNot as v rest "\<lambda>v. AndLoop (left \<and> v)" out]
    yields_step [of fs _ "AndLoop left" "''-a'' # as" out]
  by (auto simp: testStep_def takes_def)

lemma y_andLoop_error:
  "yields fs PNot as (Inl e, rest) \<Longrightarrow> yields fs (AndLoop left) (''-a'' # as) (Inl e, rest)"
  by (erule yields_error, rule yields_step) (simp add: testStep_def takes_def)

lemma y_loops_stop:
  "\<not> takes ''-o'' as \<Longrightarrow> yields fs (OrLoop v) as (Inr v, as)"
  "\<not> takes ''-a'' as \<Longrightarrow> yields fs (AndLoop v) as (Inr v, as)"
  by (auto simp: testStep_def intro!: yields_step)

lemma y_not: "yields fs PNot as (Inr v, rest) \<Longrightarrow> yields fs PNot (''!'' # as) (Inr (\<not> v), rest)"
  by (erule yields_value, rule yields_step) (simp add: testStep_def takes_def)

lemma y_not_error: "yields fs PNot as (Inl e, rest) \<Longrightarrow> yields fs PNot (''!'' # as) (Inl e, rest)"
  by (erule yields_error, rule yields_step) (simp add: testStep_def takes_def)

lemma y_primary: "\<not> takes ''!'' as \<Longrightarrow> yields fs PPrimary as out \<Longrightarrow> yields fs PNot as out"
  using yields_step [of fs _ PNot as out] by (auto simp: testStep_def yields_def)

lemma y_plain: "\<not> takes ''('' as \<Longrightarrow> yields fs PPrimary as (parsePlain fs as)"
  by (auto simp: testStep_def intro!: yields_step)

lemma y_paren:
  assumes "yields fs POr as (Inr v, '')'' # rest)"
  shows "yields fs PPrimary (''('' # as) (Inr v, rest)"
proof -
  obtain n where "testParse n fs POr as = Some (Inr v, '')'' # rest)"
    using assms by (auto simp: yields_def)
  then show ?thesis by (intro yields_step [of _ n]) (simp add: testStep_def takes_def andThen_def)
qed

lemma y_paren_error: "yields fs POr as (Inl e, rest) \<Longrightarrow> yields fs PPrimary (''('' # as) (Inl e, rest)"
  by (erule yields_error, rule yields_step) (simp add: testStep_def takes_def)

section \<open>Every expression is read back\<close>

text \<open>What may follow an expression: the words end, or a closing parenthesis or an operator of lower
  precedence comes.\<close>

definition follows :: "string list \<Rightarrow> string list \<Rightarrow> bool" where
  "follows stops rest \<longleftrightarrow> rest = [] \<or> hd rest \<in> set stops"

lemma follows_binary: "follows [''-o'', '')'', ''-a''] rest \<Longrightarrow> rest \<noteq> [] \<Longrightarrow> \<not> isTestBinary (hd rest)"
  by (auto simp: follows_def isTestBinary_def testBinaryOps_def)

definition reads :: "file_system \<Rightarrow> parserMethod \<Rightarrow> (bool \<Rightarrow> parserMethod) \<Rightarrow> string list \<Rightarrow> test_value \<Rightarrow> string list \<Rightarrow> bool" where
  "reads fs mth loop words val rest \<longleftrightarrow>
     (case val of
        Inr v \<Rightarrow> \<forall>out. yields fs (loop v) rest out \<longrightarrow> yields fs mth (words @ rest) out
      | Inl e \<Rightarrow> \<exists>r. yields fs mth (words @ rest) (Inl e, r))"

definition readsNot :: "file_system \<Rightarrow> string list \<Rightarrow> test_value \<Rightarrow> string list \<Rightarrow> bool" where
  "readsNot fs words val rest \<longleftrightarrow>
     (case val of
        Inr v \<Rightarrow> yields fs PNot (words @ rest) (Inr v, rest)
      | Inl e \<Rightarrow> \<exists>r. yields fs PNot (words @ rest) (Inl e, r))"

definition level0 :: "file_system \<Rightarrow> string list \<Rightarrow> test_value \<Rightarrow> bool" where
  "level0 fs words val \<longleftrightarrow> (\<forall>rest. follows [''-o'', '')''] rest \<longrightarrow> reads fs POr OrLoop words val rest)"

definition level1 :: "file_system \<Rightarrow> string list \<Rightarrow> test_value \<Rightarrow> bool" where
  "level1 fs words val \<longleftrightarrow> (\<forall>rest. follows [''-o'', '')'', ''-a''] rest \<longrightarrow> reads fs PAnd AndLoop words val rest)"

definition level2 :: "file_system \<Rightarrow> string list \<Rightarrow> test_value \<Rightarrow> bool" where
  "level2 fs words val \<longleftrightarrow> (\<forall>rest. follows [''-o'', '')'', ''-a''] rest \<longrightarrow> readsNot fs words val rest)"

lemma level1_of_2: "level2 fs words val \<Longrightarrow> level1 fs words val"
  by (cases val) (auto simp: level1_def level2_def reads_def readsNot_def intro: y_and, blast intro: y_and_error)

lemma level0_of_1:
  assumes "level1 fs words val" shows "level0 fs words val"
  unfolding level0_def
proof (intro allI impI)
  fix rest assume f: "follows [''-o'', '')''] rest"
  then have r: "reads fs PAnd AndLoop words val rest" and na: "\<not> takes ''-a'' rest"
    using assms by (auto simp: level1_def follows_def takes_def)
  show "reads fs POr OrLoop words val rest"
  proof (cases val)
    case (Inl e)
    with r show ?thesis by (auto simp: reads_def dest: y_or_error)
  next
    case (Inr v)
    with r y_loops_stop(2) [OF na] have "yields fs PAnd (words @ rest) (Inr v, rest)"
      by (auto simp: reads_def)
    with Inr show ?thesis by (auto simp: reads_def intro: y_or)
  qed
qed

lemma level2_paren:
  assumes "level0 fs words val" shows "level2 fs (paren True words) val"
  unfolding level2_def
proof (intro allI impI)
  fix rest assume f: "follows [''-o'', '')'', ''-a''] rest"
  have r: "reads fs POr OrLoop words val ('')'' # rest)"
    using assms by (simp add: level0_def follows_def)
  have n: "\<not> takes ''!'' (''('' # words @ '')'' # rest)" by (simp add: takes_def)
  show "readsNot fs (paren True words) val rest"
  proof (cases val)
    case (Inl e)
    then obtain q where "yields fs POr (words @ '')'' # rest) (Inl e, q)" using r by (auto simp: reads_def)
    from y_primary [OF n y_paren_error [OF this]] Inl show ?thesis
      by (auto simp: readsNot_def paren_def)
  next
    case (Inr v)
    have "yields fs (OrLoop v) ('')'' # rest) (Inr v, '')'' # rest)"
      by (rule y_loops_stop) (simp add: takes_def)
    then have "yields fs POr (words @ '')'' # rest) (Inr v, '')'' # rest)"
      using r Inr by (simp add: reads_def)
    from y_primary [OF n y_paren [OF this]] Inr show ?thesis
      by (simp add: readsNot_def paren_def)
  qed
qed

lemma level0_or:
  assumes "level0 fs ws1 v1" "level1 fs ws2 v2"
  shows "level0 fs (ws1 @ ''-o'' # ws2) (both (\<or>) v1 v2)"
  unfolding level0_def
proof (intro allI impI)
  fix rest assume f: "follows [''-o'', '')''] rest"
  have r1: "reads fs POr OrLoop ws1 v1 (''-o'' # ws2 @ rest)"
    using assms(1) by (simp add: level0_def follows_def)
  have r2: "reads fs PAnd AndLoop ws2 v2 rest" and na: "\<not> takes ''-a'' rest"
    using assms(2) f by (auto simp: level1_def follows_def takes_def)
  show "reads fs POr OrLoop (ws1 @ ''-o'' # ws2) (both (\<or>) v1 v2) rest"
  proof (cases v1)
    case (Inl e) with r1 show ?thesis by (auto simp: reads_def both_def)
  next
    case v1: (Inr a)
    show ?thesis
    proof (cases v2)
      case (Inl e)
      with r2 have "\<exists>q. yields fs (OrLoop a) (''-o'' # ws2 @ rest) (Inl e, q)"
        by (auto simp: reads_def dest: y_orLoop_error)
      with r1 v1 Inl show ?thesis by (auto simp: reads_def both_def)
    next
      case (Inr b)
      with r2 y_loops_stop(2) [OF na] have "yields fs PAnd (ws2 @ rest) (Inr b, rest)" by (auto simp: reads_def)
      from y_orLoop [OF this] r1 v1 Inr show ?thesis by (auto simp: reads_def both_def)
    qed
  qed
qed

lemma level1_and:
  assumes "level1 fs ws1 v1" "level2 fs ws2 v2"
  shows "level1 fs (ws1 @ ''-a'' # ws2) (both (\<and>) v1 v2)"
  unfolding level1_def
proof (intro allI impI)
  fix rest assume f: "follows [''-o'', '')'', ''-a''] rest"
  have r1: "reads fs PAnd AndLoop ws1 v1 (''-a'' # ws2 @ rest)"
    using assms(1) by (simp add: level1_def follows_def)
  have r2: "readsNot fs ws2 v2 rest" using assms(2) f by (auto simp: level2_def)
  show "reads fs PAnd AndLoop (ws1 @ ''-a'' # ws2) (both (\<and>) v1 v2) rest"
  proof (cases v1)
    case (Inl e) with r1 show ?thesis by (auto simp: reads_def both_def)
  next
    case v1: (Inr a)
    show ?thesis
    proof (cases v2)
      case (Inl e)
      with r2 have "\<exists>q. yields fs (AndLoop a) (''-a'' # ws2 @ rest) (Inl e, q)"
        by (auto simp: readsNot_def dest: y_andLoop_error)
      with r1 v1 Inl show ?thesis by (auto simp: reads_def both_def)
    next
      case (Inr b)
      with r2 have "yields fs PNot (ws2 @ rest) (Inr b, rest)" by (simp add: readsNot_def)
      from y_andLoop [OF this] r1 v1 Inr show ?thesis by (auto simp: reads_def both_def)
    qed
  qed
qed

lemma level2_not: "level2 fs ws v \<Longrightarrow> level2 fs (''!'' # ws) (map_sum id Not v)"
  by (cases v) (auto simp: level2_def readsNot_def intro: y_not dest: y_not_error)

lemma level2_plain:
  assumes "ws \<noteq> []" "hd ws \<noteq> ''!''" "hd ws \<noteq> ''(''"
    and "\<And>rest. follows [''-o'', '')'', ''-a''] rest \<Longrightarrow> parsePlain fs (ws @ rest) = (v, rest)"
  shows "level2 fs ws v"
  unfolding level2_def
proof (intro allI impI)
  fix rest assume f: "follows [''-o'', '')'', ''-a''] rest"
  have "\<not> takes ''!'' (ws @ rest)" "\<not> takes ''('' (ws @ rest)" using assms(1-3) by (cases ws; simp add: takes_def)+
  from y_primary [OF this(1) y_plain [OF this(2), of fs]] assms(4) [OF f]
  show "readsNot fs ws v rest" by (auto simp: readsNot_def split: sum.split)
qed

lemma levels:
  "wfT e \<Longrightarrow> level0 fs (showT 0 e) (evalT fs e) \<and> level1 fs (showT 1 e) (evalT fs e) \<and>
   level2 fs (showT 2 e) (evalT fs e)"
proof (induction e)
  case (TOr a b)
  then have "level0 fs (showT 0 (TOr a b)) (evalT fs (TOr a b))"
    using level0_or by (simp add: paren_def)
  with level2_paren [OF this] show ?case
    by (auto simp: paren_def intro: level1_of_2)
next
  case (TAnd a b)
  then have 1: "level1 fs (showT 1 (TAnd a b)) (evalT fs (TAnd a b))"
    using level1_and by (simp add: paren_def)
  with level0_of_1 [OF 1] level2_paren [OF level0_of_1 [OF 1]] show ?case
    by (simp add: paren_def)
next
  case (TNot a)
  then have "level2 fs (showT 2 (TNot a)) (evalT fs (TNot a))" using level2_not by simp
  then show ?case using level1_of_2 level0_of_1 by simp
next
  case (TUnary w val)
  then have "level2 fs [w, val] (evalTestUnary fs w val)"
    by (intro level2_plain) (auto simp: parsePlain_def isTestUnary_def testUnaryOps_def)
  then show ?case using level1_of_2 level0_of_1 by simp
next
  case (TBinary a w b)
  then have "level2 fs [a, w, b] (evalTestBinary fs a w b)"
    by (intro level2_plain) (auto simp: parsePlain_def operandWord_def)
  then show ?case using level1_of_2 level0_of_1 by simp
next
  case (TWord w)
  then have "level2 fs [w] (Inr (w \<noteq> []))"
    by (intro level2_plain) (auto simp: parsePlain_def operandWord_def split: list.splits dest: follows_binary)
  then show ?case using level1_of_2 level0_of_1 by simp
qed

text \<open>The short word lists, which the command decides without the parser.\<close>

lemma showT_nonempty: "showT l e \<noteq> []"
  by (cases e) (simp_all add: paren_def)

lemma showT_pos: "1 \<le> length (showT l e)"
  using showT_nonempty [of l e] by (cases "showT l e") auto

lemma showT_one: "length (showT l e) = 1 \<Longrightarrow> \<exists>w. e = TWord w"
  by (cases e) (auto simp: paren_def showT_nonempty split: if_splits)

lemma showT_two: "length (showT l e) = 2 \<Longrightarrow> (\<exists>w v. e = TUnary w v) \<or> (\<exists>w. e = TNot (TWord w))"
proof (cases e)
  case (TNot a)
  then show "length (showT l e) = 2 \<Longrightarrow> ?thesis" using showT_one [of 2 a] by auto
next
  case (TOr a b)
  then show "length (showT l e) = 2 \<Longrightarrow> ?thesis" using showT_pos [of 0 a] showT_pos [of 1 b]
    by (auto simp: paren_def split: if_splits)
next
  case (TAnd a b)
  then show "length (showT l e) = 2 \<Longrightarrow> ?thesis" using showT_pos [of 1 a] showT_pos [of 2 b]
    by (auto simp: paren_def split: if_splits)
qed auto

lemma infix_middle:
  assumes "length (ws1 @ w # ws2) = 3" "1 \<le> length ws1" "1 \<le> length ws2"
  shows "(ws1 @ w # ws2) ! 1 = w"
proof -
  have "length ws1 = 1" using assms by auto
  then show ?thesis by (simp add: nth_append)
qed

lemma showT_three:
  assumes "length (showT 0 e) = 3" "isTestBinary (showT 0 e ! 1)" "wfT e"
  shows "\<exists>a w b. e = TBinary a w b"
proof (cases e)
  case (TOr a b)
  with assms(1) have "showT 0 e ! 1 = ''-o''"
    using infix_middle [of "showT 0 a" "''-o''" "showT 1 b"] showT_pos [of 0 a] showT_pos [of 1 b]
    by (simp add: paren_def)
  with assms(2) show ?thesis by (simp add: isTestBinary_def testBinaryOps_def)
next
  case (TAnd a b)
  with assms(1) have "showT 0 e ! 1 = ''-a''"
    using infix_middle [of "showT 1 a" "''-a''" "showT 2 b"] showT_pos [of 1 a] showT_pos [of 2 b]
    by (simp add: paren_def)
  with assms(2) show ?thesis by (simp add: isTestBinary_def testBinaryOps_def)
next
  case (TNot a)
  with assms(1) have "length (showT 2 a) = 2" by simp
  with showT_two [OF this] TNot assms(2,3) show ?thesis
    by (auto simp: isTestBinary_def testBinaryOps_def isTestUnary_def testUnaryOps_def)
qed (use assms in auto)

text \<open>C25: the parser returns on every word list, and every expression written with the parentheses its
  precedence needs evaluates to its value, with status 2 for an error in an operand.\<close>

theorem test_reads_grammar:
  assumes "wfT e"
  shows "cmdTest fs (showT 0 e) = Some (testStatus (evalT fs e)) \<and> (\<forall>args. cmdTest fs args \<noteq> None)"
proof -
  have total: "\<exists>v rest. testParse (testFuel args) fs POr args = Some (v, rest)" for args
    using parser_returns [of args POr "testFuel args" fs] by (auto simp: testFuel_def)
  have "cmdTest fs args \<noteq> None" for args
    using total [of args] by (auto simp: cmdTest_def runTestExpression_def split: sum.split list.split)
  moreover have "cmdTest fs (showT 0 e) = Some (testStatus (evalT fs e))"
  proof -
    have "level0 fs (showT 0 e) (evalT fs e)" using levels [OF assms] by blast
    then have r: "reads fs POr OrLoop (showT 0 e) (evalT fs e) []" by (simp add: level0_def follows_def)
    have "\<exists>r. yields fs POr (showT 0 e) (evalT fs e, r) \<and> (isl (evalT fs e) \<or> r = [])"
    proof (cases "evalT fs e")
      case (Inr v)
      have "yields fs (OrLoop v) [] (Inr v, [])" by (rule y_loops_stop) (simp add: takes_def)
      with r Inr show ?thesis by (auto simp: reads_def)
    qed (use r in \<open>auto simp: reads_def\<close>)
    then obtain n q where n: "testParse n fs POr (showT 0 e) = Some (evalT fs e, q)"
        and q: "isl (evalT fs e) \<or> q = []"
      by (auto simp: yields_def)
    obtain v rest where t: "testParse (testFuel (showT 0 e)) fs POr (showT 0 e) = Some (v, rest)"
      using total by blast
    from parser_mono_le [OF n, of "max n (testFuel (showT 0 e))"]
      parser_mono_le [OF t, of "max n (testFuel (showT 0 e))"]
    have same: "v = evalT fs e" "rest = q" by simp_all
    have two: "length (showT 0 e) = 2 \<Longrightarrow> showT 0 e ! 0 = ''!'' \<Longrightarrow> \<exists>w. e = TNot (TWord w)"
      using showT_two [of 0 e] assms by (auto simp: isTestUnary_def testUnaryOps_def)
    consider "length (showT 0 e) = 1" | "length (showT 0 e) = 2 \<and> showT 0 e ! 0 = ''!''"
      | "length (showT 0 e) = 3 \<and> isTestBinary (showT 0 e ! 1)"
      | "length (showT 0 e) \<noteq> 1" "\<not> (length (showT 0 e) = 2 \<and> showT 0 e ! 0 = ''!'')"
        "\<not> (length (showT 0 e) = 3 \<and> isTestBinary (showT 0 e ! 1))" by blast
    then show ?thesis
    proof cases
      case 1
      with showT_one [of 0 e] show ?thesis by (auto simp: cmdTest_def runTestExpression_def testStatus_def)
    next
      case 2
      with two show ?thesis by (auto simp: cmdTest_def runTestExpression_def testStatus_def)
    next
      case 3
      with showT_three [of e] assms obtain a w b where "e = TBinary a w b" by blast
      with 3 show ?thesis by (simp add: cmdTest_def runTestExpression_def)
    next
      case 4
      then have "cmdTest fs (showT 0 e) = (case testParse (testFuel (showT 0 e)) fs POr (showT 0 e) of
              None \<Rightarrow> None
            | Some (Inr val, []) \<Rightarrow> Some (testStatus (Inr val))
            | Some (Inr val, w # rest) \<Rightarrow> Some (testStatus (Inl (UnexpectedOperand w)))
            | Some (Inl e, rest) \<Rightarrow> Some (testStatus (Inl e)))"
        by (simp only: cmdTest_def runTestExpression_def showT_nonempty if_False)
      with t q show ?thesis unfolding same by (cases "evalT fs e") auto
    qed
  qed
  ultimately show ?thesis by blast
qed

theorem test_reads_grammar_witness:
  "\<forall>fs. cmdTest fs [''('', ''-n'', ''a'', ''-o'', ''!'', ''-z'', '''', '')'', ''-a'', ''3'', ''-lt'', ''10''] = Some 0"
proof
  fix fs
  let ?e = "TAnd (TOr (TUnary ''-n'' ''a'') (TNot (TUnary ''-z'' '''')))  (TBinary ''3'' ''-lt'' ''10'')"
  have "wfT ?e" by (simp add: operandWord_def isTestUnary_def testUnaryOps_def isTestBinary_def testBinaryOps_def)
  from test_reads_grammar [OF this, of fs]
  show "cmdTest fs [''('', ''-n'', ''a'', ''-o'', ''!'', ''-z'', '''', '')'', ''-a'', ''3'', ''-lt'', ''10''] = Some 0"
    by (simp add: paren_def both_def evalTestUnary_def evalTestBinary_def evalIntegers_def testStatus_def
        parseInt64_def parseUint_def digitVal_def ord_def)
qed

end
