(* ===== verification/Quote.thy ===== *)
theory Quote
  imports TextIO
begin

text \<open>
  Helpers of \<open>util.go\<close>: splitting clusters of short options, quoting names for diagnostics, and the
  permission bits of a file mode.  The reader \<open>shellWord\<close> is the specification of the quoting: what bash
  makes of a word, when that is a literal name.
\<close>

section \<open>Short options\<close>

text \<open>One cluster: every letter becomes an option of its own; a letter that takes a value ends the
  cluster and the rest of the word is its value.  A byte is converted to a string as a code point.\<close>

fun splitCluster :: "string \<Rightarrow> string \<Rightarrow> string list" where
  "splitCluster withValue [] = []"
| "splitCluster withValue (c # cs) =
     (CHR ''-'' # utf8Encode (ord c)) #
     (if c \<in> set withValue then (if cs = [] then [] else [cs]) else splitCluster withValue cs)"

fun expandShortOptions :: "string \<Rightarrow> string list \<Rightarrow> string list" where
  "expandShortOptions withValue [] = []"
| "expandShortOptions withValue (arg # args) =
     (if arg = ''--'' then arg # args
      else if length arg < 3 \<or> arg ! 0 \<noteq> CHR ''-'' \<or> arg ! 1 = CHR ''-''
      then arg # expandShortOptions withValue args
      else splitCluster withValue (drop 1 arg) @ expandShortOptions withValue args)"

section \<open>Quoting\<close>

definition singleQuote :: char where "singleQuote = chr 39"
definition doubleQuote :: char where "doubleQuote = chr 34"

definition shellNameBare :: string where
  "shellNameBare = ''#%+,-./@]_{}~''"

definition shellNameDoubleQuotable :: string where
  "shellNameDoubleQuotable = '' %'' @ singleQuote # ''+,-./:@]_''"

definition shellNameByteIsAlnum :: "char \<Rightarrow> bool" where
  "shellNameByteIsAlnum b \<longleftrightarrow>
     (97 \<le> ord b \<and> ord b \<le> 122) \<or> (65 \<le> ord b \<and> ord b \<le> 90) \<or> (48 \<le> ord b \<and> ord b \<le> 57)"

definition shellNameByteIsSafe :: "char \<Rightarrow> bool" where
  "shellNameByteIsSafe b \<longleftrightarrow>
     shellNameByteIsAlnum b \<or> 0x80 \<le> ord b \<or> b \<in> set shellNameBare"

definition isControl :: "char \<Rightarrow> bool" where
  "isControl b \<longleftrightarrow> ord b < 0x20 \<or> ord b = 0x7f"

text \<open>The verb \<open>\<close>\<open>%03o\<close> on a byte.\<close>

definition showOct3 :: "char \<Rightarrow> string" where
  "showOct3 b = [digitChar (ord b div 64), digitChar (ord b div 8 mod 8), digitChar (ord b mod 8)]"

definition ansiCEscape :: "char \<Rightarrow> string" where
  "ansiCEscape b =
     backslash #
     (if ord b = 7 then ''a'' else if ord b = 8 then ''b'' else if ord b = 9 then ''t''
      else if ord b = 10 then ''n'' else if ord b = 11 then ''v'' else if ord b = 12 then ''f''
      else if ord b = 13 then ''r'' else showOct3 b)"

definition quoteLocaleByte :: "char \<Rightarrow> string" where
  "quoteLocaleByte c =
     (if c = backslash then [backslash, backslash]
      else if ord c = 10 then backslash # ''n''
      else if ord c = 9 then backslash # ''t''
      else if ord c = 13 then backslash # ''r''
      else if isControl c then backslash # showOct3 c
      else [c])"

definition quoteLocaleName :: "string \<Rightarrow> string" where
  "quoteLocaleName value = singleQuote # concat (map quoteLocaleByte value) @ [singleQuote]"

text \<open>The loop over a name that needs quoting: \<open>quoted\<close> means that a run of single quotes is open,
  \<open>pending\<close> that an escaped quote was the last thing written.\<close>

definition leaveRun :: "bool \<Rightarrow> bool \<Rightarrow> string" where
  "leaveRun quoted pending =
     (if quoted then [singleQuote] else if pending then [singleQuote, singleQuote] else [])"

function quoteLoop :: "bool \<Rightarrow> bool \<Rightarrow> string \<Rightarrow> string" where
  "quoteLoop quoted pending [] = leaveRun quoted pending"
| "quoteLoop quoted pending (b # s) =
     (if b = singleQuote
      then leaveRun quoted pending @ [backslash, singleQuote] @ quoteLoop False True s
      else if isControl b
      then leaveRun quoted pending @ CHR ''$'' # singleQuote #
           concat (map ansiCEscape (takeWhile isControl (b # s))) @
           singleQuote # quoteLoop False False (dropWhile isControl s)
      else (if quoted then [] else [singleQuote]) @ b # quoteLoop True False s)"
  by pat_completeness auto
termination
  by (relation "measure (\<lambda>(q, p, s). length s)") (auto simp: le_imp_less_Suc length_dropWhile_le)

definition shellQuoteName :: "string \<Rightarrow> string" where
  "shellQuoteName name =
     (if name = [] then [singleQuote, singleQuote]
      else if \<forall>b \<in> set name. shellNameByteIsSafe b then name
      else if singleQuote \<in> set name \<and>
              (\<forall>b \<in> set name. shellNameByteIsAlnum b \<or> 0x80 \<le> ord b \<or> b \<in> set shellNameDoubleQuotable)
      then doubleQuote # name @ [doubleQuote]
      else quoteLoop False False name)"

definition quoteForceName :: "string \<Rightarrow> string" where
  "quoteForceName name =
     (if shellQuoteName name \<noteq> name then shellQuoteName name else singleQuote # name @ [singleQuote])"

section \<open>File modes\<close>

definition fileModeFromOctal :: "u64 \<Rightarrow> fileMode" where
  "fileModeFromOctal bits =
     ucast (bits AND 0x1FF) OR
     (if bits AND 0x800 \<noteq> 0 then modeSetuid else 0) OR
     (if bits AND 0x400 \<noteq> 0 then modeSetgid else 0) OR
     (if bits AND 0x200 \<noteq> 0 then modeSticky else 0)"

definition octalFromFileMode :: "fileMode \<Rightarrow> u64" where
  "octalFromFileMode mode =
     ucast (mode AND 0x1FF) OR
     (if modeHas mode modeSetuid then 0x800 else 0) OR
     (if modeHas mode modeSetgid then 0x400 else 0) OR
     (if modeHas mode modeSticky then 0x200 else 0)"

section \<open>Reading a quoted word\<close>

text \<open>
  How bash reads one word: text in single quotes is literal, text in double quotes too unless it
  holds a byte that is special there, a backslash quotes one byte, and the form with a dollar sign
  takes the escapes of ANSI C.  Outside quotes a byte that is special to the shell, and at the start
  of the word a number sign or a tilde, is not part of a literal word; nor is an opening brace outside
  quotes that a comma or two dots and then a closing brace follow outside quotes, since the shell may
  expand it.  The reader keeps for every byte of the name whether it was quoted.
\<close>

datatype quote_state = Plain | InSingle | InDouble | InAnsi

definition backQuote :: char where "backQuote = chr 96"

definition shellSpecials :: string where
  "shellSpecials = chr 9 # chr 10 # doubleQuote # backQuote # '' |&;<>()$*?[''"

definition escapeLetter :: "char \<Rightarrow> char option" where
  "escapeLetter c =
     map_of (zip ''abtnvfr'' (map chr [7, 8, 9, 10, 11, 12, 13])) c"

definition octDigit :: "char \<Rightarrow> nat" where
  "octDigit c = ord c - 48"

type_synonym word_bytes = "(bool \<times> char) list"

abbreviation quotedBytes :: "string \<Rightarrow> word_bytes" where
  "quotedBytes \<equiv> map (Pair True)"

abbreviation bareBytes :: "string \<Rightarrow> word_bytes" where
  "bareBytes \<equiv> map (Pair False)"

function unquote :: "quote_state \<Rightarrow> string \<Rightarrow> word_bytes option" where
  "unquote q [] = (if q = Plain then Some [] else None)"
| "unquote Plain (c # s) =
     (if c = singleQuote then unquote InSingle s
      else if c = CHR ''$'' \<and> s \<noteq> [] \<and> hd s = singleQuote then unquote InAnsi (tl s)
      else if c = doubleQuote then unquote InDouble s
      else if c = backslash
      then (if s = [] then None else map_option ((#) (True, hd s)) (unquote Plain (tl s)))
      else if c \<in> set shellSpecials then None
      else map_option ((#) (False, c)) (unquote Plain s))"
| "unquote InSingle (c # s) =
     (if c = singleQuote then unquote Plain s else map_option ((#) (True, c)) (unquote InSingle s))"
| "unquote InDouble (c # s) =
     (if c = doubleQuote then unquote Plain s
      else if c \<in> {CHR ''$'', backQuote, backslash} then None
      else map_option ((#) (True, c)) (unquote InDouble s))"
| "unquote InAnsi (c # s) =
     (if c = singleQuote then unquote Plain s
      else if c \<noteq> backslash then map_option ((#) (True, c)) (unquote InAnsi s)
      else if s = [] then None
      else (case escapeLetter (hd s) of
              Some x \<Rightarrow> map_option ((#) (True, x)) (unquote InAnsi (tl s))
            | None \<Rightarrow>
                map_option
                  ((#) (True, chr (octDigit (s ! 0) * 64 + octDigit (s ! 1) * 8 + octDigit (s ! 2))))
                  (unquote InAnsi (drop 3 s))))"
  by pat_completeness auto
termination
  by (relation "measure (\<lambda>(q, s). length s)") auto

fun textAfter :: "string \<Rightarrow> string \<Rightarrow> string option" where
  "textAfter sep [] = None"
| "textAfter sep (c # s) =
     (if take (length sep) (c # s) = sep then Some (drop (length sep) (c # s)) else textAfter sep s)"

definition braceExpands :: "string \<Rightarrow> bool" where
  "braceExpands s =
     (case textAfter ''{'' s of
        None \<Rightarrow> False
      | Some t \<Rightarrow>
          list_ex (\<lambda>sep. case textAfter sep t of None \<Rightarrow> False | Some u \<Rightarrow> CHR ''}'' \<in> set u)
            ['','', ''..''])"

definition startsSpecial :: "string \<Rightarrow> bool" where
  "startsSpecial s \<longleftrightarrow> s \<noteq> [] \<and> hd s \<in> {CHR ''#'', CHR ''~''}"

definition shellWord :: "string \<Rightarrow> string option" where
  "shellWord s =
     (if startsSpecial s then None
      else case unquote Plain s of
             None \<Rightarrow> None
           | Some w \<Rightarrow>
               (if braceExpands (map snd (filter (Not \<circ> fst) w)) then None else Some (map snd w)))"

lemma quote_chars [simp]:
  "ord singleQuote = 39" "ord doubleQuote = 34" "ord backslash = 92" "ord backQuote = 96"
  by (simp_all add: singleQuote_def doubleQuote_def backslash_def backQuote_def)

lemma char_neqI: "ord a \<noteq> ord b \<Longrightarrow> a \<noteq> b"
  by auto

lemma specials_unsafe: "c \<in> set shellSpecials \<or> c \<in> {singleQuote, doubleQuote, backslash, CHR ''$''} \<Longrightarrow> \<not> shellNameByteIsSafe c"
proof -
  have "ord ` set shellNameBare = {35, 37, 43, 44, 45, 46, 47, 64, 93, 95, 123, 125, 126}"
    by (simp add: shellNameBare_def ord_def)
  moreover assume "c \<in> set shellSpecials \<or> c \<in> {singleQuote, doubleQuote, backslash, CHR ''$''}"
  then have "ord c \<in> {9, 10, 34, 96, 32, 124, 38, 59, 60, 62, 40, 41, 36, 42, 63, 91, 39, 92}"
    by (auto simp: shellSpecials_def) (simp_all add: ord_def)
  ultimately have "ord c \<in> {9, 10, 34, 96, 32, 124, 38, 59, 60, 62, 40, 41, 36, 42, 63, 91, 39, 92}"
      "c \<in> set shellNameBare \<Longrightarrow> ord c \<in> {35, 37, 43, 44, 45, 46, 47, 64, 93, 95, 123, 125, 126}"
    by blast+
  then show ?thesis
    by (auto simp: shellNameByteIsSafe_def shellNameByteIsAlnum_def)
qed

lemma safe_plain:
  "shellNameByteIsSafe c \<Longrightarrow> c \<notin> set shellSpecials \<and> c \<noteq> singleQuote \<and> c \<noteq> doubleQuote \<and>
     c \<noteq> backslash \<and> c \<noteq> CHR ''$''"
  using specials_unsafe [of c] by blast

lemma unquote_bare: "\<forall>b \<in> set s. shellNameByteIsSafe b \<Longrightarrow> unquote Plain s = Some (bareBytes s)"
proof (induction s)
  case (Cons c s)
  then show ?case using safe_plain [of c] by simp
qed simp

lemma unquote_double:
  "\<forall>b \<in> set s. b \<notin> {doubleQuote, CHR ''$'', backQuote, backslash} \<Longrightarrow>
   unquote InDouble (s @ [doubleQuote]) = Some (quotedBytes s)"
  by (induction s) auto

lemma doubleQuotable:
  "shellNameByteIsAlnum b \<or> 0x80 \<le> ord b \<or> b \<in> set shellNameDoubleQuotable \<Longrightarrow>
   b \<notin> {doubleQuote, CHR ''$'', backQuote, backslash}"
proof -
  have "ord ` set shellNameDoubleQuotable = {32, 37, 39, 43, 44, 45, 46, 47, 58, 64, 93, 95}"
    by (simp add: shellNameDoubleQuotable_def) (simp add: ord_def)
  moreover assume "shellNameByteIsAlnum b \<or> 0x80 \<le> ord b \<or> b \<in> set shellNameDoubleQuotable"
  ultimately have "shellNameByteIsAlnum b \<or> 0x80 \<le> ord b \<or>
      ord b \<in> {32, 37, 39, 43, 44, 45, 46, 47, 58, 64, 93, 95}"
    by blast
  then have "ord b \<notin> {34, 36, 96, 92}"
    by (auto simp: shellNameByteIsAlnum_def)
  moreover have "ord (CHR ''$'') = 36" by (simp add: ord_def)
  ultimately show ?thesis by auto
qed

lemma control_byte: "isControl c \<Longrightarrow> c \<noteq> singleQuote \<and> c \<noteq> backslash"
  by (auto simp: isControl_def)

lemma ord_chr_digit: "n < 8 \<Longrightarrow> ord (chr (48 + n)) = 48 + n"
  by simp

lemma oct_digit: "n < 8 \<Longrightarrow> octDigit (digitChar n) = n \<and> escapeLetter (digitChar n) = None"
proof -
  assume n: "n < 8"
  then have "digitChar n = chr (48 + n)" by (simp add: digitChar_def)
  moreover have "ord (chr (48 + n)) = 48 + n" using n by simp
  moreover have "48 + n \<notin> ord ` set ''abtnvfr''" using n by (simp add: ord_def)
  then have "chr (48 + n) \<notin> set ''abtnvfr''"
    using imageI [of "chr (48 + n)" "set ''abtnvfr''" ord] n by (metis ord_chr_digit)
  ultimately show ?thesis by (simp add: octDigit_def escapeLetter_def)
qed

lemma unquote_escape:
  assumes "isControl c"
  shows "unquote InAnsi (ansiCEscape c @ t) = map_option ((#) (True, c)) (unquote InAnsi t)"
proof (cases "7 \<le> ord c \<and> ord c \<le> 13")
  case True
  then have "ord c = 7 \<or> ord c = 8 \<or> ord c = 9 \<or> ord c = 10 \<or> ord c = 11 \<or> ord c = 12 \<or> ord c = 13" by linarith
  moreover have "ord c = k \<Longrightarrow> chr k = c" for k by auto
  ultimately have "\<exists>l. ansiCEscape c = [backslash, l] \<and> escapeLetter l = Some c"
    by (elim disjE; simp add: ansiCEscape_def escapeLetter_def)
  moreover have "backslash \<noteq> singleQuote" by (rule char_neqI) simp
  ultimately show ?thesis by auto
next
  case False
  note n = octal_digits [of c]
  have "singleQuote \<noteq> backslash" by (rule char_neqI) simp
  moreover have "ord c \<noteq> 7 \<and> ord c \<noteq> 8 \<and> ord c \<noteq> 9 \<and> ord c \<noteq> 10 \<and> ord c \<noteq> 11 \<and> ord c \<noteq> 12 \<and> ord c \<noteq> 13"
    using False by auto
  then have "ansiCEscape c = backslash # showOct3 c" by (simp add: ansiCEscape_def)
  ultimately show ?thesis
    using n by (simp add: showOct3_def oct_digit)
qed

lemma unquote_escapes:
  "\<forall>c \<in> set cs. isControl c \<Longrightarrow>
   unquote InAnsi (concat (map ansiCEscape cs) @ singleQuote # t) = map_option ((@) (quotedBytes cs)) (unquote Plain t)"
proof (induction cs)
  case (Cons c cs)
  then show ?case by (cases "unquote Plain t") (simp_all add: unquote_escape)
qed (cases "unquote Plain t"; simp)

lemma quoteLoop_read:
  "\<not> (quoted \<and> pending) \<Longrightarrow>
   unquote (if quoted then InSingle else Plain) (quoteLoop quoted pending s) = Some (quotedBytes s)"
proof (induction quoted pending s rule: quoteLoop.induct)
  case (1 quoted pending)
  then show ?case by (simp add: leaveRun_def)
next
  case (2 quoted pending b s)
  have leave: "unquote (if quoted then InSingle else Plain) (leaveRun quoted pending @ t) = unquote Plain t" for t
    using 2(4) by (simp add: leaveRun_def)
  have c: "backslash \<noteq> singleQuote" "backslash \<noteq> doubleQuote" "CHR ''$'' \<noteq> singleQuote"
    by (auto intro!: char_neqI simp: ord_def [of "CHR ''$''"])
  have cbs: "backslash \<noteq> CHR ''$''" by (rule char_neqI) (simp add: ord_def [of "CHR ''$''"])
  show ?case
  proof (cases "b = singleQuote")
    case True
    then show ?thesis using 2(1) leave c cbs by simp
  next
    case nq: False
    show ?thesis
    proof (cases "isControl b")
      case True
      have "\<forall>x \<in> set (takeWhile isControl (b # s)). isControl x" by (auto dest: set_takeWhileD)
      from unquote_escapes [OF this, of "quoteLoop False False (dropWhile isControl s)"]
      have "unquote InAnsi (concat (map ansiCEscape (takeWhile isControl (b # s))) @ singleQuote #
          quoteLoop False False (dropWhile isControl s)) = Some (quotedBytes (b # s))"
        using 2(2) [OF nq True] True by (simp flip: map_append)
      then show ?thesis using nq True leave c by (simp del: takeWhile.simps list.map)
    next
      case False
      then show ?thesis using nq 2(3) [OF nq False] 2(4) by auto
    qed
  qed
qed

lemma shellWord_quoted:
  "\<not> startsSpecial s \<Longrightarrow> unquote Plain s = Some (quotedBytes name) \<Longrightarrow> shellWord s = Some name"
  by (simp add: shellWord_def comp_def braceExpands_def)

lemma shellWord_bare:
  "\<forall>b \<in> set name. shellNameByteIsSafe b \<Longrightarrow>
   shellWord name = (if startsSpecial name \<or> braceExpands name then None else Some name)"
  by (simp add: shellWord_def unquote_bare comp_def)

lemma quote_not_special:
  "c \<in> {singleQuote, doubleQuote, backslash, CHR ''$''} \<Longrightarrow> \<not> startsSpecial (c # s)"
proof -
  assume "c \<in> {singleQuote, doubleQuote, backslash, CHR ''$''}"
  then have "c \<noteq> CHR ''#'' \<and> c \<noteq> CHR ''~''"
    by (auto intro!: char_neqI simp: ord_def [of "CHR ''#''"] ord_def [of "CHR ''~''"] ord_def [of "CHR ''$''"])
  then show ?thesis by (simp add: startsSpecial_def)
qed

lemma quoteLoop_not_special:
  "name \<noteq> [] \<Longrightarrow> \<not> startsSpecial (quoteLoop False False name)"
  by (cases name) (auto simp: leaveRun_def intro!: quote_not_special)

text \<open>C38: which printed names read back: a shell that reads the printed form as one word gets the name
  when the form is quoted, whatever bytes the name has, and when it is printed bare, unless it starts
  with a number sign or a tilde or holds braces the shell may expand; those names the quoting leaves
  bare are not literal words.\<close>

theorem quoted_name_reads_back:
  "shellWord (shellQuoteName name) =
     (if (\<forall>b \<in> set name. shellNameByteIsSafe b) \<and> (startsSpecial name \<or> braceExpands name)
      then None else Some name)"
proof (cases "name = [] \<or> (\<forall>b \<in> set name. shellNameByteIsSafe b)")
  case True
  then show ?thesis
    using quote_not_special [of singleQuote "[singleQuote]"] shellWord_quoted [of "[singleQuote, singleQuote]" "[]"]
    by (auto simp: shellQuoteName_def shellWord_bare startsSpecial_def braceExpands_def)
next
  case False
  have "shellWord (shellQuoteName name) = Some name"
  proof (cases "singleQuote \<in> set name \<and>
      (\<forall>b \<in> set name. shellNameByteIsAlnum b \<or> 0x80 \<le> ord b \<or> b \<in> set shellNameDoubleQuotable)")
    case True
    then have "unquote InDouble (name @ [doubleQuote]) = Some (quotedBytes name)"
      using doubleQuotable by (intro unquote_double) blast
    moreover have "doubleQuote \<noteq> CHR ''$''" "doubleQuote \<noteq> singleQuote"
      by (auto intro!: char_neqI simp: ord_def [of "CHR ''$''"])
    ultimately show ?thesis
      using False True by (auto simp: shellQuoteName_def intro!: shellWord_quoted quote_not_special)
  next
    case False': False
    then have "shellQuoteName name = quoteLoop False False name"
      using False unfolding shellQuoteName_def by auto
    then show ?thesis
      using False quoteLoop_read [of False False name] by (simp add: shellWord_quoted quoteLoop_not_special)
  qed
  then show ?thesis using False by auto
qed

theorem quoted_name_reads_back_witness:
  "shellWord (shellQuoteName (''it'' @ [singleQuote] @ ''s $5'' @ [chr 7])) =
     Some (''it'' @ [singleQuote] @ ''s $5'' @ [chr 7]) \<and>
   shellWord (shellQuoteName ''{a,b c}'') = Some ''{a,b c}'' \<and> shellWord (shellQuoteName ''{a,b}'') = None"
proof -
  have "\<not> (\<forall>b \<in> set (''it'' @ [singleQuote] @ ''s $5'' @ [chr 7]). shellNameByteIsSafe b)"
    "\<not> (\<forall>b \<in> set ''{a,b c}''. shellNameByteIsSafe b)"
    "(\<forall>b \<in> set ''{a,b}''. shellNameByteIsSafe b) \<and> braceExpands ''{a,b}''"
    by code_simp+
  then show ?thesis
    using quoted_name_reads_back [of "''it'' @ [singleQuote] @ ''s $5'' @ [chr 7]"]
      quoted_name_reads_back [of "''{a,b c}''"] quoted_name_reads_back [of "''{a,b}''"]
    by presburger
qed

section \<open>Permission bits\<close>

lemma mode_flag: "bits AND 2 ^ k \<noteq> 0 \<longleftrightarrow> bit bits k" for bits :: "'a::len word"
  by (simp add: and_exp_eq_0_iff_not_bit)

lemma flag_values:
  "modeSetuid = 2 ^ 23" "modeSetgid = 2 ^ 22" "modeSticky = 2 ^ 20"
  "(0x1FF :: u64) = mask 9" "(0x1FF :: fileMode) = mask 9" "(0xFFF :: u64) = mask 12"
  "(0x800 :: u64) = 2 ^ 11" "(0x400 :: u64) = 2 ^ 10" "(0x200 :: u64) = 2 ^ 9"
  by (simp_all add: modeSetuid_def modeSetgid_def modeSticky_def mask_eq_exp_minus_1)

lemma bit_flag: "bit (if b then 2 ^ k else 0 :: 'a::len word) n \<longleftrightarrow> b \<and> n = k \<and> k < LENGTH('a)"
  by (auto simp: bit_exp_iff)

lemma octal_bits:
  "bit (fileModeFromOctal bits) n \<longleftrightarrow>
     (n < 9 \<and> bit bits n) \<or> (n = 23 \<and> bit bits 11) \<or> (n = 22 \<and> bit bits 10) \<or> (n = 20 \<and> bit bits 9)"
  unfolding fileModeFromOctal_def flag_values mode_flag bit_or_iff bit_flag
  by (auto simp: bit_simps)

text \<open>
  The twelve permission bits survive the conversion to a Go file mode and back.\<close>

lemma mode_roundtrip: "octalFromFileMode (fileModeFromOctal bits) = bits AND 0xFFF"
proof (rule bit_word_eqI)
  fix n assume n: "n < LENGTH(64)"
  have "n = 9 \<or> n = 10 \<or> n = 11 \<or> n < 9 \<or> 12 \<le> n" by linarith
  then show "bit (octalFromFileMode (fileModeFromOctal bits)) n \<longleftrightarrow> bit (bits AND 0xFFF) n"
    unfolding octalFromFileMode_def modeHas_def flag_values mode_flag bit_or_iff bit_flag
    using n by (auto simp: bit_simps octal_bits)
qed

end
