(* ===== verification/Tabs.thy ===== *)
theory Tabs imports TextIO begin

text \<open>The tab stops of \<open>src/expand.go\<close> and the filters \<open>expand\<close> and \<open>unexpand\<close>
(\<open>src/expand.go\<close>, \<open>src/unexpand.go\<close>).  The stops are a record with the four fields of the code; columns
are natural numbers, since no input is long enough to wrap an int.  A filter is the fold of one step per
byte over the concatenated inputs, with the state the code keeps from one file to another.  The lemmas show
that \<open>unexpand\<close> never changes the columns: expanding its output gives what expanding the input gives.\<close>

section \<open>Tab stops\<close>

record tabStops =
  tab_size :: nat
  tab_list :: "nat list"
  tab_extend :: nat
  tab_increment :: nat

definition noStops :: tabStops where
  "noStops = \<lparr>tab_size = 0, tab_list = [], tab_extend = 0, tab_increment = 0\<rparr>"

text \<open>The scan of the explicit stops from the current index: the first stop behind the column.\<close>

function scanStops :: "nat list \<Rightarrow> nat \<Rightarrow> nat \<Rightarrow> nat option \<times> nat" where
  "scanStops stops column index =
     (if length stops \<le> index then (None, index)
      else if column < stops ! index then (Some (stops ! index), index)
      else scanStops stops column (Suc index))"
  by pat_completeness auto
termination
  by (relation "measure (\<lambda>(stops, column, index). length stops - index)") auto

declare scanStops.simps [simp del]

text \<open>The method \<open>next\<close>: the stop after the column, whether the list is exhausted, and the new index.\<close>

definition nextStop :: "tabStops \<Rightarrow> nat \<Rightarrow> nat \<Rightarrow> nat \<times> bool \<times> nat" where
  "nextStop t column index =
     (if 0 < tab_size t then (column + (tab_size t - column mod tab_size t), False, index)
      else (case scanStops (tab_list t) column index of
              (Some stop, index') \<Rightarrow> (stop, False, index')
            | (None, index') \<Rightarrow>
                if 0 < tab_extend t then (column + (tab_extend t - column mod tab_extend t), False, index')
                else if 0 < tab_increment t
                then (column + (tab_increment t - (column - last (tab_list t)) mod tab_increment t), False, index')
                else (column + 1, True, index')))"

text \<open>The parser of a specification; \<open>None\<close> is an error.\<close>

record tabSpec =
  spec_stops :: tabStops
  spec_value :: "nat option"
  spec_extend :: bool
  spec_increment :: bool

definition addStop :: "tabSpec \<Rightarrow> tabSpec option" where
  "addStop p =
     (case spec_value p of
        None \<Rightarrow> Some p
      | Some v \<Rightarrow>
          let t = spec_stops p in
          if spec_extend p then
            (if tab_extend t \<noteq> 0 then None
             else Some (p\<lparr>spec_stops := t\<lparr>tab_extend := v\<rparr>, spec_value := None\<rparr>))
          else if spec_increment p then
            (if tab_increment t \<noteq> 0 then None
             else Some (p\<lparr>spec_stops := t\<lparr>tab_increment := v\<rparr>, spec_value := None\<rparr>))
          else Some (p\<lparr>spec_stops := t\<lparr>tab_list := tab_list t @ [v]\<rparr>, spec_value := None\<rparr>))"

definition isSeparator :: "char \<Rightarrow> bool" where
  "isSeparator c \<longleftrightarrow> c = CHR '','' \<or> c = CHR '' '' \<or> c = chr 9"

fun specLoop :: "tabSpec \<Rightarrow> string \<Rightarrow> tabSpec option" where
  "specLoop p [] = addStop p"
| "specLoop p (c # cs) =
     (if isSeparator c then (case addStop p of None \<Rightarrow> None | Some p' \<Rightarrow> specLoop p' cs)
      else if c = CHR ''/'' then
        (if spec_value p \<noteq> None then None
         else specLoop (p\<lparr>spec_extend := True, spec_increment := False\<rparr>) cs)
      else if c = CHR ''+'' then
        (if spec_value p \<noteq> None then None
         else specLoop (p\<lparr>spec_increment := True, spec_extend := False\<rparr>) cs)
      else if isDigitByte c then
        (let v = (case spec_value p of None \<Rightarrow> 0 | Some v \<Rightarrow> v) * 10 + (ord c - 48)
         in if 2 ^ 31 < v then None else specLoop (p\<lparr>spec_value := Some v\<rparr>) cs)
      else None)"

definition addTabSpec :: "tabStops \<Rightarrow> string \<Rightarrow> tabStops option" where
  "addTabSpec t spec =
     map_option spec_stops
       (specLoop \<lparr>spec_stops = t, spec_value = None, spec_extend = False, spec_increment = False\<rparr> spec)"

fun ascending :: "nat list \<Rightarrow> bool" where
  "ascending (a # b # xs) \<longleftrightarrow> a < b \<and> ascending (b # xs)"
| "ascending xs \<longleftrightarrow> True"

definition finalizeStops :: "tabStops \<Rightarrow> tabStops option" where
  "finalizeStops t =
     (if 0 \<in> set (tab_list t) then None
      else if \<not> ascending (tab_list t) then None
      else if tab_extend t \<noteq> 0 \<and> tab_increment t \<noteq> 0 then None
      else Some
        (if tab_list t = [] then
           (if tab_extend t \<noteq> 0 then t\<lparr>tab_size := tab_extend t\<rparr>
            else if tab_increment t \<noteq> 0 then t\<lparr>tab_size := tab_increment t\<rparr>
            else t\<lparr>tab_size := 8\<rparr>)
         else if length (tab_list t) = 1 \<and> tab_extend t = 0 \<and> tab_increment t = 0
         then t\<lparr>tab_size := tab_list t ! 0\<rparr>
         else t))"

text \<open>The options both commands share.  \<open>extra\<close> sees every word first and says whether it took it.\<close>

fun parseTabArgs ::
    "('o \<Rightarrow> string \<Rightarrow> bool \<times> 'o) \<Rightarrow> 'o \<Rightarrow> tabStops \<Rightarrow> string list \<Rightarrow> string list \<Rightarrow>
     ('o \<times> tabStops \<times> string list) option" where
  "parseTabArgs extra opts t files [] = Some (opts, t, files)"
| "parseTabArgs extra opts t files (a # rest) =
     (case extra opts a of
        (True, opts') \<Rightarrow> parseTabArgs extra opts' t files rest
      | (False, opts') \<Rightarrow>
          if a = ''--'' then Some (opts', t, files @ rest)
          else if a = ''-t'' \<or> a = ''--tabs'' then
            (case rest of
               [] \<Rightarrow> None
             | spec # rest' \<Rightarrow>
                 (case addTabSpec t spec of
                    None \<Rightarrow> None
                  | Some t' \<Rightarrow> parseTabArgs extra opts' t' files rest'))
          else if hasPrefix a ''--tabs='' then
            (case addTabSpec t (trimPrefix a ''--tabs='') of
               None \<Rightarrow> None
             | Some t' \<Rightarrow> parseTabArgs extra opts' t' files rest)
          else if 2 < length a \<and> a ! 0 = CHR ''-'' \<and> a ! 1 = CHR ''t'' then
            (case addTabSpec t (drop 2 a) of
               None \<Rightarrow> None
             | Some t' \<Rightarrow> parseTabArgs extra opts' t' files rest)
          else if 1 < length a \<and> a ! 0 = CHR ''-'' \<and> isDigitByte (a ! 1) then
            (case addTabSpec t (drop 1 a) of
               None \<Rightarrow> None
             | Some t' \<Rightarrow> parseTabArgs extra opts' t' files rest)
          else if 1 < length a \<and> a ! 0 = CHR ''-'' then None
          else parseTabArgs extra opts' t (files @ [a]) rest)"

text \<open>The contents of the inputs one after the other, and whether all of them could be read.\<close>

fun readInputs :: "sys \<Rightarrow> string list \<Rightarrow> string \<times> bool" where
  "readInputs sys [] = ([], True)"
| "readInputs sys (f # fs) =
     (case openInput sys f of
        (None, sys') \<Rightarrow> (fst (readInputs sys' fs), False)
      | (Some (content, readable), sys') \<Rightarrow>
          (content @ fst (readInputs sys' fs), readable \<and> snd (readInputs sys' fs)))"

definition forEachInput :: "sys \<Rightarrow> string list \<Rightarrow> string \<times> bool" where
  "forEachInput sys files = readInputs sys (if files = [] then [''-''] else files)"

section \<open>expand\<close>

record expandState =
  ex_convert :: bool
  ex_column :: nat
  ex_index :: nat

definition expandStart :: expandState where
  "expandStart = \<lparr>ex_convert = True, ex_column = 0, ex_index = 0\<rparr>"

definition tabChar :: char where "tabChar = chr 9"
definition backspace :: char where "backspace = chr 8"
definition blankChar :: char where "blankChar = CHR '' ''"

definition isBlank :: "char \<Rightarrow> bool" where
  "isBlank b \<longleftrightarrow> b = blankChar \<or> b = tabChar"

text \<open>What happens after a byte was written: a newline starts a fresh line.\<close>

definition expandEnd :: "char \<Rightarrow> expandState \<Rightarrow> expandState" where
  "expandEnd b s = (if b = newLine then expandStart else s)"

definition expandByte :: "tabStops \<Rightarrow> bool \<Rightarrow> char \<Rightarrow> expandState \<Rightarrow> string \<times> expandState" where
  "expandByte t initialOnly b s =
     (if \<not> ex_convert s then ([b], expandEnd b s)
      else
        let s1 = s\<lparr>ex_convert := \<not> initialOnly \<or> isBlank b\<rparr> in
        if b = tabChar then
          (case nextStop t (ex_column s) (ex_index s) of
             (stop, _, index) \<Rightarrow>
               (replicate (stop - ex_column s) blankChar,
                s1\<lparr>ex_column := max (ex_column s) stop, ex_index := index\<rparr>))
        else if b = backspace then
          ([b], expandEnd b (s1\<lparr>ex_column := ex_column s - 1, ex_index := ex_index s - 1\<rparr>))
        else ([b], expandEnd b (s1\<lparr>ex_column := ex_column s + 1\<rparr>)))"

fun expandRun :: "tabStops \<Rightarrow> bool \<Rightarrow> expandState \<Rightarrow> string \<Rightarrow> string" where
  "expandRun t initialOnly s [] = []"
| "expandRun t initialOnly s (b # bs) =
     (case expandByte t initialOnly b s of
        (out, s') \<Rightarrow> out @ expandRun t initialOnly s' bs)"

definition expandExtra :: "bool \<Rightarrow> string \<Rightarrow> bool \<times> bool" where
  "expandExtra initialOnly a =
     (if a = ''-i'' \<or> a = ''--initial'' then (True, True) else (False, initialOnly))"

definition cmdExpand :: "sys \<Rightarrow> string list \<Rightarrow> cmd_result" where
  "cmdExpand sys args =
     (case parseTabArgs expandExtra False noStops [] args of
        None \<Rightarrow> Exit [] 1
      | Some (initialOnly, t, files) \<Rightarrow>
          (case finalizeStops t of
             None \<Rightarrow> Exit [] 1
           | Some t' \<Rightarrow>
               (case forEachInput sys files of
                  (text, ok) \<Rightarrow>
                    if sys_out_ok sys
                    then Exit (expandRun t' initialOnly expandStart text) (if ok then 0 else 1)
                    else Exit [] 1)))"

section \<open>unexpand\<close>

record unexpandState =
  un_convert :: bool
  un_column :: nat
  un_index :: nat
  un_next :: nat
  un_one :: bool
  un_prev :: bool
  un_pending :: string

definition unexpandStart :: unexpandState where
  "unexpandStart = \<lparr>un_convert = True, un_column = 0, un_index = 0, un_next = 0, un_one = False,
     un_prev = True, un_pending = []\<rparr>"

text \<open>The blanks held back; a single blank before a tab stop becomes a tab when more follow it.\<close>

definition flushed :: "unexpandState \<Rightarrow> string" where
  "flushed s =
     (if 1 < length (un_pending s) \<and> un_one s then tabChar # tl (un_pending s) else un_pending s)"

definition flushPending :: "unexpandState \<Rightarrow> string \<times> unexpandState" where
  "flushPending s =
     (if un_pending s = [] then ([], s)
      else (flushed s, s\<lparr>un_pending := [], un_one := False\<rparr>))"

definition unexpandEnd :: "char \<Rightarrow> unexpandState \<Rightarrow> unexpandState" where
  "unexpandEnd b s =
     (if b = newLine
      then s\<lparr>un_convert := True, un_column := 0, un_index := 0, un_next := 0, un_one := False, un_prev := True\<rparr>
      else s)"

text \<open>The common end of a turn that converts: flush, remember the kind of byte, write it.\<close>

definition unexpandWrite :: "bool \<Rightarrow> char \<Rightarrow> bool \<Rightarrow> string \<Rightarrow> unexpandState \<Rightarrow> string \<times> unexpandState" where
  "unexpandWrite entireLine b writeChar before s =
     (case flushPending s of
        (out, s1) \<Rightarrow>
          (before @ out @ (if writeChar then [b] else []),
           unexpandEnd b
             (s1\<lparr>un_prev := isBlank b, un_convert := un_convert s1 \<and> (entireLine \<or> isBlank b)\<rparr>)))"

text \<open>A blank that ends at a tab stop: keep only the single blank before an earlier stop.\<close>

definition keepOne :: "unexpandState \<Rightarrow> unexpandState" where
  "keepOne s = s\<lparr>un_pending := (if un_one s \<and> un_pending s \<noteq> [] then take 1 (un_pending s) else [])\<rparr>"

definition unexpandBlank :: "tabStops \<Rightarrow> bool \<Rightarrow> char \<Rightarrow> unexpandState \<Rightarrow> string \<times> unexpandState" where
  "unexpandBlank t entireLine b s0 =
     (case nextStop t (un_column s0) (un_index s0) of
        (stop, exhausted, index) \<Rightarrow>
          (let s = s0\<lparr>un_next := stop, un_index := index, un_convert := \<not> exhausted\<rparr> in
           if exhausted then unexpandWrite entireLine b True [] s
           else if b = tabChar then
             unexpandWrite entireLine b True []
               (keepOne (s\<lparr>un_column := stop,
                           un_pending := (if un_pending s = [] then [] else tabChar # tl (un_pending s))\<rparr>))
           else
             let s1 = s\<lparr>un_column := un_column s + 1\<rparr> in
             if \<not> un_prev s \<or> un_column s1 < stop then
               ([], s1\<lparr>un_one := (un_column s1 = stop) \<or> un_one s, un_pending := un_pending s @ [b], un_prev := True\<rparr>)
             else unexpandWrite entireLine b False [tabChar] (keepOne (s1\<lparr>un_pending := [tabChar]\<rparr>))))"

definition unexpandByte :: "tabStops \<Rightarrow> bool \<Rightarrow> char \<Rightarrow> unexpandState \<Rightarrow> string \<times> unexpandState" where
  "unexpandByte t entireLine b s =
     (if \<not> un_convert s then ([b], unexpandEnd b s)
      else if isBlank b then unexpandBlank t entireLine b s
      else if b = backspace then
        unexpandWrite entireLine b True []
          (s\<lparr>un_column := un_column s - 1, un_next := un_column s - 1, un_index := un_index s - 1\<rparr>)
      else unexpandWrite entireLine b True [] (s\<lparr>un_column := un_column s + 1\<rparr>))"

fun unexpandRun :: "tabStops \<Rightarrow> bool \<Rightarrow> unexpandState \<Rightarrow> string \<Rightarrow> string" where
  "unexpandRun t entireLine s [] = fst (flushPending s)"
| "unexpandRun t entireLine s (b # bs) =
     (case unexpandByte t entireLine b s of
        (out, s') \<Rightarrow> out @ unexpandRun t entireLine s' bs)"

text \<open>The options \<open>-a\<close> and \<open>--first-only\<close>; a tab list implies \<open>-a\<close> but is left to the shared parser.\<close>

definition unexpandExtra :: "bool \<times> bool \<Rightarrow> string \<Rightarrow> bool \<times> (bool \<times> bool)" where
  "unexpandExtra opts a =
     (case opts of
        (entireLine, firstOnly) \<Rightarrow>
          if a = ''-a'' \<or> a = ''--all'' then (True, (True, firstOnly))
          else if a = ''--first-only'' then (True, (entireLine, True))
          else if a = ''-t'' \<or> a = ''--tabs'' \<or> (2 < length a \<and> a ! 0 = CHR ''-'' \<and> a ! 1 = CHR ''t'') \<or>
                  (7 < length a \<and> take 7 a = ''--tabs='')
          then (False, (True, firstOnly))
          else (False, (entireLine, firstOnly)))"

definition cmdUnexpand :: "sys \<Rightarrow> string list \<Rightarrow> cmd_result" where
  "cmdUnexpand sys args =
     (case parseTabArgs unexpandExtra (False, False) noStops [] args of
        None \<Rightarrow> Exit [] 1
      | Some ((entireLine, firstOnly), t, files) \<Rightarrow>
          (case finalizeStops t of
             None \<Rightarrow> Exit [] 1
           | Some t' \<Rightarrow>
               (case forEachInput sys files of
                  (text, ok) \<Rightarrow>
                    if sys_out_ok sys
                    then Exit (unexpandRun t' (entireLine \<and> \<not> firstOnly) unexpandStart text) (if ok then 0 else 1)
                    else Exit [] 1)))"

section \<open>The columns unexpand keeps\<close>

definition stopAfter :: "nat \<Rightarrow> nat \<Rightarrow> nat" where
  "stopAfter n d = (d div n + 1) * n"

lemma nextStop_size:
  assumes "0 < tab_size t"
  shows "nextStop t d i = (stopAfter (tab_size t) d, False, i)"
proof -
  obtain q r where "d = q * tab_size t + r" "r < tab_size t" "d div tab_size t = q" "d mod tab_size t = r"
    using assms mod_less_divisor div_mult_mod_eq by metis
  then show ?thesis using assms by (simp add: nextStop_def stopAfter_def)
qed

lemma stopAfter_gt: "0 < n \<Longrightarrow> d < stopAfter n d"
  by (simp add: stopAfter_def dividend_less_div_times)

lemma stopAfter_same:
  assumes "0 < n" "p \<le> c" "c < stopAfter n p"
  shows "stopAfter n c = stopAfter n p"
proof -
  have "p div n \<le> c div n" using assms(2) by (rule div_le_mono)
  moreover have "c div n < p div n + 1" using assms by (simp add: stopAfter_def less_mult_imp_div_less)
  ultimately show ?thesis by (simp add: stopAfter_def)
qed

abbreviation blanks :: "nat \<Rightarrow> string" where
  "blanks n \<equiv> replicate n blankChar"

text \<open>The expansion that starts in a column, for stops of a fixed size.\<close>

definition expandAt :: "tabStops \<Rightarrow> nat \<Rightarrow> string \<Rightarrow> string" where
  "expandAt t d bs = expandRun t False \<lparr>ex_convert = True, ex_column = d, ex_index = 0\<rparr> bs"

lemma tab_chars [simp]:
  "tabChar \<noteq> backspace" "tabChar \<noteq> newLine" "tabChar \<noteq> blankChar" "backspace \<noteq> tabChar"
  "backspace \<noteq> newLine" "backspace \<noteq> blankChar" "newLine \<noteq> tabChar" "newLine \<noteq> backspace"
  "newLine \<noteq> blankChar" "blankChar \<noteq> tabChar" "blankChar \<noteq> backspace" "blankChar \<noteq> newLine"
  by (simp_all add: tabChar_def backspace_def blankChar_def newLine_def chr_def char_of_def)

lemma expandAt_tab: "0 < tab_size t \<Longrightarrow>
    expandAt t d (tabChar # bs) = blanks (stopAfter (tab_size t) d - d) @ expandAt t (stopAfter (tab_size t) d) bs"
  using stopAfter_gt [of "tab_size t" d]
  by (simp add: expandAt_def expandByte_def nextStop_size max_def)

lemma expandAt_backspace: "expandAt t d (backspace # bs) = backspace # expandAt t (d - 1) bs"
  by (simp add: expandAt_def expandByte_def expandEnd_def Let_def)

lemma expandAt_newLine: "expandAt t d (newLine # bs) = newLine # expandAt t 0 bs"
  by (simp add: expandAt_def expandByte_def expandEnd_def expandStart_def Let_def)

lemma expandAt_other: "b \<noteq> tabChar \<Longrightarrow> b \<noteq> backspace \<Longrightarrow> b \<noteq> newLine \<Longrightarrow>
    expandAt t d (b # bs) = b # expandAt t (d + 1) bs"
  by (simp add: expandAt_def expandByte_def expandEnd_def)

lemma expandAt_blank: "expandAt t d (blankChar # bs) = blankChar # expandAt t (d + 1) bs"
  by (rule expandAt_other) simp_all

lemma expandAt_blanks: "expandAt t d (blanks n @ bs) = blanks n @ expandAt t (d + n) bs"
  by (induction n arbitrary: d) (simp_all add: expandAt_blank)

text \<open>The state of \<open>unexpand\<close> against the column \<open>p\<close> up to which the output was written: the blanks held
back lead from \<open>p\<close> to the column of the state without passing a stop, except for the single blank that may
end at one.\<close>

definition holds :: "nat \<Rightarrow> nat \<Rightarrow> unexpandState \<Rightarrow> bool" where
  "holds n p s \<longleftrightarrow>
     (if un_convert s
      then un_column s = p + length (un_pending s) \<and>
           un_pending s = blanks (length (un_pending s)) \<and>
           (un_pending s = [] \<longrightarrow> \<not> un_one s) \<and>
           (\<not> un_prev s \<longrightarrow> un_pending s = []) \<and>
           (if un_one s then stopAfter n p = p + 1 \<and> un_column s < stopAfter n (p + 1)
            else un_column s < stopAfter n p)
      else un_pending s = [] \<and> \<not> un_one s)"

definition restAt :: "tabStops \<Rightarrow> nat \<Rightarrow> unexpandState \<Rightarrow> string \<Rightarrow> string" where
  "restAt t p s bs =
     (if un_convert s then blanks (un_column s - p) @ expandAt t (un_column s) bs else expandAt t p bs)"

lemma flushed_expands:
  assumes n: "0 < tab_size t" and h: "holds (tab_size t) p s" and c: "un_convert s"
  shows "expandAt t p (flushed s @ ys) = blanks (un_column s - p) @ expandAt t (un_column s) ys"
proof (cases "1 < length (un_pending s) \<and> un_one s")
  case True
  with h c obtain k where k: "un_pending s = blanks (Suc k)" "un_column s = p + Suc k"
    by (cases "length (un_pending s)") (auto simp: holds_def)
  from True h c have "stopAfter (tab_size t) p = p + 1" by (simp add: holds_def)
  with True k show ?thesis using n by (simp add: flushed_def expandAt_tab expandAt_blanks)
next
  case False
  with h c have "flushed s = blanks (un_column s - p)" by (auto simp: flushed_def holds_def)
  moreover from h c have "p \<le> un_column s" by (simp add: holds_def)
  ultimately show ?thesis by (simp add: expandAt_blanks)
qed


text \<open>One byte: what was written and the new state stand for the same text as before.\<close>

definition keeps :: "tabStops \<Rightarrow> nat \<Rightarrow> unexpandState \<Rightarrow> char \<Rightarrow> string \<times> unexpandState \<Rightarrow> bool" where
  "keeps t p s b r \<longleftrightarrow>
     (\<exists>pre p'. holds (tab_size t) p' (snd r) \<and>
        (\<forall>ys. expandAt t p (fst r @ ys) = pre @ expandAt t p' ys) \<and>
        (\<forall>bs. restAt t p s (b # bs) = pre @ restAt t p' (snd r) bs))"

lemma keeps_verbatim:
  assumes "\<not> un_convert s" "un_pending s = []" "\<not> un_one s" "0 < tab_size t"
  shows "keeps t p s b ([b], unexpandEnd b s)"
proof -
  let ?q = "if b = newLine then 0 else if b = tabChar then stopAfter (tab_size t) p
            else if b = backspace then p - 1 else p + 1"
  let ?pre = "if b = tabChar then blanks (stopAfter (tab_size t) p - p) else [b]"
  have step: "expandAt t p (b # ys) = ?pre @ expandAt t ?q ys" for ys
    using assms(4) by (auto simp: expandAt_tab expandAt_backspace expandAt_newLine expandAt_other)
  have "holds (tab_size t) ?q (unexpandEnd b s)"
    using assms stopAfter_gt [of "tab_size t" 0] by (auto simp: holds_def unexpandEnd_def)
  moreover have "restAt t p s (b # bs) = ?pre @ restAt t ?q (unexpandEnd b s) bs" for bs
    using assms step [of bs] by (auto simp: restAt_def unexpandEnd_def)
  ultimately show ?thesis using step unfolding keeps_def by (intro exI [of _ ?pre] exI [of _ ?q]) simp
qed


lemma keeps_plain:
  assumes n: "0 < tab_size t" and h: "holds (tab_size t) p s" and c: "un_convert s" and b: "\<not> isBlank b"
  shows "keeps t p s b (unexpandByte t e b s)"
proof -
  let ?c = "un_column s"
  let ?q = "if b = newLine then 0 else if b = backspace then ?c - 1 else ?c + 1"
  let ?s' = "snd (unexpandByte t e b s)"
  from b have nb: "b \<noteq> tabChar" "b \<noteq> blankChar" by (auto simp: isBlank_def)
  have out: "fst (unexpandByte t e b s) = flushed s @ [b]"
    using b c by (auto simp: unexpandByte_def unexpandWrite_def flushPending_def flushed_def)
  have s': "un_pending ?s' = [] \<and> \<not> un_one ?s' \<and> (un_convert ?s' \<longrightarrow> un_column ?s' = ?q)"
    using b c h by (auto simp: unexpandByte_def unexpandWrite_def flushPending_def unexpandEnd_def holds_def)
  have "holds (tab_size t) ?q ?s'" using s' stopAfter_gt [OF n] by (auto simp: holds_def)
  moreover have step: "expandAt t ?c (b # ys) = b # expandAt t ?q ys" for ys
    using nb by (auto simp: expandAt_backspace expandAt_newLine expandAt_other)
  moreover have "restAt t ?q ?s' bs = expandAt t ?q bs" for bs using s' by (auto simp: restAt_def)
  ultimately show ?thesis
    unfolding keeps_def using flushed_expands [OF n h c] out c
    by (intro exI [of _ "blanks (?c - p) @ [b]"] exI [of _ ?q]) (simp add: restAt_def)
qed

text \<open>A blank that ends at a stop writes one tab, and another one before it when a single blank that ended at
an earlier stop was held back.\<close>

lemma keeps_tabs:
  assumes n: "0 < tab_size t" and h: "holds (tab_size t) p s" and c: "un_convert s"
    and b: "b = tabChar \<or> b = blankChar \<and> un_column s + 1 = stopAfter (tab_size t) (un_column s)"
    and r: "fst r = (if un_one s then [tabChar, tabChar] else [tabChar])"
    and s': "un_convert (snd r)" "un_pending (snd r) = []" "\<not> un_one (snd r)"
      "un_column (snd r) = stopAfter (tab_size t) (un_column s)"
  shows "keeps t p s b r"
proof -
  let ?n = "tab_size t" and ?c = "un_column s"
  let ?q = "stopAfter ?n ?c"
  have pc: "p \<le> ?c" "?c < ?q" using h c stopAfter_gt [OF n] by (auto simp: holds_def)
  have out: "expandAt t p (fst r @ ys) = blanks (?q - p) @ expandAt t ?q ys" for ys
  proof (cases "un_one s")
    case True
    then have "un_pending s \<noteq> []" using h c by (auto simp: holds_def)
    then have "stopAfter ?n p = p + 1" "p + 1 \<le> ?c" "?c < stopAfter ?n (p + 1)"
      using True h c by (cases "un_pending s"; simp add: holds_def)+
    moreover from this have "stopAfter ?n (p + 1) = ?q" using stopAfter_same [OF n, of "p + 1" ?c] by simp
    moreover have "blankChar # blanks (?q - (p + 1)) = blanks (?q - p)"
      using pc \<open>p + 1 \<le> ?c\<close> by (simp flip: replicate_Suc add: Suc_diff_Suc)
    ultimately show ?thesis using True r by (simp add: expandAt_tab [OF n])
  next
    case False
    then have "stopAfter ?n p = ?q" using h c pc stopAfter_same [OF n, of p ?c] by (simp add: holds_def)
    with False r show ?thesis by (simp add: expandAt_tab [OF n])
  qed
  have "restAt t p s (b # bs) = blanks (?q - p) @ expandAt t ?q bs" for bs
    using b
  proof
    assume "b = tabChar"
    then show ?thesis
      using c pc by (simp add: restAt_def expandAt_tab [OF n] flip: replicate_add append_assoc)
  next
    assume "b = blankChar \<and> ?c + 1 = ?q"
    then show ?thesis
      using c pc Suc_diff_le [of p ?c]
      by (simp add: restAt_def expandAt_blank replicate_app_Cons_same flip: replicate_Suc)
  qed
  moreover have "holds ?n ?q (snd r)" using s' stopAfter_gt [OF n] by (auto simp: holds_def)
  moreover have "restAt t ?q (snd r) bs = expandAt t ?q bs" for bs using s' by (simp add: restAt_def)
  ultimately show ?thesis
    unfolding keeps_def using out by (intro exI [of _ "blanks (?q - p)"] exI [of _ ?q]) simp
qed

lemma keeps_blank:
  assumes n: "0 < tab_size t" and h: "holds (tab_size t) p s" and c: "un_convert s" and b: "isBlank b"
  shows "keeps t p s b (unexpandByte t e b s)"
proof -
  let ?q = "stopAfter (tab_size t) (un_column s)"
  have byte: "unexpandByte t e b s = unexpandBlank t e b s" using b c by (simp add: unexpandByte_def)
  have gt: "un_column s < ?q" by (rule stopAfter_gt [OF n])
  consider "b = tabChar" | "b = blankChar" "un_prev s" "un_column s + 1 = ?q"
    | "b = blankChar" "\<not> un_prev s \<or> un_column s + 1 < ?q"
    using b gt unfolding isBlank_def by linarith
  then show ?thesis
  proof cases
    case 1
    with h c n show ?thesis unfolding byte
      by (intro keeps_tabs)
        (auto simp: unexpandBlank_def nextStop_size Let_def unexpandWrite_def keepOne_def flushPending_def
          flushed_def unexpandEnd_def isBlank_def holds_def)
  next
    case 2
    with h c n show ?thesis unfolding byte
      by (intro keeps_tabs)
        (auto simp: unexpandBlank_def nextStop_size Let_def unexpandWrite_def keepOne_def flushPending_def
          flushed_def unexpandEnd_def isBlank_def holds_def)
  next
    case 3
    let ?s' = "snd (unexpandByte t e b s)"
    have f: "fst (unexpandByte t e b s) = []" "un_pending ?s' = un_pending s @ [blankChar]"
        "un_column ?s' = un_column s + 1" "un_convert ?s'" "un_prev ?s'"
        "un_one ?s' = (un_column s + 1 = ?q \<or> un_one s)"
      using 3 n unfolding byte by (auto simp: unexpandBlank_def nextStop_size Let_def)
    have len: "un_column s = p + length (un_pending s)" using h c by (simp add: holds_def)
    obtain k where k: "un_pending s = blanks k" using h c unfolding holds_def by metis
    have pend: "un_pending s @ [blankChar] = blanks (Suc (length (un_pending s)))"
      unfolding k by (simp add: replicate_append_same)
    have ahead: "un_pending s \<noteq> [] \<Longrightarrow> p + 1 \<le> un_column s" using len k by (cases k) simp_all
    have "if un_one ?s' then stopAfter (tab_size t) p = p + 1 \<and> un_column ?s' < stopAfter (tab_size t) (p + 1)
          else un_column ?s' < stopAfter (tab_size t) p"
    proof (cases "un_one s")
      case True
      then have "un_pending s \<noteq> []" "stopAfter (tab_size t) p = p + 1" "un_column s < stopAfter (tab_size t) (p + 1)"
        using h c unfolding holds_def by metis+
      moreover from this have "stopAfter (tab_size t) (p + 1) = ?q"
        using stopAfter_same [OF n, of "p + 1" "un_column s"] ahead by simp
      moreover have "un_prev s" using h c \<open>un_pending s \<noteq> []\<close> unfolding holds_def by metis
      ultimately show ?thesis using True f 3 by simp
    next
      case False
      then have "un_column s < stopAfter (tab_size t) p" using h c by (simp add: holds_def)
      then have same: "stopAfter (tab_size t) p = ?q" using len stopAfter_same [OF n, of p "un_column s"] by simp
      show ?thesis
      proof (cases "un_column s + 1 = ?q")
        case True
        then have "\<not> un_prev s" using 3 by simp
        then have "un_pending s = []" using h c unfolding holds_def by metis
        then have c0: "un_column s = p" using len by simp
        have "stopAfter (tab_size t) p = p + 1" using True unfolding c0 by simp
        then show ?thesis using f(3,6) stopAfter_gt [OF n, of "p + 1"] unfolding c0 by simp
      next
        case False': False
        have "un_column s + 1 < ?q" using False' gt by simp
        then show ?thesis using False f(3,6) unfolding same by simp
      qed
    qed
    moreover have "un_column ?s' = p + length (un_pending ?s')" using f(2,3) len by simp
    moreover have "un_pending ?s' = blanks (length (un_pending ?s'))" unfolding f(2) pend by simp
    ultimately have "holds (tab_size t) p ?s'" using f(2,4,5) unfolding holds_def by simp
    moreover have "restAt t p s (b # bs) = restAt t p ?s' bs" for bs
      using f c 3 len
      by (simp add: restAt_def expandAt_blank Suc_diff_le replicate_app_Cons_same flip: replicate_Suc)
    ultimately show ?thesis unfolding keeps_def using f(1) by (intro exI [of _ "[]"] exI [of _ p]) simp
  qed
qed

lemma unexpand_keeps:
  "0 < tab_size t \<Longrightarrow> holds (tab_size t) p s \<Longrightarrow>
     expandAt t p (unexpandRun t e s bs) = restAt t p s bs"
proof (induction bs arbitrary: p s)
  case Nil
  have out: "unexpandRun t e s [] = flushed s" by (simp add: flushPending_def flushed_def)
  show ?case
  proof (cases "un_convert s")
    case True
    with flushed_expands [OF Nil True, of "[]"] show ?thesis unfolding out by (simp add: restAt_def)
  next
    case False
    with Nil show ?thesis unfolding out by (simp add: restAt_def holds_def flushed_def)
  qed
next
  case (Cons b bs)
  have "keeps t p s b (unexpandByte t e b s)"
  proof (cases "un_convert s")
    case True
    with Cons.prems show ?thesis by (cases "isBlank b") (auto intro: keeps_blank keeps_plain)
  next
    case False
    with Cons.prems show ?thesis
      using keeps_verbatim [of s t p b] by (simp add: unexpandByte_def holds_def)
  qed
  then obtain pre p' where "holds (tab_size t) p' (snd (unexpandByte t e b s))"
      and "\<And>ys. expandAt t p (fst (unexpandByte t e b s) @ ys) = pre @ expandAt t p' ys"
      and "restAt t p s (b # bs) = pre @ restAt t p' (snd (unexpandByte t e b s)) bs"
    unfolding keeps_def by blast
  with Cons.IH Cons.prems(1) show ?case by (simp add: case_prod_unfold)
qed

text \<open>C35: \<open>unexpand\<close> never moves a column: for stops of a fixed size, expanding what it wrote gives
  exactly what expanding its input gives, for leading blanks only and for whole lines.\<close>

theorem unexpand_keeps_columns:
  assumes "0 < tab_size t"
  shows "expandRun t False expandStart (unexpandRun t entireLine unexpandStart bs) =
         expandRun t False expandStart bs"
proof -
  have "holds (tab_size t) 0 unexpandStart"
    using stopAfter_gt [OF assms, of 0] by (simp add: holds_def unexpandStart_def)
  from unexpand_keeps [OF assms this, of entireLine bs] show ?thesis
    by (simp add: expandAt_def expandStart_def restAt_def unexpandStart_def)
qed

theorem unexpand_keeps_columns_witness:
  "\<exists>t. finalizeStops noStops = Some t \<and>
       expandRun t False expandStart (unexpandRun t True unexpandStart ''        a  b'') =
       expandRun t False expandStart ''        a  b''"
proof -
  have "finalizeStops noStops = Some (noStops\<lparr>tab_size := 8\<rparr>)" by (simp add: finalizeStops_def noStops_def)
  moreover have "0 < tab_size (noStops\<lparr>tab_size := 8\<rparr>)" by simp
  ultimately show ?thesis using unexpand_keeps_columns by blast
qed

end
