(* ===== verification/Lzma.thy ===== *)
theory Lzma
  imports ByteCodec "HOL-Library.Monad_Syntax"
begin

text \<open>
  The LZMA decoder of \<open>lzma.go\<close>: the range decoder, the adaptive probabilities, the decoding of one
  symbol and of one chunk.  The history is the output so far, a growing list of bytes.

  An array access out of range panics in Go.  A function whose code indexes an array returns an
  \<open>option\<close> here and \<open>None\<close> is the panic, so that a theorem about \<open>Some\<close> says that no index was out
  of range.  Corrupt data is a value of the step type, as it is an error value in the code.
\<close>

section \<open>The range decoder\<close>

record rangeDecoder =
  rd_data :: bytes
  rd_pos :: nat
  rd_rng :: u32
  rd_code :: u32
  rd_corrupt :: bool

definition getBE :: "bytes \<Rightarrow> nat" where
  "getBE b = foldl (\<lambda>n x. 256 * n + unat x) 0 b"

definition rangeInit :: "bytes \<Rightarrow> rangeDecoder option" where
  "rangeInit data =
     (if length data < 5 \<or> data ! 0 \<noteq> 0 then None
      else Some \<lparr>rd_data = data, rd_pos = 5, rd_rng = 0xFFFFFFFF,
             rd_code = of_nat (getBE (slice data 1 5)), rd_corrupt = False\<rparr>)"

definition finished :: "rangeDecoder \<Rightarrow> bool" where
  "finished d \<longleftrightarrow> \<not> rd_corrupt d \<and> rd_code d = 0"

definition nextByte :: "rangeDecoder \<Rightarrow> u32 \<times> rangeDecoder" where
  "nextByte d =
     (if length (rd_data d) \<le> rd_pos d then (0, d\<lparr>rd_corrupt := True\<rparr>)
      else (ucast (rd_data d ! rd_pos d), d\<lparr>rd_pos := rd_pos d + 1\<rparr>))"

definition normalize :: "rangeDecoder \<Rightarrow> rangeDecoder" where
  "normalize d =
     (if rd_rng d < 2 ^ 24
      then (case nextByte d of
              (b, d') \<Rightarrow> d'\<lparr>rd_rng := push_bit 8 (rd_rng d), rd_code := push_bit 8 (rd_code d) OR b\<rparr>)
      else d)"

text \<open>A decoded bit, the updated probability and the decoder after it.\<close>

definition rangeBit :: "u16 \<Rightarrow> rangeDecoder \<Rightarrow> nat \<times> u16 \<times> rangeDecoder" where
  "rangeBit p d =
     (let bound = drop_bit 11 (rd_rng d) * ucast p in
      if rd_code d < bound
      then (0, p + drop_bit 5 (2048 - p), normalize (d\<lparr>rd_rng := bound\<rparr>))
      else (1, p - drop_bit 5 p, normalize (d\<lparr>rd_code := rd_code d - bound, rd_rng := rd_rng d - bound\<rparr>)))"

primrec directBits :: "nat \<Rightarrow> u32 \<Rightarrow> rangeDecoder \<Rightarrow> u32 \<times> rangeDecoder" where
  "directBits 0 result d = (result, d)"
| "directBits (Suc n) result d =
     (let rng = drop_bit 1 (rd_rng d);
          code = rd_code d - rng;
          t = 0 - drop_bit 31 code
      in directBits n (push_bit 1 result + t + 1)
           (normalize (d\<lparr>rd_rng := rng, rd_code := code + (rng AND t)\<rparr>)))"

definition decodeDirectBits :: "nat \<Rightarrow> rangeDecoder \<Rightarrow> u32 \<times> rangeDecoder" where
  "decodeDirectBits count d = directBits count 0 d"

section \<open>The probabilities\<close>

record lzmaLenDecoder =
  len_choice :: u16
  len_choice2 :: u16
  len_low :: "u16 list list"
  len_mid :: "u16 list list"
  len_high :: "u16 list"

record lzmaDecoder =
  lz_lc :: nat
  lz_lp :: nat
  lz_pb :: nat
  lz_litProbs :: "u16 list"
  lz_isMatch :: "u16 list"
  lz_isRep :: "u16 list"
  lz_isRepG0 :: "u16 list"
  lz_isRepG1 :: "u16 list"
  lz_isRepG2 :: "u16 list"
  lz_isRep0Long :: "u16 list"
  lz_posSlotDecoder :: "u16 list list"
  lz_alignDecoder :: "u16 list"
  lz_posDecoders :: "u16 list"
  lz_lenDecoder :: lzmaLenDecoder
  lz_repLenDecoder :: lzmaLenDecoder
  lz_state :: nat
  lz_rep0 :: u32
  lz_rep1 :: u32
  lz_rep2 :: u32
  lz_rep3 :: u32
  lz_pos :: nat

text \<open>The zero value of a decoder.\<close>

definition zeroLenDecoder :: lzmaLenDecoder where
  "zeroLenDecoder =
     \<lparr>len_choice = 0, len_choice2 = 0, len_low = replicate 16 (replicate 8 0),
      len_mid = replicate 16 (replicate 8 0), len_high = replicate 256 0\<rparr>"

definition zeroDecoder :: lzmaDecoder where
  "zeroDecoder =
     \<lparr>lz_lc = 0, lz_lp = 0, lz_pb = 0, lz_litProbs = [], lz_isMatch = replicate 192 0, lz_isRep = replicate 12 0,
      lz_isRepG0 = replicate 12 0, lz_isRepG1 = replicate 12 0, lz_isRepG2 = replicate 12 0,
      lz_isRep0Long = replicate 192 0, lz_posSlotDecoder = replicate 4 (replicate 64 0),
      lz_alignDecoder = replicate 16 0, lz_posDecoders = replicate 115 0,
      lz_lenDecoder = zeroLenDecoder, lz_repLenDecoder = zeroLenDecoder,
      lz_state = 0, lz_rep0 = 0, lz_rep1 = 0, lz_rep2 = 0, lz_rep3 = 0, lz_pos = 0\<rparr>"

definition resetProbs :: "u16 list \<Rightarrow> u16 list" where
  "resetProbs ps = map (\<lambda>_. 1024) ps"

definition resetLen :: "lzmaLenDecoder \<Rightarrow> lzmaLenDecoder" where
  "resetLen l =
     \<lparr>len_choice = 1024, len_choice2 = 1024, len_low = map resetProbs (len_low l),
      len_mid = map resetProbs (len_mid l), len_high = resetProbs (len_high l)\<rparr>"

definition resetState :: "lzmaDecoder \<Rightarrow> lzmaDecoder" where
  "resetState dec =
     dec\<lparr>lz_state := 0, lz_rep0 := 0, lz_rep1 := 0, lz_rep2 := 0, lz_rep3 := 0,
         lz_litProbs := resetProbs (lz_litProbs dec), lz_isMatch := resetProbs (lz_isMatch dec),
         lz_isRep := resetProbs (lz_isRep dec), lz_isRepG0 := resetProbs (lz_isRepG0 dec),
         lz_isRepG1 := resetProbs (lz_isRepG1 dec), lz_isRepG2 := resetProbs (lz_isRepG2 dec),
         lz_isRep0Long := resetProbs (lz_isRep0Long dec),
         lz_posSlotDecoder := map resetProbs (lz_posSlotDecoder dec),
         lz_alignDecoder := resetProbs (lz_alignDecoder dec), lz_posDecoders := resetProbs (lz_posDecoders dec),
         lz_lenDecoder := resetLen (lz_lenDecoder dec), lz_repLenDecoder := resetLen (lz_repLenDecoder dec)\<rparr>"

text \<open>The properties byte; \<open>None\<close> is the error.\<close>

definition setProps :: "u8 \<Rightarrow> lzmaDecoder \<Rightarrow> lzmaDecoder option" where
  "setProps value dec =
     (let v = unat value; lc = v mod 9; lp = v div 9 mod 5; pb = v div 9 div 5;
          entries = 0x300 * 2 ^ (lc + lp)
      in if 224 < v then None
         else if 4 < lc + lp then None
         else Some (dec\<lparr>lz_lc := lc, lz_lp := lp, lz_pb := pb,
                lz_litProbs := (if length (lz_litProbs dec) \<noteq> entries then replicate entries 0
                                else lz_litProbs dec)\<rparr>))"

text \<open>
  The code passes a pointer to one probability.  Here it is the array it lies in and its index;
  the two length decoders are told apart by a truth value, true for the repeated matches.
\<close>

datatype prob_array =
  LitProbs | IsMatch | IsRep | IsRepG0 | IsRepG1 | IsRepG2 | IsRep0Long | PosSlot nat | AlignProbs | PosProbs
| LenChoice bool | LenChoice2 bool | LenLow bool nat | LenMid bool nat | LenHigh bool

definition lenOf :: "bool \<Rightarrow> lzmaDecoder \<Rightarrow> lzmaLenDecoder" where
  "lenOf rep dec = (if rep then lz_repLenDecoder dec else lz_lenDecoder dec)"

definition setLen :: "bool \<Rightarrow> lzmaLenDecoder \<Rightarrow> lzmaDecoder \<Rightarrow> lzmaDecoder" where
  "setLen rep l dec = (if rep then dec\<lparr>lz_repLenDecoder := l\<rparr> else dec\<lparr>lz_lenDecoder := l\<rparr>)"

definition rowOf :: "u16 list list \<Rightarrow> nat \<Rightarrow> u16 list" where
  "rowOf rows k = (if k < length rows then rows ! k else [])"

fun probsOf :: "lzmaDecoder \<Rightarrow> prob_array \<Rightarrow> u16 list" where
  "probsOf dec LitProbs = lz_litProbs dec"
| "probsOf dec IsMatch = lz_isMatch dec"
| "probsOf dec IsRep = lz_isRep dec"
| "probsOf dec IsRepG0 = lz_isRepG0 dec"
| "probsOf dec IsRepG1 = lz_isRepG1 dec"
| "probsOf dec IsRepG2 = lz_isRepG2 dec"
| "probsOf dec IsRep0Long = lz_isRep0Long dec"
| "probsOf dec (PosSlot k) = rowOf (lz_posSlotDecoder dec) k"
| "probsOf dec AlignProbs = lz_alignDecoder dec"
| "probsOf dec PosProbs = lz_posDecoders dec"
| "probsOf dec (LenChoice rep) = [len_choice (lenOf rep dec)]"
| "probsOf dec (LenChoice2 rep) = [len_choice2 (lenOf rep dec)]"
| "probsOf dec (LenLow rep k) = rowOf (len_low (lenOf rep dec)) k"
| "probsOf dec (LenMid rep k) = rowOf (len_mid (lenOf rep dec)) k"
| "probsOf dec (LenHigh rep) = len_high (lenOf rep dec)"

fun setProb :: "prob_array \<Rightarrow> nat \<Rightarrow> u16 \<Rightarrow> lzmaDecoder \<Rightarrow> lzmaDecoder" where
  "setProb LitProbs i p dec = dec\<lparr>lz_litProbs := (lz_litProbs dec)[i := p]\<rparr>"
| "setProb IsMatch i p dec = dec\<lparr>lz_isMatch := (lz_isMatch dec)[i := p]\<rparr>"
| "setProb IsRep i p dec = dec\<lparr>lz_isRep := (lz_isRep dec)[i := p]\<rparr>"
| "setProb IsRepG0 i p dec = dec\<lparr>lz_isRepG0 := (lz_isRepG0 dec)[i := p]\<rparr>"
| "setProb IsRepG1 i p dec = dec\<lparr>lz_isRepG1 := (lz_isRepG1 dec)[i := p]\<rparr>"
| "setProb IsRepG2 i p dec = dec\<lparr>lz_isRepG2 := (lz_isRepG2 dec)[i := p]\<rparr>"
| "setProb IsRep0Long i p dec = dec\<lparr>lz_isRep0Long := (lz_isRep0Long dec)[i := p]\<rparr>"
| "setProb (PosSlot k) i p dec =
     dec\<lparr>lz_posSlotDecoder := (lz_posSlotDecoder dec)[k := (rowOf (lz_posSlotDecoder dec) k)[i := p]]\<rparr>"
| "setProb AlignProbs i p dec = dec\<lparr>lz_alignDecoder := (lz_alignDecoder dec)[i := p]\<rparr>"
| "setProb PosProbs i p dec = dec\<lparr>lz_posDecoders := (lz_posDecoders dec)[i := p]\<rparr>"
| "setProb (LenChoice rep) i p dec = setLen rep ((lenOf rep dec)\<lparr>len_choice := p\<rparr>) dec"
| "setProb (LenChoice2 rep) i p dec = setLen rep ((lenOf rep dec)\<lparr>len_choice2 := p\<rparr>) dec"
| "setProb (LenLow rep k) i p dec =
     setLen rep ((lenOf rep dec)\<lparr>len_low := (len_low (lenOf rep dec))[k := (rowOf (len_low (lenOf rep dec)) k)[i := p]]\<rparr>) dec"
| "setProb (LenMid rep k) i p dec =
     setLen rep ((lenOf rep dec)\<lparr>len_mid := (len_mid (lenOf rep dec))[k := (rowOf (len_mid (lenOf rep dec)) k)[i := p]]\<rparr>) dec"
| "setProb (LenHigh rep) i p dec =
     setLen rep ((lenOf rep dec)\<lparr>len_high := (len_high (lenOf rep dec))[i := p]\<rparr>) dec"

section \<open>Bits, trees, lengths and distances\<close>

type_synonym lzma_coder = "rangeDecoder \<times> lzmaDecoder"

definition decodeBit :: "prob_array \<Rightarrow> nat \<Rightarrow> lzma_coder \<Rightarrow> (nat \<times> lzma_coder) option" where
  "decodeBit a i st =
     (case st of
        (d, dec) \<Rightarrow>
          if i < length (probsOf dec a)
          then (case rangeBit (probsOf dec a ! i) d of (b, p, d') \<Rightarrow> Some (b, d', setProb a i p dec))
          else None)"

text \<open>The array may be a slice that starts at \<open>base\<close>.\<close>

primrec treeLoop :: "prob_array \<Rightarrow> nat \<Rightarrow> nat \<Rightarrow> nat \<Rightarrow> lzma_coder \<Rightarrow> (nat \<times> lzma_coder) option" where
  "treeLoop a base 0 m st = Some (m, st)"
| "treeLoop a base (Suc n) m st =
     do { (b, st) \<leftarrow> decodeBit a (base + m) st; treeLoop a base n (2 * m + b) st }"

definition bitTreeDecode :: "prob_array \<Rightarrow> nat \<Rightarrow> lzma_coder \<Rightarrow> (nat \<times> lzma_coder) option" where
  "bitTreeDecode a numBits st =
     do { (m, st) \<leftarrow> treeLoop a 0 numBits 1 st; Some (m - 2 ^ numBits, st) }"

primrec reverseLoop ::
    "prob_array \<Rightarrow> nat \<Rightarrow> nat \<Rightarrow> nat \<Rightarrow> nat \<Rightarrow> nat \<Rightarrow> lzma_coder \<Rightarrow> (nat \<times> lzma_coder) option" where
  "reverseLoop a base 0 i m symbol st = Some (symbol, st)"
| "reverseLoop a base (Suc n) i m symbol st =
     do { (b, st) \<leftarrow> decodeBit a (base + m) st; reverseLoop a base n (Suc i) (2 * m + b) (symbol + b * 2 ^ i) st }"

definition bitTreeReverseDecode ::
    "prob_array \<Rightarrow> nat \<Rightarrow> nat \<Rightarrow> lzma_coder \<Rightarrow> (nat \<times> lzma_coder) option" where
  "bitTreeReverseDecode a base numBits st = reverseLoop a base numBits 0 1 0 st"

definition decodeLen :: "bool \<Rightarrow> nat \<Rightarrow> lzma_coder \<Rightarrow> (nat \<times> lzma_coder) option" where
  "decodeLen rep posState st =
     do { (b, st) \<leftarrow> decodeBit (LenChoice rep) 0 st;
          if b = 0 then bitTreeDecode (LenLow rep posState) 3 st
          else do { (b, st) \<leftarrow> decodeBit (LenChoice2 rep) 0 st;
                    if b = 0
                    then do { (m, st) \<leftarrow> bitTreeDecode (LenMid rep posState) 3 st; Some (8 + m, st) }
                    else do { (m, st) \<leftarrow> bitTreeDecode (LenHigh rep) 8 st; Some (16 + m, st) } } }"

definition lenState :: "nat \<Rightarrow> nat" where
  "lenState n = (if 3 < n - 2 then 3 else n - 2)"

definition decodeDistance :: "nat \<Rightarrow> lzma_coder \<Rightarrow> (u32 \<times> lzma_coder) option" where
  "decodeDistance n st =
     do { (posSlot, st) \<leftarrow> bitTreeDecode (PosSlot (lenState n)) 6 st;
          if posSlot < 4 then Some (of_nat posSlot, st)
          else
            let numDirectBits = posSlot div 2 - 1;
                dist = push_bit numDirectBits (of_nat (2 + posSlot mod 2) :: u32)
            in if posSlot < 14
               then do { (m, st) \<leftarrow> bitTreeReverseDecode PosProbs (unat dist - posSlot) numDirectBits st;
                         Some (dist + of_nat m, st) }
               else (case st of
                       (d, dec) \<Rightarrow>
                         (case decodeDirectBits (numDirectBits - 4) d of
                            (direct, d') \<Rightarrow>
                              do { (m, st) \<leftarrow> bitTreeReverseDecode AlignProbs 0 4 (d', dec);
                                   Some (dist + push_bit 4 direct + of_nat m, st) })) }"

section \<open>One symbol\<close>

definition lzmaLiteralNextState :: "nat \<Rightarrow> nat" where
  "lzmaLiteralNextState s = (if s < 4 then 0 else if s < 10 then s - 3 else s - 6)"

definition lzmaMatchNextState :: "nat \<Rightarrow> nat" where
  "lzmaMatchNextState s = (if s < 7 then 7 else 10)"

definition lzmaRepNextState :: "nat \<Rightarrow> nat" where
  "lzmaRepNextState s = (if s < 7 then 8 else 11)"

definition lzmaShortRepNextState :: "nat \<Rightarrow> nat" where
  "lzmaShortRepNextState s = (if s < 7 then 9 else 11)"

definition canReach :: "lzmaDecoder \<Rightarrow> u32 \<Rightarrow> nat \<Rightarrow> bool" where
  "canReach dec dist available \<longleftrightarrow> unat dist < lz_pos dec \<and> unat dist < available"

definition indexAt :: "'a list \<Rightarrow> nat \<Rightarrow> 'a option" where
  "indexAt xs i = (if i < length xs then Some (xs ! i) else None)"

text \<open>What a symbol, or a whole chunk, ends with: the coder and the output, corrupt data, or the end
  marker.\<close>

datatype lzma_step =
  More lzma_coder bytes
| DataError
| EndMarker lzma_coder bytes

text \<open>The literal against the byte at the last distance, until the two disagree.\<close>

function matchLoop :: "nat \<Rightarrow> u8 \<Rightarrow> nat \<Rightarrow> lzma_coder \<Rightarrow> (nat \<times> lzma_coder) option" where
  "matchLoop base matchByte symbol st =
     (if 0 < symbol \<and> symbol < 0x100
      then let matchBit = unat (drop_bit 7 matchByte) in
           do { (b, st) \<leftarrow> decodeBit LitProbs (base + (1 + matchBit) * 256 + symbol) st;
                if matchBit \<noteq> b then Some (2 * symbol + b, st)
                else matchLoop base (push_bit 1 matchByte) (2 * symbol + b) st }
      else Some (symbol, st))"
  by pat_completeness auto
termination
  by (relation "measure (\<lambda>(base, matchByte, symbol, st). 0x100 - symbol)") auto

function literalLoop :: "nat \<Rightarrow> nat \<Rightarrow> lzma_coder \<Rightarrow> (nat \<times> lzma_coder) option" where
  "literalLoop base symbol st =
     (if 0 < symbol \<and> symbol < 0x100
      then do { (b, st) \<leftarrow> decodeBit LitProbs (base + symbol) st; literalLoop base (2 * symbol + b) st }
      else Some (symbol, st))"
  by pat_completeness auto
termination
  by (relation "measure (\<lambda>(base, symbol, st). 0x100 - symbol)") auto

declare matchLoop.simps [simp del] literalLoop.simps [simp del]

definition decodeLiteral :: "lzma_coder \<Rightarrow> bytes \<Rightarrow> lzma_step option" where
  "decodeLiteral st buf =
     (let dec = snd st in
      do { prevByte \<leftarrow> (if 0 < lz_pos dec then indexAt buf (length buf - 1) else Some 0);
           let base = 0x300 * ((lz_pos dec mod 2 ^ lz_lp dec) * 2 ^ lz_lc dec + unat prevByte div 2 ^ (8 - lz_lc dec));
           if length (lz_litProbs dec) < base then None
           else if 7 \<le> lz_state dec \<and> \<not> canReach dec (lz_rep0 dec) (length buf) then Some DataError
           else do {
             (symbol, st) \<leftarrow>
               (if 7 \<le> lz_state dec
                then do { matchByte \<leftarrow> indexAt buf (length buf - unat (lz_rep0 dec) - 1);
                          matchLoop base matchByte 1 st }
                else Some (1, st));
             (symbol, (d, dec)) \<leftarrow> literalLoop base symbol st;
             Some (More (d, dec\<lparr>lz_pos := lz_pos dec + 1, lz_state := lzmaLiteralNextState (lz_state dec)\<rparr>)
                     (buf @ [of_nat symbol])) } })"

primrec copyMatch :: "nat \<Rightarrow> nat \<Rightarrow> bytes \<Rightarrow> bytes option" where
  "copyMatch 0 from buf = Some buf"
| "copyMatch (Suc n) from buf = do { b \<leftarrow> indexAt buf from; copyMatch n (Suc from) (buf @ [b]) }"

text \<open>The common end of every match.\<close>

definition finishMatch :: "nat \<Rightarrow> nat \<Rightarrow> lzma_coder \<Rightarrow> bytes \<Rightarrow> lzma_step option" where
  "finishMatch target n st buf =
     (case st of
        (d, dec) \<Rightarrow>
          if \<not> canReach dec (lz_rep0 dec) (length buf) then Some DataError
          else if target < length buf + n then Some DataError
          else do { buf \<leftarrow> copyMatch n (length buf - unat (lz_rep0 dec) - 1) buf;
                    Some (More (d, dec\<lparr>lz_pos := lz_pos dec + n\<rparr>) buf) })"

definition shortRep :: "lzma_coder \<Rightarrow> bytes \<Rightarrow> lzma_step option" where
  "shortRep st buf =
     (case st of
        (d, dec) \<Rightarrow>
          if \<not> canReach dec (lz_rep0 dec) (length buf) then Some DataError
          else do { b \<leftarrow> indexAt buf (length buf - unat (lz_rep0 dec) - 1);
                    Some (More (d, dec\<lparr>lz_pos := lz_pos dec + 1,
                                      lz_state := lzmaShortRepNextState (lz_state dec)\<rparr>) (buf @ [b])) })"

text \<open>One of the older distances moves to the front.\<close>

definition chooseRep :: "lzma_coder \<Rightarrow> lzma_coder option" where
  "chooseRep st =
     do { (g1, st) \<leftarrow> decodeBit IsRepG1 (lz_state (snd st)) st;
          if g1 = 0
          then (case st of (d, dec) \<Rightarrow> Some (d, dec\<lparr>lz_rep1 := lz_rep0 dec, lz_rep0 := lz_rep1 dec\<rparr>))
          else do { (g2, d, dec) \<leftarrow> decodeBit IsRepG2 (lz_state (snd st)) st;
                    Some (d, if g2 = 0
                             then dec\<lparr>lz_rep2 := lz_rep1 dec, lz_rep1 := lz_rep0 dec, lz_rep0 := lz_rep2 dec\<rparr>
                             else dec\<lparr>lz_rep3 := lz_rep2 dec, lz_rep2 := lz_rep1 dec, lz_rep1 := lz_rep0 dec,
                                      lz_rep0 := lz_rep3 dec\<rparr>) } }"

definition repMatch :: "nat \<Rightarrow> nat \<Rightarrow> lzma_coder \<Rightarrow> bytes \<Rightarrow> lzma_step option" where
  "repMatch target posState st buf =
     do { (n, d, dec) \<leftarrow> decodeLen True posState st;
          finishMatch target (n + 2) (d, dec\<lparr>lz_state := lzmaRepNextState (lz_state dec)\<rparr>) buf }"

definition decodeRep :: "nat \<Rightarrow> nat \<Rightarrow> nat \<Rightarrow> lzma_coder \<Rightarrow> bytes \<Rightarrow> lzma_step option" where
  "decodeRep target posState stateIndex st buf =
     (if lz_pos (snd st) = 0 then Some DataError
      else do { (g0, st) \<leftarrow> decodeBit IsRepG0 (lz_state (snd st)) st;
                if g0 = 0
                then do { (long, st) \<leftarrow> decodeBit IsRep0Long stateIndex st;
                          if long = 0 then shortRep st buf else repMatch target posState st buf }
                else do { st \<leftarrow> chooseRep st; repMatch target posState st buf } })"

definition newMatch :: "nat \<Rightarrow> nat \<Rightarrow> lzma_coder \<Rightarrow> bytes \<Rightarrow> lzma_step option" where
  "newMatch target posState st buf =
     (case st of
        (d, dec) \<Rightarrow>
          do { (n, d, dec) \<leftarrow>
                 decodeLen False posState
                   (d, dec\<lparr>lz_rep3 := lz_rep2 dec, lz_rep2 := lz_rep1 dec, lz_rep1 := lz_rep0 dec\<rparr>);
               (dist, d, dec) \<leftarrow>
                 decodeDistance (n + 2) (d, dec\<lparr>lz_state := lzmaMatchNextState (lz_state dec)\<rparr>);
               if dist = 0xFFFFFFFF then Some (EndMarker (d, dec) buf)
               else finishMatch target (n + 2) (d, dec\<lparr>lz_rep0 := dist\<rparr>) buf })"

definition decodeSymbol :: "nat \<Rightarrow> lzma_coder \<Rightarrow> bytes \<Rightarrow> lzma_step option" where
  "decodeSymbol target st buf =
     (let posState = lz_pos (snd st) mod 2 ^ lz_pb (snd st);
          stateIndex = lz_state (snd st) * 16 + posState
      in do { (b, st) \<leftarrow> decodeBit IsMatch stateIndex st;
              if b = 0 then decodeLiteral st buf
              else do { (rep, st) \<leftarrow> decodeBit IsRep (lz_state (snd st)) st;
                        if rep \<noteq> 0 then decodeRep target posState stateIndex st buf
                        else newMatch target posState st buf } })"

section \<open>One chunk\<close>

lemma copyMatch_length: "copyMatch n from buf = Some buf' \<Longrightarrow> length buf' = length buf + n"
  by (induction n arbitrary: "from" buf) (auto simp: bind_eq_Some_conv)

lemma finishMatch_grows: "finishMatch target n st buf = Some (More st' buf') \<Longrightarrow> length buf' = length buf + n"
  by (auto simp: finishMatch_def bind_eq_Some_conv copyMatch_length split: prod.splits if_splits)

lemma repMatch_grows: "repMatch target q st buf = Some (More st' buf') \<Longrightarrow> length buf < length buf'"
  by (auto simp: repMatch_def bind_eq_Some_conv dest!: finishMatch_grows)

lemma shortRep_grows: "shortRep st buf = Some (More st' buf') \<Longrightarrow> length buf < length buf'"
  by (auto simp: shortRep_def bind_eq_Some_conv split: prod.splits if_splits)

lemma decodeRep_grows: "decodeRep target q i st buf = Some (More st' buf') \<Longrightarrow> length buf < length buf'"
  by (auto simp: decodeRep_def bind_eq_Some_conv split: if_splits dest: repMatch_grows shortRep_grows)

lemma newMatch_grows: "newMatch target q st buf = Some (More st' buf') \<Longrightarrow> length buf < length buf'"
  by (auto simp: newMatch_def bind_eq_Some_conv split: prod.splits if_splits dest!: finishMatch_grows)

lemma decodeLiteral_grows: "decodeLiteral st buf = Some (More st' buf') \<Longrightarrow> length buf < length buf'"
  by (auto simp: decodeLiteral_def bind_eq_Some_conv Let_def split: if_splits)

lemma decodeSymbol_grows: "decodeSymbol target st buf = Some (More st' buf') \<Longrightarrow> length buf < length buf'"
  by (auto simp: decodeSymbol_def Let_def bind_eq_Some_conv split: if_splits
      dest: decodeLiteral_grows decodeRep_grows newMatch_grows)

function decodeLoop :: "nat \<Rightarrow> lzma_coder \<Rightarrow> bytes \<Rightarrow> lzma_step option" where
  "decodeLoop target st buf =
     (if length buf < target
      then (if rd_corrupt (fst st) then Some DataError
            else (case decodeSymbol target st buf of
                    Some (More st' buf') \<Rightarrow> decodeLoop target st' buf'
                  | other \<Rightarrow> other))
      else if rd_corrupt (fst st) then Some DataError
      else Some (More st buf))"
  by pat_completeness auto
termination
  by (relation "measure (\<lambda>(target, st, buf). target - length buf)") (auto dest: decodeSymbol_grows)

declare decodeLoop.simps [simp del]

definition decodeChunk :: "lzma_coder \<Rightarrow> bytes \<Rightarrow> nat \<Rightarrow> lzma_step option" where
  "decodeChunk st buf limit = decodeLoop (length buf + limit) st buf"


section \<open>Indices stay in range\<close>

text \<open>The sizes of the arrays of the code, the literal table apart.\<close>

fun probSize :: "prob_array \<Rightarrow> nat" where
  "probSize LitProbs = 0"
| "probSize IsMatch = 192"
| "probSize IsRep = 12"
| "probSize IsRepG0 = 12"
| "probSize IsRepG1 = 12"
| "probSize IsRepG2 = 12"
| "probSize IsRep0Long = 192"
| "probSize (PosSlot k) = (if k < 4 then 64 else 0)"
| "probSize AlignProbs = 16"
| "probSize PosProbs = 115"
| "probSize (LenChoice rep) = 1"
| "probSize (LenChoice2 rep) = 1"
| "probSize (LenLow rep k) = (if k < 16 then 8 else 0)"
| "probSize (LenMid rep k) = (if k < 16 then 8 else 0)"
| "probSize (LenHigh rep) = 256"

definition tablesOk :: "lzmaDecoder \<Rightarrow> bool" where
  "tablesOk dec \<longleftrightarrow> lz_state dec < 12 \<and> lz_pb dec \<le> 4 \<and> lz_lc dec + lz_lp dec \<le> 4 \<and>
     (\<forall>a. probSize a \<le> length (probsOf dec a))"

definition litOk :: "lzmaDecoder \<Rightarrow> bool" where
  "litOk dec \<longleftrightarrow> 0x300 * 2 ^ (lz_lc dec + lz_lp dec) \<le> length (lz_litProbs dec)"

text \<open>Decoding bits changes probabilities only.\<close>

definition kept :: "lzmaDecoder \<Rightarrow> lzmaDecoder \<Rightarrow> bool" where
  "kept dec dec' \<longleftrightarrow> (\<forall>a. length (probsOf dec' a) = length (probsOf dec a)) \<and>
     lz_state dec' = lz_state dec \<and> lz_pos dec' = lz_pos dec \<and> lz_lc dec' = lz_lc dec \<and>
     lz_lp dec' = lz_lp dec \<and> lz_pb dec' = lz_pb dec \<and> lz_rep0 dec' = lz_rep0 dec"

lemma kept_refl [simp]: "kept dec dec"
  by (simp add: kept_def)

lemma kept_trans [trans]: "kept a b \<Longrightarrow> kept b c \<Longrightarrow> kept a c"
  by (simp add: kept_def)

lemma rowOf_update: "length (rowOf (rows[k := (rowOf rows k)[i := p]]) j) = length (rowOf rows j)"
  by (auto simp: rowOf_def nth_list_update)

lemma lenOf_setLen: "lenOf rep (setLen rep' l dec) = (if rep = rep' then l else lenOf rep dec)"
  by (auto simp: lenOf_def setLen_def)

lemma setLen_frame [simp]:
  "lz_state (setLen rep l dec) = lz_state dec" "lz_pos (setLen rep l dec) = lz_pos dec"
  "lz_lc (setLen rep l dec) = lz_lc dec" "lz_lp (setLen rep l dec) = lz_lp dec"
  "lz_pb (setLen rep l dec) = lz_pb dec" "lz_rep0 (setLen rep l dec) = lz_rep0 dec"
  "lz_litProbs (setLen rep l dec) = lz_litProbs dec" "lz_isMatch (setLen rep l dec) = lz_isMatch dec"
  "lz_isRep (setLen rep l dec) = lz_isRep dec" "lz_isRepG0 (setLen rep l dec) = lz_isRepG0 dec"
  "lz_isRepG1 (setLen rep l dec) = lz_isRepG1 dec" "lz_isRepG2 (setLen rep l dec) = lz_isRepG2 dec"
  "lz_isRep0Long (setLen rep l dec) = lz_isRep0Long dec"
  "lz_posSlotDecoder (setLen rep l dec) = lz_posSlotDecoder dec"
  "lz_alignDecoder (setLen rep l dec) = lz_alignDecoder dec" "lz_posDecoders (setLen rep l dec) = lz_posDecoders dec"
  by (simp_all add: setLen_def)

lemma lenOf_frame [simp]:
  "lenOf rep (dec\<lparr>lz_litProbs := ps0\<rparr>) = lenOf rep dec"
  "lenOf rep (dec\<lparr>lz_isMatch := ps1\<rparr>) = lenOf rep dec"
  "lenOf rep (dec\<lparr>lz_isRep := ps2\<rparr>) = lenOf rep dec"
  "lenOf rep (dec\<lparr>lz_isRepG0 := ps3\<rparr>) = lenOf rep dec"
  "lenOf rep (dec\<lparr>lz_isRepG1 := ps4\<rparr>) = lenOf rep dec"
  "lenOf rep (dec\<lparr>lz_isRepG2 := ps5\<rparr>) = lenOf rep dec"
  "lenOf rep (dec\<lparr>lz_isRep0Long := ps6\<rparr>) = lenOf rep dec"
  "lenOf rep (dec\<lparr>lz_posSlotDecoder := ps7\<rparr>) = lenOf rep dec"
  "lenOf rep (dec\<lparr>lz_alignDecoder := ps8\<rparr>) = lenOf rep dec"
  "lenOf rep (dec\<lparr>lz_posDecoders := ps9\<rparr>) = lenOf rep dec"
  by (simp_all add: lenOf_def)

lemma setProb_length: "length (probsOf (setProb a i p dec) b) = length (probsOf dec b)"
  by (cases a; cases b) (auto simp: rowOf_update lenOf_setLen)

lemma setProb_kept: "kept dec (setProb a i p dec)"
  unfolding kept_def by (auto simp: setProb_length) (cases a; simp)+

lemma tablesOk_kept: "tablesOk dec \<Longrightarrow> kept dec dec' \<Longrightarrow> tablesOk dec'"
  by (simp add: tablesOk_def kept_def)

lemma litOk_kept:
  assumes "litOk dec" "kept dec dec'"
  shows "litOk dec'"
proof -
  from assms(2) have "length (probsOf dec' LitProbs) = length (probsOf dec LitProbs)" unfolding kept_def by blast
  with assms show ?thesis by (simp add: litOk_def kept_def)
qed

text \<open>\<open>safe Q m\<close>: the computation does not panic and its result satisfies \<open>Q\<close>.\<close>

definition safe :: "('a \<Rightarrow> bool) \<Rightarrow> 'a option \<Rightarrow> bool" where
  "safe Q m \<longleftrightarrow> (\<exists>x. m = Some x \<and> Q x)"

lemma safe_Some [simp]: "safe Q (Some x) \<longleftrightarrow> Q x"
  by (simp add: safe_def)

lemma safe_None [simp]: "\<not> safe Q None"
  by (simp add: safe_def)

lemma safe_bind: "safe P m \<Longrightarrow> (\<And>x. P x \<Longrightarrow> safe Q (f x)) \<Longrightarrow> safe Q (Option.bind m f)"
  by (auto simp: safe_def)

lemma safe_mono: "safe P m \<Longrightarrow> (\<And>x. P x \<Longrightarrow> Q x) \<Longrightarrow> safe Q m"
  by (auto simp: safe_def)

text \<open>The bit layer: a value with a property, and only probabilities changed.\<close>

definition bits :: "('a \<Rightarrow> bool) \<Rightarrow> lzma_coder \<Rightarrow> ('a \<times> lzma_coder) option \<Rightarrow> bool" where
  "bits P st m \<longleftrightarrow> safe (\<lambda>(x, st'). P x \<and> kept (snd st) (snd st')) m"

lemma bits_Some [simp]: "bits P st (Some (x, st')) \<longleftrightarrow> P x \<and> kept (snd st) (snd st')"
  by (simp add: bits_def)

lemma bits_bind:
  assumes "bits P st m"
    and "\<And>x st'. P x \<Longrightarrow> kept (snd st) (snd st') \<Longrightarrow> m = Some (x, st') \<Longrightarrow> bits Q st' (f (x, st'))"
  shows "bits Q st (Option.bind m f)"
proof -
  obtain x st' where m: "m = Some (x, st')" "P x" "kept (snd st) (snd st')"
    using assms(1) by (auto simp: bits_def safe_def)
  from assms(2) [OF m(2,3,1)] m show ?thesis by (auto simp: bits_def safe_def intro: kept_trans)
qed

lemma bits_coder: "bits P st m \<Longrightarrow> snd st = snd st' \<Longrightarrow> bits P st' m"
  by (simp add: bits_def)

lemma bits_mono: "bits P st m \<Longrightarrow> (\<And>x. P x \<Longrightarrow> Q x) \<Longrightarrow> bits Q st m"
  by (auto simp: bits_def safe_def)

lemma kept_length: "kept dec dec' \<Longrightarrow> length (probsOf dec' a) = length (probsOf dec a)"
  by (simp add: kept_def)

lemma bits_map: "bits P st m \<Longrightarrow> bits (\<lambda>x. True) st (do { (x, st) \<leftarrow> m; Some (f x, st) })"
  by (rule bits_bind) auto

lemma bits_decodeBit: "i < length (probsOf (snd st) a) \<Longrightarrow> bits (\<lambda>b. b \<le> 1) st (decodeBit a i st)"
  by (cases st) (auto simp: decodeBit_def rangeBit_def Let_def setProb_kept split: prod.splits if_splits)

lemma less_times_power: "m < (m + 1) * 2 ^ n" for m :: nat
  using mult_le_mono2 [of 1 "2 ^ n" "m + 1"] by simp

lemma bits_treeLoop:
  "base + (m + 1) * 2 ^ n \<le> length (probsOf (snd st) a) \<Longrightarrow>
     bits (\<lambda>x. m * 2 ^ Suc n \<le> x \<and> x < (m + 1) * 2 ^ Suc n) st (treeLoop a base (Suc n) m st)"
proof (induction n arbitrary: m st)
  case 0
  show ?case unfolding treeLoop.simps
    by (rule bits_bind [OF bits_decodeBit]) (use 0 in auto)
next
  case (Suc n)
  have le: "base + (2 * m + b + 1) * 2 ^ n \<le> length (probsOf (snd st) a)" if "b \<le> 1" for b
  proof -
    have "(2 * m + b + 1) * 2 ^ n \<le> (2 * m + 2) * 2 ^ n" using that by (intro mult_right_mono) auto
    also have "\<dots> = (m + 1) * 2 ^ Suc n" by simp
    finally show ?thesis using Suc.prems by linarith
  qed
  have i: "base + m < length (probsOf (snd st) a)" using Suc.prems less_times_power [of m "Suc n"] by linarith
  show ?case
    unfolding treeLoop.simps(2) [of a base "Suc n"]
  proof (rule bits_bind [OF bits_decodeBit [OF i]], simp only: prod.case)
    fix b :: nat and st' :: lzma_coder assume b: "b \<le> 1" and k: "kept (snd st) (snd st')"
    have "bits (\<lambda>x. (2 * m + b) * 2 ^ Suc n \<le> x \<and> x < (2 * m + b + 1) * 2 ^ Suc n) st'
        (treeLoop a base (Suc n) (2 * m + b) st')"
      by (rule Suc.IH) (use le [OF b] kept_length [OF k] in simp)
    then show "bits (\<lambda>x. m * 2 ^ Suc (Suc n) \<le> x \<and> x < (m + 1) * 2 ^ Suc (Suc n)) st'
        (treeLoop a base (Suc n) (2 * m + b) st')"
    proof (rule bits_mono)
      fix x assume x: "(2 * m + b) * 2 ^ Suc n \<le> x \<and> x < (2 * m + b + 1) * 2 ^ Suc n"
      have "m * 2 ^ Suc (Suc n) \<le> (2 * m + b) * 2 ^ Suc n" "(2 * m + b + 1) * 2 ^ Suc n \<le> (m + 1) * 2 ^ Suc (Suc n)"
        using b by (auto simp: algebra_simps)
      with x show "m * 2 ^ Suc (Suc n) \<le> x \<and> x < (m + 1) * 2 ^ Suc (Suc n)" by linarith
    qed
  qed
qed

lemma bits_bitTree:
  assumes "2 ^ n \<le> length (probsOf (snd st) a)" "0 < n"
  shows "bits (\<lambda>x. x < 2 ^ n) st (bitTreeDecode a n st)"
proof -
  obtain k where n: "n = Suc k" using assms(2) by (cases n) auto
  have "bits (\<lambda>x. 1 * 2 ^ Suc k \<le> x \<and> x < (1 + 1) * 2 ^ Suc k) st (treeLoop a 0 (Suc k) 1 st)"
    by (rule bits_treeLoop) (use assms n in simp)
  then show ?thesis unfolding bitTreeDecode_def n
    by (rule bits_bind) auto
qed

lemma bits_reverseLoop:
  "base + (m + 1) * 2 ^ n \<le> length (probsOf (snd st) a) \<Longrightarrow>
     bits (\<lambda>x. True) st (reverseLoop a base (Suc n) i m symbol st)"
proof (induction n arbitrary: m i symbol st)
  case 0
  show ?case unfolding reverseLoop.simps
    by (rule bits_bind [OF bits_decodeBit]) (use 0 in auto)
next
  case (Suc n)
  have i: "base + m < length (probsOf (snd st) a)" using Suc.prems less_times_power [of m "Suc n"] by linarith
  show ?case
    unfolding reverseLoop.simps(2) [of a base "Suc n"]
  proof (rule bits_bind [OF bits_decodeBit [OF i]], simp only: prod.case)
    fix b :: nat and st' :: lzma_coder assume b: "b \<le> 1" and k: "kept (snd st) (snd st')"
    have "(2 * m + b + 1) * 2 ^ n \<le> (2 * m + 2) * 2 ^ n" using b by (intro mult_right_mono) auto
    also have "\<dots> = (m + 1) * 2 ^ Suc n" by simp
    finally show "bits (\<lambda>x. True) st' (reverseLoop a base (Suc n) (Suc i) (2 * m + b) (symbol + b * 2 ^ i) st')"
      by (intro Suc.IH) (use Suc.prems kept_length [OF k, of a] in linarith)
  qed
qed

lemma bits_bitTreeReverse:
  assumes "base + 2 ^ n \<le> length (probsOf (snd st) a)" "0 < n"
  shows "bits (\<lambda>x. True) st (bitTreeReverseDecode a base n st)"
proof -
  obtain k where n: "n = Suc k" using assms(2) by (cases n) auto
  show ?thesis unfolding bitTreeReverseDecode_def n
    by (rule bits_reverseLoop) (use assms n in simp)
qed


lemma tableSize: "tablesOk dec \<Longrightarrow> probSize a \<le> length (probsOf dec a)"
  by (simp add: tablesOk_def)

lemma bits_decodeLen:
  assumes "tablesOk (snd st)" "posState < 16"
  shows "bits (\<lambda>n. True) st (decodeLen rep posState st)"
proof -
  have tree: "bits (\<lambda>x. x < 2 ^ n) st' (bitTreeDecode a n st')"
    if "tablesOk (snd st')" "probSize a = 2 ^ n" "0 < n" for a n st'
    using tableSize [OF that(1), of a] that by (intro bits_bitTree) auto
  have low: "bits (\<lambda>x. x < 2 ^ 3) st' (bitTreeDecode (LenLow rep posState) 3 st')"
      "bits (\<lambda>x. x < 2 ^ 3) st' (bitTreeDecode (LenMid rep posState) 3 st')"
      "bits (\<lambda>x. x < 2 ^ 8) st' (bitTreeDecode (LenHigh rep) 8 st')"
    if "tablesOk (snd st')" for st'
    by (rule tree [OF that]; use assms(2) in simp)+
  show ?thesis
    unfolding decodeLen_def
  proof (rule bits_bind [OF bits_decodeBit], simp, simp only: prod.case)
    fix b :: nat and st1 :: lzma_coder assume "kept (snd st) (snd st1)"
    then have t1: "tablesOk (snd st1)" using assms(1) by (blast intro: tablesOk_kept)
    have "bits (\<lambda>n. True) st1 (do { (b, st) \<leftarrow> decodeBit (LenChoice2 rep) 0 st1;
          if b = 0 then do { (m, st) \<leftarrow> bitTreeDecode (LenMid rep posState) 3 st; Some (8 + m, st) }
          else do { (m, st) \<leftarrow> bitTreeDecode (LenHigh rep) 8 st; Some (16 + m, st) } })"
    proof (rule bits_bind [OF bits_decodeBit], simp, simp only: prod.case)
      fix b :: nat and st2 :: lzma_coder assume "kept (snd st1) (snd st2)"
      then have "tablesOk (snd st2)" using t1 by (blast intro: tablesOk_kept)
      from low(2,3) [OF this] show "bits (\<lambda>n. True) st2
          (if b = 0 then do { (m, st) \<leftarrow> bitTreeDecode (LenMid rep posState) 3 st2; Some (8 + m, st) }
           else do { (m, st) \<leftarrow> bitTreeDecode (LenHigh rep) 8 st2; Some (16 + m, st) })"
        by (auto intro: bits_bind)
    qed
    with low(1) [OF t1] show "bits (\<lambda>n. True) st1
        (if b = 0 then bitTreeDecode (LenLow rep posState) 3 st1
         else do { (b, st) \<leftarrow> decodeBit (LenChoice2 rep) 0 st1;
           if b = 0 then do { (m, st) \<leftarrow> bitTreeDecode (LenMid rep posState) 3 st; Some (8 + m, st) }
           else do { (m, st) \<leftarrow> bitTreeDecode (LenHigh rep) 8 st; Some (16 + m, st) } })"
      by (auto intro: bits_mono)
  qed
qed

text \<open>The slots with context-coded low bits address the 115 probabilities exactly.\<close>

lemma posProbs_range:
  assumes "4 \<le> posSlot" "posSlot < (14::nat)"
  shows "unat (push_bit (posSlot div 2 - 1) (of_nat (2 + posSlot mod 2) :: u32)) - posSlot +
           2 ^ (posSlot div 2 - 1) \<le> 115"
proof -
  have "posSlot = 4 \<or> posSlot = 5 \<or> posSlot = 6 \<or> posSlot = 7 \<or> posSlot = 8 \<or> posSlot = 9 \<or> posSlot = 10 \<or>
      posSlot = 11 \<or> posSlot = 12 \<or> posSlot = 13" using assms by presburger
  then show ?thesis by (elim disjE) (simp_all add: push_bit_eq_mult)
qed

lemma bits_decodeDistance:
  assumes "tablesOk (snd st)"
  shows "bits (\<lambda>x. True) st (decodeDistance n st)"
proof -
  have "probSize (PosSlot (lenState n)) = 64" by (simp add: lenState_def)
  then have 6: "2 ^ 6 \<le> length (probsOf (snd st) (PosSlot (lenState n)))"
    using tableSize [OF assms, of "PosSlot (lenState n)"] by simp
  show ?thesis
    unfolding decodeDistance_def
  proof (rule bits_bind [OF bits_bitTree [OF 6]], simp, simp only: prod.case)
    fix posSlot :: nat and st1 :: lzma_coder assume "kept (snd st) (snd st1)"
    then have t: "tablesOk (snd st1)" using assms by (blast intro: tablesOk_kept)
    let ?d = "posSlot div 2 - 1"
    let ?dist = "push_bit ?d (of_nat (2 + posSlot mod 2) :: u32)"
    have ctx: "bits (\<lambda>x. True) st1 (bitTreeReverseDecode PosProbs (unat ?dist - posSlot) ?d st1)"
      if "\<not> posSlot < 4" "posSlot < 14"
      using tableSize [OF t, of PosProbs] posProbs_range [of posSlot] that by (intro bits_bitTreeReverse) auto
    have align: "bits (\<lambda>x. True) st' (bitTreeReverseDecode AlignProbs 0 4 st')" if "snd st' = snd st1" for st'
      using tableSize [OF t, of AlignProbs] that by (intro bits_bitTreeReverse) auto
    show "bits (\<lambda>x. True) st1
        (if posSlot < 4 then Some (of_nat posSlot, st1)
         else let numDirectBits = ?d; dist = push_bit numDirectBits (of_nat (2 + posSlot mod 2) :: u32)
              in if posSlot < 14
                 then do { (m, st) \<leftarrow> bitTreeReverseDecode PosProbs (unat dist - posSlot) numDirectBits st1;
                           Some (dist + of_nat m, st) }
                 else (case st1 of (d, dec) \<Rightarrow>
                    (case decodeDirectBits (numDirectBits - 4) d of
                       (direct, d') \<Rightarrow> do { (m, st) \<leftarrow> bitTreeReverseDecode AlignProbs 0 4 (d', dec);
                                          Some (dist + push_bit 4 direct + of_nat m, st) })))"
    proof (cases "posSlot < 14")
      case True
      with bits_map [OF ctx, of "\<lambda>m. ?dist + of_nat m"] show ?thesis by (simp add: Let_def)
    next
      case False
      obtain d dec direct d' where d: "st1 = (d, dec)" "decodeDirectBits (?d - 4) d = (direct, d')" by fastforce
      have "bits (\<lambda>x. True) st1 (bitTreeReverseDecode AlignProbs 0 4 (d', dec))"
        by (rule bits_coder [OF align]) (simp_all add: d)
      from bits_map [OF this] False d show ?thesis by (simp add: Let_def)
    qed
  qed
qed


section \<open>A symbol never panics\<close>

definition decOk :: "lzmaDecoder \<Rightarrow> bool" where
  "decOk dec \<longleftrightarrow> tablesOk dec \<and> litOk dec"

lemma probsOf_frame [simp]:
  "probsOf (dec\<lparr>lz_state := s\<rparr>) a = probsOf dec a" "probsOf (dec\<lparr>lz_pos := n\<rparr>) a = probsOf dec a"
  "probsOf (dec\<lparr>lz_rep0 := d\<rparr>) a = probsOf dec a" "probsOf (dec\<lparr>lz_rep1 := d\<rparr>) a = probsOf dec a"
  "probsOf (dec\<lparr>lz_rep2 := d\<rparr>) a = probsOf dec a" "probsOf (dec\<lparr>lz_rep3 := d\<rparr>) a = probsOf dec a"
  by (cases a; simp add: lenOf_def)+

lemma decOk_frame [simp]:
  "s < 12 \<Longrightarrow> decOk dec \<Longrightarrow> decOk (dec\<lparr>lz_state := s\<rparr>)" "decOk (dec\<lparr>lz_pos := n\<rparr>) = decOk dec"
  "decOk (dec\<lparr>lz_rep0 := d\<rparr>) = decOk dec" "decOk (dec\<lparr>lz_rep1 := d\<rparr>) = decOk dec"
  "decOk (dec\<lparr>lz_rep2 := d\<rparr>) = decOk dec" "decOk (dec\<lparr>lz_rep3 := d\<rparr>) = decOk dec"
  by (simp_all add: decOk_def tablesOk_def litOk_def)

lemma nextState_range:
  "s < 12 \<Longrightarrow> lzmaLiteralNextState s < 12" "lzmaMatchNextState s < 12" "lzmaRepNextState s < 12"
  "lzmaShortRepNextState s < 12"
  by (auto simp: lzmaLiteralNextState_def lzmaMatchNextState_def lzmaRepNextState_def lzmaShortRepNextState_def)

lemma decOk_kept: "decOk dec \<Longrightarrow> kept dec dec' \<Longrightarrow> decOk dec'"
  by (auto simp: decOk_def intro: tablesOk_kept litOk_kept)

lemma decOk_state: "decOk dec \<Longrightarrow> lz_state dec < 12"
  by (simp add: decOk_def tablesOk_def)

lemma decOk_tables: "decOk dec \<Longrightarrow> tablesOk dec"
  by (simp add: decOk_def)

lemma safe_bits:
  assumes "bits P st m" "decOk (snd st)"
    and "\<And>x st'. P x \<Longrightarrow> kept (snd st) (snd st') \<Longrightarrow> decOk (snd st') \<Longrightarrow> safe Q (f (x, st'))"
  shows "safe Q (Option.bind m f)"
  using assms by (auto simp: bits_def safe_def dest: decOk_kept)

text \<open>A bit whose index lies in its table.\<close>

lemma safe_bit:
  assumes "decOk (snd st)" "i < probSize a"
    and "\<And>x st'. x \<le> 1 \<Longrightarrow> kept (snd st) (snd st') \<Longrightarrow> decOk (snd st') \<Longrightarrow> safe Q (f (x, st'))"
  shows "safe Q (Option.bind (decodeBit a i st) f)"
proof (rule safe_bits [OF bits_decodeBit assms(1)])
  show "i < length (probsOf (snd st) a)" using tableSize [OF decOk_tables [OF assms(1)], of a] assms(2) by simp
qed (rule assms(3))

definition stepOk :: "nat \<Rightarrow> bytes \<Rightarrow> lzma_step \<Rightarrow> bool" where
  "stepOk target buf r =
     (case r of
        DataError \<Rightarrow> True
      | EndMarker st buf' \<Rightarrow> decOk (snd st) \<and> buf' = buf
      | More st buf' \<Rightarrow> decOk (snd st) \<and> length buf' \<le> target \<and> (\<exists>ys. ys \<noteq> [] \<and> buf' = buf @ ys))"

lemma stepOk_simps [simp]:
  "stepOk target buf DataError"
  "stepOk target buf (EndMarker st buf') \<longleftrightarrow> decOk (snd st) \<and> buf' = buf"
  "stepOk target buf (More st buf') \<longleftrightarrow>
     decOk (snd st) \<and> length buf' \<le> target \<and> (\<exists>ys. ys \<noteq> [] \<and> buf' = buf @ ys)"
  by (simp_all add: stepOk_def)

lemma indexAt_safe: "i < length xs \<Longrightarrow> safe (\<lambda>x. True) (indexAt xs i)"
  by (simp add: indexAt_def)

lemma safe_copyMatch: "from < length buf \<Longrightarrow> safe (\<lambda>buf'. \<exists>ys. length ys = n \<and> buf' = buf @ ys) (copyMatch n from buf)"
proof (induction n arbitrary: "from" buf)
  case (Suc n)
  show ?case unfolding copyMatch.simps
  proof (rule safe_bind [OF indexAt_safe [OF Suc.prems]])
    fix b
    have "safe (\<lambda>buf'. \<exists>ys. length ys = n \<and> buf' = (buf @ [b]) @ ys) (copyMatch n (Suc from) (buf @ [b]))"
      by (rule Suc.IH) (use Suc.prems in simp)
    then show "safe (\<lambda>buf'. \<exists>ys. length ys = Suc n \<and> buf' = buf @ ys) (copyMatch n (Suc from) (buf @ [b]))"
      by (rule safe_mono) force
  qed
qed simp

lemma finishMatch_ok:
  assumes "decOk (snd st)" "0 < n"
  shows "safe (stepOk target buf) (finishMatch target n st buf)"
proof -
  obtain d dec where st: "st = (d, dec)" by fastforce
  show ?thesis
  proof (cases "canReach dec (lz_rep0 dec) (length buf) \<and> length buf + n \<le> target")
    case True
    then have "safe (\<lambda>buf'. \<exists>ys. length ys = n \<and> buf' = buf @ ys)
        (copyMatch n (length buf - unat (lz_rep0 dec) - 1) buf)"
      by (intro safe_copyMatch) (auto simp: canReach_def)
    with True assms st show ?thesis by (auto simp: finishMatch_def safe_def)
  next
    case False
    then show ?thesis by (auto simp: finishMatch_def st)
  qed
qed

lemma shortRep_ok:
  assumes "decOk (snd st)" "length buf < target"
  shows "safe (stepOk target buf) (shortRep st buf)"
  using assms by (cases st) (auto simp: shortRep_def canReach_def indexAt_def nextState_range)

lemma repMatch_ok:
  assumes "decOk (snd st)" "posState < 16"
  shows "safe (stepOk target buf) (repMatch target posState st buf)"
  unfolding repMatch_def
  by (rule safe_bits [OF bits_decodeLen [OF decOk_tables [OF assms(1)] assms(2)] assms(1)])
    (auto split: prod.split intro!: finishMatch_ok simp: nextState_range)

lemma chooseRep_ok:
  assumes "decOk (snd st)"
  shows "safe (\<lambda>st'. decOk (snd st')) (chooseRep st)"
  unfolding chooseRep_def
proof (rule safe_bit [OF assms], simp add: decOk_state assms, simp only: prod.case)
  fix b :: nat and st1 :: lzma_coder
  assume d: "decOk (snd st1)"
  have "safe (\<lambda>st'. decOk (snd st')) (do { (g2, d, dec) \<leftarrow> decodeBit IsRepG2 (lz_state (snd st1)) st1;
      Some (d, if g2 = 0
               then dec\<lparr>lz_rep2 := lz_rep1 dec, lz_rep1 := lz_rep0 dec, lz_rep0 := lz_rep2 dec\<rparr>
               else dec\<lparr>lz_rep3 := lz_rep2 dec, lz_rep2 := lz_rep1 dec, lz_rep1 := lz_rep0 dec,
                        lz_rep0 := lz_rep3 dec\<rparr>) })"
    by (rule safe_bit [OF d]) (auto simp: decOk_state d)
  with d show "safe (\<lambda>st'. decOk (snd st'))
      (if b = 0 then (case st1 of (d, dec) \<Rightarrow> Some (d, dec\<lparr>lz_rep1 := lz_rep0 dec, lz_rep0 := lz_rep1 dec\<rparr>))
       else do { (g2, d, dec) \<leftarrow> decodeBit IsRepG2 (lz_state (snd st1)) st1;
         Some (d, if g2 = 0
               then dec\<lparr>lz_rep2 := lz_rep1 dec, lz_rep1 := lz_rep0 dec, lz_rep0 := lz_rep2 dec\<rparr>
               else dec\<lparr>lz_rep3 := lz_rep2 dec, lz_rep2 := lz_rep1 dec, lz_rep1 := lz_rep0 dec,
                        lz_rep0 := lz_rep3 dec\<rparr>) })"
    by (auto split: prod.split)
qed


lemma decodeRep_ok:
  assumes "decOk (snd st)" "posState < 16" "stateIndex < 192" "length buf < target"
  shows "safe (stepOk target buf) (decodeRep target posState stateIndex st buf)"
proof (cases "lz_pos (snd st) = 0")
  case False
  have "safe (stepOk target buf) (do { (g0, st) \<leftarrow> decodeBit IsRepG0 (lz_state (snd st)) st;
      if g0 = 0 then do { (long, st) \<leftarrow> decodeBit IsRep0Long stateIndex st;
                          if long = 0 then shortRep st buf else repMatch target posState st buf }
      else do { st \<leftarrow> chooseRep st; repMatch target posState st buf } })"
  proof (rule safe_bit [OF assms(1)], simp add: decOk_state assms(1), simp only: prod.case)
    fix g0 :: nat and st1 :: lzma_coder
    assume d: "decOk (snd st1)"
    have "safe (stepOk target buf) (do { (long, st) \<leftarrow> decodeBit IsRep0Long stateIndex st1;
        if long = 0 then shortRep st buf else repMatch target posState st buf })"
      by (rule safe_bit [OF d]) (use assms in \<open>auto intro: shortRep_ok repMatch_ok\<close>)
    moreover have "safe (stepOk target buf) (do { st \<leftarrow> chooseRep st1; repMatch target posState st buf })"
      by (rule safe_bind [OF chooseRep_ok [OF d]]) (rule repMatch_ok [OF _ assms(2)])
    ultimately show "safe (stepOk target buf)
        (if g0 = 0 then do { (long, st) \<leftarrow> decodeBit IsRep0Long stateIndex st1;
                            if long = 0 then shortRep st buf else repMatch target posState st buf }
         else do { st \<leftarrow> chooseRep st1; repMatch target posState st buf })" by simp
  qed
  with False show ?thesis by (simp add: decodeRep_def)
qed (simp add: decodeRep_def)

lemma newMatch_ok:
  assumes "decOk (snd st)" "posState < 16"
  shows "safe (stepOk target buf) (newMatch target posState st buf)"
proof -
  obtain d dec where st: "st = (d, dec)" by fastforce
  let ?st = "(d, dec\<lparr>lz_rep3 := lz_rep2 dec, lz_rep2 := lz_rep1 dec, lz_rep1 := lz_rep0 dec\<rparr>)"
  have ok: "decOk (snd ?st)" using assms(1) st by simp
  show ?thesis
    unfolding newMatch_def st prod.case
  proof (rule safe_bits [OF bits_decodeLen [OF decOk_tables [OF ok] assms(2)] ok])
    fix n :: nat and st1 :: lzma_coder
    assume d1: "decOk (snd st1)"
    obtain d1 dec1 where st1: "st1 = (d1, dec1)" by fastforce
    have ok1: "decOk (snd (d1, dec1\<lparr>lz_state := lzmaMatchNextState (lz_state dec1)\<rparr>))"
      using d1 st1 by (simp add: nextState_range)
    have "safe (stepOk target buf)
        (do { (dist, d, dec) \<leftarrow> decodeDistance (n + 2) (d1, dec1\<lparr>lz_state := lzmaMatchNextState (lz_state dec1)\<rparr>);
              if dist = 0xFFFFFFFF then Some (EndMarker (d, dec) buf)
              else finishMatch target (n + 2) (d, dec\<lparr>lz_rep0 := dist\<rparr>) buf })"
      by (rule safe_bits [OF bits_decodeDistance [OF decOk_tables [OF ok1]] ok1])
        (auto split: prod.split intro!: finishMatch_ok)
    then show "safe (stepOk target buf) (case (n, st1) of (n, d, dec) \<Rightarrow>
        do { (dist, d, dec) \<leftarrow> decodeDistance (n + 2) (d, dec\<lparr>lz_state := lzmaMatchNextState (lz_state dec)\<rparr>);
             if dist = 0xFFFFFFFF then Some (EndMarker (d, dec) buf)
             else finishMatch target (n + 2) (d, dec\<lparr>lz_rep0 := dist\<rparr>) buf })"
      unfolding st1 prod.case .
  qed
qed

lemma bits_literalLoop:
  "base + 0x100 \<le> length (lz_litProbs (snd st)) \<Longrightarrow> bits (\<lambda>x. True) st (literalLoop base symbol st)"
proof (induction base symbol st rule: literalLoop.induct)
  case (1 base symbol st)
  show ?case
  proof (cases "0 < symbol \<and> symbol < 0x100")
    case True
    have "bits (\<lambda>x. True) st (do { (b, st) \<leftarrow> decodeBit LitProbs (base + symbol) st; literalLoop base (2 * symbol + b) st })"
    proof (rule bits_bind [OF bits_decodeBit], use "1.prems" True in simp, simp only: prod.case)
      fix b :: nat and st' :: lzma_coder
      assume k: "kept (snd st) (snd st')" and m: "decodeBit LitProbs (base + symbol) st = Some (b, st')"
      from kept_length [OF k, of LitProbs] show "bits (\<lambda>x. True) st' (literalLoop base (2 * symbol + b) st')"
        using "1.IH" [OF True m refl] "1.prems" by simp
    qed
    with True show ?thesis by (subst literalLoop.simps) simp
  qed (subst literalLoop.simps, auto)
qed

lemma bits_matchLoop:
  "base + 0x300 \<le> length (lz_litProbs (snd st)) \<Longrightarrow> bits (\<lambda>x. True) st (matchLoop base mb symbol st)"
proof (induction base mb symbol st rule: matchLoop.induct)
  case (1 base mb symbol st)
  let ?m = "unat (drop_bit 7 mb)"
  have "unat mb < 2 ^ LENGTH(8)" by (rule unsigned_less)
  then have m: "?m \<le> 1" unfolding unat_drop_bit_eq by (simp add: drop_bit_eq_div)
  show ?case
  proof (cases "0 < symbol \<and> symbol < 0x100")
    case True
    have i: "base + (1 + ?m) * 256 + symbol < length (probsOf (snd st) LitProbs)"
      using "1.prems" True m by simp
    have "bits (\<lambda>x. True) st (do { (b, st) \<leftarrow> decodeBit LitProbs (base + (1 + ?m) * 256 + symbol) st;
        if ?m \<noteq> b then Some (2 * symbol + b, st) else matchLoop base (push_bit 1 mb) (2 * symbol + b) st })"
    proof (rule bits_bind [OF bits_decodeBit [OF i]], simp only: prod.case)
      fix b :: nat and st' :: lzma_coder
      assume k: "kept (snd st) (snd st')"
        and m: "decodeBit LitProbs (base + (1 + ?m) * 256 + symbol) st = Some (b, st')"
      from kept_length [OF k, of LitProbs]
      have "?m = b \<Longrightarrow> bits (\<lambda>x. True) st' (matchLoop base (push_bit 1 mb) (2 * symbol + b) st')"
        using "1.IH" [OF True refl m refl] "1.prems" by simp
      then show "bits (\<lambda>x. True) st'
          (if ?m \<noteq> b then Some (2 * symbol + b, st') else matchLoop base (push_bit 1 mb) (2 * symbol + b) st')"
        by simp
    qed
    with True show ?thesis by (subst matchLoop.simps) (simp add: Let_def)
  qed (subst matchLoop.simps, auto)
qed


lemma literal_base:
  assumes "litOk dec" "lz_lc dec + lz_lp dec \<le> 4"
  shows "0x300 * ((p mod 2 ^ lz_lp dec) * 2 ^ lz_lc dec + unat (prev :: u8) div 2 ^ (8 - lz_lc dec)) + 0x300
    \<le> length (lz_litProbs dec)"
proof -
  let ?lc = "lz_lc dec" and ?lp = "lz_lp dec"
  have "unat prev < 2 ^ LENGTH(8)" by (rule unsigned_less)
  then have "unat prev < 2 ^ ?lc * 2 ^ (8 - ?lc)" using assms(2) by (simp flip: power_add)
  then have a: "unat prev div 2 ^ (8 - ?lc) < 2 ^ ?lc" by (simp add: less_mult_imp_div_less)
  have "p mod 2 ^ ?lp + 1 \<le> 2 ^ ?lp" by (simp add: Suc_le_eq)
  then have "(p mod 2 ^ ?lp + 1) * 2 ^ ?lc \<le> 2 ^ ?lp * 2 ^ ?lc" by (rule mult_le_mono1)
  with a have "(p mod 2 ^ ?lp) * 2 ^ ?lc + unat prev div 2 ^ (8 - ?lc) + 1 \<le> 2 ^ (?lc + ?lp)"
    by (simp add: power_add mult.commute)
  then have "0x300 * ((p mod 2 ^ ?lp) * 2 ^ ?lc + unat prev div 2 ^ (8 - ?lc) + 1) \<le> 0x300 * 2 ^ (?lc + ?lp)"
    by (rule mult_le_mono2)
  with assms(1) show ?thesis by (simp add: litOk_def)
qed

lemma decodeLiteral_ok:
  assumes ok: "decOk (snd st)" and buf: "0 < lz_pos (snd st) \<longrightarrow> buf \<noteq> []" and lt: "length buf < target"
  shows "safe (stepOk target buf) (decodeLiteral st buf)"
proof -
  let ?dec = "snd st"
  have lclp: "lz_lc ?dec + lz_lp ?dec \<le> 4" and lit: "litOk ?dec" using ok by (simp_all add: decOk_def tablesOk_def)
  have prev: "safe (\<lambda>x. True) (if 0 < lz_pos ?dec then indexAt buf (length buf - 1) else Some 0)"
    using buf by (auto intro!: indexAt_safe)
  show ?thesis
    unfolding decodeLiteral_def Let_def
  proof (rule safe_bind [OF prev])
    fix prev :: u8
    let ?base = "0x300 * ((lz_pos ?dec mod 2 ^ lz_lp ?dec) * 2 ^ lz_lc ?dec + unat prev div 2 ^ (8 - lz_lc ?dec))"
    have base: "?base + 0x300 \<le> length (lz_litProbs ?dec)" by (rule literal_base [OF lit lclp])
    have first: "bits (\<lambda>x. True) st
        (if 7 \<le> lz_state ?dec
         then do { matchByte \<leftarrow> indexAt buf (length buf - unat (lz_rep0 ?dec) - 1); matchLoop ?base matchByte 1 st }
         else Some (1, st))" if "7 \<le> lz_state ?dec \<Longrightarrow> canReach ?dec (lz_rep0 ?dec) (length buf)"
      using that bits_matchLoop [OF base] by (auto simp: indexAt_def canReach_def)
    show "safe (stepOk target buf)
        (if length (lz_litProbs ?dec) < ?base then None
         else if 7 \<le> lz_state ?dec \<and> \<not> canReach ?dec (lz_rep0 ?dec) (length buf) then Some DataError
         else do { (symbol, st) \<leftarrow>
                     (if 7 \<le> lz_state ?dec
                      then do { matchByte \<leftarrow> indexAt buf (length buf - unat (lz_rep0 ?dec) - 1);
                                matchLoop ?base matchByte 1 st }
                      else Some (1, st));
                   (symbol, (d, dec)) \<leftarrow> literalLoop ?base symbol st;
                   Some (More (d, dec\<lparr>lz_pos := lz_pos dec + 1, lz_state := lzmaLiteralNextState (lz_state dec)\<rparr>)
                          (buf @ [of_nat symbol])) })" (is "safe ?Q (if _ then None else if ?e then _ else ?m)")
    proof (cases ?e)
      case False
      have "safe ?Q ?m"
      proof (rule safe_bits [OF first ok], use False in blast, simp only: prod.case)
        fix symbol :: nat and st1 :: lzma_coder
        assume k: "kept ?dec (snd st1)" and ok1: "decOk (snd st1)"
        have "length (lz_litProbs (snd st1)) = length (lz_litProbs ?dec)"
          using kept_length [OF k, of LitProbs] by simp
        then have "bits (\<lambda>x. True) st1 (literalLoop ?base symbol st1)" using base by (intro bits_literalLoop) linarith
        then show "safe ?Q (do { (symbol, (d, dec)) \<leftarrow> literalLoop ?base symbol st1;
                   Some (More (d, dec\<lparr>lz_pos := lz_pos dec + 1, lz_state := lzmaLiteralNextState (lz_state dec)\<rparr>)
                          (buf @ [of_nat symbol])) })"
          by (rule safe_bits [OF _ ok1]) (use lt in \<open>auto simp: nextState_range decOk_state\<close>)
      qed
      moreover have "\<not> length (lz_litProbs ?dec) < ?base" using base by linarith
      ultimately show ?thesis using False by simp
    qed (use base in auto)
  qed
qed

lemma decodeSymbol_ok:
  assumes ok: "decOk (snd st)" and buf: "0 < lz_pos (snd st) \<longrightarrow> buf \<noteq> []" and lt: "length buf < target"
  shows "safe (stepOk target buf) (decodeSymbol target st buf)"
proof -
  let ?pos = "lz_pos (snd st) mod 2 ^ lz_pb (snd st)"
  let ?index = "lz_state (snd st) * 16 + ?pos"
  have "2 ^ lz_pb (snd st) \<le> (2 :: nat) ^ 4" using ok by (intro power_increasing) (auto simp: decOk_def tablesOk_def)
  then have "2 ^ lz_pb (snd st) \<le> (16 :: nat)" by simp
  then have pos: "?pos < 16" by (rule less_le_trans [rotated]) simp
  then have index: "?index < 192" using decOk_state [OF ok] by linarith
  show ?thesis
    unfolding decodeSymbol_def Let_def
  proof (rule safe_bit [OF ok], use index in simp, simp only: prod.case)
    fix b :: nat and st1 :: lzma_coder
    assume k: "kept (snd st) (snd st1)" and ok1: "decOk (snd st1)"
    have "safe (stepOk target buf) (do { (rep, st) \<leftarrow> decodeBit IsRep (lz_state (snd st1)) st1;
        if rep \<noteq> 0 then decodeRep target ?pos ?index st buf else newMatch target ?pos st buf })"
      by (rule safe_bit [OF ok1]) (use pos index lt in \<open>auto simp: decOk_state ok1 intro: decodeRep_ok newMatch_ok\<close>)
    moreover have "safe (stepOk target buf) (decodeLiteral st1 buf)"
      by (rule decodeLiteral_ok [OF ok1 _ lt]) (use k buf in \<open>simp add: kept_def\<close>)
    ultimately show "safe (stepOk target buf)
        (if b = 0 then decodeLiteral st1 buf
         else do { (rep, st) \<leftarrow> decodeBit IsRep (lz_state (snd st1)) st1;
                   if rep \<noteq> 0 then decodeRep target ?pos ?index st buf else newMatch target ?pos st buf })"
      by simp
  qed
qed

text \<open>A chunk that decodes appends exactly the announced number of bytes, and one that ends with the end
  marker appends at most as many.\<close>

definition chunkOk :: "nat \<Rightarrow> bytes \<Rightarrow> lzma_step \<Rightarrow> bool" where
  "chunkOk target buf r =
     (case r of
        DataError \<Rightarrow> True
      | EndMarker st buf' \<Rightarrow> decOk (snd st) \<and> length buf' \<le> target \<and> (\<exists>ys. buf' = buf @ ys)
      | More st buf' \<Rightarrow> decOk (snd st) \<and> length buf' = target \<and> (\<exists>ys. buf' = buf @ ys))"

lemma decodeLoop_ok:
  "decOk (snd st) \<Longrightarrow> 0 < lz_pos (snd st) \<longrightarrow> buf \<noteq> [] \<Longrightarrow> length buf \<le> target \<Longrightarrow>
     safe (chunkOk target buf) (decodeLoop target st buf)"
proof (induction target st buf rule: decodeLoop.induct)
  case (1 target st buf)
  show ?case
  proof (cases "length buf < target \<and> \<not> rd_corrupt (fst st)")
    case True
    have "safe (stepOk target buf) (decodeSymbol target st buf)"
      by (rule decodeSymbol_ok) (use "1.prems" True in auto)
    then obtain r where r: "decodeSymbol target st buf = Some r" "stepOk target buf r" by (auto simp: safe_def)
    show ?thesis
    proof (cases r)
      case (More st' buf')
      with r obtain ys where ys: "ys \<noteq> []" "buf' = buf @ ys" and ok: "decOk (snd st')" "length buf' \<le> target" by auto
      from True have t: "length buf < target" "\<not> rd_corrupt (fst st)" by simp_all
      have "safe (chunkOk target buf') (decodeLoop target st' buf')"
        using "1.IH" [OF t r(1) More] ok ys by simp
      then have "safe (chunkOk target buf) (decodeLoop target st' buf')"
        by (rule safe_mono) (auto simp: chunkOk_def ys split: lzma_step.splits)
      with True r More show ?thesis by (subst decodeLoop.simps) simp
    qed (use True r in \<open>subst decodeLoop.simps, auto simp: chunkOk_def\<close>)+
  next
    case False
    with "1.prems" show ?thesis by (subst decodeLoop.simps) (auto simp: chunkOk_def)
  qed
qed

lemma decodeChunk_ok:
  assumes "decOk (snd st)" "0 < lz_pos (snd st) \<longrightarrow> buf \<noteq> []"
  shows "safe (chunkOk (length buf + limit) buf) (decodeChunk st buf limit)"
  unfolding decodeChunk_def using assms by (intro decodeLoop_ok) auto

end
