(* ===== verification/Codec.thy ===== *)
theory Codec
  imports ByteCodec
begin

text \<open>
  What the decoders share: a call returns, reports an error or panics; the input is the list of bytes
  that have not been read, and reading past its end is an error.  \<open>codecOk\<close> is the judgement that a
  computation does not panic and that its result has a property.
\<close>

section \<open>Results\<close>

datatype codec_error =
  EndOfInput | UnexpectedEOF
| LzmaData | LzmaProps | Lzma2Control | StoredBeforeReset | ChunkBeforeProps | ChunkBeforeReset
| XzMagic | XzFlags | XzStreamHeader | XzCheckType | XzBlockHeader | XzBlockFlags | XzFilterChain | XzFilter
| XzFilterProps | XzDictSize | XzInteger | XzIndex | XzFooter | XzIntegrity
| WriteClosed | Bzip2BlockLimit | Bzip2Data | ZstdBlockLimit | ZstdData | ZstdNotFrame | ZstdFrameHeader | ZstdWindowSize | ZstdDictionary | ZstdBlockType | ZstdChecksum

datatype 'a codec = Ret 'a | Bad codec_error | Panic

fun chain :: "'a codec \<Rightarrow> ('a \<Rightarrow> 'b codec) \<Rightarrow> 'b codec" where
  "chain (Ret x) f = f x"
| "chain (Bad e) f = Bad e"
| "chain Panic f = Panic"

lemma chain_cong [fundef_cong]:
  "m = m' \<Longrightarrow> (\<And>x. m' = Ret x \<Longrightarrow> f x = f' x) \<Longrightarrow> chain m f = chain m' f'"
  by (cases m') auto

lemma chain_Ret: "chain m f = Ret y \<longleftrightarrow> (\<exists>x. m = Ret x \<and> f x = Ret y)"
  by (cases m) auto

lemma chain_Panic: "chain m f = Panic \<longleftrightarrow> m = Panic \<or> (\<exists>x. m = Ret x \<and> f x = Panic)"
  by (cases m) auto

lemma chain_assoc: "chain (chain m f) g = chain m (\<lambda>x. chain (f x) g)"
  by (cases m) auto

section \<open>Reading the input\<close>

text \<open>\<open>io.ReadFull\<close> and \<open>ReadByte\<close>, and \<open>io.CopyN\<close> to nowhere.\<close>

definition readFull :: "nat \<Rightarrow> bytes \<Rightarrow> (bytes \<times> bytes) codec" where
  "readFull n input = (if length input < n then Bad UnexpectedEOF else Ret (take n input, drop n input))"

fun readByte :: "bytes \<Rightarrow> (u8 \<times> bytes) codec" where
  "readByte [] = Bad UnexpectedEOF"
| "readByte (b # input) = Ret (b, input)"

definition discard :: "nat \<Rightarrow> bytes \<Rightarrow> bytes codec" where
  "discard n input = chain (readFull n input) (\<lambda>(_, input). Ret input)"

lemma readByte_Ret: "readByte input = Ret (b, input') \<longleftrightarrow> input = b # input'"
  by (cases input) auto

lemma readFull_Ret: "readFull n input = Ret (data, input') \<longleftrightarrow> input = data @ input' \<and> length data = n"
  by (auto simp: readFull_def)

lemma discard_Ret: "discard n input = Ret input' \<longleftrightarrow> (\<exists>data. input = data @ input' \<and> length data = n)"
  by (auto simp: discard_def chain_Ret readFull_Ret)

section \<open>No panic\<close>

definition codecOk :: "('a \<Rightarrow> bool) \<Rightarrow> 'a codec \<Rightarrow> bool" where
  "codecOk Q m = (case m of Panic \<Rightarrow> False | Bad e \<Rightarrow> True | Ret x \<Rightarrow> Q x)"

lemma codecOk_simps [simp]:
  "codecOk Q (Ret x) \<longleftrightarrow> Q x" "codecOk Q (Bad e)" "\<not> codecOk Q Panic"
  by (simp_all add: codecOk_def)

lemma codecOk_chain:
  "codecOk P m \<Longrightarrow> (\<And>x. P x \<Longrightarrow> m = Ret x \<Longrightarrow> codecOk Q (f x)) \<Longrightarrow> codecOk Q (chain m f)"
  by (cases m) simp_all

lemma codecOk_chain_prod:
  "codecOk P m \<Longrightarrow> (\<And>x y. P (x, y) \<Longrightarrow> m = Ret (x, y) \<Longrightarrow> codecOk Q (f x y)) \<Longrightarrow>
     codecOk Q (chain m (\<lambda>(x, y). f x y))"
  by (cases m) auto

lemma codecOk_mono: "codecOk P m \<Longrightarrow> (\<And>x. P x \<Longrightarrow> Q x) \<Longrightarrow> codecOk Q m"
  by (cases m) simp_all

lemma codecOk_readFull [simp]: "codecOk (\<lambda>x. True) (readFull n input)"
  by (simp add: readFull_def)

lemma codecOk_readByte [simp]: "codecOk (\<lambda>x. True) (readByte input)"
  by (cases input) simp_all

lemma codecOk_discard [simp]: "codecOk (\<lambda>x. True) (discard n input)"
  by (auto simp: discard_def intro!: codecOk_chain [OF codecOk_readFull])

text \<open>A panic is excused by \<open>E\<close>.\<close>

definition okUnless :: "bool \<Rightarrow> ('a \<Rightarrow> bool) \<Rightarrow> 'a codec \<Rightarrow> bool" where
  "okUnless E Q m \<longleftrightarrow> E \<or> codecOk Q m"

lemma okUnless_ok: "codecOk Q m \<Longrightarrow> okUnless E Q m"
  by (simp add: okUnless_def)

lemma okUnless_Ret [simp]: "okUnless E Q (Ret x) \<longleftrightarrow> E \<or> Q x"
  by (simp add: okUnless_def)

lemma okUnless_Bad [simp]: "okUnless E Q (Bad e)"
  by (simp add: okUnless_def)

lemma okUnless_Panic [simp]: "okUnless E Q Panic \<longleftrightarrow> E"
  by (simp add: okUnless_def)

lemma okUnless_chain:
  "okUnless E P m \<Longrightarrow> (\<And>x. P x \<Longrightarrow> m = Ret x \<Longrightarrow> okUnless E Q (f x)) \<Longrightarrow> okUnless E Q (chain m f)"
  unfolding okUnless_def by (blast intro: codecOk_chain)

lemma okUnless_mono: "okUnless E P m \<Longrightarrow> (\<And>x. P x \<Longrightarrow> Q x) \<Longrightarrow> okUnless E Q m"
  unfolding okUnless_def by (blast intro: codecOk_mono)

lemma okUnless_excuse: "okUnless E Q m \<Longrightarrow> E \<longrightarrow> E' \<Longrightarrow> okUnless E' Q m"
  by (auto simp: okUnless_def)

section \<open>Indices and slices\<close>

text \<open>\<open>xs[i]\<close> and \<open>xs[i] = v\<close>, which panic out of range.\<close>

definition lookup :: "'a list \<Rightarrow> nat \<Rightarrow> 'a codec" where
  "lookup xs i = (if i < length xs then Ret (xs ! i) else Panic)"

definition store :: "'a list \<Rightarrow> nat \<Rightarrow> 'a \<Rightarrow> 'a list codec" where
  "store xs i v = (if i < length xs then Ret (xs[i := v]) else Panic)"

lemma lookup_ok [simp]: "codecOk Q (lookup xs i) \<longleftrightarrow> i < length xs \<and> Q (xs ! i)"
  by (simp add: lookup_def)

lemma store_ok [simp]: "codecOk Q (store xs i v) \<longleftrightarrow> i < length xs \<and> Q (xs[i := v])"
  by (simp add: store_def)

end
