(* ===== verification/Lzma2.thy ===== *)
theory Lzma2
  imports Lzma Codec
begin

text \<open>
  The LZMA2 layer of \<open>lzma.go\<close>: the sequence of stored and compressed chunks and the reader that turns
  it into a byte stream.
\<close>

section \<open>The reader\<close>

record lzma2Reader =
  l2_dec :: lzmaDecoder
  l2_buf :: bytes
  l2_consumed :: nat
  l2_dictSize :: nat
  l2_sawProps :: bool
  l2_sawDictInit :: bool
  l2_finished :: bool
  l2_compressed :: nat

definition newLZMA2Reader :: "nat \<Rightarrow> lzma2Reader" where
  "newLZMA2Reader dictSize =
     \<lparr>l2_dec = zeroDecoder, l2_buf = [], l2_consumed = 0,
      l2_dictSize = (if dictSize < 4096 then 4096 else dictSize),
      l2_sawProps = False, l2_sawDictInit = False, l2_finished = False, l2_compressed = 0\<rparr>"

text \<open>History the dictionary cannot refer to any more is dropped, from a mebibyte on and only when the
  caller has taken it.\<close>

definition compact :: "lzma2Reader \<Rightarrow> lzma2Reader" where
  "compact r =
     (let keep = l2_dictSize r;
          n = min (length (l2_buf r) - keep) (l2_consumed r)
      in if length (l2_buf r) \<le> keep then r
         else if n < 2 ^ 20 then r
         else r\<lparr>l2_buf := drop n (l2_buf r), l2_consumed := l2_consumed r - n\<rparr>)"

definition resetDictionary :: "lzma2Reader \<Rightarrow> lzma2Reader" where
  "resetDictionary r = r\<lparr>l2_dec := (l2_dec r)\<lparr>lz_pos := 0\<rparr>, l2_sawDictInit := True\<rparr>"

definition readBE16 :: "bytes \<Rightarrow> lzma2Reader \<Rightarrow> (nat \<times> bytes \<times> lzma2Reader) codec" where
  "readBE16 input r =
     chain (readFull 2 input)
       (\<lambda>(pair, input). Ret (getBE pair, input, r\<lparr>l2_compressed := l2_compressed r + 2\<rparr>))"

definition readProps :: "bytes \<Rightarrow> lzma2Reader \<Rightarrow> (bytes \<times> lzma2Reader) codec" where
  "readProps input r =
     chain (readByte input)
       (\<lambda>(value, input).
          case setProps value (l2_dec r) of
            None \<Rightarrow> Bad LzmaProps
          | Some dec \<Rightarrow>
              Ret (input, r\<lparr>l2_dec := resetState dec, l2_sawProps := True, l2_compressed := l2_compressed r + 1\<rparr>))"

definition readStoredChunk :: "bool \<Rightarrow> bytes \<Rightarrow> lzma2Reader \<Rightarrow> (bytes \<times> lzma2Reader) codec" where
  "readStoredChunk dictReset input r0 =
     (let r = (if dictReset then resetDictionary r0 else r0) in
      if \<not> dictReset \<and> \<not> l2_sawDictInit r then Bad StoredBeforeReset
      else chain (readBE16 input r)
        (\<lambda>(size, input, r).
           chain (readFull (size + 1) input)
             (\<lambda>(data, input).
                Ret (input,
                     r\<lparr>l2_buf := l2_buf r @ data, l2_compressed := l2_compressed r + (size + 1),
                       l2_dec := resetState ((l2_dec r)\<lparr>lz_pos := lz_pos (l2_dec r) + (size + 1)\<rparr>)\<rparr>))))"

text \<open>What a compressed chunk resets before its data.\<close>

definition chunkResets :: "u8 \<Rightarrow> bytes \<Rightarrow> lzma2Reader \<Rightarrow> (bytes \<times> lzma2Reader) codec" where
  "chunkResets control input r =
     (let m = unat (drop_bit 5 control AND 3) in
      if m = 0 then Ret (input, r)
      else if m = 1 then Ret (input, r\<lparr>l2_dec := resetState (l2_dec r)\<rparr>)
      else if m = 2 then readProps input r
      else chain (readProps input r) (\<lambda>(input, r). Ret (input, resetDictionary r)))"

text \<open>The decoded chunk is accepted when the coder has used up its input and drained its code word.\<close>

definition chunkDone ::
    "nat \<Rightarrow> nat \<Rightarrow> lzma_step option \<Rightarrow> bytes \<Rightarrow> lzma2Reader \<Rightarrow> (bytes \<times> lzma2Reader) codec" where
  "chunkDone start unpackSize result input r =
     (let accept = (\<lambda>(d, dec) buf.
            if \<not> finished d \<or> rd_pos d \<noteq> length (rd_data d) then Bad LzmaData
            else Ret (input, r\<lparr>l2_dec := dec, l2_buf := buf\<rparr>))
      in case result of
           None \<Rightarrow> Panic
         | Some DataError \<Rightarrow> Bad LzmaData
         | Some (EndMarker st buf) \<Rightarrow>
             if length buf - start \<noteq> unpackSize then Bad LzmaData else accept st buf
         | Some (More st buf) \<Rightarrow> accept st buf)"

definition decodePacked :: "nat \<Rightarrow> bytes \<Rightarrow> bytes \<Rightarrow> lzma2Reader \<Rightarrow> (bytes \<times> lzma2Reader) codec" where
  "decodePacked unpackSize data input r =
     (case rangeInit data of
        None \<Rightarrow> Bad LzmaData
      | Some d \<Rightarrow>
          chunkDone (length (l2_buf r)) unpackSize (decodeChunk (d, l2_dec r) (l2_buf r) unpackSize) input r)"

definition readCompressedChunk :: "u8 \<Rightarrow> bytes \<Rightarrow> lzma2Reader \<Rightarrow> (bytes \<times> lzma2Reader) codec" where
  "readCompressedChunk control input r =
     chain (readBE16 input r) (\<lambda>(high, input, r).
     chain (readBE16 input r) (\<lambda>(packed, input, r).
       let unpackSize = unat (control AND 0x1F) * 65536 + high + 1;
           packSize = packed + 1
       in if 2 ^ 21 < unpackSize then Bad LzmaData
          else chain (chunkResets control input r) (\<lambda>(input, r).
            if \<not> l2_sawProps r then Bad ChunkBeforeProps
            else if \<not> l2_sawDictInit r then Bad ChunkBeforeReset
            else chain (readFull packSize input) (\<lambda>(data, input).
              decodePacked unpackSize data input (r\<lparr>l2_compressed := l2_compressed r + packSize\<rparr>)))))"

definition readChunk :: "bytes \<Rightarrow> lzma2Reader \<Rightarrow> (bytes \<times> lzma2Reader) codec" where
  "readChunk input r =
     chain (readByte input) (\<lambda>(control, input).
       let r = r\<lparr>l2_compressed := l2_compressed r + 1\<rparr> in
       if control = 0 then Ret (input, r\<lparr>l2_finished := True\<rparr>)
       else if control = 1 \<or> control = 2 then readStoredChunk (control = 1) input r
       else if 0x80 \<le> control then readCompressedChunk control input r
       else Bad Lzma2Control)"

text \<open>Every chunk takes at least its control byte from the input.\<close>

lemma readProps_shorter: "readProps input r = Ret (input', r') \<Longrightarrow> length input' < length input"
  by (auto simp: readProps_def chain_Ret readByte_Ret split: option.splits)

lemma chunkResets_shorter: "chunkResets control input r = Ret (input', r') \<Longrightarrow> length input' \<le> length input"
  by (auto simp: chunkResets_def chain_Ret Let_def split: if_splits dest!: readProps_shorter)

lemma readStored_shorter: "readStoredChunk b input r = Ret (input', r') \<Longrightarrow> length input' \<le> length input"
  by (auto simp: readStoredChunk_def readBE16_def chain_Ret readFull_Ret Let_def split: if_splits)

lemma decodePacked_input: "decodePacked n data input r = Ret (input', r') \<Longrightarrow> input' = input"
  by (auto simp: decodePacked_def chunkDone_def Let_def split: option.splits lzma_step.splits if_splits prod.splits)

lemma readCompressed_shorter:
  "readCompressedChunk control input r = Ret (input', r') \<Longrightarrow> length input' \<le> length input"
  by (auto simp: readCompressedChunk_def readBE16_def chain_Ret readFull_Ret Let_def split: if_splits
      dest!: decodePacked_input chunkResets_shorter)

lemma readChunk_shorter: "readChunk input r = Ret (input', r') \<Longrightarrow> length input' < length input"
  by (auto simp: readChunk_def chain_Ret readByte_Ret Let_def split: if_splits
      dest!: readStored_shorter readCompressed_shorter)

text \<open>The loop of \<open>Read\<close> until there is something to return; false is the end of the stream.\<close>

function fillBuffer :: "bytes \<Rightarrow> lzma2Reader \<Rightarrow> (bool \<times> bytes \<times> lzma2Reader) codec" where
  "fillBuffer input r =
     (if l2_consumed r \<noteq> length (l2_buf r) then Ret (True, input, r)
      else if l2_finished r then Ret (False, input, r)
      else chain (readChunk input (compact r)) (\<lambda>(input, r). fillBuffer input r))"
  by pat_completeness auto
termination
  by (relation "measure (\<lambda>(input, r). length input)") (auto dest: readChunk_shorter)

declare fillBuffer.simps [simp del]

text \<open>A call of \<open>Read\<close> with a buffer of \<open>n + 1\<close> bytes, since no caller passes an empty one; \<open>None\<close> is the
  end of the stream.\<close>

definition lzma2Read :: "nat \<Rightarrow> bytes \<Rightarrow> lzma2Reader \<Rightarrow> (bytes option \<times> bytes \<times> lzma2Reader) codec" where
  "lzma2Read n input r =
     chain (fillBuffer input r) (\<lambda>(ready, input, r).
       if \<not> ready then Ret (None, input, r)
       else if length (l2_buf r) < l2_consumed r then Panic
       else let out = take (n + 1) (drop (l2_consumed r) (l2_buf r))
            in Ret (Some out, input, r\<lparr>l2_consumed := l2_consumed r + length out\<rparr>))"

end
