(* ===== verification/Xz.thy ===== *)
theory Xz
  imports Lzma2
begin

text \<open>
  The XZ container of \<open>xz_raw.go\<close>: the writer, whose LZMA2 filter only stores, the integrity checks and
  the reader of concatenated streams.  The output of the writer is the list of bytes written so far;
  writing never fails here.
\<close>

section \<open>Integrity checks\<close>

definition crc32Update :: "u32 \<Rightarrow> bytes \<Rightarrow> u32" where
  "crc32Update acc data = NOT (foldl crcByte (NOT acc) data)"

definition crc64Step :: "u64 \<Rightarrow> u64" where
  "crc64Step value =
     (if value AND 1 \<noteq> 0 then drop_bit 1 value XOR 0xc96c5795d7870f42 else drop_bit 1 value)"

text \<open>The entry of the table for one byte.\<close>

definition crc64Table :: "u8 \<Rightarrow> u64" where
  "crc64Table i = (crc64Step ^^ 8) (ucast i)"

definition updateCRC64 :: "u64 \<Rightarrow> bytes \<Rightarrow> u64" where
  "updateCRC64 acc data =
     NOT (foldl (\<lambda>s b. crc64Table (ucast (s AND 0xff) XOR b) XOR drop_bit 8 s) (NOT acc) data)"

subsection \<open>SHA-256 of the package \<open>crypto/sha256\<close>\<close>

text \<open>The constants are the first 32 bits of the fractional parts of the roots of the first primes:
  square roots for the initial state, cube roots for the rounds.  \<open>rootBits k n b 0\<close> is the integral
  \<open>k\<close>-th root of \<open>n\<close>, when it has at most \<open>b\<close> bits.\<close>

primrec rootBits :: "nat \<Rightarrow> int \<Rightarrow> nat \<Rightarrow> int \<Rightarrow> int" where
  "rootBits k n 0 r = r"
| "rootBits k n (Suc b) r = rootBits k n b (if (r + 2 ^ b) ^ k \<le> n then r + 2 ^ b else r)"

definition fractionOfRoot :: "nat \<Rightarrow> nat \<Rightarrow> u32" where
  "fractionOfRoot k p = of_int (rootBits k (int p * 2 ^ (32 * k)) 37 0)"

definition primesBelow :: "nat \<Rightarrow> nat list" where
  "primesBelow n = filter (\<lambda>p. \<forall>d \<in> set [2 ..< p]. p mod d \<noteq> 0) [2 ..< n]"

definition shaK :: "u32 list" where
  "shaK = map (fractionOfRoot 3) (primesBelow 312)"

definition shaInit :: "u32 list" where
  "shaInit = map (fractionOfRoot 2) (primesBelow 20)"

definition rotr :: "nat \<Rightarrow> u32 \<Rightarrow> u32" where
  "rotr n x = drop_bit n x OR push_bit (32 - n) x"

definition shaPad :: "bytes \<Rightarrow> bytes" where
  "shaPad m =
     (let zeros = (119 - length m mod 64) mod 64 in
      m @ [0x80] @ replicate zeros 0 @ map (\<lambda>i. of_nat (8 * length m div 256 ^ i)) (rev [0 ..< 8]))"

definition shaExtend :: "u32 list \<Rightarrow> u32 list" where
  "shaExtend w =
     (let i = length w; x = w ! (i - 15); y = w ! (i - 2) in
      w @ [w ! (i - 16) + (rotr 7 x XOR rotr 18 x XOR drop_bit 3 x) + w ! (i - 7) +
           (rotr 17 y XOR rotr 19 y XOR drop_bit 10 y)])"

definition shaRound :: "u32 list \<Rightarrow> u32 \<times> u32 \<Rightarrow> u32 list" where
  "shaRound s kw =
     (case (s, kw) of
        ([a, b, c, d, e, f, g, h], (k, w)) \<Rightarrow>
          let t1 = h + (rotr 6 e XOR rotr 11 e XOR rotr 25 e) + ((e AND f) XOR (NOT e AND g)) + k + w;
              t2 = (rotr 2 a XOR rotr 13 a XOR rotr 22 a) + ((a AND b) XOR (a AND c) XOR (b AND c))
          in [t1 + t2, a, b, c, d + t1, e, f, g]
      | _ \<Rightarrow> s)"

definition shaBlock :: "u32 list \<Rightarrow> bytes \<Rightarrow> u32 list" where
  "shaBlock s block =
     (let w = map (\<lambda>i. of_nat (getBE (slice block (4 * i) (4 * i + 4)))) [0 ..< 16];
          ws = (shaExtend ^^ 48) w
      in map2 (+) s (foldl shaRound s (zip shaK ws)))"

definition sha256 :: "bytes \<Rightarrow> bytes" where
  "sha256 m =
     (let p = shaPad m;
          s = foldl (\<lambda>s i. shaBlock s (slice p (64 * i) (64 * i + 64))) shaInit [0 ..< length p div 64]
      in concat (map (\<lambda>x. map (\<lambda>i. ucast (drop_bit (8 * i) x)) [3, 2, 1, 0]) s))"

text \<open>\<open>PutUint32\<close> into a fresh array, and \<open>AppendUint32\<close> to an empty slice.\<close>

definition le32 :: "u32 \<Rightarrow> bytes" where
  "le32 x = putU32 (replicate 4 0) 0 x"

definition le64 :: "u64 \<Rightarrow> bytes" where
  "le64 x = putU64 (replicate 8 0) 0 x"

subsection \<open>The checker\<close>

record xzChecker =
  ck_kind :: nat
  ck_size :: nat
  ck_crc32 :: u32
  ck_crc64 :: u64
  ck_digest :: bytes

text \<open>The size of a check; the digest is the data given to SHA-256 so far.\<close>

definition checkSize :: "nat \<Rightarrow> nat option" where
  "checkSize kind =
     (if 15 < kind then None
      else Some ([0, 4, 4, 4, 8, 8, 8, 16, 16, 16, 32, 32, 32, 64, 64, 64] ! kind))"

definition newXZChecker :: "nat \<Rightarrow> xzChecker codec" where
  "newXZChecker kind =
     (case checkSize kind of
        None \<Rightarrow> Bad XzCheckType
      | Some n \<Rightarrow> Ret \<lparr>ck_kind = kind, ck_size = n, ck_crc32 = 0, ck_crc64 = 0, ck_digest = []\<rparr>)"

definition checkReset :: "xzChecker \<Rightarrow> xzChecker" where
  "checkReset c = c\<lparr>ck_crc32 := 0, ck_crc64 := 0, ck_digest := []\<rparr>"

definition checkWrite :: "xzChecker \<Rightarrow> bytes \<Rightarrow> xzChecker" where
  "checkWrite c data =
     (if ck_kind c = 1 then c\<lparr>ck_crc32 := crc32Update (ck_crc32 c) data\<rparr>
      else if ck_kind c = 4 then c\<lparr>ck_crc64 := updateCRC64 (ck_crc64 c) data\<rparr>
      else if ck_kind c = 10 then c\<lparr>ck_digest := ck_digest c @ data\<rparr>
      else c)"

definition checkVerify :: "xzChecker \<Rightarrow> bytes \<Rightarrow> bool" where
  "checkVerify c stored =
     (if ck_kind c = 1 then le32 (ck_crc32 c) = stored
      else if ck_kind c = 4 then le64 (ck_crc64 c) = stored
      else if ck_kind c = 10 then sha256 (ck_digest c) = stored
      else True)"

section \<open>The writer\<close>

definition xzStreamMagic :: bytes where
  "xzStreamMagic = [0xfd, 0x37, 0x7a, 0x58, 0x5a, 0x00]"

record xzWriter =
  xw_output :: bytes
  xw_compressed :: u64
  xw_uncompressed :: u64
  xw_closed :: bool

definition xzBlockHeader :: bytes where
  "xzBlockHeader = [0x02, 0x00, 0x21, 0x01, 0x00, 0x00, 0x00, 0x00]"

definition newXZWriter :: xzWriter where
  "newXZWriter =
     \<lparr>xw_output = xzStreamMagic @ [0, 0] @ le32 (crc32 [0, 0]) @ xzBlockHeader @ le32 (crc32 xzBlockHeader),
      xw_compressed = 0, xw_uncompressed = 0, xw_closed = False\<rparr>"

text \<open>One stored chunk of at most 65536 bytes.\<close>

definition storeChunk :: "bytes \<Rightarrow> xzWriter \<Rightarrow> xzWriter" where
  "storeChunk piece w =
     (let control = (if xw_compressed w = 0 then 0x01 else 0x02);
          encoded = of_nat (length piece - 1) :: u16
      in w\<lparr>xw_output := xw_output w @ [control, ucast (drop_bit 8 encoded), ucast (encoded AND 0xff)] @ piece,
           xw_compressed := xw_compressed w + of_nat (length piece + 3),
           xw_uncompressed := xw_uncompressed w + of_nat (length piece)\<rparr>)"

function writeChunks :: "bytes \<Rightarrow> xzWriter \<Rightarrow> xzWriter" where
  "writeChunks data w =
     (if data = [] then w else writeChunks (drop 65536 data) (storeChunk (take 65536 data) w))"
  by pat_completeness auto
termination
  by (relation "measure (\<lambda>(data, w). length data)") auto

declare writeChunks.simps [simp del]

text \<open>\<open>None\<close> is the error of a write after the close.\<close>

definition xzWrite :: "bytes \<Rightarrow> xzWriter \<Rightarrow> xzWriter option" where
  "xzWrite data w = (if xw_closed w then None else Some (writeChunks data w))"

definition paddingOf :: "nat \<Rightarrow> nat" where
  "paddingOf n = (4 - n mod 4) mod 4"

function xzVLI :: "u64 \<Rightarrow> bytes" where
  "xzVLI value =
     (if drop_bit 7 value \<noteq> 0
      then (ucast (value AND 0x7f) OR 0x80) # xzVLI (drop_bit 7 value)
      else [ucast (value AND 0x7f)])"
  by pat_completeness auto
termination
proof (relation "measure unat")
  fix v :: u64
  assume "drop_bit 7 v \<noteq> 0"
  then have "drop_bit 7 (unat v) \<noteq> 0" by (metis unat_drop_bit_eq unat_eq_zero)
  then have "0 < unat v div 2 ^ 7" unfolding drop_bit_eq_div by simp
  then have "unat v div 2 ^ 7 < unat v" by (intro div_less_dividend) (auto intro: Nat.gr0I)
  then have "unat (drop_bit 7 v) < unat v" unfolding unat_drop_bit_eq by (simp add: drop_bit_eq_div)
  then show "(drop_bit 7 v, v) \<in> measure unat" by (simp only: in_measure)
qed simp

declare xzVLI.simps [simp del]

definition xzIndex :: "u64 \<Rightarrow> u64 \<Rightarrow> bytes" where
  "xzIndex unpadded uncompressed =
     (let index = [0, 1] @ xzVLI unpadded @ xzVLI uncompressed in
      index @ replicate (paddingOf (length index)) 0)"

definition xzFooter :: "bytes \<Rightarrow> bytes" where
  "xzFooter index =
     (let body = le32 (of_nat ((length index + 4) div 4 - 1)) @ [0, 0] in
      le32 (crc32 body) @ body @ [0x59, 0x5a])"

definition xzClose :: "xzWriter \<Rightarrow> xzWriter" where
  "xzClose w =
     (if xw_closed w then w
      else let compressed = xw_compressed w + 1;
               unpadded = 12 + compressed;
               index = xzIndex unpadded (xw_uncompressed w)
           in w\<lparr>xw_closed := True, xw_compressed := compressed,
                xw_output := xw_output w @ [0] @ replicate (paddingOf (unat unpadded)) 0 @
                             index @ le32 (crc32 index) @ xzFooter index\<rparr>)"

primrec xzWriteAll :: "bytes list \<Rightarrow> xzWriter \<Rightarrow> xzWriter option" where
  "xzWriteAll [] w = Some w"
| "xzWriteAll (data # ds) w = do { w \<leftarrow> xzWrite data w; xzWriteAll ds w }"

text \<open>What \<open>io.Copy\<close> into a new writer and its \<open>Close\<close> produce.\<close>

definition xzCompress :: "bytes list \<Rightarrow> bytes option" where
  "xzCompress ds = do { w \<leftarrow> xzWriteAll ds newXZWriter; Some (xw_output (xzClose w)) }"

section \<open>The reader\<close>

record xzReader =
  xz_input :: bytes
  xz_check :: xzChecker
  xz_block :: "lzma2Reader option"
  xz_finished :: bool

definition readStreamHeader :: "xzReader \<Rightarrow> xzReader codec" where
  "readStreamHeader x =
     chain (readFull 12 (xz_input x)) (\<lambda>(header, input).
       if take 6 header \<noteq> xzStreamMagic then Bad XzMagic
       else if header ! 6 \<noteq> 0 \<or> header ! 7 AND 0xf0 \<noteq> 0 then Bad XzFlags
       else if getU32 header 8 \<noteq> crc32 (slice header 6 8) then Bad XzStreamHeader
       else chain (newXZChecker (unat (header ! 7 AND 0x0f))) (\<lambda>check.
         Ret (x\<lparr>xz_input := input, xz_check := check\<rparr>)))"

function readVLI :: "nat \<Rightarrow> u64 \<Rightarrow> bytes \<Rightarrow> (u64 \<times> nat \<times> bytes) codec" where
  "readVLI i value input =
     (if i < 9
      then chain (readByte input) (\<lambda>(b, input).
             let value = value OR push_bit (7 * i) (ucast (b AND 0x7f)) in
             if b AND 0x80 = 0
             then (if b = 0 \<and> 0 < i then Bad XzInteger else Ret (value, i + 1, input))
             else readVLI (i + 1) value input)
      else Bad XzInteger)"
  by pat_completeness auto
termination
  by (relation "measure (\<lambda>(i, value, input). 9 - i)") auto

declare readVLI.simps [simp del]

definition readXZVLI :: "bytes \<Rightarrow> (u64 \<times> nat \<times> bytes) codec" where
  "readXZVLI input = readVLI 0 0 input"

definition lzma2DictSize :: "u8 \<Rightarrow> nat codec" where
  "lzma2DictSize encoded =
     (let value = unat (encoded AND 0x3f) in
      if encoded AND 0xc0 \<noteq> 0 \<or> 40 < value then Bad XzDictSize
      else if value = 40 then Ret (2 ^ 30)
      else Ret (min ((2 + value mod 2) * 2 ^ (value div 2 + 11)) (2 ^ 30)))"

definition skipSize :: "bool \<Rightarrow> bytes \<Rightarrow> bytes codec" where
  "skipSize present input =
     (if present then chain (readXZVLI input) (\<lambda>(_, _, input). Ret input) else Ret input)"

definition parseXZBlockHeader :: "bytes \<Rightarrow> nat codec" where
  "parseXZBlockHeader body =
     (if length body < 2 then Bad XzBlockHeader
      else let flags = body ! 1 in
        if flags AND 0x3c \<noteq> 0 then Bad XzBlockFlags
        else if unat (flags AND 0x03) + 1 \<noteq> 1 then Bad XzFilterChain
        else chain (skipSize (flags AND 0x40 \<noteq> 0) (drop 2 body)) (\<lambda>input.
             chain (skipSize (flags AND 0x80 \<noteq> 0) input) (\<lambda>input.
             chain (readXZVLI input) (\<lambda>(ident, _, input).
               if ident \<noteq> 0x21 then Bad XzFilter
               else chain (readXZVLI input) (\<lambda>(propsSize, _, input).
                 if propsSize \<noteq> 1 then Bad XzFilterProps
                 else case input of [] \<Rightarrow> Bad XzFilterProps | encoded # _ \<Rightarrow> lzma2DictSize encoded)))))"

primrec skipRecords :: "nat \<Rightarrow> nat \<Rightarrow> bytes \<Rightarrow> (nat \<times> bytes) codec" where
  "skipRecords 0 consumed input = Ret (consumed, input)"
| "skipRecords (Suc n) consumed input =
     chain (readXZVLI input) (\<lambda>(_, width1, input).
     chain (readXZVLI input) (\<lambda>(_, width2, input). skipRecords n (consumed + width1 + width2) input))"

definition skipIndex :: "bytes \<Rightarrow> bytes codec" where
  "skipIndex input =
     chain (readXZVLI input) (\<lambda>(records, width, input).
       if 2 ^ 32 < records then Bad XzIndex
       else chain (skipRecords (unat records) (1 + width) input) (\<lambda>(consumed, input).
            chain (discard (paddingOf consumed) input) (\<lambda>input. discard 4 input)))"

fun skipStreamPadding :: "bytes \<Rightarrow> bytes" where
  "skipStreamPadding (a # b # c # d # input) =
     (if [a, b, c, d] = [0, 0, 0, 0] then skipStreamPadding input else a # b # c # d # input)"
| "skipStreamPadding input = input"

definition finishStream :: "xzReader \<Rightarrow> xzReader codec" where
  "finishStream x =
     chain (skipIndex (xz_input x)) (\<lambda>input.
     chain (readFull 12 input) (\<lambda>(footer, input).
       if footer ! 10 \<noteq> 0x59 \<or> footer ! 11 \<noteq> 0x5a then Bad XzFooter
       else let input = skipStreamPadding input in
         if input = [] then Ret (x\<lparr>xz_input := input, xz_finished := True\<rparr>)
         else readStreamHeader (x\<lparr>xz_input := input\<rparr>)))"

definition startBlock :: "xzReader \<Rightarrow> xzReader codec" where
  "startBlock x =
     chain (readByte (xz_input x)) (\<lambda>(first, input).
       if first = 0 then finishStream (x\<lparr>xz_input := input\<rparr>)
       else
         let n = (unat first + 1) * 4 in
         chain (readFull (n - 1) input) (\<lambda>(more, input).
           let header = first # more;
               body = take (n - 4) header
           in if getU32 header (n - 4) \<noteq> crc32 body then Bad XzBlockHeader
              else chain (parseXZBlockHeader body) (\<lambda>dictSize.
                Ret (x\<lparr>xz_input := input, xz_block := Some (newLZMA2Reader dictSize),
                       xz_check := checkReset (xz_check x)\<rparr>))))"

definition finishBlock :: "lzma2Reader \<Rightarrow> xzReader \<Rightarrow> xzReader codec" where
  "finishBlock r x =
     chain (discard (paddingOf (l2_compressed r)) (xz_input x)) (\<lambda>input.
       if 0 < ck_size (xz_check x)
       then chain (readFull (ck_size (xz_check x)) input) (\<lambda>(stored, input).
              if \<not> checkVerify (xz_check x) stored then Bad XzIntegrity
              else Ret (x\<lparr>xz_input := input, xz_block := None\<rparr>))
       else Ret (x\<lparr>xz_input := input, xz_block := None\<rparr>))"


subsection \<open>Every step takes input\<close>

lemma readVLI_shorter: "readVLI i v input = Ret (r, w, input') \<Longrightarrow> length input' < length input"
proof (induction "9 - i" arbitrary: i v input)
  case 0
  then show ?case by (subst (asm) readVLI.simps) auto
next
  case (Suc n)
  have IH: "readVLI (i + 1) v' rest = Ret (r, w, input') \<Longrightarrow> length input' < length rest" for v' rest
    using Suc(1) [of "i + 1"] Suc(2) by simp
  from Suc(3) show ?case
    by (subst (asm) readVLI.simps) (auto simp: chain_Ret readByte_Ret Let_def split: if_splits dest!: IH [simplified])
qed

lemma skipRecords_shorter: "skipRecords n c input = Ret (c', input') \<Longrightarrow> length input' \<le> length input"
proof (induction n arbitrary: c input)
  case (Suc n)
  then show ?case
    by (fastforce simp: chain_Ret readXZVLI_def dest!: readVLI_shorter)
qed simp

lemma skipStreamPadding_shorter: "length (skipStreamPadding input) \<le> length input"
  by (induction input rule: skipStreamPadding.induct) auto

lemma readStreamHeader_shorter:
  "readStreamHeader x = Ret x' \<Longrightarrow> length (xz_input x') \<le> length (xz_input x) \<and>
     xz_block x' = xz_block x \<and> xz_finished x' = xz_finished x"
  by (auto simp: readStreamHeader_def chain_Ret readFull_Ret split: if_splits)

lemma skipIndex_shorter: "skipIndex input = Ret input' \<Longrightarrow> length input' \<le> length input"
  by (fastforce simp: skipIndex_def chain_Ret readXZVLI_def discard_Ret split: if_splits
      dest!: readVLI_shorter skipRecords_shorter)

lemma finishStream_shorter:
  assumes "finishStream x = Ret x'"
  shows "length (xz_input x') \<le> length (xz_input x) \<and> xz_block x' = xz_block x"
proof -
  from assms obtain input footer rest where i: "skipIndex (xz_input x) = Ret input" "input = footer @ rest"
      and r: "(if skipStreamPadding rest = [] then Ret (x\<lparr>xz_input := skipStreamPadding rest, xz_finished := True\<rparr>)
           else readStreamHeader (x\<lparr>xz_input := skipStreamPadding rest\<rparr>)) = Ret x'"
    by (auto simp: finishStream_def chain_Ret readFull_Ret Let_def split: if_splits)
  have "length (skipStreamPadding rest) \<le> length (xz_input x)"
    using skipIndex_shorter [OF i(1)] i(2) skipStreamPadding_shorter [of rest] by simp
  with r show ?thesis by (auto split: if_splits dest!: readStreamHeader_shorter)
qed

lemma startBlock_shorter: "startBlock x = Ret x' \<Longrightarrow> length (xz_input x') < length (xz_input x)"
  by (auto simp: startBlock_def chain_Ret readByte_Ret readFull_Ret Let_def split: if_splits
      dest!: finishStream_shorter)

text \<open>The loop of \<open>Read\<close> that opens the next block or finishes.\<close>

function openBlock :: "xzReader \<Rightarrow> xzReader codec" where
  "openBlock x =
     (if xz_block x = None \<and> \<not> xz_finished x then chain (startBlock x) openBlock else Ret x)"
  by pat_completeness auto
termination
  by (relation "measure (\<lambda>x. length (xz_input x))") (auto dest: startBlock_shorter)

declare openBlock.simps [simp del]

lemma openBlock_shorter:
  "openBlock x = Ret x' \<Longrightarrow>
     (if xz_block x = None \<and> \<not> xz_finished x then length (xz_input x') < length (xz_input x) else x' = x) \<and>
     (xz_finished x' \<or> xz_block x' \<noteq> None)"
proof (induction x rule: openBlock.induct)
  case (1 x)
  show ?case
  proof (cases "xz_block x = None \<and> \<not> xz_finished x")
    case True
    with "1.prems" obtain y where y: "startBlock x = Ret y" "openBlock y = Ret x'"
      by (subst (asm) openBlock.simps) (auto simp: chain_Ret)
    from "1.IH" [OF True, of y] y startBlock_shorter [OF y(1)] True show ?thesis
      by (auto split: if_splits)
  next
    case False
    with "1.prems" show ?thesis by (subst (asm) openBlock.simps) auto
  qed
qed

lemma fillBuffer_shorter:
  "fillBuffer input r = Ret (ready, input', r') \<Longrightarrow>
     length input' \<le> length input \<and> (length input' = length input \<longrightarrow> r' = r \<and> input' = input) \<and>
     (ready \<longrightarrow> l2_consumed r' \<noteq> length (l2_buf r'))"
proof (induction input r rule: fillBuffer.induct)
  case (1 input r)
  show ?case
  proof (cases "l2_consumed r \<noteq> length (l2_buf r) \<or> l2_finished r")
    case True
    with "1.prems" show ?thesis by (subst (asm) fillBuffer.simps) (auto split: if_splits)
  next
    case False
    with "1.prems" obtain i s where s: "readChunk input (compact r) = Ret (i, s)" "fillBuffer i s = Ret (ready, input', r')"
      by (subst (asm) fillBuffer.simps) (auto simp: chain_Ret)
    from "1.IH" [of "(i, s)" i s] s readChunk_shorter [OF s(1)] False show ?thesis by auto
  qed
qed

lemma finishBlock_shorter:
  "finishBlock r x = Ret x' \<Longrightarrow> length (xz_input x') \<le> length (xz_input x) \<and> xz_block x' = None"
  by (auto simp: finishBlock_def chain_Ret discard_Ret readFull_Ret split: if_splits)


lemma lzma2Read_shorter:
  assumes "lzma2Read n input r = Ret (res, input', r')"
  shows "length input' \<le> length input \<and>
    (case res of None \<Rightarrow> True
     | Some out \<Rightarrow> length input' = length input \<longrightarrow>
         length (l2_buf r') - l2_consumed r' < length (l2_buf r) - l2_consumed r)"
proof -
  from assms obtain ready s where s: "fillBuffer input r = Ret (ready, input', s)"
      and t: "(if \<not> ready then Ret (None, input', s)
        else if length (l2_buf s) < l2_consumed s then Panic
        else Ret (Some (take (n + 1) (drop (l2_consumed s) (l2_buf s))), input',
               s\<lparr>l2_consumed := l2_consumed s + length (take (n + 1) (drop (l2_consumed s) (l2_buf s)))\<rparr>)) =
        Ret (res, input', r')"
    by (auto simp: lzma2Read_def chain_Ret Let_def split: if_splits)
  from fillBuffer_shorter [OF s] t show ?thesis by (auto split: if_splits)
qed

text \<open>\<open>Read\<close> with a buffer of \<open>n + 1\<close> bytes.\<close>

function xzRead :: "nat \<Rightarrow> xzReader \<Rightarrow> (bytes option \<times> xzReader) codec" where
  "xzRead n x =
     (if xz_finished x then Ret (None, x)
      else chain (openBlock x) (\<lambda>x.
        if xz_finished x then Ret (None, x)
        else case xz_block x of
               None \<Rightarrow> Panic
             | Some r \<Rightarrow>
                 chain (lzma2Read n (xz_input x) r) (\<lambda>(result, input, r).
                   case result of
                     Some out \<Rightarrow>
                       Ret (Some out, x\<lparr>xz_input := input, xz_block := Some r, xz_check := checkWrite (xz_check x) out\<rparr>)
                   | None \<Rightarrow> chain (finishBlock r (x\<lparr>xz_input := input\<rparr>)) (xzRead n))))"
  by pat_completeness auto
termination
proof (relation "measure (\<lambda>(n, x). 2 * length (xz_input x) + (if xz_block x = None then 0 else 1))")
  show "wf (measure (\<lambda>(n :: nat, x). 2 * length (xz_input x) + (if xz_block x = None then 0 else 1)))" by simp
qed (auto dest!: openBlock_shorter lzma2Read_shorter finishBlock_shorter split: if_splits)

declare xzRead.simps [simp del]

definition unread :: "xzReader \<Rightarrow> nat" where
  "unread x = (case xz_block x of None \<Rightarrow> 0 | Some r \<Rightarrow> length (l2_buf r) - l2_consumed r)"


lemma xzRead_shorter:
  "xzRead n x = Ret (Some out, x') \<Longrightarrow>
     length (xz_input x') < length (xz_input x) \<or>
     length (xz_input x') = length (xz_input x) \<and> unread x' < unread x"
proof (induction n x rule: xzRead.induct)
  case (1 n x)
  from "1.prems" obtain y r where x: "\<not> xz_finished x" and y: "openBlock x = Ret y" "\<not> xz_finished y"
      and r: "xz_block y = Some r"
    by (subst (asm) xzRead.simps) (auto simp: chain_Ret split: if_splits option.splits)
  note short = openBlock_shorter [OF y(1)]
  from "1.prems" x y r obtain result input s where s: "lzma2Read n (xz_input y) r = Ret (result, input, s)"
      and rest: "(case result of
          Some out \<Rightarrow> Ret (Some out, y\<lparr>xz_input := input, xz_block := Some s, xz_check := checkWrite (xz_check y) out\<rparr>)
        | None \<Rightarrow> chain (finishBlock s (y\<lparr>xz_input := input\<rparr>)) (xzRead n)) = Ret (Some out, x')"
    by (subst (asm) xzRead.simps) (auto simp: chain_Ret split: if_splits)
  note le = lzma2Read_shorter [OF s]
  show ?case
  proof (cases result)
    case (Some o1)
    with rest have "x' = y\<lparr>xz_input := input, xz_block := Some s, xz_check := checkWrite (xz_check y) out\<rparr>"
        "o1 = out" by auto
    with le short x r Some show ?thesis by (auto simp: unread_def split: if_splits option.splits)
  next
    case None
    with rest obtain z where z: "finishBlock s (y\<lparr>xz_input := input\<rparr>) = Ret z" "xzRead n z = Ret (Some out, x')"
      by (auto simp: chain_Ret)
    have "length (xz_input x') < length (xz_input z) \<or>
        length (xz_input x') = length (xz_input z) \<and> unread x' < unread z"
      using "1.IH" [OF x y(1) y(2) r s refl refl None z(1) z(2)] .
    with finishBlock_shorter [OF z(1)] le short x None show ?thesis
      by (auto simp: unread_def split: if_splits option.splits)
  qed
qed

text \<open>\<open>io.Copy\<close> from the reader.\<close>

function drain :: "nat \<Rightarrow> xzReader \<Rightarrow> bytes codec" where
  "drain n x =
     chain (xzRead n x) (\<lambda>(result, x).
       case result of
         None \<Rightarrow> Ret []
       | Some out \<Rightarrow> chain (drain n x) (\<lambda>more. Ret (out @ more)))"
  by pat_completeness auto
termination
  by (relation "inv_image (less_than <*lex*> less_than) (\<lambda>(n, x). (length (xz_input x), unread x))")
    (auto dest: xzRead_shorter)

declare drain.simps [simp del]

definition newXZReader :: "bytes \<Rightarrow> xzReader codec" where
  "newXZReader input =
     readStreamHeader \<lparr>xz_input = input,
       xz_check = \<lparr>ck_kind = 0, ck_size = 0, ck_crc32 = 0, ck_crc64 = 0, ck_digest = []\<rparr>,
       xz_block = None, xz_finished = False\<rparr>"

definition xzDecompress :: "nat \<Rightarrow> bytes \<Rightarrow> bytes codec" where
  "xzDecompress n input = chain (newXZReader input) (drain n)"

end
