(* ===== verification/XzSafe.thy ===== *)
theory XzSafe
  imports Xz
begin

text \<open>
  The decoder never panics: whatever bytes it is given, every array index of \<open>lzma.go\<close> and
  \<open>xz_raw.go\<close> stays in range, and reading ends with the data or with an error.  The invariant
  \<open>readerOk\<close> says that the probability tables have their sizes and that the history is not empty when
  something was decoded; every step keeps it.
\<close>

section \<open>No input makes the reader panic\<close>

text \<open>The state of the LZMA2 reader between two calls.\<close>

definition readerOk :: "lzma2Reader \<Rightarrow> bool" where
  "readerOk r \<longleftrightarrow> tablesOk (l2_dec r) \<and> (l2_sawProps r \<longrightarrow> litOk (l2_dec r)) \<and>
     (0 < lz_pos (l2_dec r) \<longrightarrow> l2_buf r \<noteq> []) \<and> l2_consumed r \<le> length (l2_buf r) \<and> 4096 \<le> l2_dictSize r"

lemma lenOf_reset: "lenOf rep (resetState dec) = resetLen (lenOf rep dec)"
  by (simp add: lenOf_def resetState_def)

lemma resetProbs_length [simp]: "length (resetProbs ps) = length ps"
  by (simp add: resetProbs_def)

lemma rowOf_reset: "length (rowOf (map resetProbs rows) k) = length (rowOf rows k)"
  by (simp add: rowOf_def)

lemma resetState_length: "length (probsOf (resetState dec) a) = length (probsOf dec a)"
  by (cases a) (auto simp: lenOf_reset resetLen_def rowOf_reset, auto simp: resetState_def rowOf_reset)

lemma resetState_frame [simp]:
  "lz_lc (resetState dec) = lz_lc dec" "lz_lp (resetState dec) = lz_lp dec" "lz_pb (resetState dec) = lz_pb dec"
  "lz_state (resetState dec) = 0" "lz_pos (resetState dec) = lz_pos dec"
  by (simp_all add: resetState_def)

lemma resetState_tables: "tablesOk dec \<Longrightarrow> tablesOk (resetState dec)"
  by (simp add: tablesOk_def resetState_length)

lemma resetState_lit: "litOk (resetState dec) = litOk dec"
  using resetState_length [of dec LitProbs] by (simp add: litOk_def)

lemma pos_frame [simp]:
  "tablesOk (dec\<lparr>lz_pos := n\<rparr>) = tablesOk dec" "litOk (dec\<lparr>lz_pos := n\<rparr>) = litOk dec"
  by (simp_all add: tablesOk_def litOk_def)

lemma probsOf_props: "probsOf (dec\<lparr>lz_lc := a, lz_lp := b, lz_pb := c\<rparr>) x = probsOf dec x"
  by (cases x) (auto simp: lenOf_def)

lemma probsOf_lit: "probsOf (dec\<lparr>lz_lc := a, lz_lp := b, lz_pb := c, lz_litProbs := ps\<rparr>) x =
    (if x = LitProbs then ps else probsOf dec x)"
  by (cases x) (auto simp: lenOf_def)

lemma setProps_ok:
  assumes "setProps v dec = Some dec'" "tablesOk dec"
  shows "tablesOk dec' \<and> litOk dec' \<and> lz_pos dec' = lz_pos dec"
proof -
  have "unat v div 9 div 5 \<le> 4" if "unat v \<le> 224" using that by simp
  then show ?thesis
    using assms by (auto simp: setProps_def Let_def tablesOk_def litOk_def probsOf_lit probsOf_props split: if_splits)
qed

lemma readBE16_eq:
  "readBE16 input r =
     (if length input < 2 then Bad UnexpectedEOF
      else Ret (getBE (take 2 input), drop 2 input, r\<lparr>l2_compressed := l2_compressed r + 2\<rparr>))"
  by (simp add: readBE16_def readFull_def)

lemma readerOk_compressed [simp]: "readerOk (r\<lparr>l2_compressed := k\<rparr>) = readerOk r"
  by (simp add: readerOk_def)

lemma readerOk_finished [simp]: "readerOk (r\<lparr>l2_finished := k\<rparr>) = readerOk r"
  by (simp add: readerOk_def)

lemma readerOk_resetDictionary: "readerOk r \<Longrightarrow> readerOk (resetDictionary r)"
  by (simp add: readerOk_def resetDictionary_def)

lemma readProps_ok: "readerOk r \<Longrightarrow> codecOk (\<lambda>(i, s). readerOk s) (readProps input r)"
  by (cases input) (auto simp: readProps_def readerOk_def resetState_tables resetState_lit
      split: option.split dest: setProps_ok)

lemma readStoredChunk_ok:
  assumes "readerOk r"
  shows "codecOk (\<lambda>(i, s). readerOk s) (readStoredChunk b input r)"
proof -
  let ?r = "if b then resetDictionary r else r"
  have ok: "readerOk ?r" using assms by (simp add: readerOk_resetDictionary)
  have append: "readerOk (s\<lparr>l2_buf := l2_buf s @ data, l2_compressed := k,
      l2_dec := resetState ((l2_dec s)\<lparr>lz_pos := n\<rparr>)\<rparr>)" if "readerOk s" "data \<noteq> []" for s data k n
    using that by (auto simp: readerOk_def resetState_tables resetState_lit)
  have "codecOk (\<lambda>(i, s). readerOk s) (chain (readBE16 input ?r) (\<lambda>(size, input, r).
      chain (readFull (size + 1) input) (\<lambda>(data, input).
        Ret (input, r\<lparr>l2_buf := l2_buf r @ data, l2_compressed := l2_compressed r + (size + 1),
             l2_dec := resetState ((l2_dec r)\<lparr>lz_pos := lz_pos (l2_dec r) + (size + 1)\<rparr>)\<rparr>))))"
    using ok by (auto simp: readBE16_def readFull_def intro!: append)
  then show ?thesis by (simp add: readStoredChunk_def Let_def)
qed

lemma chunkResets_ok: "readerOk r \<Longrightarrow> codecOk (\<lambda>(i, s). readerOk s) (chunkResets control input r)"
proof -
  assume ok: "readerOk r"
  have "codecOk (\<lambda>(i, s). readerOk s) (chain (readProps input r) (\<lambda>(input, r). Ret (input, resetDictionary r)))"
    by (rule codecOk_chain [OF readProps_ok [OF ok]]) (auto simp: readerOk_resetDictionary)
  with ok readProps_ok [OF ok] show ?thesis
    by (auto simp: chunkResets_def Let_def readerOk_def resetState_tables resetState_lit)
qed

lemma decodePacked_ok:
  assumes "readerOk r" "l2_sawProps r" "0 < n"
  shows "codecOk (\<lambda>(i, s). readerOk s) (decodePacked n data input r)"
proof (cases "rangeInit data")
  case (Some d)
  have "safe (chunkOk (length (l2_buf r) + n) (l2_buf r)) (decodeChunk (d, l2_dec r) (l2_buf r) n)"
    by (rule decodeChunk_ok) (use assms in \<open>auto simp: decOk_def readerOk_def\<close>)
  then obtain step where step: "decodeChunk (d, l2_dec r) (l2_buf r) n = Some step"
      "chunkOk (length (l2_buf r) + n) (l2_buf r) step" by (auto simp: safe_def)
  have keep: "readerOk (r\<lparr>l2_dec := dec, l2_buf := l2_buf r @ ys\<rparr>)" if "decOk dec" "ys \<noteq> []" for dec ys
    using that assms by (auto simp: readerOk_def decOk_def)
  have "codecOk (\<lambda>(i, s). readerOk s) (chunkDone (length (l2_buf r)) n (Some step) input r)"
    using step(2) \<open>0 < n\<close> by (cases step) (auto simp: chunkDone_def chunkOk_def Let_def intro!: keep)
  with Some step(1) show ?thesis by (simp add: decodePacked_def)
qed (simp add: decodePacked_def)

lemma readCompressedChunk_ok:
  assumes "readerOk r"
  shows "codecOk (\<lambda>(i, s). readerOk s) (readCompressedChunk control input r)"
proof -
  have tail: "codecOk (\<lambda>(i, s). readerOk s) (chain (chunkResets control input r) (\<lambda>(input, r).
      if \<not> l2_sawProps r then Bad ChunkBeforeProps
      else if \<not> l2_sawDictInit r then Bad ChunkBeforeReset
      else chain (readFull k input) (\<lambda>(data, input).
        decodePacked n data input (r\<lparr>l2_compressed := l2_compressed r + k\<rparr>))))"
    if "readerOk r" "0 < n" for r input k n
    by (rule codecOk_chain [OF chunkResets_ok [OF that(1)]])
      (use that(2) in \<open>auto intro!: codecOk_chain [OF codecOk_readFull] decodePacked_ok\<close>)
  show ?thesis
    using assms by (auto simp: readCompressedChunk_def readBE16_eq Let_def intro!: tail)
qed

lemma readChunk_ok: "readerOk r \<Longrightarrow> codecOk (\<lambda>(i, s). readerOk s) (readChunk input r)"
  by (cases input) (auto simp: readChunk_def Let_def intro!: readStoredChunk_ok readCompressedChunk_ok)

lemma compact_ok: "readerOk r \<Longrightarrow> readerOk (compact r)"
  by (auto simp: readerOk_def compact_def Let_def)

lemma fillBuffer_ok: "readerOk r \<Longrightarrow> codecOk (\<lambda>(b, i, s). readerOk s) (fillBuffer input r)"
proof (induction input r rule: fillBuffer.induct)
  case (1 input r)
  show ?case
  proof (cases "l2_consumed r \<noteq> length (l2_buf r) \<or> l2_finished r")
    case False
    have "codecOk (\<lambda>(b, i, s). readerOk s) (chain (readChunk input (compact r)) (\<lambda>(input, r). fillBuffer input r))"
      by (rule codecOk_chain [OF readChunk_ok [OF compact_ok [OF "1.prems"]]]) (use "1.IH" False in auto)
    with False show ?thesis by (subst fillBuffer.simps) simp
  qed (use "1.prems" in \<open>subst fillBuffer.simps, auto\<close>)
qed

lemma lzma2Read_ok:
  assumes "readerOk r"
  shows "codecOk (\<lambda>(b, i, s). readerOk s) (lzma2Read n input r)"
  unfolding lzma2Read_def
  by (rule codecOk_chain [OF fillBuffer_ok [OF assms]]) (auto simp: readerOk_def Let_def min_def)

definition xzOk :: "xzReader \<Rightarrow> bool" where
  "xzOk x \<longleftrightarrow> (\<forall>r. xz_block x = Some r \<longrightarrow> readerOk r)"

lemma xzOk_frame [simp]:
  "xzOk (x\<lparr>xz_input := i\<rparr>) = xzOk x" "xzOk (x\<lparr>xz_check := c\<rparr>) = xzOk x" "xzOk (x\<lparr>xz_finished := b\<rparr>) = xzOk x"
  by (simp_all add: xzOk_def)

lemma zeroDecoder_tables: "tablesOk zeroDecoder"
proof -
  have "probSize a \<le> length (probsOf zeroDecoder a)" for a
    by (cases a) (auto simp: zeroDecoder_def zeroLenDecoder_def lenOf_def rowOf_def)
  then show ?thesis by (simp add: tablesOk_def) (simp add: zeroDecoder_def)
qed

lemma newReader_ok: "readerOk (newLZMA2Reader k)"
  using zeroDecoder_tables by (simp add: readerOk_def newLZMA2Reader_def) (simp add: zeroDecoder_def)

lemma codecOk_readVLI [simp]: "codecOk (\<lambda>x. True) (readVLI i v input)"
proof (induction "9 - i" arbitrary: i v input)
  case 0
  then show ?case by (subst readVLI.simps) simp
next
  case (Suc n)
  then show ?case
    by (subst readVLI.simps) (auto simp: Let_def intro!: codecOk_chain [OF codecOk_readByte])
qed

lemma codecOk_readXZVLI [simp]: "codecOk (\<lambda>x. True) (readXZVLI input)"
  by (simp add: readXZVLI_def)

lemma codecOk_skipRecords [simp]: "codecOk (\<lambda>x. True) (skipRecords n c input)"
  by (induction n arbitrary: c input) (auto intro!: codecOk_chain [OF codecOk_readXZVLI])

lemma codecOk_skipIndex [simp]: "codecOk (\<lambda>x. True) (skipIndex input)"
  by (auto simp: skipIndex_def intro!: codecOk_chain [OF codecOk_readXZVLI] codecOk_chain [OF codecOk_skipRecords]
      codecOk_chain [OF codecOk_discard])

lemma codecOk_skipSize [simp]: "codecOk (\<lambda>x. True) (skipSize b input)"
  by (auto simp: skipSize_def intro!: codecOk_chain [OF codecOk_readXZVLI])

lemma codecOk_parse [simp]: "codecOk (\<lambda>x. True) (parseXZBlockHeader body)"
  by (auto simp: parseXZBlockHeader_def lzma2DictSize_def Let_def split: list.split
      intro!: codecOk_chain [OF codecOk_skipSize] codecOk_chain [OF codecOk_readXZVLI])

lemma readStreamHeader_ok: "xzOk x \<Longrightarrow> codecOk xzOk (readStreamHeader x)"
  by (auto simp: readStreamHeader_def newXZChecker_def split: option.split
      intro!: codecOk_chain [OF codecOk_readFull])

lemma finishStream_ok: "xzOk x \<Longrightarrow> codecOk xzOk (finishStream x)"
  by (auto simp: finishStream_def Let_def intro!: codecOk_chain [OF codecOk_skipIndex]
      codecOk_chain [OF codecOk_readFull] readStreamHeader_ok)

lemma startBlock_ok: "xzOk x \<Longrightarrow> codecOk xzOk (startBlock x)"
  by (auto simp: startBlock_def Let_def intro!: codecOk_chain [OF codecOk_readByte]
      codecOk_chain [OF codecOk_readFull] codecOk_chain [OF codecOk_parse] finishStream_ok)
    (simp add: xzOk_def newReader_ok)

lemma finishBlock_ok: "codecOk xzOk (finishBlock r x)"
  by (auto simp: finishBlock_def xzOk_def intro!: codecOk_chain [OF codecOk_discard] codecOk_chain [OF codecOk_readFull])

lemma openBlock_ok: "xzOk x \<Longrightarrow> codecOk xzOk (openBlock x)"
proof (induction x rule: openBlock.induct)
  case (1 x)
  then show ?case
    by (subst openBlock.simps) (auto intro!: codecOk_chain [OF startBlock_ok])
qed


lemma xzRead_ok: "xzOk x \<Longrightarrow> codecOk (\<lambda>(b, y). xzOk y) (xzRead n x)"
proof (induction n x rule: xzRead.induct)
  case (1 n x)
  let ?after = "\<lambda>y (result, input, r). case result of
      Some out \<Rightarrow>
        Ret (Some out, y\<lparr>xz_input := input, xz_block := Some r, xz_check := checkWrite (xz_check y) out\<rparr>)
    | None \<Rightarrow> chain (finishBlock r (y\<lparr>xz_input := input\<rparr>)) (xzRead n)"
  let ?opened = "\<lambda>y. if xz_finished y then Ret (None, y)
    else case xz_block y of None \<Rightarrow> Panic | Some r \<Rightarrow> chain (lzma2Read n (xz_input y) r) (?after y)"
  show ?case
  proof (cases "xz_finished x")
    case False
    have "codecOk (\<lambda>(b, y). xzOk y) (chain (openBlock x) ?opened)"
    proof (rule codecOk_chain [OF openBlock_ok [OF "1.prems"]])
      fix y assume y: "xzOk y" and o: "openBlock x = Ret y"
      show "codecOk (\<lambda>(b, y). xzOk y) (?opened y)"
      proof (cases "xz_finished y")
        case unfinished: False
        with openBlock_shorter [OF o] obtain r where r: "xz_block y = Some r" by auto
        then have rok: "readerOk r" using y by (simp add: xzOk_def)
        have "codecOk (\<lambda>(b, y). xzOk y) (chain (lzma2Read n (xz_input y) r) (?after y))"
        proof (rule codecOk_chain [OF lzma2Read_ok [OF rok]])
          fix t
          assume "case t of (b, i, s) \<Rightarrow> readerOk s" and t: "lzma2Read n (xz_input y) r = Ret t"
          moreover obtain result input s where ts: "t = (result, input, s)" by (rule prod_cases3)
          ultimately have s: "readerOk s" and read: "lzma2Read n (xz_input y) r = Ret (result, input, s)" by auto
          have "codecOk (\<lambda>(b, y). xzOk y) (?after y (result, input, s))"
          proof (cases result)
            case None
            have "codecOk (\<lambda>(b, y). xzOk y) (chain (finishBlock s (y\<lparr>xz_input := input\<rparr>)) (xzRead n))"
              by (rule codecOk_chain [OF finishBlock_ok])
                (rule "1.IH" [OF False o unfinished r read refl refl None])
            with None show ?thesis by simp
          qed (use s in \<open>simp add: xzOk_def\<close>)
          then show "codecOk (\<lambda>(b, y). xzOk y) (?after y t)" unfolding ts .
        qed
        with unfinished r show ?thesis by simp
      qed (use y in simp)
    qed
    with False show ?thesis by (subst xzRead.simps) simp
  qed (use "1.prems" in \<open>subst xzRead.simps, simp\<close>)
qed

lemma drain_ok: "xzOk x \<Longrightarrow> codecOk (\<lambda>out. True) (drain n x)"
proof (induction n x rule: drain.induct)
  case (1 n x)
  show ?case
    by (subst drain.simps, rule codecOk_chain [OF xzRead_ok [OF "1.prems"]])
      (auto split: option.split intro!: codecOk_chain [OF "1.IH"])
qed


text \<open>C15: decompression never panics: for every input and every size of the caller's buffer it ends, with
  the decompressed data or with an error.\<close>

theorem unxz_never_panics:
  "(\<exists>data. xzDecompress n input = Ret data) \<or> (\<exists>e. xzDecompress n input = Bad e)"
proof -
  let ?x = "\<lparr>xz_input = input,
       xz_check = \<lparr>ck_kind = 0, ck_size = 0, ck_crc32 = 0, ck_crc64 = 0, ck_digest = []\<rparr>,
       xz_block = None, xz_finished = False\<rparr>"
  have "codecOk xzOk (readStreamHeader ?x)" by (rule readStreamHeader_ok) (simp add: xzOk_def)
  then have "codecOk (\<lambda>data. True) (xzDecompress n input)"
    unfolding xzDecompress_def newXZReader_def by (rule codecOk_chain) (rule drain_ok)
  then show ?thesis by (cases "xzDecompress n input") auto
qed

end
