(* ===== verification/Fse.thy ===== *)
theory Fse
  imports Codec
begin

text \<open>
  The entropy stages of \<open>zstd_decode.go\<close>: the bit reader with its backward and its forward cursor, the
  tables of the finite-state entropy code and the Huffman tables.  Symbols, bit counts and states are
  natural numbers, because the tables have at most 512 states of at most 256 symbols; counts are
  integers, \<open>-1\<close> standing for a probability below one.
\<close>

section \<open>The bit reader\<close>

record zstdBitReader =
  br_data :: bytes
  br_bitPos :: int
  br_forwardPos :: nat
  br_corrupt :: bool

text \<open>The literal \<open>&zstdBitReader{data: data}\<close>, used for the forward cursor only.\<close>

definition forwardReader :: "bytes \<Rightarrow> zstdBitReader" where
  "forwardReader data = \<lparr>br_data = data, br_bitPos = 0, br_forwardPos = 0, br_corrupt = False\<rparr>"

definition paddingOf8 :: "u8 \<Rightarrow> nat" where
  "paddingOf8 final =
     (case find (\<lambda>k. final AND push_bit k 1 \<noteq> 0) [7, 6, 5, 4, 3, 2, 1, 0] of None \<Rightarrow> 0 | Some k \<Rightarrow> 8 - k)"

definition newZstdBitReader :: "bytes \<Rightarrow> zstdBitReader codec" where
  "newZstdBitReader data =
     (if data = [] then Bad ZstdData
      else if List.last data = 0 then Bad ZstdData
      else Ret ((forwardReader data)
             \<lparr>br_bitPos := int (length data) * 8 - int (paddingOf8 (List.last data))\<rparr>))"

text \<open>The bit at a position; before the start of the stream it is zero.\<close>

definition bitAt :: "bytes \<Rightarrow> int \<Rightarrow> nat codec" where
  "bitAt data pos =
     (if pos < 0 then Ret 0
      else chain (lookup data (nat pos div 8))
             (\<lambda>b. Ret (unat (drop_bit (nat pos mod 8) b AND 1))))"

text \<open>\<open>count\<close> bits downwards from \<open>pos\<close>, behind those of \<open>v\<close>.\<close>

primrec bitsDown :: "bytes \<Rightarrow> nat \<Rightarrow> int \<Rightarrow> nat \<Rightarrow> nat codec" where
  "bitsDown data 0 pos v = Ret v"
| "bitsDown data (Suc n) pos v = chain (bitAt data (pos - 1)) (\<lambda>b. bitsDown data n (pos - 1) (2 * v + b))"

definition readBits :: "nat \<Rightarrow> zstdBitReader \<Rightarrow> (nat \<times> zstdBitReader) codec" where
  "readBits count r =
     (if count = 0 then Ret (0, r)
      else if 32 < count then Ret (0, r\<lparr>br_corrupt := True\<rparr>)
      else chain (bitsDown (br_data r) count (br_bitPos r) 0)
             (\<lambda>v. Ret (v, r\<lparr>br_bitPos := br_bitPos r - int count\<rparr>)))"

definition peekBits :: "nat \<Rightarrow> zstdBitReader \<Rightarrow> nat codec" where
  "peekBits count r = bitsDown (br_data r) count (br_bitPos r) 0"

definition exhausted :: "zstdBitReader \<Rightarrow> bool" where
  "exhausted r \<longleftrightarrow> br_bitPos r < 0"

definition alignForward :: "zstdBitReader \<Rightarrow> zstdBitReader" where
  "alignForward r = r\<lparr>br_forwardPos := (br_forwardPos r + 7) div 8 * 8\<rparr>"

primrec bitsUp :: "bytes \<Rightarrow> nat \<Rightarrow> nat \<Rightarrow> nat \<Rightarrow> nat \<Rightarrow> nat codec" where
  "bitsUp data 0 i pos v = Ret v"
| "bitsUp data (Suc n) i pos v =
     chain (bitAt data (int pos)) (\<lambda>b. bitsUp data n (Suc i) (Suc pos) (v + b * 2 ^ i))"

definition readForward :: "nat \<Rightarrow> zstdBitReader \<Rightarrow> (nat \<times> zstdBitReader) codec" where
  "readForward count r =
     (if count = 0 then Ret (0, r)
      else if 32 < count \<or> length (br_data r) * 8 < br_forwardPos r + count
      then Ret (0, r\<lparr>br_corrupt := True\<rparr>)
      else chain (bitsUp (br_data r) count 0 (br_forwardPos r) 0)
             (\<lambda>v. Ret (v, r\<lparr>br_forwardPos := br_forwardPos r + count\<rparr>)))"

function bitsFrom :: "nat \<Rightarrow> nat \<Rightarrow> nat" where
  "bitsFrom bits n = (if 2 ^ bits \<le> n then bitsFrom (bits + 1) n else bits)"
  by pat_completeness auto
termination
proof (relation "measure (\<lambda>(bits, n). n + 1 - bits)")
  fix bits n :: nat
  assume "2 ^ bits \<le> n"
  with less_exp [of bits] have "bits < n" by linarith
  then show "((bits + 1, n), bits, n) \<in> measure (\<lambda>(bits, n). n + 1 - bits)" by simp
qed simp

declare bitsFrom.simps [simp del]

definition bitsFor :: "nat \<Rightarrow> nat" where
  "bitsFor n = bitsFrom 0 n"

section \<open>Tables of finite-state entropy\<close>

record zstdFSETable =
  fse_log :: nat
  fse_symbol :: "nat list"
  fse_numBits :: "nat list"
  fse_newarr :: "nat list"

text \<open>Runs of symbols with probability zero, two bits at a time.\<close>

lemma readForward_moves:
  "readForward n r = Ret (v, r') \<Longrightarrow> v \<noteq> 0 \<Longrightarrow> br_data r' = br_data r \<and>
     br_forwardPos r' = br_forwardPos r + n \<and> br_forwardPos r + n \<le> 8 * length (br_data r)"
  by (auto simp: readForward_def chain_Ret split: if_splits)

function zeroRun :: "nat \<Rightarrow> zstdBitReader \<Rightarrow> (nat \<times> zstdBitReader) codec" where
  "zeroRun zeros r =
     chain (readForward 2 r) (\<lambda>(pair, r).
       if pair \<noteq> 3 then Ret (zeros + pair, r) else zeroRun (zeros + pair) r)"
  by pat_completeness auto
termination
  by (relation "measure (\<lambda>(zeros, r). 8 * length (br_data r) + 1 - br_forwardPos r)")
    (auto dest: readForward_moves)

declare zeroRun.simps [simp del]

text \<open>One normalised count, in as few bits as what remains allows.\<close>

definition readCount :: "int \<Rightarrow> zstdBitReader \<Rightarrow> (int \<times> zstdBitReader) codec" where
  "readCount remaining r =
     (let bits = bitsFor (nat remaining);
          half = 2 ^ (bits - 1);
          cutoff = 2 ^ bits - 1 - remaining
      in chain (readForward (bits - 1) r) (\<lambda>(low, r).
           if int low < cutoff then Ret (int low - 1, r)
           else chain (readForward 1 r) (\<lambda>(high, r).
             let full = int low + int high * 2 ^ (bits - 1) in
             Ret ((if half \<le> full then full - cutoff else full) - 1, r))))"

text \<open>\<open>counts\<close> holds those of the symbols so far.\<close>

function fseCounts ::
    "nat \<Rightarrow> int \<Rightarrow> int list \<Rightarrow> bool \<Rightarrow> zstdBitReader \<Rightarrow> (int \<times> int list \<times> zstdBitReader) codec" where
  "fseCounts maxSymbol remaining counts previousZero r =
     (if 1 < remaining \<and> length counts \<le> maxSymbol
      then (if previousZero
            then chain (zeroRun 0 r) (\<lambda>(zeros, r).
                   fseCounts maxSymbol remaining
                     (counts @ replicate (min zeros (maxSymbol + 1 - length counts)) 0) False r)
            else chain (readCount remaining r) (\<lambda>(count, r).
                   let remaining = (if 0 \<le> count then remaining - count else remaining - 1) in
                   if remaining < 1 then Bad ZstdData
                   else fseCounts maxSymbol remaining (counts @ [count]) (count = 0) r))
      else Ret (remaining, counts, r))"
  by pat_completeness auto
termination
  by (relation "measure (\<lambda>(maxSymbol, remaining, counts, previousZero, r).
        2 * (maxSymbol + 1 - length counts) + (if previousZero then 1 else 0))") auto

declare fseCounts.simps [simp del]

text \<open>Symbols with a probability below one, from the end of the table downwards.\<close>

fun placeLow :: "nat \<Rightarrow> int list \<Rightarrow> nat list \<Rightarrow> int \<Rightarrow> (nat list \<times> int) codec" where
  "placeLow i [] symbols high = Ret (symbols, high)"
| "placeLow i (count # counts) symbols high =
     (if count = -1
      then (if high < 0 then Panic
            else chain (store symbols (nat high) i) (\<lambda>symbols. placeLow (i + 1) counts symbols (high - 1)))
      else placeLow (i + 1) counts symbols high)"

text \<open>The next free position.  The positions \<open>position + k * step\<close> repeat after \<open>size\<close> steps, so a loop that
  has not ended by then never does; that is \<open>Panic\<close> here.\<close>

primrec skipHigh :: "nat \<Rightarrow> nat \<Rightarrow> nat \<Rightarrow> int \<Rightarrow> nat \<Rightarrow> nat codec" where
  "skipHigh 0 width step high position = (if high < int position then Panic else Ret position)"
| "skipHigh (Suc fuel) width step high position =
     (if high < int position then skipHigh fuel width step high ((position + step) mod width) else Ret position)"

primrec spreadOne ::
    "nat \<Rightarrow> nat \<Rightarrow> int \<Rightarrow> nat \<Rightarrow> nat \<Rightarrow> nat list \<Rightarrow> nat \<Rightarrow> (nat list \<times> nat) codec" where
  "spreadOne width step high i 0 symbols position = Ret (symbols, position)"
| "spreadOne width step high i (Suc n) symbols position =
     chain (store symbols position i) (\<lambda>symbols.
     chain (skipHigh width width step high ((position + step) mod width)) (\<lambda>position.
       spreadOne width step high i n symbols position))"

fun spread :: "nat \<Rightarrow> nat \<Rightarrow> int \<Rightarrow> nat \<Rightarrow> int list \<Rightarrow> nat list \<Rightarrow> nat \<Rightarrow> (nat list \<times> nat) codec" where
  "spread width step high i [] symbols position = Ret (symbols, position)"
| "spread width step high i (count # counts) symbols position =
     chain (spreadOne width step high i (nat count) symbols position) (\<lambda>(symbols, position).
       spread width step high (i + 1) counts symbols position)"

text \<open>The occurrences of a symbol are numbered in table order.\<close>

fun numberStates :: "nat \<Rightarrow> nat list \<Rightarrow> nat list \<Rightarrow> (nat list \<times> nat list) codec" where
  "numberStates accuracy [] following = Ret ([], [])"
| "numberStates accuracy (symbol # symbols) following =
     (if length following \<le> symbol then Bad ZstdData
      else let n = following ! symbol;
               bits = int accuracy - int (bitsFor n) + 1
           in if bits < 0 \<or> int accuracy < bits then Bad ZstdData
              else chain (numberStates accuracy symbols (following[symbol := n + 1])) (\<lambda>(numBits, newarr).
                     Ret (nat bits # numBits, (n * 2 ^ nat bits - 2 ^ accuracy) # newarr)))"

definition buildFSETable :: "int list \<Rightarrow> nat \<Rightarrow> zstdFSETable codec" where
  "buildFSETable counts accuracy =
     (let size = 2 ^ accuracy;
          step = size div 2 + size div 8 + 3
      in chain (placeLow 0 counts (replicate size 0) (int size - 1)) (\<lambda>(symbols, high).
         chain (spread size step high 0 counts symbols 0) (\<lambda>(symbols, position).
           if position \<noteq> 0 then Bad ZstdData
           else chain (numberStates accuracy symbols (map (\<lambda>c. if c = -1 then 1 else nat c) counts))
                  (\<lambda>(numBits, newarr).
                     Ret \<lparr>fse_log = accuracy, fse_symbol = symbols, fse_numBits = numBits, fse_newarr = newarr\<rparr>))))"

definition readFSETable :: "zstdBitReader \<Rightarrow> nat \<Rightarrow> nat \<Rightarrow> (zstdFSETable \<times> zstdBitReader) codec" where
  "readFSETable r maxSymbol maxLog =
     chain (readForward 4 r) (\<lambda>(a, r).
       let accuracy = a + 5 in
       if maxLog < accuracy then Bad ZstdData
       else chain (fseCounts maxSymbol (2 ^ accuracy + 1) [] False r) (\<lambda>(remaining, counts, r).
              if br_corrupt r \<or> remaining \<noteq> 1 then Bad ZstdData
              else chain (buildFSETable counts accuracy) (\<lambda>table. Ret (table, r))))"

text \<open>One step of a state; the extra bits come from the backward cursor.\<close>

definition nextState :: "zstdFSETable \<Rightarrow> nat \<Rightarrow> zstdBitReader \<Rightarrow> (nat \<times> zstdBitReader) codec" where
  "nextState table state r =
     chain (lookup (fse_newarr table) state) (\<lambda>base.
     chain (lookup (fse_numBits table) state) (\<lambda>n.
     chain (readBits n r) (\<lambda>(v, r). Ret (base + v, r))))"

end
