(* ===== verification/Huf.thy ===== *)
theory Huf
  imports Fse
begin

text \<open>
  The Huffman stage of \<open>zstd_decode.go\<close>: the weights of a table, written as nibbles or with their own
  finite-state entropy code, the flattened table of a canonical code, and the decoding of one stream.
\<close>

section \<open>The table\<close>

record zstdHuffman =
  hf_maxBits :: nat
  hf_symbol :: "nat list"
  hf_bits :: "nat list"

text \<open>\<open>width\<close> entries from \<open>position\<close> on.\<close>

definition fillRange :: "'a list \<Rightarrow> nat \<Rightarrow> nat \<Rightarrow> 'a \<Rightarrow> 'a list codec" where
  "fillRange xs position width v =
     (if length xs < position + width then Panic
      else Ret (take position xs @ replicate width v @ drop (position + width) xs))"

type_synonym huffman_fill = "nat \<times> nat list \<times> nat list"

text \<open>The symbols of one weight.\<close>

fun fillWeight :: "nat \<Rightarrow> nat \<Rightarrow> nat \<Rightarrow> nat list \<Rightarrow> huffman_fill \<Rightarrow> huffman_fill codec" where
  "fillWeight maxBits weight symbol [] st = Ret st"
| "fillWeight maxBits weight symbol (w # weights) (position, symbols, bits) =
     (if w \<noteq> weight then fillWeight maxBits weight (symbol + 1) weights (position, symbols, bits)
      else let width = 2 ^ (weight - 1) in
           if 2 ^ maxBits < position + width then Bad ZstdData
           else chain (fillRange symbols position width symbol) (\<lambda>symbols.
                chain (fillRange bits position width (maxBits - weight + 1)) (\<lambda>bits.
                  fillWeight maxBits weight (symbol + 1) weights (position + width, symbols, bits))))"

primrec fillWeights :: "nat \<Rightarrow> nat list \<Rightarrow> nat list \<Rightarrow> huffman_fill \<Rightarrow> huffman_fill codec" where
  "fillWeights maxBits weights [] st = Ret st"
| "fillWeights maxBits weights (weight # ws) st =
     chain (fillWeight maxBits weight 0 weights st) (fillWeights maxBits weights ws)"

definition buildHuffman :: "nat list \<Rightarrow> nat \<Rightarrow> zstdHuffman codec" where
  "buildHuffman weights maxBits =
     (if maxBits < 1 \<or> 11 < maxBits then Bad ZstdData
      else let size = 2 ^ maxBits in
           chain (fillWeights maxBits weights [1 ..< maxBits + 1] (0, replicate size 0, replicate size 0))
             (\<lambda>(position, symbols, bits).
                if position \<noteq> size then Bad ZstdData
                else Ret \<lparr>hf_maxBits = maxBits, hf_symbol = symbols, hf_bits = bits\<rparr>))"

section \<open>The weights\<close>

text \<open>An array of \<open>room\<close> weights up to \<open>count\<close>; a weight past its end is an index out of range.\<close>

definition pushWeight :: "nat \<Rightarrow> nat list \<Rightarrow> nat \<Rightarrow> nat list codec" where
  "pushWeight room weights w = (if length weights < room then Ret (weights @ [w]) else Panic)"

text \<open>Two states take turns on one stream; when it runs out, the other state holds a last symbol.\<close>

function weightsLoop ::
    "nat \<Rightarrow> zstdFSETable \<Rightarrow> nat \<Rightarrow> nat \<Rightarrow> nat list \<Rightarrow> zstdBitReader \<Rightarrow> nat list codec" where
  "weightsLoop room table state1 state2 weights r =
     (if 255 \<le> length weights \<or> br_corrupt r then Bad ZstdData
      else chain (lookup (fse_symbol table) state1) (\<lambda>sym1.
           chain (pushWeight room weights sym1) (\<lambda>weights1.
           chain (nextState table state1 r) (\<lambda>(state1, r).
           chain (lookup (fse_symbol table) state2) (\<lambda>sym2.
           chain (pushWeight room weights1 sym2) (\<lambda>weights2.
             if exhausted r then (if br_corrupt r then Bad ZstdData else Ret weights2)
             else chain (nextState table state2 r) (\<lambda>(state2, r).
               if exhausted r
               then chain (lookup (fse_symbol table) state1) (\<lambda>sym1.
                    chain (pushWeight room weights2 sym1) (\<lambda>weights3.
                      if br_corrupt r then Bad ZstdData else Ret weights3))
               else weightsLoop room table state1 state2 weights2 r)))))))"
  by pat_completeness auto
termination
  by (relation "measure (\<lambda>(room, table, state1, state2, weights, r). 255 - length weights)")
    (auto simp: pushWeight_def split: if_splits)

declare weightsLoop.simps [simp del]

definition readFSEWeights :: "bytes \<Rightarrow> nat \<Rightarrow> nat list codec" where
  "readFSEWeights data room =
     chain (readFSETable (forwardReader data) 255 6) (\<lambda>(table, forward).
       let offset = (br_forwardPos forward + 7) div 8 in
       if length data < offset then Bad ZstdData
       else chain (newZstdBitReader (drop offset data)) (\<lambda>r.
            chain (readBits (fse_log table) r) (\<lambda>(state1, r).
            chain (readBits (fse_log table) r) (\<lambda>(state2, r).
              weightsLoop room table state1 state2 [] r))))"

definition nibbleWeight :: "bytes \<Rightarrow> nat \<Rightarrow> nat codec" where
  "nibbleWeight data i =
     chain (lookup data (1 + i div 2))
       (\<lambda>b. Ret (if i mod 2 = 0 then unat (drop_bit 4 b) else unat (b AND 0x0f)))"

primrec nibbleWeights :: "bytes \<Rightarrow> nat \<Rightarrow> nat list codec" where
  "nibbleWeights data 0 = Ret []"
| "nibbleWeights data (Suc n) =
     chain (nibbleWeights data n) (\<lambda>ws. chain (nibbleWeight data n) (\<lambda>w. Ret (ws @ [w])))"

text \<open>The last weight is not stored: it completes the power of two.\<close>

definition completeWeights :: "nat list \<Rightarrow> zstdHuffman codec" where
  "completeWeights weights =
     (let covered = sum_list (map (\<lambda>w. if 0 < w then 2 ^ (w - 1) else 0) weights);
          maxBits = bitsFor covered;
          remainder = 2 ^ maxBits - covered
      in if \<exists>w \<in> set weights. 11 < w then Bad ZstdData
         else if covered = 0 then Bad ZstdData
         else if maxBits < 1 \<or> 11 < maxBits then Bad ZstdData
         else if remainder = 0 \<or> remainder AND (remainder - 1) \<noteq> 0 then Bad ZstdData
         else if 256 \<le> length weights then Bad ZstdData
         else chain (pushWeight 256 weights (bitsFor remainder)) (\<lambda>weights. buildHuffman weights maxBits))"

definition readHuffmanTable :: "bytes \<Rightarrow> (zstdHuffman \<times> nat) codec" where
  "readHuffmanTable data =
     (case data of
        [] \<Rightarrow> Bad ZstdData
      | header # _ \<Rightarrow>
          if 128 \<le> header
          then let count = unat header - 127;
                   used = 1 + (count + 1) div 2
               in if length data < used then Bad ZstdData
                  else chain (nibbleWeights data count) (\<lambda>weights.
                       chain (completeWeights weights) (\<lambda>table. Ret (table, used)))
          else let used = unat header + 1 in
               if length data < used then Bad ZstdData
               else chain (readFSEWeights (slice data 1 used) 256) (\<lambda>weights.
                    chain (completeWeights weights) (\<lambda>table. Ret (table, used))))"

section \<open>One stream\<close>

primrec huffmanSymbols :: "zstdHuffman \<Rightarrow> nat \<Rightarrow> zstdBitReader \<Rightarrow> nat list codec" where
  "huffmanSymbols table 0 r = Ret []"
| "huffmanSymbols table (Suc want) r =
     (if br_bitPos r \<le> 0 then Bad ZstdData
      else chain (peekBits (hf_maxBits table) r) (\<lambda>peek.
           chain (lookup (hf_symbol table) peek) (\<lambda>symbol.
           chain (lookup (hf_bits table) peek) (\<lambda>bits.
             if br_bitPos r < int bits then Bad ZstdData
             else chain (huffmanSymbols table want (r\<lparr>br_bitPos := br_bitPos r - int bits\<rparr>))
                    (\<lambda>symbols. Ret (symbol # symbols))))))"

definition decodeHuffmanStream :: "zstdHuffman \<Rightarrow> bytes \<Rightarrow> nat \<Rightarrow> bytes codec" where
  "decodeHuffmanStream table data want =
     chain (newZstdBitReader data) (\<lambda>r.
     chain (huffmanSymbols table want r) (\<lambda>symbols. Ret (map of_nat symbols)))"

end
