(* ===== verification/ZstdBlock.thy ===== *)
theory ZstdBlock
  imports Huf Lzma
begin

text \<open>
  Compressed blocks of \<open>zstd_decode.go\<close>: the literals section, the sequences section with its three
  tables, and the execution of the sequences over the window.
\<close>

section \<open>Literals\<close>

record zstdBlockDecoder =
  bd_repeat :: "nat \<times> nat \<times> nat"
  bd_huffman :: "zstdHuffman option"
  bd_litLen :: "zstdFSETable option"
  bd_match :: "zstdFSETable option"
  bd_offset :: "zstdFSETable option"

definition newZstdBlockDecoder :: zstdBlockDecoder where
  "newZstdBlockDecoder =
     \<lparr>bd_repeat = (1, 4, 8), bd_huffman = None, bd_litLen = None, bd_match = None, bd_offset = None\<rparr>"

text \<open>Little-endian integer of the first \<open>n\<close> bytes, shifted and cut to a field.\<close>

definition bitField :: "bytes \<Rightarrow> nat \<Rightarrow> nat \<Rightarrow> nat \<Rightarrow> nat" where
  "bitField src n low width = leNat (take n src) div 2 ^ low mod 2 ^ width"

definition plainHeader :: "bytes \<Rightarrow> nat \<Rightarrow> (nat \<times> nat) codec" where
  "plainHeader src sizeFormat =
     (if sizeFormat = 0 \<or> sizeFormat = 2 then Ret (bitField src 1 3 5, 1)
      else if sizeFormat = 1
      then (if length src < 2 then Bad ZstdData else Ret (bitField src 2 4 12, 2))
      else (if length src < 3 then Bad ZstdData else Ret (bitField src 3 4 20, 3)))"

definition plainLiterals :: "bool \<Rightarrow> nat \<Rightarrow> bytes \<Rightarrow> (bytes \<times> nat) codec" where
  "plainLiterals raw sizeFormat src =
     chain (plainHeader src sizeFormat) (\<lambda>(regenerated, headerSize).
       if 2 ^ 17 < regenerated then Bad ZstdData
       else if raw
       then let stop = headerSize + regenerated in
            if length src < stop then Bad ZstdData else Ret (slice src headerSize stop, stop)
       else if length src \<le> headerSize then Bad ZstdData
       else Ret (replicate regenerated (src ! headerSize), headerSize + 1))"

text \<open>Streams, size of the header, and the two sizes in it.\<close>

definition huffmanHeader :: "bytes \<Rightarrow> nat \<Rightarrow> (nat \<times> nat \<times> nat \<times> nat) codec" where
  "huffmanHeader src sizeFormat =
     (if sizeFormat = 0 then Ret (1, 3, bitField src 3 4 10, bitField src 3 14 10)
      else if sizeFormat = 1 then Ret (4, 3, bitField src 3 4 10, bitField src 3 14 10)
      else if sizeFormat = 2
      then (if length src < 4 then Bad ZstdData else Ret (4, 4, bitField src 4 4 14, bitField src 4 18 14))
      else (if length src < 5 then Bad ZstdData else Ret (4, 5, bitField src 5 4 18, bitField src 5 22 18)))"

primrec decodeSegments :: "zstdHuffman \<Rightarrow> (bytes \<times> nat) list \<Rightarrow> bytes codec" where
  "decodeSegments table [] = Ret []"
| "decodeSegments table (s # segments) =
     chain (decodeHuffmanStream table (fst s) (snd s)) (\<lambda>out.
     chain (decodeSegments table segments) (\<lambda>outs. Ret (out @ outs)))"

definition decodeFourStreams :: "zstdHuffman \<Rightarrow> bytes \<Rightarrow> nat \<Rightarrow> bytes codec" where
  "decodeFourStreams table body want =
     (if length body < 6 then Bad ZstdData
      else let size1 = unat (getU16 body 0);
               size2 = unat (getU16 body 2);
               size3 = unat (getU16 body 4);
               others = drop 6 body;
               quarter = (want + 3) div 4
           in if length others < size1 + size2 + size3 then Bad ZstdData
              else if want < 3 * quarter then Bad ZstdData
              else decodeSegments table
                     [(take size1 others, quarter),
                      (slice others size1 (size1 + size2), quarter),
                      (slice others (size1 + size2) (size1 + size2 + size3), quarter),
                      (drop (size1 + size2 + size3) others, want - 3 * quarter)])"

text \<open>A new table, or the one of an earlier block.\<close>

definition literalsTable ::
    "bool \<Rightarrow> bytes \<Rightarrow> zstdBlockDecoder \<Rightarrow> (zstdHuffman \<times> bytes \<times> zstdBlockDecoder) codec" where
  "literalsTable fresh body d =
     (if fresh
      then chain (readHuffmanTable body) (\<lambda>(table, used).
             if length body < used then Panic
             else Ret (table, drop used body, d\<lparr>bd_huffman := Some table\<rparr>))
      else case bd_huffman d of None \<Rightarrow> Bad ZstdData | Some table \<Rightarrow> Ret (table, body, d))"

definition huffmanLiterals ::
    "bool \<Rightarrow> nat \<Rightarrow> bytes \<Rightarrow> zstdBlockDecoder \<Rightarrow> (bytes \<times> nat \<times> zstdBlockDecoder) codec" where
  "huffmanLiterals fresh sizeFormat src d =
     (if length src < 3 then Bad ZstdData
      else chain (huffmanHeader src sizeFormat) (\<lambda>(streams, headerSize, regenerated, compressed).
        if 2 ^ 17 < regenerated \<or> length src < headerSize + compressed then Bad ZstdData
        else chain (literalsTable fresh (slice src headerSize (headerSize + compressed)) d)
          (\<lambda>(table, body, d).
             chain (if streams = 1 then decodeHuffmanStream table body regenerated
                    else decodeFourStreams table body regenerated)
               (\<lambda>literals. Ret (literals, headerSize + compressed, d)))))"

definition decodeLiterals :: "bytes \<Rightarrow> zstdBlockDecoder \<Rightarrow> (bytes \<times> nat \<times> zstdBlockDecoder) codec" where
  "decodeLiterals src d =
     (case src of
        [] \<Rightarrow> Bad ZstdData
      | first # _ \<Rightarrow>
          let kind = unat (first AND 0x03); sizeFormat = unat (drop_bit 2 first AND 0x03) in
          if kind = 0 \<or> kind = 1
          then chain (plainLiterals (kind = 0) sizeFormat src) (\<lambda>(literals, used). Ret (literals, used, d))
          else huffmanLiterals (kind = 2) sizeFormat src d)"

section \<open>Sequences\<close>

record zstdSequence =
  sq_literalLength :: nat
  sq_matchLength :: nat
  sq_offset :: nat

definition zstdLitLenBaseline :: "nat list" where
  "zstdLitLenBaseline =
     [0, 1, 2, 3, 4, 5, 6, 7, 8, 9, 10, 11, 12, 13, 14, 15,
      16, 18, 20, 22, 24, 28, 32, 40, 48, 64, 128, 256, 512, 1024, 2048, 4096, 8192, 16384, 32768, 65536]"

definition zstdLitLenExtra :: "nat list" where
  "zstdLitLenExtra =
     [0, 0, 0, 0, 0, 0, 0, 0, 0, 0, 0, 0, 0, 0, 0, 0,
      1, 1, 1, 1, 2, 2, 3, 3, 4, 6, 7, 8, 9, 10, 11, 12, 13, 14, 15, 16]"

definition zstdMatchLenBaseline :: "nat list" where
  "zstdMatchLenBaseline =
     [3, 4, 5, 6, 7, 8, 9, 10, 11, 12, 13, 14, 15, 16, 17, 18,
      19, 20, 21, 22, 23, 24, 25, 26, 27, 28, 29, 30, 31, 32, 33, 34, 35, 37, 39, 41, 43, 47, 51, 59,
      67, 83, 99, 131, 259, 515, 1027, 2051, 4099, 8195, 16387, 32771, 65539]"

definition zstdMatchLenExtra :: "nat list" where
  "zstdMatchLenExtra =
     [0, 0, 0, 0, 0, 0, 0, 0, 0, 0, 0, 0, 0, 0, 0, 0,
      0, 0, 0, 0, 0, 0, 0, 0, 0, 0, 0, 0, 0, 0, 0, 0, 1, 1, 1, 1, 2, 2, 3, 3,
      4, 4, 5, 7, 8, 9, 10, 11, 12, 13, 14, 15, 16]"

definition zstdDefaultLitLen :: "int list" where
  "zstdDefaultLitLen =
     [4, 3, 2, 2, 2, 2, 2, 2, 2, 2, 2, 2, 2, 1, 1, 1,
      2, 2, 2, 2, 2, 2, 2, 2, 2, 3, 2, 1, 1, 1, 1, 1, -1, -1, -1, -1]"

definition zstdDefaultMatchLen :: "int list" where
  "zstdDefaultMatchLen =
     [1, 4, 3, 2, 2, 2, 2, 2, 2, 1, 1, 1, 1, 1, 1, 1,
      1, 1, 1, 1, 1, 1, 1, 1, 1, 1, 1, 1, 1, 1, 1, 1, 1, 1, 1, 1, 1, 1, 1, 1,
      1, 1, 1, 1, 1, 1, -1, -1, -1, -1, -1, -1, -1]"

definition zstdDefaultOffset :: "int list" where
  "zstdDefaultOffset =
     [1, 1, 1, 1, 1, 1, 2, 2, 2, 1, 1, 1, 1, 1, 1, 1,
      1, 1, 1, 1, 1, 1, 1, 1, -1, -1, -1, -1, -1]"

text \<open>The predefined tables; a malformed one panics when the program starts.\<close>

definition predefinedFSE :: "int list \<Rightarrow> nat \<Rightarrow> zstdFSETable codec" where
  "predefinedFSE counts accuracy =
     (case buildFSETable counts accuracy of Ret table \<Rightarrow> Ret table | _ \<Rightarrow> Panic)"

datatype sequence_code = LitLenCode | OffsetCode | MatchLenCode

fun predefinedTable :: "sequence_code \<Rightarrow> zstdFSETable codec" where
  "predefinedTable LitLenCode = predefinedFSE zstdDefaultLitLen 6"
| "predefinedTable OffsetCode = predefinedFSE zstdDefaultOffset 5"
| "predefinedTable MatchLenCode = predefinedFSE zstdDefaultMatchLen 6"

fun codeLimits :: "sequence_code \<Rightarrow> nat \<times> nat" where
  "codeLimits LitLenCode = (35, 9)"
| "codeLimits OffsetCode = (31, 8)"
| "codeLimits MatchLenCode = (52, 9)"

definition sequenceTable ::
    "nat \<Rightarrow> sequence_code \<Rightarrow> zstdFSETable option \<Rightarrow> zstdBitReader \<Rightarrow> (zstdFSETable \<times> zstdBitReader) codec" where
  "sequenceTable mode code previous forward =
     (if mode = 0 then chain (predefinedTable code) (\<lambda>table. Ret (table, forward))
      else if mode = 1
      then chain (readForward 8 forward) (\<lambda>(symbol, forward).
             if br_corrupt forward \<or> fst (codeLimits code) < symbol then Bad ZstdData
             else Ret (\<lparr>fse_log = 0, fse_symbol = [symbol], fse_numBits = [0], fse_newarr = [0]\<rparr>, forward))
      else if mode = 2
      then chain (readFSETable forward (fst (codeLimits code)) (snd (codeLimits code)))
             (\<lambda>(table, forward). Ret (table, alignForward forward))
      else case previous of None \<Rightarrow> Bad ZstdData | Some table \<Rightarrow> Ret (table, forward))"

text \<open>The three repeated offsets slide.\<close>

definition resolveOffset :: "nat \<Rightarrow> nat \<Rightarrow> zstdBlockDecoder \<Rightarrow> (nat \<times> zstdBlockDecoder) codec" where
  "resolveOffset v literalLength d =
     (case bd_repeat d of
        (r0, r1, r2) \<Rightarrow>
          if 3 < v then Ret (v - 3, d\<lparr>bd_repeat := (v - 3, r0, r1)\<rparr>)
          else let index = (if literalLength = 0 then v else v - 1) in
               if index = 0 then Ret (r0, d)
               else if index = 1 then Ret (r1, d\<lparr>bd_repeat := (r1, r0, r2)\<rparr>)
               else if index = 2 then Ret (r2, d\<lparr>bd_repeat := (r2, r0, r1)\<rparr>)
               else if index = 3
               then (if r0 - 1 < 1 then Bad ZstdData else Ret (r0 - 1, d\<lparr>bd_repeat := (r0 - 1, r0, r1)\<rparr>))
               else Bad ZstdData)"

text \<open>The tables, the three states and the stream of one block.\<close>

record sequenceCoder =
  sc_tables :: "zstdFSETable \<times> zstdFSETable \<times> zstdFSETable"
  sc_states :: "nat \<times> nat \<times> nat"
  sc_reader :: zstdBitReader

text \<open>One sequence: offset, match length and literal length, in the order of their extra bits.\<close>

definition readSequence :: "sequenceCoder \<Rightarrow> zstdBlockDecoder \<Rightarrow> (zstdSequence \<times> zstdBitReader \<times> zstdBlockDecoder) codec" where
  "readSequence sc d =
     (case (sc_tables sc, sc_states sc) of
        ((litLen, offset, match), (litState, offsetState, matchState)) \<Rightarrow>
          chain (lookup (fse_symbol offset) offsetState) (\<lambda>offsetCode.
          chain (lookup (fse_symbol match) matchState) (\<lambda>matchCode.
          chain (lookup (fse_symbol litLen) litState) (\<lambda>litCode.
            if 31 < offsetCode \<or> 52 < matchCode \<or> 35 < litCode then Bad ZstdData
            else chain (readBits offsetCode (sc_reader sc)) (\<lambda>(offsetBits, r).
                 chain (lookup zstdMatchLenExtra matchCode) (\<lambda>matchExtra.
                 chain (readBits matchExtra r) (\<lambda>(matchBits, r).
                 chain (lookup zstdMatchLenBaseline matchCode) (\<lambda>matchBase.
                 chain (lookup zstdLitLenExtra litCode) (\<lambda>litExtra.
                 chain (readBits litExtra r) (\<lambda>(litBits, r).
                 chain (lookup zstdLitLenBaseline litCode) (\<lambda>litBase.
                 chain (resolveOffset (2 ^ offsetCode + offsetBits) (litBase + litBits) d) (\<lambda>(dist, d).
                   Ret (\<lparr>sq_literalLength = litBase + litBits, sq_matchLength = matchBase + matchBits,
                         sq_offset = dist\<rparr>, r, d)))))))))))))"

definition advanceStates :: "sequenceCoder \<Rightarrow> zstdBitReader \<Rightarrow> sequenceCoder codec" where
  "advanceStates sc r =
     (case (sc_tables sc, sc_states sc) of
        ((litLen, offset, match), (litState, offsetState, matchState)) \<Rightarrow>
          chain (nextState litLen litState r) (\<lambda>(litState, r).
          chain (nextState match matchState r) (\<lambda>(matchState, r).
          chain (nextState offset offsetState r) (\<lambda>(offsetState, r).
            Ret (sc\<lparr>sc_states := (litState, offsetState, matchState), sc_reader := r\<rparr>)))))"

fun readSequences ::
    "nat \<Rightarrow> sequenceCoder \<Rightarrow> zstdBlockDecoder \<Rightarrow> (zstdSequence list \<times> zstdBlockDecoder) codec" where
  "readSequences 0 sc d = (if br_corrupt (sc_reader sc) then Bad ZstdData else Ret ([], d))"
| "readSequences (Suc n) sc d =
     (if br_corrupt (sc_reader sc) then Bad ZstdData
      else chain (readSequence sc d) (\<lambda>(sq, r, d).
        if n = 0 then (if br_corrupt r then Bad ZstdData else Ret ([sq], d))
        else chain (advanceStates sc r) (\<lambda>sc.
             chain (readSequences n sc d) (\<lambda>(sqs, d). Ret (sq # sqs, d)))))"

text \<open>The number of sequences and the bytes it takes; none of the errors below is reached when it is zero.\<close>

definition sequenceCount :: "bytes \<Rightarrow> (nat \<times> nat) codec" where
  "sequenceCount src =
     (let count = unat (src ! 0) in
      if count < 128 then Ret (count, 1)
      else if count < 255
      then (if length src < 2 then Bad ZstdData else Ret ((count - 128) * 256 + unat (src ! 1), 2))
      else (if length src < 3 then Bad ZstdData else Ret (unat (getU16 src 1) + 0x7f00, 3)))"

definition sequenceTables ::
    "nat \<Rightarrow> bytes \<Rightarrow> zstdBlockDecoder \<Rightarrow> (zstdBitReader \<times> zstdBlockDecoder) codec" where
  "sequenceTables modes src d =
     chain (sequenceTable (modes div 64 mod 4) LitLenCode (bd_litLen d) (forwardReader src)) (\<lambda>(litLen, forward).
     chain (sequenceTable (modes div 16 mod 4) OffsetCode (bd_offset d) forward) (\<lambda>(offset, forward).
     chain (sequenceTable (modes div 4 mod 4) MatchLenCode (bd_match d) forward) (\<lambda>(match, forward).
       Ret (forward, d\<lparr>bd_litLen := Some litLen, bd_offset := Some offset, bd_match := Some match\<rparr>))))"

definition startSequences :: "bytes \<Rightarrow> zstdBlockDecoder \<Rightarrow> sequenceCoder codec" where
  "startSequences src d =
     chain (newZstdBitReader src) (\<lambda>r.
       case (bd_litLen d, bd_offset d, bd_match d) of
         (Some litLen, Some offset, Some match) \<Rightarrow>
           chain (readBits (fse_log litLen) r) (\<lambda>(litState, r).
           chain (readBits (fse_log offset) r) (\<lambda>(offsetState, r).
           chain (readBits (fse_log match) r) (\<lambda>(matchState, r).
             Ret \<lparr>sc_tables = (litLen, offset, match), sc_states = (litState, offsetState, matchState),
                  sc_reader = r\<rparr>)))
       | _ \<Rightarrow> Panic)"

definition decodeSequences :: "bytes \<Rightarrow> zstdBlockDecoder \<Rightarrow> (zstdSequence list \<times> zstdBlockDecoder) codec" where
  "decodeSequences src d =
     (if src = [] \<or> src ! 0 = 0 then Ret ([], d)
      else chain (sequenceCount src) (\<lambda>(count, pos).
        if length src \<le> pos then Bad ZstdData
        else let modes = unat (src ! pos) in
             if modes mod 4 \<noteq> 0 then Bad ZstdData
             else chain (sequenceTables modes (drop (pos + 1) src) d) (\<lambda>(forward, d).
                    let consumed = (br_forwardPos forward + 7) div 8 in
                    if length src < pos + 1 + consumed then Bad ZstdData
                    else chain (startSequences (drop (pos + 1 + consumed) src) d) (\<lambda>sc.
                           readSequences count sc d))))"

section \<open>Execution\<close>

text \<open>The literals not used yet, and the window; \<open>start\<close> is where the history of the frame begins.\<close>

fun execute :: "bytes \<Rightarrow> zstdSequence list \<Rightarrow> bytes \<Rightarrow> nat \<Rightarrow> bytes codec" where
  "execute literals [] window start = Ret (window @ literals)"
| "execute literals (sq # sqs) window start =
     (if length literals < sq_literalLength sq then Bad ZstdData
      else let out = window @ take (sq_literalLength sq) literals in
           if sq_offset sq = 0 \<or> int (length out) - int start < int (sq_offset sq) then Bad ZstdData
           else if length out < sq_offset sq then Panic
           else case copyMatch (sq_matchLength sq) (length out - sq_offset sq) out of
                  None \<Rightarrow> Panic
                | Some out \<Rightarrow> execute (drop (sq_literalLength sq) literals) sqs out start)"

definition decodeBlock ::
    "bytes \<Rightarrow> bytes \<Rightarrow> nat \<Rightarrow> zstdBlockDecoder \<Rightarrow> (bytes \<times> zstdBlockDecoder) codec" where
  "decodeBlock src window start d =
     chain (decodeLiterals src d) (\<lambda>(literals, used, d).
       if length src < used then Panic
       else chain (decodeSequences (drop used src) d) (\<lambda>(sqs, d).
            chain (execute literals sqs window start) (\<lambda>out. Ret (out, d))))"

end
