(* ===== verification/Xxh64.thy ===== *)
theory Xxh64
  imports ByteCodec
begin

text \<open>
  The hash of \<open>xxhash64.go\<close> over data that comes in pieces.  \<open>xx_buf\<close> is \<open>buf[:buffered]\<close>.  The last
  part shows that the pieces do not matter.
\<close>

definition xxh64Prime1 :: u64 where "xxh64Prime1 = 0x9e3779b185ebca87"
definition xxh64Prime2 :: u64 where "xxh64Prime2 = 0xc2b2ae3d27d4eb4f"
definition xxh64Prime3 :: u64 where "xxh64Prime3 = 0x165667b19e3779f9"
definition xxh64Prime4 :: u64 where "xxh64Prime4 = 0x85ebca77c2b2ae63"
definition xxh64Prime5 :: u64 where "xxh64Prime5 = 0x27d4eb2f165667c5"

record xxh64 =
  xx_v1 :: u64
  xx_v2 :: u64
  xx_v3 :: u64
  xx_v4 :: u64
  xx_buf :: bytes
  xx_total :: u64

definition newXXH64 :: xxh64 where
  "newXXH64 =
     \<lparr>xx_v1 = xxh64Prime1 + xxh64Prime2, xx_v2 = xxh64Prime2, xx_v3 = 0, xx_v4 = - xxh64Prime1,
      xx_buf = [], xx_total = 0\<rparr>"

definition xxh64Round :: "u64 \<Rightarrow> u64 \<Rightarrow> u64" where
  "xxh64Round acc input = word_rotl 31 (acc + input * xxh64Prime2) * xxh64Prime1"

definition xxh64MergeRound :: "u64 \<Rightarrow> u64 \<Rightarrow> u64" where
  "xxh64MergeRound acc v = (acc XOR xxh64Round 0 v) * xxh64Prime1 + xxh64Prime4"

definition consume :: "bytes \<Rightarrow> xxh64 \<Rightarrow> xxh64" where
  "consume stripe h =
     h\<lparr>xx_v1 := xxh64Round (xx_v1 h) (getU64 stripe 0), xx_v2 := xxh64Round (xx_v2 h) (getU64 stripe 8),
       xx_v3 := xxh64Round (xx_v3 h) (getU64 stripe 16), xx_v4 := xxh64Round (xx_v4 h) (getU64 stripe 24)\<rparr>"

text \<open>Whole stripes; what is left of the data is kept.\<close>

function consumeStripes :: "bytes \<Rightarrow> xxh64 \<Rightarrow> xxh64" where
  "consumeStripes data h =
     (if 32 \<le> length data then consumeStripes (drop 32 data) (consume (take 32 data) h)
      else h\<lparr>xx_buf := data\<rparr>)"
  by pat_completeness auto
termination
  by (relation "measure (\<lambda>(data, h). length data)") auto

declare consumeStripes.simps [simp del]

definition xxWrite :: "bytes \<Rightarrow> xxh64 \<Rightarrow> xxh64" where
  "xxWrite data h0 =
     (let h = h0\<lparr>xx_total := xx_total h0 + of_nat (length data)\<rparr> in
      if xx_buf h \<noteq> []
      then let n = min (32 - length (xx_buf h)) (length data);
               pending = xx_buf h @ take n data
           in if length pending < 32 then h\<lparr>xx_buf := pending\<rparr>
              else consumeStripes (drop n data) (consume pending h\<lparr>xx_buf := []\<rparr>)
      else consumeStripes data h)"

function tailWords :: "u64 \<Rightarrow> bytes \<Rightarrow> u64 \<times> bytes" where
  "tailWords acc rest =
     (if 8 \<le> length rest
      then tailWords (word_rotl 27 (acc XOR xxh64Round 0 (getU64 rest 0)) * xxh64Prime1 + xxh64Prime4) (drop 8 rest)
      else (acc, rest))"
  by pat_completeness auto
termination
  by (relation "measure (\<lambda>(acc, rest). length rest)") auto

declare tailWords.simps [simp del]

definition tailHalf :: "u64 \<Rightarrow> bytes \<Rightarrow> u64 \<times> bytes" where
  "tailHalf acc rest =
     (if 4 \<le> length rest
      then (word_rotl 23 (acc XOR ucast (getU32 rest 0) * xxh64Prime1) * xxh64Prime2 + xxh64Prime3, drop 4 rest)
      else (acc, rest))"

definition tailByte :: "u64 \<Rightarrow> u8 \<Rightarrow> u64" where
  "tailByte acc b = word_rotl 11 (acc XOR ucast b * xxh64Prime5) * xxh64Prime1"

definition avalanche :: "u64 \<Rightarrow> u64" where
  "avalanche acc0 =
     (let acc = (acc0 XOR drop_bit 33 acc0) * xxh64Prime2;
          acc = (acc XOR drop_bit 29 acc) * xxh64Prime3
      in acc XOR drop_bit 32 acc)"

definition stripesSum :: "xxh64 \<Rightarrow> u64" where
  "stripesSum h =
     xxh64MergeRound (xxh64MergeRound (xxh64MergeRound (xxh64MergeRound
       (word_rotl 1 (xx_v1 h) + word_rotl 7 (xx_v2 h) + word_rotl 12 (xx_v3 h) + word_rotl 18 (xx_v4 h))
       (xx_v1 h)) (xx_v2 h)) (xx_v3 h)) (xx_v4 h)"

definition sum64 :: "xxh64 \<Rightarrow> u64" where
  "sum64 h =
     (case tailWords ((if 32 \<le> xx_total h then stripesSum h else xxh64Prime5) + xx_total h) (xx_buf h) of
        (acc, rest) \<Rightarrow>
          (case tailHalf acc rest of
             (acc, rest) \<Rightarrow> avalanche (foldl tailByte acc rest)))"

section \<open>The pieces do not matter\<close>

definition xxOk :: "xxh64 \<Rightarrow> bool" where
  "xxOk h \<longleftrightarrow> length (xx_buf h) < 32"

lemma consume_frame [simp]:
  "xx_buf (consume s h) = xx_buf h" "xx_total (consume s h) = xx_total h"
  "consume s (h\<lparr>xx_buf := b\<rparr>) = (consume s h)\<lparr>xx_buf := b\<rparr>"
  "consume s (h\<lparr>xx_total := t\<rparr>) = (consume s h)\<lparr>xx_total := t\<rparr>"
  by (simp_all add: consume_def)

lemma consumeStripes_less: "length data < 32 \<Longrightarrow> consumeStripes data h = h\<lparr>xx_buf := data\<rparr>"
  by (subst consumeStripes.simps) simp

lemma consumeStripes_more:
  "32 \<le> length data \<Longrightarrow> consumeStripes data h = consumeStripes (drop 32 data) (consume (take 32 data) h)"
  by (subst consumeStripes.simps) simp

lemma consumeStripes_buf: "consumeStripes data (h\<lparr>xx_buf := b\<rparr>) = consumeStripes data h"
proof (induction "length data" arbitrary: data h rule: less_induct)
  case less
  show ?case
  proof (cases "32 \<le> length data")
    case True
    then have "length (drop 32 data) < length data" by simp
    from less.hyps [OF this, of "consume (take 32 data) h"] show ?thesis
      using consumeStripes_more [OF True] by (simp only: consume_frame)
  qed (simp add: consumeStripes_less)
qed

lemma consumeStripes_total:
  "consumeStripes data (h\<lparr>xx_total := t\<rparr>) = (consumeStripes data h)\<lparr>xx_total := t\<rparr> \<and>
   xx_total (consumeStripes data h) = xx_total h \<and> length (xx_buf (consumeStripes data h)) < 32"
proof (induction data h rule: consumeStripes.induct)
  case (1 data h)
  show ?case
  proof (cases "32 \<le> length data")
    case True
    from "1.IH" [OF True] show ?thesis
      by (simp only: consumeStripes_more [OF True] consume_frame)
  qed (simp add: consumeStripes_less)
qed

lemmas consumeStripes_frame =
  consumeStripes_buf consumeStripes_total [THEN conjunct1]
  consumeStripes_total [THEN conjunct2, THEN conjunct1] consumeStripes_total [THEN conjunct2, THEN conjunct2]

text \<open>Writing is consuming the stripes of what was kept and of the data.\<close>

lemma xxWrite_eq:
  assumes "xxOk h"
  shows "xxWrite data h =
    consumeStripes (xx_buf h @ data) (h\<lparr>xx_total := xx_total h + of_nat (length data)\<rparr>)"
proof (cases "length (xx_buf h) + length data < 32")
  case True
  then show ?thesis by (auto simp: xxWrite_def consumeStripes_less Let_def min_def)
next
  case False
  let ?n = "32 - length (xx_buf h)"
  have n: "min ?n (length data) = ?n" "length (xx_buf h @ take ?n data) = 32" "?n \<le> length data"
    using False assms by (auto simp: xxOk_def)
  have "take 32 (xx_buf h @ data) = xx_buf h @ take ?n data" "drop 32 (xx_buf h @ data) = drop ?n data"
    using assms by (simp_all add: xxOk_def)
  then show ?thesis
    using False n by (auto simp: xxWrite_def consumeStripes_more consumeStripes_frame Let_def)
qed

lemma consumeStripes_append:
  "consumeStripes (xx_buf (consumeStripes data h) @ data2) (consumeStripes data h) = consumeStripes (data @ data2) h"
proof (induction data h rule: consumeStripes.induct)
  case (1 data h)
  show ?case
  proof (cases "32 \<le> length data")
    case True
    then have "32 \<le> length (data @ data2)" "take 32 (data @ data2) = take 32 data"
      "drop 32 (data @ data2) = drop 32 data @ data2" by simp_all
    with "1.IH" [OF True] show ?thesis by (simp only: consumeStripes_more [OF True] consumeStripes_more)
  next
    case False
    then show ?thesis by (simp add: consumeStripes_less consumeStripes_buf)
  qed
qed

lemma xxWrite_ok: "xxOk h \<Longrightarrow> xxOk (xxWrite data h)"
  by (simp add: xxWrite_eq xxOk_def consumeStripes_frame)

lemma xxWrite_xxWrite: "xxOk h \<Longrightarrow> xxWrite data2 (xxWrite data h) = xxWrite (data @ data2) h"
  using xxWrite_ok [of h data]
  by (simp add: xxWrite_eq consumeStripes_frame consumeStripes_append add.assoc flip: append_assoc)

end
