(* ===== verification/ZstdFrame.thy ===== *)
theory ZstdFrame
  imports ZstdBlock Xxh64
begin

text \<open>
  Zstandard frames of \<open>zstd_raw.go\<close>: the writer of raw and run-length blocks, and the reader of frames of
  all block types one after another.  The output of the writer is the list of bytes written so far;
  writing to the underlying stream never fails here.
\<close>

section \<open>The writer\<close>

definition zstdFrameMagic :: bytes where
  "zstdFrameMagic = [0x28, 0xb5, 0x2f, 0xfd]"

definition zstdRawBlockSize :: nat where
  "zstdRawBlockSize = 2 ^ 17"

record zstdWriter =
  zw_output :: bytes
  zw_block :: bytes
  zw_closed :: bool

definition newZstdWriter :: zstdWriter where
  "newZstdWriter = \<lparr>zw_output = zstdFrameMagic @ [0, 0x38], zw_block = [], zw_closed = False\<rparr>"

definition zstdUniform :: "bytes \<Rightarrow> bool" where
  "zstdUniform data \<longleftrightarrow> (\<forall>v \<in> set (drop 1 data). v = hd data)"

definition blockHeader :: "nat \<Rightarrow> nat \<Rightarrow> bool \<Rightarrow> bytes" where
  "blockHeader n blockType final =
     (let header = push_bit 3 (of_nat n :: u32) OR push_bit 1 (of_nat blockType);
          header = (if final then header OR 1 else header)
      in [ucast (header AND 0xff), ucast (drop_bit 8 header AND 0xff), ucast (drop_bit 16 header AND 0xff)])"

definition writeBlock :: "bytes \<Rightarrow> bool \<Rightarrow> zstdWriter \<Rightarrow> zstdWriter codec" where
  "writeBlock data final w =
     (if zstdRawBlockSize < length data then Bad ZstdBlockLimit
      else if data \<noteq> [] \<and> zstdUniform data
      then Ret (w\<lparr>zw_output := zw_output w @ blockHeader (length data) 1 final @ take 1 data\<rparr>)
      else Ret (w\<lparr>zw_output := zw_output w @ blockHeader (length data) 0 final @ data\<rparr>))"

text \<open>As much of the data as the block has room for.\<close>

definition fillBlock :: "bytes \<Rightarrow> zstdWriter \<Rightarrow> bytes \<times> zstdWriter" where
  "fillBlock data w =
     (let amount = min (zstdRawBlockSize - length (zw_block w)) (length data)
      in (drop amount data, w\<lparr>zw_block := zw_block w @ take amount data\<rparr>))"

definition blockFull :: "zstdWriter \<Rightarrow> bool" where
  "blockFull w \<longleftrightarrow> length (zw_block w) = zstdRawBlockSize"

text \<open>Either data was taken or the block was full before.\<close>

lemma fillBlock_less:
  assumes "fillBlock data w = (rest, w')" "data \<noteq> []" "length (zw_block w) \<le> zstdRawBlockSize"
  shows "length rest < length data \<and> \<not> blockFull w \<or> rest = data \<and> blockFull w \<and> blockFull w'"
  using assms by (cases "length (zw_block w) = zstdRawBlockSize") (auto simp: fillBlock_def blockFull_def Let_def)

text \<open>A full block is written when more data follows.  The first branch is the slice with a negative
  bound.\<close>

function writeData :: "bytes \<Rightarrow> zstdWriter \<Rightarrow> zstdWriter codec" where
  "writeData data w =
     (if data = [] then Ret w
      else if zstdRawBlockSize < length (zw_block w) then Panic
      else case fillBlock data w of
             (rest, w) \<Rightarrow>
               if blockFull w \<and> rest \<noteq> []
               then chain (writeBlock (zw_block w) False w) (\<lambda>w. writeData rest (w\<lparr>zw_block := []\<rparr>))
               else writeData rest w)"
  by pat_completeness auto
termination
proof (relation "measure (\<lambda>(data, w). 2 * length data + (if blockFull w then 1 else 0))")
  show "wf (measure (\<lambda>(data :: bytes, w). 2 * length data + (if blockFull w then 1 else (0 :: nat))))" by simp
  fix data w rest w' v
  assume a: "data \<noteq> []" "\<not> zstdRawBlockSize < length (zw_block w)" "(rest, w') = fillBlock data w"
  then have f: "fillBlock data w = (rest, w')" "length (zw_block w) \<le> zstdRawBlockSize" by simp_all
  note less = fillBlock_less [OF f(1) a(1) f(2)]
  have "\<not> blockFull (v\<lparr>zw_block := []\<rparr>)" by (simp add: blockFull_def zstdRawBlockSize_def)
  with less show "((rest, v\<lparr>zw_block := []\<rparr>), data, w)
      \<in> measure (\<lambda>(data, w). 2 * length data + (if blockFull w then 1 else 0))" by auto
  assume "\<not> (blockFull w' \<and> rest \<noteq> [])"
  with less a(1) show "((rest, w'), data, w) \<in> measure (\<lambda>(data, w). 2 * length data + (if blockFull w then 1 else 0))"
    by (cases data) auto
qed

declare writeData.simps [simp del]

definition zstdWrite :: "bytes \<Rightarrow> zstdWriter \<Rightarrow> zstdWriter codec" where
  "zstdWrite data w = (if zw_closed w then Bad WriteClosed else writeData data w)"

definition zstdClose :: "zstdWriter \<Rightarrow> zstdWriter codec" where
  "zstdClose w = (if zw_closed w then Ret w else writeBlock (zw_block w) True (w\<lparr>zw_closed := True\<rparr>))"

primrec zstdWriteAll :: "bytes list \<Rightarrow> zstdWriter \<Rightarrow> zstdWriter codec" where
  "zstdWriteAll [] w = Ret w"
| "zstdWriteAll (data # ds) w = chain (zstdWrite data w) (zstdWriteAll ds)"

definition zstdCompress :: "bytes list \<Rightarrow> bytes codec" where
  "zstdCompress ds = chain (zstdWriteAll ds newZstdWriter) (\<lambda>w. chain (zstdClose w) (\<lambda>w. Ret (zw_output w)))"

section \<open>The reader\<close>

record zstdReader =
  zr_input :: bytes
  zr_dec :: zstdBlockDecoder
  zr_window :: bytes
  zr_frameAt :: nat
  zr_consumed :: nat
  zr_winSize :: nat
  zr_checksum :: bool
  zr_digest :: xxh64
  zr_finished :: bool

text \<open>The magic number after any skippable frames; only here an exhausted input is the end of the stream.\<close>

function skipToFrame :: "bytes \<Rightarrow> bytes codec" where
  "skipToFrame input =
     (if input = [] then Bad EndOfInput
      else chain (readFull 4 input) (\<lambda>(magic, rest).
        if getU32 magic 0 AND 0xfffffff0 = 0x184d2a50
        then chain (readFull 4 rest) (\<lambda>(len, rest).
             chain (discard (unat (getU32 len 0)) rest) skipToFrame)
        else if magic \<noteq> zstdFrameMagic then Bad ZstdNotFrame
        else Ret rest))"
  by pat_completeness auto
termination
  by (relation "measure length") (auto simp: readFull_Ret discard_Ret)

declare skipToFrame.simps [simp del]

definition windowDescriptor :: "u8 \<Rightarrow> nat codec" where
  "windowDescriptor b =
     (let exponent = unat (drop_bit 3 b) + 10;
          mantissa = unat (b AND 0x07)
      in if 40 < exponent then Bad ZstdWindowSize
         else Ret (2 ^ exponent + 2 ^ exponent div 8 * mantissa))"

definition dictionaryField :: "u8 \<Rightarrow> bytes \<Rightarrow> bytes codec" where
  "dictionaryField descriptor input =
     (let n = [0, 1, 2, 4] ! unat (descriptor AND 0x03) in
      chain (readFull n input) (\<lambda>(field, input).
        if leNat field \<noteq> 0 then Bad ZstdDictionary else Ret input))"

definition contentField :: "u8 \<Rightarrow> bytes \<Rightarrow> (nat \<times> bytes) codec" where
  "contentField descriptor input =
     (let kind = unat (drop_bit 6 descriptor);
          n = (if kind = 0 then (if descriptor AND 0x20 \<noteq> 0 then 1 else 0)
               else if kind = 1 then 2 else if kind = 2 then 4 else 8)
      in chain (readFull n input) (\<lambda>(field, input).
           Ret ((if n = 2 then leNat field + 256 else leNat field), input)))"

definition windowField :: "u8 \<Rightarrow> bytes \<Rightarrow> (nat \<times> bytes) codec" where
  "windowField descriptor input =
     (if descriptor AND 0x20 \<noteq> 0 then Ret (0, input)
      else chain (readByte input) (\<lambda>(b, input). chain (windowDescriptor b) (\<lambda>n. Ret (n, input))))"

definition readFrameHeader :: "zstdReader \<Rightarrow> zstdReader codec" where
  "readFrameHeader z =
     chain (skipToFrame (zr_input z)) (\<lambda>input.
     chain (readByte input) (\<lambda>(descriptor, input).
       if descriptor AND 0x08 \<noteq> 0 then Bad ZstdFrameHeader
       else chain (windowField descriptor input) (\<lambda>(windowSize, input).
            chain (dictionaryField descriptor input) (\<lambda>input.
            chain (contentField descriptor input) (\<lambda>(contentSize, input).
              let windowSize = (if descriptor AND 0x20 \<noteq> 0 then min contentSize (2 ^ 31) else windowSize) in
              Ret (z\<lparr>zr_input := input, zr_checksum := descriptor AND 0x04 \<noteq> 0,
                     zr_winSize := (if windowSize < 1024 then 1024 else windowSize),
                     zr_dec := newZstdBlockDecoder, zr_frameAt := length (zr_window z),
                     zr_digest := newXXH64\<rparr>))))))"

definition compactWindow :: "zstdReader \<Rightarrow> zstdReader" where
  "compactWindow z =
     (let keep = zr_winSize z;
          n = min (length (zr_window z) - keep) (zr_consumed z)
      in if length (zr_window z) \<le> keep then z
         else if n < 2 ^ 20 then z
         else z\<lparr>zr_window := drop n (zr_window z), zr_consumed := zr_consumed z - n,
                zr_frameAt := zr_frameAt z - n\<rparr>)"

definition verifyChecksum :: "zstdReader \<Rightarrow> zstdReader codec" where
  "verifyChecksum z =
     (if zr_checksum z
      then chain (readFull 4 (zr_input z)) (\<lambda>(stored, input).
             if getU32 stored 0 \<noteq> ucast (sum64 (zr_digest z) AND 0xffffffff) then Bad ZstdChecksum
             else Ret (z\<lparr>zr_input := input\<rparr>))
      else Ret z)"

text \<open>The next frame, or the end; skippable frames at the end of the input are fine.\<close>

definition nextFrame :: "zstdReader \<Rightarrow> zstdReader codec" where
  "nextFrame z =
     (if zr_input z = [] then Ret (z\<lparr>zr_finished := True\<rparr>)
      else case readFrameHeader z of
             Bad e \<Rightarrow> if e = EndOfInput then Ret (z\<lparr>zr_input := [], zr_finished := True\<rparr>) else Bad e
           | result \<Rightarrow> result)"

definition finishFrame :: "zstdReader \<Rightarrow> zstdReader codec" where
  "finishFrame z = chain (verifyChecksum z) nextFrame"

text \<open>The contents of one block, behind the window.\<close>

definition blockBody :: "nat \<Rightarrow> nat \<Rightarrow> zstdReader \<Rightarrow> zstdReader codec" where
  "blockBody blockType n z =
     (if blockType = 0
      then chain (readFull n (zr_input z)) (\<lambda>(data, input).
             Ret (z\<lparr>zr_input := input, zr_window := zr_window z @ data\<rparr>))
      else if blockType = 1
      then chain (readByte (zr_input z)) (\<lambda>(b, input).
             Ret (z\<lparr>zr_input := input, zr_window := zr_window z @ replicate n b\<rparr>))
      else if blockType = 2
      then chain (readFull n (zr_input z)) (\<lambda>(body, input).
           chain (decodeBlock body (zr_window z) (zr_frameAt z) (zr_dec z)) (\<lambda>(expanded, dec).
             Ret (z\<lparr>zr_input := input, zr_window := expanded, zr_dec := dec\<rparr>)))
      else Bad ZstdBlockType)"

definition readBlock :: "zstdReader \<Rightarrow> zstdReader codec" where
  "readBlock z =
     chain (readFull 3 (zr_input z)) (\<lambda>(header, input).
       let v = leNat header;
           n = v div 8;
           produced = length (zr_window z)
       in if 2 ^ 17 < n then Bad ZstdData
          else chain (blockBody (v div 2 mod 4) n (z\<lparr>zr_input := input\<rparr>)) (\<lambda>z.
                 let z = z\<lparr>zr_digest := xxWrite (drop produced (zr_window z)) (zr_digest z)\<rparr> in
                 if v mod 2 = 0 then Ret z else finishFrame z))"

subsection \<open>Every block takes input\<close>

lemma skipToFrame_shorter: "skipToFrame input = Ret input' \<Longrightarrow> length input' < length input"
proof (induction input rule: skipToFrame.induct)
  case (1 input)
  let ?rest = "\<lambda>(magic, rest). if getU32 magic 0 AND 0xfffffff0 = 0x184d2a50
        then chain (readFull 4 rest) (\<lambda>(len, rest). chain (discard (unat (getU32 len 0)) rest) skipToFrame)
        else if magic \<noteq> zstdFrameMagic then Bad ZstdNotFrame else Ret rest"
  have ne: "input \<noteq> []" using "1.prems" by (auto simp: skipToFrame.simps [of "[]"])
  then have "skipToFrame input = chain (readFull 4 input) ?rest" unfolding skipToFrame.simps [of input] by (simp only: if_False)
  then have "chain (readFull 4 input) ?rest = Ret input'" using "1.prems" by (simp only:)
  then obtain p where p: "readFull 4 input = Ret p" "?rest p = Ret input'"
    unfolding chain_Ret by (elim exE conjE) (rule that)
  obtain magic rest where "p = (magic, rest)" by (cases p)
  with p have "readFull 4 input = Ret (magic, rest)" and r: "?rest (magic, rest) = Ret input'" by (simp_all only:)
  then have m: "input \<noteq> []" "input = magic @ rest" "length magic = 4" using ne by (simp_all add: readFull_Ret)
  show ?case
  proof (cases "getU32 magic 0 AND 0xfffffff0 = 0x184d2a50")
    case True
    with r obtain len tl tl2 where t: "readFull 4 rest = Ret (len, tl)" "discard (unat (getU32 len 0)) tl = Ret tl2"
        "skipToFrame tl2 = Ret input'" by (simp add: chain_Ret) blast
    have "length input' < length tl2"
      by (rule "1.IH" [of "(magic, rest)"]) (use m t True in \<open>auto simp: readFull_Ret\<close>)
    with t m show ?thesis by (auto simp: readFull_Ret discard_Ret)
  next
    case False
    with r m show ?thesis by (auto split: if_splits)
  qed
qed

lemma readFrameHeader_shorter:
  assumes "readFrameHeader z = Ret z'"
  shows "length (zr_input z') < length (zr_input z) \<and> zr_window z' = zr_window z \<and>
    zr_consumed z' = zr_consumed z \<and> zr_finished z' = zr_finished z"
proof -
  from assms obtain i d i1 w i2 i3 c where s: "skipToFrame (zr_input z) = Ret i" "readByte i = Ret (d, i1)"
      "windowField d i1 = Ret (w, i2)" "dictionaryField d i2 = Ret i3" "contentField d i3 = Ret (c, zr_input z')"
      "zr_window z' = zr_window z \<and> zr_consumed z' = zr_consumed z \<and> zr_finished z' = zr_finished z"
    by (auto simp: readFrameHeader_def chain_Ret Let_def split: if_splits)
  have "length i2 \<le> length i1" using s(3) by (auto simp: windowField_def chain_Ret readByte_Ret split: if_splits)
  moreover have "length i3 \<le> length i2" using s(4) by (auto simp: dictionaryField_def chain_Ret readFull_Ret Let_def split: if_splits)
  moreover have "length (zr_input z') \<le> length i3" using s(5) by (auto simp: contentField_def chain_Ret readFull_Ret Let_def)
  ultimately show ?thesis using s(2,6) skipToFrame_shorter [OF s(1)] by (auto simp: readByte_Ret)
qed

lemma nextFrame_shorter:
  "nextFrame z = Ret z' \<Longrightarrow> length (zr_input z') \<le> length (zr_input z) \<and> zr_window z' = zr_window z \<and>
     zr_consumed z' = zr_consumed z"
  by (auto simp: nextFrame_def split: if_splits codec.splits dest!: readFrameHeader_shorter)

lemma verifyChecksum_shorter:
  "verifyChecksum z = Ret z' \<Longrightarrow> length (zr_input z') \<le> length (zr_input z) \<and> zr_window z' = zr_window z \<and>
     zr_consumed z' = zr_consumed z"
  by (auto simp: verifyChecksum_def chain_Ret readFull_Ret split: if_splits)

lemma finishFrame_shorter:
  "finishFrame z = Ret z' \<Longrightarrow> length (zr_input z') \<le> length (zr_input z) \<and> zr_window z' = zr_window z \<and>
     zr_consumed z' = zr_consumed z"
  by (fastforce simp: finishFrame_def chain_Ret dest!: nextFrame_shorter verifyChecksum_shorter)

lemma blockBody_shorter:
  "blockBody t n z = Ret z' \<Longrightarrow> length (zr_input z') \<le> length (zr_input z) \<and> zr_consumed z' = zr_consumed z"
  by (auto simp: blockBody_def chain_Ret readFull_Ret readByte_Ret split: if_splits)

lemma readBlock_shorter:
  assumes "readBlock z = Ret z'"
  shows "length (zr_input z') < length (zr_input z)"
proof -
  from assms obtain header input y where h: "zr_input z = header @ input" "length header = 3"
      and y: "blockBody (leNat header div 2 mod 4) (leNat header div 8) (z\<lparr>zr_input := input\<rparr>) = Ret y"
      and r: "(if leNat header mod 2 = 0
         then Ret (y\<lparr>zr_digest := xxWrite (drop (length (zr_window z)) (zr_window y)) (zr_digest y)\<rparr>)
         else finishFrame (y\<lparr>zr_digest := xxWrite (drop (length (zr_window z)) (zr_window y)) (zr_digest y)\<rparr>)) = Ret z'"
    by (auto simp: readBlock_def chain_Ret readFull_Ret Let_def split: if_splits)
  have "length (zr_input z') \<le> length (zr_input y)" using r by (auto split: if_splits dest!: finishFrame_shorter)
  with blockBody_shorter [OF y] h show ?thesis by simp
qed

lemma compactWindow_frame [simp]: "zr_input (compactWindow z) = zr_input z"
  "zr_finished (compactWindow z) = zr_finished z"
  by (simp_all add: compactWindow_def Let_def)

text \<open>The loop of \<open>Read\<close> until there is something to return; false is the end of the stream.\<close>

function fillWindow :: "zstdReader \<Rightarrow> (bool \<times> zstdReader) codec" where
  "fillWindow z =
     (if zr_consumed z \<noteq> length (zr_window z) then Ret (True, z)
      else if zr_finished z then Ret (False, z)
      else chain (readBlock (compactWindow z)) fillWindow)"
  by pat_completeness auto
termination
  by (relation "measure (\<lambda>z. length (zr_input z))") (auto dest: readBlock_shorter)

declare fillWindow.simps [simp del]

text \<open>A call of \<open>Read\<close> with a buffer of \<open>n + 1\<close> bytes; \<open>None\<close> is the end of the stream.\<close>

definition zstdRead :: "nat \<Rightarrow> zstdReader \<Rightarrow> (bytes option \<times> zstdReader) codec" where
  "zstdRead n z =
     chain (fillWindow z) (\<lambda>(ready, z).
       if \<not> ready then Ret (None, z)
       else if length (zr_window z) < zr_consumed z then Panic
       else let out = take (n + 1) (drop (zr_consumed z) (zr_window z)) in
            Ret (Some out, z\<lparr>zr_consumed := zr_consumed z + length out\<rparr>))"

lemma fillWindow_shorter:
  "fillWindow z = Ret (ready, z') \<Longrightarrow> (length (zr_input z') < length (zr_input z) \<or> z' = z) \<and>
     (ready \<longrightarrow> zr_consumed z' \<noteq> length (zr_window z'))"
proof (induction z rule: fillWindow.induct)
  case (1 z)
  show ?case
  proof (cases "zr_consumed z \<noteq> length (zr_window z) \<or> zr_finished z")
    case True
    with "1.prems" show ?thesis by (subst (asm) fillWindow.simps) (auto split: if_splits)
  next
    case False
    with "1.prems" obtain y where y: "readBlock (compactWindow z) = Ret y" "fillWindow y = Ret (ready, z')"
      by (subst (asm) fillWindow.simps) (auto simp: chain_Ret)
    from "1.IH" [of y] y readBlock_shorter [OF y(1)] False show ?thesis by auto
  qed
qed

lemma zstdRead_shorter:
  assumes "zstdRead n z = Ret (Some out, z')"
  shows "length (zr_input z') < length (zr_input z) \<or>
    length (zr_input z') = length (zr_input z) \<and>
    length (zr_window z') - zr_consumed z' < length (zr_window z) - zr_consumed z"
proof -
  from assms obtain y where y: "fillWindow z = Ret (True, y)" and r: "\<not> length (zr_window y) < zr_consumed y"
      "z' = y\<lparr>zr_consumed := zr_consumed y + length (take (n + 1) (drop (zr_consumed y) (zr_window y)))\<rparr>"
    by (auto simp: zstdRead_def chain_Ret Let_def split: if_splits)
  from fillWindow_shorter [OF y] r show ?thesis by auto
qed

text \<open>\<open>io.Copy\<close> from the reader.\<close>

function zstdDrain :: "nat \<Rightarrow> zstdReader \<Rightarrow> bytes codec" where
  "zstdDrain n z =
     chain (zstdRead n z) (\<lambda>(result, z).
       case result of
         None \<Rightarrow> Ret []
       | Some out \<Rightarrow> chain (zstdDrain n z) (\<lambda>outs. Ret (out @ outs)))"
  by pat_completeness auto
termination
  by (relation "inv_image (less_than <*lex*> less_than)
        (\<lambda>(n, z). (length (zr_input z), length (zr_window z) - zr_consumed z))")
    (auto dest: zstdRead_shorter)

declare zstdDrain.simps [simp del]

definition newZstdReader :: "bytes \<Rightarrow> zstdReader codec" where
  "newZstdReader input =
     readFrameHeader \<lparr>zr_input = input, zr_dec = newZstdBlockDecoder, zr_window = [], zr_frameAt = 0,
       zr_consumed = 0, zr_winSize = 0, zr_checksum = False, zr_digest = newXXH64, zr_finished = False\<rparr>"

definition zstdDecompress :: "nat \<Rightarrow> bytes \<Rightarrow> bytes codec" where
  "zstdDecompress n input = chain (newZstdReader input) (zstdDrain n)"

end
