(* ===== verification/ZstdSafe.thy ===== *)
theory ZstdSafe
  imports ZstdFrame "HOL-Library.Sublist"
begin

text \<open>
  No input makes the decoder of \<open>zstd_decode.go\<close> and \<open>zstd_raw.go\<close> panic, with one exception that is
  exhibited at the end: a list of Huffman weights with its own entropy code can hold 257 weights, and
  the array for them has 256.  The invariants: a bit reader stays below the end of its data, the state
  tables lead from states to states, the walk that fills a table ends because its step is odd, and the
  history of a frame lies within the window.
\<close>

section \<open>Bits and state tables\<close>

lemma bitsFrom_spec: "(\<forall>k < b. 2 ^ k \<le> n) \<Longrightarrow> n < 2 ^ bitsFrom b n \<and> (\<forall>k < bitsFrom b n. 2 ^ k \<le> n)"
proof (induction b n rule: bitsFrom.induct)
  case (1 b n)
  show ?case
  proof (cases "2 ^ b \<le> n")
    case True
    have "\<forall>k < b + 1. 2 ^ k \<le> n" using "1.prems" True by (auto simp: less_Suc_eq)
    from "1.IH" [OF True this] True show ?thesis by (simp add: bitsFrom.simps [of b])
  next
    case False
    with "1.prems" show ?thesis by (simp add: bitsFrom.simps [of b])
  qed
qed

lemma bitsFor_upper: "n < 2 ^ bitsFor n"
  using bitsFrom_spec [of 0 n] by (simp add: bitsFor_def)

lemma bitsFor_lower: "0 < n \<Longrightarrow> 2 ^ (bitsFor n - 1) \<le> n \<and> 0 < bitsFor n"
  using bitsFrom_spec [of 0 n] by (cases "bitsFor n") (auto simp: bitsFor_def)

text \<open>Bits.\<close>

lemma bitAt_ok: "pos < int (length data) * 8 \<Longrightarrow> codecOk (\<lambda>b. b \<le> 1) (bitAt data pos)"
  by (auto simp: bitAt_def lookup_def and_one_eq unat_mod)

definition brOk :: "zstdBitReader \<Rightarrow> bool" where
  "brOk r \<longleftrightarrow> br_bitPos r \<le> int (length (br_data r)) * 8"

lemma bitsDown_ok:
  "pos \<le> int (length data) * 8 \<Longrightarrow> codecOk (\<lambda>x. x < (v + 1) * 2 ^ n) (bitsDown data n pos v)"
proof (induction n arbitrary: pos v)
  case (Suc n)
  show ?case
    unfolding bitsDown.simps
  proof (rule codecOk_chain [OF bitAt_ok])
    fix b :: nat assume b: "b \<le> 1"
    have "codecOk (\<lambda>x. x < (2 * v + b + 1) * 2 ^ n) (bitsDown data n (pos - 1) (2 * v + b))"
      by (rule Suc.IH) (use Suc.prems in simp)
    moreover have "(2 * v + b + 1) * 2 ^ n \<le> (2 * v + 2) * 2 ^ n" using b by (intro mult_right_mono) auto
    moreover have "(2 * v + 2) * 2 ^ n = (v + 1) * 2 ^ Suc n" by simp
    ultimately show "codecOk (\<lambda>x. x < (v + 1) * 2 ^ Suc n) (bitsDown data n (pos - 1) (2 * v + b))"
      by (elim codecOk_mono) linarith
  qed (use Suc.prems in simp)
qed simp

lemma readBits_ok: "brOk r \<Longrightarrow> codecOk (\<lambda>(v, s). v < 2 ^ n \<and> brOk s) (readBits n r)"
  using bitsDown_ok [of "br_bitPos r" "br_data r" 0 n]
  by (auto simp: readBits_def brOk_def intro!: codecOk_chain)

lemma peekBits_ok: "brOk r \<Longrightarrow> codecOk (\<lambda>v. v < 2 ^ n) (peekBits n r)"
  using bitsDown_ok [of "br_bitPos r" "br_data r" 0 n] by (simp add: peekBits_def brOk_def)

lemma bitsUp_ok: "pos + n \<le> 8 * length data \<Longrightarrow> codecOk (\<lambda>x. True) (bitsUp data n i pos v)"
  by (induction n arbitrary: pos i v) (auto intro!: codecOk_chain [OF bitAt_ok])

lemma readForward_ok: "codecOk (\<lambda>x. True) (readForward n r)"
  by (auto simp: readForward_def intro!: codecOk_chain [OF bitsUp_ok])

lemma zeroRun_ok: "codecOk (\<lambda>x. True) (zeroRun zeros r)"
proof (induction zeros r rule: zeroRun.induct)
  case (1 zeros r)
  show ?case
    by (subst zeroRun.simps, rule codecOk_chain [OF readForward_ok]) (use 1 in auto)
qed

lemma readCount_ok:
  assumes "1 < remaining"
  shows "codecOk (\<lambda>(c, r). -1 \<le> c) (readCount remaining r)"
proof -
  let ?bits = "bitsFor (nat remaining)"
  have low: "2 ^ (?bits - 1) \<le> nat remaining" "0 < ?bits" using bitsFor_lower [of "nat remaining"] assms by simp_all
  have "int (2 ^ (?bits - 1)) \<le> int (nat remaining)" using low(1) by (simp only: of_nat_le_iff)
  then have "(2 :: int) ^ (?bits - 1) \<le> remaining" using assms by simp
  moreover have "(2 :: int) ^ ?bits = 2 * 2 ^ (?bits - 1)"
    using low(2) by (cases ?bits) simp_all
  ultimately have cut: "2 ^ ?bits - 1 - remaining \<le> 2 ^ (?bits - 1)" by linarith
  have nonneg: "- 1 < int a + int b * 2 ^ k" for a b k :: nat
  proof -
    have "0 \<le> int a" "0 \<le> int b * 2 ^ k" by simp_all
    then show ?thesis by linarith
  qed
  from cut show ?thesis
    by (auto simp: readCount_def Let_def nonneg intro!: codecOk_chain [OF readForward_ok])
qed

definition countSum :: "int list \<Rightarrow> int" where
  "countSum counts = sum_list (map (\<lambda>c. if c = -1 then 1 else c) counts)"

definition countsOk :: "int list \<Rightarrow> bool" where
  "countsOk counts \<longleftrightarrow> (\<forall>c \<in> set counts. -1 \<le> c)"

lemma countSum_simps [simp]:
  "countSum [] = 0" "countSum (c # cs) = (if c = -1 then 1 else c) + countSum cs"
  "countSum (cs @ ds) = countSum cs + countSum ds" "countSum (replicate n 0) = 0"
  by (induction n) (simp_all add: countSum_def)

lemma countsOk_simps [simp]:
  "countsOk []" "countsOk (c # cs) \<longleftrightarrow> -1 \<le> c \<and> countsOk cs"
  "countsOk (cs @ ds) \<longleftrightarrow> countsOk cs \<and> countsOk ds" "countsOk (replicate n 0)"
  by (auto simp: countsOk_def)

lemma fseCounts_ok:
  "countsOk counts \<Longrightarrow> remaining + countSum counts = n \<Longrightarrow>
     codecOk (\<lambda>(rest, cs, r). countsOk cs \<and> rest + countSum cs = n) (fseCounts maxSymbol remaining counts z r)"
proof (induction maxSymbol remaining counts z r rule: fseCounts.induct)
  case (1 maxSymbol remaining counts z r)
  show ?case
  proof (cases "1 < remaining \<and> length counts \<le> maxSymbol")
    case loop: True
    show ?thesis
    proof (cases z)
      case True
      have "codecOk (\<lambda>(rest, cs, r). countsOk cs \<and> rest + countSum cs = n)
         (chain (zeroRun 0 r) (\<lambda>(zeros, r). fseCounts maxSymbol remaining
            (counts @ replicate (min zeros (maxSymbol + 1 - length counts)) 0) False r))"
        by (rule codecOk_chain [OF zeroRun_ok])
          (use "1.IH"(1) [OF loop True] "1.prems" in auto)
      with loop True show ?thesis by (subst fseCounts.simps) simp
    next
      case False
      have "codecOk (\<lambda>(rest, cs, r). countsOk cs \<and> rest + countSum cs = n)
         (chain (readCount remaining r) (\<lambda>(count, r).
                   let remaining = (if 0 \<le> count then remaining - count else remaining - 1) in
                   if remaining < 1 then Bad ZstdData
                   else fseCounts maxSymbol remaining (counts @ [count]) (count = 0) r))"
        by (rule codecOk_chain [OF readCount_ok])
          (use "1.IH"(2) [OF loop False] "1.prems" loop in \<open>auto simp: Let_def\<close>)
      with loop False show ?thesis by (subst fseCounts.simps) simp
    qed
  next
    case False
    with "1.prems" show ?thesis by (subst fseCounts.simps) auto
  qed
qed


text \<open>The table is filled within its bounds, and the walk over its positions ends.\<close>

definition lows :: "int list \<Rightarrow> nat" where
  "lows counts = length (filter (\<lambda>c. c = -1) counts)"

lemma lows_simps [simp]: "lows [] = 0" "lows (c # cs) = (if c = -1 then Suc (lows cs) else lows cs)"
  by (simp_all add: lows_def)

lemma placeLow_ok:
  "int (lows counts) \<le> high + 1 \<Longrightarrow> high < int (length symbols) \<Longrightarrow>
     codecOk (\<lambda>(s, h). length s = length symbols \<and> h = high - int (lows counts)) (placeLow i counts symbols high)"
proof (induction i counts symbols high rule: placeLow.induct)
  case (2 i count counts symbols high)
  show ?case
  proof (cases "count = -1")
    case True
    with "2.prems" have h: "\<not> high < 0" "nat high < length symbols" by auto
    then have "codecOk (\<lambda>(s, h). length s = length symbols \<and> h = high - 1 - int (lows counts))
        (placeLow (i + 1) counts (symbols[nat high := i]) (high - 1))"
      using "2.IH"(1) [OF True h(1), of "symbols[nat high := i]"] "2.prems" True by (simp add: store_def)
    with True h show ?thesis by (auto simp: store_def elim: codecOk_mono)
  qed (use "2.IH"(2) "2.prems" in simp)
qed simp

lemma odd_step_covers:
  assumes "odd step" "p < 2 ^ k"
  shows "\<exists>m < 2 ^ k. (p + m * step) mod 2 ^ k = (0 :: nat)"
proof -
  let ?f = "\<lambda>m. (p + m * step) mod 2 ^ k"
  have "inj_on ?f {..< 2 ^ k}"
  proof (rule linorder_inj_onI)
    fix m n assume mn: "m < n" "m \<in> {..< (2 :: nat) ^ k}" "n \<in> {..< (2 :: nat) ^ k}"
    show "?f m \<noteq> ?f n"
    proof
      assume "?f m = ?f n"
      then have "2 ^ k dvd (p + n * step) - (p + m * step)"
        using mn(1) by (intro mod_eq_dvd_iff_nat [THEN iffD1]) (auto intro: mult_le_mono1)
      then have "2 ^ k dvd (n - m) * step" by (simp add: algebra_simps diff_mult_distrib2)
      moreover have "coprime (2 ^ k) step" using assms(1) by simp
      ultimately have "2 ^ k dvd n - m" by (simp add: coprime_dvd_mult_left_iff)
      then have "2 ^ k \<le> n - m" using mn(1) by (intro dvd_imp_le) auto
      with mn show False by auto
    qed
  qed auto
  then have "?f ` {..< 2 ^ k} = {..< 2 ^ k}" by (intro endo_inj_surj) auto
  moreover have "0 \<in> {..< (2 :: nat) ^ k}" by simp
  ultimately show ?thesis by (metis (no_types, lifting) imageE lessThan_iff)
qed

lemma skipHigh_reaches:
  "p < width \<Longrightarrow> m \<le> fuel \<Longrightarrow> int ((p + m * step) mod width) \<le> high \<Longrightarrow>
     codecOk (\<lambda>q. q < width) (skipHigh fuel width step high p)"
proof (induction fuel arbitrary: p m)
  case (Suc fuel)
  show ?case
  proof (cases "high < int p")
    case True
    then obtain m' where m: "m = Suc m'" using Suc.prems by (cases m) auto
    have "((p + step) mod width + m' * step) mod width = (p + m * step) mod width"
      unfolding m by (simp add: mod_add_left_eq add.assoc)
    then show ?thesis using True Suc.IH [of "(p + step) mod width" m'] Suc.prems m by auto
  qed (use Suc.prems in simp)
qed auto

lemma skipHigh_ok:
  assumes "odd step" "p < 2 ^ k" "0 \<le> high"
  shows "codecOk (\<lambda>q. q < 2 ^ k) (skipHigh (2 ^ k) (2 ^ k) step high p)"
proof -
  from odd_step_covers [OF assms(1,2)] obtain m where m: "m < 2 ^ k" "(p + m * step) mod 2 ^ k = 0"
    by (elim exE conjE)
  have "int ((p + m * step) mod 2 ^ k) \<le> high" unfolding m(2) using assms(3) by simp
  then show ?thesis by (rule skipHigh_reaches [OF assms(2) less_imp_le [OF m(1)]])
qed

lemma spreadOne_ok:
  assumes "odd step" "0 \<le> high"
  shows "length symbols = 2 ^ k \<Longrightarrow> p < 2 ^ k \<Longrightarrow>
     codecOk (\<lambda>(s, q). length s = 2 ^ k \<and> q < 2 ^ k) (spreadOne (2 ^ k) step high i n symbols p)"
proof (induction n arbitrary: symbols p)
  case (Suc n)
  then show ?case
    using skipHigh_ok [OF assms(1) _ assms(2), of "(p + step) mod 2 ^ k" k]
    by (auto simp: store_def intro!: codecOk_chain)
qed simp

lemma spread_ok:
  assumes "odd step"
  shows "(\<forall>c \<in> set counts. c \<le> 0) \<or> 0 \<le> high \<Longrightarrow> length symbols = 2 ^ k \<Longrightarrow> p < 2 ^ k \<Longrightarrow>
     codecOk (\<lambda>(s, q). length s = 2 ^ k) (spread (2 ^ k) step high i counts symbols p)"
proof (induction counts arbitrary: i symbols p)
  case (Cons c counts)
  have one: "codecOk (\<lambda>(s, q). length s = 2 ^ k \<and> q < 2 ^ k) (spreadOne (2 ^ k) step high i (nat c) symbols p)"
  proof (cases "0 \<le> high")
    case True
    show ?thesis by (rule spreadOne_ok [OF assms True Cons.prems(2,3)])
  next
    case False
    with Cons.prems have "nat c = 0" by simp
    with Cons.prems show ?thesis by simp
  qed
  show ?case
    unfolding spread.simps by (rule codecOk_chain [OF one]) (use Cons in auto)
qed simp

lemma numberStates_ok:
  "codecOk (\<lambda>(nb, na). length nb = length symbols \<and> length na = length symbols \<and>
      (\<forall>i < length symbols. na ! i + 2 ^ (nb ! i) \<le> 2 ^ acc)) (numberStates acc symbols following)"
proof (induction symbols arbitrary: following)
  case (Cons s symbols)
  let ?n = "following ! s"
  let ?b = "int acc - int (bitsFor ?n) + 1"
  show ?case
  proof (cases "length following \<le> s \<or> ?b < 0 \<or> int acc < ?b")
    case False
    then have b: "0 < bitsFor ?n" "bitsFor ?n + nat ?b = acc + 1" by auto
    have up: "(?n + 1) * 2 ^ nat ?b \<le> 2 ^ bitsFor ?n * 2 ^ nat ?b"
      using bitsFor_upper [of ?n] by (intro mult_le_mono1) simp
    have eq: "2 ^ bitsFor ?n * 2 ^ nat ?b = 2 * (2 :: nat) ^ acc" unfolding power_add [symmetric] b(2) by simp
    have "?n * 2 ^ nat ?b + 2 ^ nat ?b \<le> 2 * 2 ^ acc" using up unfolding eq by simp
    moreover have "(2 :: nat) ^ nat ?b \<le> 2 ^ acc" using False by (intro power_increasing) auto
    ultimately have head: "?n * 2 ^ nat ?b - 2 ^ acc + 2 ^ nat ?b \<le> 2 ^ acc" by linarith
    have "codecOk (\<lambda>(nb, na). length nb = length (s # symbols) \<and> length na = length (s # symbols) \<and>
        (\<forall>i < length (s # symbols). na ! i + 2 ^ (nb ! i) \<le> 2 ^ acc))
      (chain (numberStates acc symbols (following[s := ?n + 1]))
        (\<lambda>(nb, na). Ret (nat ?b # nb, (?n * 2 ^ nat ?b - 2 ^ acc) # na)))"
      by (rule codecOk_chain [OF Cons.IH]) (use head in \<open>auto simp: less_Suc_eq_0_disj\<close>)
    with False show ?thesis by (simp add: Let_def)
  qed (auto simp: Let_def)
qed simp

definition fseOk :: "zstdFSETable \<Rightarrow> bool" where
  "fseOk t \<longleftrightarrow> length (fse_symbol t) = 2 ^ fse_log t \<and> length (fse_numBits t) = 2 ^ fse_log t \<and>
     length (fse_newarr t) = 2 ^ fse_log t \<and>
     (\<forall>i < 2 ^ fse_log t. fse_newarr t ! i + 2 ^ (fse_numBits t ! i) \<le> 2 ^ fse_log t)"

lemma lows_le: "countsOk counts \<Longrightarrow> int (lows counts) \<le> countSum counts"
  by (induction counts) auto

lemma lows_less: "countsOk counts \<Longrightarrow> \<exists>c \<in> set counts. 0 < c \<Longrightarrow> int (lows counts) < countSum counts"
proof (induction counts)
  case (Cons c counts)
  show ?case
  proof (cases "0 < c")
    case True
    with Cons.prems lows_le [of counts] show ?thesis by auto
  qed (use Cons in auto)
qed simp

lemma buildFSETable_ok:
  assumes "countsOk counts" "countSum counts = 2 ^ acc" "5 \<le> acc"
  shows "codecOk (\<lambda>t. fseOk t \<and> fse_log t = acc) (buildFSETable counts acc)"
proof -
  let ?step = "2 ^ acc div 2 + 2 ^ acc div 8 + 3 :: nat"
  obtain k where acc: "acc = k + 5" using assms(3) by (metis add.commute le_iff_add)
  have "(2 :: nat) ^ acc = 32 * 2 ^ k" unfolding acc by (simp add: power_add)
  then have odd: "odd ?step" by simp
  let ?low = "placeLow 0 counts (replicate (2 ^ acc) 0) (int (2 ^ acc) - 1)"
  have low: "codecOk (\<lambda>(s, h). length s = 2 ^ acc \<and> h = int (2 ^ acc) - 1 - int (lows counts)) ?low"
    using placeLow_ok [of counts "int (2 ^ acc) - 1" "replicate (2 ^ acc) 0" 0] lows_le [OF assms(1)] assms(2) by simp
  have high: "(\<forall>c \<in> set counts. c \<le> 0) \<or> 0 \<le> int (2 ^ acc) - 1 - int (lows counts)"
    using lows_less [OF assms(1)] assms(2) by (force simp: not_le)
  have "codecOk (\<lambda>t. fseOk t \<and> fse_log t = acc) (chain ?low (\<lambda>(symbols, high).
         chain (spread (2 ^ acc) ?step high 0 counts symbols 0) (\<lambda>(symbols, position).
           if position \<noteq> 0 then Bad ZstdData
           else chain (numberStates acc symbols (map (\<lambda>c. if c = -1 then 1 else nat c) counts))
                  (\<lambda>(numBits, newarr).
                     Ret \<lparr>fse_log = acc, fse_symbol = symbols, fse_numBits = numBits, fse_newarr = newarr\<rparr>))))"
  proof (rule codecOk_chain [OF low], clarify)
    fix symbols :: "nat list" and h :: int
    assume s: "length symbols = 2 ^ acc"
    show "codecOk (\<lambda>t. fseOk t \<and> fse_log t = acc)
       (chain (spread (2 ^ acc) ?step (int (2 ^ acc) - 1 - int (lows counts)) 0 counts symbols 0) (\<lambda>(symbols, position).
           if position \<noteq> 0 then Bad ZstdData
           else chain (numberStates acc symbols (map (\<lambda>c. if c = -1 then 1 else nat c) counts))
                  (\<lambda>(numBits, newarr).
                     Ret \<lparr>fse_log = acc, fse_symbol = symbols, fse_numBits = numBits, fse_newarr = newarr\<rparr>)))"
      by (rule codecOk_chain [OF spread_ok [OF odd high s]])
        (auto simp: fseOk_def intro!: codecOk_chain [OF numberStates_ok])
  qed
  then show ?thesis by (simp only: buildFSETable_def Let_def)
qed

lemma readFSETable_ok: "codecOk (\<lambda>(t, r). fseOk t) (readFSETable r maxSymbol maxLog)"
proof -
  have build: "codecOk (\<lambda>(t, r). fseOk t) (chain (buildFSETable cs acc) (\<lambda>t. Ret (t, r)))"
    if "countsOk cs" "countSum cs = 2 ^ acc" "5 \<le> acc" for cs acc and r :: zstdBitReader
    by (rule codecOk_chain [OF buildFSETable_ok [OF that]]) simp
  have counts: "codecOk (\<lambda>(rest, cs, r). countsOk cs \<and> rest + countSum cs = 2 ^ acc + 1)
      (fseCounts maxSymbol (2 ^ acc + 1) [] False r)" for acc r
    by (rule fseCounts_ok) simp_all
  show ?thesis
    unfolding readFSETable_def Let_def
    by (rule codecOk_chain [OF readForward_ok])
      (auto intro!: codecOk_chain [OF counts] build)
qed


section \<open>Huffman tables and streams\<close>

definition hufOk :: "zstdHuffman \<Rightarrow> bool" where
  "hufOk t \<longleftrightarrow> length (hf_symbol t) = 2 ^ hf_maxBits t \<and> length (hf_bits t) = 2 ^ hf_maxBits t"

definition fillOk :: "nat \<Rightarrow> huffman_fill \<Rightarrow> bool" where
  "fillOk n st = (case st of (position, symbols, lens) \<Rightarrow> length symbols = n \<and> length lens = n)"

lemma fillRange_ok:
  "position + width \<le> length xs \<Longrightarrow> codecOk (\<lambda>ys. length ys = length xs) (fillRange xs position width v)"
  by (simp add: fillRange_def)

lemma fillWeight_ok: "fillOk (2 ^ maxBits) st \<Longrightarrow> codecOk (fillOk (2 ^ maxBits)) (fillWeight maxBits weight symbol weights st)"
proof (induction weights arbitrary: symbol st)
  case (Cons w weights)
  obtain position symbols lens where st: "st = (position, symbols, lens)" by (rule prod_cases3)
  with Cons.prems have len: "length symbols = 2 ^ maxBits" "length lens = 2 ^ maxBits" by (simp_all add: fillOk_def)
  show ?case
  proof (cases "w \<noteq> weight \<or> 2 ^ maxBits < position + 2 ^ (weight - 1)")
    case True
    with Cons show ?thesis by (auto simp: st Let_def)
  next
    case False
    have "codecOk (fillOk (2 ^ maxBits))
      (chain (fillRange symbols position (2 ^ (weight - 1)) symbol) (\<lambda>symbols.
       chain (fillRange lens position (2 ^ (weight - 1)) (maxBits - weight + 1)) (\<lambda>lens.
         fillWeight maxBits weight (symbol + 1) weights (position + 2 ^ (weight - 1), symbols, lens))))"
      by (intro codecOk_chain [OF fillRange_ok] Cons.IH) (use False len in \<open>auto simp: fillOk_def\<close>)
    with False show ?thesis by (simp add: st Let_def)
  qed
qed simp

lemma fillWeights_ok: "fillOk (2 ^ maxBits) st \<Longrightarrow> codecOk (fillOk (2 ^ maxBits)) (fillWeights maxBits weights ws st)"
  by (induction ws arbitrary: st) (auto intro!: codecOk_chain [OF fillWeight_ok])

lemma buildHuffman_ok: "codecOk hufOk (buildHuffman weights maxBits)"
proof -
  have "fillOk (2 ^ maxBits) (0, replicate (2 ^ maxBits) 0, replicate (2 ^ maxBits) 0)" by (simp add: fillOk_def)
  note fill = fillWeights_ok [OF this, of weights "[1 ..< maxBits + 1]"]
  have "codecOk hufOk (chain (fillWeights maxBits weights [1 ..< maxBits + 1]
      (0, replicate (2 ^ maxBits) 0, replicate (2 ^ maxBits) 0)) (\<lambda>(position, symbols, lens).
        if position \<noteq> 2 ^ maxBits then Bad ZstdData
        else Ret \<lparr>hf_maxBits = maxBits, hf_symbol = symbols, hf_bits = lens\<rparr>))"
    by (rule codecOk_chain [OF fill]) (auto simp: hufOk_def fillOk_def)
  then show ?thesis
    by (cases "maxBits < 1 \<or> 11 < maxBits")
      (simp_all only: buildHuffman_def Let_def if_True if_False codecOk_simps)
qed

lemma completeWeights_ok: "codecOk hufOk (completeWeights weights)"
  by (auto simp: completeWeights_def Let_def pushWeight_def buildHuffman_ok)

lemma nibbleWeights_ok: "1 + (n + 1) div 2 \<le> length data \<Longrightarrow> codecOk (\<lambda>x. True) (nibbleWeights data n)"
proof (induction n)
  case (Suc n)
  have "1 + n div 2 < length data" using Suc.prems by simp
  then have "codecOk (\<lambda>x. True) (nibbleWeight data n)" by (simp add: nibbleWeight_def lookup_def)
  moreover have "codecOk (\<lambda>x. True) (nibbleWeights data n)" by (rule Suc.IH) (use Suc.prems in simp)
  ultimately show ?case by (auto intro!: codecOk_chain)
qed simp

text \<open>The one panic: more weights than the array holds.\<close>

definition weightsPanic :: "bytes \<Rightarrow> bool" where
  "weightsPanic src \<longleftrightarrow> (\<exists>d. sublist d src \<and> readFSEWeights d 256 = Panic)"

lemma weightsPanic_mono: "sublist d src \<Longrightarrow> weightsPanic d \<Longrightarrow> weightsPanic src"
  by (auto simp: weightsPanic_def intro: sublist_order.order.trans)

lemma readFSEWeights_ok: "sublist d src \<Longrightarrow> okUnless (weightsPanic src) (\<lambda>x. True) (readFSEWeights d 256)"
  by (cases "readFSEWeights d 256") (auto simp: weightsPanic_def)

lemma sublist_slice: "sublist (slice xs a b) xs"
  by (simp add: slice_def) (meson sublist_drop sublist_order.order.trans sublist_take)

lemma readHuffmanTable_ok:
  "okUnless (weightsPanic data) (\<lambda>(t, used). hufOk t \<and> used \<le> length data) (readHuffmanTable data)"
proof (cases data)
  case (Cons header tl)
  let ?E = "weightsPanic data" and ?Q = "\<lambda>(t, used). hufOk t \<and> used \<le> length data"
  have table: "okUnless ?E ?Q (chain (completeWeights weights) (\<lambda>t. Ret (t, used)))"
    if "used \<le> length data" for weights used
    by (rule okUnless_ok, rule codecOk_chain [OF completeWeights_ok]) (use that in simp)
  show ?thesis
  proof (cases "128 \<le> header")
    case True
    let ?count = "unat header - 127" and ?used = "1 + (unat header - 127 + 1) div 2"
    have "okUnless ?E ?Q (chain (nibbleWeights data ?count) (\<lambda>weights.
        chain (completeWeights weights) (\<lambda>t. Ret (t, ?used))))" if "?used \<le> length data"
      by (rule okUnless_chain [OF okUnless_ok [OF nibbleWeights_ok]]) (use that table in auto)
    with True Cons show ?thesis by (simp add: readHuffmanTable_def Let_def)
  next
    case False
    let ?used = "unat header + 1"
    have "okUnless ?E ?Q (chain (readFSEWeights (slice data 1 ?used) 256) (\<lambda>weights.
        chain (completeWeights weights) (\<lambda>t. Ret (t, ?used))))" if "?used \<le> length data"
      by (rule okUnless_chain [OF readFSEWeights_ok [OF sublist_slice]]) (use that table in auto)
    with False Cons show ?thesis by (simp add: readHuffmanTable_def Let_def)
  qed
qed (simp add: readHuffmanTable_def)

lemma newZstdBitReader_ok: "codecOk brOk (newZstdBitReader data)"
  by (simp add: newZstdBitReader_def brOk_def forwardReader_def)

lemma huffmanSymbols_ok: "hufOk t \<Longrightarrow> brOk r \<Longrightarrow> codecOk (\<lambda>x. True) (huffmanSymbols t want r)"
proof (induction want arbitrary: r)
  case (Suc want)
  show ?case
    using Suc.prems
    by (auto simp: hufOk_def lookup_def brOk_def intro!: codecOk_chain [OF peekBits_ok] codecOk_chain [OF Suc.IH])
qed simp

lemma decodeHuffmanStream_ok: "hufOk t \<Longrightarrow> codecOk (\<lambda>x. True) (decodeHuffmanStream t data want)"
  by (auto simp: decodeHuffmanStream_def intro!: codecOk_chain [OF newZstdBitReader_ok] codecOk_chain [OF huffmanSymbols_ok])

section \<open>Blocks\<close>

definition optOk :: "('a \<Rightarrow> bool) \<Rightarrow> 'a option \<Rightarrow> bool" where
  "optOk P m \<longleftrightarrow> (\<forall>x. m = Some x \<longrightarrow> P x)"

lemma optOk_simps [simp]: "optOk P None" "optOk P (Some x) \<longleftrightarrow> P x"
  by (simp_all add: optOk_def)

definition blockOk :: "zstdBlockDecoder \<Rightarrow> bool" where
  "blockOk d \<longleftrightarrow> optOk hufOk (bd_huffman d) \<and> optOk fseOk (bd_litLen d) \<and> optOk fseOk (bd_match d) \<and>
     optOk fseOk (bd_offset d)"

lemma decodeSegments_ok: "hufOk t \<Longrightarrow> codecOk (\<lambda>x. True) (decodeSegments t segments)"
  by (induction segments) (auto intro!: codecOk_chain [where P = "\<lambda>x. True"] decodeHuffmanStream_ok)

lemma decodeFourStreams_ok: "hufOk t \<Longrightarrow> codecOk (\<lambda>x. True) (decodeFourStreams t body want)"
  by (auto simp: decodeFourStreams_def Let_def simp del: decodeSegments.simps intro!: decodeSegments_ok)

lemma literalsTable_ok:
  assumes "blockOk d"
  shows "okUnless (weightsPanic body) (\<lambda>(t, b, d). hufOk t \<and> blockOk d) (literalsTable fresh body d)"
proof (cases fresh)
  case True
  have "okUnless (weightsPanic body) (\<lambda>(t, b, d). hufOk t \<and> blockOk d)
     (chain (readHuffmanTable body) (\<lambda>(table, used).
        if length body < used then Panic else Ret (table, drop used body, d\<lparr>bd_huffman := Some table\<rparr>)))"
    by (rule okUnless_chain [OF readHuffmanTable_ok]) (use assms in \<open>auto simp: blockOk_def\<close>)
  with True show ?thesis by (simp add: literalsTable_def)
next
  case False
  with assms show ?thesis by (auto simp: literalsTable_def blockOk_def split: option.split)
qed

lemma plainLiterals_ok: "codecOk (\<lambda>(l, used). used \<le> length src) (plainLiterals raw f src)"
  by (auto simp: plainLiterals_def plainHeader_def Let_def intro!: codecOk_chain [where P = "\<lambda>x. True"])

lemma huffmanLiterals_ok:
  assumes "blockOk d"
  shows "okUnless (weightsPanic src) (\<lambda>(l, used, d). used \<le> length src \<and> blockOk d) (huffmanLiterals fresh f src d)"
proof -
  let ?Q = "\<lambda>(l, used, d). used \<le> length src \<and> blockOk d"
  have inner: "okUnless (weightsPanic src) ?Q
      (chain (literalsTable fresh (slice src h (h + c)) d) (\<lambda>(table, body, d).
         chain (if s = 1 then decodeHuffmanStream table body n else decodeFourStreams table body n)
           (\<lambda>literals. Ret (literals, h + c, d))))" if "h + c \<le> length src" for s h n c :: nat
    by (rule okUnless_chain [OF okUnless_excuse [OF literalsTable_ok [OF assms]]])
      (use that weightsPanic_mono [OF sublist_slice] in
        \<open>auto intro!: okUnless_ok codecOk_chain [OF decodeHuffmanStream_ok] codecOk_chain [OF decodeFourStreams_ok]\<close>)
  have header: "codecOk (\<lambda>x. True) (huffmanHeader src f)" by (simp add: huffmanHeader_def)
  show ?thesis
    unfolding huffmanLiterals_def
    by (auto simp del: One_nat_def intro!: okUnless_chain [OF okUnless_ok [OF header]] inner)
qed

lemma decodeLiterals_ok:
  assumes "blockOk d"
  shows "okUnless (weightsPanic src) (\<lambda>(l, used, d). used \<le> length src \<and> blockOk d) (decodeLiterals src d)"
proof (cases src)
  case (Cons b tl)
  have plain: "okUnless (weightsPanic src) (\<lambda>(l, used, d). used \<le> length src \<and> blockOk d)
      (chain (plainLiterals raw f src) (\<lambda>(literals, used). Ret (literals, used, d)))" for raw f
    by (rule okUnless_ok, rule codecOk_chain [OF plainLiterals_ok]) (use assms in auto)
  have "decodeLiterals src d =
      (if unat (b AND 0x03) = 0 \<or> unat (b AND 0x03) = 1
       then chain (plainLiterals (unat (b AND 0x03) = 0) (unat (drop_bit 2 b AND 0x03)) src)
              (\<lambda>(literals, used). Ret (literals, used, d))
       else huffmanLiterals (unat (b AND 0x03) = 2) (unat (drop_bit 2 b AND 0x03)) src d)"
    by (simp only: decodeLiterals_def Cons list.case Let_def)
  with plain huffmanLiterals_ok [OF assms] show ?thesis by presburger
qed (simp add: decodeLiterals_def)


text \<open>The predefined tables are well formed.\<close>

lemma predefined_counts:
  "countsOk zstdDefaultLitLen \<and> countSum zstdDefaultLitLen = 2 ^ 6"
  "countsOk zstdDefaultOffset \<and> countSum zstdDefaultOffset = 2 ^ 5"
  "countsOk zstdDefaultMatchLen \<and> countSum zstdDefaultMatchLen = 2 ^ 6"
  by (simp_all add: zstdDefaultLitLen_def zstdDefaultOffset_def zstdDefaultMatchLen_def)

fun isRet :: "'a codec \<Rightarrow> bool" where
  "isRet (Ret x) = True"
| "isRet _ = False"

lemma predefined_builds:
  "isRet (buildFSETable zstdDefaultLitLen 6)" "isRet (buildFSETable zstdDefaultOffset 5)"
  "isRet (buildFSETable zstdDefaultMatchLen 6)"
  by code_simp+

lemma predefinedFSE_ok:
  assumes "isRet (buildFSETable counts acc)" "countsOk counts \<and> countSum counts = 2 ^ acc" "5 \<le> acc"
  shows "codecOk fseOk (predefinedFSE counts acc)"
  using assms(1) buildFSETable_ok [of counts acc] assms(2,3)
  by (cases "buildFSETable counts acc") (simp_all add: predefinedFSE_def)

lemma predefinedTable_ok: "codecOk fseOk (predefinedTable code)"
  by (cases code) (simp_all add: predefinedFSE_ok predefined_builds predefined_counts)

lemma sequenceTable_ok: "optOk fseOk previous \<Longrightarrow> codecOk (\<lambda>(t, r). fseOk t) (sequenceTable mode code previous forward)"
  by (auto simp: sequenceTable_def fseOk_def optOk_def split: option.split
      intro!: codecOk_chain [OF predefinedTable_ok] codecOk_chain [OF readForward_ok] codecOk_chain [OF readFSETable_ok])

definition stateOk :: "zstdFSETable \<Rightarrow> nat \<Rightarrow> bool" where
  "stateOk t n \<longleftrightarrow> fseOk t \<and> n < 2 ^ fse_log t"

lemma nextState_ok:
  assumes "stateOk t n" "brOk r"
  shows "codecOk (\<lambda>(m, s). stateOk t m \<and> brOk s) (nextState t n r)"
proof -
  have n: "n < 2 ^ fse_log t" "fse_newarr t ! n + 2 ^ (fse_numBits t ! n) \<le> 2 ^ fse_log t"
      "n < length (fse_newarr t)" "n < length (fse_numBits t)"
    using assms(1) by (simp_all add: stateOk_def fseOk_def)
  have "codecOk (\<lambda>(m, s). stateOk t m \<and> brOk s)
      (chain (readBits (fse_numBits t ! n) r) (\<lambda>(v, r). Ret (fse_newarr t ! n + v, r)))"
    by (rule codecOk_chain [OF readBits_ok [OF assms(2)]]) (use n assms(1) in \<open>auto simp: stateOk_def\<close>)
  with n show ?thesis by (simp add: nextState_def lookup_def)
qed

definition coderOk :: "sequenceCoder \<Rightarrow> bool" where
  "coderOk sc \<longleftrightarrow>
     (case (sc_tables sc, sc_states sc) of
        ((t1, t2, t3), (n1, n2, n3)) \<Rightarrow> stateOk t1 n1 \<and> stateOk t2 n2 \<and> stateOk t3 n3) \<and> brOk (sc_reader sc)"

lemma stateOk_symbol: "stateOk t n \<Longrightarrow> n < length (fse_symbol t)"
  by (simp add: stateOk_def fseOk_def)

lemma blockOk_repeat [simp]: "blockOk (d\<lparr>bd_repeat := x\<rparr>) = blockOk d"
  by (simp add: blockOk_def)

lemma resolveOffset_ok: "blockOk d \<Longrightarrow> codecOk (\<lambda>(n, d). blockOk d) (resolveOffset v n d)"
  by (auto simp: resolveOffset_def Let_def split: prod.split)

lemma tables_length:
  "length zstdMatchLenExtra = 53" "length zstdMatchLenBaseline = 53" "length zstdLitLenExtra = 36"
  "length zstdLitLenBaseline = 36"
  by (simp_all add: zstdMatchLenExtra_def zstdMatchLenBaseline_def zstdLitLenExtra_def zstdLitLenBaseline_def)

lemma chain_lookup: "i < length xs \<Longrightarrow> chain (lookup xs i) f = f (xs ! i)"
  by (simp add: lookup_def)

lemma readSequence_ok:
  assumes "coderOk sc" "blockOk d"
  shows "codecOk (\<lambda>(sq, r, d). brOk r \<and> blockOk d) (readSequence sc d)"
proof -
  obtain t1 t2 t3 n1 n2 n3 where sc: "sc_tables sc = (t1, t2, t3)" "sc_states sc = (n1, n2, n3)" by (metis prod_cases3)
  have n: "n1 < length (fse_symbol t1)" "n2 < length (fse_symbol t2)" "n3 < length (fse_symbol t3)" and r: "brOk (sc_reader sc)"
    using assms(1) by (simp_all add: coderOk_def sc stateOk_symbol)
  show ?thesis
    unfolding readSequence_def sc prod.case
    by (auto simp: chain_lookup n tables_length
        intro!: codecOk_chain [OF readBits_ok] r codecOk_chain [OF resolveOffset_ok [OF assms(2)]])
qed

lemma advanceStates_ok:
  assumes "coderOk sc" "brOk r"
  shows "codecOk coderOk (advanceStates sc r)"
proof -
  obtain t1 t2 t3 n1 n2 n3 where sc: "sc_tables sc = (t1, t2, t3)" "sc_states sc = (n1, n2, n3)" by (metis prod_cases3)
  have n: "stateOk t1 n1" "stateOk t2 n2" "stateOk t3 n3" using assms(1) by (simp_all add: coderOk_def sc)
  show ?thesis
    unfolding advanceStates_def sc prod.case
    by (auto simp: coderOk_def sc intro!: codecOk_chain [OF nextState_ok] n assms(2))
qed

lemma readSequences_ok:
  "coderOk sc \<Longrightarrow> blockOk d \<Longrightarrow> codecOk (\<lambda>(sqs, d). blockOk d) (readSequences n sc d)"
proof (induction n sc d rule: readSequences.induct)
  case (2 n sc d)
  show ?case
  proof (cases "br_corrupt (sc_reader sc)")
    case good: False
    have "codecOk (\<lambda>(sqs, d). blockOk d) (chain (readSequence sc d) (\<lambda>(sq, r, d).
        if n = 0 then (if br_corrupt r then Bad ZstdData else Ret ([sq], d))
        else chain (advanceStates sc r) (\<lambda>sc.
             chain (readSequences n sc d) (\<lambda>(sqs, d). Ret (sq # sqs, d)))))"
    proof (rule codecOk_chain [OF readSequence_ok [OF "2.prems"]], clarify)
      fix sq r e assume r: "brOk r" and e: "blockOk e" and read: "readSequence sc d = Ret (sq, r, e)"
      have "codecOk (\<lambda>(sqs, d). blockOk d) (chain (advanceStates sc r) (\<lambda>sc.
               chain (readSequences n sc e) (\<lambda>(sqs, d). Ret (sq # sqs, d))))" if n: "n \<noteq> 0"
      proof (rule codecOk_chain [OF advanceStates_ok [OF "2.prems"(1) r]])
        fix sc' assume "coderOk sc'" "advanceStates sc r = Ret sc'"
        then have "codecOk (\<lambda>(sqs, d). blockOk d) (readSequences n sc' e)"
          by (intro "2.IH" [OF good read refl refl n] e)
        then show "codecOk (\<lambda>(sqs, d). blockOk d) (chain (readSequences n sc' e) (\<lambda>(sqs, d). Ret (sq # sqs, d)))"
          by (auto intro: codecOk_chain)
      qed
      with e show "codecOk (\<lambda>(sqs, d). blockOk d) (if n = 0 then (if br_corrupt r then Bad ZstdData else Ret ([sq], e))
          else chain (advanceStates sc r) (\<lambda>sc.
               chain (readSequences n sc e) (\<lambda>(sqs, d). Ret (sq # sqs, d))))"
        by simp
    qed
    with good show ?thesis by simp
  qed simp
qed simp


lemma sequenceTables_ok:
  assumes "blockOk d"
  shows "codecOk (\<lambda>(r, d). blockOk d \<and> bd_litLen d \<noteq> None \<and> bd_offset d \<noteq> None \<and> bd_match d \<noteq> None)
    (sequenceTables modes src d)"
proof -
  have "optOk fseOk (bd_litLen d)" "optOk fseOk (bd_offset d)" "optOk fseOk (bd_match d)" "optOk hufOk (bd_huffman d)"
    using assms by (simp_all add: blockOk_def)
  then show ?thesis
    unfolding sequenceTables_def
    by (auto simp: blockOk_def intro!: codecOk_chain [OF sequenceTable_ok])
qed

lemma startSequences_ok:
  assumes "blockOk d" "bd_litLen d \<noteq> None" "bd_offset d \<noteq> None" "bd_match d \<noteq> None"
  shows "codecOk coderOk (startSequences src d)"
proof -
  obtain t1 t2 t3 where t: "bd_litLen d = Some t1" "bd_offset d = Some t2" "bd_match d = Some t3"
    using assms(2-4) by blast
  then have "fseOk t1" "fseOk t2" "fseOk t3" using assms(1) by (simp_all add: blockOk_def)
  then show ?thesis
    by (auto simp: startSequences_def t coderOk_def stateOk_def
        intro!: codecOk_chain [OF newZstdBitReader_ok] codecOk_chain [OF readBits_ok])
qed

lemma decodeSequences_ok: "blockOk d \<Longrightarrow> codecOk (\<lambda>(sqs, d). blockOk d) (decodeSequences src d)"
proof -
  assume d: "blockOk d"
  have count: "codecOk (\<lambda>x. True) (sequenceCount src)" by (simp add: sequenceCount_def Let_def)
  have "codecOk (\<lambda>(sqs, d). blockOk d)
      (chain (startSequences s e) (\<lambda>sc. readSequences n sc e))"
    if "blockOk e" "bd_litLen e \<noteq> None" "bd_offset e \<noteq> None" "bd_match e \<noteq> None" for s e n
    by (rule codecOk_chain [OF startSequences_ok [OF that]]) (rule readSequences_ok [OF _ that(1)])
  then show ?thesis
    unfolding decodeSequences_def Let_def
    using d by (auto intro!: codecOk_chain [OF count] codecOk_chain [OF sequenceTables_ok])
qed

lemma copyMatch_inside: "from < length buf \<Longrightarrow> \<exists>buf'. copyMatch n from buf = Some buf'"
  by (induction n arbitrary: "from" buf) (auto simp: indexAt_def)

lemma execute_ok:
  "start \<le> length window \<Longrightarrow> codecOk (\<lambda>out. length window \<le> length out) (execute literals sqs window start)"
proof (induction literals sqs window start rule: execute.induct)
  case (2 literals sq sqs window start)
  let ?out = "window @ take (sq_literalLength sq) literals"
  show ?case
  proof (cases "length literals < sq_literalLength sq \<or> sq_offset sq = 0 \<or>
      int (length ?out) - int start < int (sq_offset sq)")
    case False
    then have off: "\<not> length ?out < sq_offset sq" "0 < sq_offset sq" by auto
    obtain out where out: "copyMatch (sq_matchLength sq) (length ?out - sq_offset sq) ?out = Some out"
    proof -
      have "length ?out - sq_offset sq < length ?out" using off by linarith
      with copyMatch_inside show thesis using that by blast
    qed
    have "length window \<le> length out" using copyMatch_length [OF out] by simp
    moreover have "codecOk (\<lambda>o2. length out \<le> length o2) (execute (drop (sq_literalLength sq) literals) sqs out start)"
      by (rule "2.IH" [OF _ refl _ off(1) out])
        (use False \<open>length window \<le> length out\<close> "2.prems" in auto)
    ultimately show ?thesis using False off out by (auto simp: Let_def elim: codecOk_mono)
  qed (auto simp: Let_def)
qed simp

lemma decodeBlock_ok:
  assumes "blockOk d" "start \<le> length window"
  shows "okUnless (weightsPanic src) (\<lambda>(out, d). length window \<le> length out \<and> blockOk d) (decodeBlock src window start d)"
proof -
  have "okUnless (weightsPanic src) (\<lambda>(out, d). length window \<le> length out \<and> blockOk d)
     (chain (decodeSequences s e) (\<lambda>(sqs, d). chain (execute l sqs window start) (\<lambda>out. Ret (out, d))))"
    if "blockOk e" for s e l
    by (rule okUnless_ok, rule codecOk_chain [OF decodeSequences_ok [OF that]])
      (auto intro!: codecOk_chain [OF execute_ok [OF assms(2)]])
  then show ?thesis
    unfolding decodeBlock_def by (auto intro!: okUnless_chain [OF decodeLiterals_ok [OF assms(1)]])
qed

section \<open>Frames\<close>

text \<open>The input that is left is the end of the whole input.\<close>

definition zstdOk :: "bytes \<Rightarrow> zstdReader \<Rightarrow> bool" where
  "zstdOk input z \<longleftrightarrow> suffix (zr_input z) input \<and> blockOk (zr_dec z) \<and> zr_frameAt z \<le> length (zr_window z) \<and>
     zr_consumed z \<le> length (zr_window z)"

lemma suffix_shorter: "suffix (xs @ ys) input \<Longrightarrow> suffix ys input"
  by (auto simp: suffix_def)

lemma readFull_suffix:
  assumes "suffix xs input"
  shows "codecOk (\<lambda>(data, rest). suffix rest input \<and> sublist data input) (readFull n xs)"
proof (cases "n \<le> length xs")
  case True
  obtain ys where "input = ys @ xs" using assms by (auto simp: suffix_def)
  then have "input = ys @ take n xs @ drop n xs" by simp
  then have "suffix (drop n xs) input" "sublist (take n xs) input"
    by (metis append_assoc suffix_def, metis sublist_appendI)
  with True show ?thesis by (simp add: readFull_def)
qed (simp add: readFull_def)

lemma readByte_suffix: "suffix xs input \<Longrightarrow> codecOk (\<lambda>(b, rest). suffix rest input) (readByte xs)"
  by (cases xs) (auto simp: suffix_def)

lemma discard_suffix: "suffix xs input \<Longrightarrow> codecOk (\<lambda>rest. suffix rest input) (discard n xs)"
  by (auto simp: discard_def intro!: codecOk_chain [OF readFull_suffix])

lemma skipToFrame_suffix: "suffix xs input \<Longrightarrow> codecOk (\<lambda>rest. suffix rest input) (skipToFrame xs)"
proof (induction xs rule: skipToFrame.induct)
  case (1 xs)
  show ?case
  proof (cases "xs = []")
    case False
    let ?Q = "\<lambda>rest. suffix rest input"
    have "codecOk ?Q (chain (readFull 4 xs) (\<lambda>(magic, rest).
        if getU32 magic 0 AND 0xfffffff0 = 0x184d2a50
        then chain (readFull 4 rest) (\<lambda>(len, rest). chain (discard (unat (getU32 len 0)) rest) skipToFrame)
        else if magic \<noteq> zstdFrameMagic then Bad ZstdNotFrame
        else Ret rest))"
    proof (rule codecOk_chain [OF readFull_suffix [OF "1.prems"]], clarify)
      fix magic rest assume r: "suffix rest input" and read: "readFull 4 xs = Ret (magic, rest)"
      have "codecOk ?Q (chain (readFull 4 rest) (\<lambda>(len, rest). chain (discard (unat (getU32 len 0)) rest) skipToFrame))"
        if skip: "getU32 magic 0 AND 0xfffffff0 = 0x184d2a50"
      proof (rule codecOk_chain [OF readFull_suffix [OF r]], clarify)
        fix len tl assume t: "suffix tl input" and len: "readFull 4 rest = Ret (len, tl)"
        show "codecOk ?Q (chain (discard (unat (getU32 len 0)) tl) skipToFrame)"
          by (rule codecOk_chain [OF discard_suffix [OF t]]) (rule "1.IH" [OF False read refl skip len refl])
      qed
      with r show "codecOk ?Q (if getU32 magic 0 AND 0xfffffff0 = 0x184d2a50
          then chain (readFull 4 rest) (\<lambda>(len, rest). chain (discard (unat (getU32 len 0)) rest) skipToFrame)
          else if magic \<noteq> zstdFrameMagic then Bad ZstdNotFrame else Ret rest)"
        by simp
    qed
    with False show ?thesis by (subst skipToFrame.simps) (simp only: if_False)
  qed (simp add: skipToFrame.simps)
qed

lemma newBlockDecoder_ok: "blockOk newZstdBlockDecoder"
  by (simp add: blockOk_def newZstdBlockDecoder_def)


lemma frameFields_suffix:
  assumes "suffix xs input"
  shows "codecOk (\<lambda>(n, rest). suffix rest input) (windowField b xs)"
    "codecOk (\<lambda>rest. suffix rest input) (dictionaryField b xs)"
    "codecOk (\<lambda>(n, rest). suffix rest input) (contentField b xs)"
proof -
  have "codecOk (\<lambda>x. True) (windowDescriptor c)" for c by (simp add: windowDescriptor_def Let_def)
  with assms show "codecOk (\<lambda>(n, rest). suffix rest input) (windowField b xs)"
    by (cases xs) (auto simp: windowField_def suffix_def intro!: codecOk_chain [where P = "\<lambda>x. True"])
  show "codecOk (\<lambda>rest. suffix rest input) (dictionaryField b xs)"
    by (auto simp: dictionaryField_def Let_def intro!: codecOk_chain [OF readFull_suffix [OF assms]])
  show "codecOk (\<lambda>(n, rest). suffix rest input) (contentField b xs)"
    unfolding contentField_def Let_def
    by (rule codecOk_chain [OF readFull_suffix [OF assms]]) auto
qed

lemma readFrameHeader_ok: "zstdOk input z \<Longrightarrow> codecOk (zstdOk input) (readFrameHeader z)"
  unfolding readFrameHeader_def
  by (rule codecOk_chain [OF skipToFrame_suffix], simp add: zstdOk_def)
    (auto simp: zstdOk_def newBlockDecoder_ok Let_def
      intro!: codecOk_chain [OF readByte_suffix] codecOk_chain [OF frameFields_suffix(1)]
        codecOk_chain [OF frameFields_suffix(2)] codecOk_chain [OF frameFields_suffix(3)])

lemma compactWindow_ok: "zstdOk input z \<Longrightarrow> zstdOk input (compactWindow z)"
  by (auto simp: zstdOk_def compactWindow_def Let_def)

lemma verifyChecksum_ok: "zstdOk input z \<Longrightarrow> codecOk (zstdOk input) (verifyChecksum z)"
  by (auto simp: verifyChecksum_def zstdOk_def intro!: codecOk_chain [OF readFull_suffix])

lemma nextFrame_ok:
  assumes "zstdOk input z"
  shows "codecOk (zstdOk input) (nextFrame z)"
  using assms readFrameHeader_ok [OF assms]
  by (auto simp: nextFrame_def zstdOk_def split: codec.split)

lemma finishFrame_ok: "zstdOk input z \<Longrightarrow> codecOk (zstdOk input) (finishFrame z)"
  unfolding finishFrame_def by (rule codecOk_chain [OF verifyChecksum_ok nextFrame_ok])

lemma blockBody_ok:
  assumes "zstdOk input z"
  shows "okUnless (weightsPanic input) (zstdOk input) (blockBody t n z)"
proof -
  have z: "suffix (zr_input z) input" "blockOk (zr_dec z)" "zr_frameAt z \<le> length (zr_window z)"
    using assms by (simp_all add: zstdOk_def)
  have "okUnless (weightsPanic input) (zstdOk input)
    (chain (decodeBlock body (zr_window z) (zr_frameAt z) (zr_dec z)) (\<lambda>(expanded, dec).
       Ret (z\<lparr>zr_input := rest, zr_window := expanded, zr_dec := dec\<rparr>)))"
    if "sublist body input" "suffix rest input" for body rest
    by (rule okUnless_chain [OF okUnless_excuse [OF decodeBlock_ok [OF z(2,3)]]])
      (use that weightsPanic_mono [OF that(1)] assms in \<open>auto simp: zstdOk_def\<close>)
  with assms show ?thesis
    unfolding blockBody_def
    by (auto simp: zstdOk_def intro!: okUnless_chain [OF okUnless_ok [OF readFull_suffix [OF z(1)]]]
        okUnless_chain [OF okUnless_ok [OF readByte_suffix [OF z(1)]]])
qed

lemma zstdOk_digest [simp]: "zstdOk input (z\<lparr>zr_digest := h\<rparr>) = zstdOk input z"
  by (simp add: zstdOk_def)

lemma readBlock_ok: "zstdOk input z \<Longrightarrow> okUnless (weightsPanic input) (zstdOk input) (readBlock z)"
proof -
  assume z: "zstdOk input z"
  then have s: "suffix (zr_input z) input" by (simp add: zstdOk_def)
  have "zstdOk input (z\<lparr>zr_input := rest\<rparr>)" if "suffix rest input" for rest
    using that z by (simp add: zstdOk_def)
  then show ?thesis
    unfolding readBlock_def Let_def
    by (auto intro!: okUnless_chain [OF okUnless_ok [OF readFull_suffix [OF s]]] okUnless_chain [OF blockBody_ok]
        okUnless_ok [OF finishFrame_ok])
qed

lemma fillWindow_ok: "zstdOk input z \<Longrightarrow> okUnless (weightsPanic input) (\<lambda>(b, z). zstdOk input z) (fillWindow z)"
proof (induction z rule: fillWindow.induct)
  case (1 z)
  show ?case
  proof (cases "zr_consumed z \<noteq> length (zr_window z) \<or> zr_finished z")
    case False
    have "okUnless (weightsPanic input) (\<lambda>(b, z). zstdOk input z) (chain (readBlock (compactWindow z)) fillWindow)"
      by (rule okUnless_chain [OF readBlock_ok [OF compactWindow_ok [OF "1.prems"]]]) (use "1.IH" False in auto)
    with False show ?thesis by (subst fillWindow.simps) simp
  qed (use "1.prems" in \<open>subst fillWindow.simps, auto\<close>)
qed

lemma zstdRead_ok:
  assumes "zstdOk input z"
  shows "okUnless (weightsPanic input) (\<lambda>(b, z). zstdOk input z) (zstdRead n z)"
  unfolding zstdRead_def
  by (rule okUnless_chain [OF fillWindow_ok [OF assms]]) (auto simp: zstdOk_def Let_def min_def)

lemma zstdDrain_ok: "zstdOk input z \<Longrightarrow> okUnless (weightsPanic input) (\<lambda>x. True) (zstdDrain n z)"
proof (induction n z rule: zstdDrain.induct)
  case (1 n z)
  show ?case
    by (subst zstdDrain.simps, rule okUnless_chain [OF zstdRead_ok [OF "1.prems"]])
      (auto split: option.split intro!: okUnless_chain [OF "1.IH"])
qed

text \<open>The one panic needs exactly 257 weights: with one more place in the array there would be none.\<close>

lemma readBits_Ret:
  assumes "brOk r" "n \<le> 32"
  shows "\<exists>v s. readBits n r = Ret (v, s) \<and> v < 2 ^ n \<and> brOk s \<and> br_corrupt s = br_corrupt r"
proof -
  obtain x where "bitsDown (br_data r) n (br_bitPos r) 0 = Ret x \<or> (\<exists>e. bitsDown (br_data r) n (br_bitPos r) 0 = Bad e)"
    using bitsDown_ok [of "br_bitPos r" "br_data r" 0 n] assms(1)
    by (cases "bitsDown (br_data r) n (br_bitPos r) 0") (auto simp: brOk_def)
  moreover have "bitsDown data n pos v \<noteq> Bad e" for data n pos v e
    by (induction n arbitrary: pos v) (auto simp: bitAt_def lookup_def)
  ultimately have "readBits n r = Ret (if n = 0 then 0 else x, if n = 0 then r else r\<lparr>br_bitPos := br_bitPos r - int n\<rparr>)"
    using assms(2) by (auto simp: readBits_def)
  with readBits_ok [OF assms(1), of n] show ?thesis by auto
qed

lemma nextState_Ret:
  assumes "stateOk t n" "brOk r" "fse_log t \<le> 6"
  shows "\<exists>m s. nextState t n r = Ret (m, s) \<and> stateOk t m \<and> brOk s \<and> br_corrupt s = br_corrupt r"
proof -
  have n: "fse_newarr t ! n + 2 ^ (fse_numBits t ! n) \<le> 2 ^ fse_log t"
      "n < length (fse_newarr t)" "n < length (fse_numBits t)"
    using assms(1) by (simp_all add: stateOk_def fseOk_def)
  have "(2 :: nat) ^ (fse_numBits t ! n) \<le> 2 ^ fse_log t" using n(1) by linarith
  then have "fse_numBits t ! n \<le> 32" using assms(3) by simp
  from readBits_Ret [OF assms(2) this] n nextState_ok [OF assms(1,2)] show ?thesis
    by (auto simp: nextState_def lookup_def)
qed

lemma weightsLoop_overflow:
  assumes "fse_log t \<le> 6"
  shows "stateOk t s1 \<Longrightarrow> stateOk t s2 \<Longrightarrow> brOk r \<Longrightarrow> even (length ws) \<Longrightarrow>
    weightsLoop 256 t s1 s2 ws r = Panic \<Longrightarrow> \<exists>vs. weightsLoop 257 t s1 s2 ws r = Ret vs \<and> length vs = 257"
proof (induction "255 - length ws" arbitrary: s1 s2 ws r rule: less_induct)
  case less
  have run: "length ws < 255" "\<not> br_corrupt r"
    using less.prems(5) by (auto simp: weightsLoop.simps [of 256] not_le split: if_splits)
  with less.prems(4) have len: "length ws = 254 \<or> length ws < 253" by (cases "length ws = 253") auto
  obtain m1 r1 where n1: "nextState t s1 r = Ret (m1, r1)" "stateOk t m1" "brOk r1" "\<not> br_corrupt r1"
    using nextState_Ret [OF less.prems(1,3) assms] run(2) by auto
  obtain m2 r2 where n2: "nextState t s2 r1 = Ret (m2, r2)" "stateOk t m2" "brOk r2" "\<not> br_corrupt r2"
    using nextState_Ret [OF less.prems(2) n1(3) assms] n1(4) by auto
  note symbols = stateOk_symbol [OF less.prems(1)] stateOk_symbol [OF less.prems(2)] stateOk_symbol [OF n1(2)]
  let ?ws = "ws @ [fse_symbol t ! s1, fse_symbol t ! s2]"
  have step: "weightsLoop room t s1 s2 ws r =
      (if exhausted r1 then Ret ?ws
       else if exhausted r2 then chain (pushWeight room ?ws (fse_symbol t ! m1)) Ret
       else weightsLoop room t m1 m2 ?ws r2)" if "256 \<le> room" for room
    using that run len symbols n1(1,4) n2(1,4)
    by (subst weightsLoop.simps) (auto simp: chain_lookup pushWeight_def)
  have stop: "\<not> exhausted r1" using less.prems(5) step [of 256] by auto
  show ?case
  proof (cases "exhausted r2")
    case True
    with less.prems(5) step [of 256] stop len have "length ws = 254" by (auto simp: pushWeight_def split: if_splits)
    with True stop show ?thesis by (simp add: step pushWeight_def)
  next
    case False
    have "weightsLoop 256 t m1 m2 ?ws r2 = Panic" using less.prems(5) step [of 256] stop False by simp
    then have "\<exists>vs. weightsLoop 257 t m1 m2 ?ws r2 = Ret vs \<and> length vs = 257"
      by (intro less.hyps n1(2) n2(2,3)) (use run less.prems(4) in auto)
    with False stop show ?thesis by (simp add: step)
  qed
qed

lemma readFSETable_log:
  "readFSETable r maxSymbol maxLog = Ret (t, s) \<Longrightarrow> fseOk t \<and> fse_log t \<le> maxLog"
  using readFSETable_ok [of r maxSymbol maxLog]
  by (auto simp: readFSETable_def chain_Ret buildFSETable_def Let_def split: if_splits)

lemma readFSEWeights_overflow:
  assumes "readFSEWeights d 256 = Panic"
  shows "\<exists>ws. readFSEWeights d 257 = Ret ws \<and> length ws = 257"
proof -
  have "codecOk (\<lambda>(t, r). fseOk t) (readFSETable (forwardReader d) 255 6)" by (rule readFSETable_ok)
  then obtain t f where t: "readFSETable (forwardReader d) 255 6 = Ret (t, f)" "\<not> length d < (br_forwardPos f + 7) div 8"
    using assms by (cases "readFSETable (forwardReader d) 255 6") (auto simp: readFSEWeights_def Let_def split: if_splits)
  let ?d = "drop ((br_forwardPos f + 7) div 8) d"
  obtain r where r: "newZstdBitReader ?d = Ret r" "brOk r"
    using newZstdBitReader_ok [of ?d] assms t by (cases "newZstdBitReader ?d") (auto simp: readFSEWeights_def Let_def)
  note log = readFSETable_log [OF t(1)]
  obtain s1 r1 where s1: "readBits (fse_log t) r = Ret (s1, r1)" "s1 < 2 ^ fse_log t" "brOk r1"
    using readBits_Ret [OF r(2), of "fse_log t"] log by auto
  obtain s2 r2 where s2: "readBits (fse_log t) r1 = Ret (s2, r2)" "s2 < 2 ^ fse_log t" "brOk r2"
    using readBits_Ret [OF s1(3), of "fse_log t"] log by auto
  have "readFSEWeights d room = weightsLoop room t s1 s2 [] r2" for room
    by (simp add: readFSEWeights_def t r(1) s1(1) s2(1) Let_def)
  with assms weightsLoop_overflow [of t s1 s2 r2 "[]"] log s1(2) s2(2,3) show ?thesis by (simp add: stateOk_def)
qed

text \<open>C13: the decoder has one panic only: whenever it panics, some contiguous part of the input is a list of
  exactly 257 Huffman weights, one more than the array has places for.  On every other input, however
  corrupt, decompression ends with the data or with an error.\<close>

theorem unzstd_panics_on_weights_only:
  "(\<exists>data. zstdDecompress n input = Ret data) \<or> (\<exists>e. zstdDecompress n input = Bad e) \<or>
   (\<exists>d ws. sublist d input \<and> readFSEWeights d 256 = Panic \<and> readFSEWeights d 257 = Ret ws \<and> length ws = 257)"
proof -
  let ?z = "\<lparr>zr_input = input, zr_dec = newZstdBlockDecoder, zr_window = [], zr_frameAt = 0,
       zr_consumed = 0, zr_winSize = 0, zr_checksum = False, zr_digest = newXXH64, zr_finished = False\<rparr>"
  have "zstdOk input ?z" by (simp add: zstdOk_def newBlockDecoder_ok)
  then have "okUnless (weightsPanic input) (\<lambda>x. True) (zstdDecompress n input)"
    unfolding zstdDecompress_def newZstdReader_def
    by (intro okUnless_chain [OF okUnless_ok [OF readFrameHeader_ok]] zstdDrain_ok)
  then show ?thesis
    by (cases "zstdDecompress n input") (auto simp: weightsPanic_def dest: readFSEWeights_overflow)
qed

section \<open>The panic\<close>

lemma overflowing_weights: "readHuffmanTable [5, 225, 31, 4, 150, 19] = Panic" by code_simp

lemma overflowing_block: "decodeLiterals [18, 128, 1, 5, 225, 31, 4, 150, 19] d = Panic"
proof -
  have "unat (18 AND 3 :: u8) = 2" "unat (drop_bit 2 18 AND 3 :: u8) = 0" by simp_all
  moreover have "huffmanHeader [18, 128, 1, 5, 225, 31, 4, 150, 19] 0 = Ret (1, 3, 1, 6)"
    by (simp add: huffmanHeader_def bitField_def)
  moreover have "slice [18, 128, 1, 5, 225, 31, 4, 150, 19 :: u8] 3 9 = [5, 225, 31, 4, 150, 19]"
    by (simp add: slice_def)
  ultimately show ?thesis by (simp add: decodeLiterals_def Let_def huffmanLiterals_def literalsTable_def overflowing_weights)
qed

lemma skipToFrame_magic: "skipToFrame (0x28 # 0xb5 # 0x2f # 0xfd # rest) = Ret rest"
proof -
  have "getU32 [0x28, 0xb5, 0x2f, 0xfd] 0 AND 0xfffffff0 \<noteq> 0x184d2a50" by (simp add: getU32_def slice_def)
  then show ?thesis unfolding skipToFrame.simps [of "0x28 # 0xb5 # 0x2f # 0xfd # rest"]
    by (simp add: readFull_def zstdFrameMagic_def)
qed

text \<open>C22: the panic happens: these eighteen bytes are one frame of one compressed block whose table has 257
  weights, and decompressing them panics however the caller reads.\<close>

theorem unzstd_panics:
  "zstdDecompress n [0x28, 0xb5, 0x2f, 0xfd, 0, 0x38, 77, 0, 0, 18, 128, 1, 5, 225, 31, 4, 150, 19] = Panic"
proof -
  have block: "readBlock z = Panic" if "zr_input z = [77, 0, 0, 18, 128, 1, 5, 225, 31, 4, 150, 19]" for z
    using that by (simp add: readBlock_def readFull_def blockBody_def decodeBlock_def overflowing_block Let_def)
  have "zstdDrain n z = Panic"
    if "zr_input z = [77, 0, 0, 18, 128, 1, 5, 225, 31, 4, 150, 19]" "zr_window z = []" "zr_consumed z = 0"
      "\<not> zr_finished z" for z
    using that by (subst zstdDrain.simps) (simp add: zstdRead_def fillWindow.simps [of z] block)
  then show ?thesis
    by (simp add: zstdDecompress_def newZstdReader_def readFrameHeader_def skipToFrame_magic windowField_def windowDescriptor_def dictionaryField_def
       contentField_def readFull_def Let_def)
qed

end
