(* ===== verification/XzRound.thy ===== *)
theory XzRound
  imports Xz
begin

text \<open>
  What the XZ writer produces, the reader reads back.  The lemmas follow the format: integers of
  variable length, stored chunks, one block, the index and footer, and streams one after another.
\<close>

section \<open>Integers of variable length\<close>

lemma xzVLI_last: "drop_bit 7 v = 0 \<Longrightarrow> xzVLI v = [ucast (v AND 0x7f)]"
  by (subst xzVLI.simps) simp

lemma xzVLI_more: "drop_bit 7 v \<noteq> 0 \<Longrightarrow> xzVLI v = (ucast (v AND 0x7f) OR 0x80) # xzVLI (drop_bit 7 v)"
  by (subst xzVLI.simps) simp

lemma seven_bits: "0x7f = (mask 7 :: 'a::len word)"
  by (simp add: mask_eq_exp_minus_1)

lemma vli_high_bit [simp]: "bit (0x80 :: int) n \<longleftrightarrow> n = 7" "bit (0x80 :: nat) n \<longleftrightarrow> n = 7"
proof -
  have "(0x80 :: int) = 2 ^ 7" "(0x80 :: nat) = 2 ^ 7" by simp_all
  then show "bit (0x80 :: int) n \<longleftrightarrow> n = 7" "bit (0x80 :: nat) n \<longleftrightarrow> n = 7"
    by (simp_all only: bit_exp_iff) auto
qed

lemma vli_byte_last: "ucast (ucast (v AND 0x7f :: u64) AND 0x7f :: u8) = v AND 0x7f"
  unfolding seven_bits by (rule bit_word_eqI) (auto simp: bit_simps)

lemma vli_byte_more: "ucast ((ucast (v AND 0x7f :: u64) OR 0x80) AND 0x7f :: u8) = v AND 0x7f"
  unfolding seven_bits by (rule bit_word_eqI) (auto simp: bit_simps)

lemma vli_flag: "(ucast (v AND 0x7f :: u64) :: u8) AND 0x80 = 0" "((ucast (v AND 0x7f :: u64) :: u8) OR 0x80) AND 0x80 \<noteq> 0"
proof -
  show "(ucast (v AND 0x7f :: u64) :: u8) AND 0x80 = 0"
    unfolding seven_bits by (rule bit_word_eqI) (auto simp: bit_simps)
  have "bit (((ucast (v AND 0x7f :: u64) :: u8) OR 0x80) AND 0x80) 7"
    unfolding seven_bits by (simp add: bit_simps)
  then show "((ucast (v AND 0x7f :: u64) :: u8) OR 0x80) AND 0x80 \<noteq> 0" by auto
qed

lemma vli_split: "push_bit k (v AND 0x7f) OR push_bit (k + 7) (drop_bit 7 v) = push_bit k (v :: u64)"
proof (rule bit_word_eqI)
  fix n assume "n < LENGTH(64)"
  then show "bit (push_bit k (v AND 0x7f) OR push_bit (k + 7) (drop_bit 7 v)) n = bit (push_bit k v) n"
    unfolding seven_bits by (cases "n < k + 7") (auto simp: bit_simps)
qed

lemma readVLI_xzVLI:
  "unat v * 2 ^ (7 * i) < 2 ^ 63 \<Longrightarrow> i < 9 \<Longrightarrow> i = 0 \<or> v \<noteq> 0 \<Longrightarrow>
     readVLI i acc (xzVLI v @ rest) = Ret (acc OR push_bit (7 * i) v, i + length (xzVLI v), rest)"
proof (induction v arbitrary: i acc rule: xzVLI.induct)
  case (1 v)
  show ?case
  proof (cases "drop_bit 7 v = 0")
    case True
    then have v: "v AND 0x7f = v" unfolding seven_bits take_bit_eq_mask [symmetric]
      by (simp add: take_bit_eq_self_iff_drop_bit_eq_0)
    have nz: "\<not> (ucast (v AND 0x7f) = (0 :: u8) \<and> 0 < i)"
    proof
      assume "ucast (v AND 0x7f) = (0 :: u8) \<and> 0 < i"
      then have "v AND 0x7f = 0" using vli_byte_last [of v] by simp
      with v "1.prems"(3) \<open>_ \<and> 0 < i\<close> show False by simp
    qed
    from True nz "1.prems"(2) show ?thesis
      using vli_byte_last [of v] vli_flag(1) [of v]
      by (subst readVLI.simps) (simp add: xzVLI_last Let_def v)
  next
    case False
    have "unat v = 2 ^ 7 * unat (drop_bit 7 v) + unat v mod 2 ^ 7"
      unfolding unat_drop_bit_eq by (simp add: drop_bit_eq_div)
    then have le: "2 ^ 7 * unat (drop_bit 7 v) \<le> unat v" by linarith
    have "unat (drop_bit 7 v) * 2 ^ (7 * (i + 1)) = (2 ^ 7 * unat (drop_bit 7 v)) * 2 ^ (7 * i)"
      by (simp add: power_add)
    also have "\<dots> \<le> unat v * 2 ^ (7 * i)" by (rule mult_le_mono1 [OF le])
    finally have small: "unat (drop_bit 7 v) * 2 ^ (7 * (i + 1)) < 2 ^ 63" using "1.prems"(1) by linarith
    have "1 \<le> unat (drop_bit 7 v)" using False by (metis less_one linorder_not_le unat_eq_zero)
    then have "2 ^ (7 * (i + 1)) \<le> unat (drop_bit 7 v) * 2 ^ (7 * (i + 1))" by simp
    then have "(2 :: nat) ^ (7 * (i + 1)) < 2 ^ 63" using small by linarith
    then have "7 * (i + 1) < 63" by (rule power_less_imp_less_exp [rotated]) simp
    then have i: "i + 1 < 9" by simp
    have "readVLI (i + 1) (acc OR push_bit (7 * i) (v AND 0x7f)) (xzVLI (drop_bit 7 v) @ rest) =
        Ret (acc OR push_bit (7 * i) v, i + length (xzVLI v), rest)"
    proof -
      have "7 * (i + 1) = 7 * i + 7" by simp
      then have "(acc OR push_bit (7 * i) (v AND 0x7f)) OR push_bit (7 * (i + 1)) (drop_bit 7 v) = acc OR push_bit (7 * i) v"
        by (simp only: or.assoc vli_split)
      with "1.IH" [OF False small i, of "acc OR push_bit (7 * i) (v AND 0x7f)"] False show ?thesis
        by (simp only: xzVLI_more [OF False]) simp
    qed
    then show ?thesis
      using False "1.prems"(2)
      by (subst readVLI.simps) (simp add: xzVLI_more Let_def vli_flag vli_byte_more)
  qed
qed

lemma readXZVLI_xzVLI:
  "unat v < 2 ^ 63 \<Longrightarrow> readXZVLI (xzVLI v @ rest) = Ret (v, length (xzVLI v), rest)"
  using readVLI_xzVLI [of v 0 0 rest] by (simp add: readXZVLI_def)


section \<open>Stored chunks\<close>

text \<open>The chunks of a list of pieces; only the first resets the dictionary.\<close>

fun stored :: "bool \<Rightarrow> bytes list \<Rightarrow> bytes" where
  "stored first [] = []"
| "stored first (p # ps) =
     [if first then 1 else 2, ucast (drop_bit 8 (of_nat (length p - 1) :: u16)),
      ucast ((of_nat (length p - 1) :: u16) AND 0xff)] @ p @ stored False ps"

definition pieceOk :: "bytes \<Rightarrow> bool" where
  "pieceOk p \<longleftrightarrow> p \<noteq> [] \<and> length p \<le> 65536"

definition storedSize :: "bytes list \<Rightarrow> nat" where
  "storedSize ps = sum_list (map (\<lambda>p. length p + 3) ps)"

lemma storedSize_simps [simp]:
  "storedSize [] = 0" "storedSize (p # ps) = length p + 3 + storedSize ps"
  "storedSize (ps @ qs) = storedSize ps + storedSize qs"
  by (simp_all add: storedSize_def)

lemma stored_append: "stored first (ps @ qs) = stored first ps @ stored (first \<and> ps = []) qs"
  by (induction first ps rule: stored.induct) auto

lemma length_BE16:
  assumes "n < 65536"
  shows "getBE [ucast (drop_bit 8 (of_nat n :: u16)), ucast ((of_nat n :: u16) AND 0xff)] = n"
proof -
  let ?x = "of_nat n :: u16"
  have x: "unat ?x = n" using assms by (simp add: unat_of_nat)
  have "unat (ucast (drop_bit 8 ?x) :: u8) = n div 256"
    using assms x unfolding unsigned_ucast_eq unat_drop_bit_eq by (simp add: drop_bit_eq_div take_bit_eq_mod)
  moreover have "unat (ucast (?x AND 0xff) :: u8) = n mod 256"
  proof -
    have "?x AND 0xff = take_bit 8 ?x" by (simp add: take_bit_eq_mask mask_eq_exp_minus_1)
    then have "unat (ucast (?x AND 0xff) :: u8) = take_bit 8 (take_bit 8 (unat ?x))"
      by (simp only: unsigned_ucast_eq unsigned_take_bit_eq) simp
    then show ?thesis using x by (simp add: take_bit_eq_mod)
  qed
  ultimately show ?thesis by (simp add: getBE_def)
qed

text \<open>What a stored chunk does to the reader.\<close>

definition grown :: "lzma2Reader \<Rightarrow> bytes \<Rightarrow> lzma2Reader \<Rightarrow> bool" where
  "grown r p r' \<longleftrightarrow> l2_buf r' = l2_buf r @ p \<and> l2_consumed r' = l2_consumed r \<and>
     l2_finished r' = l2_finished r \<and> l2_compressed r' = l2_compressed r + (length p + 3) \<and> l2_sawDictInit r'"

lemma readChunk_stored:
  assumes "pieceOk p" "first \<or> l2_sawDictInit r"
  shows "\<exists>r'. readChunk (stored first (p # ps) @ rest) r = Ret (stored False ps @ rest, r') \<and> grown r p r'"
proof -
  have "length p - 1 < 65536" "length p - 1 + 1 = length p"
    using assms(1) by (cases p; simp add: pieceOk_def)+
  note n = length_BE16 [OF this(1)] this(2)
  show ?thesis
    using assms n by (auto simp: readChunk_def readStoredChunk_def readBE16_def readFull_def grown_def
        resetDictionary_def Let_def numeral_2_eq_2)
qed

section \<open>The writer\<close>

definition xzHeader :: bytes where
  "xzHeader = xzStreamMagic @ [0, 0] @ le32 (crc32 [0, 0]) @ xzBlockHeader @ le32 (crc32 xzBlockHeader)"

text \<open>The writer after the pieces, and the bytes a closed writer has produced.\<close>

definition holds :: "xzWriter \<Rightarrow> bytes list \<Rightarrow> bool" where
  "holds w ps \<longleftrightarrow> xw_output w = xzHeader @ stored True ps \<and> unat (xw_compressed w) = storedSize ps \<and>
     unat (xw_uncompressed w) = length (concat ps) \<and> \<not> xw_closed w \<and> (\<forall>p \<in> set ps. pieceOk p)"

definition streamOf :: "bytes list \<Rightarrow> bytes" where
  "streamOf ps =
     (let index = xzIndex (of_nat (storedSize ps + 13)) (of_nat (length (concat ps))) in
      xzHeader @ stored True ps @ [0] @ replicate (paddingOf (storedSize ps + 13)) 0 @
      index @ le32 (crc32 index) @ xzFooter index)"

lemma holds_new: "holds newXZWriter []"
  by (simp add: holds_def newXZWriter_def xzHeader_def)

lemma unat_add_of_nat:
  "unat x + n < 2 ^ 64 \<Longrightarrow> unat (x + of_nat n :: u64) = unat x + n"
  by (simp add: unat_word_ariths unat_of_nat)

lemma holds_store:
  assumes "holds w ps" "pieceOk p" "storedSize (ps @ [p]) < 2 ^ 64"
  shows "holds (storeChunk p w) (ps @ [p])"
proof -
  have "length (concat qs) \<le> storedSize qs" for qs by (induction qs) auto
  from this [of ps] have u: "length (concat ps) + length p < 2 ^ 64" using assms(3) by simp
  have zero: "xw_compressed w = 0 \<longleftrightarrow> ps = []"
    using assms(1) by (cases ps) (auto simp: holds_def unat_eq_zero [symmetric])
  show ?thesis
    using assms u zero
    by (auto simp: holds_def storeChunk_def Let_def stored_append unat_add_of_nat simp del: of_nat_add)
qed

lemma writeChunks_holds:
  "holds w ps \<Longrightarrow> storedSize ps + 4 * length data < 2 ^ 64 \<Longrightarrow>
     \<exists>qs. holds (writeChunks data w) (ps @ qs) \<and> concat qs = data \<and> storedSize qs \<le> 4 * length data"
proof (induction data w arbitrary: ps rule: writeChunks.induct)
  case (1 data w)
  show ?case
  proof (cases "data = []")
    case False
    let ?p = "take 65536 data"
    have p: "pieceOk ?p" using False by (simp add: pieceOk_def)
    have size: "length ?p + 3 \<le> 4 * length ?p" using False by (cases data) auto
    have len: "length ?p + length (drop 65536 data) = length data" by simp
    then have bound: "storedSize (ps @ [?p]) + 4 * length (drop 65536 data) < 2 ^ 64"
      using "1.prems"(2) size by simp
    then have "holds (storeChunk ?p w) (ps @ [?p])" by (intro holds_store "1.prems"(1) p) linarith
    from "1.IH" [OF False this bound] obtain qs where
      qs: "holds (writeChunks (drop 65536 data) (storeChunk ?p w)) ((ps @ [?p]) @ qs)"
        "concat qs = drop 65536 data" "storedSize qs \<le> 4 * length (drop 65536 data)" by blast
    then have "holds (writeChunks data w) (ps @ (?p # qs))"
      using False by (subst writeChunks.simps) simp
    moreover have "concat (?p # qs) = data" using qs(2) by simp
    moreover have "storedSize (?p # qs) \<le> 4 * length data" using qs(3) size len by (simp del: length_take length_drop)
    ultimately show ?thesis by blast
  qed (use "1.prems" in \<open>auto simp: writeChunks.simps intro!: exI [of _ "[]"]\<close>)
qed

lemma xzWriteAll_holds:
  "holds w ps \<Longrightarrow> storedSize ps + 4 * length (concat ds) < 2 ^ 64 \<Longrightarrow>
     \<exists>w' qs. xzWriteAll ds w = Some w' \<and> holds w' (ps @ qs) \<and> concat qs = concat ds \<and>
             storedSize qs \<le> 4 * length (concat ds)"
proof (induction ds arbitrary: w ps)
  case (Cons d ds)
  obtain qs where q: "holds (writeChunks d w) (ps @ qs)" "concat qs = d" "storedSize qs \<le> 4 * length d"
    using writeChunks_holds [OF Cons.prems(1), of d] Cons.prems(2) by auto
  obtain w' rs where r: "xzWriteAll ds (writeChunks d w) = Some w'" "holds w' ((ps @ qs) @ rs)"
      "concat rs = concat ds" "storedSize rs \<le> 4 * length (concat ds)"
    using Cons.IH [OF q(1)] Cons.prems(2) q(3) by auto
  have "xzWriteAll (d # ds) w = Some w'" using r(1) Cons.prems(1) by (simp add: xzWrite_def holds_def)
  moreover have "holds w' (ps @ (qs @ rs))" "concat (qs @ rs) = concat (d # ds)"
    "storedSize (qs @ rs) \<le> 4 * length (concat (d # ds))" using q r by simp_all
  ultimately show ?case by blast
qed (auto intro!: exI [of _ "[]"])

lemma xzCompress_stream:
  assumes "length (concat ds) < 2 ^ 60"
  shows "\<exists>ps. xzCompress ds = Some (streamOf ps) \<and> concat ps = concat ds \<and>
    (\<forall>p \<in> set ps. pieceOk p) \<and> storedSize ps < 2 ^ 62"
proof -
  obtain w ps where w: "xzWriteAll ds newXZWriter = Some w" "holds w ps" "concat ps = concat ds"
      "storedSize ps \<le> 4 * length (concat ds)"
    using xzWriteAll_holds [OF holds_new, of ds] assms by auto
  have small: "storedSize ps < 2 ^ 62" using w(4) assms by simp
  have c: "unat (xw_compressed w) = storedSize ps" "unat (xw_uncompressed w) = length (concat ps)" "\<not> xw_closed w"
    using w(2) by (simp_all add: holds_def)
  have n: "xw_compressed w = of_nat (storedSize ps)" "xw_uncompressed w = of_nat (length (concat ps))"
    unfolding c(1,2) [symmetric] by simp_all
  have u: "12 + (xw_compressed w + 1) = of_nat (storedSize ps + 13)" unfolding n by simp
  have "unat (12 + (xw_compressed w + 1)) = storedSize ps + 13"
    unfolding u unat_of_nat by (rule mod_less) (use small in simp)
  with n u c(3) have "xw_output (xzClose w) = streamOf ps"
    using w(2) unfolding holds_def xzClose_def streamOf_def Let_def by (simp del: of_nat_add)
  with w small show ?thesis by (auto simp: xzCompress_def holds_def)
qed


section \<open>Reading a stored block\<close>

lemma xzRead_cong:
  assumes "\<not> xz_finished x" "\<not> xz_finished y" "openBlock x = openBlock y"
  shows "drain n x = drain n y"
proof -
  have "xzRead n x = xzRead n y" using assms by (simp add: xzRead.simps [of n])
  then show ?thesis by (subst (1 2) drain.simps) simp
qed

lemma openBlock_open: "xz_block x = Some r \<Longrightarrow> openBlock x = Ret x"
  by (subst openBlock.simps) simp

lemma xzRead_open:
  assumes "\<not> xz_finished x" "xz_block x = Some r"
  shows "xzRead n x = chain (lzma2Read n (xz_input x) r) (\<lambda>(result, input, r).
     case result of
       Some out \<Rightarrow> Ret (Some out, x\<lparr>xz_input := input, xz_block := Some r, xz_check := checkWrite (xz_check x) out\<rparr>)
     | None \<Rightarrow> chain (finishBlock r (x\<lparr>xz_input := input\<rparr>)) (xzRead n))"
  using assms by (subst xzRead.simps) (simp add: openBlock_open)

lemma fillBuffer_ready: "l2_consumed r < length (l2_buf r) \<Longrightarrow> fillBuffer input r = Ret (True, input, r)"
  by (subst fillBuffer.simps) simp

lemma fillBuffer_chunk:
  "l2_consumed r = length (l2_buf r) \<Longrightarrow> \<not> l2_finished r \<Longrightarrow> readChunk input (compact r) = Ret (input', r') \<Longrightarrow>
     fillBuffer input r = fillBuffer input' r'"
  by (subst fillBuffer.simps) simp

lemma compact_frame [simp]:
  "l2_finished (compact r) = l2_finished r" "l2_compressed (compact r) = l2_compressed r"
  "l2_sawDictInit (compact r) = l2_sawDictInit r"
  by (simp_all add: compact_def Let_def)

lemma compact_drained:
  "l2_consumed r = length (l2_buf r) \<Longrightarrow> l2_consumed (compact r) = length (l2_buf (compact r))"
  by (auto simp: compact_def Let_def)

text \<open>A reader with no check in an open block.\<close>

definition inBlock :: "xzReader \<Rightarrow> lzma2Reader \<Rightarrow> bool" where
  "inBlock x r \<longleftrightarrow> \<not> xz_finished x \<and> xz_block x = Some r \<and> ck_kind (xz_check x) = 0 \<and> ck_size (xz_check x) = 0 \<and>
     \<not> l2_finished r \<and> l2_consumed r \<le> length (l2_buf r)"

lemma check_none: "ck_kind c = 0 \<Longrightarrow> checkWrite c out = c"
  by (simp add: checkWrite_def)

lemma drain_unread:
  "inBlock x r \<Longrightarrow>
     drain n x = chain (drain n (x\<lparr>xz_block := Some (r\<lparr>l2_consumed := length (l2_buf r)\<rparr>)\<rparr>))
                   (\<lambda>more. Ret (drop (l2_consumed r) (l2_buf r) @ more))"
proof (induction "length (l2_buf r) - l2_consumed r" arbitrary: x r rule: less_induct)
  case less
  show ?case
  proof (cases "l2_consumed r < length (l2_buf r)")
    case True
    let ?unread = "drop (l2_consumed r) (l2_buf r)"
    let ?out = "take (n + 1) ?unread"
    let ?r = "r\<lparr>l2_consumed := l2_consumed r + length ?out\<rparr>"
    let ?x = "x\<lparr>xz_block := Some ?r\<rparr>"
    have b: "\<not> xz_finished x" "xz_block x = Some r" "ck_kind (xz_check x) = 0"
      using less.prems by (simp_all add: inBlock_def)
    have "xzRead n x = Ret (Some ?out, ?x)"
      using True b by (simp add: xzRead_open lzma2Read_def fillBuffer_ready check_none Let_def)
    then have d: "drain n x = chain (drain n ?x) (\<lambda>more. Ret (?out @ more))"
      by (subst drain.simps) simp
    have "inBlock ?x ?r" using less.prems by (auto simp: inBlock_def)
    then have "drain n ?x = chain (drain n (?x\<lparr>xz_block := Some (?r\<lparr>l2_consumed := length (l2_buf ?r)\<rparr>)\<rparr>))
        (\<lambda>more. Ret (drop (l2_consumed ?r) (l2_buf ?r) @ more))"
      using True by (intro less.hyps) auto
    moreover have "?out @ drop (l2_consumed ?r) (l2_buf ?r) = ?unread"
    proof -
      have "take k u @ drop (length (take k u)) u = u" for k and u :: bytes by (cases "k \<le> length u") simp_all
      moreover have "drop (l2_consumed ?r) (l2_buf ?r) = drop (length ?out) ?unread"
        by (simp add: add.commute)
      ultimately show ?thesis by (simp only:)
    qed
    ultimately show ?thesis unfolding d by (simp add: chain_assoc flip: append_assoc)
  next
    case False
    with less.prems have "l2_consumed r = length (l2_buf r)" "xz_block x = Some r" by (auto simp: inBlock_def)
    then have "x\<lparr>xz_block := Some (r\<lparr>l2_consumed := length (l2_buf r)\<rparr>)\<rparr> = x" by simp
    with False show ?thesis by (cases "drain n x") simp_all
  qed
qed

lemma drain_fill:
  assumes "inBlock x r" "l2_consumed r = length (l2_buf r)" "readChunk (xz_input x) (compact r) = Ret (input, r')"
  shows "drain n x = drain n (x\<lparr>xz_input := input, xz_block := Some r'\<rparr>)"
proof -
  let ?y = "x\<lparr>xz_input := input, xz_block := Some r'\<rparr>"
  have b: "\<not> xz_finished x" "xz_block x = Some r" "\<not> l2_finished r" using assms(1) by (simp_all add: inBlock_def)
  have "lzma2Read n (xz_input x) r = lzma2Read n input r'"
    unfolding lzma2Read_def using fillBuffer_chunk [OF assms(2) b(3) assms(3)] by simp
  moreover have "xzRead n ?y = chain (lzma2Read n (xz_input ?y) r') (\<lambda>(result, i, r).
     case result of
       Some out \<Rightarrow> Ret (Some out, ?y\<lparr>xz_input := i, xz_block := Some r, xz_check := checkWrite (xz_check ?y) out\<rparr>)
     | None \<Rightarrow> chain (finishBlock r (?y\<lparr>xz_input := i\<rparr>)) (xzRead n))"
    by (rule xzRead_open) (use b in simp_all)
  moreover have "finishBlock s (?y\<lparr>xz_input := i\<rparr>) = finishBlock s (x\<lparr>xz_input := i\<rparr>)" for s i
    by (simp add: finishBlock_def cong: if_cong)
  ultimately have "xzRead n x = xzRead n ?y"
    using xzRead_open [OF b(1,2), of n] by (cases "lzma2Read n input r'") (auto split: option.split)
  then show ?thesis by (subst (1 2) drain.simps) simp
qed

lemma drain_block:
  "inBlock x r \<Longrightarrow> l2_consumed r = length (l2_buf r) \<Longrightarrow> \<forall>p \<in> set ps. pieceOk p \<Longrightarrow> first \<or> l2_sawDictInit r \<Longrightarrow>
   xz_input x = stored first ps @ [0] @ replicate (paddingOf (l2_compressed r + storedSize ps + 1)) 0 @ tail \<Longrightarrow>
     drain n x = chain (drain n (x\<lparr>xz_input := tail, xz_block := None\<rparr>)) (\<lambda>more. Ret (concat ps @ more))"
proof (induction ps arbitrary: x r first)
  case Nil
  let ?pad = "replicate (paddingOf (l2_compressed r + 1)) 0"
  let ?r = "(compact r)\<lparr>l2_compressed := l2_compressed r + 1, l2_finished := True\<rparr>"
  have b: "\<not> xz_finished x" "xz_block x = Some r" "\<not> l2_finished r" "ck_size (xz_check x) = 0"
    using Nil.prems(1) by (simp_all add: inBlock_def)
  have input: "xz_input x = 0 # ?pad @ tail" using Nil.prems(5) by simp
  have "readChunk (xz_input x) (compact r) = Ret (?pad @ tail, ?r)"
    by (simp add: readChunk_def input Let_def)
  then have d: "drain n x = drain n (x\<lparr>xz_input := ?pad @ tail, xz_block := Some ?r\<rparr>)"
    by (rule drain_fill [OF Nil.prems(1,2)])
  let ?y = "x\<lparr>xz_input := ?pad @ tail, xz_block := Some ?r\<rparr>"
  let ?z = "x\<lparr>xz_input := tail, xz_block := None\<rparr>"
  have "fillBuffer (?pad @ tail) ?r = Ret (False, ?pad @ tail, ?r)"
    using compact_drained [OF Nil.prems(2)] by (subst fillBuffer.simps) simp
  then have read: "lzma2Read n (xz_input ?y) ?r = Ret (None, ?pad @ tail, ?r)" by (simp add: lzma2Read_def)
  have finish: "finishBlock ?r (?y\<lparr>xz_input := ?pad @ tail\<rparr>) = Ret ?z"
    using b(4) by (simp add: finishBlock_def discard_def readFull_def)
  have y: "\<not> xz_finished ?y" "xz_block ?y = Some ?r" using b by simp_all
  have "xzRead n ?y = xzRead n ?z"
    unfolding xzRead_open [OF y] read chain.simps prod.case option.case finish ..
  then have "drain n ?y = drain n ?z" by (subst (1 2) drain.simps) simp
  with d show ?case by (cases "drain n ?z") simp_all
next
  case (Cons p ps)
  let ?rest = "[0] @ replicate (paddingOf (l2_compressed r + storedSize (p # ps) + 1)) 0 @ tail"
  have "xz_input x = stored first (p # ps) @ ?rest" using Cons.prems(5) by simp
  moreover obtain r' where r': "readChunk (stored first (p # ps) @ ?rest) (compact r) = Ret (stored False ps @ ?rest, r')"
      "grown (compact r) p r'"
    using readChunk_stored [of p first "compact r" ps ?rest] Cons.prems(3,4) by auto
  ultimately have d: "drain n x = drain n (x\<lparr>xz_input := stored False ps @ ?rest, xz_block := Some r'\<rparr>)"
    using drain_fill [OF Cons.prems(1,2)] by simp
  let ?y = "x\<lparr>xz_input := stored False ps @ ?rest, xz_block := Some r'\<rparr>"
  let ?r = "r'\<lparr>l2_consumed := length (l2_buf r')\<rparr>"
  have g: "l2_buf r' = l2_buf (compact r) @ p" "l2_consumed r' = length (l2_buf (compact r))" "\<not> l2_finished r'"
      "l2_compressed r' = l2_compressed r + (length p + 3)" "l2_sawDictInit r'"
    using r'(2) Cons.prems(1) compact_drained [OF Cons.prems(2)] by (auto simp: grown_def inBlock_def)
  have "inBlock ?y r'" using Cons.prems(1) g by (auto simp: inBlock_def)
  from drain_unread [OF this, of n] g(1,2)
  have u: "drain n ?y = chain (drain n (?y\<lparr>xz_block := Some ?r\<rparr>)) (\<lambda>more. Ret (p @ more))" by simp
  have "drain n (?y\<lparr>xz_block := Some ?r\<rparr>) =
      chain (drain n ((?y\<lparr>xz_block := Some ?r\<rparr>)\<lparr>xz_input := tail, xz_block := None\<rparr>)) (\<lambda>more. Ret (concat ps @ more))"
  proof (rule Cons.IH [of _ ?r False])
    show "inBlock (?y\<lparr>xz_block := Some ?r\<rparr>) ?r" using Cons.prems(1) g(3) by (auto simp: inBlock_def)
    show "xz_input (?y\<lparr>xz_block := Some ?r\<rparr>) =
        stored False ps @ [0] @ replicate (paddingOf (l2_compressed ?r + storedSize ps + 1)) 0 @ tail"
      using g(4) by (simp add: ac_simps)
  qed (use Cons.prems(3) g(5) in auto)
  with d u show ?case by (simp add: chain_assoc)
qed

section \<open>Headers, index and footer\<close>

lemma length_le32 [simp]: "length (le32 c) = 4"
  by (simp add: le32_def)

lemma getU32_le32: "length a = k \<Longrightarrow> getU32 (a @ le32 c @ b) k = c"
proof -
  assume "length a = k"
  then have "slice (a @ le32 c @ b) k (k + 4) = slice (le32 c) 0 (0 + 4)" by (simp add: slice_def)
  then have "getU32 (a @ le32 c @ b) k = getU32 (le32 c) 0" by (rule u32.get_slice)
  then show ?thesis by (simp add: le32_def u32.get_put)
qed

lemma readFull_append: "length a = n \<Longrightarrow> readFull n (a @ b) = Ret (a, b)"
  by (simp add: readFull_def)

definition noCheck :: xzChecker where
  "noCheck = \<lparr>ck_kind = 0, ck_size = 0, ck_crc32 = 0, ck_crc64 = 0, ck_digest = []\<rparr>"

lemma readStreamHeader_written:
  assumes "xz_input x = xzStreamMagic @ [0, 0] @ le32 (crc32 [0, 0]) @ rst"
  shows "readStreamHeader x = Ret (x\<lparr>xz_input := rst, xz_check := noCheck\<rparr>)"
proof -
  let ?h = "xzStreamMagic @ [0, 0] @ le32 (crc32 [0, 0])"
  have h: "readFull 12 (xz_input x) = Ret (?h, rst)"
    using readFull_append [of ?h 12 rst] assms by (simp add: xzStreamMagic_def)
  have "take 6 ?h = xzStreamMagic" "?h ! 6 = 0" "?h ! 7 = 0" "slice ?h 6 8 = [0, 0]"
    by (simp_all add: xzStreamMagic_def slice_def nth_append)
  moreover have "getU32 ?h 8 = crc32 [0, 0]"
    using getU32_le32 [of "xzStreamMagic @ [0, 0]" 8 "crc32 [0, 0]" "[]"] by (simp add: xzStreamMagic_def)
  ultimately show ?thesis
    unfolding readStreamHeader_def h chain.simps prod.case
    by (simp add: newXZChecker_def checkSize_def noCheck_def)
qed

lemma parse_written: "parseXZBlockHeader xzBlockHeader = Ret 4096"
  by (simp add: parseXZBlockHeader_def xzBlockHeader_def skipSize_def readXZVLI_def readVLI.simps Let_def
      lzma2DictSize_def)

lemma startBlock_written:
  assumes "xz_input x = xzBlockHeader @ le32 (crc32 xzBlockHeader) @ rst"
  shows "startBlock x = Ret (x\<lparr>xz_input := rst, xz_block := Some (newLZMA2Reader 4096),
                               xz_check := checkReset (xz_check x)\<rparr>)"
proof -
  define t where "t = tl xzBlockHeader @ le32 (crc32 xzBlockHeader)"
  have h: "2 # t = xzBlockHeader @ le32 (crc32 xzBlockHeader)" by (simp add: t_def xzBlockHeader_def)
  have r: "readByte (xz_input x) = Ret (2, t @ rst)"
    unfolding assms by (simp add: t_def xzBlockHeader_def)
  have f: "readFull 11 (t @ rst) = Ret (t, rst)" by (rule readFull_append) (simp add: t_def xzBlockHeader_def)
  have g: "getU32 (2 # t) 8 = crc32 xzBlockHeader"
    unfolding h using getU32_le32 [of xzBlockHeader 8 "crc32 xzBlockHeader" "[]"] by (simp add: xzBlockHeader_def)
  have b: "2 # take 7 t = xzBlockHeader" by (simp add: t_def xzBlockHeader_def)
  show ?thesis
    unfolding startBlock_def r chain.simps prod.case by (simp add: Let_def f g b parse_written)
qed

lemma skipIndex_written:
  assumes "unat u < 2 ^ 63" "unat v < 2 ^ 63" "length crc = 4"
  shows "skipIndex (tl (xzIndex u v) @ crc @ rst) = Ret rst"
proof -
  let ?pad = "replicate (paddingOf (2 + length (xzVLI u) + length (xzVLI v))) 0 :: bytes"
  have "tl (xzIndex u v) @ crc @ rst = xzVLI 1 @ xzVLI u @ xzVLI v @ ?pad @ crc @ rst"
    by (simp add: xzIndex_def xzVLI_last Let_def add.assoc)
  moreover have "readXZVLI (xzVLI 1 @ rest) = Ret (1, 1, rest)" for rest
    using readXZVLI_xzVLI [of 1 rest] by (simp add: xzVLI_last)
  moreover have "discard (length a) (a @ b) = Ret b" for a b :: bytes by (simp add: discard_def readFull_append)
  from this [of ?pad] this [of crc] have "discard (paddingOf (2 + length (xzVLI u) + length (xzVLI v))) (?pad @ b) = Ret b"
    "discard 4 (crc @ b) = Ret b" for b using assms(3) by simp_all
  ultimately show ?thesis
    by (simp add: skipIndex_def readXZVLI_xzVLI [OF assms(1)] readXZVLI_xzVLI [OF assms(2)])
qed

lemma skipStreamPadding_none: "rst = [] \<or> hd rst \<noteq> 0 \<Longrightarrow> skipStreamPadding rst = rst"
  by (cases rst rule: skipStreamPadding.cases) auto

text \<open>After the footer the reader is finished, or the next stream begins.\<close>

lemma finishStream_written:
  assumes "unat u < 2 ^ 63" "unat v < 2 ^ 63" "rst = [] \<or> hd rst \<noteq> 0"
    and "xz_input x = tl (xzIndex u v) @ le32 c @ xzFooter (xzIndex u v) @ rst"
  shows "finishStream x = (if rst = [] then Ret (x\<lparr>xz_input := [], xz_finished := True\<rparr>)
                           else readStreamHeader (x\<lparr>xz_input := rst\<rparr>))"
proof -
  let ?f = "xzFooter (xzIndex u v)"
  have len: "length ?f = 12" by (simp add: xzFooter_def Let_def)
  have yz: "?f ! 10 = 0x59" "?f ! 11 = 0x5a" by (simp_all add: xzFooter_def Let_def nth_append)
  have s: "skipIndex (xz_input x) = Ret (?f @ rst)"
    unfolding assms(4) by (rule skipIndex_written [OF assms(1,2)]) simp
  show ?thesis
    unfolding finishStream_def s chain.simps readFull_append [OF len] prod.case
    by (simp add: yz skipStreamPadding_none [OF assms(3)] Let_def)
qed

section \<open>Streams\<close>

definition smallPieces :: "bytes list \<Rightarrow> bool" where
  "smallPieces ps \<longleftrightarrow> (\<forall>p \<in> set ps. pieceOk p) \<and> storedSize ps < 2 ^ 62"

lemma streamOf_magic: "\<exists>r. streamOf ps = 0xfd # r"
  by (simp add: streamOf_def xzHeader_def xzStreamMagic_def Let_def)

lemma openBlock_start:
  assumes "xz_block x = None" "\<not> xz_finished x" "startBlock x = Ret y"
  shows "openBlock x = openBlock y"
  using assms by (subst openBlock.simps) simp

text \<open>Reading on after a stream header gives the data of this stream and of the ones behind it.\<close>

lemma checkReset_none [simp]: "checkReset noCheck = noCheck"
  by (simp add: checkReset_def noCheck_def)

lemma padding_13: "paddingOf (n + 13) = paddingOf (n + 1)"
proof -
  have "(n + 13) mod 4 = (n + 1) mod 4" by presburger
  then show ?thesis by (simp add: paddingOf_def)
qed

lemma unat_of_nat_small: "n < 2 ^ 63 \<Longrightarrow> unat (of_nat n :: u64) < 2 ^ 63"
  by (simp add: unat_of_nat)

lemma xzIndex_append:
  "xzIndex u v @ rst = 0 # tl (xzIndex u v @ rst)" "tl (xzIndex u v @ rst) = tl (xzIndex u v) @ rst"
  by (simp_all add: xzIndex_def Let_def)

lemma drop_streamOf:
  "drop 12 (streamOf ps) = (let index = xzIndex (of_nat (storedSize ps + 13)) (of_nat (length (concat ps))) in
     xzBlockHeader @ le32 (crc32 xzBlockHeader) @ stored True ps @ [0] @ replicate (paddingOf (storedSize ps + 1)) 0 @
     index @ le32 (crc32 index) @ xzFooter index)"
  by (simp add: streamOf_def xzHeader_def xzStreamMagic_def Let_def padding_13 del: of_nat_add)

lemma streamOf_split:
  "streamOf ps = xzStreamMagic @ [0, 0] @ le32 (crc32 [0, 0]) @ drop 12 (streamOf ps)"
  by (simp add: streamOf_def xzHeader_def xzStreamMagic_def Let_def)

lemma startBlock_index: "xz_input x = 0 # rst \<Longrightarrow> startBlock x = finishStream (x\<lparr>xz_input := rst\<rparr>)"
  by (simp add: startBlock_def)

lemma drain_finished:
  assumes "xz_block x = None" "\<not> xz_finished x" "startBlock x = Ret y" "xz_finished y"
  shows "drain n x = Ret []"
proof -
  have "openBlock x = Ret y" using assms by (simp add: openBlock_start) (subst openBlock.simps, simp)
  then have "xzRead n x = Ret (None, y)" using assms by (subst xzRead.simps) simp
  then show ?thesis by (subst drain.simps) simp
qed

lemma drain_start:
  assumes "xz_block x = None" "\<not> xz_finished x" "startBlock x = Ret y" "\<not> xz_finished y"
  shows "drain n x = drain n y"
  using assms by (intro xzRead_cong) (simp_all add: openBlock_start)

text \<open>One stream: its data, then whatever follows its block.\<close>

lemma drain_stream:
  assumes "smallPieces ps" "xz_block x = None" "\<not> xz_finished x" "xz_check x = noCheck"
    and "xz_input x = drop 12 (streamOf ps) @ rst" "rst = [] \<or> hd rst \<noteq> 0"
  shows "drain n x = (if rst = [] then Ret (concat ps)
    else chain (chain (readStreamHeader (x\<lparr>xz_input := rst\<rparr>)) (drain n)) (\<lambda>out. Ret (concat ps @ out)))"
proof -
  let ?u = "of_nat (storedSize ps + 13) :: u64" and ?v = "of_nat (length (concat ps)) :: u64"
  let ?i = "xzIndex ?u ?v"
  let ?tail = "?i @ le32 (crc32 ?i) @ xzFooter ?i @ rst"
  let ?body = "stored True ps @ [0] @ replicate (paddingOf (storedSize ps + 1)) 0 @ ?tail"
  let ?r = "newLZMA2Reader 4096"
  let ?y = "x\<lparr>xz_input := ?body, xz_block := Some ?r\<rparr>"
  let ?z = "x\<lparr>xz_input := ?tail\<rparr>"
  have "length (concat qs) \<le> storedSize qs" for qs by (induction qs) auto
  from this [of ps] have "storedSize ps + 13 < 2 ^ 63" "length (concat ps) < 2 ^ 63"
    using assms(1) by (auto simp: smallPieces_def)
  note small = this [THEN unat_of_nat_small]
  have "startBlock x = Ret ?y"
    using startBlock_written [of x ?body] assms(4,5) by (simp add: drop_streamOf Let_def del: of_nat_add)
  then have "drain n x = drain n ?y" using assms(2,3) by (intro drain_start) simp_all
  also have "drain n ?y = chain (drain n (?y\<lparr>xz_input := ?tail, xz_block := None\<rparr>)) (\<lambda>out. Ret (concat ps @ out))"
    by (rule drain_block [where first = True])
      (use assms in \<open>auto simp: inBlock_def newLZMA2Reader_def noCheck_def smallPieces_def\<close>)
  also have "?y\<lparr>xz_input := ?tail, xz_block := None\<rparr> = ?z" using assms(2) by simp
  finally have d: "drain n x = chain (drain n ?z) (\<lambda>out. Ret (concat ps @ out))" .
  have "startBlock ?z = finishStream (?z\<lparr>xz_input := tl ?tail\<rparr>)"
    using xzIndex_append(1) [of ?u ?v] by (intro startBlock_index) (simp del: of_nat_add)
  also have "\<dots> = (if rst = [] then Ret ((?z\<lparr>xz_input := tl ?tail\<rparr>)\<lparr>xz_input := [], xz_finished := True\<rparr>)
      else readStreamHeader ((?z\<lparr>xz_input := tl ?tail\<rparr>)\<lparr>xz_input := rst\<rparr>))"
    by (rule finishStream_written [OF small assms(6)]) (simp add: xzIndex_append(2) del: of_nat_add)
  finally have s: "startBlock ?z = (if rst = [] then Ret (x\<lparr>xz_input := [], xz_finished := True\<rparr>)
      else readStreamHeader (x\<lparr>xz_input := rst\<rparr>))" by simp
  define z where "z = ?z"
  have z: "xz_block z = None" "\<not> xz_finished z" using assms(2,3) by (simp_all add: z_def)
  note s = s [folded z_def] and d = d [folded z_def]
  show ?thesis
  proof (cases "rst = []")
    case True
    with s have "drain n z = Ret []" by (intro drain_finished [OF z]) auto
    with True d show ?thesis by simp
  next
    case False
    then have s': "startBlock z = readStreamHeader (x\<lparr>xz_input := rst\<rparr>)" using s by simp
    have "drain n z = chain (readStreamHeader (x\<lparr>xz_input := rst\<rparr>)) (drain n)"
    proof (cases "readStreamHeader (x\<lparr>xz_input := rst\<rparr>)")
      case (Ret w)
      with readStreamHeader_shorter [of "x\<lparr>xz_input := rst\<rparr>" w] have "\<not> xz_finished w" using assms(3) by simp
      with Ret s' drain_start [OF z, of w n] show ?thesis by simp
    qed (use s' z in \<open>subst drain.simps, subst xzRead.simps, subst openBlock.simps, simp\<close>)+
    with False d show ?thesis by simp
  qed
qed

lemma drain_streams:
  "\<forall>qs \<in> set (ps # pss). smallPieces qs \<Longrightarrow> xz_block x = None \<Longrightarrow> \<not> xz_finished x \<Longrightarrow>
   xz_check x = noCheck \<Longrightarrow> xz_input x = drop 12 (streamOf ps) @ concat (map streamOf pss) \<Longrightarrow>
     drain n x = Ret (concat (map concat (ps # pss)))"
proof (induction pss arbitrary: ps x)
  case Nil
  then show ?case using drain_stream [of ps x "[]" n] by simp
next
  case (Cons qs pss)
  define rst where "rst = concat (map streamOf (qs # pss))"
  obtain t where t: "streamOf qs = 0xfd # t" using streamOf_magic by blast
  then have ne: "rst \<noteq> []" "hd rst \<noteq> 0" by (simp_all add: rst_def)
  let ?w = "x\<lparr>xz_input := drop 12 (streamOf qs) @ concat (map streamOf pss), xz_check := noCheck\<rparr>"
  have "readStreamHeader (x\<lparr>xz_input := rst\<rparr>) = Ret ?w"
    using readStreamHeader_written [of "x\<lparr>xz_input := rst\<rparr>" "drop 12 (streamOf qs) @ concat (map streamOf pss)"]
      streamOf_split [of qs] by (simp add: rst_def)
  moreover have "drain n ?w = Ret (concat (map concat (qs # pss)))"
    by (rule Cons.IH) (use Cons.prems in auto)
  moreover have "drain n x = (if rst = [] then Ret (concat ps)
      else chain (chain (readStreamHeader (x\<lparr>xz_input := rst\<rparr>)) (drain n)) (\<lambda>out. Ret (concat ps @ out)))"
    by (rule drain_stream) (use Cons.prems ne rst_def in auto)
  ultimately show ?case using ne by simp
qed

lemma xz_streams_read_back:
  assumes "inputs \<noteq> []" "\<forall>ds \<in> set inputs. length (concat ds) < 2 ^ 60"
  shows "\<exists>streams. map xzCompress inputs = map Some streams \<and>
    xzDecompress n (concat streams) = Ret (concat (map concat inputs))"
proof -
  have "\<exists>pss. map xzCompress inputs = map (\<lambda>ps. Some (streamOf ps)) pss \<and> map concat pss = map concat inputs \<and>
      (\<forall>ps \<in> set pss. smallPieces ps)"
    using assms(2)
  proof (induction inputs)
    case (Cons ds inputs)
    obtain ps where "xzCompress ds = Some (streamOf ps)" "concat ps = concat ds" "smallPieces ps"
      using xzCompress_stream [of ds] Cons.prems by (auto simp: smallPieces_def)
    moreover obtain pss where "map xzCompress inputs = map (\<lambda>ps. Some (streamOf ps)) pss"
        "map concat pss = map concat inputs" "\<forall>ps \<in> set pss. smallPieces ps"
      using Cons by auto
    ultimately show ?case by (intro exI [of _ "ps # pss"]) simp
  qed simp
  then obtain pss where pss: "map xzCompress inputs = map (\<lambda>ps. Some (streamOf ps)) pss"
      "map concat pss = map concat inputs" "\<forall>ps \<in> set pss. smallPieces ps" by blast
  from pss(1) assms(1) obtain ps qss where c: "pss = ps # qss" by (cases pss) auto
  let ?x = "\<lparr>xz_input = drop 12 (streamOf ps) @ concat (map streamOf qss), xz_check = noCheck,
    xz_block = None, xz_finished = False\<rparr>"
  have "newXZReader (concat (map streamOf pss)) = Ret ?x"
    using streamOf_split [of ps] c
      readStreamHeader_written [of "\<lparr>xz_input = concat (map streamOf pss), xz_check = noCheck, xz_block = None, xz_finished = False\<rparr>"
        "drop 12 (streamOf ps) @ concat (map streamOf qss)"]
    by (simp add: newXZReader_def noCheck_def)
  moreover have "drain n ?x = Ret (concat (map concat (ps # qss)))"
    by (rule drain_streams) (use pss(3) c in simp_all)
  moreover have "concat (map concat (ps # qss)) = concat (map concat inputs)" unfolding c [symmetric] pss(2) ..
  ultimately have "xzDecompress n (concat (map streamOf pss)) = Ret (concat (map concat inputs))"
    by (simp only: xzDecompress_def chain.simps)
  with pss(1) show ?thesis by (intro exI [of _ "map streamOf pss"]) (simp add: comp_def)
qed

text \<open>C16: what \<open>xz\<close> writes, \<open>unxz\<close> reads back: any number of compressed streams, each from any sequence
  of writes, concatenated, decompress to the concatenated data, whatever buffer the reader's caller uses.\<close>

theorem xz_roundtrip:
  assumes "inputs \<noteq> []" "\<forall>ds \<in> set inputs. length (concat ds) < 2 ^ 60"
  shows "\<exists>streams. map xzCompress inputs = map Some streams \<and>
    xzDecompress n (concat streams) = Ret (concat (map concat inputs))"
  using assms by (rule xz_streams_read_back)

theorem xz_roundtrip_witness:
  "\<exists>streams. map xzCompress [[[1, 2, 3], [], [4]], [[5]]] = map Some streams \<and>
    xzDecompress 99 (concat streams) = Ret [1, 2, 3, 4, 5]"
  using xz_roundtrip [of "[[[1, 2, 3], [], [4]], [[5]]]" 99] by simp

end
