(* ===== verification/ZstdRound.thy ===== *)
theory ZstdRound
  imports ZstdFrame
begin

text \<open>
  What the Zstandard writer produces, the reader reads back: the three bytes in front of a block, one block, the
  blocks of a frame, and frames one after another.
\<close>

section \<open>Blocks\<close>

definition encoded :: "bool \<Rightarrow> bytes \<Rightarrow> bytes" where
  "encoded final p =
     (if p \<noteq> [] \<and> zstdUniform p then blockHeader (length p) 1 final @ take 1 p
      else blockHeader (length p) 0 final @ p)"

lemma length_blockHeader: "length (blockHeader n t f) = 3"
  by (simp add: blockHeader_def Let_def)

lemma leNat_3: "leNat [a, b, c] = unat a + 256 * unat b + 65536 * unat c"
  by simp

lemma three_bytes:
  assumes "unat (x :: u32) < 2 ^ 24"
  shows "leNat [ucast (x AND 0xff), ucast (drop_bit 8 x AND 0xff), ucast (drop_bit 16 x AND 0xff)] = unat x"
proof -
  have byte: "unat (ucast (y AND 0xff) :: u8) = unat y mod 256" for y :: u32
  proof -
    have "y AND 0xff = take_bit 8 y" by (simp add: take_bit_eq_mask mask_eq_exp_minus_1)
    then show ?thesis by (simp only: unsigned_ucast_eq unsigned_take_bit_eq) (simp add: take_bit_eq_mod)
  qed
  have "unat (drop_bit 8 x) = unat x div 256" "unat (drop_bit 16 x) = unat x div 65536"
    unfolding unat_drop_bit_eq by (simp_all add: drop_bit_eq_div)
  then have "leNat [ucast (x AND 0xff), ucast (drop_bit 8 x AND 0xff), ucast (drop_bit 16 x AND 0xff)] =
      unat x mod 256 + 256 * (unat x div 256 mod 256) + 65536 * (unat x div 65536 mod 256)"
    unfolding leNat_3 byte by simp
  also have "\<dots> = unat x"
  proof -
    have "unat x div 65536 mod 256 = unat x div 65536" using assms by (intro mod_less) (simp add: div_less_iff_less_mult)
    moreover have "unat x div 256 = 256 * (unat x div 65536) + unat x div 256 mod 256"
      using mult_div_mod_eq [of 256 "unat x div 256"] by (simp add: div_mult2_eq [symmetric])
    moreover have "unat x = 256 * (unat x div 256) + unat x mod 256" by simp
    ultimately show ?thesis by linarith
  qed
  finally show ?thesis .
qed

lemma blockHeader_value:
  assumes "n \<le> 2 ^ 17" "t < 4"
  shows "leNat (blockHeader n t f) = 8 * n + 2 * t + (if f then 1 else 0)"
proof -
  let ?a = "push_bit 3 (of_nat n :: u32)" and ?b = "push_bit 1 (of_nat t :: u32)"
  have t: "(of_nat t :: u32) = take_bit 2 (of_nat t)"
    using assms(2) by (simp add: take_bit_of_nat take_bit_nat_eq_self)
  have b: "\<not> bit ?b k" if "k = 0 \<or> 3 \<le> k" for k
    unfolding bit_push_bit_iff using that by (subst t) (auto simp: bit_take_bit_iff)
  have a: "\<not> bit ?a k" if "k < 3" for k unfolding bit_push_bit_iff using that by simp
  have ab: "?a OR ?b = ?a + ?b"
    by (rule disjunctive_add [symmetric]) (metis a b not_le)
  have low: "?a + ?b OR 1 = ?a + ?b + 1"
    unfolding ab [symmetric]
    by (rule disjunctive_add [symmetric]) (metis a b bit_or_iff bit_1_iff zero_less_numeral)
  let ?x = "if f then ?a OR ?b OR 1 else ?a OR ?b"
  let ?m = "8 * n + 2 * t + (if f then 1 else 0)"
  have "?x = of_nat ?m"
    unfolding or.assoc [symmetric] ab low by (simp add: push_bit_eq_mult)
  moreover have "?m < 2 ^ 24" using assms by auto
  moreover have "unat (of_nat m :: u32) = m" if "m < 2 ^ 24" for m using that by (simp add: unat_of_nat)
  ultimately have x: "unat ?x = ?m" "unat ?x < 2 ^ 24" by (simp_all only:)
  have "leNat (blockHeader n t f) = unat ?x"
    unfolding blockHeader_def Let_def or.assoc by (rule three_bytes [OF x(2)])
  with x(1) show ?thesis by simp
qed


lemma uniform_replicate: "p \<noteq> [] \<Longrightarrow> zstdUniform p \<Longrightarrow> replicate (length p) (hd p) = p"
  by (cases p) (auto simp: zstdUniform_def intro: replicate_length_same)

lemma blockBody_encoded:
  assumes "length p \<le> 2 ^ 17"
  shows "\<exists>t < 4. \<exists>payload. encoded final p = blockHeader (length p) t final @ payload \<and>
    (\<forall>z rest. zr_input z = payload @ rest \<longrightarrow>
       blockBody t (length p) z = Ret (z\<lparr>zr_input := rest, zr_window := zr_window z @ p\<rparr>))"
proof (cases "p \<noteq> [] \<and> zstdUniform p")
  case True
  then have "take 1 p = [hd p]" by (cases p) auto
  with True uniform_replicate [of p] show ?thesis
    by (intro exI [of _ 1] conjI exI [of _ "take 1 p"]) (auto simp: encoded_def blockBody_def)
next
  case False
  then show ?thesis
    by (intro exI [of _ 0] conjI exI [of _ p]) (auto simp: encoded_def blockBody_def readFull_def)
qed

definition afterBlock :: "bytes \<Rightarrow> bytes \<Rightarrow> zstdReader \<Rightarrow> zstdReader" where
  "afterBlock p rest z =
     z\<lparr>zr_input := rest, zr_window := zr_window z @ p, zr_digest := xxWrite p (zr_digest z)\<rparr>"

lemma header_fields:
  fixes n t :: nat
  assumes "t < 4"
  shows "(8 * n + 2 * t + (if f then 1 else 0)) div 8 = n"
    "(8 * n + 2 * t + (if f then 1 else 0)) div 2 mod 4 = t"
    "(8 * n + 2 * t + (if f then 1 else 0)) mod 2 = (if f then 1 else 0 :: nat)"
proof -
  have "2 * t + (if f then 1 else 0) < 8" using assms by simp
  then show "(8 * n + 2 * t + (if f then 1 else 0)) div 8 = n" by (intro div_nat_eqI) simp_all
  have "(8 * n + 2 * t + (if f then 1 else 0)) div 2 = 4 * n + t" by simp
  with assms show "(8 * n + 2 * t + (if f then 1 else 0)) div 2 mod 4 = t" by (simp add: mod_add_left_eq)
  show "(8 * n + 2 * t + (if f then 1 else 0)) mod 2 = (if f then 1 else 0 :: nat)"
  proof -
    have "8 * n + 2 * t + x = x + 2 * (4 * n + t)" for x by simp
    then show ?thesis by (simp only: mod_mult_self2) simp
  qed
qed

lemma readBlock_encoded:
  assumes "length p \<le> 2 ^ 17" "zr_input z = encoded final p @ rest"
  shows "readBlock z = (if final then finishFrame (afterBlock p rest z) else Ret (afterBlock p rest z))"
proof -
  obtain t payload where t: "t < 4" "encoded final p = blockHeader (length p) t final @ payload"
      and body: "\<And>z rest. zr_input z = payload @ rest \<Longrightarrow>
        blockBody t (length p) z = Ret (z\<lparr>zr_input := rest, zr_window := zr_window z @ p\<rparr>)"
    using blockBody_encoded [OF assms(1), of final] by blast
  let ?v = "8 * length p + 2 * t + (if final then 1 else 0)"
  have v: "leNat (blockHeader (length p) t final) = ?v" by (rule blockHeader_value [OF assms(1) t(1)])
  have n: "?v div 8 = length p" "?v div 2 mod 4 = t" "?v mod 2 = (if final then 1 else 0)"
    by (rule header_fields [OF t(1)])+
  have "readFull 3 (zr_input z) = Ret (blockHeader (length p) t final, payload @ rest)"
    using assms(2) t(2) by (simp add: readFull_Ret length_blockHeader)
  then show ?thesis
    using assms(1) by (simp add: readBlock_def v n body Let_def afterBlock_def)
qed

section \<open>Reading\<close>

text \<open>A reader in a frame without a checksum.\<close>

definition inFrame :: "zstdReader \<Rightarrow> bool" where
  "inFrame z \<longleftrightarrow> \<not> zr_finished z \<and> \<not> zr_checksum z"

definition drained :: "zstdReader \<Rightarrow> bool" where
  "drained z \<longleftrightarrow> zr_consumed z = length (zr_window z)"

lemma zstdDrain_unread:
  "zr_consumed z \<le> length (zr_window z) \<Longrightarrow>
     zstdDrain n z = chain (zstdDrain n (z\<lparr>zr_consumed := length (zr_window z)\<rparr>))
                   (\<lambda>more. Ret (drop (zr_consumed z) (zr_window z) @ more))"
proof (induction "length (zr_window z) - zr_consumed z" arbitrary: z rule: less_induct)
  case less
  show ?case
  proof (cases "zr_consumed z < length (zr_window z)")
    case True
    let ?unread = "drop (zr_consumed z) (zr_window z)"
    let ?out = "take (n + 1) ?unread"
    let ?z = "z\<lparr>zr_consumed := zr_consumed z + length ?out\<rparr>"
    have "zstdRead n z = Ret (Some ?out, ?z)"
      using True by (simp add: zstdRead_def fillWindow.simps [of z] Let_def)
    then have d: "zstdDrain n z = chain (zstdDrain n ?z) (\<lambda>more. Ret (?out @ more))"
      by (subst zstdDrain.simps) simp
    have "zstdDrain n ?z = chain (zstdDrain n (?z\<lparr>zr_consumed := length (zr_window ?z)\<rparr>))
        (\<lambda>more. Ret (drop (zr_consumed ?z) (zr_window ?z) @ more))"
      using True by (intro less.hyps) auto
    moreover have "?out @ drop (zr_consumed ?z) (zr_window ?z) = ?unread"
    proof -
      have "take k u @ drop (length (take k u)) u = u" for k and u :: bytes by (cases "k \<le> length u") simp_all
      moreover have "drop (zr_consumed ?z) (zr_window ?z) = drop (length ?out) ?unread" by (simp add: add.commute)
      ultimately show ?thesis by (simp only:)
    qed
    ultimately show ?thesis unfolding d by (simp add: chain_assoc flip: append_assoc)
  next
    case False
    with less.prems have "zr_consumed z = length (zr_window z)" by simp
    then have "z\<lparr>zr_consumed := length (zr_window z)\<rparr> = z" by simp
    with False show ?thesis by (cases "zstdDrain n z") simp_all
  qed
qed

lemma zstdDrain_block:
  assumes "drained z" "\<not> zr_finished z" "readBlock (compactWindow z) = Ret y"
  shows "zstdDrain n z = zstdDrain n y"
proof -
  have "fillWindow z = fillWindow y" using assms by (subst fillWindow.simps) (simp add: drained_def)
  then have "zstdRead n z = zstdRead n y" by (simp add: zstdRead_def)
  then show ?thesis by (subst (1 2) zstdDrain.simps) simp
qed

lemma compactWindow_keeps:
  "inFrame z \<Longrightarrow> inFrame (compactWindow z)" "drained z \<Longrightarrow> drained (compactWindow z)"
  by (auto simp: compactWindow_def inFrame_def drained_def Let_def)


text \<open>One frame: the full blocks and the last one.\<close>

definition frameBody :: "bytes list \<Rightarrow> bytes \<Rightarrow> bytes" where
  "frameBody ps p = concat (map (encoded False) ps) @ encoded True p"

definition frameOf :: "bytes list \<Rightarrow> bytes \<Rightarrow> bytes" where
  "frameOf ps p = zstdFrameMagic @ [0, 0x38] @ frameBody ps p"

lemma readBlock_step:
  assumes "drained z" "inFrame z" "length p \<le> 2 ^ 17" "zr_input z = encoded False p @ rest"
  obtains y where "drained y" "inFrame y" "zr_input y = rest" "zstdDrain n z = chain (zstdDrain n y) (\<lambda>more. Ret (p @ more))"
proof -
  let ?c = "compactWindow z" let ?a = "afterBlock p rest ?c"
  let ?y = "?a\<lparr>zr_consumed := length (zr_window ?a)\<rparr>"
  have c: "drained ?c" "inFrame ?c" "zr_input ?c = encoded False p @ rest"
    using assms compactWindow_keeps by simp_all
  have "readBlock ?c = Ret ?a" using readBlock_encoded [OF assms(3) c(3)] by simp
  then have "zstdDrain n z = zstdDrain n ?a" using assms(1,2) by (intro zstdDrain_block) (simp_all add: inFrame_def)
  also have "\<dots> = chain (zstdDrain n ?y) (\<lambda>more. Ret (drop (zr_consumed ?a) (zr_window ?a) @ more))"
    by (rule zstdDrain_unread) (use c(1) in \<open>simp add: afterBlock_def drained_def\<close>)
  also have "drop (zr_consumed ?a) (zr_window ?a) = p" using c(1) by (simp add: afterBlock_def drained_def)
  finally show thesis
    by (intro that [of ?y]) (use c(2) in \<open>simp_all add: drained_def inFrame_def afterBlock_def\<close>)
qed

lemma readFrameHeader_written:
  "zr_input z = zstdFrameMagic @ [0, 0x38] @ rest \<Longrightarrow>
     \<exists>y. readFrameHeader z = Ret y \<and> zr_input y = rest \<and> zr_window y = zr_window z \<and>
         zr_consumed y = zr_consumed z \<and> zr_finished y = zr_finished z \<and> \<not> zr_checksum y"
proof -
  assume i: "zr_input z = zstdFrameMagic @ [0, 0x38] @ rest"
  have "getU32 zstdFrameMagic 0 AND 0xfffffff0 \<noteq> 0x184d2a50"
    by (simp add: getU32_def slice_def zstdFrameMagic_def)
  then have "skipToFrame (zstdFrameMagic @ 0 # 0x38 # rest) = Ret (0 # 0x38 # rest)"
    unfolding skipToFrame.simps [of "zstdFrameMagic @ 0 # 0x38 # rest"]
    by (simp add: readFull_def zstdFrameMagic_def)
  then show ?thesis
    by (simp add: readFrameHeader_def i windowField_def windowDescriptor_def dictionaryField_def
        contentField_def readFull_def Let_def)
qed

text \<open>The last block leaves the reader at the end or in the next frame.\<close>

lemma readBlock_last:
  assumes "drained z" "inFrame z" "length p \<le> 2 ^ 17" "zr_input z = encoded True p @ rest"
    and "rest = [] \<or> (\<exists>tl. rest = zstdFrameMagic @ [0, 0x38] @ tl)"
  obtains y where "drained y" "zstdDrain n z = chain (zstdDrain n y) (\<lambda>more. Ret (p @ more))"
    "if rest = [] then zr_finished y else inFrame y \<and> zstdFrameMagic @ [0, 0x38] @ zr_input y = rest"
proof -
  let ?c = "compactWindow z" let ?a = "afterBlock p rest ?c"
  have c: "drained ?c" "inFrame ?c" "zr_input ?c = encoded True p @ rest"
    using assms compactWindow_keeps by simp_all
  have a: "zr_input ?a = rest" "zr_window ?a = zr_window ?c @ p" "zr_consumed ?a = length (zr_window ?c)" "inFrame ?a"
    using c by (simp_all add: afterBlock_def drained_def inFrame_def)
  have "\<exists>f. finishFrame ?a = Ret f \<and> zr_window f = zr_window ?a \<and> zr_consumed f = zr_consumed ?a \<and>
      (if rest = [] then zr_finished f else inFrame f \<and> zstdFrameMagic @ [0, 0x38] @ zr_input f = rest)"
  proof (cases "rest = []")
    case True
    then show ?thesis using a by (simp add: finishFrame_def verifyChecksum_def nextFrame_def inFrame_def)
  next
    case False
    with assms(5) obtain tl where tl: "rest = zstdFrameMagic @ [0, 0x38] @ tl" by blast
    from readFrameHeader_written [of ?a tl] a tl obtain f where f: "readFrameHeader ?a = Ret f" "zr_input f = tl"
        "zr_window f = zr_window ?a" "zr_consumed f = zr_consumed ?a" "zr_finished f = zr_finished ?a" "\<not> zr_checksum f"
      by auto
    then show ?thesis
      using False a tl by (simp add: finishFrame_def verifyChecksum_def nextFrame_def inFrame_def)
  qed
  then obtain f where f: "finishFrame ?a = Ret f" "zr_window f = zr_window ?a" "zr_consumed f = zr_consumed ?a"
    "if rest = [] then zr_finished f else inFrame f \<and> zstdFrameMagic @ [0, 0x38] @ zr_input f = rest" by blast
  let ?y = "f\<lparr>zr_consumed := length (zr_window f)\<rparr>"
  have "readBlock ?c = Ret f" using readBlock_encoded [OF assms(3) c(3)] f(1) by simp
  then have "zstdDrain n z = zstdDrain n f" using assms(1,2) by (intro zstdDrain_block) (simp_all add: inFrame_def)
  also have "\<dots> = chain (zstdDrain n ?y) (\<lambda>more. Ret (drop (zr_consumed f) (zr_window f) @ more))"
    by (rule zstdDrain_unread) (use a f in simp)
  also have "drop (zr_consumed f) (zr_window f) = p" using a f by simp
  finally show thesis
    by (intro that [of ?y]) (use f(4) in \<open>simp_all add: drained_def inFrame_def split: if_splits\<close>)
qed

lemma zstdDrain_finished: "drained z \<Longrightarrow> zr_finished z \<Longrightarrow> zstdDrain n z = Ret []"
  by (subst zstdDrain.simps) (simp add: zstdRead_def fillWindow.simps [of z] drained_def)

lemma zstdDrain_frame:
  assumes "rest = [] \<or> (\<exists>tl. rest = zstdFrameMagic @ [0, 0x38] @ tl)" "length p \<le> 2 ^ 17"
  shows "drained z \<Longrightarrow> inFrame z \<Longrightarrow> \<forall>q \<in> set ps. length q \<le> 2 ^ 17 \<Longrightarrow> zr_input z = frameBody ps p @ rest \<Longrightarrow>
    \<exists>y. drained y \<and> zstdDrain n z = chain (zstdDrain n y) (\<lambda>more. Ret (concat ps @ p @ more)) \<and>
      (if rest = [] then zr_finished y else inFrame y \<and> zstdFrameMagic @ [0, 0x38] @ zr_input y = rest)"
proof (induction ps arbitrary: z)
  case Nil
  have i: "zr_input z = encoded True p @ rest" using Nil(4) by (simp add: frameBody_def)
  obtain y where "drained y" "zstdDrain n z = chain (zstdDrain n y) (\<lambda>more. Ret (p @ more))"
    "if rest = [] then zr_finished y else inFrame y \<and> zstdFrameMagic @ [0, 0x38] @ zr_input y = rest"
    by (rule readBlock_last [OF Nil(1,2) assms(2) i assms(1)])
  then show ?case by (intro exI [of _ y]) (simp only: concat.simps append_Nil)
next
  case (Cons q ps)
  have i: "zr_input z = encoded False q @ (frameBody ps p @ rest)" using Cons.prems(4) by (simp add: frameBody_def)
  have q: "length q \<le> 2 ^ 17" using Cons.prems(3) by simp
  obtain x where x: "drained x" "inFrame x" "zr_input x = frameBody ps p @ rest"
      "zstdDrain n z = chain (zstdDrain n x) (\<lambda>more. Ret (q @ more))"
    by (rule readBlock_step [OF Cons.prems(1,2) q i])
  obtain y where y: "drained y" "zstdDrain n x = chain (zstdDrain n y) (\<lambda>more. Ret (concat ps @ p @ more))"
      "if rest = [] then zr_finished y else inFrame y \<and> zstdFrameMagic @ [0, 0x38] @ zr_input y = rest"
    using Cons.IH [OF x(1,2) _ x(3)] Cons.prems(3) by auto
  have "zstdDrain n z = chain (zstdDrain n y) (\<lambda>more. Ret (concat (q # ps) @ p @ more))"
    by (simp add: x(4) y(2) chain_assoc)
  with y(1,3) show ?case by blast
qed

definition blocksOk :: "bytes list \<times> bytes \<Rightarrow> bool" where
  "blocksOk f \<longleftrightarrow> (\<forall>q \<in> set (fst f). length q \<le> 2 ^ 17) \<and> length (snd f) \<le> 2 ^ 17"

definition content :: "bytes list \<times> bytes \<Rightarrow> bytes" where
  "content f = concat (fst f) @ snd f"

lemma zstdDrain_frames:
  "drained z \<Longrightarrow> inFrame z \<Longrightarrow> blocksOk f \<Longrightarrow> \<forall>g \<in> set fs. blocksOk g \<Longrightarrow>
     zr_input z = frameBody (fst f) (snd f) @ concat (map (\<lambda>g. frameOf (fst g) (snd g)) fs) \<Longrightarrow>
     zstdDrain n z = Ret (concat (map content (f # fs)))"
proof (induction fs arbitrary: z f)
  case Nil
  then obtain y where "drained y" "zr_finished y"
      "zstdDrain n z = chain (zstdDrain n y) (\<lambda>more. Ret (concat (fst f) @ snd f @ more))"
    using zstdDrain_frame [of "[]" "snd f" z "fst f" n] by (auto simp: blocksOk_def)
  then show ?case by (simp add: zstdDrain_finished content_def)
next
  case (Cons g fs)
  let ?rest = "concat (map (\<lambda>g. frameOf (fst g) (snd g)) (g # fs))"
  have rest: "?rest = zstdFrameMagic @ [0, 0x38] @ (frameBody (fst g) (snd g) @ concat (map (\<lambda>g. frameOf (fst g) (snd g)) fs))"
    by (simp add: frameOf_def)
  have ne: "?rest \<noteq> []" unfolding rest by simp
  have following: "?rest = [] \<or> (\<exists>tl. ?rest = zstdFrameMagic @ [0, 0x38] @ tl)" using rest by (intro disjI2 exI)
  have f: "length (snd f) \<le> 2 ^ 17" "\<forall>q \<in> set (fst f). length q \<le> 2 ^ 17"
    using Cons.prems(3) by (simp_all add: blocksOk_def)
  from zstdDrain_frame [OF following f(1) Cons.prems(1,2) f(2) Cons.prems(5), of n] ne
  obtain y where y: "drained y" "inFrame y" "zstdFrameMagic @ [0, 0x38] @ zr_input y = ?rest"
      "zstdDrain n z = chain (zstdDrain n y) (\<lambda>more. Ret (concat (fst f) @ snd f @ more))"
    by (elim exE conjE) (simp only: if_False)
  have "zr_input y = frameBody (fst g) (snd g) @ concat (map (\<lambda>g. frameOf (fst g) (snd g)) fs)"
    using y(3) unfolding rest by simp
  then have "zstdDrain n y = Ret (concat (map content (g # fs)))"
    using Cons.prems(4) by (intro Cons.IH [OF y(1,2)]) auto
  moreover have "content f = concat (fst f) @ snd f" by (simp add: content_def)
  ultimately show ?case by (simp add: y(4))
qed


section \<open>Writing\<close>

text \<open>The blocks written so far and the one that is being filled.\<close>

definition writing :: "zstdWriter \<Rightarrow> bytes list \<Rightarrow> bool" where
  "writing w ps \<longleftrightarrow> zw_output w = zstdFrameMagic @ [0, 0x38] @ concat (map (encoded False) ps) \<and>
     \<not> zw_closed w \<and> length (zw_block w) \<le> 2 ^ 17 \<and> (\<forall>p \<in> set ps. length p \<le> 2 ^ 17)"

lemma writeBlock_encoded:
  "length p \<le> 2 ^ 17 \<Longrightarrow> writeBlock p final w = Ret (w\<lparr>zw_output := zw_output w @ encoded final p\<rparr>)"
  by (auto simp: writeBlock_def encoded_def zstdRawBlockSize_def)

lemma writeData_writing:
  "writing w ps \<Longrightarrow> \<exists>v qs. writeData data w = Ret v \<and> writing v (ps @ qs) \<and> concat qs @ zw_block v = zw_block w @ data"
proof (induction data w arbitrary: ps rule: writeData.induct)
  case (1 data w)
  show ?case
  proof (cases "data = []")
    case True
    with "1.prems" show ?thesis by (intro exI [of _ w] exI [of _ "[]"]) (simp add: writeData.simps)
  next
    case False
    obtain rest u where u: "fillBlock data w = (rest, u)" by (cases "fillBlock data w")
    have block: "zw_block u @ rest = zw_block w @ data" "length (zw_block u) \<le> 2 ^ 17" "zw_output u = zw_output w"
        "zw_closed u = zw_closed w"
      using u "1.prems" by (auto simp: fillBlock_def Let_def zstdRawBlockSize_def writing_def)
    have room: "\<not> zstdRawBlockSize < length (zw_block w)" using "1.prems" by (simp add: writing_def zstdRawBlockSize_def)
    show ?thesis
    proof (cases "blockFull u \<and> rest \<noteq> []")
      case True
      let ?x = "u\<lparr>zw_output := zw_output u @ encoded False (zw_block u)\<rparr>"
      have w: "writeBlock (zw_block u) False u = Ret ?x" by (rule writeBlock_encoded [OF block(2)])
      have "writing (?x\<lparr>zw_block := []\<rparr>) (ps @ [zw_block u])" using "1.prems" block by (auto simp: writing_def)
      from "1.IH"(1) [OF False room u [symmetric] True w this] obtain v qs where
        v: "writeData rest (?x\<lparr>zw_block := []\<rparr>) = Ret v" "writing v ((ps @ [zw_block u]) @ qs)"
          "concat qs @ zw_block v = rest" by auto
      have "writeData data w = Ret v" using False room u True w v(1) by (subst writeData.simps) simp
      then show ?thesis using v block(1) by (intro exI [of _ v] exI [of _ "zw_block u # qs"]) simp
    next
      case last_block: False
      have "writing u ps" using "1.prems" block by (simp add: writing_def)
      from "1.IH"(2) [OF False room u [symmetric] last_block this] obtain v qs where
        v: "writeData rest u = Ret v" "writing v (ps @ qs)" "concat qs @ zw_block v = zw_block u @ rest" by blast
      have "writeData data w = Ret v" using False room u last_block v(1) by (subst writeData.simps) auto
      then show ?thesis using v block(1) by (intro exI [of _ v] exI [of _ qs]) simp
    qed
  qed
qed

lemma zstdWriteAll_writing:
  "writing w ps \<Longrightarrow> \<exists>v qs. zstdWriteAll ds w = Ret v \<and> writing v (ps @ qs) \<and>
     concat qs @ zw_block v = zw_block w @ concat ds"
proof (induction ds arbitrary: w ps)
  case Nil
  then show ?case by (intro exI [of _ w] exI [of _ "[]"]) simp
next
  case (Cons d ds)
  obtain u qs where u: "writeData d w = Ret u" "writing u (ps @ qs)" "concat qs @ zw_block u = zw_block w @ d"
    using writeData_writing [OF Cons.prems] by blast
  obtain v rs where v: "zstdWriteAll ds u = Ret v" "writing v ((ps @ qs) @ rs)"
      "concat rs @ zw_block v = zw_block u @ concat ds" using Cons.IH [OF u(2)] by blast
  have "zstdWriteAll (d # ds) w = Ret v" using u(1) v(1) Cons.prems by (simp add: zstdWrite_def writing_def)
  moreover have "concat (qs @ rs) @ zw_block v = zw_block w @ concat (d # ds)"
    using v(3) u(3) by (metis append.assoc concat.simps(2) concat_append)
  ultimately show ?case using v(2) by (intro exI [of _ v] exI [of _ "qs @ rs"]) simp
qed

lemma zstdCompress_frame:
  "\<exists>f. zstdCompress ds = Ret (frameOf (fst f) (snd f)) \<and> blocksOk f \<and> content f = concat ds"
proof -
  have "writing newZstdWriter []" by (simp add: writing_def newZstdWriter_def)
  then obtain v qs where v: "zstdWriteAll ds newZstdWriter = Ret v" "writing v qs" "concat qs @ zw_block v = concat ds"
    using zstdWriteAll_writing [of newZstdWriter "[]" ds] by (auto simp: newZstdWriter_def)
  have "zstdClose v = Ret (v\<lparr>zw_closed := True, zw_output := zw_output v @ encoded True (zw_block v)\<rparr>)"
    using v(2) writeBlock_encoded [of "zw_block v" True "v\<lparr>zw_closed := True\<rparr>"]
    by (simp add: zstdClose_def writing_def)
  then have "zstdCompress ds = Ret (frameOf qs (zw_block v))"
    using v(1,2) by (simp add: zstdCompress_def frameOf_def frameBody_def writing_def)
  then show ?thesis
    using v(2,3) by (intro exI [of _ "(qs, zw_block v)"]) (simp add: blocksOk_def content_def writing_def)
qed

section \<open>The round trip\<close>

lemma zstdDecompress_frames:
  assumes "\<forall>f \<in> set (f # fs). blocksOk f"
  shows "zstdDecompress n (concat (map (\<lambda>f. frameOf (fst f) (snd f)) (f # fs))) = Ret (concat (map content (f # fs)))"
proof -
  let ?tail = "frameBody (fst f) (snd f) @ concat (map (\<lambda>f. frameOf (fst f) (snd f)) fs)"
  let ?z = "\<lparr>zr_input = zstdFrameMagic @ [0, 0x38] @ ?tail, zr_dec = newZstdBlockDecoder, zr_window = [], zr_frameAt = 0,
       zr_consumed = 0, zr_winSize = 0, zr_checksum = False, zr_digest = newXXH64, zr_finished = False\<rparr>"
  obtain y where y: "readFrameHeader ?z = Ret y" "zr_input y = ?tail" "zr_window y = []" "zr_consumed y = 0"
      "\<not> zr_finished y" "\<not> zr_checksum y"
    using readFrameHeader_written [of ?z ?tail] by auto
  have "zstdDrain n y = Ret (concat (map content (f # fs)))"
    by (rule zstdDrain_frames) (use assms y in \<open>simp_all add: drained_def inFrame_def\<close>)
  with y(1) show ?thesis by (simp add: zstdDecompress_def newZstdReader_def frameOf_def)
qed

lemma zstd_frames_read_back:
  assumes "inputs \<noteq> []"
  shows "\<exists>frames. map zstdCompress inputs = map Ret frames \<and>
    zstdDecompress n (concat frames) = Ret (concat (map concat inputs))"
proof -
  have "\<exists>fs. map zstdCompress inputs = map (\<lambda>f. Ret (frameOf (fst f) (snd f))) fs \<and> (\<forall>f \<in> set fs. blocksOk f) \<and>
      map content fs = map concat inputs"
  proof (induction inputs)
    case (Cons ds inputs)
    then obtain fs where fs: "map zstdCompress inputs = map (\<lambda>f. Ret (frameOf (fst f) (snd f))) fs"
        "\<forall>f \<in> set fs. blocksOk f" "map content fs = map concat inputs" by blast
    obtain f where f: "zstdCompress ds = Ret (frameOf (fst f) (snd f))" "blocksOk f" "content f = concat ds"
      using zstdCompress_frame by blast
    from fs f show ?case by (intro exI [of _ "f # fs"]) simp
  qed simp
  then obtain fs where fs: "map zstdCompress inputs = map (\<lambda>f. Ret (frameOf (fst f) (snd f))) fs"
      "\<forall>f \<in> set fs. blocksOk f" "map content fs = map concat inputs" by blast
  with assms obtain g gs where g: "fs = g # gs" by (cases fs) auto
  have "zstdDecompress n (concat (map (\<lambda>f. frameOf (fst f) (snd f)) fs)) = Ret (concat (map concat inputs))"
    unfolding fs(3) [symmetric] g by (rule zstdDecompress_frames) (use fs(2) g in simp)
  with fs(1) show ?thesis by (intro exI [of _ "map (\<lambda>f. frameOf (fst f) (snd f)) fs"]) (simp add: comp_def)
qed

text \<open>C17: what \<open>zstd\<close> writes, \<open>unzstd\<close> reads back.  Each input is any sequence of writes; compressing never fails; the
  frames may be concatenated, blocks may be raw or run-length, and the reader may use a buffer of any size.\<close>

theorem zstd_roundtrip:
  assumes "inputs \<noteq> []"
  shows "\<exists>frames. map zstdCompress inputs = map Ret frames \<and>
    zstdDecompress n (concat frames) = Ret (concat (map concat inputs))"
  using assms by (rule zstd_frames_read_back)

theorem zstd_roundtrip_witness:
  "\<exists>frames. map zstdCompress [[[1, 2], [], [3]], [], [[7, 7, 7]]] = map Ret frames \<and>
    zstdDecompress 0 (concat frames) = Ret [1, 2, 3, 7, 7, 7]"
  using zstd_roundtrip [of "[[[1, 2], [], [3]], [], [[7, 7, 7]]]" 0] by simp

end
