(* ===== verification/Bz2.thy ===== *)
theory Bz2
  imports Codec "HOL-Library.Product_Lexorder"
begin

unbundle bit_operations_syntax

text \<open>
  The compressor of \<open>bzip2_writer.go\<close>: the first run-length stage, the Burrows-Wheeler transform by
  prefix doubling, the move-to-front stage, the canonical codes of two lengths and the bit writer.
  The output is the list of bytes written so far; writing it never fails here.  \<open>sort.Slice\<close> sorts by
  a total order with the position as the last key, so every sorting algorithm gives the same list.
\<close>

section \<open>The bit writer\<close>

definition bzip2BlockSize :: nat where
  "bzip2BlockSize = 100000"

definition bzip2InputBlockSize :: nat where
  "bzip2InputBlockSize = bzip2BlockSize * 4 div 5"

record bzip2BitWriter =
  bb_output :: bytes
  bb_value :: u64
  bb_bits :: nat

function emitBytes :: "bzip2BitWriter \<Rightarrow> bzip2BitWriter" where
  "emitBytes w =
     (if 8 \<le> bb_bits w then
        let byteValue = ucast (drop_bit (bb_bits w - 8) (bb_value w) AND 0xff);
            bits = bb_bits w - 8
        in emitBytes (w\<lparr>bb_output := bb_output w @ [byteValue], bb_bits := bits,
             bb_value := if bits = 0 then 0 else bb_value w AND (push_bit bits 1 - 1)\<rparr>)
      else w)"
  by pat_completeness auto
termination by (relation "measure bb_bits") (auto simp: Let_def)

declare emitBytes.simps [simp del]

definition writeBits :: "nat \<Rightarrow> u32 \<Rightarrow> bzip2BitWriter \<Rightarrow> bzip2BitWriter" where
  "writeBits count v w =
     (if count = 0 then w
      else emitBytes (w\<lparr>bb_value := push_bit count (bb_value w) OR (ucast v AND (push_bit count 1 - 1)),
             bb_bits := bb_bits w + count\<rparr>))"

definition flushBits :: "bzip2BitWriter \<Rightarrow> bzip2BitWriter" where
  "flushBits w =
     (if bb_bits w \<noteq> 0 then
        w\<lparr>bb_output := bb_output w @ [ucast (push_bit (8 - bb_bits w) (bb_value w) AND 0xff)],
          bb_value := 0, bb_bits := 0\<rparr>
      else w)"

section \<open>The checksum\<close>

definition bzip2CRCBit :: "u32 \<Rightarrow> u32" where
  "bzip2CRCBit c = (if c AND 0x80000000 \<noteq> 0 then push_bit 1 c XOR 0x04c11db7 else push_bit 1 c)"

definition bzip2CRCTable :: "u8 \<Rightarrow> u32" where
  "bzip2CRCTable v = (bzip2CRCBit ^^ 8) (push_bit 24 (ucast v))"

definition bzip2CRC :: "bytes \<Rightarrow> u32" where
  "bzip2CRC data =
     NOT (foldl (\<lambda>crc v. push_bit 8 crc XOR bzip2CRCTable (ucast (drop_bit 24 crc) XOR v)) 0xffffffff data)"

section \<open>Runs\<close>

text \<open>\<open>runEnd count data b\<close>: how many bytes the run has, when \<open>count\<close> were seen.\<close>

fun runEnd :: "nat \<Rightarrow> u8 \<Rightarrow> bytes \<Rightarrow> nat" where
  "runEnd count b (x # data) = (if x = b \<and> count < 259 then runEnd (count + 1) b data else count)"
| "runEnd count b [] = count"

lemma runEnd_ge: "count \<le> runEnd count b data"
  by (induction count b data rule: runEnd.induct) auto

lemma runEnd_le: "count \<le> 259 \<Longrightarrow> runEnd count b data \<le> 259"
  by (induction count b data rule: runEnd.induct) auto

lemma runEnd_length: "runEnd count b data \<le> count + length data"
proof (induction count b data rule: runEnd.induct)
  case (1 count b x data)
  then show ?case by auto
qed simp

function bzip2RLE1 :: "bytes \<Rightarrow> bytes" where
  "bzip2RLE1 [] = []"
| "bzip2RLE1 (b # data) =
     (let count = runEnd 1 b data
      in (if count < 4 then replicate count b else replicate 4 b @ [of_nat (count - 4)]) @
         bzip2RLE1 (drop count (b # data)))"
  by pat_completeness auto
termination
proof (relation "measure length", simp_all)
  fix b and data :: bytes
  have "1 \<le> runEnd 1 b data" by (rule runEnd_ge)
  then show "Suc (length data) - runEnd (Suc 0) b data < Suc (length data)" by simp
qed

section \<open>The Burrows-Wheeler transform\<close>

text \<open>Numbering the classes of the sorted positions: a new one begins where a position differs from
  the one before it.  The result is the array \<open>next\<close> and the number of classes.\<close>

fun classLoop :: "(nat \<Rightarrow> nat \<Rightarrow> bool) \<Rightarrow> nat option \<Rightarrow> nat list \<Rightarrow> nat \<Rightarrow> nat list \<Rightarrow> nat list \<times> nat" where
  "classLoop differ prev [] classes ranks = (ranks, classes)"
| "classLoop differ prev (p # positions) classes ranks =
     (let classes' = (case prev of None \<Rightarrow> classes + 1
                      | Some q \<Rightarrow> if differ p q then classes + 1 else classes)
      in classLoop differ (Some p) positions classes' (ranks[p := classes' - 1]))"

definition firstOrder :: "bytes \<Rightarrow> nat list" where
  "firstOrder data = sort_key (\<lambda>p. (unat (data ! p), p)) [0..<length data]"

definition firstRanks :: "bytes \<Rightarrow> nat list \<times> nat" where
  "firstRanks data =
     classLoop (\<lambda>p q. data ! p \<noteq> data ! q) None (firstOrder data) 0 (replicate (length data) 0)"

text \<open>The keys of a position in the order of twice as many bytes; \<open>n\<close> is the length of the block.\<close>

definition rankPair :: "nat \<Rightarrow> nat list \<Rightarrow> nat \<Rightarrow> nat \<Rightarrow> nat \<times> nat" where
  "rankPair n ranks step p = (ranks ! p, ranks ! ((p + step) mod n))"

definition orderPairs :: "nat \<Rightarrow> nat list \<Rightarrow> nat \<Rightarrow> nat list \<Rightarrow> nat list" where
  "orderPairs n ranks step positions = sort_key (\<lambda>p. (rankPair n ranks step p, p)) positions"

definition rankPairs :: "nat \<Rightarrow> nat list \<Rightarrow> nat \<Rightarrow> nat list \<Rightarrow> nat list \<times> nat" where
  "rankPairs n ranks step positions =
     classLoop (\<lambda>p q. rankPair n ranks step p \<noteq> rankPair n ranks step q) None positions 0 (replicate n 0)"

text \<open>The doubling loop; the step is \<open>2 ^ k\<close>.\<close>

function doubling :: "nat \<Rightarrow> nat \<Rightarrow> nat list \<Rightarrow> nat \<Rightarrow> nat list \<Rightarrow> nat list" where
  "doubling n k ranks classes positions =
     (if 2 ^ k < n \<and> classes < n then
        let positions = orderPairs n ranks (2 ^ k) positions;
            (ranks', newClasses) = rankPairs n ranks (2 ^ k) positions
        in if newClasses = classes then positions else doubling n (k + 1) ranks' newClasses positions
      else positions)"
  by pat_completeness auto
termination
  by (relation "measure (\<lambda>(n, k, _). n - 2 ^ k)") (auto intro!: diff_less_mono2)

declare doubling.simps [simp del]

text \<open>The order of the rotations, the last column and the row of the data itself.\<close>

definition bwtOrder :: "bytes \<Rightarrow> nat list" where
  "bwtOrder data =
     (let (ranks, classes) = firstRanks data
      in doubling (length data) 0 ranks classes (firstOrder data))"

definition bzip2BWT :: "bytes \<Rightarrow> bytes \<times> nat" where
  "bzip2BWT data =
     (let positions = bwtOrder data; n = length data
      in (map (\<lambda>p. data ! ((p + n - 1) mod n)) positions, length (takeWhile (\<lambda>p. p \<noteq> 0) positions)))"

section \<open>Move to front\<close>

function bzip2ZeroRun :: "nat \<Rightarrow> nat list" where
  "bzip2ZeroRun v =
     (let digit = (if v AND 1 = 0 then 0 else 1)
      in if v < 2 then [digit] else digit # bzip2ZeroRun (drop_bit 1 (v - 2)))"
  by pat_completeness auto
termination by (relation "measure id") (auto simp: drop_bit_eq_div)

declare bzip2ZeroRun.simps [simp del]

definition flushZeros :: "nat \<Rightarrow> nat list" where
  "flushZeros zeros = (if zeros = 0 then [] else bzip2ZeroRun (zeros - 1))"

text \<open>The position in the list; the search panics when it passes the end.\<close>

fun listPosition :: "u8 list \<Rightarrow> u8 \<Rightarrow> nat codec" where
  "listPosition [] v = Panic"
| "listPosition (x # xs) v = (if x = v then Ret 0 else chain (listPosition xs v) (\<lambda>i. Ret (i + 1)))"

fun mtfLoop :: "u8 list \<Rightarrow> nat \<Rightarrow> bytes \<Rightarrow> nat list codec" where
  "mtfLoop front zeros [] = Ret (flushZeros zeros)"
| "mtfLoop front zeros (v # data) =
     chain (listPosition front v) (\<lambda>position.
       if position = 0 then mtfLoop front (zeros + 1) data
       else chain (mtfLoop (v # take position front @ drop (position + 1) front) 0 data)
              (\<lambda>symbols. Ret (flushZeros zeros @ (position + 1) # symbols)))"

definition usedBytes :: "bytes \<Rightarrow> u8 list" where
  "usedBytes data = filter (\<lambda>v. v \<in> set data) (map of_nat [0..<256])"

definition bzip2MTF :: "bytes \<Rightarrow> (nat list \<times> u8 list) codec" where
  "bzip2MTF data =
     (let used = usedBytes data
      in chain (mtfLoop used 0 data) (\<lambda>symbols. Ret (symbols @ [length used + 1], used)))"

section \<open>Code lengths and codes\<close>

text \<open>The largest power of two, \<open>2 ^ k\<close>, that is not above the size of the alphabet.\<close>

function baseLoop :: "nat \<Rightarrow> nat \<Rightarrow> nat" where
  "baseLoop k alphaSize = (if 2 ^ k * 2 \<le> alphaSize then baseLoop (k + 1) alphaSize else k)"
  by pat_completeness auto
termination
proof (relation "measure (\<lambda>(k, alphaSize). alphaSize - 2 ^ k)", simp_all)
  fix k alphaSize :: nat
  assume "2 ^ k * 2 \<le> alphaSize"
  moreover have "(0 :: nat) < 2 ^ k" by simp
  ultimately show "alphaSize - 2 * 2 ^ k < alphaSize - 2 ^ k" by linarith
qed

declare baseLoop.simps [simp del]

definition bzip2FixedCodeLengths :: "nat \<Rightarrow> nat list" where
  "bzip2FixedCodeLengths alphaSize =
     (let shortLength = baseLoop 0 alphaSize; shortCount = 2 * 2 ^ shortLength - alphaSize
      in map (\<lambda>i. if i < shortCount then shortLength else shortLength + 1) [0..<alphaSize])"

fun codesOfLength :: "nat \<Rightarrow> nat \<Rightarrow> nat list \<Rightarrow> u32 list \<times> u32 \<Rightarrow> u32 list \<times> u32" where
  "codesOfLength len i [] (codes, code) = (codes, code)"
| "codesOfLength len i (l # lengths) (codes, code) =
     codesOfLength len (i + 1) lengths (if l = len then (codes[i := code], code + 1) else (codes, code))"

definition nextLength :: "nat list \<Rightarrow> nat \<Rightarrow> u32 list \<times> u32 \<Rightarrow> u32 list \<times> u32" where
  "nextLength lengths len st = (let (codes, code) = codesOfLength len 0 lengths st in (codes, push_bit 1 code))"

definition bzip2CanonicalCodes :: "nat list \<Rightarrow> u32 list" where
  "bzip2CanonicalCodes lengths =
     fst (fold (nextLength lengths) [1..<Max (insert 0 (set lengths)) + 1] (replicate (length lengths) 0, 0))"

section \<open>A block\<close>

definition writeFlag :: "bool \<Rightarrow> bzip2BitWriter \<Rightarrow> bzip2BitWriter" where
  "writeFlag b = writeBits 1 (if b then 1 else 0)"

definition groupUsed :: "u8 list \<Rightarrow> nat \<Rightarrow> bool" where
  "groupUsed used g \<longleftrightarrow> (\<exists>v \<in> set used. unat v div 16 = g)"

definition bzip2WriteInUse :: "u8 list \<Rightarrow> bzip2BitWriter \<Rightarrow> bzip2BitWriter" where
  "bzip2WriteInUse used w =
     fold (\<lambda>g w. if groupUsed used g
             then fold (\<lambda>v. writeFlag (of_nat v \<in> set used)) [g * 16..<g * 16 + 16] w else w) [0..<16]
       (fold (\<lambda>g. writeFlag (groupUsed used g)) [0..<16] w)"

function codeSteps :: "nat \<Rightarrow> nat \<Rightarrow> bzip2BitWriter \<Rightarrow> bzip2BitWriter" where
  "codeSteps current len w =
     (if current < len then codeSteps (current + 1) len (writeBits 1 0 (writeBits 1 1 w))
      else if len < current then codeSteps (current - 1) len (writeBits 1 1 (writeBits 1 1 w))
      else w)"
  by pat_completeness auto
termination by (relation "measure (\<lambda>(current, len, _). (len - current) + (current - len))") auto

declare codeSteps.simps [simp del]

fun lengthsLoop :: "nat \<Rightarrow> nat list \<Rightarrow> bzip2BitWriter \<Rightarrow> bzip2BitWriter" where
  "lengthsLoop current [] w = w"
| "lengthsLoop current (len # lengths) w = lengthsLoop len lengths (writeBits 1 0 (codeSteps current len w))"

definition bzip2WriteCodeLengths :: "nat list \<Rightarrow> bzip2BitWriter \<Rightarrow> bzip2BitWriter codec" where
  "bzip2WriteCodeLengths lengths w =
     chain (lookup lengths 0) (\<lambda>current. Ret (lengthsLoop current lengths (writeBits 5 (of_nat current) w)))"

fun writeSymbols :: "nat list \<Rightarrow> u32 list \<Rightarrow> nat list \<Rightarrow> bzip2BitWriter \<Rightarrow> bzip2BitWriter codec" where
  "writeSymbols lengths codes [] w = Ret w"
| "writeSymbols lengths codes (symbol # symbols) w =
     chain (lookup lengths symbol) (\<lambda>len. chain (lookup codes symbol) (\<lambda>code.
       writeSymbols lengths codes symbols (writeBits len code w)))"

section \<open>The writer\<close>

record bzip2Writer =
  bw_bits :: bzip2BitWriter
  bw_block :: bytes
  bw_combinedCRC :: u32
  bw_closed :: bool

definition newBzip2Writer :: bzip2Writer where
  "newBzip2Writer = \<lparr>bw_bits = \<lparr>bb_output = [0x42, 0x5a, 0x68, 0x31], bb_value = 0, bb_bits = 0\<rparr>,
     bw_block = [], bw_combinedCRC = 0, bw_closed = False\<rparr>"

text \<open>The header of a block, up to the code lengths, and what follows it.\<close>

definition blockPreamble :: "u32 \<Rightarrow> nat \<Rightarrow> u8 list \<Rightarrow> nat \<Rightarrow> bzip2BitWriter \<Rightarrow> bzip2BitWriter" where
  "blockPreamble crc original used selectorCount w =
     (let w = writeBits 24 0x265359 (writeBits 24 0x314159 w);
          w = writeBits 24 (of_nat original) (writeBits 1 0 (writeBits 32 crc w));
          w = bzip2WriteInUse used w
      in (writeBits 1 0 ^^ selectorCount) (writeBits 15 (of_nat selectorCount) (writeBits 3 2 w)))"

definition bzip2WriteBlock :: "bzip2Writer \<Rightarrow> bzip2Writer codec" where
  "bzip2WriteBlock w =
     (if bw_block w = [] then Ret w
      else
        let crc = bzip2CRC (bw_block w);
            combined = bw_combinedCRC w;
            w = w\<lparr>bw_combinedCRC := (push_bit 1 combined OR drop_bit 31 combined) XOR crc\<rparr>;
            encoded = bzip2RLE1 (bw_block w)
        in if bzip2BlockSize < length encoded then Bad Bzip2BlockLimit
           else
             let (bwt, original) = bzip2BWT encoded
             in chain (bzip2MTF bwt) (\<lambda>(symbols, used).
                  let lengths = bzip2FixedCodeLengths (length used + 2);
                      codes = bzip2CanonicalCodes lengths;
                      n = (length symbols + 49) div 50;
                      selectorCount = (if n = 0 then 1 else n);
                      b = blockPreamble crc original used selectorCount (bw_bits w)
                  in chain (bzip2WriteCodeLengths lengths b) (\<lambda>b.
                     chain (bzip2WriteCodeLengths lengths b) (\<lambda>b.
                     chain (writeSymbols lengths codes symbols b) (\<lambda>b.
                     Ret (w\<lparr>bw_bits := b, bw_block := []\<rparr>))))))"

text \<open>\<open>Write\<close>: the loop over the data, a block at a time.\<close>

definition spaceFor :: "bzip2Writer \<Rightarrow> (nat \<times> bzip2Writer) codec" where
  "spaceFor w =
     (let space = bzip2InputBlockSize - length (bw_block w)
      in if bzip2InputBlockSize < length (bw_block w) then Panic
         else if space = 0 then chain (bzip2WriteBlock w) (\<lambda>w. Ret (bzip2InputBlockSize, w)) else Ret (space, w))"

lemma spaceFor_pos: "spaceFor w = Ret (space, w') \<Longrightarrow> 0 < space"
  by (auto simp: spaceFor_def Let_def chain_Ret bzip2InputBlockSize_def bzip2BlockSize_def split: if_splits)

function bzip2Fill :: "bytes \<Rightarrow> bzip2Writer \<Rightarrow> bzip2Writer codec" where
  "bzip2Fill data w =
     (if data = [] then Ret w
      else chain (spaceFor w) (\<lambda>(space, w).
        let amount = min space (length data)
        in bzip2Fill (drop amount data) (w\<lparr>bw_block := bw_block w @ take amount data\<rparr>)))"
  by pat_completeness auto
termination by (relation "measure (\<lambda>(data, _). length data)") (auto dest: spaceFor_pos)

declare bzip2Fill.simps [simp del]

definition bzip2Write :: "bytes \<Rightarrow> bzip2Writer \<Rightarrow> bzip2Writer codec" where
  "bzip2Write data w = (if bw_closed w then Bad WriteClosed else bzip2Fill data w)"

definition bzip2Close :: "bzip2Writer \<Rightarrow> bzip2Writer codec" where
  "bzip2Close w =
     (if bw_closed w then Ret w
      else chain (bzip2WriteBlock (w\<lparr>bw_closed := True\<rparr>)) (\<lambda>w.
        Ret (w\<lparr>bw_bits := flushBits (writeBits 32 (bw_combinedCRC w)
          (writeBits 24 0x385090 (writeBits 24 0x177245 (bw_bits w))))\<rparr>)))"

primrec bzip2WriteAll :: "bytes list \<Rightarrow> bzip2Writer \<Rightarrow> bzip2Writer codec" where
  "bzip2WriteAll [] w = Ret w"
| "bzip2WriteAll (data # ds) w = chain (bzip2Write data w) (bzip2WriteAll ds)"

text \<open>What a client does: any sequence of writes, then \<open>Close\<close>.\<close>

definition bzip2Compress :: "bytes list \<Rightarrow> bytes codec" where
  "bzip2Compress ds =
     chain (bzip2WriteAll ds newBzip2Writer) (\<lambda>w. chain (bzip2Close w) (\<lambda>w. Ret (bb_output (bw_bits w))))"

end
