(* ===== verification/Bz2Ref.thy ===== *)
theory Bz2Ref
  imports Bz2 "HOL-Library.Monad_Syntax"
begin

text \<open>
  A reference reader of the bzip2 format, which the program itself leaves to \<open>compress/bzip2\<close>: it
  defines what a compressed stream means, independently of the writer.  It reads any number of tables,
  selectors and code lengths, not only those the writer emits.  It is strict: lengths stay between 1 and 20 and
  make a complete code, and a run counted as four bytes and none more ends there.  On streams that break these rules
  the readers in use differ; what this one accepts they decode alike.
\<close>

section \<open>Bits\<close>

text \<open>A number as bits, the most significant first.\<close>

primrec natBits :: "nat \<Rightarrow> nat \<Rightarrow> bool list" where
  "natBits 0 v = []"
| "natBits (Suc n) v = odd (v div 2 ^ n) # natBits n v"

definition bitsOf :: "bytes \<Rightarrow> bool list" where
  "bitsOf bs = concat (map (\<lambda>b. natBits 8 (unat b)) bs)"

definition bitsValue :: "bool list \<Rightarrow> nat" where
  "bitsValue = foldl (\<lambda>v b. 2 * v + of_bool b) 0"

definition getBits :: "nat \<Rightarrow> bool list \<Rightarrow> (nat \<times> bool list) option" where
  "getBits n bs = (if length bs < n then None else Some (bitsValue (take n bs), drop n bs))"

section \<open>Codes\<close>

text \<open>Canonical decoding: the symbols in the order of their lengths, the codes of one length counted up
  from twice the code after the last one of the length before.\<close>

definition symbolOrder :: "nat list \<Rightarrow> nat list" where
  "symbolOrder lengths = sort_key (\<lambda>i. lengths ! i) [0..<length lengths]"

definition countOf :: "nat list \<Rightarrow> nat \<Rightarrow> nat" where
  "countOf lengths len = length (filter (\<lambda>l. l = len) lengths)"

fun readCode :: "nat list \<Rightarrow> nat \<Rightarrow> nat \<Rightarrow> nat \<Rightarrow> nat \<Rightarrow> bool list \<Rightarrow> (nat \<times> bool list) option" where
  "readCode lengths len code below index [] = None"
| "readCode lengths len code below index (b # bs) =
     (let code = 2 * code + of_bool b; n = countOf lengths len
      in if code < below + n then Some (symbolOrder lengths ! (index + (code - below)), bs)
         else if 20 \<le> len then None
         else readCode lengths (len + 1) code (2 * (below + n)) (index + n) bs)"

definition readSymbol :: "nat list \<Rightarrow> bool list \<Rightarrow> (nat \<times> bool list) option" where
  "readSymbol lengths = readCode lengths 1 0 0 0"

fun readGroup :: "nat \<Rightarrow> nat list \<Rightarrow> bool list \<Rightarrow> (nat list \<times> bool \<times> bool list) option" where
  "readGroup 0 lengths bs = Some ([], False, bs)"
| "readGroup (Suc n) lengths bs = do {
     (s, bs) \<leftarrow> readSymbol lengths bs;
     if s = length lengths - 1 then Some ([], True, bs)
     else do { (ss, ended, bs) \<leftarrow> readGroup n lengths bs; Some (s # ss, ended, bs) } }"

fun readGroups :: "nat list list \<Rightarrow> nat list \<Rightarrow> bool list \<Rightarrow> (nat list \<times> bool list) option" where
  "readGroups tables [] bs = None"
| "readGroups tables (s # selectors) bs =
     (if s < length tables then do {
        (ss, ended, bs) \<leftarrow> readGroup 50 (tables ! s) bs;
        if ended then Some (ss, bs)
        else do { (ts, bs) \<leftarrow> readGroups tables selectors bs; Some (ss @ ts, bs) } }
      else None)"

section \<open>The header of a block\<close>

fun readUsedGroups :: "nat list \<Rightarrow> bool list \<Rightarrow> (u8 list \<times> bool list) option" where
  "readUsedGroups [] bs = Some ([], bs)"
| "readUsedGroups (g # gs) bs =
     (if length bs < 16 then None
      else do {
        (used, rest) \<leftarrow> readUsedGroups gs (drop 16 bs);
        Some (map (\<lambda>i. of_nat (g * 16 + i)) (filter (\<lambda>i. bs ! i) [0..<16]) @ used, rest) })"

definition readUsed :: "bool list \<Rightarrow> (u8 list \<times> bool list) option" where
  "readUsed bs =
     (if length bs < 16 then None else readUsedGroups (filter (\<lambda>g. bs ! g) [0..<16]) (drop 16 bs))"

fun readUnary :: "nat \<Rightarrow> bool list \<Rightarrow> (nat \<times> bool list) option" where
  "readUnary n [] = None"
| "readUnary n (b # bs) = (if b then readUnary (n + 1) bs else Some (n, bs))"

fun readSelectors :: "nat \<Rightarrow> nat list \<Rightarrow> bool list \<Rightarrow> (nat list \<times> bool list) option" where
  "readSelectors 0 front bs = Some ([], bs)"
| "readSelectors (Suc n) front bs = do {
     (i, bs) \<leftarrow> readUnary 0 bs;
     if i < length front then do {
       (ss, bs) \<leftarrow> readSelectors n (front ! i # take i front @ drop (i + 1) front) bs;
       Some (front ! i # ss, bs) }
     else None }"

fun readLength :: "nat \<Rightarrow> bool list \<Rightarrow> (nat \<times> bool list) option" where
  "readLength len (False # bs) = (if 1 \<le> len \<and> len \<le> 20 then Some (len, bs) else None)"
| "readLength len (True # down # bs) =
     (if 1 \<le> len \<and> len \<le> 20 then readLength (if down then len - 1 else len + 1) bs else None)"
| "readLength len _ = None"

text \<open>No bit string is without a meaning and none has two.\<close>

definition completeCode :: "nat list \<Rightarrow> bool" where
  "completeCode lengths \<longleftrightarrow> sum_list (map (\<lambda>l. 2 ^ (20 - l)) lengths) = (2 :: nat) ^ 20"

fun readLengths :: "nat \<Rightarrow> nat \<Rightarrow> bool list \<Rightarrow> (nat list \<times> bool list) option" where
  "readLengths 0 len bs = Some ([], bs)"
| "readLengths (Suc n) len bs = do {
     (l, bs) \<leftarrow> readLength len bs;
     (ls, bs) \<leftarrow> readLengths n l bs;
     Some (l # ls, bs) }"

definition readTable :: "nat \<Rightarrow> bool list \<Rightarrow> (nat list \<times> bool list) option" where
  "readTable n bs = do {
     (len, bs) \<leftarrow> getBits 5 bs;
     (ls, bs) \<leftarrow> readLengths n len bs;
     if completeCode ls then Some (ls, bs) else None }"

fun readTables :: "nat \<Rightarrow> nat \<Rightarrow> bool list \<Rightarrow> (nat list list \<times> bool list) option" where
  "readTables 0 n bs = Some ([], bs)"
| "readTables (Suc k) n bs = do {
     (t, bs) \<leftarrow> readTable n bs;
     (ts, bs) \<leftarrow> readTables k n bs;
     Some (t # ts, bs) }"

section \<open>Undoing the stages\<close>

text \<open>Symbols 0 and 1 are the digits of a run of the front byte, least significant first.\<close>

fun unMTF :: "u8 list \<Rightarrow> nat \<Rightarrow> nat \<Rightarrow> nat list \<Rightarrow> bytes option" where
  "unMTF front run weight [] = Some (replicate run (hd front))"
| "unMTF front run weight (s # ss) =
     (if s \<le> 1 then unMTF front (run + weight * (s + 1)) (2 * weight) ss
      else if s \<le> length front then do {
        more \<leftarrow> unMTF (front ! (s - 1) # take (s - 1) front @ drop s front) 0 1 ss;
        Some (replicate run (hd front) @ front ! (s - 1) # more) }
      else None)"

fun walk :: "nat \<Rightarrow> nat list \<Rightarrow> bytes \<Rightarrow> nat \<Rightarrow> bytes" where
  "walk 0 follow column i = []"
| "walk (Suc n) follow column i = column ! (follow ! i) # walk n follow column (follow ! i)"

definition unBWT :: "bytes \<Rightarrow> nat \<Rightarrow> bytes option" where
  "unBWT column original =
     (if original < length column
      then Some (walk (length column) (sort_key (\<lambda>i. column ! i) [0..<length column]) column original)
      else None)"

fun unRLE :: "nat \<Rightarrow> u8 \<Rightarrow> bytes \<Rightarrow> bytes" where
  "unRLE seen b [] = []"
| "unRLE seen b (x # xs) =
     (if seen = 4 then replicate (unat x) b @ unRLE 0 b xs
      else x # unRLE (if 0 < seen \<and> x = b then seen + 1 else 1) x xs)"

text \<open>A count of 0 after four equal bytes ends the run: the byte after it is another one.\<close>

fun wellCounted :: "nat \<Rightarrow> u8 \<Rightarrow> bytes \<Rightarrow> bool" where
  "wellCounted seen b [] = True"
| "wellCounted seen b (x # xs) =
     (if seen = 4 then (x = 0 \<longrightarrow> xs = [] \<or> hd xs \<noteq> b) \<and> wellCounted 0 b xs
      else wellCounted (if 0 < seen \<and> x = b then seen + 1 else 1) x xs)"

section \<open>The stream\<close>

definition readBzBlock :: "nat \<Rightarrow> bool list \<Rightarrow> ((nat \<times> bytes) \<times> bool list) option" where
  "readBzBlock limit bs = do {
     (crc, bs) \<leftarrow> getBits 32 bs;
     (randomized, bs) \<leftarrow> getBits 1 bs;
     (original, bs) \<leftarrow> getBits 24 bs;
     (used, bs) \<leftarrow> readUsed bs;
     (groups, bs) \<leftarrow> getBits 3 bs;
     (count, bs) \<leftarrow> getBits 15 bs;
     if randomized \<noteq> 0 \<or> used = [] \<or> groups < 2 \<or> 6 < groups then None
     else do {
       (selectors, bs) \<leftarrow> readSelectors count [0..<groups] bs;
       (tables, bs) \<leftarrow> readTables groups (length used + 2) bs;
       (symbols, bs) \<leftarrow> readGroups tables selectors bs;
       column \<leftarrow> unMTF used 0 1 symbols;
       encoded \<leftarrow> unBWT column original;
       let data = unRLE 0 0 encoded;
       if length encoded \<le> limit \<and> wellCounted 0 0 encoded \<and> unat (bzip2CRC data) = crc then Some ((crc, data), bs) else None } }"

text \<open>\<open>fuel\<close> is at least the number of blocks that are left; a block takes more than one bit.\<close>

fun readBzBlocks :: "nat \<Rightarrow> nat \<Rightarrow> u32 \<Rightarrow> bool list \<Rightarrow> (bytes \<times> bool list) option" where
  "readBzBlocks limit 0 combined bs = None"
| "readBzBlocks limit (Suc fuel) combined bs = do {
     (a, bs) \<leftarrow> getBits 24 bs;
     (b, bs) \<leftarrow> getBits 24 bs;
     if a = 0x314159 \<and> b = 0x265359 then do {
       ((crc, data), bs) \<leftarrow> readBzBlock limit bs;
       (more, bs) \<leftarrow> readBzBlocks limit fuel (word_rotl 1 combined XOR of_nat crc) bs;
       Some (data @ more, bs) }
     else if a = 0x177245 \<and> b = 0x385090 then do {
       (crc, bs) \<leftarrow> getBits 32 bs;
       if crc = unat combined then Some ([], bs) else None }
     else None }"

text \<open>One stream, which ends at a byte; the digit of its magic is the limit of a block in steps of 100 000.\<close>

definition bunzip2 :: "bytes \<Rightarrow> bytes option" where
  "bunzip2 bytes = do {
     (magic, bs) \<leftarrow> getBits 32 (bitsOf bytes);
     if 0x425a6831 \<le> magic \<and> magic \<le> 0x425a6839 then do {
       (data, bs) \<leftarrow> readBzBlocks (100000 * (magic - 0x425a6830)) (length bs) 0 bs;
       if length bs < 8 then Some data else None }
     else None }"

end
