(* ===== verification/Bz2Bits.thy ===== *)
theory Bz2Bits
  imports Bz2Ref
begin

unbundle bit_operations_syntax

text \<open>
  The bits that the bit writer has taken, and what each operation of the compressor adds to them; the
  reference reader takes the same bits off again.
\<close>

section \<open>Numbers as bits\<close>

lemma natBits_Suc: "natBits (Suc n) v = bit v n # natBits n v"
  by (simp add: bit_iff_odd)

lemma length_natBits [simp]: "length (natBits n v) = n"
  by (induction n) simp_all

lemma natBits_cong: "(\<And>i. i < n \<Longrightarrow> bit u i = bit v i) \<Longrightarrow> natBits n u = natBits n v"
proof (induction n)
  case (Suc n)
  then show ?case by (simp only: natBits_Suc)
qed simp

lemma bit_div: "bit (v div 2 ^ b :: nat) i = bit v (i + b)"
  by (simp add: bit_iff_odd div_mult2_eq [symmetric] power_add mult.commute)

lemma natBits_append: "natBits (a + b) v = natBits a (v div 2 ^ b) @ natBits b v"
proof (induction a)
  case (Suc a)
  then show ?case unfolding add_Suc natBits_Suc by (simp add: bit_div)
qed simp

lemma natBits_zero: "natBits n 0 = replicate n False"
  by (induction n) simp_all

lemma natBits_value: "foldl (\<lambda>v b. 2 * v + of_bool b) a (natBits n v) = a * 2 ^ n + v mod 2 ^ n"
proof (induction n arbitrary: a)
  case (Suc n)
  have "v mod 2 ^ Suc n = of_bool (odd (v div 2 ^ n)) * 2 ^ n + v mod 2 ^ n"
  proof -
    have "v mod 2 ^ Suc n = 2 ^ n * (v div 2 ^ n mod 2) + v mod 2 ^ n"
      using mod_mult2_eq [of v "2 ^ n" 2] by (simp add: mult.commute)
    then show ?thesis by (simp add: odd_iff_mod_2_eq_one)
  qed
  then show ?case using Suc.IH [of "2 * a + of_bool (odd (v div 2 ^ n))"]
    by (simp add: algebra_simps)
qed simp

lemma getBits_append: "getBits n (natBits n v @ bs) = Some (v mod 2 ^ n, bs)"
  using natBits_value [of 0 n v] by (simp add: getBits_def bitsValue_def)

lemma bit_unat: "bit (unat x) i = bit (x :: 'a :: len word) i"
  by (auto simp: bit_unsigned_iff dest: bit_imp_le_length)

section \<open>The bits of the writer\<close>

definition written :: "bzip2BitWriter \<Rightarrow> bool list" where
  "written w = bitsOf (bb_output w) @ natBits (bb_bits w) (unat (bb_value w))"

lemma bitsOf_simps [simp]: "bitsOf [] = []" "bitsOf (xs @ ys) = bitsOf xs @ bitsOf ys"
    "bitsOf [b] = natBits 8 (unat b)"
  by (simp_all add: bitsOf_def)

lemma bit_mask_form: "bit (2 ^ n - 1 :: u64) i \<longleftrightarrow> i < 64 \<and> i < n"
  by (simp add: mask_eq_exp_minus_1 [symmetric] bit_mask_iff)

lemma bit_ff: "bit (0xff :: u64) i \<longleftrightarrow> i < 8" "bit (0xff :: u8) i \<longleftrightarrow> i < 8" "bit (0xff :: int) i \<longleftrightarrow> i < 8"
proof -
  have "bit (mask 8 :: u64) i \<longleftrightarrow> i < 8" "bit (mask 8 :: u8) i \<longleftrightarrow> i < 8" "bit (mask 8 :: int) i \<longleftrightarrow> i < 8"
    by (auto simp: bit_mask_iff)
  then show "bit (0xff :: u64) i \<longleftrightarrow> i < 8" "bit (0xff :: u8) i \<longleftrightarrow> i < 8" "bit (0xff :: int) i \<longleftrightarrow> i < 8"
    by (simp_all add: mask_eq_exp_minus_1)
qed

lemma emitBytes_written: "bb_bits w \<le> 64 \<Longrightarrow> written (emitBytes w) = written w \<and> bb_bits (emitBytes w) < 8"
proof (induction w rule: emitBytes.induct)
  case (1 w)
  show ?case
  proof (cases "8 \<le> bb_bits w")
    case True
    define b where "b = bb_bits w - 8"
    have b: "bb_bits w = 8 + b" using True by (simp add: b_def)
    let ?byte = "ucast (drop_bit b (bb_value w) AND 0xff) :: u8"
    let ?v = "if b = 0 then 0 else bb_value w AND (push_bit b 1 - 1)"
    let ?w = "w\<lparr>bb_output := bb_output w @ [?byte], bb_bits := b, bb_value := ?v\<rparr>"
    have step: "emitBytes w = emitBytes ?w" using True by (subst emitBytes.simps) (simp add: b_def Let_def)
    have "natBits 8 (unat ?byte) = natBits 8 (unat (bb_value w) div 2 ^ b)"
      by (rule natBits_cong) (simp add: bit_unat bit_div bit_ucast_iff bit_and_iff bit_ff bit_drop_bit_eq add.commute)
    moreover have "natBits b (unat ?v) = natBits b (unat (bb_value w))"
      by (rule natBits_cong) (auto simp: bit_unat bit_mask_form bit_and_iff dest: bit_imp_le_length)
    ultimately have "written ?w = written w"
      by (simp add: written_def b natBits_append)
    moreover have "written (emitBytes ?w) = written ?w \<and> bb_bits (emitBytes ?w) < 8"
      by (rule "1.IH" [OF True refl refl, folded b_def]) (use "1.prems" b in simp)
    ultimately show ?thesis using step by simp
  qed (subst (1 2) emitBytes.simps, simp)
qed

text \<open>An operation that adds the bits \<open>bs\<close>.\<close>

definition adds :: "(bzip2BitWriter \<Rightarrow> bzip2BitWriter) \<Rightarrow> bool list \<Rightarrow> bool" where
  "adds f bs \<longleftrightarrow> (\<forall>w. bb_bits w < 8 \<longrightarrow> written (f w) = written w @ bs \<and> bb_bits (f w) < 8)"

named_theorems adding

lemma adds_writeBits [adding]:
  assumes "n \<le> 32"
  shows "adds (writeBits n v) (natBits n (unat v))"
  unfolding adds_def
proof (intro allI impI)
  fix w :: bzip2BitWriter assume w: "bb_bits w < 8"
  show "written (writeBits n v w) = written w @ natBits n (unat v) \<and> bb_bits (writeBits n v w) < 8"
  proof (cases "n = 0")
    case True
    then show ?thesis using w by (simp add: writeBits_def)
  next
    case False
    define x where "x = push_bit n (bb_value w) OR (ucast v AND (push_bit n 1 - 1))"
    let ?w = "w\<lparr>bb_value := x, bb_bits := bb_bits w + n\<rparr>"
    have bits: "bit x i \<longleftrightarrow> (if i < n then bit v i else bit (bb_value w) (i - n))" if "i < 64" for i
      using that assms by (auto simp: x_def bit_mask_form bit_or_iff bit_and_iff bit_push_bit_iff bit_ucast_iff
          dest: bit_imp_le_length)
    have "natBits (bb_bits w) (unat x div 2 ^ n) = natBits (bb_bits w) (unat (bb_value w))"
      by (rule natBits_cong) (use w assms in \<open>simp add: bit_div bit_unat bits\<close>)
    moreover have "natBits n (unat x) = natBits n (unat v)"
      by (rule natBits_cong) (use assms in \<open>simp add: bit_unat bits\<close>)
    ultimately have "written ?w = written w @ natBits n (unat v)" by (simp add: written_def natBits_append)
    then show ?thesis using emitBytes_written [of ?w] w assms False
      by (simp add: writeBits_def x_def)
  qed
qed

lemma adds_id [adding]: "adds (\<lambda>w. w) []"
  by (simp add: adds_def)

lemma adds_comp: "adds f xs \<Longrightarrow> adds g ys \<Longrightarrow> adds (\<lambda>w. g (f w)) (xs @ ys)"
  by (simp add: adds_def)

lemma adds_fold: "(\<And>x. x \<in> set xs \<Longrightarrow> adds (f x) (bs x)) \<Longrightarrow> adds (fold f xs) (concat (map bs xs))"
proof (induction xs)
  case (Cons x xs)
  then have "adds (\<lambda>w. fold f xs (f x w)) (bs x @ concat (map bs xs))" by (intro adds_comp) simp_all
  then show ?case by (simp add: comp_def)
qed (simp add: adds_def)

lemma adds_funpow: "adds f bs \<Longrightarrow> adds (f ^^ n) (concat (replicate n bs))"
proof (induction n)
  case (Suc n)
  then have "adds (\<lambda>w. (f ^^ n) (f w)) (bs @ concat (replicate n bs))" by (intro adds_comp) simp_all
  then show ?case by (simp add: funpow_swap1 comp_def)
qed (simp add: adds_def)

text \<open>An operation that may panic adds bits and does not.\<close>

definition emits :: "(bzip2BitWriter \<Rightarrow> bzip2BitWriter codec) \<Rightarrow> bool list \<Rightarrow> bool" where
  "emits f bs \<longleftrightarrow> (\<forall>w. bb_bits w < 8 \<longrightarrow> (\<exists>w'. f w = Ret w' \<and> written w' = written w @ bs \<and> bb_bits w' < 8))"

lemma flushBits_written:
  assumes "bb_bits w < 8"
  shows "\<exists>pad < 8. bitsOf (bb_output (flushBits w)) = written w @ replicate pad False"
proof (cases "bb_bits w = 0")
  case True
  then show ?thesis by (intro exI [of _ 0]) (simp add: flushBits_def written_def)
next
  case False
  define n where "n = bb_bits w"
  have n: "n < 8" using assms by (simp add: n_def)
  let ?byte = "ucast (push_bit (8 - n) (bb_value w) AND 0xff) :: u8"
  have bits: "bit ?byte i \<longleftrightarrow> i < 8 \<and> 8 - n \<le> i \<and> bit (bb_value w) (i - (8 - n))" for i
    by (auto simp: bit_ucast_iff bit_and_iff bit_ff bit_push_bit_iff)
  have "natBits 8 (unat ?byte) = natBits n (unat ?byte div 2 ^ (8 - n)) @ natBits (8 - n) (unat ?byte)"
    using natBits_append [of n "8 - n"] assms by (simp add: n_def)
  also have "natBits n (unat ?byte div 2 ^ (8 - n)) = natBits n (unat (bb_value w))"
    by (rule natBits_cong) (use n in \<open>auto simp: bit_div bit_unat bits\<close>)
  also have "natBits (8 - n) (unat ?byte) = natBits (8 - n) 0"
    by (rule natBits_cong) (simp add: bit_unat bits)
  finally have "natBits 8 (unat ?byte) = natBits n (unat (bb_value w)) @ replicate (8 - n) False"
    by (simp add: natBits_zero)
  then show ?thesis using False
    by (intro exI [of _ "8 - n"]) (simp add: flushBits_def written_def n_def)
qed

end
