(* ===== verification/Bz2Sort.thy ===== *)
theory Bz2Sort
  imports Bz2 "HOL-Library.List_Lexorder" "HOL-Library.Multiset"
begin

text \<open>
  The Burrows-Wheeler transform against its definition: prefix doubling sorts the rotations.  The
  ranks after \<open>k\<close> rounds order the positions by the first \<open>2 ^ k\<close> bytes of their rotations.
\<close>

section \<open>Sorting by equivalent keys\<close>

lemma insort_key_order:
  "(\<And>y. y \<in> set xs \<Longrightarrow> f x \<le> f y \<longleftrightarrow> g x \<le> g y) \<Longrightarrow> insort_key f x xs = insort_key g x xs"
  by (induction xs) auto

lemma sort_key_order:
  "(\<And>x y. x \<in> set xs \<Longrightarrow> y \<in> set xs \<Longrightarrow> f x \<le> f y \<longleftrightarrow> g x \<le> g y) \<Longrightarrow> sort_key f xs = sort_key g xs"
proof (induction xs)
  case (Cons x xs)
  then have "sort_key f xs = sort_key g xs" by simp
  moreover have "insort_key f x (sort_key g xs) = insort_key g x (sort_key g xs)"
    by (rule insort_key_order) (simp add: Cons.prems)
  ultimately show ?case by simp
qed simp

lemma sort_key_again:
  assumes "mset ys = mset xs"
  shows "sort_key (\<lambda>p. (f p, p)) ys = sort_key (\<lambda>p. (f p, p)) (xs :: nat list)"
  by (rule sort_key_inj_key_eq) (auto simp: assms inj_on_def)

lemma lex_split:
  "length u = length u' \<Longrightarrow>
     (u @ v \<le> u' @ v') = (u < u' \<or> u = u' \<and> v \<le> (v' :: 'a :: linorder list))"
  by (induction u u' rule: list_induct2) auto

lemma card_image_le_of:
  assumes "finite A" "\<And>p q. p \<in> A \<Longrightarrow> q \<in> A \<Longrightarrow> f p = f q \<Longrightarrow> g p = g q"
  shows "card (g ` A) \<le> card (f ` A)"
proof -
  have "g (inv_into A f (f p)) = g p" if "p \<in> A" for p
    using that by (intro assms(2)) (simp_all add: inv_into_into f_inv_into_f)
  then have "g ` A = (\<lambda>k. g (inv_into A f k)) ` f ` A" by (auto simp: image_image)
  then show ?thesis using card_image_le [of "f ` A" "\<lambda>k. g (inv_into A f k)"] assms(1) by simp
qed

lemma card_image_cong:
  assumes "finite A" "\<And>p q. p \<in> A \<Longrightarrow> q \<in> A \<Longrightarrow> f p = f q \<longleftrightarrow> g p = g q"
  shows "card (f ` A) = card (g ` A)"
  using assms by (intro order.antisym card_image_le_of) auto

section \<open>The first bytes of a rotation\<close>

definition byteAt :: "bytes \<Rightarrow> nat \<Rightarrow> u8" where
  "byteAt data i = data ! (i mod length data)"

definition pre :: "bytes \<Rightarrow> nat \<Rightarrow> nat \<Rightarrow> bytes" where
  "pre data h p = map (\<lambda>i. byteAt data (p + i)) [0..<h]"

lemma length_pre [simp]: "length (pre data h p) = h"
  by (simp add: pre_def)

lemma byteAt_mod: "byteAt data (p mod length data + i) = byteAt data (p + i)"
  by (simp add: byteAt_def mod_add_left_eq)

lemma pre_mod: "pre data h (p mod length data) = pre data h p"
  by (simp add: pre_def byteAt_mod)

lemma pre_add: "pre data (h + m) p = pre data h p @ pre data m (p + h)"
  by (rule nth_equalityI) (auto simp: pre_def nth_append add.assoc)

lemma pre_take: "h \<le> m \<Longrightarrow> take h (pre data m p) = pre data h p"
  by (simp add: pre_def take_map)

lemma pre_eq_iff: "pre data h p = pre data h q \<longleftrightarrow> (\<forall>i < h. byteAt data (p + i) = byteAt data (q + i))"
  by (auto simp: pre_def list_eq_iff_nth_eq)

lemma pre_rotate: "p < length data \<Longrightarrow> pre data (length data) p = rotate p data"
  by (rule nth_equalityI) (auto simp: pre_def byteAt_def nth_rotate)

text \<open>Enough bytes to tell any two different rotations apart.\<close>

definition settled :: "bytes \<Rightarrow> nat \<Rightarrow> bool" where
  "settled data h \<longleftrightarrow> (\<forall>p q. pre data h p = pre data h q \<longrightarrow> (\<forall>i. byteAt data (p + i) = byteAt data (q + i)))"

lemma settled_mono: "settled data h \<Longrightarrow> h \<le> m \<Longrightarrow> settled data m"
  unfolding settled_def by (metis pre_take)

lemma settled_length:
  assumes "data \<noteq> []"
  shows "settled data (length data)"
  unfolding settled_def pre_eq_iff
proof (intro allI impI)
  fix p q i assume *: "\<forall>i < length data. byteAt data (p + i) = byteAt data (q + i)"
  have "byteAt data (p + i) = byteAt data (p + i mod length data)" for p i
    by (simp add: byteAt_def mod_add_right_eq)
  with * assms show "byteAt data (p + i) = byteAt data (q + i)" by (metis length_greater_0_conv mod_less_divisor)
qed

lemma settled_order:
  assumes "settled data h" "h \<le> m"
  shows "pre data m p \<le> pre data m q \<longleftrightarrow> pre data h p \<le> pre data h q"
proof -
  obtain d where d: "m = h + d" using assms(2) le_Suc_ex by blast
  have "pre data d (p + h) = pre data d (q + h)" if "pre data h p = pre data h q"
    using assms(1) that unfolding settled_def pre_eq_iff [of data d] add.assoc by blast
  then have "pre data m p \<le> pre data m q \<longleftrightarrow> pre data h p < pre data h q \<or> pre data h p = pre data h q"
    unfolding d pre_add lex_split [of "pre data h p" "pre data h q", simplified] by fastforce
  then show ?thesis by (simp only: order.order_iff_strict)
qed

text \<open>No new class when the length is doubled: nothing is left to tell apart.\<close>

lemma settled_stable:
  assumes "0 < h" and same: "\<And>p q. pre data h p = pre data h q \<Longrightarrow> pre data (h + h) p = pre data (h + h) q"
  shows "settled data h"
  unfolding settled_def
proof (intro allI impI)
  fix p q i assume *: "pre data h p = pre data h q"
  have "pre data h (p + j * h) = pre data h (q + j * h)" for j
  proof (induction j)
    case (Suc j)
    from same [OF Suc] have "pre data h (p + j * h + h) = pre data h (q + j * h + h)" by (simp add: pre_add)
    then show ?case by (simp add: algebra_simps)
  qed (simp add: *)
  from this [of "i div h"] have "byteAt data (p + (i div h * h + i mod h)) = byteAt data (q + (i div h * h + i mod h))"
    using assms(1) unfolding pre_eq_iff add.assoc by (blast intro: mod_less_divisor)
  then show "byteAt data (p + i) = byteAt data (q + i)" by (simp only: div_mult_mod_eq)
qed

section \<open>Numbering the classes\<close>

lemma classLoop_numbers:
  assumes "classLoop (\<lambda>p q. key p \<noteq> key q) (Some q0) ps classes ranks = (ranks', c)"
    "sorted (map key (q0 # ps))" "distinct ps" "0 < classes" "\<forall>p \<in> set ps. p < length ranks"
  shows "length ranks' = length ranks \<and> c = classes + card (key ` set ps - {key q0}) \<and>
    (\<forall>p. p \<notin> set ps \<longrightarrow> ranks' ! p = ranks ! p) \<and>
    (\<forall>p \<in> set ps. classes - 1 \<le> ranks' ! p \<and> (ranks' ! p = classes - 1 \<longleftrightarrow> key p = key q0)) \<and>
    (\<forall>p \<in> set ps. \<forall>q \<in> set ps. ranks' ! p \<le> ranks' ! q \<longleftrightarrow> key p \<le> (key q :: 'a :: linorder))"
  using assms
proof (induction ps arbitrary: q0 classes ranks)
  case (Cons p ps)
  define classes' where "classes' = (if key p \<noteq> key q0 then classes + 1 else classes)"
  have step: "classLoop (\<lambda>p q. key p \<noteq> key q) (Some p) ps classes' (ranks[p := classes' - 1]) = (ranks', c)"
    using Cons.prems(1) by (simp add: classes'_def Let_def)
  have ge: "key q0 \<le> key p" "\<forall>q \<in> set ps. key p \<le> key q" "p \<notin> set ps" using Cons.prems(2,3) by auto
  have IH: "length ranks' = length ranks" "c = classes' + card (key ` set ps - {key p})"
      "\<forall>q. q \<notin> set ps \<longrightarrow> ranks' ! q = ranks[p := classes' - 1] ! q"
      "\<forall>q \<in> set ps. classes' - 1 \<le> ranks' ! q \<and> (ranks' ! q = classes' - 1 \<longleftrightarrow> key q = key p)"
      "\<forall>p \<in> set ps. \<forall>q \<in> set ps. ranks' ! p \<le> ranks' ! q \<longleftrightarrow> key p \<le> key q"
    using Cons.IH [OF step] Cons.prems by (simp_all add: classes'_def)
  have p: "ranks' ! p = classes' - 1" using IH(3) ge(3) Cons.prems(5) by simp
  have card: "c = classes + card (key ` set (p # ps) - {key q0})"
  proof (cases "key p = key q0")
    case True
    then show ?thesis using IH(2) by (simp add: classes'_def)
  next
    case False
    then have "key q0 \<notin> key ` set ps" using ge by fastforce
    then have "key ` set (p # ps) - {key q0} = insert (key p) (key ` set ps - {key p})" using False by auto
    then have "card (key ` set (p # ps) - {key q0}) = Suc (card (key ` set ps - {key p}))"
      by (simp add: card.insert_remove)
    then show ?thesis using IH(2) False by (simp add: classes'_def)
  qed
  have low: "\<forall>q \<in> set (p # ps). classes - 1 \<le> ranks' ! q \<and> (ranks' ! q = classes - 1 \<longleftrightarrow> key q = key q0)"
  proof (cases "key p = key q0")
    case True
    then show ?thesis using IH(4) p by (auto simp: classes'_def)
  next
    case False
    moreover have "key q \<noteq> key q0" if "q \<in> set ps" for q using that ge False by fastforce
    ultimately show ?thesis using IH(4) p Cons.prems(4) by (force simp: classes'_def)
  qed
  have "ranks' ! p' \<le> ranks' ! q' \<longleftrightarrow> key p' \<le> key q'" if "p' \<in> set (p # ps)" "q' \<in> set (p # ps)" for p' q'
  proof -
    have "ranks' ! q \<le> ranks' ! p \<longleftrightarrow> key q \<le> key p" if "q \<in> set ps" for q
      using that IH(4) p ge(2) by (metis order.eq_iff)
    moreover have "ranks' ! p \<le> ranks' ! q" if "q \<in> set ps" for q using that IH(4) p by simp
    ultimately
    show ?thesis using that IH(5) ge(2) by auto
  qed
  with IH(1,3) card low p ge(3) show ?case by auto
qed auto

lemma classLoop_ranks:
  assumes "classLoop (\<lambda>p q. key p \<noteq> key q) None (sort_key (\<lambda>p. (key p, p)) [0..<n]) 0 (replicate n 0) = (ranks, c)"
  shows "length ranks = n \<and> c = card (key ` {..<n}) \<and>
    (\<forall>p < n. \<forall>q < n. ranks ! p \<le> ranks ! q \<longleftrightarrow> key p \<le> (key q :: 'a :: linorder))"
proof (cases "sort_key (\<lambda>p. (key p, p)) [0..<n]")
  case Nil
  then have "n = 0" by (metis length_0_conv length_sort length_upt diff_zero)
  with assms Nil show ?thesis by simp
next
  case (Cons p ps)
  have set: "set (p # ps) = {..<n}" and dist: "distinct (p # ps)"
    unfolding Cons [symmetric] by (auto simp: lessThan_atLeast0)
  have "sorted (map (\<lambda>p. (key p, p)) (p # ps))" unfolding Cons [symmetric] by (rule sorted_sort_key)
  then have sorted: "sorted (map key (p # ps))" by (auto simp: sorted_map elim!: sorted_wrt_mono_rel [rotated])
  have step: "classLoop (\<lambda>p q. key p \<noteq> key q) (Some p) ps 1 ((replicate n 0)[p := 0]) = (ranks, c)"
    using assms Cons by (simp add: Let_def)
  have rs: "length ranks = n" "c = 1 + card (key ` set ps - {key p})"
      "\<forall>q. q \<notin> set ps \<longrightarrow> ranks ! q = (replicate n 0)[p := 0] ! q"
      "\<forall>q \<in> set ps. ranks ! q = 0 \<longleftrightarrow> key q = key p"
      "\<forall>p \<in> set ps. \<forall>q \<in> set ps. ranks ! p \<le> ranks ! q \<longleftrightarrow> key p \<le> key q"
    using classLoop_numbers [OF step sorted] dist set by (auto simp: subset_iff)
  have p: "p < n" "p \<notin> set ps" using set dist by auto
  then have zero: "ranks ! p = 0" using rs(3) by simp
  have least: "\<forall>q \<in> set ps. key p \<le> key q" using sorted by simp
  have "key ` {..<n} = insert (key p) (key ` set ps - {key p})" using set by auto
  then have "c = card (key ` {..<n})" using rs(2) by (simp add: card.insert_remove)
  moreover have "ranks ! q \<le> ranks ! q' \<longleftrightarrow> key q \<le> key q'" if "q \<in> set (p # ps)" "q' \<in> set (p # ps)" for q q'
    using that rs(4,5) zero least by (auto dest: order.antisym)
  then have "\<forall>q < n. \<forall>q' < n. ranks ! q \<le> ranks ! q' \<longleftrightarrow> key q \<le> key q'"
    unfolding set by simp
  ultimately show ?thesis using rs(1) by blast
qed


lemma classLoop_cong:
  assumes "\<And>p q. p \<in> set ps \<Longrightarrow> q \<in> set ps \<or> prev = Some q \<Longrightarrow> f p q = g p q"
  shows "classLoop f prev ps classes ranks = classLoop g prev ps classes ranks"
  using assms
proof (induction ps arbitrary: prev classes ranks)
  case (Cons p ps)
  have "classLoop f (Some p) ps c r = classLoop g (Some p) ps c r" for c r
    by (rule Cons.IH) (auto simp: Cons.prems)
  then show ?case using Cons.prems by (auto split: option.splits simp: Let_def)
qed simp

section \<open>Prefix doubling\<close>

definition rotationOrder :: "bytes \<Rightarrow> nat list" where
  "rotationOrder data = sort_key (\<lambda>p. (rotate p data, p)) [0..<length data]"

definition prefixOrder :: "bytes \<Rightarrow> nat \<Rightarrow> nat list" where
  "prefixOrder data h = sort_key (\<lambda>p. (pre data h p, p)) [0..<length data]"

text \<open>The ranks order the positions by their first \<open>h\<close> bytes.\<close>

definition ranked :: "bytes \<Rightarrow> nat \<Rightarrow> nat list \<Rightarrow> nat \<Rightarrow> bool" where
  "ranked data h ranks c \<longleftrightarrow> length ranks = length data \<and> c = card (pre data h ` {..<length data}) \<and>
     (\<forall>p < length data. \<forall>q < length data. ranks ! p \<le> ranks ! q \<longleftrightarrow> pre data h p \<le> pre data h q)"

lemma settled_prefixOrder:
  assumes "settled data h"
  shows "prefixOrder data h = rotationOrder data"
  unfolding prefixOrder_def rotationOrder_def
proof (rule sort_key_order)
  fix p q assume pq: "p \<in> set [0..<length data]" "q \<in> set [0..<length data]"
  then have "settled data (length data)" by (intro settled_length) auto
  then have "pre data h p \<le> pre data h q \<longleftrightarrow> pre data (length data) p \<le> pre data (length data) q" for p q
    using settled_order [OF assms, of "max h (length data)" p q]
      settled_order [of data "length data" "max h (length data)" p q] by simp
  with pq have "pre data h p \<le> pre data h q \<longleftrightarrow> rotate p data \<le> rotate q data"
      "pre data h q \<le> pre data h p \<longleftrightarrow> rotate q data \<le> rotate p data" by (simp_all add: pre_rotate)
  then show "(pre data h p, p) \<le> (pre data h q, q) \<longleftrightarrow> (rotate p data, p) \<le> (rotate q data, q)"
    by (auto simp: less_eq_prod_def less_le_not_le)
qed

text \<open>Two ranks say what twice as many bytes say.\<close>

lemma rankPair_order:
  assumes r: "ranked data h ranks c" and pq: "p < length data" "q < length data"
  shows "rankPair (length data) ranks h p \<le> rankPair (length data) ranks h q \<longleftrightarrow>
    pre data (h + h) p \<le> pre data (h + h) q"
proof -
  have le: "ranks ! p \<le> ranks ! q \<longleftrightarrow> pre data h p \<le> pre data h q" if "p < length data" "q < length data" for p q
    using r that by (simp add: ranked_def)
  have lt: "ranks ! p < ranks ! q \<longleftrightarrow> pre data h p < pre data h q" if "p < length data" "q < length data" for p q
    using le [OF that] le [OF that(2,1)] by (simp add: less_le_not_le)
  have m: "(p + h) mod length data < length data" "(q + h) mod length data < length data"
    using pq by (auto intro!: mod_less_divisor)
  have "rankPair (length data) ranks h p \<le> rankPair (length data) ranks h q \<longleftrightarrow>
      pre data h p < pre data h q \<or> pre data h p \<le> pre data h q \<and> pre data h (p + h) \<le> pre data h (q + h)"
    unfolding rankPair_def less_eq_prod_def fst_conv snd_conv
    by (simp only: le [OF pq] lt [OF pq] le [OF m] pre_mod)
  also have "\<dots> \<longleftrightarrow> pre data (h + h) p \<le> pre data (h + h) q"
    unfolding pre_add lex_split [of "pre data h p" "pre data h q", simplified] by (auto simp: order.order_iff_strict)
  finally show ?thesis .
qed

lemma orderPairs_prefix:
  assumes "ranked data h ranks c"
  shows "orderPairs (length data) ranks h (prefixOrder data m) = prefixOrder data (h + h)"
proof -
  have "orderPairs (length data) ranks h (prefixOrder data m) =
      sort_key (\<lambda>p. (rankPair (length data) ranks h p, p)) [0..<length data]"
    unfolding orderPairs_def by (rule sort_key_again) (simp add: prefixOrder_def)
  also have "\<dots> = prefixOrder data (h + h)"
    unfolding prefixOrder_def
  proof (rule sort_key_order)
    fix p q assume "p \<in> set [0..<length data]" "q \<in> set [0..<length data]"
    then show "(rankPair (length data) ranks h p, p) \<le> (rankPair (length data) ranks h q, q) \<longleftrightarrow>
        (pre data (h + h) p, p) \<le> (pre data (h + h) q, q)"
      using rankPair_order [OF assms, of p q] rankPair_order [OF assms, of q p]
      by (simp add: less_eq_prod_def [of "(rankPair _ _ _ _, _)"] less_eq_prod_def [of "(pre _ _ _, _)"] less_le_not_le)
  qed
  finally show ?thesis .
qed

lemma rankPairs_ranked:
  assumes r: "ranked data h ranks c"
    and rp: "rankPairs (length data) ranks h (prefixOrder data (h + h)) = (ranks', c')"
  shows "ranked data (h + h) ranks' c'"
proof -
  let ?key = "rankPair (length data) ranks h"
  have "prefixOrder data (h + h) = sort_key (\<lambda>p. (?key p, p)) [0..<length data]"
    unfolding orderPairs_prefix [OF r, of h, symmetric] orderPairs_def
    by (rule sort_key_again) (simp add: prefixOrder_def)
  then have c: "length ranks' = length data" "c' = card (?key ` {..<length data})"
      "\<forall>p < length data. \<forall>q < length data. ranks' ! p \<le> ranks' ! q \<longleftrightarrow> ?key p \<le> ?key q"
    using classLoop_ranks [of ?key "length data" ranks' c'] rp by (simp_all add: rankPairs_def)
  have eq: "?key p = ?key q \<longleftrightarrow> pre data (h + h) p = pre data (h + h) q" if "p < length data" "q < length data" for p q
    using rankPair_order [OF r that] rankPair_order [OF r that(2,1)] by (metis order.antisym order.refl)
  have "card (?key ` {..<length data}) = card (pre data (h + h) ` {..<length data})"
    by (rule card_image_cong) (simp_all add: eq)
  with c rankPair_order [OF r] show ?thesis by (simp add: ranked_def)
qed


lemma doubling_sorts:
  assumes "ranked data (2 ^ k) ranks c"
  shows "doubling (length data) k ranks c (prefixOrder data (2 ^ k)) = rotationOrder data"
  using assms
proof (induction "length data - 2 ^ k" arbitrary: k ranks c rule: less_induct)
  case less
  let ?n = "length data" and ?h = "2 ^ k :: nat"
  show ?case
  proof (cases "?h < ?n \<and> c < ?n")
    case True
    obtain ranks' c' where rp: "rankPairs ?n ranks ?h (prefixOrder data (?h + ?h)) = (ranks', c')" by fastforce
    note r' = rankPairs_ranked [OF less.prems rp]
    have step: "doubling ?n k ranks c (prefixOrder data ?h) =
        (if c' = c then prefixOrder data (?h + ?h) else doubling ?n (k + 1) ranks' c' (prefixOrder data (?h + ?h)))"
      using True by (subst doubling.simps) (simp add: orderPairs_prefix [OF less.prems] rp)
    show ?thesis
    proof (cases "c' = c")
      case True
      have "card (take ?h ` pre data (?h + ?h) ` {..<?n}) = card (pre data (?h + ?h) ` {..<?n})"
        using True less.prems r' by (simp add: ranked_def image_image pre_take)
      then have inj: "inj_on (take ?h) (pre data (?h + ?h) ` {..<?n})" by (intro eq_card_imp_inj_on) simp_all
      have "settled data ?h"
      proof (rule settled_stable)
        fix p q assume "pre data ?h p = pre data ?h q"
        moreover have "pre data (?h + ?h) (p mod ?n) \<in> pre data (?h + ?h) ` {..<?n}" for p
        proof -
          have "0 < ?n" using \<open>?h < ?n \<and> c < ?n\<close> by linarith
          then show ?thesis by (intro imageI) simp
        qed
        ultimately show "pre data (?h + ?h) p = pre data (?h + ?h) q"
          using inj_onD [OF inj, of "pre data (?h + ?h) (p mod ?n)" "pre data (?h + ?h) (q mod ?n)"]
          by (simp add: pre_take pre_mod)
      qed simp
      then have "settled data (?h + ?h)" by (rule settled_mono) simp
      with True step show ?thesis by (simp add: settled_prefixOrder)
    next
      case False
      have "?h < 2 ^ (k + 1)" by simp
      then have "?n - 2 ^ (k + 1) < ?n - ?h" using True by (intro diff_less_mono2) simp_all
      then show ?thesis using less.hyps [of "k + 1" ranks' c'] r' False step by (simp add: mult_2)
    qed
  next
    case False
    have "data = [] \<or> settled data ?h"
    proof (cases "?h < ?n")
      case True
      then have "card (pre data ?h ` {..<?n}) = ?n"
        using False less.prems card_image_le [of "{..<?n}" "pre data ?h"] by (simp add: ranked_def)
      then have inj: "inj_on (pre data ?h) {..<?n}" by (intro eq_card_imp_inj_on) simp_all
      have "p mod ?n = q mod ?n" if "pre data ?h p = pre data ?h q" for p q
      proof -
        have "0 < ?n" using True by linarith
        then have "p mod ?n < ?n" "q mod ?n < ?n" by simp_all
        with that show ?thesis using inj_onD [OF inj, of "p mod ?n" "q mod ?n"] by (simp add: pre_mod)
      qed
      then show ?thesis unfolding settled_def by (metis byteAt_mod)
    next
      case False
      then show ?thesis using settled_mono [OF settled_length, of data ?h] by (cases "data = []") auto
    qed
    then have "prefixOrder data ?h = rotationOrder data"
      by (auto simp: settled_prefixOrder) (simp add: prefixOrder_def rotationOrder_def)
    with False show ?thesis by (subst doubling.simps) auto
  qed
qed

lemma firstOrder_prefix: "firstOrder data = prefixOrder data 1"
  unfolding firstOrder_def prefixOrder_def
  by (rule sort_key_order) (auto simp: pre_def byteAt_def less_eq_prod_def word_le_nat_alt word_less_nat_alt word_unat_eq_iff)

lemma firstRanks_ranked:
  assumes "firstRanks data = (ranks, c)"
  shows "ranked data 1 ranks c"
proof -
  have order: "firstOrder data = sort_key (\<lambda>p. (pre data 1 p, p)) [0..<length data]"
    unfolding firstOrder_prefix by (simp add: prefixOrder_def)
  have eq: "data ! p \<noteq> data ! q \<longleftrightarrow> pre data 1 p \<noteq> pre data 1 q" if "p < length data" "q < length data" for p q
    using that by (simp add: pre_def byteAt_def)
  have "firstRanks data = classLoop (\<lambda>p q. pre data 1 p \<noteq> pre data 1 q) None (firstOrder data) 0 (replicate (length data) 0)"
    unfolding firstRanks_def by (rule classLoop_cong) (use eq in \<open>simp add: firstOrder_def\<close>)
  with assms classLoop_ranks [of "pre data 1" "length data" ranks c] show ?thesis
    by (simp add: ranked_def order)
qed

lemma bwtOrder_rotations: "bwtOrder data = rotationOrder data"
proof -
  obtain ranks c where r: "firstRanks data = (ranks, c)" by fastforce
  have "doubling (length data) 0 ranks c (prefixOrder data (2 ^ 0)) = rotationOrder data"
    by (rule doubling_sorts) (use firstRanks_ranked [OF r] in simp)
  with r show ?thesis by (simp add: bwtOrder_def firstOrder_prefix)
qed


section \<open>The transform\<close>

definition rotations :: "bytes \<Rightarrow> bytes list" where
  "rotations data = map (\<lambda>p. rotate p data) [0..<length data]"

lemma sort_rotations: "map (\<lambda>p. rotate p data) (rotationOrder data) = sort (rotations data)"
proof (rule properties_for_sort [symmetric])
  have "sorted (map (\<lambda>p. (rotate p data, p)) (rotationOrder data))"
    unfolding rotationOrder_def by (rule sorted_sort_key)
  then show "sorted (map (\<lambda>p. rotate p data) (rotationOrder data))"
    by (auto simp: sorted_map elim!: sorted_wrt_mono_rel [rotated])
qed (simp add: rotations_def rotationOrder_def)

lemma rotationOrder_nth:
  "i < length data \<Longrightarrow> rotate (rotationOrder data ! i) data = sort (rotations data) ! i"
  unfolding sort_rotations [symmetric] by (simp add: rotationOrder_def)

lemma last_rotate: "p < length data \<Longrightarrow> last (rotate p data) = data ! ((p + length data - 1) mod length data)"
  by (subst last_conv_nth) (auto simp: nth_rotate algebra_simps)

lemma set_rotationOrder: "set (rotationOrder data) = {..<length data}" "length (rotationOrder data) = length data"
  by (auto simp: rotationOrder_def)

lemma takeWhile_stops: "x \<in> set xs \<Longrightarrow> length (takeWhile (\<lambda>y. y \<noteq> x) xs) < length xs \<and>
    xs ! length (takeWhile (\<lambda>y. y \<noteq> x) xs) = x"
  by (induction xs) auto

lemma bwt_transform:
  "fst (bzip2BWT data) = map last (sort (rotations data)) \<and>
     (snd (bzip2BWT data) < length data \<and> sort (rotations data) ! snd (bzip2BWT data) = data \<or>
      bzip2BWT data = ([], 0) \<and> data = [])"
proof -
  let ?ps = "rotationOrder data"
  have column: "fst (bzip2BWT data) = map last (sort (rotations data))"
    unfolding sort_rotations [symmetric] bzip2BWT_def bwtOrder_rotations Let_def
    by (simp add: last_rotate set_rotationOrder)
  show ?thesis
  proof (cases "data = []")
    case True
    then show ?thesis by (simp add: bzip2BWT_def bwtOrder_rotations rotationOrder_def rotations_def)
  next
    case False
    let ?i = "snd (bzip2BWT data)"
    have "?i = length (takeWhile (\<lambda>p. p \<noteq> 0) ?ps)" by (simp add: bzip2BWT_def bwtOrder_rotations Let_def)
    moreover have "0 \<in> set ?ps" using False by (simp add: set_rotationOrder)
    ultimately have "?i < length data \<and> ?ps ! ?i = 0" using takeWhile_stops [of 0 ?ps] by (simp add: set_rotationOrder)
    with rotationOrder_nth [of ?i data] column show ?thesis by simp
  qed
qed

text \<open>C19: the transform is the last column of the sorted list of all rotations, and the index it
  returns is the row of the data.\<close>

theorem bwt_sorts_rotations:
  "fst (bzip2BWT data) = map last (sort (rotations data)) \<and>
     (snd (bzip2BWT data) < length data \<and> sort (rotations data) ! snd (bzip2BWT data) = data \<or>
      bzip2BWT data = ([], 0) \<and> data = [])"
  by (rule bwt_transform)

end
