(* ===== verification/Bz2Stages.thy ===== *)
theory Bz2Stages
  imports Bz2Ref Bz2Sort
begin

text \<open>
  Each stage of the compressor has its inverse in the reference reader: the run-length stage, the
  Burrows-Wheeler transform and the move-to-front stage.
\<close>

section \<open>Runs\<close>

text \<open>The run that \<open>runEnd\<close> measures: equal bytes, and a different one after it unless it is full.\<close>

lemma runEnd_run:
  assumes "runEnd k0 b data = n"
  shows "take (n - k0) data = replicate (n - k0) b \<and> n - k0 \<le> length data \<and>
    (n < 259 \<longrightarrow> drop (n - k0) data = [] \<or> hd (drop (n - k0) data) \<noteq> b)"
  using assms
proof (induction k0 b data rule: runEnd.induct)
  case (1 k0 b x data)
  show ?case
  proof (cases "x = b \<and> k0 < 259")
    case True
    then have n: "runEnd (k0 + 1) b data = n" using "1.prems" by simp
    then have "k0 + 1 \<le> n" using runEnd_ge [of "k0 + 1" b data] by simp
    then have "n - k0 = Suc (n - (k0 + 1))" by simp
    with "1.IH" [OF True n] True show ?thesis by simp
  next
    case False
    then have "n = k0" using "1.prems" by (simp split: if_splits)
    with False show ?thesis by auto
  qed
qed simp

lemma unRLE_run:
  "seen = 0 \<or> x \<noteq> b \<Longrightarrow> seen < 4 \<Longrightarrow> 0 < n \<Longrightarrow> n \<le> 4 \<Longrightarrow>
     unRLE seen b (replicate n x @ rest) = replicate n x @ unRLE n x rest"
proof -
  have more: "0 < m \<Longrightarrow> m + k \<le> 4 \<Longrightarrow> unRLE m x (replicate k x @ rest) = replicate k x @ unRLE (m + k) x rest" for m k
    by (induction k arbitrary: m) auto
  assume *: "seen = 0 \<or> x \<noteq> b" "seen < 4" "0 < n" "n \<le> 4"
  then obtain k where k: "n = Suc k" by (cases n) auto
  with * more [of 1 k] show ?thesis by (auto simp: k)
qed

lemma wellCounted_run:
  "seen = 0 \<or> x \<noteq> b \<Longrightarrow> seen < 4 \<Longrightarrow> 0 < n \<Longrightarrow> n \<le> 4 \<Longrightarrow>
     wellCounted seen b (replicate n x @ rest) = wellCounted n x rest"
proof -
  have more: "0 < m \<Longrightarrow> m + k \<le> 4 \<Longrightarrow> wellCounted m x (replicate k x @ rest) = wellCounted (m + k) x rest" for m k
    by (induction k arbitrary: m) auto
  assume *: "seen = 0 \<or> x \<noteq> b" "seen < 4" "0 < n" "n \<le> 4"
  then obtain k where k: "n = Suc k" by (cases n) auto
  with * more [of 1 k] show ?thesis by (auto simp: k)
qed

text \<open>The first run, and what is written for it.\<close>

lemma RLE_step:
  obtains n rest where "0 < n" "n \<le> 259" "x # data = replicate n x @ rest" "n < 259 \<longrightarrow> rest = [] \<or> hd rest \<noteq> x"
    and "bzip2RLE1 (x # data) = (if n < 4 then replicate n x else replicate 4 x @ [of_nat (n - 4)]) @ bzip2RLE1 rest"
proof -
  define n where "n = runEnd 1 x data"
  have n: "0 < n" "n \<le> 259" using runEnd_ge [of 1 x data] runEnd_le [of 1 x data] by (simp_all add: n_def)
  have run: "take (n - 1) data = replicate (n - 1) x" "n - 1 \<le> length data"
      "n < 259 \<longrightarrow> drop n (x # data) = [] \<or> hd (drop n (x # data)) \<noteq> x"
    using runEnd_run [of 1 x data n] n by (auto simp: n_def drop_Cons')
  have a: "x # data = replicate n x @ drop n (x # data)"
    using run(1) n(1) append_take_drop_id [of "n - 1" data] by (cases n) auto
  have b: "bzip2RLE1 (x # data) =
      (if n < 4 then replicate n x else replicate 4 x @ [of_nat (n - 4)]) @ bzip2RLE1 (drop n (x # data))"
    by (simp add: n_def Let_def)
  show ?thesis by (rule that [OF n a run(3) b])
qed

lemma RLE_hd: "data \<noteq> [] \<Longrightarrow> bzip2RLE1 data \<noteq> [] \<and> hd (bzip2RLE1 data) = hd data"
proof -
  assume "data \<noteq> []"
  then obtain x ys where d: "data = x # ys" by (cases data) auto
  obtain n rest where n: "0 < n" "n \<le> 259" "x # ys = replicate n x @ rest" "n < 259 \<longrightarrow> rest = [] \<or> hd rest \<noteq> x"
    "bzip2RLE1 (x # ys) = (if n < 4 then replicate n x else replicate 4 x @ [of_nat (n - 4)]) @ bzip2RLE1 rest"
    by (rule RLE_step [of x ys])
  obtain m where "n = Suc m" using n(1) by (cases n) auto
  then show ?thesis unfolding d n(5) by (simp add: numeral_eq_Suc)
qed

lemma RLE_undone:
  assumes "seen = 0 \<or> seen < 4 \<and> (data = [] \<or> hd data \<noteq> b)"
  shows "unRLE seen b (bzip2RLE1 data) = data \<and> wellCounted seen b (bzip2RLE1 data)"
  using assms
proof (induction "length data" arbitrary: data seen b rule: less_induct)
  case less
  show ?case
  proof (cases data)
    case (Cons x ys)
    obtain n rest where n: "0 < n" "n \<le> 259" "x # ys = replicate n x @ rest" "n < 259 \<longrightarrow> rest = [] \<or> hd rest \<noteq> x"
      "bzip2RLE1 (x # ys) = (if n < 4 then replicate n x else replicate 4 x @ [of_nat (n - 4)]) @ bzip2RLE1 rest"
      by (rule RLE_step [of x ys])
    have seen: "seen = 0 \<or> x \<noteq> b" "seen < 4" using less.prems Cons by auto
    have "length (replicate n x @ rest) = length data" unfolding n(3) [symmetric] Cons ..
    then have short: "length rest < length data" using n(1) by simp
    show ?thesis
    proof (cases "n < 4")
      case True
      have "unRLE n x (bzip2RLE1 rest) = rest \<and> wellCounted n x (bzip2RLE1 rest)"
        using n(4) True by (intro less.hyps short) simp
      then show ?thesis
        using True unRLE_run [OF seen n(1), of "bzip2RLE1 rest"] wellCounted_run [OF seen n(1), of "bzip2RLE1 rest"]
        unfolding Cons n(5) by (simp add: n(3))
    next
      case False
      have IH: "unRLE 0 x (bzip2RLE1 rest) = rest \<and> wellCounted 0 x (bzip2RLE1 rest)"
        by (intro less.hyps short) simp
      have count: "unat (of_nat (n - 4) :: u8) = n - 4" using n(2) by (simp add: unat_of_nat)
      have ends: "bzip2RLE1 rest = [] \<or> hd (bzip2RLE1 rest) \<noteq> x" if "(of_nat (n - 4) :: u8) = 0"
      proof -
        have "n - 4 = 0" using count that by simp
        then have "n < 259" using False by simp
        with n(4) RLE_hd [of rest] show ?thesis by (cases "rest = []") auto
      qed
      have all: "replicate 4 x @ replicate (n - 4) x @ rest = x # ys"
        using False unfolding n(3) append.assoc [symmetric] replicate_add [symmetric] by simp
      have "unRLE seen b (bzip2RLE1 data) = replicate 4 x @ replicate (n - 4) x @ rest"
        using False unRLE_run [OF seen, of 4 "of_nat (n - 4) # bzip2RLE1 rest"] IH count
        unfolding Cons n(5) by simp
      moreover have "wellCounted seen b (bzip2RLE1 data)"
        using False wellCounted_run [OF seen, of 4 "of_nat (n - 4) # bzip2RLE1 rest"] IH ends
        unfolding Cons n(5) by simp
      ultimately show ?thesis using all Cons by simp
    qed
  qed simp
qed

lemmas unRLE_RLE = RLE_undone [THEN conjunct1]

text \<open>At most five bytes for four.\<close>

lemma length_RLE: "4 * length (bzip2RLE1 data) \<le> 5 * length data"
proof (induction data rule: bzip2RLE1.induct)
  case (2 b data)
  define n where "n = runEnd 1 b data"
  have n: "n \<le> length (b # data)" using runEnd_length [of 1 b data] by (simp add: n_def)
  note IH = "2.IH" [OF n_def]
  have "length (bzip2RLE1 (b # data)) = (if n < 4 then n else 5) + length (bzip2RLE1 (drop n (b # data)))"
    by (simp add: n_def Let_def)
  with IH n show ?case by (simp split: if_splits)
qed simp

lemma RLE_fits: "length data \<le> bzip2InputBlockSize \<Longrightarrow> length (bzip2RLE1 data) \<le> bzip2BlockSize"
  using length_RLE [of data] by (simp add: bzip2InputBlockSize_def bzip2BlockSize_def)

lemma RLE_Nil: "bzip2RLE1 data = [] \<longleftrightarrow> data = []"
proof
  assume "bzip2RLE1 data = []"
  then show "data = []" using unRLE_RLE [of 0 data 0] by simp
qed simp

section \<open>The Burrows-Wheeler transform\<close>

lemma rotate1_inverse: "w \<noteq> [] \<Longrightarrow> rotate1 w = v \<Longrightarrow> last v # butlast v = w"
  by (cases w) auto

lemma mset_rotations_shift: "mset (map (\<lambda>w. last w # butlast w) (rotations data)) = mset (rotations data)"
proof (cases "data = []")
  case False
  define n where "n = length data"
  have n: "0 < n" using False by (simp add: n_def)
  have unrotate: "last (rotate p data) # butlast (rotate p data) = rotate (p + n - 1) data" for p
  proof -
    have "rotate1 (rotate (p + n - 1) data) = rotate (p + n) data" using n by (simp flip: rotate_Suc)
    also have "\<dots> = rotate p data"
      by (metis mod_add_self2 n_def rotate_conv_mod)
    finally show ?thesis using False by (intro rotate1_inverse) simp_all
  qed
  have "map (\<lambda>w. last w # butlast w) (rotations data) = map (\<lambda>p. rotate p data) (map (\<lambda>p. (p + n - 1) mod n) [0..<n])"
    using unrotate rotate_conv_mod [of "_ + n - 1" data] by (simp add: rotations_def n_def comp_def)
  moreover have "map (\<lambda>p. (p + n - 1) mod n) [0..<n] = (n - 1) # [0..<n - 1]"
    by (rule nth_equalityI) (use n in \<open>auto simp: nth_Cons' mod_if\<close>)
  moreover have "mset ((n - 1) # [0..<n - 1]) = mset [0..<n]"
    using n by (cases n) simp_all
  ultimately show ?thesis by (metis mset_map n_def rotations_def)
qed (simp add: rotations_def)

text \<open>A stable sort keeps the order of equal keys.\<close>

lemma sort_key_stable:
  "sorted_wrt (<) xs \<Longrightarrow> sort_key f xs = sort_key (\<lambda>i :: nat. (f i :: 'a :: linorder, i)) xs"
proof (induction xs)
  case (Cons x xs)
  have "insort_key f x S = insort_key (\<lambda>i. (f i, i)) x S" if "set S = set xs" for S
    using Cons.prems that by (intro insort_key_order) (auto simp: less_eq_prod_def)
  with Cons show ?case by simp
qed simp

text \<open>Sorting the rows by their last byte and rotating them gives the sorted rows again.\<close>

lemma sorted_columns:
  assumes "data \<noteq> []" and M: "M = sort (rotations data)" and T: "T = sort_key (\<lambda>i. last (M ! i)) [0..<length data]"
  shows "map (\<lambda>i. last (M ! i) # butlast (M ! i)) T = M"
proof -
  have len: "length M = length data" by (simp add: M rotations_def)
  have "mset (map (\<lambda>i. last (M ! i) # butlast (M ! i)) T) = mset (map (\<lambda>w. last w # butlast w) (map (\<lambda>i. M ! i) [0..<length M]))"
    by (simp add: T len comp_def)
  also have "\<dots> = mset (rotations data)"
    unfolding map_nth using mset_rotations_shift [of data] by (simp add: M)
  finally have perm: "mset (map (\<lambda>i. last (M ! i) # butlast (M ! i)) T) = mset (rotations data)" .
  have same: "length w = length data" if "w \<in> set M" for w using that by (auto simp: M rotations_def)
  have "sorted_wrt (\<lambda>i j. last (M ! i) \<le> last (M ! j) \<and> (last (M ! i) = last (M ! j) \<longrightarrow> i < j)) T"
  proof -
    have "sort_key (\<lambda>i. last (M ! i)) [0..<length data] = sort_key (\<lambda>i. (last (M ! i), i)) [0..<length data]"
      by (rule sort_key_stable) simp
    then have "T = sort_key (\<lambda>i. (last (M ! i), i)) [0..<length data]" by (simp add: T)
    then have "sorted (map (\<lambda>i. (last (M ! i), i)) T)" "distinct T" by simp_all
    then show ?thesis unfolding sorted_map
      by (fastforce simp: sorted_wrt_iff_nth_less less_eq_prod_def distinct_conv_nth order.order_iff_strict)
  qed
  then have "sorted_wrt (\<lambda>i j. last (M ! i) # butlast (M ! i) \<le> last (M ! j) # butlast (M ! j)) T"
  proof (rule sorted_wrt_mono_rel [rotated], elim conjE)
    fix i j assume ij: "i \<in> set T" "j \<in> set T" "last (M ! i) \<le> last (M ! j)" "last (M ! i) = last (M ! j) \<longrightarrow> i < j"
    then have mem: "i < length M" "j < length M" by (auto simp: T len)
    have "butlast (M ! i) \<le> butlast (M ! j)" if "i < j"
    proof -
      have le: "M ! i \<le> M ! j" using that mem sorted_sort [of "rotations data"] unfolding M
        by (intro sorted_nth_mono) simp_all
      have ne: "M ! i \<noteq> []" "M ! j \<noteq> []" using same [of "M ! i"] same [of "M ! j"] mem assms(1) by auto
      have "butlast (M ! i) @ [last (M ! i)] \<le> butlast (M ! j) @ [last (M ! j)]" using le ne by simp
      then show ?thesis using lex_split [of "butlast (M ! i)" "butlast (M ! j)"] same mem
        by (fastforce simp: order.order_iff_strict)
    qed
    with ij show "last (M ! i) # butlast (M ! i) \<le> last (M ! j) # butlast (M ! j)" by (auto simp: order.order_iff_strict)
  qed
  then show ?thesis
    unfolding M using perm by (intro properties_for_sort [symmetric]) (simp_all add: sorted_map M)
qed


lemma rotate1_from: "v \<noteq> [] \<Longrightarrow> last v # butlast v = w \<Longrightarrow> v = rotate1 w"
  by auto

lemma walk_rotations:
  assumes follow: "\<And>i. i < n \<Longrightarrow> T ! i < n \<and> M ! (T ! i) = rotate1 (M ! i)"
    and column: "\<And>i. i < n \<Longrightarrow> L ! i = last (M ! i)"
  shows "i < n \<Longrightarrow> M ! i = rotate p data \<Longrightarrow> data \<noteq> [] \<Longrightarrow> walk m T L i = map (\<lambda>j. byteAt data (p + j)) [0..<m]"
proof (induction m arbitrary: i p)
  case (Suc m)
  have T: "T ! i < n" "M ! (T ! i) = rotate (Suc p) data" using follow [OF Suc.prems(1)] Suc.prems(2) by simp_all
  have "Suc p + (length data - 1) = p + length data" using Suc.prems(3) by (cases data) simp_all
  then have "(Suc p + (length data - 1)) mod length data = p mod length data" by (simp only: mod_add_self2)
  then have "last (rotate (Suc p) data) = byteAt data p"
    using Suc.prems(3) by (subst last_conv_nth) (auto simp: nth_rotate byteAt_def simp del: rotate_Suc add_Suc)
  then have "L ! (T ! i) = byteAt data p" using column T by simp
  moreover have "walk m T L (T ! i) = map (\<lambda>j. byteAt data (Suc p + j)) [0..<m]"
    by (rule Suc.IH [OF T Suc.prems(3)])
  ultimately show ?case by (simp add: upt_conv_Cons [of 0] map_Suc_upt [symmetric] comp_def del: upt_Suc)
qed simp

lemma unBWT_BWT:
  assumes "data \<noteq> []" "bzip2BWT data = (L, i)"
  shows "unBWT L i = Some data \<and> length L = length data"
proof -
  define M where "M = sort (rotations data)"
  define T where "T = sort_key (\<lambda>i. last (M ! i)) [0..<length data]"
  have rows: "length w = length data" if "w \<in> set M" for w using that by (auto simp: M_def rotations_def)
  have len: "length M = length data" by (simp add: M_def rotations_def)
  have M: "length M = length data" "\<And>k. k < length data \<Longrightarrow> length (M ! k) = length data"
    using rows len by simp_all
  have L: "L = map last M" "i < length data" "M ! i = data"
    using bwt_transform [of data] assms by (auto simp: M_def)
  have Teq: "sort_key (\<lambda>i. L ! i) [0..<length data] = T"
    unfolding T_def by (rule sort_key_order) (simp add: L(1) M(1))
  have sorted: "map (\<lambda>i. last (M ! i) # butlast (M ! i)) T = M"
    by (rule sorted_columns [OF assms(1) M_def T_def])
  have T: "length T = length data" "\<And>k. k < length data \<Longrightarrow> T ! k < length data"
    using nth_mem [of _ T] by (auto simp: T_def)
  have follow: "T ! k < length data \<and> M ! (T ! k) = rotate1 (M ! k)" if "k < length data" for k
  proof
    show bound: "T ! k < length data" by (rule T(2) [OF that])
    have "last (M ! (T ! k)) # butlast (M ! (T ! k)) = M ! k"
      using arg_cong [OF sorted, of "\<lambda>xs. xs ! k"] that T(1) by simp
    moreover have "M ! (T ! k) \<noteq> []" using M(2) [OF bound] assms(1) by auto
    ultimately show "M ! (T ! k) = rotate1 (M ! k)" by (intro rotate1_from)
  qed
  have "walk (length data) T L i = map (\<lambda>j. byteAt data (0 + j)) [0..<length data]"
    by (rule walk_rotations [where M = M and n = "length data"]) (use L M follow assms(1) in \<open>simp_all\<close>)
  also have "\<dots> = data" by (rule nth_equalityI) (simp_all add: byteAt_def)
  finally show ?thesis using L M Teq by (simp add: unBWT_def)
qed

section \<open>Move to front\<close>

lemma listPosition_found:
  "v \<in> set front \<Longrightarrow> \<exists>i. listPosition front v = Ret i \<and> i < length front \<and> front ! i = v"
  by (induction front) auto

lemma zeroRun_small: "v < 2 \<Longrightarrow> bzip2ZeroRun v = [v]"
  by (subst bzip2ZeroRun.simps) (auto simp: less_2_cases_iff)

text \<open>The value of a run of zeros and ones.\<close>

lemma unMTF_run:
  "unMTF front run weight (bzip2ZeroRun v @ ss) = unMTF front (run + weight * (v + 1)) (weight * 2 ^ length (bzip2ZeroRun v)) ss"
proof (induction v arbitrary: run weight rule: bzip2ZeroRun.induct)
  case (1 v)
  have parity: "v AND 1 = v mod 2" by (simp add: and_one_eq)
  show ?case
  proof (cases "v < 2")
    case True
    then have "v = 0 \<or> v = 1" by auto
    then show ?thesis by (auto simp: zeroRun_small mult.commute)
  next
    case False
    define d where "d = (if v AND 1 = 0 then 0 else 1 :: nat)"
    define u where "u = drop_bit 1 (v - 2)"
    have v: "v + 1 = (d + 1) + 2 * (u + 1)"
      using False unfolding d_def u_def parity drop_bit_eq_div by (auto; presburger)
    have z: "bzip2ZeroRun v = d # bzip2ZeroRun u" using False by (subst bzip2ZeroRun.simps) (simp add: d_def u_def)
    have "unMTF front run weight (bzip2ZeroRun v @ ss) = unMTF front (run + weight * (d + 1)) (2 * weight) (bzip2ZeroRun u @ ss)"
      unfolding z by (simp add: d_def)
    also have "\<dots> = unMTF front (run + weight * (d + 1) + 2 * weight * (u + 1)) (2 * weight * 2 ^ length (bzip2ZeroRun u)) ss"
      by (rule "1.IH" [OF d_def False, folded u_def])
    also have "run + weight * (d + 1) + 2 * weight * (u + 1) = run + weight * (v + 1)"
      unfolding v by (simp add: algebra_simps)
    finally show ?thesis by (simp add: z ac_simps)
  qed
qed

lemma unMTF_zeros: "\<exists>weight. unMTF front 0 1 (flushZeros zeros @ ss) = unMTF front zeros weight ss"
proof (cases "zeros = 0")
  case False
  then show ?thesis using unMTF_run [of front 0 1 "zeros - 1" ss] by (auto simp: flushZeros_def)
qed (auto simp: flushZeros_def)

lemma zeroRun_digits: "s \<in> set (bzip2ZeroRun v) \<Longrightarrow> s \<le> 1"
proof (induction v rule: bzip2ZeroRun.induct)
  case (1 v)
  then show ?case by (subst (asm) (2) bzip2ZeroRun.simps) (auto simp: Let_def split: if_splits)
qed

lemma mtfLoop_undone:
  assumes "set data \<subseteq> set front" "front \<noteq> []"
  shows "\<exists>ss. mtfLoop front zeros data = Ret ss \<and> unMTF front 0 1 ss = Some (replicate zeros (hd front) @ data) \<and>
    (\<forall>s \<in> set ss. s \<le> length front)"
  using assms
proof (induction front zeros data rule: mtfLoop.induct)
  case (1 front zeros)
  obtain w where "unMTF front 0 1 (flushZeros zeros @ []) = unMTF front zeros w []" using unMTF_zeros by blast
  moreover have "\<forall>s \<in> set (flushZeros zeros). s \<le> length front"
  proof
    fix s assume "s \<in> set (flushZeros zeros)"
    then have "s \<le> 1" using zeroRun_digits by (auto simp: flushZeros_def split: if_splits)
    also have "1 \<le> length front" using "1.prems"(2) by (cases front) auto
    finally show "s \<le> length front" .
  qed
  ultimately show ?case by simp
next
  case (2 front zeros v data)
  obtain i where i: "listPosition front v = Ret i" "i < length front" "front ! i = v"
    using listPosition_found [of v front] "2.prems"(1) by auto
  show ?case
  proof (cases "i = 0")
    case True
    then have "hd front = v" using i "2.prems"(2) by (cases front) auto
    moreover obtain ss where ss: "mtfLoop front (zeros + 1) data = Ret ss"
        "unMTF front 0 1 ss = Some (replicate (zeros + 1) (hd front) @ data)" "\<forall>s \<in> set ss. s \<le> length front"
      using "2.IH"(1) [OF i(1) True] "2.prems" by auto
    ultimately show ?thesis using i(1) True by (simp add: replicate_append_same [symmetric])
  next
    case False
    let ?front = "v # take i front @ drop (i + 1) front"
    have "set front = set (take i front @ front ! i # drop (i + 1) front)"
      using id_take_nth_drop [OF i(2)] by simp
    then have "set data \<subseteq> set ?front" using "2.prems"(1) i(3) by auto
    moreover have "length ?front = length front" using i(2) by simp
    ultimately obtain ss where ss: "mtfLoop ?front 0 data = Ret ss" "unMTF ?front 0 1 ss = Some data"
        "\<forall>s \<in> set ss. s \<le> length front"
      using "2.IH"(2) [OF i(1) False] by (metis append_Nil list.discI replicate_0)
    obtain w where w: "unMTF front 0 1 (flushZeros zeros @ (i + 1) # ss) = unMTF front zeros w ((i + 1) # ss)"
      using unMTF_zeros by blast
    have "mtfLoop front zeros (v # data) = Ret (flushZeros zeros @ (i + 1) # ss)" using i(1) False ss(1) by simp
    moreover have "unMTF front zeros w ((i + 1) # ss) = Some (replicate zeros (hd front) @ v # data)"
      using False i ss(2) by simp
    moreover have "s \<le> length front" if "s \<in> set (flushZeros zeros @ (i + 1) # ss)" for s
      using that i(2) ss(3) zeroRun_digits False by (fastforce simp: flushZeros_def split: if_splits)
    ultimately show ?thesis using w by simp
  qed
qed

lemma set_usedBytes: "set (usedBytes data) = set data"
proof -
  have "v \<in> set (map of_nat [0..<256])" for v :: u8
    using image_eqI [of v of_nat "unat v" "{0..<256}"] unsigned_less [of v] by simp
  then show ?thesis by (auto simp: usedBytes_def)
qed

lemma MTF_undone:
  assumes "data \<noteq> []"
  shows "\<exists>ss. bzip2MTF data = Ret (ss @ [length (usedBytes data) + 1], usedBytes data) \<and>
    unMTF (usedBytes data) 0 1 ss = Some data \<and> (\<forall>s \<in> set ss. s \<le> length (usedBytes data)) \<and> usedBytes data \<noteq> []"
proof -
  have "usedBytes data \<noteq> []" using assms set_usedBytes [of data] by auto
  moreover from this obtain ss where "mtfLoop (usedBytes data) 0 data = Ret ss" "unMTF (usedBytes data) 0 1 ss = Some data"
      "\<forall>s \<in> set ss. s \<le> length (usedBytes data)"
    using mtfLoop_undone [of data "usedBytes data" 0] set_usedBytes [of data] by auto
  ultimately show ?thesis by (auto simp: bzip2MTF_def Let_def)
qed

end
