(* ===== verification/Bz2Codes.thy ===== *)
theory Bz2Codes
  imports Bz2Bits Bz2Stages
begin

text \<open>
  The codes of the compressor: the lengths take at most two values, the canonical codes are counted up,
  and the reference reader decodes every symbol from its code.
\<close>

section \<open>The lengths\<close>

lemma baseLoop_bounds: "2 ^ k \<le> n \<Longrightarrow> 2 ^ baseLoop k n \<le> n \<and> n < 2 * 2 ^ baseLoop k n"
proof (induction k n rule: baseLoop.induct)
  case (1 k n)
  show ?case
  proof (cases "2 ^ k * 2 \<le> n")
    case True
    then show ?thesis using "1.IH" by (subst (1 2) baseLoop.simps) (simp add: mult.commute)
  next
    case False
    then show ?thesis using "1.prems" by (subst (1 2) baseLoop.simps) simp
  qed
qed

text \<open>\<open>twoLengths n k a\<close>: of \<open>n\<close> symbols the first \<open>a\<close> have codes of \<open>k\<close> bits, the others of one more.\<close>

definition twoLengths :: "nat \<Rightarrow> nat \<Rightarrow> nat \<Rightarrow> bool" where
  "twoLengths n k a \<longleftrightarrow> 0 < k \<and> k < 20 \<and> n + a = 2 * 2 ^ k \<and> a \<le> n \<and> 0 < a"

lemma fixedLengths:
  assumes "2 \<le> n" "n \<le> 258"
  shows "\<exists>k a. twoLengths n k a \<and> bzip2FixedCodeLengths n = map (\<lambda>i. if i < a then k else k + 1) [0..<n]"
proof -
  define k where "k = baseLoop 0 n"
  have b: "2 ^ k \<le> n" "n < 2 * 2 ^ k" using baseLoop_bounds [of 0 n] assms by (simp_all add: k_def)
  have "k \<noteq> 0" using b assms by (intro notI) simp
  moreover have "k < 20"
  proof (rule ccontr)
    assume "\<not> k < 20"
    then have "(2 :: nat) ^ 20 \<le> 2 ^ k" by (intro power_increasing) simp_all
    with b assms show False by simp
  qed
  ultimately have "twoLengths n k (2 * 2 ^ k - n)" using b by (auto simp: twoLengths_def)
  then show ?thesis unfolding bzip2FixedCodeLengths_def k_def Let_def by blast
qed

text \<open>Such lengths make a complete code.\<close>

lemma twoLengths_complete:
  assumes "twoLengths n k a" "ls = map (\<lambda>i. if i < a then k else k + 1) [0..<n]"
  shows "completeCode ls \<and> (\<forall>l \<in> set ls. 1 \<le> l \<and> l \<le> 20)"
proof -
  have t: "0 < k" "k < 20" "n + a = 2 * 2 ^ k" "a \<le> n" using assms(1) by (simp_all add: twoLengths_def)
  have "map (\<lambda>i. if i < a then k else k + 1) [0..<n] = map (\<lambda>i. k) [0..<a] @ map (\<lambda>i. k + 1) [a..<n]"
    using t(4) by (intro nth_equalityI) (auto simp: nth_append)
  then have "sum_list (map (\<lambda>l. 2 ^ (20 - l)) ls) = a * 2 ^ (20 - k) + (n - a) * (2 :: nat) ^ (20 - (k + 1))"
    by (simp add: assms(2) comp_def sum_list_triv)
  also have "(2 :: nat) ^ (20 - k) = 2 * 2 ^ (20 - (k + 1))" using t(2) by (simp flip: power_Suc add: Suc_diff_Suc)
  also have "a * (2 * 2 ^ (20 - (k + 1))) + (n - a) * (2 :: nat) ^ (20 - (k + 1)) = (n + a) * 2 ^ (20 - (k + 1))"
    using t(4) by (simp add: algebra_simps flip: distrib_right)
  also have "\<dots> = (2 :: nat) ^ (k + 1) * 2 ^ (20 - (k + 1))" by (simp add: t(3))
  also have "\<dots> = (2 :: nat) ^ (k + 1 + (20 - (k + 1)))" by (rule power_add [symmetric])
  also have "k + 1 + (20 - (k + 1)) = 20" using t(2) by simp
  finally show ?thesis using t(1,2) by (auto simp: completeCode_def assms(2))
qed

lemma countOf_simps: "countOf [] len = 0" "countOf (l # ls) len = of_bool (l = len) + countOf ls len"
  by (simp_all add: countOf_def)

lemma countOf_upt: "countOf (map f [0..<n]) len = card {i. i < n \<and> f i = len}"
proof -
  have "countOf (map f [0..<n]) len = length (filter (\<lambda>i. f i = len) [0..<n])"
    by (simp add: countOf_def filter_map comp_def)
  also have "\<dots> = card (set (filter (\<lambda>i. f i = len) [0..<n]))"
    by (rule distinct_card [symmetric]) simp
  finally show ?thesis by (simp add: conj_commute)
qed

lemma countOf_two:
  assumes "a \<le> n"
  shows "countOf (map (\<lambda>i. if i < a then k else k + 1) [0..<n]) len =
    (if len = k then a else if len = k + 1 then n - a else 0)"
proof -
  have "{i. i < n \<and> (if i < a then k else k + 1) = len} =
      (if len = k then {..<a} else if len = k + 1 then {a..<n} else {})"
    using assms by (auto split: if_splits)
  then show ?thesis unfolding countOf_upt by simp
qed

section \<open>The codes\<close>

lemma codesOfLength_spec:
  assumes "codesOfLength len i ls (cs, c) = (cs', c')" "i + length ls \<le> length cs"
  shows "length cs' = length cs \<and> c' = c + of_nat (countOf ls len) \<and>
    (\<forall>j < length cs. cs' ! j = (if i \<le> j \<and> j < i + length ls \<and> ls ! (j - i) = len
       then c + of_nat (countOf (take (j - i) ls) len) else cs ! j))"
  using assms
proof (induction len i ls "(cs, c)" arbitrary: cs c rule: codesOfLength.induct)
  case (2 len i l ls cs c)
  let ?cs = "if l = len then cs[i := c] else cs" and ?c = "if l = len then c + 1 else c"
  have step: "codesOfLength len (i + 1) ls (?cs, ?c) = (cs', c')" using "2.prems"(1) by (auto split: if_splits)
  have IH: "length cs' = length ?cs" "c' = ?c + of_nat (countOf ls len)"
      "\<And>j. j < length ?cs \<Longrightarrow> cs' ! j = (if i + 1 \<le> j \<and> j < i + 1 + length ls \<and> ls ! (j - (i + 1)) = len
         then ?c + of_nat (countOf (take (j - (i + 1)) ls) len) else ?cs ! j)"
    using "2.hyps" [of ?cs ?c] step "2.prems"(2) by auto
  have "cs' ! j = (if i \<le> j \<and> j < i + length (l # ls) \<and> (l # ls) ! (j - i) = len
       then c + of_nat (countOf (take (j - i) (l # ls)) len) else cs ! j)" if j: "j < length cs" for j
  proof (cases "j \<le> i")
    case True
    then show ?thesis using IH(3) [of j] j "2.prems"(2) by (cases "j = i") (auto simp: countOf_simps)
  next
    case False
    then obtain m where m: "j = i + Suc m" using less_iff_Suc_add [of i j] by auto
    have "?cs ! j = cs ! j" using m by simp
    then show ?thesis using IH(3) [of j] j by (simp add: m countOf_simps)
  qed
  then show ?case using IH(1,2) by (simp add: countOf_simps)
qed (auto simp: countOf_simps)

lemma nextLength_spec:
  assumes "nextLength ls len (cs, c) = (cs', c')" "length ls = length cs"
  shows "length cs' = length cs \<and> c' = push_bit 1 (c + of_nat (countOf ls len)) \<and>
    (\<forall>j < length cs. cs' ! j = (if ls ! j = len then c + of_nat (countOf (take j ls) len) else cs ! j))"
proof -
  obtain ds d where d: "codesOfLength len 0 ls (cs, c) = (ds, d)" by fastforce
  then have "cs' = ds" "c' = push_bit 1 d" using assms(1) by (auto simp: nextLength_def)
  with codesOfLength_spec [OF d] assms(2) show ?thesis by simp
qed

lemma nextLength_none:
  assumes "countOf ls len = 0" "length ls = length cs"
  shows "nextLength ls len (cs, 0) = (cs, 0)"
proof -
  obtain cs' c' where e: "nextLength ls len (cs, 0) = (cs', c')" by fastforce
  have "ls ! j \<noteq> len" if "j < length ls" for j
    using assms(1) that by (auto simp: countOf_def filter_empty_conv)
  then have "cs' = cs" using nextLength_spec [OF e assms(2)] assms(2) by (intro nth_equalityI) auto
  with nextLength_spec [OF e assms(2)] assms(1) e show ?thesis by simp
qed

definition codeOf :: "nat \<Rightarrow> nat \<Rightarrow> nat" where
  "codeOf a i = (if i < a then i else a + i)"

lemma take_map_upt: "j \<le> n \<Longrightarrow> take j (map f [0..<n]) = map f [0..<j]"
  by (simp add: take_map)

lemma canonical_codes:
  assumes t: "twoLengths n k a" and ls: "ls = map (\<lambda>i. if i < a then k else k + 1) [0..<n]"
  shows "length (bzip2CanonicalCodes ls) = n \<and> (\<forall>i < n. bzip2CanonicalCodes ls ! i = of_nat (codeOf a i))"
proof -
  have a: "a \<le> n" "0 < a" "0 < k" using t by (simp_all add: twoLengths_def)
  have len: "length ls = n" by (simp add: ls)
  have nth: "\<And>j. j < n \<Longrightarrow> ls ! j = (if j < a then k else k + 1)" by (simp add: ls)
  let ?zero = "replicate n (0 :: u32)"
  have "fold (nextLength ls) xs (?zero, 0) = (?zero, 0)" if "set xs \<subseteq> {..<k}" for xs
    using that
  proof (induction xs)
    case (Cons x xs)
    have "countOf ls x = 0" unfolding ls countOf_two [OF a(1)] using Cons.prems by auto
    then have "nextLength ls x (?zero, 0) = (?zero, 0)" by (rule nextLength_none) (simp add: len)
    then show ?case using Cons by simp
  qed simp
  then have short: "fold (nextLength ls) [1..<k] (?zero, 0) = (?zero, 0)" by (simp add: subset_iff)
  obtain cs c where one: "nextLength ls k (?zero, 0) = (cs, c)" by fastforce
  have cs: "length cs = n" "c = of_nat (2 * a)" "\<And>j. j < a \<Longrightarrow> cs ! j = of_nat j"
  proof -
    have s: "length cs = n" "c = push_bit 1 (of_nat (countOf ls k))"
        "\<And>j. j < n \<Longrightarrow> cs ! j = (if ls ! j = k then of_nat (countOf (take j ls) k) else 0)"
      using nextLength_spec [OF one] len by simp_all
    show "length cs = n" by (rule s)
    show "c = of_nat (2 * a)" using s(2) unfolding ls countOf_two [OF a(1)] by (simp add: push_bit_eq_mult)
    fix j assume j: "j < a"
    have eq: "map (\<lambda>i. if i < a then k else k + 1) [0..<j] = map (\<lambda>i. if i < j then k else k + 1) [0..<j]"
      using j by auto
    then have "countOf (take j ls) k = j" using countOf_two [of j j k k] j a(1) by (simp add: ls take_map_upt eq)
    with s(3) [of j] nth [of j] j a(1) show "cs ! j = of_nat j" by simp
  qed
  have Max: "Max (insert 0 (set ls)) = (if a = n then k else k + 1)"
  proof (rule Max_eqI)
    show "(if a = n then k else k + 1) \<in> insert 0 (set ls)" using nth_mem [of 0 ls] nth_mem [of a ls] nth [of 0] nth [of a] len a by (cases "a = n") auto
  qed (use a in \<open>auto simp: ls\<close>)
  have upto_k: "fold (nextLength ls) [1..<k + 1] (?zero, 0) = (cs, c)"
    using short one a(3) by (simp add: upt_conv_Cons [symmetric])
  show ?thesis
  proof (cases "a = n")
    case True
    then have "bzip2CanonicalCodes ls = cs" using upto_k Max len by (simp add: bzip2CanonicalCodes_def)
    then show ?thesis using cs True by (simp add: codeOf_def)
  next
    case False
    obtain ds d where two: "nextLength ls (k + 1) (cs, c) = (ds, d)" by fastforce
    have "[1..<k + 1 + 1] = [1..<k + 1] @ [k + 1]" by simp
    then have all: "bzip2CanonicalCodes ls = ds"
      using upto_k two Max len False unfolding bzip2CanonicalCodes_def by (simp only: fold_append comp_apply) simp
    have s: "length ds = n" "\<And>j. j < n \<Longrightarrow> ds ! j = (if ls ! j = k + 1 then c + of_nat (countOf (take j ls) (k + 1)) else cs ! j)"
      using nextLength_spec [OF two] len cs(1) by simp_all
    have "ds ! j = of_nat (codeOf a j)" if j: "j < n" for j
    proof (cases "j < a")
      case True
      then show ?thesis using s(2) [OF j] nth [OF j] cs(3) by (simp add: codeOf_def)
    next
      case False
      then have "countOf (take j ls) (k + 1) = j - a" using countOf_two [of a j k "k + 1"] j by (simp add: ls take_map_upt)
      then have "ds ! j = of_nat (2 * a + (j - a))" using s(2) [OF j] nth [OF j] cs(2) False by simp
      also have "2 * a + (j - a) = a + j" using False by simp
      finally show ?thesis using False by (simp add: codeOf_def)
    qed
    then show ?thesis using s(1) all by simp
  qed
qed


section \<open>Decoding\<close>

lemma readCode_skip:
  assumes "\<And>l. len \<le> l \<Longrightarrow> l < len + m \<Longrightarrow> countOf ls l = 0" "len + m \<le> 20"
  shows "readCode ls len c 0 0 (natBits m x @ bs) = readCode ls (len + m) (c * 2 ^ m + x mod 2 ^ m) 0 0 bs"
  using assms
proof (induction m arbitrary: len c)
  case (Suc m)
  let ?b = "odd (x div 2 ^ m)"
  have none: "countOf ls len = 0" "len < 20" using Suc.prems by simp_all
  have "readCode ls len c 0 0 (natBits (Suc m) x @ bs) = readCode ls (len + 1) (2 * c + of_bool ?b) 0 0 (natBits m x @ bs)"
    using none by simp
  also have "\<dots> = readCode ls (len + Suc m) ((2 * c + of_bool ?b) * 2 ^ m + x mod 2 ^ m) 0 0 bs"
    using Suc.IH [of "len + 1" "2 * c + of_bool ?b"] Suc.prems by simp
  also have "(2 * c + of_bool ?b) * 2 ^ m + x mod 2 ^ m = c * 2 ^ Suc m + x mod 2 ^ Suc m"
    using natBits_value [of c "Suc m" x] natBits_value [of "2 * c + of_bool ?b" m x] by simp
  finally show ?case .
qed simp

lemma symbolOrder_two:
  assumes "j < n"
  shows "symbolOrder (map (\<lambda>i. if i < a then k else k + 1) [0..<n]) ! j = j"
proof -
  let ?ls = "map (\<lambda>i. if i < a then k else k + 1) [0..<n]"
  have "sorted (map (\<lambda>i. ?ls ! i) [0..<n])" by (auto simp: sorted_iff_nth_mono)
  then have "symbolOrder ?ls = [0..<n]" unfolding symbolOrder_def by (simp add: sort_key_sorted_id)
  with assms show ?thesis by simp
qed

lemma readSymbol_code:
  assumes t: "twoLengths n k a" and ls: "ls = map (\<lambda>i. if i < a then k else k + 1) [0..<n]" and i: "i < n"
  shows "readSymbol ls (natBits (ls ! i) (codeOf a i) @ bs) = Some (i, bs)"
proof -
  obtain m where m: "k = Suc m" using t by (cases k) (auto simp: twoLengths_def)
  have a: "a \<le> n" "k < 20" "n + a = 2 * 2 ^ k" using t by (simp_all add: twoLengths_def)
  have count: "countOf ls len = (if len = k then a else if len = k + 1 then n - a else 0)" for len
    unfolding ls by (rule countOf_two [OF a(1)])
  have order: "symbolOrder ls ! i = i" unfolding ls by (rule symbolOrder_two [OF i])
  have skip: "readSymbol ls (natBits m x @ bs') = readCode ls k (x mod 2 ^ m) 0 0 bs'" for x bs'
    unfolding readSymbol_def using readCode_skip [of 1 m ls 0 x bs'] a(2) by (simp add: count m)
  have low: "2 * (y mod 2 ^ m) + of_bool (odd x) = x" if "y = x div 2" "x < 2 ^ k" for x y :: nat
    using that by (simp add: m odd_iff_mod_2_eq_one) presburger
  show ?thesis
  proof (cases "i < a")
    case True
    then have "i < 2 ^ k" using a by simp
    have "natBits k i = natBits m (i div 2) @ [odd i]" using natBits_append [of m 1 i] by (simp add: m)
    then have "readSymbol ls (natBits k i @ bs) = readCode ls k (i div 2 mod 2 ^ m) 0 0 (odd i # bs)"
      using skip [of "i div 2" "odd i # bs"] by simp
    also have "\<dots> = Some (symbolOrder ls ! i, bs)"
      using low [OF refl \<open>i < 2 ^ k\<close>] True by (simp add: count Let_def)
    finally show ?thesis using True i order by (simp add: ls codeOf_def)
  next
    case False
    let ?x = "a + i"
    have x: "?x div 2 < 2 ^ k" "a \<le> ?x div 2" "?x - 2 * a = i - a" using a i False by auto
    have "natBits (k + 1) ?x = natBits m (?x div 2 div 2) @ [odd (?x div 2), odd ?x]"
      using natBits_append [of m 2 ?x] by (simp add: m numeral_2_eq_2 div_mult2_eq [symmetric])
    then have "readSymbol ls (natBits (k + 1) ?x @ bs) =
        readCode ls k (?x div 2 div 2 mod 2 ^ m) 0 0 (odd (?x div 2) # odd ?x # bs)"
      using skip [of "?x div 2 div 2" "odd (?x div 2) # odd ?x # bs"] by simp
    also have "\<dots> = readCode ls (k + 1) (?x div 2) (2 * a) a (odd ?x # bs)"
      using low [OF refl x(1)] x(2) a(2) by (simp add: count Let_def)
    also have "\<dots> = Some (symbolOrder ls ! i, bs)"
    proof -
      have "2 * (?x div 2) + of_bool (odd ?x) = ?x" by (cases "even ?x") simp_all
      moreover have "?x < 2 * a + (n - a)" "a + (?x - 2 * a) = i" using i False a by simp_all
      ultimately show ?thesis using i by (simp add: count Let_def)
    qed
    finally show ?thesis using False i order by (simp add: ls codeOf_def)
  qed
qed

section \<open>Writing and reading the symbols\<close>

definition symbolBits :: "nat list \<Rightarrow> nat \<Rightarrow> nat \<Rightarrow> bool list" where
  "symbolBits ls a s = natBits (ls ! s) (codeOf a s)"

lemma writeSymbols_emits:
  assumes t: "twoLengths n k a" and ls: "ls = map (\<lambda>i. if i < a then k else k + 1) [0..<n]" and n: "n \<le> 258"
    and ss: "\<forall>s \<in> set ss. s < n"
  shows "emits (writeSymbols ls (bzip2CanonicalCodes ls) ss) (concat (map (symbolBits ls a) ss))"
  using ss
proof (induction ss)
  case (Cons s ss)
  have a: "a \<le> n" "k < 20" using t by (simp_all add: twoLengths_def)
  have codes: "length (bzip2CanonicalCodes ls) = n" "bzip2CanonicalCodes ls ! s = of_nat (codeOf a s)"
    using canonical_codes [OF t ls] Cons.prems by simp_all
  have "codeOf a s < 2 ^ 32" using Cons.prems n a by (simp add: codeOf_def)
  then have "unat (of_nat (codeOf a s) :: u32) = codeOf a s" by (simp add: unat_of_nat)
  moreover have "ls ! s \<le> 32" using Cons.prems a by (simp add: ls)
  ultimately have step: "adds (writeBits (ls ! s) (of_nat (codeOf a s))) (symbolBits ls a s)"
    using adds_writeBits [of "ls ! s" "of_nat (codeOf a s)"] by (simp add: symbolBits_def)
  show ?case unfolding emits_def
  proof (intro allI impI)
    fix w :: bzip2BitWriter assume w: "bb_bits w < 8"
    let ?w = "writeBits (ls ! s) (of_nat (codeOf a s)) w"
    have "written ?w = written w @ symbolBits ls a s" "bb_bits ?w < 8" using step w by (simp_all add: adds_def)
    moreover have "writeSymbols ls (bzip2CanonicalCodes ls) (s # ss) w = writeSymbols ls (bzip2CanonicalCodes ls) ss ?w"
      using Cons.prems codes by (simp add: lookup_def ls)
    ultimately show "\<exists>w'. writeSymbols ls (bzip2CanonicalCodes ls) (s # ss) w = Ret w' \<and>
        written w' = written w @ concat (map (symbolBits ls a) (s # ss)) \<and> bb_bits w' < 8"
      using Cons.IH Cons.prems by (auto simp: emits_def)
  qed
qed (simp add: emits_def)

lemma readGroup_written:
  assumes t: "twoLengths n k a" and ls: "ls = map (\<lambda>i. if i < a then k else k + 1) [0..<n]"
    and ss: "\<forall>s \<in> set ss. s < n - 1"
  shows "readGroup m ls (concat (map (symbolBits ls a) (ss @ [n - 1])) @ bs) =
    (if length ss < m then Some (ss, True, bs)
     else Some (take m ss, False, concat (map (symbolBits ls a) (drop m ss @ [n - 1])) @ bs))"
  using ss
proof (induction m arbitrary: ss)
  case (Suc m)
  have n: "0 < n" "length ls = n" using t ls by (auto simp: twoLengths_def)
  have read: "readSymbol ls (symbolBits ls a s @ bs) = Some (s, bs)" if "s < n" for s bs
    unfolding symbolBits_def by (rule readSymbol_code [OF t ls that])
  show ?case
  proof (cases ss)
    case Nil
    then show ?thesis using read [of "n - 1" bs] n by simp
  next
    case (Cons s ss')
    then have s: "s < n" "s \<noteq> n - 1" using Suc.prems by auto
    have "readGroup m ls (concat (map (symbolBits ls a) (ss' @ [n - 1])) @ bs) =
      (if length ss' < m then Some (ss', True, bs)
       else Some (take m ss', False, concat (map (symbolBits ls a) (drop m ss' @ [n - 1])) @ bs))"
      using Suc.IH [of ss'] Suc.prems Cons by simp
    then show ?thesis using read [OF s(1), of "concat (map (symbolBits ls a) (ss' @ [n - 1])) @ bs"] s n Cons
      by simp
  qed
qed simp

lemma readGroups_written:
  assumes t: "twoLengths n k a" and ls: "ls = map (\<lambda>i. if i < a then k else k + 1) [0..<n]"
  shows "\<forall>s \<in> set ss. s < n - 1 \<Longrightarrow> length ss < 50 * g \<Longrightarrow>
    readGroups [ls, ls] (replicate g 0) (concat (map (symbolBits ls a) (ss @ [n - 1])) @ bs) = Some (ss, bs)"
proof (induction g arbitrary: ss)
  case (Suc g)
  note group = readGroup_written [OF t ls Suc.prems(1), of 50 bs]
  show ?case
  proof (cases "length ss < 50")
    case True
    then show ?thesis using group by simp
  next
    case False
    have "readGroups [ls, ls] (replicate g 0) (concat (map (symbolBits ls a) (drop 50 ss @ [n - 1])) @ bs) = Some (drop 50 ss, bs)"
      using Suc.prems False by (intro Suc.IH) (auto dest: in_set_dropD)
    then show ?thesis using group False by simp
  qed
qed simp

end
