(* ===== verification/Bz2Round.thy ===== *)
theory Bz2Round
  imports Bz2Codes
begin

text \<open>
  What the compressor writes, the reference reader reads back: first the header of a block, then the
  block, then the stream.
\<close>

section \<open>Code lengths\<close>

definition stepBits :: "nat \<Rightarrow> nat \<Rightarrow> bool list" where
  "stepBits current len =
     (if current < len then concat (replicate (len - current) [True, False])
      else concat (replicate (current - len) [True, True]))"

lemma one_bits: "natBits 1 (unat (1 :: u32)) = [True]" "natBits 1 (unat (0 :: u32)) = [False]"
  by simp_all

lemma adds_bit: "adds (writeBits 1 1) [True]" "adds (writeBits 1 0) [False]"
  using adds_writeBits [of 1 1] adds_writeBits [of 1 0] by simp_all

lemma codeSteps_adds: "adds (codeSteps current len) (stepBits current len)"
proof (induction "(len - current) + (current - len)" arbitrary: current)
  case 0
  then have "current = len" by simp
  then have "codeSteps current len = (\<lambda>w. w)" by (intro ext) (subst codeSteps.simps, simp)
  then show ?case using \<open>current = len\<close> by (simp add: stepBits_def adds_def)
next
  case (Suc m)
  show ?case
  proof (cases "current < len")
    case True
    then have "codeSteps current len = (\<lambda>w. codeSteps (current + 1) len (writeBits 1 0 (writeBits 1 1 w)))"
      by (intro ext) (subst codeSteps.simps, simp)
    moreover have "stepBits current len = ([True] @ [False]) @ stepBits (current + 1) len"
      
    proof -
      obtain n where "len = current + Suc n" using True less_iff_Suc_add by auto
      then show ?thesis by (cases n) (simp_all add: stepBits_def)
    qed
    moreover have "m = (len - (current + 1)) + (current + 1 - len)" using Suc.hyps(2) True by simp
    ultimately show ?thesis using adds_comp [OF adds_comp [OF adds_bit(1,2)] Suc.hyps(1) [of "current + 1"]] by simp
  next
    case False
    then have less: "len < current" using Suc.hyps(2) by simp
    then have "codeSteps current len = (\<lambda>w. codeSteps (current - 1) len (writeBits 1 1 (writeBits 1 1 w)))"
      by (intro ext) (subst codeSteps.simps, simp)
    moreover have "stepBits current len = ([True] @ [True]) @ stepBits (current - 1) len"
    proof -
      obtain n where "current = len + Suc n" using less less_iff_Suc_add by auto
      then show ?thesis by (cases n) (simp_all add: stepBits_def)
    qed
    moreover have "m = (len - (current - 1)) + (current - 1 - len)" using Suc.hyps(2) less by simp
    ultimately show ?thesis using adds_comp [OF adds_comp [OF adds_bit(1,1)] Suc.hyps(1) [of "current - 1"]] by simp
  qed
qed

lemma readLength_steps:
  assumes "1 \<le> current" "current \<le> 20" "1 \<le> len" "len \<le> 20"
  shows "readLength current (stepBits current len @ False # bs) = Some (len, bs)"
proof -
  have up: "1 \<le> c \<Longrightarrow> c + n \<le> 20 \<Longrightarrow> readLength c (concat (replicate n [True, False]) @ False # bs) = Some (c + n, bs)" for c n
    by (induction n arbitrary: c) simp_all
  have down: "n < c \<Longrightarrow> c \<le> 20 \<Longrightarrow> readLength c (concat (replicate n [True, True]) @ False # bs) = Some (c - n, bs)" for c n
    by (induction n arbitrary: c) simp_all
  show ?thesis using assms up [of current "len - current"] down [of "current - len" current] by (simp add: stepBits_def)
qed

fun lengthBits :: "nat \<Rightarrow> nat list \<Rightarrow> bool list" where
  "lengthBits current [] = []"
| "lengthBits current (len # ls) = stepBits current len @ False # lengthBits len ls"

lemma lengthsLoop_adds: "adds (lengthsLoop current ls) (lengthBits current ls)"
proof (induction ls arbitrary: current)
  case (Cons len ls)
  then show ?case using adds_comp [OF adds_comp [OF codeSteps_adds [of current len] adds_bit(2)] Cons.IH [of len]] by simp
qed (simp add: adds_def)

lemma readLengths_written:
  "1 \<le> current \<Longrightarrow> current \<le> 20 \<Longrightarrow> \<forall>l \<in> set ls. 1 \<le> l \<and> l \<le> 20 \<Longrightarrow>
   readLengths (length ls) current (lengthBits current ls @ bs) = Some (ls, bs)"
  by (induction ls arbitrary: current) (simp_all add: readLength_steps)

definition tableBits :: "nat list \<Rightarrow> bool list" where
  "tableBits ls = natBits 5 (hd ls) @ lengthBits (hd ls) ls"

lemma tables_emit:
  assumes "ls \<noteq> []" "hd ls < 32"
  shows "emits (bzip2WriteCodeLengths ls) (tableBits ls)"
proof -
  have "unat (of_nat (hd ls) :: u32) = hd ls" using assms(2) by (simp add: unat_of_nat)
  then have "adds (\<lambda>w. lengthsLoop (hd ls) ls (writeBits 5 (of_nat (hd ls)) w)) (tableBits ls)"
    using adds_comp [OF adds_writeBits [of 5 "of_nat (hd ls)"] lengthsLoop_adds [of "hd ls" ls]] by (simp add: tableBits_def)
  then show ?thesis using assms(1)
    by (auto simp: emits_def adds_def bzip2WriteCodeLengths_def lookup_def hd_conv_nth)
qed

lemma readTable_written:
  assumes "ls \<noteq> []" "completeCode ls" "\<forall>l \<in> set ls. 1 \<le> l \<and> l \<le> 20"
  shows "readTable (length ls) (tableBits ls @ bs) = Some (ls, bs)"
proof -
  have "1 \<le> hd ls" "hd ls \<le> 20" using assms(1,3) hd_in_set by blast+
  moreover from this have "hd ls mod 2 ^ 5 = hd ls" by simp
  ultimately show ?thesis using assms by (simp add: readTable_def tableBits_def getBits_append readLengths_written)
qed

section \<open>Bytes in use and selectors\<close>

lemma adds_flag: "adds (writeFlag b) [b]"
  using adds_bit by (cases b) (simp_all add: writeFlag_def)

lemma adds_flags: "adds (fold (\<lambda>x. writeFlag (f x)) xs) (map f xs)"
  using adds_fold [of xs "\<lambda>x. writeFlag (f x)" "\<lambda>x. [f x]"] adds_flag by simp

definition usedFlags :: "u8 list \<Rightarrow> bool list" where
  "usedFlags used = map (groupUsed used) [0..<16] @
     concat (map (\<lambda>g. map (\<lambda>v. of_nat v \<in> set used) [g * 16..<g * 16 + 16]) (filter (groupUsed used) [0..<16]))"

lemma concat_filter: "concat (map (\<lambda>g. if P g then f g else []) xs) = concat (map f (filter P xs))"
  by (induction xs) simp_all

lemma inUse_adds: "adds (bzip2WriteInUse used) (usedFlags used)"
proof -
  have "adds (fold (\<lambda>g w. if groupUsed used g
      then fold (\<lambda>v. writeFlag (of_nat v \<in> set used)) [g * 16..<g * 16 + 16] w else w) [0..<16])
    (concat (map (\<lambda>g. if groupUsed used g then map (\<lambda>v. of_nat v \<in> set used) [g * 16..<g * 16 + 16] else []) [0..<16]))"
    (is "adds (fold ?f _) (concat (map ?bs _))")
  proof (rule adds_fold)
    fix g show "adds (?f g) (?bs g)"
      using adds_flags [of "\<lambda>v. of_nat v \<in> set used" "[g * 16..<g * 16 + 16]"] by (auto simp: adds_def)
  qed
  from adds_comp [OF adds_flags this, of "groupUsed used"] show ?thesis
    unfolding bzip2WriteInUse_def usedFlags_def concat_filter by (simp only: eta_contract_eq)
qed


text \<open>The bytes of one group of sixteen.\<close>

definition groupBytes :: "u8 list \<Rightarrow> nat \<Rightarrow> u8 list" where
  "groupBytes used g = map of_nat (filter (\<lambda>v. of_nat v \<in> set used) [g * 16..<g * 16 + 16])"

lemma readUsedGroups_written:
  "readUsedGroups gs (concat (map (\<lambda>g. map (\<lambda>v. of_nat v \<in> set used) [g * 16..<g * 16 + 16]) gs) @ bs) =
     Some (concat (map (groupBytes used) gs), bs)"
proof (induction gs)
  case (Cons g gs)
  let ?f = "map (\<lambda>v. of_nat v \<in> set used) [g * 16..<g * 16 + 16]"
  have len: "length ?f = 16" by simp
  have "[g * 16..<g * 16 + 16] = map (\<lambda>i. g * 16 + i) [0..<16]"
    using map_add_upt [of "g * 16" 16] by (simp only: add.commute)
  then have bytes: "groupBytes used g = map (\<lambda>i. of_nat (g * 16 + i)) (filter (\<lambda>i. of_nat (g * 16 + i) \<in> set used) [0..<16])"
    unfolding groupBytes_def by (simp only: filter_map map_map comp_def)
  have nth: "(?f @ rest) ! i \<longleftrightarrow> of_nat (g * 16 + i) \<in> set used" if "i < 16" for i rest
    using that len by (simp only: nth_append if_True nth_map length_upt nth_upt) simp
  have "filter (\<lambda>i. (?f @ rest) ! i) [0..<16] = filter (\<lambda>i. of_nat (g * 16 + i) \<in> set used) [0..<16]" for rest
    by (rule filter_cong) (simp_all add: nth del: upt_Suc)
  then have "map (\<lambda>i. of_nat (g * 16 + i)) (filter (\<lambda>i. (?f @ rest) ! i) [0..<16]) = groupBytes used g" for rest
    by (simp only: bytes)
  moreover have "drop 16 (?f @ rest) = rest" "\<not> length (?f @ rest) < 16" for rest using len by simp_all
  ultimately show ?case using Cons.IH
    by (simp only: readUsedGroups.simps list.map concat.simps append.assoc if_False) simp
qed simp

lemma usedBytes_groups: "usedBytes data = concat (map (groupBytes (usedBytes data)) (filter (groupUsed (usedBytes data)) [0..<16]))"
proof -
  let ?u = "usedBytes data"
  have "[0..<256] = concat (map (\<lambda>g. [g * 16..<g * 16 + 16]) [0..<16])"
    by (simp add: upt_rec)
  then have "usedBytes data = concat (map (groupBytes data) [0..<16])"
    unfolding usedBytes_def filter_map map_concat filter_concat map_map comp_def groupBytes_def
    by (simp only: map_concat filter_concat map_map comp_def)
  also have "map (groupBytes data) [0..<16] = map (\<lambda>g. if groupUsed ?u g then groupBytes ?u g else []) [0..<16]"
  proof (rule map_cong [OF refl])
    fix g assume "g \<in> set [0..<16]"
    then have g: "g < 16" by simp
    show "groupBytes data g = (if groupUsed ?u g then groupBytes ?u g else [])"
    proof (cases "groupUsed ?u g")
      case True
      then show ?thesis by (simp add: groupBytes_def set_usedBytes)
    next
      case False
      have "of_nat v \<notin> set data" if "v \<in> set [g * 16..<g * 16 + 16]" for v
      proof
        assume "of_nat v \<in> set data"
        moreover have "v div 16 = g" using that by (intro div_nat_eqI) simp_all
        then have "unat (of_nat v :: u8) div 16 = g" using that g by (simp add: unat_of_nat)
        ultimately show False using False by (auto simp: groupUsed_def set_usedBytes)
      qed
      then show ?thesis using False by (simp add: groupBytes_def filter_empty_conv del: upt_Suc)
    qed
  qed
  also have "concat \<dots> = concat (map (groupBytes ?u) (filter (groupUsed ?u) [0..<16]))" by (rule concat_filter)
  finally show ?thesis .
qed

lemma readUsed_written: "readUsed (usedFlags (usedBytes data) @ bs) = Some (usedBytes data, bs)"
proof -
  let ?u = "usedBytes data" and ?flags = "map (groupUsed (usedBytes data)) [0..<16]"
  have len: "length ?flags = 16" by simp
  have "(?flags @ rest) ! i = groupUsed ?u i" if "i < 16" for i rest
    using that len by (simp only: nth_append if_True nth_map length_upt nth_upt) simp
  then have "filter (\<lambda>g. (?flags @ rest) ! g) [0..<16] = filter (groupUsed ?u) [0..<16]" for rest
    by (intro filter_cong) (simp_all del: upt_Suc)
  moreover have "drop 16 (?flags @ rest) = rest" "\<not> length (?flags @ rest) < 16" for rest using len by simp_all
  ultimately show ?thesis
    using readUsedGroups_written [of "filter (groupUsed ?u) [0..<16]" ?u bs] usedBytes_groups [of data]
    unfolding readUsed_def usedFlags_def append.assoc by (simp only: if_False)
qed

lemma readSelectors_written:
  "readSelectors n (g # gs) (concat (replicate n [False]) @ bs) = Some (replicate n g, bs)"
  by (induction n) simp_all


section \<open>A block\<close>

definition headerBits :: "u32 \<Rightarrow> nat \<Rightarrow> u8 list \<Rightarrow> nat \<Rightarrow> bool list" where
  "headerBits crc original used n =
     natBits 24 0x314159 @ natBits 24 0x265359 @ natBits 32 (unat crc) @ natBits 1 0 @ natBits 24 original @
     usedFlags used @ natBits 3 2 @ natBits 15 n @ concat (replicate n [False])"

lemma adds_number: "n \<le> 32 \<Longrightarrow> m < 2 ^ 32 \<Longrightarrow> adds (writeBits n (of_nat m)) (natBits n m)"
  using adds_writeBits [of n "of_nat m"] by (simp add: unat_of_nat)

lemma adds_compose: "adds f xs \<Longrightarrow> adds g ys \<Longrightarrow> adds (g \<circ> f) (xs @ ys)"
  by (simp add: adds_def)

lemma preamble_adds:
  assumes "original < 2 ^ 24" "n < 2 ^ 15"
  shows "adds (blockPreamble crc original used n) (headerBits crc original used n)"
proof -
  have "blockPreamble crc original used n =
      (writeBits 1 0 ^^ n) \<circ> (writeBits 15 (of_nat n) \<circ> (writeBits 3 (of_nat 2) \<circ> (bzip2WriteInUse used \<circ>
      (writeBits 24 (of_nat original) \<circ> (writeBits 1 (of_nat 0) \<circ> (writeBits 32 crc \<circ>
      (writeBits 24 (of_nat 0x265359) \<circ> writeBits 24 (of_nat 0x314159))))))))"
    by (rule ext) (simp add: blockPreamble_def Let_def)
  moreover have "adds \<dots> (headerBits crc original used n)"
    unfolding headerBits_def append.assoc [symmetric]
    by (intro adds_compose adds_number adds_writeBits adds_funpow adds_bit inUse_adds) (use assms in simp_all)
  ultimately show ?thesis by simp
qed

text \<open>The bits of a block and its checksum.\<close>

definition blockCode :: "bytes \<Rightarrow> bool list \<Rightarrow> bool" where
  "blockCode data bits \<longleftrightarrow> (\<forall>bs. readBzBlock 100000 (bits @ bs) = Some ((unat (bzip2CRC data), data), bs))"

lemma emits_Ret: "emits f bs \<Longrightarrow> bb_bits w < 8 \<Longrightarrow> \<exists>w'. f w = Ret w' \<and> written w' = written w @ bs \<and> bb_bits w' < 8"
  by (simp add: emits_def)

lemma length_zeroRun: "length (bzip2ZeroRun v) \<le> v + 1"
proof (induction v rule: bzip2ZeroRun.induct)
  case (1 v)
  then show ?case by (subst bzip2ZeroRun.simps) (auto simp: Let_def drop_bit_eq_div)
qed

lemma length_mtfLoop: "mtfLoop front zeros data = Ret ss \<Longrightarrow> length ss \<le> zeros + length data"
proof (induction front zeros data arbitrary: ss rule: mtfLoop.induct)
  case (1 front zeros)
  then show ?case using length_zeroRun [of "zeros - 1"] by (auto simp: flushZeros_def split: if_splits)
next
  case (2 front zeros v data)
  then obtain i where i: "listPosition front v = Ret i" by (auto simp: chain_Ret)
  show ?case
  proof (cases "i = 0")
    case True
    then show ?thesis using "2.IH"(1) [OF i True] "2.prems" i by simp
  next
    case False
    then obtain ts where "mtfLoop (v # take i front @ drop (i + 1) front) 0 data = Ret ts"
        "ss = flushZeros zeros @ (i + 1) # ts" using "2.prems" i by (auto simp: chain_Ret)
    moreover have "length (flushZeros zeros) \<le> zeros" using length_zeroRun [of "zeros - 1"] by (auto simp: flushZeros_def)
    ultimately show ?thesis using "2.IH"(2) [OF i False] by fastforce
  qed
qed

lemma length_usedBytes: "length (usedBytes data) \<le> 256"
  using length_filter_le [of "\<lambda>v. v \<in> set data" "map of_nat [0..<256]"] by (simp add: usedBytes_def del: upt_Suc)

lemma rotl_one: "word_rotl 1 (c :: u32) = push_bit 1 c OR drop_bit 31 c"
proof (rule bit_eqI)
  fix n assume "possible_bit TYPE(32 word) n"
  then have "n < 32" by simp
  then show "bit (word_rotl 1 c) n \<longleftrightarrow> bit (push_bit 1 c OR drop_bit 31 c) n"
    unfolding bit_word_rotl_iff bit_or_iff bit_push_bit_iff bit_drop_bit_eq comp_apply
    by (cases n) (auto dest: bit_imp_le_length)
qed

lemma writeBlock_block:
  assumes w: "bb_bits (bw_bits w) < 8" and data: "bw_block w = data" "data \<noteq> []" "length data \<le> bzip2InputBlockSize"
  shows "\<exists>w' bits. bzip2WriteBlock w = Ret w' \<and> bw_block w' = [] \<and> bw_closed w' = bw_closed w \<and> bb_bits (bw_bits w') < 8 \<and>
    written (bw_bits w') = written (bw_bits w) @ natBits 24 0x314159 @ natBits 24 0x265359 @ bits \<and> blockCode data bits \<and>
    bw_combinedCRC w' = word_rotl 1 (bw_combinedCRC w) XOR bzip2CRC data"
proof -
  define crc where "crc = bzip2CRC data"
  define encoded where "encoded = bzip2RLE1 data"
  have enc: "encoded \<noteq> []" "length encoded \<le> 100000" "unRLE 0 0 encoded = data" "wellCounted 0 0 encoded"
    using RLE_Nil [of data] RLE_fits [OF data(3)] data(2) RLE_undone [of 0 data 0]
    by (simp_all add: encoded_def bzip2BlockSize_def)
  obtain L i where bwt: "bzip2BWT encoded = (L, i)" by fastforce
  have L: "unBWT L i = Some encoded" "length L = length encoded" using unBWT_BWT [OF enc(1) bwt] by simp_all
  then have i: "i < length encoded" by (simp add: unBWT_def split: if_splits)
  have "L \<noteq> []" using L(2) enc(1) by auto
  let ?u = "usedBytes L"
  obtain ss where ss: "bzip2MTF L = Ret (ss @ [length ?u + 1], ?u)" "unMTF ?u 0 1 ss = Some L"
      "\<forall>s \<in> set ss. s \<le> length ?u" "?u \<noteq> []" using MTF_undone [OF \<open>L \<noteq> []\<close>] by blast
  have few: "length ss \<le> 100000"
    using ss(1) length_mtfLoop [of ?u 0 L ss] L(2) enc(2) by (auto simp: bzip2MTF_def Let_def chain_Ret)
  define N where "N = length ?u + 2"
  have N: "2 \<le> N" "N \<le> 258" using length_usedBytes [of L] by (simp_all add: N_def)
  obtain k a where t: "twoLengths N k a" and ls: "bzip2FixedCodeLengths N = map (\<lambda>i. if i < a then k else k + 1) [0..<N]"
    using fixedLengths [OF N] by blast
  let ?ls = "bzip2FixedCodeLengths N"
  have len: "length ?ls = N" "?ls \<noteq> []" using N by (auto simp: ls)
  have hd: "hd ?ls < 32" using t len by (simp add: ls twoLengths_def hd_map)
  define sy where "sy = concat (map (symbolBits ?ls a) (ss @ [N - 1]))"
  define n where "n = (length (ss @ [N - 1]) + 49) div 50"
  have n: "n < 2 ^ 15" "n \<noteq> 0" "length ss < 50 * n" using few by (simp_all add: n_def)
  define header where "header = headerBits crc i ?u n"
  let ?w0 = "blockPreamble crc i ?u n (bw_bits w)"
  have w0: "written ?w0 = written (bw_bits w) @ header" "bb_bits ?w0 < 8"
    using preamble_adds [of i n crc ?u] i enc(2) n(1) w by (simp_all add: adds_def header_def)
  obtain w1 where w1: "bzip2WriteCodeLengths ?ls ?w0 = Ret w1" "written w1 = written ?w0 @ tableBits ?ls" "bb_bits w1 < 8"
    using emits_Ret [OF tables_emit [OF len(2) hd] w0(2)] by blast
  obtain w2 where w2: "bzip2WriteCodeLengths ?ls w1 = Ret w2" "written w2 = written w1 @ tableBits ?ls" "bb_bits w2 < 8"
    using emits_Ret [OF tables_emit [OF len(2) hd] w1(3)] by blast
  have small: "\<forall>s \<in> set (ss @ [N - 1]). s < N" "\<forall>s \<in> set ss. s < N - 1" using ss(3) by (auto simp: N_def)
  obtain w3 where w3: "writeSymbols ?ls (bzip2CanonicalCodes ?ls) (ss @ [N - 1]) w2 = Ret w3" "written w3 = written w2 @ sy" "bb_bits w3 < 8"
    using emits_Ret [OF writeSymbols_emits [OF t ls N(2) small(1)] w2(3)] unfolding sy_def by blast
  have "bzip2WriteBlock w = Ret (w\<lparr>bw_combinedCRC := (push_bit 1 (bw_combinedCRC w) OR drop_bit 31 (bw_combinedCRC w)) XOR crc,
      bw_bits := w3, bw_block := []\<rparr>)"
    using data(1,2) enc(2) bwt ss(1) w1(1) w2(1) w3(1) n(2)
    by (simp add: bzip2WriteBlock_def Let_def crc_def encoded_def bzip2BlockSize_def N_def n_def)
  moreover define bits where "bits = drop 48 header @ tableBits ?ls @ tableBits ?ls @ sy"
  have "take 48 header = natBits 24 0x314159 @ natBits 24 0x265359" by (simp add: header_def headerBits_def)
  then have "header = natBits 24 0x314159 @ natBits 24 0x265359 @ drop 48 header"
    by (metis append.assoc append_take_drop_id)
  then have "written w3 = written (bw_bits w) @ natBits 24 0x314159 @ natBits 24 0x265359 @ bits"
    using w3(2) w2(2) w1(2) w0(1) by (simp add: bits_def)
  moreover have "blockCode data bits"
    unfolding blockCode_def
  proof
    fix bs
    have "drop 48 header = natBits 32 (unat crc) @ natBits 1 0 @ natBits 24 i @ usedFlags ?u @ natBits 3 2 @ natBits 15 n @
        concat (replicate n [False])" by (simp add: header_def headerBits_def)
    then have bits: "bits @ bs = natBits 32 (unat crc) @ natBits 1 0 @ natBits 24 i @ usedFlags ?u @ natBits 3 2 @ natBits 15 n @
        concat (replicate n [False]) @ tableBits ?ls @ tableBits ?ls @ sy @ bs" by (simp add: bits_def)
    have "unat crc < 2 ^ 32" by (rule order_less_le_trans [OF unsigned_less]) simp
    then have crc32: "unat crc mod 2 ^ 32 = unat crc" by (rule mod_less)
    have small24: "i mod 2 ^ 24 = i" "n mod 2 ^ 15 = n" using i enc(2) n(1) by simp_all
    have tables: "readTables 2 (length ?u + 2) (tableBits ?ls @ tableBits ?ls @ sy @ bs) = Some ([?ls, ?ls], sy @ bs)"
      using readTable_written [OF len(2)] twoLengths_complete [OF t ls] len(1) by (simp add: numeral_2_eq_2 N_def)
    have selectors: "readSelectors n [0..<2] (concat (replicate n [False]) @ bs') = Some (replicate n 0, bs')" for bs'
      using readSelectors_written [of n 0 "[1]" bs'] by (simp add: upt_rec)
    have symbols: "readGroups [?ls, ?ls] (replicate n 0) (sy @ bs) = Some (ss, bs)"
      unfolding sy_def by (rule readGroups_written [OF t ls small(2) n(3)])
    have one: "0 mod 2 ^ 1 = (0 :: nat)" "2 mod 2 ^ 3 = (2 :: nat)" by simp_all
    have "readBzBlock 100000 (bits @ bs) = do {
        column \<leftarrow> unMTF ?u 0 1 ss;
        encoded \<leftarrow> unBWT column i;
        let data = unRLE 0 0 encoded;
        if length encoded \<le> 100000 \<and> wellCounted 0 0 encoded \<and> unat (bzip2CRC data) = unat crc then Some ((unat crc, data), bs) else None }"
      unfolding readBzBlock_def bits
      by (simp only: getBits_append bind.bind_lunit crc32 small24 one readUsed_written selectors tables
          symbols split_conv) (simp add: ss(4))
    also have "\<dots> = Some ((unat (bzip2CRC data), data), bs)" using ss(2) by (simp add: L(1) enc(2,3,4) crc_def)
    finally show "readBzBlock 100000 (bits @ bs) = Some ((unat (bzip2CRC data), data), bs)" .
  qed
  ultimately show ?thesis using w3(3)
    by (intro exI [of _ "w\<lparr>bw_combinedCRC := (push_bit 1 (bw_combinedCRC w) OR drop_bit 31 (bw_combinedCRC w)) XOR crc,
      bw_bits := w3, bw_block := []\<rparr>"] exI [of _ bits]) (simp add: rotl_one [simplified] crc_def)
qed


section \<open>The stream\<close>

text \<open>The blocks written so far: their bits, the data in them, and their combined checksum.\<close>

definition blockOf :: "bool list \<Rightarrow> bool list" where
  "blockOf bits = natBits 24 0x314159 @ natBits 24 0x265359 @ bits"

definition combine :: "u32 \<Rightarrow> bytes list \<Rightarrow> u32" where
  "combine = foldl (\<lambda>crc data. word_rotl 1 crc XOR bzip2CRC data)"

definition holdsBlocks :: "bzip2Writer \<Rightarrow> (bytes \<times> bool list) list \<Rightarrow> bool" where
  "holdsBlocks w bs \<longleftrightarrow> bb_bits (bw_bits w) < 8 \<and> length (bw_block w) \<le> bzip2InputBlockSize \<and>
     written (bw_bits w) = bitsOf [0x42, 0x5a, 0x68, 0x31] @ concat (map (blockOf \<circ> snd) bs) \<and>
     (\<forall>(data, bits) \<in> set bs. blockCode data bits) \<and> bw_combinedCRC w = combine 0 (map fst bs)"

lemma holdsBlocks_new: "holdsBlocks newBzip2Writer []"
  by (simp add: holdsBlocks_def newBzip2Writer_def written_def combine_def)

lemma holdsBlocks_writeBlock:
  assumes "holdsBlocks w bs"
  shows "\<exists>w' cs. bzip2WriteBlock w = Ret w' \<and> bw_block w' = [] \<and> bw_closed w' = bw_closed w \<and> holdsBlocks w' (bs @ cs) \<and>
    concat (map fst cs) = bw_block w"
proof (cases "bw_block w = []")
  case True
  then show ?thesis using assms by (intro exI [of _ w] exI [of _ "[]"]) (simp add: bzip2WriteBlock_def)
next
  case False
  with assms obtain w' bits where w': "bzip2WriteBlock w = Ret w'" "bw_block w' = []" "bw_closed w' = bw_closed w"
      "bb_bits (bw_bits w') < 8" "blockCode (bw_block w) bits"
      "written (bw_bits w') = written (bw_bits w) @ natBits 24 0x314159 @ natBits 24 0x265359 @ bits"
      "bw_combinedCRC w' = word_rotl 1 (bw_combinedCRC w) XOR bzip2CRC (bw_block w)"
    using writeBlock_block [of w "bw_block w"] by (auto simp: holdsBlocks_def)
  then have "holdsBlocks w' (bs @ [(bw_block w, bits)])"
    using assms by (auto simp: holdsBlocks_def blockOf_def combine_def)
  with w' show ?thesis by (intro exI [of _ w'] exI [of _ "[(bw_block w, bits)]"]) simp
qed

lemma spaceFor_ok:
  assumes "holdsBlocks w bs"
  shows "\<exists>space w' cs. spaceFor w = Ret (space, w') \<and> holdsBlocks w' (bs @ cs) \<and> bw_closed w' = bw_closed w \<and>
    concat (map fst cs) @ bw_block w' = bw_block w \<and> length (bw_block w') + space \<le> bzip2InputBlockSize"
proof -
  have room: "length (bw_block w) \<le> bzip2InputBlockSize" using assms by (simp add: holdsBlocks_def)
  show ?thesis
  proof (cases "bzip2InputBlockSize - length (bw_block w) = 0")
    case True
    obtain w' cs where "bzip2WriteBlock w = Ret w'" "bw_block w' = []" "bw_closed w' = bw_closed w"
        "holdsBlocks w' (bs @ cs)" "concat (map fst cs) = bw_block w" using holdsBlocks_writeBlock [OF assms] by blast
    with True room show ?thesis
      by (intro exI [of _ bzip2InputBlockSize] exI [of _ w'] exI [of _ cs]) (simp add: spaceFor_def)
  next
    case False
    with assms room show ?thesis
      by (intro exI [of _ "bzip2InputBlockSize - length (bw_block w)"] exI [of _ w] exI [of _ "[]"])
        (simp add: spaceFor_def Let_def)
  qed
qed

lemma bzip2Fill_holds:
  "holdsBlocks w bs \<Longrightarrow> \<exists>w' cs. bzip2Fill data w = Ret w' \<and> holdsBlocks w' (bs @ cs) \<and> bw_closed w' = bw_closed w \<and>
     concat (map fst cs) @ bw_block w' = bw_block w @ data"
proof (induction data w arbitrary: bs rule: bzip2Fill.induct)
  case (1 data w)
  show ?case
  proof (cases "data = []")
    case True
    with "1.prems" show ?thesis by (intro exI [of _ w] exI [of _ "[]"]) (simp add: bzip2Fill.simps)
  next
    case False
    obtain space v cs where v: "spaceFor w = Ret (space, v)" "holdsBlocks v (bs @ cs)" "bw_closed v = bw_closed w"
        "concat (map fst cs) @ bw_block v = bw_block w" "length (bw_block v) + space \<le> bzip2InputBlockSize"
      using spaceFor_ok [OF "1.prems"] by blast
    let ?n = "min space (length data)"
    let ?v = "v\<lparr>bw_block := bw_block v @ take ?n data\<rparr>"
    have "holdsBlocks ?v (bs @ cs)" using v(2,5) by (auto simp: holdsBlocks_def)
    from "1.IH" [OF False v(1) refl refl this] obtain w' ds where w': "bzip2Fill (drop ?n data) ?v = Ret w'"
        "holdsBlocks w' ((bs @ cs) @ ds)" "bw_closed w' = bw_closed ?v"
        "concat (map fst ds) @ bw_block w' = bw_block ?v @ drop ?n data" by blast
    have "bzip2Fill data w = Ret w'" using False v(1) w'(1) by (subst bzip2Fill.simps) (simp add: Let_def)
    moreover have "concat (map fst (cs @ ds)) @ bw_block w' = bw_block w @ data"
      using w'(4) v(4) by (simp flip: append.assoc)
    ultimately show ?thesis using w'(2,3) v(3) by (intro exI [of _ w'] exI [of _ "cs @ ds"]) simp
  qed
qed

lemma bzip2WriteAll_holds:
  "holdsBlocks w bs \<Longrightarrow> \<not> bw_closed w \<Longrightarrow>
     \<exists>w' cs. bzip2WriteAll ds w = Ret w' \<and> holdsBlocks w' (bs @ cs) \<and> \<not> bw_closed w' \<and>
       concat (map fst cs) @ bw_block w' = bw_block w @ concat ds"
proof (induction ds arbitrary: w bs)
  case Nil
  then show ?case by (intro exI [of _ w] exI [of _ "[]"]) simp
next
  case (Cons d ds)
  obtain u cs where u: "bzip2Fill d w = Ret u" "holdsBlocks u (bs @ cs)" "\<not> bw_closed u"
      "concat (map fst cs) @ bw_block u = bw_block w @ d" using bzip2Fill_holds [OF Cons.prems(1)] Cons.prems(2) by blast
  obtain v ds' where v: "bzip2WriteAll ds u = Ret v" "holdsBlocks v ((bs @ cs) @ ds')" "\<not> bw_closed v"
      "concat (map fst ds') @ bw_block v = bw_block u @ concat ds" using Cons.IH [OF u(2,3)] by blast
  have "concat (map fst (cs @ ds')) @ bw_block v = bw_block w @ concat (d # ds)"
    using v(4) u(4) by (metis append.assoc concat.simps(2) concat_append map_append)
  then show ?case using u(1) v(1,2,3) Cons.prems(2)
    by (intro exI [of _ v] exI [of _ "cs @ ds'"]) (simp add: bzip2Write_def)
qed

lemma readBzBlocks_written:
  assumes "\<forall>(data, bits) \<in> set bs. blockCode data bits" "length bs < fuel" "end_crc = combine crc (map fst bs)"
  shows "readBzBlocks 100000 fuel crc (concat (map (blockOf \<circ> snd) bs) @ natBits 24 0x177245 @ natBits 24 0x385090 @
      natBits 32 (unat end_crc) @ rest) = Some (concat (map fst bs), rest)"
  using assms
proof (induction bs arbitrary: crc fuel)
  case Nil
  then obtain f where f: "fuel = Suc f" by (cases fuel) auto
  have "unat crc < 2 ^ 32" by (rule order_less_le_trans [OF unsigned_less]) simp
  then show ?case using Nil f by (simp add: getBits_append combine_def)
next
  case (Cons b bs)
  obtain data bits where b: "b = (data, bits)" by fastforce
  obtain f where f: "fuel = Suc f" using Cons.prems(2) by (cases fuel) auto
  define rest' where "rest' = concat (map (blockOf \<circ> snd) bs) @ natBits 24 0x177245 @ natBits 24 0x385090 @ natBits 32 (unat end_crc) @ rest"
  have "readBzBlocks 100000 f (word_rotl 1 crc XOR bzip2CRC data) rest' = Some (concat (map fst bs), rest)"
    unfolding rest'_def using Cons.prems by (intro Cons.IH) (simp_all add: f b combine_def)
  moreover have "readBzBlock 100000 (bits @ rest') = Some ((unat (bzip2CRC data), data), rest')"
    using Cons.prems(1) unfolding blockCode_def b by simp
  moreover have "concat (map (blockOf \<circ> snd) (b # bs)) @ natBits 24 0x177245 @ natBits 24 0x385090 @ natBits 32 (unat end_crc) @ rest =
      natBits 24 0x314159 @ natBits 24 0x265359 @ bits @ rest'"
    by (simp add: b blockOf_def rest'_def)
  ultimately show ?case by (simp only: f) (simp add: b getBits_append)
qed

lemma natBits_mod: "natBits n (v mod 2 ^ n) = natBits n v"
  by (rule natBits_cong) (simp add: take_bit_eq_mod [symmetric] bit_take_bit_iff)

lemma bytes_word:
  "natBits 32 v = natBits 8 (v div 2 ^ 24) @ natBits 8 (v div 2 ^ 16) @ natBits 8 (v div 2 ^ 8) @ natBits 8 v"
  using natBits_append [of 8 24 v] natBits_append [of 8 16 v] natBits_append [of 8 8 v] by simp

lemma blocks_fewer: "length bs \<le> length (concat (map (blockOf \<circ> snd) bs))"
  by (induction bs) (simp_all add: blockOf_def)

lemma bzip2_reads_back: "\<exists>out. bzip2Compress ds = Ret out \<and> bunzip2 out = Some (concat ds)"
proof -
  obtain w cs where w: "bzip2WriteAll ds newBzip2Writer = Ret w" "holdsBlocks w cs" "\<not> bw_closed w"
      "concat (map fst cs) @ bw_block w = concat ds"
    using bzip2WriteAll_holds [OF holdsBlocks_new, of ds] by (auto simp: newBzip2Writer_def)
  let ?w = "w\<lparr>bw_closed := True\<rparr>"
  have "holdsBlocks ?w cs" using w(2) by (simp add: holdsBlocks_def)
  then obtain v es where v: "bzip2WriteBlock ?w = Ret v" "holdsBlocks v (cs @ es)" "concat (map fst es) = bw_block w"
    using holdsBlocks_writeBlock [of ?w cs] by auto
  define bs where "bs = cs @ es"
  have bs: "holdsBlocks v bs" "concat (map fst bs) = concat ds" using v(2,3) w(4) by (simp_all add: bs_def)
  let ?crc = "bw_combinedCRC v"
  let ?b = "writeBits 32 ?crc (writeBits 24 0x385090 (writeBits 24 0x177245 (bw_bits v)))"
  let ?tail = "natBits 24 0x177245 @ natBits 24 0x385090 @ natBits 32 (unat ?crc)"
  have "adds (writeBits 32 ?crc \<circ> (writeBits 24 (of_nat 0x385090) \<circ> writeBits 24 (of_nat 0x177245))) ?tail"
    unfolding append.assoc [symmetric] by (intro adds_compose adds_number adds_writeBits) simp_all
  then have b: "written ?b = written (bw_bits v) @ ?tail" "bb_bits ?b < 8" using bs(1) by (simp_all add: adds_def holdsBlocks_def)
  obtain pad where pad: "pad < 8" "bitsOf (bb_output (flushBits ?b)) = written ?b @ replicate pad False"
    using flushBits_written [OF b(2)] by blast
  define out where "out = bb_output (flushBits ?b)"
  have "bzip2Compress ds = Ret out" using w(1,3) v(1) by (simp add: bzip2Compress_def bzip2Close_def out_def)
  moreover have "bunzip2 out = Some (concat ds)"
  proof -
    let ?rest = "concat (map (blockOf \<circ> snd) bs) @ natBits 24 0x177245 @ natBits 24 0x385090 @
        natBits 32 (unat ?crc) @ replicate pad False"
    have "bitsOf [0x42, 0x5a, 0x68, 0x31] = natBits 32 0x425a6831"
      unfolding bytes_word by (simp add: bitsOf_def natBits_mod [of 8 "0x425a", symmetric] natBits_mod [of 8 "0x425a68", symmetric]
          natBits_mod [of 8 "0x425a6831", symmetric])
    moreover have "written (bw_bits v) = bitsOf [0x42, 0x5a, 0x68, 0x31] @ concat (map (blockOf \<circ> snd) bs)"
      using bs(1) unfolding holdsBlocks_def by blast
    ultimately have bits: "bitsOf out = natBits 32 0x425a6831 @ ?rest"
      by (simp only: out_def pad(2) b(1) append.assoc)
    have "readBzBlocks 100000 (length ?rest) 0 ?rest = Some (concat (map fst bs), replicate pad False)"
      by (rule readBzBlocks_written) (use bs(1) blocks_fewer [of bs] in \<open>simp_all add: holdsBlocks_def\<close>)
    then show ?thesis using pad(1) bs(2) unfolding bunzip2_def bits by (simp add: getBits_append del: natBits.simps)
  qed
  ultimately show ?thesis by blast
qed

text \<open>C12: for every sequence of writes the compressor succeeds - no stage indexes out of range and no block
  exceeds the limit of the format - and the reference reader of the format decodes its output to the
  data, with every checksum accepted.\<close>

theorem bzip2_roundtrip: "\<exists>out. bzip2Compress ds = Ret out \<and> bunzip2 out = Some (concat ds)"
  by (rule bzip2_reads_back)

end
