(* ===== verification/Compress.thy ===== *)
theory Compress
  imports XzRound ZstdRound Bz2Round
begin

text \<open>
  The commands \<open>bzip2\<close>, \<open>xz\<close> and \<open>zstd\<close> of \<open>compression.go\<close>: the options, the choice of the
  output, and the transformation of one file through a temporary file.  A codec is what the two
  functions of \<open>compressionCodec\<close> do to a whole stream: \<open>cc_compress\<close> takes the writes between opening
  and closing, \<open>cc_decompress\<close> reads to the end.  The files are a map from names to contents, so links
  and directories are not modelled, and neither is what has been sent to standard output when a
  stream fails half way.
\<close>

section \<open>The codecs\<close>

record compressionCodec =
  cc_suffix :: string
  cc_inputNames :: "(string \<times> string) list"
  cc_compress :: "bytes list \<Rightarrow> bytes codec"
  cc_decompress :: "bytes \<Rightarrow> bytes codec"

text \<open>Reading bzip2 is left to the package \<open>compress/bzip2\<close>, the parameter \<open>reader\<close>; \<open>n\<close> is the
  size of the buffer of the copy.\<close>

definition bzip2Codec :: "(bytes \<Rightarrow> bytes codec) \<Rightarrow> compressionCodec" where
  "bzip2Codec reader = \<lparr>cc_suffix = ''.bz2'', cc_inputNames = [(''.bz2'', ''''), (''.tbz'', ''.tar''), (''.tbz2'', ''.tar'')],
     cc_compress = bzip2Compress, cc_decompress = reader\<rparr>"

definition xzCodec :: "nat \<Rightarrow> compressionCodec" where
  "xzCodec n = \<lparr>cc_suffix = ''.xz'', cc_inputNames = [(''.xz'', '''')],
     cc_compress = (\<lambda>ds. case xzCompress ds of None \<Rightarrow> Bad WriteClosed | Some out \<Rightarrow> Ret out),
     cc_decompress = xzDecompress n\<rparr>"

definition zstdCodec :: "nat \<Rightarrow> compressionCodec" where
  "zstdCodec n = \<lparr>cc_suffix = ''.zst'', cc_inputNames = [(''.zst'', ''''), (''.zstd'', '''')],
     cc_compress = zstdCompress, cc_decompress = zstdDecompress n\<rparr>"

section \<open>Options\<close>

record codecOptions =
  co_decompress :: bool
  co_stdout :: bool
  co_keep :: bool
  co_force :: bool
  co_test :: bool
  co_list :: bool
  co_verbose :: bool
  co_outFile :: string
  co_files :: "string list"

datatype codecStop = ShowHelp | ShowVersion | BadOption | MissingArgument

text \<open>The argument of an option: behind the equals sign, or the next word unless that is an option.\<close>

definition consumeVal :: "string option \<Rightarrow> string list \<Rightarrow> (string \<times> string list) option" where
  "consumeVal val args =
     (case val of Some v \<Rightarrow> Some (v, args)
      | None \<Rightarrow> (case args of [] \<Rightarrow> None | a # rest \<Rightarrow> if hasPrefix a ''-'' then None else Some (a, rest)))"

text \<open>One letter of a cluster of short options.\<close>

definition shortOption :: "char \<Rightarrow> codecOptions \<Rightarrow> codecStop + codecOptions" where
  "shortOption ch opts =
     (if ch = CHR ''d'' then Inr (opts\<lparr>co_decompress := True\<rparr>)
      else if ch = CHR ''c'' then Inr (opts\<lparr>co_stdout := True\<rparr>)
      else if ch = CHR ''k'' then Inr (opts\<lparr>co_keep := True\<rparr>)
      else if ch = CHR ''f'' then Inr (opts\<lparr>co_force := True\<rparr>)
      else if ch = CHR ''q'' then Inr opts
      else if ch = CHR ''v'' then Inr (opts\<lparr>co_verbose := True\<rparr>)
      else if ch = CHR ''t'' then Inr (opts\<lparr>co_test := True, co_decompress := True\<rparr>)
      else if ch = CHR ''l'' then Inr (opts\<lparr>co_list := True\<rparr>)
      else if ch \<in> set ''hHm'' then Inl ShowHelp
      else if ch = CHR ''V'' then Inl ShowVersion
      else if ch = CHR ''z'' then Inr (opts\<lparr>co_decompress := False\<rparr>)
      else if ch \<in> set ''bBns123456789'' then Inr opts
      else Inl BadOption)"

text \<open>The cluster; the remaining words are returned because \<open>o\<close> and \<open>D\<close> may take one.\<close>

fun codecCluster :: "string \<Rightarrow> string list \<Rightarrow> codecOptions \<Rightarrow> codecStop + codecOptions \<times> string list" where
  "codecCluster [] args opts = Inr (opts, args)"
| "codecCluster (ch # rest) args opts =
     (if ch = CHR ''o'' then
        (if rest \<noteq> [] then Inr (opts\<lparr>co_outFile := rest\<rparr>, args)
         else case args of [] \<Rightarrow> Inl MissingArgument | a # args \<Rightarrow> Inr (opts\<lparr>co_outFile := a\<rparr>, args))
      else if ch = CHR ''D'' then Inr (opts, if rest \<noteq> [] then args else tl args)
      else case shortOption ch opts of Inl stop \<Rightarrow> Inl stop | Inr opts \<Rightarrow> codecCluster rest args opts)"

lemma codecCluster_shorter: "codecCluster cluster args opts = Inr (opts', args') \<Longrightarrow> length args' \<le> length args"
  by (induction cluster args opts rule: codecCluster.induct) (auto split: if_splits list.splits sum.splits)

lemma if_eqE: "(if c then a else b) = r \<Longrightarrow> (c \<Longrightarrow> a = r \<Longrightarrow> P) \<Longrightarrow> (\<not> c \<Longrightarrow> b = r \<Longrightarrow> P) \<Longrightarrow> P"
  by (cases c) simp_all

text \<open>What one option word does.\<close>

definition ignoredFlags :: "string list" where
  "ignoredFlags = [''--auto-threads'', ''-q'', ''--quiet'', ''-b'', ''-n'', ''--no-name'', ''-T0'', ''--train'', ''--train-cover'',
     ''--train-fastcover'', ''--train-legacy'', ''--adapt'', ''--exclude-compressed'', ''--long'', ''--no-async'',
     ''--single-thread'', ''-s'', ''--small'', ''--fast'', ''--best'']"

definition ignoredSettings :: "string list" where
  "ignoredSettings = [''-B'', ''-M'', ''--memory'', ''--zstd'', ''--maxdict'', ''--dictID'', ''-D'', ''--patch-from'']"

definition parseOption :: "string \<Rightarrow> string list \<Rightarrow> codecOptions \<Rightarrow> codecStop + codecOptions \<times> string list" where
  "parseOption arg args opts =
     (let eq = indexByte arg CHR ''='';
          cut = hasPrefix arg ''--'' \<and> eq \<noteq> None;
          opt = (if cut then take (the eq) arg else arg);
          val = (if cut then Some (drop (the eq + 1) arg) else None)
      in if opt \<in> set ignoredFlags then Inr (opts, args)
         else if opt \<in> set [''-c'', ''--stdout'', ''--to-stdout''] then Inr (opts\<lparr>co_stdout := True\<rparr>, args)
         else if opt \<in> set [''-d'', ''--decompress'', ''--uncompress''] then Inr (opts\<lparr>co_decompress := True\<rparr>, args)
         else if opt \<in> set [''-f'', ''--force''] then Inr (opts\<lparr>co_force := True\<rparr>, args)
         else if opt \<in> set [''-h'', ''-H'', ''--help'', ''--long-help'', ''-m'', ''--manual''] then Inl ShowHelp
         else if opt \<in> set [''-k'', ''--keep''] then Inr (opts\<lparr>co_keep := True\<rparr>, args)
         else if opt \<in> set [''-l'', ''--list''] then Inr (opts\<lparr>co_list := True\<rparr>, args)
         else if opt = ''-o'' then
           (case consumeVal val args of None \<Rightarrow> Inl MissingArgument
            | Some (v, args) \<Rightarrow> Inr (opts\<lparr>co_outFile := v\<rparr>, args))
         else if opt \<in> set [''-t'', ''--test''] then Inr (opts\<lparr>co_test := True, co_decompress := True\<rparr>, args)
         else if opt \<in> set [''-v'', ''--verbose''] then Inr (opts\<lparr>co_verbose := True\<rparr>, args)
         else if opt \<in> set [''-V'', ''--version''] then Inl ShowVersion
         else if opt \<in> set ignoredSettings then
           (case consumeVal val args of None \<Rightarrow> Inr (opts, args) | Some (v, args) \<Rightarrow> Inr (opts, args))
         else if opt = ''--rm'' then Inr (opts\<lparr>co_keep := False\<rparr>, args)
         else if opt \<in> set [''-z'', ''--compress''] then Inr (opts\<lparr>co_decompress := False\<rparr>, args)
         else if hasPrefix arg ''--'' then Inl BadOption
         else codecCluster (tl arg) args opts)"

lemma consumeVal_shorter: "consumeVal val args = Some (v, args') \<Longrightarrow> length args' \<le> length args"
  by (auto simp: consumeVal_def split: option.splits list.splits if_splits)

lemma parseOption_shorter:
  assumes "parseOption arg args opts = Inr (opts', args')"
  shows "length args' \<le> length args"
proof -
  have "length rest \<le> length args" if "consumeVal val args = Some (v, rest)" for val v rest
    using that by (rule consumeVal_shorter)
  then have some: "(case consumeVal val args of None \<Rightarrow> Inl e | Some (v, rest) \<Rightarrow> Inr (f v, rest)) = Inr (opts', args') \<Longrightarrow>
      length args' \<le> length args"
    "(case consumeVal val args of None \<Rightarrow> Inr (g, args) | Some (v, rest) \<Rightarrow> Inr (h, rest)) = Inr (opts', args') \<Longrightarrow>
      length args' \<le> length args" for val and e :: codecStop and f g h
    by (auto split: option.splits)
  show ?thesis using assms unfolding parseOption_def Let_def
    by (elim if_eqE) (simp_all only: sum.inject prod.inject sum.distinct codecCluster_shorter some order.refl)
qed

text \<open>The words in order; behind \<open>--\<close> and without a dash they are files.\<close>

function parseCodec :: "bool \<Rightarrow> string list \<Rightarrow> codecOptions \<Rightarrow> codecStop + codecOptions" where
  "parseCodec parsing [] opts = Inr opts"
| "parseCodec parsing (arg # args) opts =
     (if parsing \<and> arg = ''--'' then parseCodec False args opts
      else if parsing \<and> hasPrefix arg ''-'' \<and> arg \<noteq> ''-'' then
        (case parseOption arg args opts of Inl stop \<Rightarrow> Inl stop | Inr (opts, args) \<Rightarrow> parseCodec parsing args opts)
      else parseCodec parsing args (opts\<lparr>co_files := co_files opts @ [arg]\<rparr>))"
  by pat_completeness auto
termination
  by (relation "measure (\<lambda>(_, args, _). length args)") (auto dest: parseOption_shorter)


section \<open>Files\<close>

text \<open>
  The world a command runs in and the faults it can meet.  \<open>host_temp\<close> is the name \<open>os.CreateTemp\<close>
  picks beside an output; it is created exclusively.  \<open>host_cut\<close> is how \<open>io.Copy\<close> cuts its input into
  writes.  The other fields make the system call on this name fail.
\<close>

record host =
  host_temp :: "string \<Rightarrow> string"
  host_cut :: "bytes \<Rightarrow> bytes list"
  host_noOpen :: "string \<Rightarrow> bool"
  host_noRead :: "string \<Rightarrow> bool"
  host_noStat :: "string \<Rightarrow> bool"
  host_noCreate :: "string \<Rightarrow> bool"
  host_noWrite :: "string \<Rightarrow> bool"
  host_noClose :: "string \<Rightarrow> bool"
  host_noRename :: "string \<Rightarrow> bool"
  host_noRemove :: "string \<Rightarrow> bool"

record fileWorld =
  wd_files :: "string \<Rightarrow> bytes option"
  wd_stdin :: bytes
  wd_stdout :: bytes

datatype codecFailure =
  NoInput | NotOpened | OutputExists | StatFailed | UnknownSuffix | NoTemporary | ReadFailed | CodecFailed codec_error | TooLarge
| WriteFailed | CloseFailed | RenameFailed | InputNotClosed | InputNotRemoved

datatype fileOutcome = Done | Failed codecFailure | Crashed

definition maxExpandedArchiveBytes :: nat where
  "maxExpandedArchiveBytes = 2 ^ 36"

definition utf8 :: "string \<Rightarrow> bytes" where
  "utf8 = map (\<lambda>c. of_nat (ord c))"

text \<open>\<open>openInput\<close>: the whole input.  Standard input counts as used up from here on, also when a failure
  comes before it is read.\<close>

definition openCodecInput :: "host \<Rightarrow> string \<Rightarrow> fileWorld \<Rightarrow> (codecFailure + bytes) \<times> fileWorld" where
  "openCodecInput h name w =
     (if name = ''-'' then (Inr (wd_stdin w), w\<lparr>wd_stdin := []\<rparr>)
      else if host_noOpen h name then (Inl NotOpened, w)
      else case wd_files w name of None \<Rightarrow> (Inl NoInput, w) | Some data \<Rightarrow> (Inr data, w))"

text \<open>\<open>codecOutputName\<close>: the longest suffix that fits is replaced.\<close>

definition codecOutputName :: "compressionCodec \<Rightarrow> string \<Rightarrow> codecFailure + string" where
  "codecOutputName codec name =
     (case filter (\<lambda>(suf, _). hasSuffix name suf) (sort_key (\<lambda>(suf, _). - int (length suf)) (cc_inputNames codec)) of
        [] \<Rightarrow> Inl UnknownSuffix
      | (suf, new) # _ \<Rightarrow> Inr (take (length name - length suf) name @ new))"

text \<open>\<open>openCodecOutput\<close>: nothing for standard output, otherwise a new temporary file.\<close>

definition openCodecOutput :: "host \<Rightarrow> string \<Rightarrow> bool \<Rightarrow> fileWorld \<Rightarrow> (codecFailure + string option) \<times> fileWorld" where
  "openCodecOutput h name force w =
     (if name = ''-'' then (Inr None, w)
      else if host_noStat h name then (Inl StatFailed, w)
      else if wd_files w name \<noteq> None \<and> \<not> force then (Inl OutputExists, w)
      else
        let temporary = host_temp h name
        in if host_noCreate h temporary \<or> wd_files w temporary \<noteq> None then (Inl NoTemporary, w)
           else (Inr (Some temporary), w\<lparr>wd_files := (wd_files w)(temporary \<mapsto> [])\<rparr>))"

text \<open>The transformed data; \<open>Panic\<close> is the crash of the decoder.\<close>

definition liftCodec :: "bytes codec \<Rightarrow> fileOutcome + bytes" where
  "liftCodec r = (case r of Ret data \<Rightarrow> Inr data | Bad e \<Rightarrow> Inl (Failed (CodecFailed e)) | Panic \<Rightarrow> Inl Crashed)"

definition transformed :: "host \<Rightarrow> compressionCodec \<Rightarrow> bool \<Rightarrow> bool \<Rightarrow> string \<Rightarrow> bytes \<Rightarrow> fileOutcome + bytes" where
  "transformed h codec decompress limited name data =
     (if host_noRead h name then Inl (Failed ReadFailed)
      else if decompress then
        (case liftCodec (cc_decompress codec data) of
           Inl r \<Rightarrow> Inl r
         | Inr plain \<Rightarrow> if limited \<and> maxExpandedArchiveBytes < length plain then Inl (Failed TooLarge) else Inr plain)
      else liftCodec (cc_compress codec (host_cut h data)))"

definition removeFile :: "host \<Rightarrow> string \<Rightarrow> fileWorld \<Rightarrow> bool \<times> fileWorld" where
  "removeFile h name w =
     (if host_noRemove h name \<or> wd_files w name = None then (False, w)
      else (True, w\<lparr>wd_files := (wd_files w)(name := None)\<rparr>))"

text \<open>The deferred removal of the temporary file.\<close>

definition giveUp :: "host \<Rightarrow> string option \<Rightarrow> fileOutcome \<Rightarrow> fileWorld \<Rightarrow> fileOutcome \<times> fileWorld" where
  "giveUp h temporary r w = (case temporary of None \<Rightarrow> (r, w) | Some t \<Rightarrow> (r, snd (removeFile h t w)))"

text \<open>Writing and closing the output, and the temporary file renamed over the output.\<close>

definition finishOutput :: "host \<Rightarrow> string \<Rightarrow> string option \<Rightarrow> bytes \<Rightarrow> fileWorld \<Rightarrow> fileOutcome \<times> fileWorld" where
  "finishOutput h outputName temporary data w =
     (case temporary of
        None \<Rightarrow> if host_noWrite h ''-'' then (Failed WriteFailed, w) else (Done, w\<lparr>wd_stdout := wd_stdout w @ data\<rparr>)
      | Some t \<Rightarrow>
          if host_noWrite h t then giveUp h temporary (Failed WriteFailed) w
          else
            let w = w\<lparr>wd_files := (wd_files w)(t \<mapsto> data)\<rparr>
            in if host_noClose h t then giveUp h temporary (Failed CloseFailed) w
               else if host_noRename h outputName then giveUp h temporary (Failed RenameFailed) w
               else (Done, w\<lparr>wd_files := (wd_files w)(t := None, outputName := Some data)\<rparr>))"

text \<open>The removal of the input.\<close>

definition dropInput :: "host \<Rightarrow> string \<Rightarrow> fileWorld \<Rightarrow> fileOutcome \<times> fileWorld" where
  "dropInput h name w =
     (if host_noClose h name then (Failed InputNotClosed, w)
      else case removeFile h name w of (True, w) \<Rightarrow> (Done, w) | (False, w) \<Rightarrow> (Failed InputNotRemoved, w))"

definition chooseOutput :: "compressionCodec \<Rightarrow> codecOptions \<Rightarrow> string \<Rightarrow> codecFailure + string" where
  "chooseOutput codec opts name =
     (if co_outFile opts \<noteq> [] then Inr (co_outFile opts)
      else if \<not> co_stdout opts \<and> name \<noteq> ''-'' then
        (if co_decompress opts then codecOutputName codec name else Inr (name @ cc_suffix codec))
      else Inr ''-'')"

definition testFile :: "host \<Rightarrow> compressionCodec \<Rightarrow> codecOptions \<Rightarrow> string \<Rightarrow> bytes \<Rightarrow> fileWorld \<Rightarrow> fileOutcome \<times> fileWorld" where
  "testFile h codec opts name data w =
     (case transformed h codec True False name data of
        Inl r \<Rightarrow> (r, w)
      | Inr _ \<Rightarrow> (Done, if co_verbose opts then w\<lparr>wd_stdout := wd_stdout w @ utf8 (name @ '' : OK'' @ [CHR 0x0A])\<rparr> else w))"

text \<open>The part after the output is open.\<close>

definition produceOutput ::
  "host \<Rightarrow> compressionCodec \<Rightarrow> codecOptions \<Rightarrow> string \<Rightarrow> bytes \<Rightarrow> string \<Rightarrow> string option \<Rightarrow> fileWorld \<Rightarrow> fileOutcome \<times> fileWorld" where
  "produceOutput h codec opts name data outputName temporary w =
     (case transformed h codec (co_decompress opts) True name data of
        Inl r \<Rightarrow> giveUp h temporary r w
      | Inr out \<Rightarrow>
          (case finishOutput h outputName temporary out w of
             (Done, w) \<Rightarrow>
               (if name \<noteq> ''-'' \<and> outputName \<noteq> ''-'' \<and> \<not> co_keep opts then dropInput h name w else (Done, w))
           | (r, w) \<Rightarrow> (r, w)))"

definition transformCodecFile :: "host \<Rightarrow> compressionCodec \<Rightarrow> codecOptions \<Rightarrow> string \<Rightarrow> fileWorld \<Rightarrow> fileOutcome \<times> fileWorld" where
  "transformCodecFile h codec opts name w =
     (case openCodecInput h name w of
        (Inl e, w) \<Rightarrow> (Failed e, w)
      | (Inr data, w) \<Rightarrow>
          (if co_test opts then testFile h codec opts name data w
           else (case chooseOutput codec opts name of
             Inl e \<Rightarrow> (Failed e, w)
           | Inr outputName \<Rightarrow>
               (case openCodecOutput h outputName (co_force opts) w of
                  (Inl e, w) \<Rightarrow> (Failed e, w)
                | (Inr temporary, w) \<Rightarrow> produceOutput h codec opts name data outputName temporary w))))"

section \<open>The command\<close>

text \<open>The files one after another; a crash ends the process.  The result is the exit status and the
  failures that are reported.\<close>

type_synonym report = "nat \<times> (string \<times> codecFailure) list"

fun transformFiles :: "host \<Rightarrow> compressionCodec \<Rightarrow> codecOptions \<Rightarrow> string list \<Rightarrow> fileWorld \<Rightarrow> report \<times> fileWorld" where
  "transformFiles h codec opts [] w = ((0, []), w)"
| "transformFiles h codec opts (name # names) w =
     (case transformCodecFile h codec opts name w of
        (Done, w) \<Rightarrow> transformFiles h codec opts names w
      | (Crashed, w) \<Rightarrow> ((2, []), w)
      | (Failed e, w) \<Rightarrow>
          (case transformFiles h codec opts names w of ((status, es), w) \<Rightarrow> ((max 1 status, (name, e) # es), w)))"

definition padLeft :: "nat \<Rightarrow> string \<Rightarrow> string" where
  "padLeft n s = replicate (n - length s) CHR '' '' @ s"

fun listFiles :: "host \<Rightarrow> string list \<Rightarrow> fileWorld \<Rightarrow> report \<times> fileWorld" where
  "listFiles h [] w = ((0, []), w)"
| "listFiles h (name # names) w =
     (if name = ''-'' then listFiles h names w
      else if host_noStat h name \<or> wd_files w name = None then
        (case listFiles h names w of ((_, es), w) \<Rightarrow> ((1, (name, StatFailed) # es), w))
      else
        let n = padLeft 10 (showDec (length (the (wd_files w name))));
            line = ''     1      0  '' @ n @ ''    '' @ n @ ''  -----  -----  '' @ name @ [CHR 0x0A]
        in listFiles h names (w\<lparr>wd_stdout := wd_stdout w @ utf8 line\<rparr>))"

definition noOptions :: "bool \<Rightarrow> codecOptions" where
  "noOptions decompress = \<lparr>co_decompress = decompress, co_stdout = False, co_keep = False, co_force = False, co_test = False,
     co_list = False, co_verbose = False, co_outFile = [], co_files = []\<rparr>"

text \<open>The texts of the help and of the version are not modelled.\<close>

definition cmdCodec :: "host \<Rightarrow> compressionCodec \<Rightarrow> string list \<Rightarrow> bool \<Rightarrow> fileWorld \<Rightarrow> report \<times> fileWorld" where
  "cmdCodec h codec args decompress w =
     (case parseCodec True args (noOptions decompress) of
        Inl stop \<Rightarrow> ((if stop = ShowHelp \<or> stop = ShowVersion then 0 else 1, []), w)
      | Inr opts \<Rightarrow>
          let opts = (if co_files opts = [] then opts\<lparr>co_files := [''-''], co_stdout := True\<rparr> else opts)
          in if co_list opts
             then listFiles h (co_files opts) (w\<lparr>wd_stdout := wd_stdout w @
               utf8 (''Frames  Skips  Compressed  Uncompressed  Ratio  Check  Filename'' @ [CHR 0x0A])\<rparr>)
             else transformFiles h codec opts (co_files opts) w)"

definition cmdXz :: "host \<Rightarrow> nat \<Rightarrow> string list \<Rightarrow> fileWorld \<Rightarrow> report \<times> fileWorld" where
  "cmdXz h n args = cmdCodec h (xzCodec n) args False"

definition cmdUnxz :: "host \<Rightarrow> nat \<Rightarrow> string list \<Rightarrow> fileWorld \<Rightarrow> report \<times> fileWorld" where
  "cmdUnxz h n args = cmdCodec h (xzCodec n) (''-d'' # args) True"

definition cmdZstd :: "host \<Rightarrow> nat \<Rightarrow> string list \<Rightarrow> fileWorld \<Rightarrow> report \<times> fileWorld" where
  "cmdZstd h n args = cmdCodec h (zstdCodec n) args False"

definition cmdUnzstd :: "host \<Rightarrow> nat \<Rightarrow> string list \<Rightarrow> fileWorld \<Rightarrow> report \<times> fileWorld" where
  "cmdUnzstd h n args = cmdCodec h (zstdCodec n) (''-d'' # args) True"

definition cmdBzip2 :: "host \<Rightarrow> (bytes \<Rightarrow> bytes codec) \<Rightarrow> string list \<Rightarrow> fileWorld \<Rightarrow> report \<times> fileWorld" where
  "cmdBzip2 h reader args = cmdCodec h (bzip2Codec reader) args False"

definition cmdBunzip2 :: "host \<Rightarrow> (bytes \<Rightarrow> bytes codec) \<Rightarrow> string list \<Rightarrow> fileWorld \<Rightarrow> report \<times> fileWorld" where
  "cmdBunzip2 h reader args = cmdCodec h (bzip2Codec reader) (''-d'' # args) True"

end
