(* ===== verification/CompressFiles.thy ===== *)
theory CompressFiles
  imports Compress
begin

text \<open>
  The compression commands on files.  The locale \<open>stream_codec\<close> is what a command relies on: what a
  codec writes it reads back; \<open>named_codec\<close> adds that the suffix it appends is the one it takes away.
  Both are interpreted on the three codecs.
\<close>

section \<open>The interface of a codec\<close>

locale stream_codec =
  fixes compress :: "bytes list \<Rightarrow> bytes codec"
    and decompress :: "bytes \<Rightarrow> bytes codec"
  assumes reads_back: "length (concat ds) \<le> maxExpandedArchiveBytes \<Longrightarrow>
    \<exists>out. compress ds = Ret out \<and> decompress out = Ret (concat ds)"

locale named_codec = stream_codec "cc_compress codec" "cc_decompress codec" for codec :: compressionCodec +
  assumes suffix_undone: "codecOutputName codec (name @ cc_suffix codec) = Inr name"
    and suffix_there: "cc_suffix codec \<noteq> []"

text \<open>A host without faults whose temporary names are new.\<close>

definition healthy :: "host \<Rightarrow> bool" where
  "healthy h \<longleftrightarrow> host_noOpen h = (\<lambda>_. False) \<and> host_noRead h = (\<lambda>_. False) \<and> host_noStat h = (\<lambda>_. False) \<and>
     host_noCreate h = (\<lambda>_. False) \<and> host_noWrite h = (\<lambda>_. False) \<and> host_noClose h = (\<lambda>_. False) \<and>
     host_noRename h = (\<lambda>_. False) \<and> host_noRemove h = (\<lambda>_. False) \<and> (\<forall>data. concat (host_cut h data) = data)"

definition freshTemp :: "host \<Rightarrow> string \<Rightarrow> fileWorld \<Rightarrow> bool" where
  "freshTemp h name w \<longleftrightarrow> host_temp h name \<noteq> name \<and> wd_files w (host_temp h name) = None"

text \<open>A successful transformation of a file into another one.\<close>

lemma transform_file:
  assumes h: "healthy h" and out: "chooseOutput codec opts name = Inr outputName" "outputName \<noteq> ''-''"
    and name: "name \<noteq> ''-''" "wd_files w name = Some data" and fresh: "freshTemp h outputName w"
    and free: "wd_files w outputName = None \<or> co_force opts"
    and opts: "\<not> co_test opts" "\<not> co_keep opts"
    and data: "transformed h codec (co_decompress opts) True name data = Inr plain"
  shows "transformCodecFile h codec opts name w =
    (Done, w\<lparr>wd_files := (wd_files w)(outputName := Some plain, name := None)\<rparr>)"
proof -
  let ?t = "host_temp h outputName"
  have t: "?t \<noteq> outputName" "wd_files w ?t = None" using fresh by (simp_all add: freshTemp_def)
  then have "?t \<noteq> name" using name(2) by auto
  have files: "((wd_files w)(?t \<mapsto> []))(?t \<mapsto> plain, ?t := None, outputName := Some plain, name := None) =
      (wd_files w)(outputName := Some plain, name := None)" using t \<open>?t \<noteq> name\<close> by (auto simp: fun_eq_iff)
  have "openCodecOutput h outputName (co_force opts) w = (Inr (Some ?t), w\<lparr>wd_files := (wd_files w)(?t \<mapsto> [])\<rparr>)"
    using h out(2) t free by (auto simp: openCodecOutput_def healthy_def Let_def)
  moreover have "finishOutput h outputName (Some ?t) plain (w\<lparr>wd_files := (wd_files w)(?t \<mapsto> [])\<rparr>) =
      (Done, w\<lparr>wd_files := ((wd_files w)(?t \<mapsto> []))(?t \<mapsto> plain, ?t := None, outputName := Some plain)\<rparr>)"
    using h by (simp add: finishOutput_def healthy_def Let_def)
  moreover have "openCodecInput h name w = (Inr data, w)" using h name by (simp add: openCodecInput_def healthy_def)
  moreover have "dropInput h name (w\<lparr>wd_files := ((wd_files w)(?t \<mapsto> []))(?t \<mapsto> plain, ?t := None, outputName := Some plain)\<rparr>) =
      (Done, w\<lparr>wd_files := (wd_files w)(outputName := Some plain, name := None)\<rparr>)"
    using h name(2) \<open>?t \<noteq> name\<close> files by (simp add: dropInput_def removeFile_def healthy_def)
  ultimately show ?thesis using out opts name(1) data by (simp add: transformCodecFile_def produceOutput_def)
qed

context named_codec
begin

lemma compressed_and_back:
  assumes h: "healthy h" and name: "name \<noteq> ''-''" "name @ cc_suffix codec \<noteq> ''-''"
    and data: "wd_files w name = Some data" "length data \<le> maxExpandedArchiveBytes"
    and free: "wd_files w (name @ cc_suffix codec) = None"
    and fresh: "freshTemp h (name @ cc_suffix codec) w" "freshTemp h name w" "host_temp h name \<noteq> name @ cc_suffix codec"
  shows "\<exists>w'. transformCodecFile h codec (noOptions False) name w = (Done, w') \<and> wd_files w' name = None \<and>
    transformCodecFile h codec (noOptions True) (name @ cc_suffix codec) w' = (Done, w)"
proof -
  obtain out where out: "cc_compress codec (host_cut h data) = Ret out" "cc_decompress codec out = Ret data"
    using reads_back [of "host_cut h data"] h data(2) by (auto simp: healthy_def)
  let ?packed = "name @ cc_suffix codec"
  let ?w = "w\<lparr>wd_files := (wd_files w)(?packed := Some out, name := None)\<rparr>"
  have differ: "?packed \<noteq> name" using suffix_there by simp
  have data': "transformed h codec False True name data = Inr out" "transformed h codec True True ?packed out = Inr data"
    using h out data(2) by (simp_all add: transformed_def liftCodec_def healthy_def)
  have one: "transformCodecFile h codec (noOptions False) name w = (Done, ?w)"
    by (rule transform_file [OF h _ name(2,1) data(1) fresh(1)])
      (use name free data' in \<open>simp_all add: chooseOutput_def noOptions_def\<close>)
  have fresh': "freshTemp h name ?w" using fresh(2,3) by (simp add: freshTemp_def)
  have "transformCodecFile h codec (noOptions True) ?packed ?w =
      (Done, ?w\<lparr>wd_files := (wd_files ?w)(name := Some data, ?packed := None)\<rparr>)"
    by (rule transform_file [OF h _ name(1,2) _ fresh'])
      (use name differ suffix_undone [of name] data' in \<open>simp_all add: chooseOutput_def noOptions_def\<close>)
  moreover have "(wd_files ?w)(name := Some data, ?packed := None) = wd_files w"
    using differ data(1) free by (auto simp: fun_eq_iff)
  ultimately show ?thesis using one differ by (intro exI [of _ ?w]) simp
qed

end

section \<open>The three codecs\<close>

lemma hasSuffix_append: "hasSuffix (name @ s) s" "take (length (name @ s) - length s) (name @ s) = name"
  by (simp_all add: hasSuffix_def)

lemma hasSuffix_last: "s \<noteq> [] \<Longrightarrow> t \<noteq> [] \<Longrightarrow> last s \<noteq> last t \<Longrightarrow> \<not> hasSuffix (name @ s) t"
  by (metis append_take_drop_id hasSuffix_def last_append)

interpretation xz: named_codec "xzCodec n" for n
proof
  fix ds :: "bytes list" assume "length (concat ds) \<le> maxExpandedArchiveBytes"
  then have "\<exists>streams. map xzCompress [ds] = map Some streams \<and> xzDecompress n (concat streams) = Ret (concat (map concat [ds]))"
    by (intro xz_streams_read_back) (simp_all add: maxExpandedArchiveBytes_def)
  then show "\<exists>out. cc_compress (xzCodec n) ds = Ret out \<and> cc_decompress (xzCodec n) out = Ret (concat ds)"
    by (auto simp: xzCodec_def)
qed (simp_all add: codecOutputName_def xzCodec_def hasSuffix_append)

interpretation zstd: named_codec "zstdCodec n" for n
proof
  fix ds :: "bytes list"
  have "\<exists>frames. map zstdCompress [ds] = map Ret frames \<and> zstdDecompress n (concat frames) = Ret (concat (map concat [ds]))"
    by (intro zstd_frames_read_back) simp
  then show "\<exists>out. cc_compress (zstdCodec n) ds = Ret out \<and> cc_decompress (zstdCodec n) out = Ret (concat ds)"
    by (auto simp: zstdCodec_def)
qed (simp_all add: codecOutputName_def zstdCodec_def hasSuffix_append hasSuffix_last)

text \<open>The library that reads bzip2 decodes every stream that the strict reference reader accepts, and decodes it alike.\<close>

definition readsBzip2 :: "(bytes \<Rightarrow> bytes codec) \<Rightarrow> bool" where
  "readsBzip2 reader \<longleftrightarrow> (\<forall>b d. bunzip2 b = Some d \<longrightarrow> reader b = Ret d)"

definition referenceReader :: "bytes \<Rightarrow> bytes codec" where
  "referenceReader b = (case bunzip2 b of None \<Rightarrow> Bad Bzip2Data | Some d \<Rightarrow> Ret d)"

lemma bzip2_named:
  assumes "readsBzip2 reader"
  shows "named_codec (bzip2Codec reader)"
proof
  fix ds :: "bytes list"
  show "\<exists>out. cc_compress (bzip2Codec reader) ds = Ret out \<and> cc_decompress (bzip2Codec reader) out = Ret (concat ds)"
    using bzip2_reads_back [of ds] assms by (auto simp: bzip2Codec_def readsBzip2_def)
next
  fix name
  have "\<not> hasSuffix (name @ ''.bz2'') ''.tbz2''" "\<not> hasSuffix (name @ ''.bz2'') ''.tbz''"
    by (auto simp: hasSuffix_def drop_Cons' nth_append Cons_eq_append_conv)
  then show "codecOutputName (bzip2Codec reader) (name @ cc_suffix (bzip2Codec reader)) = Inr name"
    by (simp add: codecOutputName_def bzip2Codec_def hasSuffix_append)
qed (simp add: bzip2Codec_def)

interpretation bzip2: named_codec "bzip2Codec referenceReader"
  by (rule bzip2_named) (simp add: readsBzip2_def referenceReader_def)


section \<open>Failures\<close>

text \<open>The failures after the output has taken its place.\<close>

definition lateFailure :: "fileOutcome \<Rightarrow> bool" where
  "lateFailure r \<longleftrightarrow> r = Failed InputNotClosed \<or> r = Failed InputNotRemoved"

text \<open>All files as before, up to a temporary file that could not be removed.\<close>

definition keepsFiles :: "host \<Rightarrow> fileWorld \<Rightarrow> fileWorld \<Rightarrow> bool" where
  "keepsFiles h w w' \<longleftrightarrow> wd_files w' = wd_files w \<or>
     (\<exists>t content. host_noRemove h t \<and> wd_files w t = None \<and> wd_files w' = (wd_files w)(t \<mapsto> content))"

lemma giveUp_keeps:
  assumes "giveUp h temporary r w1 = (r', w')"
    and "temporary = None \<and> wd_files w1 = wd_files w \<or>
      (\<exists>t content. temporary = Some t \<and> wd_files w t = None \<and> wd_files w1 = (wd_files w)(t \<mapsto> content))"
  shows "r' = r \<and> keepsFiles h w w'"
  using assms by (auto simp: giveUp_def removeFile_def keepsFiles_def fun_eq_iff split: if_splits)

lemma openCodecOutput_temp:
  assumes "openCodecOutput h name force w = (Inr temporary, w1)"
  shows "temporary = None \<and> wd_files w1 = wd_files w \<or>
    (\<exists>t content. temporary = Some t \<and> wd_files w t = None \<and> wd_files w1 = (wd_files w)(t \<mapsto> content))"
  using assms by (auto simp: openCodecOutput_def Let_def split: if_splits)

lemma openCodecInput_files: "openCodecInput h name w = (r, w1) \<Longrightarrow> wd_files w1 = wd_files w"
  by (auto simp: openCodecInput_def split: if_splits option.splits)

lemma finishOutput_keeps:
  assumes fin: "finishOutput h outputName temporary out w1 = (r, w')"
    and temp: "temporary = None \<and> wd_files w1 = wd_files w \<or>
      (\<exists>t content. temporary = Some t \<and> wd_files w t = None \<and> wd_files w1 = (wd_files w)(t \<mapsto> content))"
  shows "r \<noteq> Crashed \<and> \<not> lateFailure r \<and> (if r = Done then temporary = None \<and> wd_files w' = wd_files w \<or>
      temporary \<noteq> None \<and> wd_files w' = (wd_files w)(the temporary := None, outputName := Some out)
    else keepsFiles h w w')"
proof (cases temporary)
  case None
  then show ?thesis using assms by (auto simp: finishOutput_def keepsFiles_def lateFailure_def split: if_splits)
next
  case (Some t)
  with temp obtain content where t: "wd_files w t = None" "wd_files w1 = (wd_files w)(t \<mapsto> content)" by auto
  let ?w = "w1\<lparr>wd_files := (wd_files w1)(t \<mapsto> out)\<rparr>"
  have again: "wd_files ?w = (wd_files w)(t \<mapsto> out)" using t(2) by (simp add: fun_eq_iff)
  note gave = giveUp_keeps [of h temporary _ w1 r w' w] giveUp_keeps [of h temporary _ ?w r w' w]
  show ?thesis
    using fin t gave again unfolding finishOutput_def Some option.case Let_def
    by (elim if_eqE) (auto simp: Some lateFailure_def fun_eq_iff)
qed

lemma dropInput_late: "dropInput h name w = (r, w') \<Longrightarrow> r = Done \<or> lateFailure r"
  by (auto simp: dropInput_def removeFile_def lateFailure_def split: if_splits)

text \<open>Either nothing happens to the files, or the complete output takes its place and then, at most,
  the input is removed.\<close>

definition replaced :: "host \<Rightarrow> compressionCodec \<Rightarrow> codecOptions \<Rightarrow> string \<Rightarrow> fileWorld \<Rightarrow> fileOutcome \<Rightarrow> fileWorld \<Rightarrow> string \<Rightarrow> bytes \<Rightarrow> bool" where
  "replaced h codec opts name w r w' outputName out \<longleftrightarrow>
     (\<exists>data. fst (openCodecInput h name w) = Inr data \<and> transformed h codec (co_decompress opts) True name data = Inr out) \<and>
     chooseOutput codec opts name = Inr outputName \<and> (wd_files w outputName = None \<or> co_force opts) \<and>
     (r = Done \<or> lateFailure r) \<and>
     wd_files w' = (if r = Done \<and> name \<noteq> ''-'' \<and> \<not> co_keep opts then (wd_files w)(outputName \<mapsto> out, name := None)
                    else (wd_files w)(outputName \<mapsto> out))"

lemma transformed_early: "transformed h codec d l name data = Inl r \<Longrightarrow> r \<noteq> Done \<and> \<not> lateFailure r"
  by (auto simp: transformed_def liftCodec_def lateFailure_def split: if_splits codec.splits sum.splits)

lemma produceOutput_cases:
  assumes prod: "produceOutput h codec opts name data outputName temporary w2 = (r, w')"
    and opened: "openCodecOutput h outputName (co_force opts) w1 = (Inr temporary, w2)" "wd_files w1 = wd_files w"
    and input: "fst (openCodecInput h name w) = Inr data" "chooseOutput codec opts name = Inr outputName"
  shows "(r \<noteq> Done \<and> \<not> lateFailure r \<and> keepsFiles h w w') \<or> (r = Done \<and> wd_files w' = wd_files w) \<or>
    (\<exists>out. replaced h codec opts name w r w' outputName out)"
proof -
  note temp = openCodecOutput_temp [OF opened(1), unfolded opened(2)]
  have dash: "temporary = None \<longleftrightarrow> outputName = ''-''" "temporary \<noteq> None \<Longrightarrow> wd_files w outputName = None \<or> co_force opts"
    using opened by (auto simp: openCodecOutput_def Let_def split: if_splits)
  show ?thesis
  proof (cases "transformed h codec (co_decompress opts) True name data")
    case (Inl f)
    then have "giveUp h temporary f w2 = (r, w')" using prod by (simp add: produceOutput_def)
    then show ?thesis using giveUp_keeps [OF _ temp] transformed_early [OF Inl] by auto
  next
    case (Inr out)
    obtain fr w3 where fin: "finishOutput h outputName temporary out w2 = (fr, w3)" by fastforce
    note kept = finishOutput_keeps [OF fin temp]
    have rest: "(r, w') = (if fr = Done then (if name \<noteq> ''-'' \<and> outputName \<noteq> ''-'' \<and> \<not> co_keep opts
        then dropInput h name w3 else (Done, w3)) else (fr, w3))"
      using prod Inr fin by (cases fr) (auto simp: produceOutput_def)
    show ?thesis
    proof (cases "fr = Done \<and> temporary \<noteq> None")
      case False
      then show ?thesis using rest kept dash(1) by (auto split: if_splits)
    next
      case True
      then have files: "wd_files w3 = (wd_files w)(outputName \<mapsto> out)" using kept temp by (auto simp: fun_eq_iff)
      have base: "\<exists>data. fst (openCodecInput h name w) = Inr data \<and> transformed h codec (co_decompress opts) True name data = Inr out"
        using input(1) Inr by auto
      have "replaced h codec opts name w r w' outputName out"
      proof (cases "name \<noteq> ''-'' \<and> \<not> co_keep opts")
        case drop: True
        then have "dropInput h name w3 = (r, w')" using rest True dash(1) by simp
        then show ?thesis using drop base input(2) True dash(2) files dropInput_late [of h name w3 r w']
          by (auto simp: replaced_def dropInput_def removeFile_def lateFailure_def split: if_splits)
      next
        case False
        then show ?thesis using rest True base input(2) dash(2) files by (auto simp: replaced_def)
      qed
      then show ?thesis by blast
    qed
  qed
qed

lemma early_errors:
  "openCodecInput h name w = (Inl e, w1) \<Longrightarrow> \<not> lateFailure (Failed e)"
  "chooseOutput codec opts name = Inl e \<Longrightarrow> \<not> lateFailure (Failed e)"
  "openCodecOutput h out force w = (Inl e, w1) \<Longrightarrow> \<not> lateFailure (Failed e) \<and> w1 = w"
  by (auto simp: openCodecInput_def chooseOutput_def codecOutputName_def openCodecOutput_def lateFailure_def Let_def
      split: if_splits option.splits list.splits)

lemma transformCodecFile_cases:
  assumes tr: "transformCodecFile h codec opts name w = (r, w')"
  shows "(r \<noteq> Done \<and> \<not> lateFailure r \<and> keepsFiles h w w') \<or> (r = Done \<and> wd_files w' = wd_files w) \<or>
    (\<exists>outputName out. replaced h codec opts name w r w' outputName out)"
proof -
  obtain ir w1 where input: "openCodecInput h name w = (ir, w1)" by fastforce
  note w1 = openCodecInput_files [OF input]
  have same: "wd_files w' = wd_files w \<Longrightarrow> keepsFiles h w w'" by (simp add: keepsFiles_def)
  have failed: ?thesis if "r = Failed e" "\<not> lateFailure (Failed e)" "wd_files w' = wd_files w" for e
    using that same by auto
  consider (noInput) e where "ir = Inl e" | (test) data where "ir = Inr data" "co_test opts"
    | (noOutput) data e where "ir = Inr data" "\<not> co_test opts" "chooseOutput codec opts name = Inl e"
    | (out) data outputName where "ir = Inr data" "\<not> co_test opts" "chooseOutput codec opts name = Inr outputName"
    by (cases ir; cases "chooseOutput codec opts name") auto
  then show ?thesis
  proof cases
    case noInput
    then show ?thesis using tr input w1 early_errors(1) by (intro failed) (auto simp: transformCodecFile_def)
  next
    case test
    then have "testFile h codec opts name data w1 = (r, w')" using tr input by (simp add: transformCodecFile_def)
    then have "wd_files w' = wd_files w" "\<not> lateFailure r" using w1 transformed_early
      by (auto simp: testFile_def lateFailure_def split: sum.splits if_splits)
    then show ?thesis using same by auto
  next
    case noOutput
    then show ?thesis using tr input w1 early_errors(2) by (intro failed) (auto simp: transformCodecFile_def)
  next
    case out
    obtain t w2 where opened: "openCodecOutput h outputName (co_force opts) w1 = (t, w2)" by fastforce
    show ?thesis
    proof (cases t)
      case (Inl e)
      then show ?thesis using tr input out opened w1 early_errors(3) [OF opened [unfolded Inl]]
        by (intro failed) (auto simp: transformCodecFile_def)
    next
      case (Inr temporary)
      then have "produceOutput h codec opts name data outputName temporary w2 = (r, w')"
        using tr input out opened by (simp add: transformCodecFile_def)
      from produceOutput_cases [OF this opened [unfolded Inr] w1 _ out(3)] input out(1) show ?thesis by auto
    qed
  qed
qed


section \<open>Properties of the commands\<close>

text \<open>C14: when a file cannot be transformed - it cannot be read or decoded, the decoder crashes, the output
  exists, or writing, closing or renaming fails - every file keeps its contents, the output's old
  contents included, and nothing is left behind unless the temporary file cannot be removed.\<close>

theorem failed_transform_keeps_files:
  assumes "transformCodecFile h codec opts name w = (r, w')"
    and "r \<noteq> Done" "r \<noteq> Failed InputNotClosed" "r \<noteq> Failed InputNotRemoved"
  shows "(\<forall>f. wd_files w f \<noteq> None \<longrightarrow> wd_files w' f = wd_files w f) \<and>
    (host_noRemove h = (\<lambda>_. False) \<longrightarrow> wd_files w' = wd_files w)"
  using transformCodecFile_cases [OF assms(1)] assms(2-)
  by (auto simp: lateFailure_def keepsFiles_def replaced_def)

definition exampleHost :: host where
  "exampleHost = \<lparr>host_temp = (\<lambda>name. CHR ''.'' # name), host_cut = (\<lambda>data. [data]), host_noOpen = (\<lambda>_. False),
     host_noRead = (\<lambda>_. False), host_noStat = (\<lambda>_. False), host_noCreate = (\<lambda>_. False), host_noWrite = (\<lambda>_. False),
     host_noClose = (\<lambda>_. False), host_noRename = (\<lambda>_. False), host_noRemove = (\<lambda>_. False)\<rparr>"

definition exampleFiles :: fileWorld where
  "exampleFiles = \<lparr>wd_files = [''a'' \<mapsto> [1, 2, 3], ''a.xz'' \<mapsto> [9]], wd_stdin = [], wd_stdout = []\<rparr>"

theorem failed_transform_keeps_files_witness:
  "wd_files (snd (transformCodecFile exampleHost (xzCodec 0) (noOptions False) ''a'' exampleFiles)) ''a.xz'' = Some [9]"
proof -
  have "transformCodecFile exampleHost (xzCodec 0) (noOptions False) ''a'' exampleFiles = (Failed OutputExists, exampleFiles)"
    by (simp add: transformCodecFile_def openCodecInput_def exampleHost_def exampleFiles_def noOptions_def chooseOutput_def
        openCodecOutput_def xzCodec_def)
  note run = this
  have "wd_files exampleFiles ''a.xz'' = Some [9]" by (simp add: exampleFiles_def)
  then show ?thesis using failed_transform_keeps_files [OF run] by (simp add: run)
qed

text \<open>C20: an input disappears only after its complete transformation is in place under the name of the
  output; the one exception is an output that is the input itself.\<close>

theorem input_gone_only_for_output:
  assumes "transformCodecFile h codec opts name w = (r, w')"
    and "wd_files w name = Some data" "wd_files w' name \<noteq> Some data"
  shows "\<exists>outputName out. chooseOutput codec opts name = Inr outputName \<and>
    transformed h codec (co_decompress opts) True name (if name = ''-'' then wd_stdin w else data) = Inr out \<and>
    (outputName = name \<or> wd_files w' outputName = Some out)"
proof -
  have "\<not> keepsFiles h w w'" "wd_files w' \<noteq> wd_files w" using assms(2,3) by (auto simp: keepsFiles_def split: if_splits)
  then obtain outputName out where re: "replaced h codec opts name w r w' outputName out"
    using transformCodecFile_cases [OF assms(1)] by auto
  moreover have "fst (openCodecInput h name w) = Inr d \<Longrightarrow> d = (if name = ''-'' then wd_stdin w else data)" for d
    using assms(2) by (auto simp: openCodecInput_def split: if_splits)
  ultimately show ?thesis by (intro exI [of _ outputName] exI [of _ out]) (auto simp: replaced_def split: if_splits)
qed

lemma plain_word: "\<not> hasPrefix name ''-'' \<Longrightarrow> name \<noteq> ''-'' \<and> name \<noteq> ''--''"
  by (auto simp: hasPrefix_def)

lemma parse_names:
  assumes "\<not> hasPrefix name ''-''"
  shows "parseCodec True [name] (noOptions d) = Inr ((noOptions d)\<lparr>co_files := [name]\<rparr>)"
    "parseCodec True [''-d'', name] (noOptions True) = Inr ((noOptions True)\<lparr>co_files := [name]\<rparr>)"
    "parseCodec True [''-f'', ''-o'', name, name] (noOptions d) =
       Inr ((noOptions d)\<lparr>co_force := True, co_outFile := name, co_files := [name]\<rparr>)"
  using assms plain_word [OF assms]
  by (simp_all add: parseOption_def hasPrefix_def ignoredFlags_def ignoredSettings_def consumeVal_def Let_def noOptions_def)

lemma transform_without_files:
  "transformCodecFile h codec (opts\<lparr>co_files := xs\<rparr>) name w = transformCodecFile h codec opts name w"
proof -
  have "testFile h codec (opts\<lparr>co_files := xs\<rparr>) = testFile h codec opts"
    "chooseOutput codec (opts\<lparr>co_files := xs\<rparr>) = chooseOutput codec opts"
    "produceOutput h codec (opts\<lparr>co_files := xs\<rparr>) = produceOutput h codec opts"
    by (simp_all add: fun_eq_iff testFile_def chooseOutput_def produceOutput_def split: sum.splits prod.splits fileOutcome.splits)
  then show ?thesis by (simp add: transformCodecFile_def split: sum.splits prod.splits)
qed

lemma cmdCodec_single:
  assumes "parseCodec True args (noOptions d) = Inr (opts\<lparr>co_files := [name]\<rparr>)" "\<not> co_list opts"
    and "transformCodecFile h codec opts name w = (Done, w')"
  shows "cmdCodec h codec args d w = ((0, []), w')"
  using assms by (simp add: cmdCodec_def transform_without_files)

text \<open>C18: compressing a file and decompressing the result restores the file and the directory, for the three
  codecs, as long as the host has no faults, the name is not an option, the compressed name is free and
  the data is within the limit for decompression.  For bzip2, which the program only writes, the reader of the standard
  library is a parameter that must decode what the strict reference reader decodes.\<close>

theorem compress_then_decompress:
  assumes "codec \<in> {xzCodec n, zstdCodec n, bzip2Codec reader}" "codec = bzip2Codec reader \<longrightarrow> readsBzip2 reader" "healthy h"
    and "wd_files w name = Some data" "length data \<le> maxExpandedArchiveBytes" "\<not> hasPrefix name ''-''"
    and "wd_files w (name @ cc_suffix codec) = None"
    and "freshTemp h (name @ cc_suffix codec) w" "freshTemp h name w" "host_temp h name \<noteq> name @ cc_suffix codec"
  shows "\<exists>w'. cmdCodec h codec [name] False w = ((0, []), w') \<and> wd_files w' name = None \<and>
    cmdCodec h codec [''-d'', name @ cc_suffix codec] True w' = ((0, []), w)"
proof -
  let ?packed = "name @ cc_suffix codec"
  have words: "name \<noteq> ''-''" "\<not> hasPrefix ?packed ''-''" "?packed \<noteq> ''-''"
    using assms(1,6) by (cases name; auto simp: hasPrefix_def xzCodec_def zstdCodec_def bzip2Codec_def)+
  have "\<exists>w'. transformCodecFile h codec (noOptions False) name w = (Done, w') \<and> wd_files w' name = None \<and>
      transformCodecFile h codec (noOptions True) ?packed w' = (Done, w)"
  proof (cases "codec = bzip2Codec reader")
    case True
    then show ?thesis
      using named_codec.compressed_and_back [OF bzip2_named, of reader h name w data] assms(2-) words by auto
  next
    case False
    then show ?thesis
      using assms(1) xz.compressed_and_back [of h name n w data] zstd.compressed_and_back [of h name n w data]
        assms(3-) words by auto
  qed
  then obtain w' where w': "transformCodecFile h codec (noOptions False) name w = (Done, w')" "wd_files w' name = None"
      "transformCodecFile h codec (noOptions True) ?packed w' = (Done, w)" by blast
  have "cmdCodec h codec [name] False w = ((0, []), w')"
    using w'(1) by (intro cmdCodec_single [OF parse_names(1) [OF assms(6)]]) (simp_all add: noOptions_def)
  moreover have "cmdCodec h codec [''-d'', ?packed] True w' = ((0, []), w)"
    using w'(3) by (intro cmdCodec_single [OF parse_names(2) [OF words(2)]]) (simp_all add: noOptions_def)
  ultimately show ?thesis using w'(2) by blast
qed

theorem compress_then_decompress_witness:
  "\<exists>w'. cmdCodec exampleHost (bzip2Codec referenceReader) [''a''] False exampleFiles = ((0, []), w') \<and> wd_files w' ''a'' = None \<and>
    cmdCodec exampleHost (bzip2Codec referenceReader) [''-d'', ''a.bz2''] True w' = ((0, []), exampleFiles)"
proof -
  have h: "healthy exampleHost" by (simp add: healthy_def exampleHost_def)
  have r: "readsBzip2 referenceReader" by (simp add: readsBzip2_def referenceReader_def)
  show ?thesis
    using compress_then_decompress [OF _ _ h, of "bzip2Codec referenceReader" 7 referenceReader exampleFiles "''a''" "[1, 2, 3]"] r
    by (simp add: exampleFiles_def exampleHost_def freshTemp_def hasPrefix_def maxExpandedArchiveBytes_def bzip2Codec_def)
qed

text \<open>C21: \<open>xz -f -o x x\<close> reports success and leaves neither the input nor the output: the temporary file takes
  the place of the input, which is then removed as an input.\<close>

theorem forced_output_over_input_loses_both:
  assumes "healthy h" "wd_files w name = Some data" "name \<noteq> []" "\<not> hasPrefix name ''-''" "freshTemp h name w"
    and "length data \<le> maxExpandedArchiveBytes"
  shows "\<exists>w'. cmdXz h n [''-f'', ''-o'', name, name] w = ((0, []), w') \<and> wd_files w' = (wd_files w)(name := None)"
proof -
  obtain out where out: "cc_compress (xzCodec n) (host_cut h data) = Ret out"
    using xz.reads_back [of "host_cut h data" n] assms(1,6) by (auto simp: healthy_def)
  let ?opts = "noOptions False\<lparr>co_force := True, co_outFile := name\<rparr>"
  have "transformCodecFile h (xzCodec n) ?opts name w = (Done, w\<lparr>wd_files := (wd_files w)(name := Some out, name := None)\<rparr>)"
    by (rule transform_file [OF assms(1) _ _ _ assms(2,5)])
      (use assms(1,3) plain_word [OF assms(4)] out in
        \<open>simp_all add: chooseOutput_def noOptions_def transformed_def liftCodec_def healthy_def\<close>)
  then have "cmdXz h n [''-f'', ''-o'', name, name] w = ((0, []), w\<lparr>wd_files := (wd_files w)(name := None)\<rparr>)"
    unfolding cmdXz_def by (intro cmdCodec_single [OF parse_names(3) [OF assms(4)]]) (simp_all add: noOptions_def)
  then show ?thesis by simp
qed

theorem forced_output_over_input_loses_both_witness:
  "\<exists>w'. cmdXz exampleHost 0 [''-f'', ''-o'', ''a'', ''a''] exampleFiles = ((0, []), w') \<and> wd_files w' ''a'' = None"
  using forced_output_over_input_loses_both [of exampleHost exampleFiles "''a''" "[1, 2, 3]" 0]
  by (auto simp: healthy_def exampleFiles_def exampleHost_def freshTemp_def hasPrefix_def maxExpandedArchiveBytes_def)



theorem input_gone_only_for_output_witness:
  "\<exists>outputName out. chooseOutput (xzCodec 0) (noOptions False) ''b'' = Inr outputName \<and>
    transformed exampleHost (xzCodec 0) False True ''b'' [7] = Inr out \<and> outputName = ''b.xz''"
proof -
  let ?w = "exampleFiles\<lparr>wd_files := [''b'' \<mapsto> [7]]\<rparr>"
  have h: "healthy exampleHost" by (simp add: healthy_def exampleHost_def)
  obtain w' where w': "transformCodecFile exampleHost (xzCodec 0) (noOptions False) ''b'' ?w = (Done, w')" "wd_files w' ''b'' = None"
    using xz.compressed_and_back [OF h, of "''b''" 0 ?w "[7]"]
    by (auto simp: exampleHost_def freshTemp_def maxExpandedArchiveBytes_def xzCodec_def)
  show ?thesis using input_gone_only_for_output [OF w'(1), of "[7]"] w'(2)
    by (auto simp: chooseOutput_def noOptions_def xzCodec_def)
qed

end
