(* ===== verification/Archive.thy ===== *)
theory Archive
  imports GoLib
begin

text \<open>
  The paths and the extraction of \<open>tar\<close> in \<open>archive.go\<close>.  A path is the list of its components, a name
  in an archive is the string that stands there.  The file system is a map from physical paths to nodes;
  \<open>resolveFrom\<close> is the resolution of a path by the kernel, which follows symbolic links.  Temporary files are
  not modelled: a member is installed at once.
\<close>

section \<open>Package filepath\<close>

type_synonym path = "string list"

definition parts :: "string \<Rightarrow> string list" where
  "parts name = splitByte CHR ''/'' name"

definition isAbs :: "string \<Rightarrow> bool" where
  "isAbs name \<longleftrightarrow> hasPrefix name ''/''"

text \<open>\<open>Clean\<close> of a relative name; the components so far are in reverse.\<close>

fun cleanLoop :: "path \<Rightarrow> string list \<Rightarrow> path" where
  "cleanLoop out [] = rev out"
| "cleanLoop out (c # cs) =
     (if c = [] \<or> c = ''.'' then cleanLoop out cs
      else if c = ''..'' then
        (if out \<noteq> [] \<and> hd out \<noteq> ''..'' then cleanLoop (tl out) cs else cleanLoop (''..'' # out) cs)
      else cleanLoop (c # out) cs)"

text \<open>\<open>IsLocal\<close> of a cleaned relative path, and \<open>Rel\<close> of two clean absolute paths.\<close>

definition isLocal :: "path \<Rightarrow> bool" where
  "isLocal p \<longleftrightarrow> p = [] \<or> hd p \<noteq> ''..''"

fun relPath :: "path \<Rightarrow> path \<Rightarrow> path" where
  "relPath (b # base) (t # target) = (if b = t then relPath base target else replicate (length (b # base)) ''..'' @ t # target)"
| "relPath base target = replicate (length base) ''..'' @ target"

definition escapes :: "path \<Rightarrow> path \<Rightarrow> bool" where
  "escapes root target \<longleftrightarrow> (case relPath root target of [] \<Rightarrow> False | c # _ \<Rightarrow> c = ''..'')"

section \<open>The file system\<close>

datatype node = Dir nat | File nat | Link string

record files =
  fl_nodes :: "path \<Rightarrow> node option"
  fl_inodes :: "nat \<Rightarrow> string \<times> nat"
  fl_next :: nat

datatype walked = At path | NotThere | Blocked

text \<open>The kernel gives up after this many links.\<close>

definition maxLinks :: nat where
  "maxLinks = 40"

text \<open>\<open>filepath.EvalSymlinks\<close> gives up after this many.\<close>

definition maxEvalLinks :: nat where
  "maxEvalLinks = 255"

function resolveFrom :: "files \<Rightarrow> nat \<Rightarrow> path \<Rightarrow> string list \<Rightarrow> walked" where
  "resolveFrom fs links cur [] = At cur"
| "resolveFrom fs links cur (c # cs) =
     (if c = [] \<or> c = ''.'' then resolveFrom fs links cur cs
      else if c = ''..'' then resolveFrom fs links (butlast cur) cs
      else case fl_nodes fs (cur @ [c]) of
        None \<Rightarrow> NotThere
      | Some (Dir _) \<Rightarrow> resolveFrom fs links (cur @ [c]) cs
      | Some (File _) \<Rightarrow> if cs = [] then At (cur @ [c]) else Blocked
      | Some (Link l) \<Rightarrow>
          if links = 0 then Blocked else resolveFrom fs (links - 1) (if isAbs l then [] else cur) (parts l @ cs))"
  by pat_completeness auto
termination by (relation "inv_image (less_than <*lex*> less_than) (\<lambda>(_, links, _, cs). (links, length cs))") auto

definition follow :: "files \<Rightarrow> path \<Rightarrow> walked" where
  "follow fs p = resolveFrom fs maxLinks [] p"

definition evalSymlinks :: "files \<Rightarrow> path \<Rightarrow> walked" where
  "evalSymlinks fs p = resolveFrom fs maxEvalLinks [] p"

text \<open>Where a path leads without following its last component.\<close>

definition locate :: "files \<Rightarrow> path \<Rightarrow> walked" where
  "locate fs p =
     (if p = [] then At []
      else case follow fs (butlast p) of
        At dir \<Rightarrow> (case fl_nodes fs dir of Some (Dir _) \<Rightarrow> At (dir @ [last p]) | _ \<Rightarrow> Blocked)
      | NotThere \<Rightarrow> NotThere
      | Blocked \<Rightarrow> Blocked)"

datatype stat = Found node | Missing | StatError

definition lstatAt :: "files \<Rightarrow> path \<Rightarrow> stat" where
  "lstatAt fs p =
     (case locate fs p of
        At q \<Rightarrow> (case fl_nodes fs q of None \<Rightarrow> Missing | Some n \<Rightarrow> Found n)
      | NotThere \<Rightarrow> Missing
      | Blocked \<Rightarrow> StatError)"

text \<open>\<open>Mkdir\<close>, and the rename of a new file or link over a path; both fail on a directory.\<close>

definition install :: "bool \<Rightarrow> path \<Rightarrow> node \<Rightarrow> files \<Rightarrow> files option" where
  "install replace p n fs =
     (case locate fs p of
        At q \<Rightarrow>
          (case fl_nodes fs q of
             None \<Rightarrow> Some (fs\<lparr>fl_nodes := (fl_nodes fs)(q \<mapsto> n)\<rparr>)
           | Some (Dir _) \<Rightarrow> None
           | Some _ \<Rightarrow> if replace then Some (fs\<lparr>fl_nodes := (fl_nodes fs)(q \<mapsto> n)\<rparr>) else None)
      | _ \<Rightarrow> None)"

text \<open>\<open>Chmod\<close> follows links.\<close>

definition chmod :: "path \<Rightarrow> nat \<Rightarrow> files \<Rightarrow> files option" where
  "chmod p mode fs =
     (case follow fs p of
        At q \<Rightarrow>
          (case fl_nodes fs q of
             Some (Dir _) \<Rightarrow> Some (fs\<lparr>fl_nodes := (fl_nodes fs)(q \<mapsto> Dir mode)\<rparr>)
           | Some (File i) \<Rightarrow> Some (fs\<lparr>fl_inodes := (fl_inodes fs)(i := (fst (fl_inodes fs i), mode))\<rparr>)
           | _ \<Rightarrow> None)
      | _ \<Rightarrow> None)"

text \<open>\<open>MkdirAll\<close>: what is there must be a directory, what is not there is made under its parent.\<close>

function mkdirAll :: "path \<Rightarrow> nat \<Rightarrow> files \<Rightarrow> files option" where
  "mkdirAll p mode fs =
     (case follow fs p of
        At q \<Rightarrow> (case fl_nodes fs q of Some (Dir _) \<Rightarrow> Some fs | _ \<Rightarrow> None)
      | _ \<Rightarrow>
          if p = [] then None
          else (case mkdirAll (butlast p) mode fs of
            None \<Rightarrow> None
          | Some fs \<Rightarrow> (case install False p (Dir mode) fs of
              Some fs \<Rightarrow> Some fs
            | None \<Rightarrow> (case lstatAt fs p of Found (Dir _) \<Rightarrow> Some fs | _ \<Rightarrow> None))))"
  by pat_completeness auto
termination by (relation "measure (\<lambda>(p, _). length p)") auto

declare mkdirAll.simps [simp del]

section \<open>Where a member goes\<close>

datatype tarFailure =
  BrokenArchive | AbsolutePath | EscapingPath | LinkedParent | ParentNotDirectory | SystemFailure
| AbsoluteLink | EscapingLink | RefusingToReplace | InvalidMode | TooMuchData | NotARegularFile | UnsupportedType

definition safeTarTarget :: "path \<Rightarrow> string \<Rightarrow> tarFailure + path" where
  "safeTarTarget root name =
     (if isAbs name then Inl AbsolutePath
      else
        let cleaned = cleanLoop [] (parts name); target = root @ cleaned
        in if \<not> isLocal cleaned \<or> escapes root target then Inl EscapingPath else Inr target)"

text \<open>The components below the root, one after another; missing directories are made.\<close>

fun ensureParents :: "path \<Rightarrow> string list \<Rightarrow> files \<Rightarrow> tarFailure option \<times> files" where
  "ensureParents cur [] fs = (None, fs)"
| "ensureParents cur (c # cs) fs =
     (let cur = (if c = ''..'' then butlast cur else cur @ [c])
      in case lstatAt fs cur of
           Found (Link _) \<Rightarrow> (Some LinkedParent, fs)
         | Found (File _) \<Rightarrow> (Some ParentNotDirectory, fs)
         | Found (Dir _) \<Rightarrow> ensureParents cur cs fs
         | Missing \<Rightarrow>
             (case install False cur (Dir 448) fs of
                None \<Rightarrow> (Some SystemFailure, fs)
              | Some fs \<Rightarrow> ensureParents cur cs fs)
         | StatError \<Rightarrow> (Some SystemFailure, fs))"

definition ensureTarParents :: "path \<Rightarrow> path \<Rightarrow> files \<Rightarrow> tarFailure option \<times> files" where
  "ensureTarParents root target fs = ensureParents root (relPath root (butlast target)) fs"

section \<open>Symbolic links\<close>

fun resolveArchiveLink :: "files \<Rightarrow> path \<Rightarrow> string list \<Rightarrow> path" where
  "resolveArchiveLink fs cur [] = cur"
| "resolveArchiveLink fs cur (c # cs) =
     (if c = [] \<or> c = ''.'' then resolveArchiveLink fs cur cs
      else if c = ''..'' then resolveArchiveLink fs (butlast cur) cs
      else case evalSymlinks fs (cur @ [c]) of
        At resolved \<Rightarrow> resolveArchiveLink fs resolved cs
      | _ \<Rightarrow> resolveArchiveLink fs (cur @ [c]) cs)"

definition validateTarSymlink :: "path \<Rightarrow> path \<Rightarrow> string \<Rightarrow> string \<Rightarrow> files \<Rightarrow> tarFailure option" where
  "validateTarSymlink root target name link fs =
     (if isAbs link then Some AbsoluteLink
      else
        let resolved = cleanLoop [] (cleanLoop [] (butlast (parts name)) @ parts link)
        in if \<not> isLocal resolved then Some EscapingLink
           else case evalSymlinks fs root of
             At realRoot \<Rightarrow>
               (case evalSymlinks fs (butlast target) of
                  At base \<Rightarrow>
                    if escapes realRoot (resolveArchiveLink fs base (parts link)) then Some EscapingLink else None
                | _ \<Rightarrow> Some SystemFailure)
           | _ \<Rightarrow> Some SystemFailure)"

text \<open>The link is made beside its place, which needs the directory, and moved over it.\<close>

definition extractTarSymlink :: "path \<Rightarrow> string \<Rightarrow> bool \<Rightarrow> files \<Rightarrow> tarFailure option \<times> files" where
  "extractTarSymlink target link keepOld fs =
     (case (if keepOld then lstatAt fs target else Missing) of
        Found _ \<Rightarrow> (Some RefusingToReplace, fs)
      | StatError \<Rightarrow> (Some SystemFailure, fs)
      | Missing \<Rightarrow>
          if link = [] then (Some SystemFailure, fs)
          else (case install True target (Link link) fs of
            None \<Rightarrow> (Some SystemFailure, fs)
          | Some fs \<Rightarrow> (None, fs)))"

section \<open>Regular files\<close>

text \<open>\<open>available\<close> is what the archive still holds of the member.  The new inode is installed by a rename.\<close>

definition extractTarRegular :: "path \<Rightarrow> string \<Rightarrow> nat \<Rightarrow> nat \<Rightarrow> files \<Rightarrow> tarFailure option \<times> files" where
  "extractTarRegular target available wanted mode fs =
     (if length available < wanted then (Some BrokenArchive, fs)
      else
        let i = fl_next fs
        in case install True target (File i) fs of
             None \<Rightarrow> (Some SystemFailure, fs)
           | Some fs \<Rightarrow>
               (None, fs\<lparr>fl_inodes := (fl_inodes fs)(i := (take wanted available, mode)), fl_next := Suc i\<rparr>))"

end
