(* ===== verification/TarRun.thy ===== *)
theory TarRun
  imports Archive
begin

text \<open>
  The command \<open>tar\<close> of \<open>archive.go\<close> as far as it extracts: its options, the selection of members, and
  the loop over the members of an archive.  The archive is what \<open>archive/tar\<close> reads from the decoded
  input: a list of members, and whether it ends properly or with an error.
\<close>

section \<open>Options\<close>

record tarOptions =
  to_operation :: char
  to_archive :: string
  to_directory :: string
  to_compression :: char
  to_verbose :: bool
  to_keepOld :: bool
  to_overwrite :: bool
  to_toStdout :: bool
  to_absolute :: bool
  to_numericOwner :: bool
  to_preserve :: bool
  to_strip :: nat
  to_excludes :: "string list"
  to_files :: "string list"

definition noChoice :: char where
  "noChoice = CHR 0x00"

definition tarDefaults :: tarOptions where
  "tarDefaults =
     \<lparr>to_operation = noChoice, to_archive = ''-'', to_directory = ''.'', to_compression = noChoice,
      to_verbose = False, to_keepOld = False, to_overwrite = False, to_toStdout = False,
      to_absolute = False, to_numericOwner = False, to_preserve = False, to_strip = 0,
      to_excludes = [], to_files = []\<rparr>"

datatype tarUsage =
  MissingArgument string | UnknownOption string | UnknownLetter char | BadStripCount string
| SeveralOperations | NoOperation | EmptyArchive | ListUnreadable string

text \<open>A long option and its value, \<open>rest\<close> the arguments after it: the options, the lists read with \<open>-T\<close>, the
  arguments left.\<close>

type_synonym parsedArgs = "tarOptions \<times> string list \<times> string list"

definition needValue :: "string \<Rightarrow> string option \<Rightarrow> string list \<Rightarrow> (string \<Rightarrow> string list \<Rightarrow> tarUsage + parsedArgs) \<Rightarrow> tarUsage + parsedArgs" where
  "needValue name given rest k =
     (case given of
        Some v \<Rightarrow> k v rest
      | None \<Rightarrow> (case rest of [] \<Rightarrow> Inl (MissingArgument name) | v # rest \<Rightarrow> k v rest))"

definition longOption :: "string \<Rightarrow> tarOptions \<Rightarrow> string list \<Rightarrow> string list \<Rightarrow> tarUsage + parsedArgs" where
  "longOption arg o1 fromFiles rest =
     (let name = (case indexByte arg CHR ''='' of None \<Rightarrow> arg | Some i \<Rightarrow> take i arg);
          given = map_option (\<lambda>i. drop (i + 1) arg) (indexByte arg CHR ''='');
          ok = (\<lambda>o2. Inr (o2, fromFiles, rest))
      in if name = ''--create'' then ok (o1\<lparr>to_operation := CHR ''c''\<rparr>)
         else if name = ''--extract'' \<or> name = ''--get'' then ok (o1\<lparr>to_operation := CHR ''x''\<rparr>)
         else if name = ''--list'' then ok (o1\<lparr>to_operation := CHR ''t''\<rparr>)
         else if name = ''--gzip'' \<or> name = ''--gunzip'' \<or> name = ''--ungzip'' then ok (o1\<lparr>to_compression := CHR ''z''\<rparr>)
         else if name = ''--bzip2'' then ok (o1\<lparr>to_compression := CHR ''j''\<rparr>)
         else if name = ''--xz'' then ok (o1\<lparr>to_compression := CHR ''J''\<rparr>)
         else if name = ''--zstd'' then ok (o1\<lparr>to_compression := CHR ''Z''\<rparr>)
         else if name = ''--verbose'' then ok (o1\<lparr>to_verbose := True\<rparr>)
         else if name = ''--keep-old-files'' then ok (o1\<lparr>to_keepOld := True\<rparr>)
         else if name = ''--overwrite'' then ok (o1\<lparr>to_overwrite := True, to_keepOld := False\<rparr>)
         else if name = ''--to-stdout'' then ok (o1\<lparr>to_toStdout := True\<rparr>)
         else if name = ''--absolute-names'' then ok (o1\<lparr>to_absolute := True\<rparr>)
         else if name = ''--numeric-owner'' then ok (o1\<lparr>to_numericOwner := True\<rparr>)
         else if name = ''--preserve-permissions'' \<or> name = ''--same-permissions'' then ok (o1\<lparr>to_preserve := True\<rparr>)
         else if name \<in> {''--no-same-owner'', ''--same-owner'', ''--no-same-permissions'', ''--wildcards'', ''--no-wildcards''}
           then ok o1
         else if name = ''--file'' then
           needValue name given rest (\<lambda>v rest. Inr (o1\<lparr>to_archive := v\<rparr>, fromFiles, rest))
         else if name = ''--directory'' then
           needValue name given rest (\<lambda>v rest. Inr (o1\<lparr>to_directory := v\<rparr>, fromFiles, rest))
         else if name = ''--exclude'' then
           needValue name given rest (\<lambda>v rest. Inr (o1\<lparr>to_excludes := to_excludes o1 @ [v]\<rparr>, fromFiles, rest))
         else if name = ''--files-from'' then
           needValue name given rest (\<lambda>v rest. Inr (o1, fromFiles @ [v], rest))
         else if name = ''--strip-components'' then
           needValue name given rest (\<lambda>v rest.
             case parseInt64 v of
               None \<Rightarrow> Inl (BadStripCount v)
             | Some n \<Rightarrow> if n < 0 then Inl (BadStripCount v) else Inr (o1\<lparr>to_strip := nat n\<rparr>, fromFiles, rest))
         else Inl (UnknownOption arg))"

fun shortOptions :: "string \<Rightarrow> tarOptions \<Rightarrow> string list \<Rightarrow> string list \<Rightarrow> tarUsage + parsedArgs" where
  "shortOptions [] o1 fromFiles rest = Inr (o1, fromFiles, rest)"
| "shortOptions (c # cs) o1 fromFiles rest =
     (if c \<in> {CHR ''c'', CHR ''x'', CHR ''t''} then
        (if to_operation o1 \<noteq> noChoice \<and> to_operation o1 \<noteq> c then Inl SeveralOperations
         else shortOptions cs (o1\<lparr>to_operation := c\<rparr>) fromFiles rest)
      else if c \<in> {CHR ''z'', CHR ''j'', CHR ''J''} then shortOptions cs (o1\<lparr>to_compression := c\<rparr>) fromFiles rest
      else if c = CHR ''v'' then shortOptions cs (o1\<lparr>to_verbose := True\<rparr>) fromFiles rest
      else if c = CHR ''k'' then shortOptions cs (o1\<lparr>to_keepOld := True\<rparr>) fromFiles rest
      else if c = CHR ''O'' then shortOptions cs (o1\<lparr>to_toStdout := True\<rparr>) fromFiles rest
      else if c = CHR ''P'' then shortOptions cs (o1\<lparr>to_absolute := True\<rparr>) fromFiles rest
      else if c = CHR ''p'' then shortOptions cs (o1\<lparr>to_preserve := True\<rparr>) fromFiles rest
      else if c \<in> {CHR ''f'', CHR ''C'', CHR ''T''} then
        needValue [CHR ''-'', c] (if cs = [] then None else Some cs) rest (\<lambda>v rest.
          Inr (if c = CHR ''f'' then (o1\<lparr>to_archive := v\<rparr>, fromFiles, rest)
               else if c = CHR ''C'' then (o1\<lparr>to_directory := v\<rparr>, fromFiles, rest)
               else (o1, fromFiles @ [v], rest)))
      else Inl (UnknownLetter c))"

text \<open>The loop over the arguments; each round uses up one at least, so their number is enough fuel.\<close>

fun tarArguments :: "nat \<Rightarrow> string list \<Rightarrow> tarOptions \<Rightarrow> string list \<Rightarrow> tarUsage + tarOptions \<times> string list" where
  "tarArguments 0 args o1 fromFiles = Inr (o1, fromFiles)"
| "tarArguments (Suc n) [] o1 fromFiles = Inr (o1, fromFiles)"
| "tarArguments (Suc n) (arg # rest) o1 fromFiles =
     (if arg = ''--'' then Inr (o1\<lparr>to_files := to_files o1 @ rest\<rparr>, fromFiles)
      else if hasPrefix arg ''--'' then
        (case longOption arg o1 fromFiles rest of
           Inl e \<Rightarrow> Inl e | Inr (o2, lists2, rest2) \<Rightarrow> tarArguments n rest2 o2 lists2)
      else if 1 < length arg \<and> hd arg = CHR ''-'' then
        (case shortOptions (tl arg) o1 fromFiles rest of
           Inl e \<Rightarrow> Inl e | Inr (o2, lists2, rest2) \<Rightarrow> tarArguments n rest2 o2 lists2)
      else tarArguments n rest (o1\<lparr>to_files := to_files o1 @ [arg]\<rparr>) fromFiles)"

definition trimRightByte :: "char \<Rightarrow> string \<Rightarrow> string" where
  "trimRightByte c s = rev (dropWhile (\<lambda>x. x = c) (rev s))"

definition readTarFileList :: "string \<Rightarrow> string list" where
  "readTarFileList content = [line \<leftarrow> map (trimRightByte (CHR 0x0D)) (splitByte (CHR 0x0A) content). line \<noteq> []]"

text \<open>\<open>readInput\<close> is what the input files hold.\<close>

fun readTarLists :: "(string \<Rightarrow> string option) \<Rightarrow> string list \<Rightarrow> tarOptions \<Rightarrow> tarUsage + tarOptions" where
  "readTarLists readInput [] o1 = Inr o1"
| "readTarLists readInput (l # fromFiles) o1 =
     (case readInput l of
        None \<Rightarrow> Inl (ListUnreadable l)
      | Some content \<Rightarrow> readTarLists readInput fromFiles (o1\<lparr>to_files := to_files o1 @ readTarFileList content\<rparr>))"

definition parseTarOptions :: "(string \<Rightarrow> string option) \<Rightarrow> string list \<Rightarrow> tarUsage + tarOptions" where
  "parseTarOptions readInput args =
     (let args2 = (case args of
            first # rest \<Rightarrow>
              if first \<noteq> [] \<and> hd first \<noteq> CHR ''-'' \<and> (\<forall>c \<in> set first. c \<in> set ''ctxzjJvfkCOpP'')
              then (CHR ''-'' # first) # rest else args
          | [] \<Rightarrow> [])
      in case tarArguments (length args2) args2 tarDefaults [] of
           Inl e \<Rightarrow> Inl e
         | Inr (o1, fromFiles) \<Rightarrow>
             (case readTarLists readInput fromFiles o1 of
                Inl e \<Rightarrow> Inl e
              | Inr o2 \<Rightarrow>
                  if to_operation o2 = noChoice then Inl NoOperation
                  else if to_operation o2 = CHR ''c'' \<and> to_files o2 = [] then Inl EmptyArchive
                  else Inr o2))"

section \<open>Which members\<close>

definition trimSuffix :: "string \<Rightarrow> string \<Rightarrow> string" where
  "trimSuffix s t = (if hasSuffix s t then take (length s - length t) s else s)"

text \<open>Whether the members of a bracket, ranges included, have the byte.\<close>

fun bracketHas :: "string \<Rightarrow> char \<Rightarrow> bool" where
  "bracketHas (a # b # c # rest) x =
     (if b = CHR ''-'' then (ord a \<le> ord x \<and> ord x \<le> ord c) \<or> bracketHas rest x
      else a = x \<or> bracketHas (b # c # rest) x)"
| "bracketHas (a # rest) x = (a = x \<or> bracketHas rest x)"
| "bracketHas [] x = False"

function tarMatch :: "string \<Rightarrow> string \<Rightarrow> bool" where
  "tarMatch [] s = (s = [])"
| "tarMatch (c # p) s =
     (if c = CHR ''*'' then list_ex (\<lambda>i. tarMatch p (drop i s)) [0..<length s + 1]
      else if c = CHR ''?'' then s \<noteq> [] \<and> tarMatch p (tl s)
      else if c = CHR ''['' then
        s \<noteq> [] \<and>
        (case indexByte p (CHR '']'') of
           None \<Rightarrow> hd s = CHR ''['' \<and> tarMatch p (tl s)
         | Some e \<Rightarrow>
             let negate = hasPrefix (take e p) ''!'' \<or> hasPrefix (take e p) ''^'';
                 members = (if negate then tl (take e p) else take e p)
             in bracketHas members (hd s) \<noteq> negate \<and> tarMatch (drop (e + 1) p) (tl s))
      else if c = CHR 0x5C then
        p \<noteq> [] \<and> s \<noteq> [] \<and> hd p = hd s \<and> tarMatch (tl p) (tl s)
      else s \<noteq> [] \<and> c = hd s \<and> tarMatch p (tl s))"
  by pat_completeness auto
termination by (relation "measure (\<lambda>(p, _). length p)") auto

definition tarPatternMatch :: "string \<Rightarrow> string \<Rightarrow> bool" where
  "tarPatternMatch pattern name \<longleftrightarrow> pattern \<noteq> [] \<and> tarMatch pattern name"

definition excluded :: "tarOptions \<Rightarrow> string \<Rightarrow> bool" where
  "excluded o1 name = list_ex (\<lambda>pattern. tarPatternMatch pattern (trimSuffix name ''/'')) (to_excludes o1)"

text \<open>The operand that asks for a member, which is then marked as matched.\<close>

fun selectsLoop :: "string list \<Rightarrow> string \<Rightarrow> string list \<Rightarrow> bool \<times> string list" where
  "selectsLoop [] clean matched = (False, matched)"
| "selectsLoop (want # wants) clean matched =
     (let wanted = trimSuffix want ''/''
      in if clean = wanted \<or> hasPrefix clean (wanted @ ''/'') then (True, List.insert want matched)
         else selectsLoop wants clean matched)"

definition selects :: "tarOptions \<Rightarrow> string \<Rightarrow> string list \<Rightarrow> bool \<times> string list" where
  "selects o1 name matched =
     (if to_files o1 = [] then (True, matched) else selectsLoop (to_files o1) (trimSuffix name ''/'') matched)"

definition trimByte :: "char \<Rightarrow> string \<Rightarrow> string" where
  "trimByte c s = trimRightByte c (dropWhile (\<lambda>x. x = c) s)"

definition tarStripComponents :: "string \<Rightarrow> nat \<Rightarrow> string" where
  "tarStripComponents name n =
     (if n = 0 then name
      else let ps = parts (trimByte (CHR ''/'') name)
           in if length ps \<le> n then []
              else joinStrings (drop n ps) ''/'' @ (if hasSuffix name ''/'' then ''/'' else []))"

section \<open>Members\<close>

datatype memberKind = DirMember | RegularMember | SymlinkMember | HardLinkMember | OtherMember

record member =
  mb_name :: string
  mb_kind :: memberKind
  mb_link :: string
  mb_size :: int
  mb_mode :: int
  mb_data :: string

text \<open>
  \<open>mb_data\<close> is what the archive holds of the member's contents, which is less than \<open>mb_size\<close> bytes
  when it is cut off.  A mode is the number in the header; the conversion to the mode of package
  \<open>os\<close> and back keeps its twelve bits (\<open>mode_roundtrip\<close>).
\<close>

record tarState =
  ts_files :: files
  ts_directories :: "(path \<times> nat) list"
  ts_extracted :: int
  ts_status :: int
  ts_matched :: "string list"
  ts_stdout :: string

definition maxTarBytes :: int where
  "maxTarBytes = 64 * 2 ^ 30"

definition withFiles :: "tarState \<Rightarrow> tarFailure option \<times> files \<Rightarrow> tarFailure option \<times> tarState" where
  "withFiles st r = (fst r, st\<lparr>ts_files := snd r\<rparr>)"

text \<open>The parents first, then the rest unless they fail.\<close>

definition afterParents ::
  "path \<Rightarrow> path \<Rightarrow> tarState \<Rightarrow> (tarState \<Rightarrow> tarFailure option \<times> tarState) \<Rightarrow> tarFailure option \<times> tarState" where
  "afterParents root target st k =
     (case ensureTarParents root target (ts_files st) of
        (Some e, fs) \<Rightarrow> (Some e, st\<lparr>ts_files := fs\<rparr>)
      | (None, fs) \<Rightarrow> k (st\<lparr>ts_files := fs\<rparr>))"

definition extractDirectory :: "path \<Rightarrow> path \<Rightarrow> nat \<Rightarrow> tarState \<Rightarrow> tarFailure option \<times> tarState" where
  "extractDirectory root target mode st =
     afterParents root target st (\<lambda>st.
       let make =
         (case mkdirAll target 448 (ts_files st) of
            None \<Rightarrow> (Some SystemFailure, st)
          | Some fs \<Rightarrow> (None, st\<lparr>ts_files := fs, ts_directories := ts_directories st @ [(target, mode)]\<rparr>))
       in case lstatAt (ts_files st) target of
            Found (Dir _) \<Rightarrow> make
          | Found _ \<Rightarrow> (Some RefusingToReplace, st)
          | Missing \<Rightarrow> make
          | StatError \<Rightarrow> (Some SystemFailure, st))"

definition extractRegular :: "tarOptions \<Rightarrow> path \<Rightarrow> path \<Rightarrow> member \<Rightarrow> tarState \<Rightarrow> tarFailure option \<times> tarState" where
  "extractRegular o1 root target m st =
     (if mb_size m < 0 \<or> maxTarBytes - ts_extracted st < mb_size m then (Some TooMuchData, st)
      else
        afterParents root target (st\<lparr>ts_extracted := ts_extracted st + mb_size m\<rparr>) (\<lambda>st.
          let extract = withFiles st (extractTarRegular target (mb_data m) (nat (mb_size m)) (nat (mb_mode m)) (ts_files st))
          in case lstatAt (ts_files st) target of
               Found n \<Rightarrow>
                 if to_keepOld o1 then (None, st\<lparr>ts_status := 2\<rparr>)
                 else (case n of File _ \<Rightarrow> extract | _ \<Rightarrow> (Some RefusingToReplace, st))
             | Missing \<Rightarrow> extract
             | StatError \<Rightarrow> (Some SystemFailure, st)))"

definition extractSymlink :: "tarOptions \<Rightarrow> path \<Rightarrow> path \<Rightarrow> string \<Rightarrow> member \<Rightarrow> tarState \<Rightarrow> tarFailure option \<times> tarState" where
  "extractSymlink o1 root target name m st =
     afterParents root target st (\<lambda>st.
       case validateTarSymlink root target name (mb_link m) (ts_files st) of
         Some e \<Rightarrow> (Some e, st)
       | None \<Rightarrow>
           (case withFiles st (extractTarSymlink target (mb_link m) (to_keepOld o1) (ts_files st)) of
              (Some e, st) \<Rightarrow>
                if to_keepOld o1 \<and> e = RefusingToReplace then (None, st\<lparr>ts_status := 2\<rparr>) else (Some e, st)
            | (None, st) \<Rightarrow> (None, st)))"

definition extractHardLink :: "path \<Rightarrow> path \<Rightarrow> member \<Rightarrow> tarState \<Rightarrow> tarFailure option \<times> tarState" where
  "extractHardLink root target m st =
     (case safeTarTarget root (mb_link m) of
        Inl e \<Rightarrow> (Some e, st)
      | Inr linkTarget \<Rightarrow>
          afterParents root target st (\<lambda>st.
            case lstatAt (ts_files st) linkTarget of
              Found (File i) \<Rightarrow>
                (case install False target (File i) (ts_files st) of
                   None \<Rightarrow> (Some SystemFailure, st)
                 | Some fs \<Rightarrow> (None, st\<lparr>ts_files := fs\<rparr>))
            | _ \<Rightarrow> (Some NotARegularFile, st)))"

definition extractMember :: "tarOptions \<Rightarrow> path \<Rightarrow> string \<Rightarrow> member \<Rightarrow> tarState \<Rightarrow> tarFailure option \<times> tarState" where
  "extractMember o1 root name m st =
     (case safeTarTarget root name of
        Inl e \<Rightarrow> (Some e, st)
      | Inr target \<Rightarrow>
          let st = (if to_verbose o1 then st\<lparr>ts_stdout := ts_stdout st @ mb_name m @ [CHR 0x0A]\<rparr> else st)
          in if mb_mode m < 0 \<or> 4095 < mb_mode m then (Some InvalidMode, st)
             else (case mb_kind m of
               DirMember \<Rightarrow> extractDirectory root target (nat (mb_mode m)) st
             | RegularMember \<Rightarrow> extractRegular o1 root target m st
             | SymlinkMember \<Rightarrow> extractSymlink o1 root target name m st
             | HardLinkMember \<Rightarrow> extractHardLink root target m st
             | OtherMember \<Rightarrow> (Some UnsupportedType, st)))"

text \<open>\<open>-O\<close> copies a member to the output, as much as there is of it.\<close>

definition memberToStdout :: "member \<Rightarrow> tarState \<Rightarrow> tarFailure option \<times> tarState" where
  "memberToStdout m st =
     (if mb_kind m = RegularMember then
        (if int (length (mb_data m)) < mb_size m then Some BrokenArchive else None,
         st\<lparr>ts_stdout := ts_stdout st @ take (nat (mb_size m)) (mb_data m)\<rparr>)
      else (None, st))"

definition tarMember :: "tarOptions \<Rightarrow> path \<Rightarrow> member \<Rightarrow> tarState \<Rightarrow> tarFailure option \<times> tarState" where
  "tarMember o1 root m st =
     (let chosen = selects o1 (mb_name m) (ts_matched st);
          st = st\<lparr>ts_matched := snd chosen\<rparr>;
          name = tarStripComponents (mb_name m) (to_strip o1)
      in if \<not> fst chosen \<or> excluded o1 (mb_name m) then (None, st)
         else if name = [] then (None, st)
         else if to_toStdout o1 then memberToStdout m st
         else extractMember o1 root name m st)"

section \<open>The loop\<close>

fun setModes :: "(path \<times> nat) list \<Rightarrow> files \<Rightarrow> tarFailure option \<times> files" where
  "setModes [] fs = (None, fs)"
| "setModes ((p, mode) # ds) fs =
     (case chmod p mode fs of None \<Rightarrow> (Some SystemFailure, fs) | Some fs \<Rightarrow> setModes ds fs)"

fun extractLoop :: "tarOptions \<Rightarrow> path \<Rightarrow> member list \<Rightarrow> bool \<Rightarrow> tarState \<Rightarrow> tarFailure option \<times> tarState" where
  "extractLoop o1 root [] intact st =
     (if intact then withFiles st (setModes (rev (ts_directories st)) (ts_files st))
      else (Some BrokenArchive, st))"
| "extractLoop o1 root (m # ms) intact st =
     (case tarMember o1 root m st of
        (Some e, st) \<Rightarrow> (Some e, st)
      | (None, st) \<Rightarrow> extractLoop o1 root ms intact st)"

definition tarStart :: "files \<Rightarrow> tarState" where
  "tarStart fs =
     \<lparr>ts_files = fs, ts_directories = [], ts_extracted = 0, ts_status = 0, ts_matched = [], ts_stdout = []\<rparr>"

text \<open>\<open>root\<close> is the absolute form of the directory of \<open>-C\<close>.\<close>

definition extractTar :: "tarOptions \<Rightarrow> path \<Rightarrow> member list \<Rightarrow> bool \<Rightarrow> files \<Rightarrow> tarFailure option \<times> tarState" where
  "extractTar o1 root ms intact fs =
     (case mkdirAll root 493 fs of
        None \<Rightarrow> (Some SystemFailure, tarStart fs)
      | Some fs \<Rightarrow> extractLoop o1 root ms intact (tarStart fs))"

text \<open>The exit status of \<open>tar -x\<close>.\<close>

definition tarExtractStatus :: "tarOptions \<Rightarrow> tarFailure option \<times> tarState \<Rightarrow> int" where
  "tarExtractStatus o1 r =
     (if fst r \<noteq> None then 1
      else if \<exists>want \<in> set (to_files o1). want \<notin> set (ts_matched (snd r)) then 2
      else ts_status (snd r))"

end
