(* ===== verification/TarSafe.thy ===== *)
theory TarSafe
  imports TarRun
begin

text \<open>
  What an extraction may touch.  \<open>plainDir\<close> paths lead through directories only; below such a root the
  guards of \<open>extractTar\<close> let a member change nothing outside, which \<open>stays\<close> says of two file systems.
\<close>

section \<open>Paths without links\<close>

definition cleanPath :: "path \<Rightarrow> bool" where
  "cleanPath p \<longleftrightarrow> (\<forall>c \<in> set p. c \<noteq> [] \<and> c \<noteq> ''.'' \<and> c \<noteq> ''..'')"

definition plainDir :: "files \<Rightarrow> path \<Rightarrow> bool" where
  "plainDir fs p \<longleftrightarrow> (\<forall>n \<le> length p. \<exists>m. fl_nodes fs (take n p) = Some (Dir m))"

lemma cleanPath_simps [simp]:
  "cleanPath []"
  "cleanPath (c # p) \<longleftrightarrow> c \<noteq> [] \<and> c \<noteq> ''.'' \<and> c \<noteq> ''..'' \<and> cleanPath p"
  "cleanPath (p @ q) \<longleftrightarrow> cleanPath p \<and> cleanPath q"
  "cleanPath (rev p) = cleanPath p"
  by (auto simp: cleanPath_def)

lemma cleanPath_butlast: "cleanPath p \<Longrightarrow> cleanPath (butlast p)"
  by (auto simp: cleanPath_def dest: in_set_butlastD)

lemma plainDir_Nil: "plainDir fs [] \<longleftrightarrow> (\<exists>m. fl_nodes fs [] = Some (Dir m))"
  by (simp add: plainDir_def)

lemma plainDir_snoc:
  "plainDir fs (p @ [c]) \<longleftrightarrow> plainDir fs p \<and> (\<exists>m. fl_nodes fs (p @ [c]) = Some (Dir m))"
  by (auto simp: plainDir_def le_Suc_eq)

lemma plainDir_append: "plainDir fs (p @ q) \<Longrightarrow> plainDir fs p"
  by (induction q rule: rev_induct) (simp_all add: plainDir_snoc flip: append_assoc)

lemma plainDir_node: "plainDir fs p \<Longrightarrow> \<exists>m. fl_nodes fs p = Some (Dir m)"
  unfolding plainDir_def by (metis order_refl take_all_iff)

lemma plainDir_butlast: "plainDir fs p \<Longrightarrow> plainDir fs (butlast p)"
  by (cases p rule: rev_cases) (simp_all add: plainDir_snoc)

lemma walk_plain: "plainDir fs (cur @ cs) \<Longrightarrow> cleanPath cs \<Longrightarrow> resolveFrom fs k cur (cs @ rest) = resolveFrom fs k (cur @ cs) rest"
proof (induction cs arbitrary: cur)
  case (Cons c cs)
  have "plainDir fs ((cur @ [c]) @ cs)" using Cons.prems by simp
  moreover from plainDir_append [OF this] obtain m where "fl_nodes fs (cur @ [c]) = Some (Dir m)"
    by (auto simp: plainDir_snoc)
  ultimately show ?case using Cons.IH [of "cur @ [c]"] Cons.prems(2) by simp
qed simp

lemma walk_plain_all: "plainDir fs (cur @ cs) \<Longrightarrow> cleanPath cs \<Longrightarrow> resolveFrom fs k cur cs = At (cur @ cs)"
  using walk_plain [of fs cur cs k "[]"] by simp

lemma follow_plain: "plainDir fs p \<Longrightarrow> cleanPath p \<Longrightarrow> follow fs p = At p"
  by (simp add: follow_def walk_plain_all)

lemma locate_plain: "plainDir fs (butlast p) \<Longrightarrow> cleanPath p \<Longrightarrow> locate fs p = At p"
  using plainDir_node [of fs "butlast p"]
  by (auto simp: locate_def follow_plain cleanPath_butlast)

lemma lstat_plain:
  "plainDir fs (butlast p) \<Longrightarrow> cleanPath p \<Longrightarrow>
     lstatAt fs p = (case fl_nodes fs p of None \<Rightarrow> Missing | Some n \<Rightarrow> Found n)"
  by (simp add: lstatAt_def locate_plain)

lemma install_plain:
  "plainDir fs (butlast p) \<Longrightarrow> cleanPath p \<Longrightarrow>
     install replace p n fs =
       (case fl_nodes fs p of
          None \<Rightarrow> Some (fs\<lparr>fl_nodes := (fl_nodes fs)(p \<mapsto> n)\<rparr>)
        | Some (Dir _) \<Rightarrow> None
        | Some _ \<Rightarrow> if replace then Some (fs\<lparr>fl_nodes := (fl_nodes fs)(p \<mapsto> n)\<rparr>) else None)"
  by (simp add: install_def locate_plain)

lemma follow_missing:
  assumes p: "plainDir fs (butlast p)" "cleanPath p" and none: "fl_nodes fs p = None"
  shows "follow fs p = NotThere"
proof (cases p rule: rev_cases)
  case Nil
  then show ?thesis using p none plainDir_node [of fs "[]"] by simp
next
  case (snoc q c)
  then show ?thesis using p none walk_plain [of fs "[]" q maxLinks "[c]"] by (simp add: follow_def)
qed

lemma mkdirAll_exists: "plainDir fs p \<Longrightarrow> cleanPath p \<Longrightarrow> mkdirAll p mode fs = Some fs"
  using plainDir_node [of fs p] by (subst mkdirAll.simps) (auto simp: follow_plain)

lemma mkdirAll_missing:
  assumes p: "plainDir fs (butlast p)" "cleanPath p" and none: "fl_nodes fs p = None"
  shows "mkdirAll p mode fs = Some (fs\<lparr>fl_nodes := (fl_nodes fs)(p \<mapsto> Dir mode)\<rparr>)"
proof -
  have "p \<noteq> []" using p none plainDir_node [of fs "[]"] by auto
  then show ?thesis
    using p none mkdirAll_exists [OF p(1) cleanPath_butlast [OF p(2)]]
    by (subst mkdirAll.simps) (simp add: follow_missing install_plain)
qed

section \<open>Where a member goes\<close>

definition upThenDown :: "path \<Rightarrow> bool" where
  "upThenDown out \<longleftrightarrow> (\<exists>k xs. out = xs @ replicate k ''..'' \<and> cleanPath xs)"

lemma upThenDown_down: "upThenDown out \<Longrightarrow> c \<noteq> [] \<Longrightarrow> c \<noteq> ''.'' \<Longrightarrow> c \<noteq> ''..'' \<Longrightarrow> upThenDown (c # out)"
  unfolding upThenDown_def by (metis append_Cons cleanPath_simps(2))

lemma upThenDown_tl: "upThenDown out \<Longrightarrow> out \<noteq> [] \<Longrightarrow> hd out \<noteq> ''..'' \<Longrightarrow> upThenDown (tl out)"
  unfolding upThenDown_def
proof (elim exE conjE)
  fix k xs assume a: "out \<noteq> []" "hd out \<noteq> ''..''" "out = xs @ replicate k ''..''" "cleanPath xs"
  then have "xs \<noteq> []" by (cases k) auto
  then show "\<exists>k xs. tl out = xs @ replicate k ''..'' \<and> cleanPath xs"
    using a by (intro exI [of _ k] exI [of _ "tl xs"]) (cases xs; simp)
qed

lemma upThenDown_up: "upThenDown out \<Longrightarrow> out = [] \<or> hd out = ''..'' \<Longrightarrow> upThenDown (''..'' # out)"
  unfolding upThenDown_def
proof (elim exE conjE)
  fix k xs assume a: "out = [] \<or> hd out = ''..''" "out = xs @ replicate k ''..''" "cleanPath xs"
  then have "xs = []" by (cases xs) auto
  then show "\<exists>k xs. ''..'' # out = xs @ replicate k ''..'' \<and> cleanPath xs"
    using a by (intro exI [of _ "Suc k"] exI [of _ "[]"]) simp
qed

lemma cleanLoop_shape: "upThenDown out \<Longrightarrow> upThenDown (rev (cleanLoop out cs))"
  by (induction out cs rule: cleanLoop.induct)
    (auto intro: upThenDown_down upThenDown_tl upThenDown_up)

lemma clean_local: "isLocal (cleanLoop [] cs) \<Longrightarrow> cleanPath (cleanLoop [] cs)"
proof -
  assume l: "isLocal (cleanLoop [] cs)"
  have "upThenDown []" by (simp add: upThenDown_def)
  from cleanLoop_shape [OF this] obtain k xs
    where e: "rev (cleanLoop [] cs) = xs @ replicate k ''..''" and xs: "cleanPath xs"
    unfolding upThenDown_def by blast
  from arg_cong [OF e, of rev] have s: "cleanLoop [] cs = replicate k ''..'' @ rev xs" by simp
  then have "k = 0" using l by (cases k) (auto simp: isLocal_def)
  then show ?thesis using s xs by simp
qed

lemma safeTarTarget_below:
  assumes "safeTarTarget root name = Inr target"
  obtains rel where "target = root @ rel" "cleanPath rel"
  using assms clean_local by (auto simp: safeTarTarget_def Let_def split: if_splits)

lemma relPath_below [simp]: "relPath root (root @ rel) = rel"
  by (induction root) (cases rel; simp)+

lemma relPath_parent: "root \<noteq> [] \<Longrightarrow> relPath root (butlast root) = [''..'']"
  by (induction root) (auto simp: neq_Nil_conv)

section \<open>What stays as it was\<close>

text \<open>Nothing outside the root is touched, old files keep their contents, directories stay directories.\<close>

definition stays :: "path \<Rightarrow> files \<Rightarrow> files \<Rightarrow> bool" where
  "stays root fs fs2 \<longleftrightarrow>
     (\<forall>q. \<not> prefix root q \<longrightarrow> fl_nodes fs2 q = fl_nodes fs q) \<and>
     (\<forall>i < fl_next fs. fl_inodes fs2 i = fl_inodes fs i) \<and> fl_next fs \<le> fl_next fs2 \<and>
     (\<forall>q m. fl_nodes fs q = Some (Dir m) \<longrightarrow> (\<exists>m2. fl_nodes fs2 q = Some (Dir m2)))"

lemma stays_refl [simp]: "stays root fs fs"
  by (simp add: stays_def)

lemma stays_trans: "stays root a b \<Longrightarrow> stays root b c \<Longrightarrow> stays root a c"
  unfolding stays_def by (metis order_trans order_less_le_trans)

lemma stays_plain: "stays root fs fs2 \<Longrightarrow> plainDir fs p \<Longrightarrow> plainDir fs2 p"
  unfolding stays_def plainDir_def by blast

lemma stays_put:
  "prefix root p \<Longrightarrow> \<forall>m. fl_nodes fs p \<noteq> Some (Dir m) \<Longrightarrow>
     stays root fs (fs\<lparr>fl_nodes := (fl_nodes fs)(p \<mapsto> n)\<rparr>)"
  by (auto simp: stays_def)

lemma stays_install:
  assumes "plainDir fs (butlast p)" "cleanPath p" "prefix root p" "install replace p n fs = Some fs2"
  shows "stays root fs fs2 \<and> fl_nodes fs2 p = Some n \<and> fl_next fs2 = fl_next fs \<and> fl_inodes fs2 = fl_inodes fs"
  using assms stays_put [of root p fs n]
  by (auto simp: install_plain split: option.splits node.splits if_splits)

lemma stays_inode: "stays root fs (fs\<lparr>fl_inodes := (fl_inodes fs)(fl_next fs := x), fl_next := Suc (fl_next fs)\<rparr>)"
  by (simp add: stays_def)

lemma ensureParents_below:
  assumes "plainDir fs cur" "cleanPath (cur @ cs)" "prefix root cur" "ensureParents cur cs fs = (e, fs2)"
  shows "stays root fs fs2 \<and> (e = None \<longrightarrow> plainDir fs2 (cur @ cs))"
  using assms
proof (induction cs arbitrary: cur fs)
  case (Cons c cs)
  have at: "lstatAt fs (cur @ [c]) = (case fl_nodes fs (cur @ [c]) of None \<Rightarrow> Missing | Some n \<Rightarrow> Found n)"
    using Cons.prems by (simp add: lstat_plain)
  have px: "prefix root (cur @ [c])" using Cons.prems(3) by auto
  note unfold = Cons.prems(4) [simplified, unfolded Let_def]
  show ?case
  proof (cases "fl_nodes fs (cur @ [c])")
    case None
    define fs1 where "fs1 = fs\<lparr>fl_nodes := (fl_nodes fs)(cur @ [c] \<mapsto> Dir 448)\<rparr>"
    have i: "install False (cur @ [c]) (Dir 448) fs = Some fs1"
      using Cons.prems None by (simp add: install_plain fs1_def)
    have st: "stays root fs fs1" using stays_put [OF px] None by (simp add: fs1_def)
    have "plainDir fs1 (cur @ [c])"
      using stays_plain [OF st Cons.prems(1)] by (simp add: plainDir_snoc fs1_def)
    moreover have "ensureParents (cur @ [c]) cs fs1 = (e, fs2)"
      using Cons.prems(2,4) None at i by simp
    ultimately show ?thesis
      using Cons.IH [of fs1 "cur @ [c]"] Cons.prems(2) px stays_trans [OF st] by auto
  next
    case (Some n)
    show ?thesis
    proof (cases n)
      case (Dir m)
      have "plainDir fs (cur @ [c])" using Cons.prems(1) Some Dir by (simp add: plainDir_snoc)
      moreover have "ensureParents (cur @ [c]) cs fs = (e, fs2)"
        using Cons.prems(2,4) Some Dir at by simp
      ultimately show ?thesis using Cons.IH [of fs "cur @ [c]"] Cons.prems(2) px by auto
    qed (use Cons.prems(2,4) Some at in auto)
  qed
qed simp

lemma ensureTarParents_safe:
  assumes root: "plainDir fs root" "cleanPath root" and rel: "cleanPath rel"
    and r: "ensureTarParents root (root @ rel) fs = (e, fs2)"
  shows "stays root fs fs2 \<and> (e = None \<longrightarrow> plainDir fs2 (butlast (root @ rel)))"
proof (cases "rel = []")
  case False
  then have "butlast (root @ rel) = root @ butlast rel" by (simp add: butlast_append)
  then show ?thesis
    using ensureParents_below [of fs root "butlast rel" root] r root rel
    by (simp add: ensureTarParents_def cleanPath_butlast)
next
  case rel: True
  show ?thesis
  proof (cases "root = []")
    case True
    then show ?thesis using r rel root by (auto simp: ensureTarParents_def)
  next
    case False
    have up: "plainDir fs (butlast root)" by (rule plainDir_butlast [OF root(1)])
    then have "lstatAt fs (butlast root) = Found (Dir (SOME m. fl_nodes fs (butlast root) = Some (Dir m)))"
      using plainDir_node [OF up] root(2) by (auto simp: lstat_plain plainDir_butlast cleanPath_butlast)
    then show ?thesis using r rel up False by (simp add: ensureTarParents_def relPath_parent)
  qed
qed

section \<open>The invariant of the loop\<close>

definition safeState :: "path \<Rightarrow> files \<Rightarrow> tarState \<Rightarrow> bool" where
  "safeState root fs0 st \<longleftrightarrow>
     stays root fs0 (ts_files st) \<and> plainDir (ts_files st) root \<and>
     (\<forall>(p, m) \<in> set (ts_directories st). prefix root p \<and> cleanPath p \<and> plainDir (ts_files st) p)"

lemma safeState_step:
  assumes "safeState root fs0 st" "stays root (ts_files st) fs2"
  shows "safeState root fs0 (st\<lparr>ts_files := fs2\<rparr>)"
proof -
  have "stays root fs0 fs2" using stays_trans assms by (auto simp: safeState_def)
  moreover have "plainDir fs2 root" using stays_plain [OF assms(2)] assms(1) by (simp add: safeState_def)
  ultimately show ?thesis using assms(1) stays_plain [OF assms(2)] by (auto simp: safeState_def)
qed

lemma safeState_simps [simp]:
  "safeState root fs0 (st\<lparr>ts_extracted := n\<rparr>) = safeState root fs0 st"
  "safeState root fs0 (st\<lparr>ts_status := z\<rparr>) = safeState root fs0 st"
  "safeState root fs0 (st\<lparr>ts_matched := ws\<rparr>) = safeState root fs0 st"
  "safeState root fs0 (st\<lparr>ts_stdout := out\<rparr>) = safeState root fs0 st"
  by (simp_all add: safeState_def)

text \<open>What runs after the parents may rely on them, and has to keep to the root in turn.\<close>

lemma afterParents_safe:
  assumes st: "safeState root fs0 st" and root: "cleanPath root" and rel: "cleanPath rel"
    and k: "\<And>st1. safeState root fs0 st1 \<Longrightarrow> plainDir (ts_files st1) (butlast (root @ rel)) \<Longrightarrow>
              safeState root fs0 (snd (k st1))"
  shows "safeState root fs0 (snd (afterParents root (root @ rel) st k))"
proof -
  obtain e fs2 where r: "ensureTarParents root (root @ rel) (ts_files st) = (e, fs2)" by (rule prod.exhaust)
  have "plainDir (ts_files st) root" using st by (simp add: safeState_def)
  from ensureTarParents_safe [OF this root rel r]
  have "stays root (ts_files st) fs2" and up: "e = None \<longrightarrow> plainDir fs2 (butlast (root @ rel))" by auto
  from safeState_step [OF st this(1)] show ?thesis
    using up k [of "st\<lparr>ts_files := fs2\<rparr>"] by (cases e) (simp_all add: afterParents_def r)
qed

lemma extractDirectory_safe:
  assumes st: "safeState root fs0 st" and root: "cleanPath root" and rel: "cleanPath rel"
  shows "safeState root fs0 (snd (extractDirectory root (root @ rel) mode st))"
  unfolding extractDirectory_def
proof (rule afterParents_safe [OF st root rel])
  fix st1 :: tarState let ?t = "root @ rel" let ?fs = "ts_files st1"
  assume s1: "safeState root fs0 st1" and up: "plainDir ?fs (butlast ?t)"
  have t: "cleanPath ?t" "prefix root ?t" using root rel by simp_all
  have add: "safeState root fs0 (st1\<lparr>ts_files := fs2, ts_directories := ts_directories st1 @ [(?t, mode)]\<rparr>)"
    if "stays root ?fs fs2" "\<exists>m. fl_nodes fs2 ?t = Some (Dir m)" for fs2
  proof -
    have "plainDir fs2 ?t"
      using stays_plain [OF that(1) up] that(2)
      by (cases ?t rule: rev_cases) (auto simp: plainDir_snoc plainDir_Nil)
    then show ?thesis using safeState_step [OF s1 that(1)] t by (auto simp: safeState_def)
  qed
  consider (none) "fl_nodes ?fs ?t = None" | (dir) m where "fl_nodes ?fs ?t = Some (Dir m)"
    | (other) n where "fl_nodes ?fs ?t = Some n" "\<forall>m. n \<noteq> Dir m" by blast
  then show "safeState root fs0 (snd (let make = (case mkdirAll ?t 448 ?fs of
            None \<Rightarrow> (Some SystemFailure, st1)
          | Some fs \<Rightarrow> (None, st1\<lparr>ts_files := fs, ts_directories := ts_directories st1 @ [(?t, mode)]\<rparr>))
       in case lstatAt ?fs ?t of
            Found (Dir _) \<Rightarrow> make
          | Found _ \<Rightarrow> (Some RefusingToReplace, st1)
          | Missing \<Rightarrow> make
          | StatError \<Rightarrow> (Some SystemFailure, st1)))"
  proof cases
    case none
    have "stays root ?fs (?fs\<lparr>fl_nodes := (fl_nodes ?fs)(?t \<mapsto> Dir 448)\<rparr>)"
      using none by (intro stays_put t) simp
    from add [OF this] show ?thesis
      using none lstat_plain [OF up t(1)] mkdirAll_missing [OF up t(1) none, of 448]
      by simp
  next
    case dir
    have "plainDir ?fs ?t"
      using up dir by (cases ?t rule: rev_cases) (auto simp: plainDir_snoc plainDir_Nil)
    from mkdirAll_exists [OF this t(1), of 448] show ?thesis
      using dir lstat_plain [OF up t(1)] add [of ?fs] by simp
  next
    case other
    then show ?thesis using lstat_plain [OF up t(1)] s1 by (auto split: node.splits)
  qed
qed

lemma extractTarRegular_stays:
  assumes "plainDir fs (butlast p)" "cleanPath p" "prefix root p"
  shows "stays root fs (snd (extractTarRegular p available wanted mode fs))"
proof (cases "install True p (File (fl_next fs)) fs")
  case (Some fs1)
  from stays_install [OF assms Some] have a: "stays root fs fs1" "fl_next fs1 = fl_next fs" by auto
  have "stays root fs1 (fs1\<lparr>fl_inodes := (fl_inodes fs1)(fl_next fs := x), fl_next := Suc (fl_next fs)\<rparr>)" for x
    using stays_inode [of root fs1 x] a(2) by simp
  from stays_trans [OF a(1) this] show ?thesis by (auto simp: extractTarRegular_def Let_def Some)
qed (simp add: extractTarRegular_def Let_def)

lemma extractTarSymlink_stays:
  assumes "plainDir fs (butlast p)" "cleanPath p" "prefix root p"
  shows "stays root fs (snd (extractTarSymlink p link keepOld fs))"
  using stays_install [OF assms, of True "Link link"]
  by (auto simp: extractTarSymlink_def split: stat.splits option.splits)

lemma extractRegular_safe:
  assumes st: "safeState root fs0 st" and root: "cleanPath root" and rel: "cleanPath rel"
  shows "safeState root fs0 (snd (extractRegular o1 root (root @ rel) m st))"
proof -
  have "safeState root fs0 (snd (withFiles st1 (extractTarRegular (root @ rel) a w d (ts_files st1))))"
    if "safeState root fs0 st1" "plainDir (ts_files st1) (butlast (root @ rel))" for st1 a w d
    using safeState_step [OF that(1) extractTarRegular_stays [OF that(2)]] root rel
    by (simp add: withFiles_def)
  then show ?thesis
    using st by (auto simp: extractRegular_def Let_def
      intro!: afterParents_safe root rel split: stat.splits node.splits)
qed

lemma extractSymlink_safe:
  assumes st: "safeState root fs0 st" and root: "cleanPath root" and rel: "cleanPath rel"
  shows "safeState root fs0 (snd (extractSymlink o1 root (root @ rel) name m st))"
  unfolding extractSymlink_def
proof (rule afterParents_safe [OF st root rel])
  fix st1 :: tarState
  assume s1: "safeState root fs0 st1" and up: "plainDir (ts_files st1) (butlast (root @ rel))"
  let ?r = "extractTarSymlink (root @ rel) (mb_link m) (to_keepOld o1) (ts_files st1)"
  have "safeState root fs0 (st1\<lparr>ts_files := snd ?r\<rparr>)"
    using safeState_step [OF s1 extractTarSymlink_stays [OF up]] root rel by simp
  then show "safeState root fs0 (snd (
       case validateTarSymlink root (root @ rel) name (mb_link m) (ts_files st1) of
         Some e \<Rightarrow> (Some e, st1)
       | None \<Rightarrow>
           (case withFiles st1 ?r of
              (Some e, st) \<Rightarrow>
                if to_keepOld o1 \<and> e = RefusingToReplace then (None, st\<lparr>ts_status := 2\<rparr>) else (Some e, st)
            | (None, st) \<Rightarrow> (None, st))))"
    using s1 by (cases "fst ?r") (auto simp: withFiles_def split: option.splits)
qed

lemma extractHardLink_safe:
  assumes st: "safeState root fs0 st" and root: "cleanPath root" and rel: "cleanPath rel"
  shows "safeState root fs0 (snd (extractHardLink root (root @ rel) m st))"
proof (cases "safeTarTarget root (mb_link m)")
  case (Inr linkTarget)
  show ?thesis
    unfolding extractHardLink_def Inr sum.case
  proof (rule afterParents_safe [OF st root rel])
    fix st1 :: tarState
    assume s1: "safeState root fs0 st1" and up: "plainDir (ts_files st1) (butlast (root @ rel))"
    have "safeState root fs0 (st1\<lparr>ts_files := fs\<rparr>)"
      if "install False (root @ rel) (File i) (ts_files st1) = Some fs" for i fs
      using safeState_step [OF s1] stays_install [OF up _ _ that] root rel by simp
    then show "safeState root fs0 (snd (case lstatAt (ts_files st1) linkTarget of
              Found (File i) \<Rightarrow>
                (case install False (root @ rel) (File i) (ts_files st1) of
                   None \<Rightarrow> (Some SystemFailure, st1)
                 | Some fs \<Rightarrow> (None, st1\<lparr>ts_files := fs\<rparr>))
            | _ \<Rightarrow> (Some NotARegularFile, st1)))"
      using s1 by (auto split: stat.splits node.splits option.splits)
  qed
qed (use st in \<open>simp add: extractHardLink_def\<close>)

lemma extractMember_safe:
  assumes st: "safeState root fs0 st" and root: "cleanPath root"
  shows "safeState root fs0 (snd (extractMember o1 root name m st))"
proof (cases "safeTarTarget root name")
  case (Inr target)
  then obtain rel where t: "target = root @ rel" "cleanPath rel" by (rule safeTarTarget_below)
  show ?thesis
    using st extractDirectory_safe [OF _ root t(2)] extractRegular_safe [OF _ root t(2)]
      extractSymlink_safe [OF _ root t(2)] extractHardLink_safe [OF _ root t(2)]
    by (auto simp: extractMember_def Inr t(1) Let_def split: memberKind.splits)
qed (use st in \<open>simp add: extractMember_def\<close>)

lemma tarMember_safe:
  "safeState root fs0 st \<Longrightarrow> cleanPath root \<Longrightarrow> safeState root fs0 (snd (tarMember o1 root m st))"
  by (auto simp: tarMember_def Let_def memberToStdout_def intro!: extractMember_safe)

lemma chmod_stays:
  assumes "plainDir fs p" "cleanPath p" "prefix root p"
  shows "stays root fs (the (chmod p mode fs)) \<and> chmod p mode fs \<noteq> None"
  using plainDir_node [OF assms(1)] assms by (auto simp: chmod_def follow_plain stays_def)

lemma setModes_stays:
  "\<forall>(p, m) \<in> set ds. prefix root p \<and> cleanPath p \<and> plainDir fs p \<Longrightarrow> stays root fs (snd (setModes ds fs))"
proof (induction ds arbitrary: fs)
  case (Cons d ds)
  obtain p mode where d: "d = (p, mode)" by (rule prod.exhaust)
  obtain fs1 where c: "chmod p mode fs = Some fs1" and s: "stays root fs fs1"
    using chmod_stays [of fs p root mode] Cons.prems d by auto
  have "stays root fs1 (snd (setModes ds fs1))"
    by (rule Cons.IH) (use Cons.prems stays_plain [OF s] in auto)
  then show ?case using stays_trans [OF s] by (simp add: d c)
qed simp

lemma extractLoop_safe:
  "safeState root fs0 st \<Longrightarrow> cleanPath root \<Longrightarrow> stays root fs0 (ts_files (snd (extractLoop o1 root ms intact st)))"
proof (induction ms arbitrary: st)
  case Nil
  have "\<forall>(p, m) \<in> set (rev (ts_directories st)). prefix root p \<and> cleanPath p \<and> plainDir (ts_files st) p"
    using Nil by (auto simp: safeState_def)
  from stays_trans [OF _ setModes_stays [OF this]] Nil show ?case
    by (auto simp: safeState_def withFiles_def)
next
  case (Cons m ms)
  obtain e st1 where r: "tarMember o1 root m st = (e, st1)" by (rule prod.exhaust)
  have s1: "safeState root fs0 st1" using tarMember_safe [OF Cons.prems, of o1 m] r by simp
  show ?case using Cons.IH [OF s1 Cons.prems(2)] s1 by (cases e) (simp_all add: r safeState_def)
qed

lemma extractTar_stays:
  assumes "cleanPath root" "plainDir fs root"
  shows "stays root fs (ts_files (snd (extractTar o1 root ms intact fs)))"
proof -
  have "safeState root fs (tarStart fs)" using assms by (simp add: safeState_def tarStart_def)
  from extractLoop_safe [OF this assms(1)] show ?thesis
    using mkdirAll_exists [OF assms(2,1), of 493] by (simp add: extractTar_def)
qed

end
