(* ===== verification/TarProps.thy ===== *)
theory TarProps
  imports TarSafe
begin

text \<open>
  Invariants of the whole extraction.  The locale \<open>extraction_invariant\<close> lists what a property of the
  file system and of the bytes taken so far has to keep under the five operations an extraction is made
  of; it is interpreted for the shape of the tree and for the bound on the data.
\<close>

section \<open>The interface\<close>

locale extraction_invariant =
  fixes holds_at :: "files \<Rightarrow> int \<Rightarrow> bool"
  assumes put: "holds_at fs z \<Longrightarrow> install replace p n fs = Some fs2 \<Longrightarrow>
      \<forall>i. n = File i \<longrightarrow> (\<exists>q. fl_nodes fs q = Some (File i)) \<Longrightarrow> holds_at fs2 z"
    and new_file: "holds_at fs z \<Longrightarrow> install True p (File (fl_next fs)) fs = Some fs2 \<Longrightarrow>
      z + int (length content) \<le> maxTarBytes \<Longrightarrow>
      holds_at (fs2\<lparr>fl_inodes := (fl_inodes fs2)(fl_next fs := (content, mode)), fl_next := Suc (fl_next fs)\<rparr>)
        (z + int (length content))"
    and taken: "holds_at fs z \<Longrightarrow> 0 \<le> taken_now \<Longrightarrow> z + taken_now \<le> maxTarBytes \<Longrightarrow> holds_at fs (z + taken_now)"
    and mode: "holds_at fs z \<Longrightarrow> chmod p m fs = Some fs2 \<Longrightarrow> holds_at fs2 z"
begin

lemma put_directory: "holds_at fs z \<Longrightarrow> install replace p (Dir m) fs = Some fs2 \<Longrightarrow> holds_at fs2 z"
  by (erule (1) put) simp

lemma mkdirAll_keeps: "holds_at fs z \<Longrightarrow> mkdirAll p m fs = Some fs2 \<Longrightarrow> holds_at fs2 z"
proof (induction p arbitrary: fs2 rule: rev_induct)
  case Nil
  then show ?case by (subst (asm) mkdirAll.simps) (auto split: walked.splits option.splits node.splits)
next
  case (snoc c p)
  have parent: "holds_at fs1 z" if "mkdirAll p m fs = Some fs1" for fs1 using snoc.IH snoc.prems(1) that .
  show ?case
  proof (cases "\<exists>q. follow fs (p @ [c]) = At q")
    case True
    then show ?thesis using snoc.prems
      by (subst (asm) mkdirAll.simps) (auto split: option.splits node.splits)
  next
    case False
    then have "(case mkdirAll p m fs of
            None \<Rightarrow> None
          | Some fs \<Rightarrow> (case install False (p @ [c]) (Dir m) fs of
              Some fs \<Rightarrow> Some fs
            | None \<Rightarrow> (case lstatAt fs (p @ [c]) of Found (Dir _) \<Rightarrow> Some fs | _ \<Rightarrow> None))) = Some fs2"
      using snoc.prems(2) by (subst (asm) mkdirAll.simps) (auto split: walked.splits)
    then show ?thesis
      using parent put_directory by (auto split: option.splits stat.splits node.splits)
  qed
qed

lemma ensureParents_keeps: "holds_at fs z \<Longrightarrow> holds_at (snd (ensureParents cur cs fs)) z"
proof (induction cs arbitrary: cur fs)
  case (Cons c cs)
  define up where "up = (if c = ''..'' then butlast cur else cur @ [c])"
  show ?case
    using Cons put_directory [OF Cons.prems, of False up 448]
    by (simp flip: up_def split: stat.splits node.splits option.splits)
qed simp

lemma setModes_keeps: "holds_at fs z \<Longrightarrow> holds_at (snd (setModes ds fs)) z"
  by (induction ds fs rule: setModes.induct) (auto split: option.splits intro: mode)

definition holds_of :: "tarState \<Rightarrow> bool" where
  "holds_of st \<longleftrightarrow> holds_at (ts_files st) (ts_extracted st)"

lemma afterParents_keeps:
  assumes "holds_of st" "\<And>st1. holds_of st1 \<Longrightarrow> holds_of (snd (k st1))"
  shows "holds_of (snd (afterParents root target st k))"
  using assms ensureParents_keeps [of "ts_files st" "ts_extracted st" root "relPath root (butlast target)"]
  by (auto simp: afterParents_def ensureTarParents_def holds_of_def split: prod.splits option.splits)

lemma extractDirectory_keeps: "holds_of st \<Longrightarrow> holds_of (snd (extractDirectory root target m st))"
  unfolding extractDirectory_def
  by (rule afterParents_keeps, assumption)
    (auto simp: Let_def holds_of_def
      split: stat.splits node.splits option.splits intro: mkdirAll_keeps)

lemma extractTarRegular_keeps:
  assumes "holds_at fs z" "z + int wanted \<le> maxTarBytes"
  shows "holds_at (snd (extractTarRegular p available wanted m fs)) (z + int wanted)"
proof (cases "length available < wanted \<or> install True p (File (fl_next fs)) fs = None")
  case True
  then show ?thesis using taken [OF assms(1) _ assms(2)] by (auto simp: extractTarRegular_def Let_def)
next
  case False
  then show ?thesis
    using new_file [OF assms(1), of p _ "take wanted available" m] assms(2)
    by (auto simp: extractTarRegular_def Let_def min_absorb2)
qed

lemma extractRegular_keeps:
  assumes st: "holds_of st"
  shows "holds_of (snd (extractRegular o1 root target m st))"
proof (cases "mb_size m < 0 \<or> maxTarBytes - ts_extracted st < mb_size m")
  case False
  let ?z = "ts_extracted st"
  obtain e fs where r: "ensureTarParents root target (ts_files st) = (e, fs)" by (rule prod.exhaust)
  have fs: "holds_at fs ?z"
    using ensureParents_keeps st r unfolding holds_of_def ensureTarParents_def by (metis snd_conv)
  have skip: "holds_at fs (?z + mb_size m)" using taken [OF fs, of "mb_size m"] False by simp
  have "holds_at (snd (extractTarRegular target (mb_data m) (nat (mb_size m)) d fs)) (?z + mb_size m)" for d
    using extractTarRegular_keeps [OF fs, of "nat (mb_size m)"] False by simp
  then show ?thesis
    using skip False
    by (cases e)
      (auto simp: extractRegular_def afterParents_def r holds_of_def Let_def withFiles_def
        split: stat.splits node.splits)
qed (use st in \<open>simp add: extractRegular_def\<close>)

lemma extractSymlink_keeps:
  assumes st: "holds_of st"
  shows "holds_of (snd (extractSymlink o1 root target name m st))"
proof -
  have "holds_at (snd (extractTarSymlink target l k fs)) z" if "holds_at fs z" for l k fs z
    using put [OF that, of True target "Link l"] that
    by (auto simp: extractTarSymlink_def split: stat.splits option.splits)
  then show ?thesis
    unfolding extractSymlink_def
    by (intro afterParents_keeps st)
      (auto simp: holds_of_def withFiles_def split: option.splits prod.splits if_splits)
qed

lemma lstat_found: "lstatAt fs p = Found n \<Longrightarrow> \<exists>q. fl_nodes fs q = Some n"
  by (auto simp: lstatAt_def split: walked.splits option.splits)

lemma extractHardLink_keeps:
  assumes st: "holds_of st"
  shows "holds_of (snd (extractHardLink root target m st))"
  unfolding extractHardLink_def
  using st by (auto split: sum.splits intro!: afterParents_keeps)
    (auto simp: holds_of_def split: stat.splits node.splits option.splits
      intro: put dest: lstat_found)

lemma extractMember_keeps:
  assumes st: "holds_of st"
  shows "holds_of (snd (extractMember o1 root name m st))"
proof -
  have "holds_of (st\<lparr>ts_stdout := out\<rparr>)" for out using st by (simp add: holds_of_def)
  then show ?thesis
    using st by (auto simp: extractMember_def Let_def split: sum.splits memberKind.splits
        intro!: extractDirectory_keeps extractRegular_keeps extractSymlink_keeps extractHardLink_keeps)
qed

lemma tarMember_keeps: "holds_of st \<Longrightarrow> holds_of (snd (tarMember o1 root m st))"
  by (auto simp: tarMember_def Let_def memberToStdout_def intro!: extractMember_keeps)
    (auto simp: holds_of_def)

lemma extractLoop_keeps: "holds_of st \<Longrightarrow> holds_of (snd (extractLoop o1 root ms intact st))"
proof (induction ms arbitrary: st)
  case Nil
  then show ?case using setModes_keeps by (auto simp: holds_of_def withFiles_def)
next
  case (Cons m ms)
  obtain e st1 where r: "tarMember o1 root m st = (e, st1)" by (rule prod.exhaust)
  have "holds_of st1" using tarMember_keeps [OF Cons.prems, of o1 root m] r by simp
  then show ?case using Cons.IH by (cases e) (simp_all add: r)
qed

lemma extraction_keeps:
  assumes "holds_at fs 0"
  shows "holds_of (snd (extractTar o1 root ms intact fs))"
  using assms mkdirAll_keeps [OF assms]
  by (auto simp: extractTar_def tarStart_def holds_of_def split: option.splits
      intro!: extractLoop_keeps [unfolded holds_of_def])

end

section \<open>The tree\<close>

text \<open>There is a root directory, everything is in a directory, and a file has an inode.\<close>

definition fileTree :: "files \<Rightarrow> bool" where
  "fileTree fs \<longleftrightarrow>
     (\<exists>m. fl_nodes fs [] = Some (Dir m)) \<and>
     (\<forall>q c. fl_nodes fs (q @ [c]) \<noteq> None \<longrightarrow> (\<exists>m. fl_nodes fs q = Some (Dir m))) \<and>
     (\<forall>q i. fl_nodes fs q = Some (File i) \<longrightarrow> i < fl_next fs)"

lemma fileTree_parent: "fileTree fs \<Longrightarrow> fl_nodes fs (q @ [c]) = Some n \<Longrightarrow> \<exists>m. fl_nodes fs q = Some (Dir m)"
  and fileTree_inode: "fileTree fs \<Longrightarrow> fl_nodes fs q = Some (File i) \<Longrightarrow> i < fl_next fs"
  unfolding fileTree_def by blast+

lemma install_where:
  assumes "install replace p n fs = Some fs2"
  obtains q where "fs2 = fs\<lparr>fl_nodes := (fl_nodes fs)(q \<mapsto> n)\<rparr>" "q = [] \<or> (\<exists>m. fl_nodes fs (butlast q) = Some (Dir m))"
    "\<forall>m. fl_nodes fs q \<noteq> Some (Dir m)"
proof -
  from assms obtain q where at: "locate fs p = At q" and fs2: "fs2 = fs\<lparr>fl_nodes := (fl_nodes fs)(q \<mapsto> n)\<rparr>"
    and free: "\<forall>m. fl_nodes fs q \<noteq> Some (Dir m)"
    by (auto simp: install_def split: walked.splits option.splits node.splits if_splits)
  have "q = [] \<or> (\<exists>m. fl_nodes fs (butlast q) = Some (Dir m))"
    using at by (auto simp: locate_def split: walked.splits option.splits node.splits if_splits)
  then show thesis using that fs2 free by blast
qed

lemma fileTree_put:
  assumes t: "fileTree fs" and q: "q = [] \<or> (\<exists>m. fl_nodes fs (butlast q) = Some (Dir m))"
    and free: "\<forall>m. fl_nodes fs q \<noteq> Some (Dir m)"
    and n: "\<forall>i. n = File i \<longrightarrow> i < z" "fl_next fs \<le> z"
  shows "fileTree (fs\<lparr>fl_nodes := (fl_nodes fs)(q \<mapsto> n), fl_inodes := js, fl_next := z\<rparr>)"
proof -
  have ne: "q \<noteq> []" using t free by (auto simp: fileTree_def)
  have childless: "fl_nodes fs (q @ [c]) = None" for c
    using t free unfolding fileTree_def by blast
  show ?thesis
    unfolding fileTree_def
  proof (intro conjI allI impI)
    show "\<exists>m. fl_nodes (fs\<lparr>fl_nodes := (fl_nodes fs)(q \<mapsto> n), fl_inodes := js, fl_next := z\<rparr>) [] = Some (Dir m)"
      using t ne by (simp add: fileTree_def)
  next
    fix q2 c assume "fl_nodes (fs\<lparr>fl_nodes := (fl_nodes fs)(q \<mapsto> n), fl_inodes := js, fl_next := z\<rparr>) (q2 @ [c]) \<noteq> None"
    then show "\<exists>m. fl_nodes (fs\<lparr>fl_nodes := (fl_nodes fs)(q \<mapsto> n), fl_inodes := js, fl_next := z\<rparr>) q2 = Some (Dir m)"
      using t q ne childless [of c] unfolding fileTree_def
      by (cases "q2 @ [c] = q"; cases "q2 = q") auto
  next
    fix q2 i assume "fl_nodes (fs\<lparr>fl_nodes := (fl_nodes fs)(q \<mapsto> n), fl_inodes := js, fl_next := z\<rparr>) q2 = Some (File i)"
    then have "n = File i \<or> fl_nodes fs q2 = Some (File i)" by (auto split: if_splits)
    then show "i < fl_next (fs\<lparr>fl_nodes := (fl_nodes fs)(q \<mapsto> n), fl_inodes := js, fl_next := z\<rparr>)"
      using n fileTree_inode [OF t, of q2 i] by auto
  qed
qed

lemma fileTree_install:
  assumes "fileTree fs" "install replace p n fs = Some fs2" "\<forall>i. n = File i \<longrightarrow> i < fl_next fs"
  shows "fileTree fs2"
  using assms(2)
proof (rule install_where)
  fix q assume "fs2 = fs\<lparr>fl_nodes := (fl_nodes fs)(q \<mapsto> n)\<rparr>"
    "q = [] \<or> (\<exists>m. fl_nodes fs (butlast q) = Some (Dir m))" "\<forall>m. fl_nodes fs q \<noteq> Some (Dir m)"
  with fileTree_put [OF assms(1) this(2,3) assms(3), of "fl_inodes fs"] show ?thesis by simp
qed

lemma fileTree_new_file:
  assumes "fileTree fs" "install True p (File (fl_next fs)) fs = Some fs2"
  shows "fileTree (fs2\<lparr>fl_inodes := js, fl_next := Suc (fl_next fs)\<rparr>)"
  using assms(2)
proof (rule install_where)
  fix q assume "fs2 = fs\<lparr>fl_nodes := (fl_nodes fs)(q \<mapsto> File (fl_next fs))\<rparr>"
    "q = [] \<or> (\<exists>m. fl_nodes fs (butlast q) = Some (Dir m))" "\<forall>m. fl_nodes fs q \<noteq> Some (Dir m)"
  with fileTree_put [OF assms(1) this(2,3), of "File (fl_next fs)" "Suc (fl_next fs)" js] show ?thesis by simp
qed

lemma chmod_cases:
  assumes "chmod p m fs = Some fs2"
  shows "(\<exists>q k. fl_nodes fs q = Some (Dir k) \<and> fs2 = fs\<lparr>fl_nodes := (fl_nodes fs)(q \<mapsto> Dir m)\<rparr>) \<or>
    (\<exists>i. fs2 = fs\<lparr>fl_inodes := (fl_inodes fs)(i := (fst (fl_inodes fs i), m))\<rparr>)"
  using assms by (auto simp: chmod_def split: walked.splits option.splits node.splits)

lemma fileTree_same_shape:
  assumes "fileTree fs" "\<And>q. fl_nodes fs2 q = fl_nodes fs q \<or> (\<exists>k m. fl_nodes fs q = Some (Dir k) \<and> fl_nodes fs2 q = Some (Dir m))"
    "fl_next fs2 = fl_next fs"
  shows "fileTree fs2"
  using assms unfolding fileTree_def
  by (smt (verit, best) node.distinct(1) option.distinct(1) option.inject)

lemma fileTree_chmod: "fileTree fs \<Longrightarrow> chmod p m fs = Some fs2 \<Longrightarrow> fileTree fs2"
  by (erule fileTree_same_shape) (drule chmod_cases, auto split: if_splits)+

lemma fileTree_put_known:
  assumes "fileTree fs" "install replace p n fs = Some fs2"
    "\<forall>i. n = File i \<longrightarrow> (\<exists>q. fl_nodes fs q = Some (File i))"
  shows "fileTree fs2"
  using fileTree_install [OF assms(1,2)] assms(3) fileTree_inode [OF assms(1)] by blast

interpretation tree: extraction_invariant "\<lambda>fs z. fileTree fs"
  by unfold_locales (blast intro: fileTree_put_known fileTree_new_file fileTree_chmod)+

section \<open>The amount of data\<close>

definition newBytes :: "files \<Rightarrow> files \<Rightarrow> nat" where
  "newBytes fs0 fs = (\<Sum>i \<in> {fl_next fs0..<fl_next fs}. length (fst (fl_inodes fs i)))"

lemma install_inodes: "install replace p n fs = Some fs2 \<Longrightarrow> fl_inodes fs2 = fl_inodes fs \<and> fl_next fs2 = fl_next fs"
  by (erule install_where) simp

lemma newBytes_install: "install replace p n fs = Some fs2 \<Longrightarrow> newBytes fs0 fs2 = newBytes fs0 fs"
  by (drule install_inodes) (simp add: newBytes_def)

lemma newBytes_new_file:
  assumes "install True p n fs = Some fs2" "fl_next fs0 \<le> fl_next fs"
  shows "newBytes fs0 (fs2\<lparr>fl_inodes := (fl_inodes fs2)(fl_next fs := (content, m)), fl_next := Suc (fl_next fs)\<rparr>) =
    newBytes fs0 fs + length content"
  using assms install_inodes [OF assms(1)] by (simp add: newBytes_def atLeastLessThanSuc)

lemma newBytes_chmod: "chmod p m fs = Some fs2 \<Longrightarrow> newBytes fs0 fs2 = newBytes fs0 fs \<and> fl_next fs2 = fl_next fs"
  by (drule chmod_cases) (auto simp: newBytes_def intro!: sum.cong)

definition withinLimit :: "files \<Rightarrow> files \<Rightarrow> int \<Rightarrow> bool" where
  "withinLimit fs0 fs z \<longleftrightarrow>
     int (newBytes fs0 fs) \<le> z \<and> z \<le> maxTarBytes \<and> fl_next fs0 \<le> fl_next fs"

interpretation limit: extraction_invariant "withinLimit fs0" for fs0
  by unfold_locales
    (auto simp: withinLimit_def newBytes_install newBytes_new_file newBytes_chmod dest: install_inodes)

section \<open>Properties of the extraction\<close>

text \<open>A directory to extract into, beside a file that is not to be reached.\<close>

definition extractionDisk :: files where
  "extractionDisk =
     \<lparr>fl_nodes = [[] \<mapsto> Dir 493, [''r''] \<mapsto> Dir 493, [''secret''] \<mapsto> File 0],
      fl_inodes = (\<lambda>i. (''key'', 256)), fl_next = 1\<rparr>"

text \<open>An archive of two symbolic links, each of which stays inside as long as the
  other is not there, and a hard link through them to a name \<open>s\<close> outside.\<close>

definition stagedArchive :: "string \<Rightarrow> member list" where
  "stagedArchive s =
     [\<lparr>mb_name = ''a/l'', mb_kind = SymlinkMember, mb_link = ''d/..'', mb_size = 0, mb_mode = 511, mb_data = []\<rparr>,
      \<lparr>mb_name = ''a/d'', mb_kind = SymlinkMember, mb_link = ''..'', mb_size = 0, mb_mode = 511, mb_data = []\<rparr>,
      \<lparr>mb_name = ''copy'', mb_kind = HardLinkMember, mb_link = ''a/l/'' @ s, mb_size = 0, mb_mode = 420, mb_data = []\<rparr>]"

lemma extractionDisk_plain: "cleanPath [''r'']" "plainDir extractionDisk [''r'']"
  using plainDir_snoc [of extractionDisk "[]" "''r''"]
  by (simp_all add: plainDir_Nil extractionDisk_def)

lemma extractionDisk_tree: "fileTree extractionDisk"
  by (auto simp: fileTree_def extractionDisk_def append_eq_Cons_conv split: if_splits)

text \<open>C2 (safety): whatever an archive holds and whatever options are given, extraction into a directory
  reached without symbolic links changes no name outside that directory, overwrites or truncates no file
  that was there before (also not through a hard or symbolic link), and turns no directory into something
  else, whether it succeeds or stops at an error.\<close>

theorem tar_extraction_stays_inside:
  assumes "cleanPath root" "plainDir fs root"
  shows "let fs2 = ts_files (snd (extractTar o1 root ms intact fs)) in
    (\<forall>q. \<not> prefix root q \<longrightarrow> fl_nodes fs2 q = fl_nodes fs q) \<and>
    (\<forall>i < fl_next fs. fl_inodes fs2 i = fl_inodes fs i) \<and>
    (\<forall>q m. fl_nodes fs q = Some (Dir m) \<longrightarrow> (\<exists>m2. fl_nodes fs2 q = Some (Dir m2)))"
  using extractTar_stays [OF assms, of o1 ms intact] by (simp add: stays_def Let_def)

theorem tar_extraction_stays_inside_witness:
  "let fs2 = ts_files (snd (extractTar tarDefaults [''r''] (stagedArchive ''secret'') True extractionDisk)) in
    (\<forall>q. \<not> prefix [''r''] q \<longrightarrow> fl_nodes fs2 q = fl_nodes extractionDisk q) \<and>
    (\<forall>i < fl_next extractionDisk. fl_inodes fs2 i = fl_inodes extractionDisk i) \<and>
    (\<forall>q m. fl_nodes extractionDisk q = Some (Dir m) \<longrightarrow> (\<exists>m2. fl_nodes fs2 q = Some (Dir m2)))"
  by (rule tar_extraction_stays_inside [OF extractionDisk_plain])

text \<open>
  Extraction keeps the file system a tree, for any directory to extract into, existing or not, and for
  any archive, also one that stops the extraction halfway.\<close>

lemma extraction_keeps_tree:
  assumes "fileTree fs"
  shows "fileTree (ts_files (snd (extractTar o1 root ms intact fs)))"
  using tree.extraction_keeps [OF assms, of o1 root ms intact] unfolding tree.holds_of_def .

text \<open>C5 (bounds): the files one extraction makes hold at most 64 GiB together, whatever sizes the headers of
  the archive claim.\<close>

theorem tar_extraction_bounded:
  "newBytes fs (ts_files (snd (extractTar o1 root ms intact fs))) \<le> 64 * 2 ^ 30"
proof -
  have "withinLimit fs fs 0" by (simp add: withinLimit_def newBytes_def maxTarBytes_def)
  from limit.extraction_keeps [OF this, of o1 root ms intact]
  have "int (newBytes fs (ts_files (snd (extractTar o1 root ms intact fs)))) \<le> maxTarBytes"
    unfolding limit.holds_of_def withinLimit_def by linarith
  then show ?thesis by (simp add: maxTarBytes_def)
qed

end
