(* ===== verification/TarCreate.thy ===== *)
theory TarCreate
  imports TarProps
begin

text \<open>
  The creation of archives in \<open>archive.go\<close>: the checks of \<open>validateTarCreateSources\<close> and the walk over the
  operands.  The result is the list of members handed to \<open>archive/tar\<close>, whose reader gives them back; the
  format itself is that package's.  The order of a directory's entries is the parameter \<open>listing\<close>.
\<close>

section \<open>Paths as they are typed\<close>

text \<open>\<open>Clean\<close> of an absolute path, and \<open>Abs\<close> against the working directory \<open>cwd\<close>.\<close>

fun cleanRooted :: "path \<Rightarrow> string list \<Rightarrow> path" where
  "cleanRooted out [] = rev out"
| "cleanRooted out (c # cs) =
     (if c = [] \<or> c = ''.'' then cleanRooted out cs
      else if c = ''..'' then cleanRooted (tl out) cs
      else cleanRooted (c # out) cs)"

definition absPath :: "path \<Rightarrow> string \<Rightarrow> path" where
  "absPath cwd name = cleanRooted [] (if isAbs name then parts name else cwd @ parts name)"

text \<open>What the kernel makes of an uncleaned absolute path: \<open>Stat\<close>, and \<open>Lstat\<close>, which follows the last
  component too when a slash or a dot comes after it.\<close>

definition statNode :: "files \<Rightarrow> string list \<Rightarrow> stat" where
  "statNode fs ps =
     (case follow fs ps of
        At q \<Rightarrow> (case fl_nodes fs q of None \<Rightarrow> Missing | Some n \<Rightarrow> Found n)
      | NotThere \<Rightarrow> Missing
      | Blocked \<Rightarrow> StatError)"

definition lstatRaw :: "files \<Rightarrow> string list \<Rightarrow> stat" where
  "lstatRaw fs ps = (if ps = [] \<or> last ps \<in> {[], ''.'', ''..''} then statNode fs ps else lstatAt fs ps)"

text \<open>The longest prefix that resolves, with the rest as written; \<open>cp.go\<close>.\<close>

fun resolveProspective :: "files \<Rightarrow> path \<Rightarrow> path \<Rightarrow> path option" where
  "resolveProspective fs [] rest = (case evalSymlinks fs [] of At q \<Rightarrow> Some (cleanRooted [] (q @ rest)) | _ \<Rightarrow> None)"
| "resolveProspective fs (c # cs) rest =
     (case evalSymlinks fs (c # cs) of
        At q \<Rightarrow> Some (cleanRooted [] (q @ rest))
      | _ \<Rightarrow> resolveProspective fs (butlast (c # cs)) (last (c # cs) # rest))"

definition resolveProspectivePath :: "files \<Rightarrow> path \<Rightarrow> string \<Rightarrow> path option" where
  "resolveProspectivePath fs cwd name = resolveProspective fs (absPath cwd name) []"

section \<open>The checks\<close>

definition operandSource :: "path \<Rightarrow> string \<Rightarrow> string list" where
  "operandSource base operand = (if isAbs operand then parts operand else cleanRooted [] (base @ parts operand))"

text \<open>\<open>os.SameFile\<close> of what two paths lead to.\<close>

definition sameFile :: "files \<Rightarrow> string list \<Rightarrow> string list \<Rightarrow> bool" where
  "sameFile fs p q =
     (case (follow fs p, follow fs q) of
        (At a, At b) \<Rightarrow>
          (case (fl_nodes fs a, fl_nodes fs b) of
             (Some (File i), Some (File j)) \<Rightarrow> i = j
           | (Some (Dir _), Some (Dir _)) \<Rightarrow> a = b
           | _ \<Rightarrow> False)
      | _ \<Rightarrow> False)"

datatype createFailure = CreateSystemFailure | OutputIsInput string | OutputInsideInput string | NotReplaceable

definition validateCreateSource ::
  "files \<Rightarrow> path \<Rightarrow> path \<Rightarrow> string \<Rightarrow> path \<Rightarrow> string \<Rightarrow> createFailure option" where
  "validateCreateSource fs cwd base archive archivePath operand =
     (let source = operandSource base operand
      in case lstatRaw fs source of
           Found n \<Rightarrow>
             if sameFile fs source (if isAbs archive then parts archive else cwd @ parts archive)
             then Some (OutputIsInput operand)
             else (case n of
               Dir _ \<Rightarrow>
                 (case evalSymlinks fs source of
                    At resolved \<Rightarrow>
                      if escapes resolved archivePath then None else Some (OutputInsideInput operand)
                  | _ \<Rightarrow> Some CreateSystemFailure)
             | _ \<Rightarrow> if cleanRooted [] source = archivePath then Some (OutputIsInput operand) else None)
         | _ \<Rightarrow> Some CreateSystemFailure)"

fun validateCreateSources ::
  "files \<Rightarrow> path \<Rightarrow> path \<Rightarrow> string \<Rightarrow> path \<Rightarrow> string list \<Rightarrow> createFailure option" where
  "validateCreateSources fs cwd base archive archivePath [] = None"
| "validateCreateSources fs cwd base archive archivePath (operand # operands) =
     (case validateCreateSource fs cwd base archive archivePath operand of
        Some e \<Rightarrow> Some e
      | None \<Rightarrow> validateCreateSources fs cwd base archive archivePath operands)"

definition validateTarCreateSources :: "tarOptions \<Rightarrow> files \<Rightarrow> path \<Rightarrow> path \<Rightarrow> createFailure option" where
  "validateTarCreateSources o1 fs cwd base =
     (if to_archive o1 = ''-'' then None
      else case resolveProspectivePath fs cwd (to_archive o1) of
        None \<Rightarrow> Some CreateSystemFailure
      | Some archivePath \<Rightarrow> validateCreateSources fs cwd base (to_archive o1) archivePath (to_files o1))"

section \<open>The members of a tree\<close>

record created =
  cr_members :: "member list"
  cr_listed :: "string list"

text \<open>The header of a node, as \<open>FileInfoHeader\<close> fills it in; a symbolic link has mode 0777.\<close>

definition headerOf :: "files \<Rightarrow> node \<Rightarrow> string \<Rightarrow> member" where
  "headerOf fs n name =
     (case n of
        Dir m \<Rightarrow>
          \<lparr>mb_name = (if hasSuffix name ''/'' then name else name @ ''/''), mb_kind = DirMember, mb_link = [],
           mb_size = 0, mb_mode = int m, mb_data = []\<rparr>
      | File i \<Rightarrow>
          \<lparr>mb_name = name, mb_kind = RegularMember, mb_link = [], mb_size = int (length (fst (fl_inodes fs i))),
           mb_mode = int (snd (fl_inodes fs i)), mb_data = fst (fl_inodes fs i)\<rparr>
      | Link l \<Rightarrow>
          \<lparr>mb_name = name, mb_kind = SymlinkMember, mb_link = l, mb_size = 0, mb_mode = 511, mb_data = []\<rparr>)"

text \<open>Whether the entry is left out, and what is written otherwise.\<close>

definition addTarEntry :: "tarOptions \<Rightarrow> files \<Rightarrow> node \<Rightarrow> string \<Rightarrow> created \<Rightarrow> bool \<times> created" where
  "addTarEntry o1 fs n name w =
     (let header = headerOf fs n name
      in if excluded o1 (mb_name header) then (True, w)
         else (False, w\<lparr>cr_members := cr_members w @ [header],
                        cr_listed := (if to_verbose o1 then cr_listed w @ [mb_name header] else cr_listed w)\<rparr>))"

text \<open>\<open>maxDepth\<close> levels are more than a path of 4096 bytes, the kernel's limit, can have.\<close>

definition maxDepth :: nat where
  "maxDepth = 4096"

function (sequential) addTarPath :: "nat \<Rightarrow> (path \<Rightarrow> string list option) \<Rightarrow> tarOptions \<Rightarrow> files \<Rightarrow> string list \<Rightarrow> string \<Rightarrow> created \<Rightarrow>
    createFailure option \<times> created"
  and addTarEntries :: "nat \<Rightarrow> (path \<Rightarrow> string list option) \<Rightarrow> tarOptions \<Rightarrow> files \<Rightarrow> string list \<Rightarrow> string \<Rightarrow> string list \<Rightarrow>
    created \<Rightarrow> createFailure option \<times> created" where
  "addTarPath 0 listing o1 fs source name w = (Some CreateSystemFailure, w)"
| "addTarPath (Suc d) listing o1 fs source name w =
     (case lstatRaw fs source of
        Found n \<Rightarrow>
          (case addTarEntry o1 fs n name w of
             (True, w) \<Rightarrow> (None, w)
           | (False, w) \<Rightarrow>
               (case n of
                  Dir _ \<Rightarrow>
                    (case follow fs source of
                       At q \<Rightarrow>
                         (case listing q of
                            None \<Rightarrow> (Some CreateSystemFailure, w)
                          | Some es \<Rightarrow> addTarEntries d listing o1 fs source name es w)
                     | _ \<Rightarrow> (Some CreateSystemFailure, w))
                | _ \<Rightarrow> (None, w)))
      | _ \<Rightarrow> (Some CreateSystemFailure, w))"
| "addTarEntries d listing o1 fs source name [] w = (None, w)"
| "addTarEntries d listing o1 fs source name (e # es) w =
     (case addTarPath d listing o1 fs (cleanRooted [] (source @ [e])) (name @ ''/'' @ e) w of
        (Some err, w) \<Rightarrow> (Some err, w)
      | (None, w) \<Rightarrow> addTarEntries d listing o1 fs source name es w)"
  by pat_completeness auto
termination
  by (relation "inv_image (less_than <*lex*> less_than)
      (\<lambda>x. case x of Inl (d, _) \<Rightarrow> (d, 0) | Inr (d, _, _, _, _, _, es, _) \<Rightarrow> (d, Suc (length es)))") auto

text \<open>The name of an operand in the archive: cleaned, without its leading slashes unless \<open>-P\<close> is given.\<close>

definition pathName :: "string \<Rightarrow> path \<Rightarrow> string" where
  "pathName dot p = (if p = [] then dot else joinStrings p ''/'')"

definition archiveName :: "tarOptions \<Rightarrow> string \<Rightarrow> string" where
  "archiveName o1 operand =
     (if isAbs operand then
        let name = joinStrings (cleanRooted [] (parts operand)) ''/''
        in if to_absolute o1 then CHR ''/'' # name else name
      else pathName ''.'' (cleanLoop [] (parts operand)))"

fun createLoop :: "(path \<Rightarrow> string list option) \<Rightarrow> tarOptions \<Rightarrow> files \<Rightarrow> path \<Rightarrow> string list \<Rightarrow> created \<Rightarrow>
    createFailure option \<times> created" where
  "createLoop listing o1 fs base [] w = (None, w)"
| "createLoop listing o1 fs base (operand # operands) w =
     (case addTarPath maxDepth listing o1 fs (operandSource base operand) (archiveName o1 operand) w of
        (Some e, w) \<Rightarrow> (Some e, w)
      | (None, w) \<Rightarrow> createLoop listing o1 fs base operands w)"

text \<open>The output must be a regular file or not be there.\<close>

definition createArchiveOutput :: "files \<Rightarrow> path \<Rightarrow> string \<Rightarrow> createFailure option" where
  "createArchiveOutput fs cwd name =
     (if name = ''-'' then None
      else case lstatRaw fs (if isAbs name then parts name else cwd @ parts name) of
        Found (File _) \<Rightarrow> None
      | Found _ \<Rightarrow> Some NotReplaceable
      | Missing \<Rightarrow> None
      | StatError \<Rightarrow> Some CreateSystemFailure)"

definition createTar :: "(path \<Rightarrow> string list option) \<Rightarrow> tarOptions \<Rightarrow> files \<Rightarrow> path \<Rightarrow> createFailure option \<times> created" where
  "createTar listing o1 fs cwd =
     (let base = absPath cwd (to_directory o1); nothing = \<lparr>cr_members = [], cr_listed = []\<rparr>
      in case validateTarCreateSources o1 fs cwd base of
           Some e \<Rightarrow> (Some e, nothing)
         | None \<Rightarrow>
             (case createArchiveOutput fs cwd (to_archive o1) of
                Some e \<Rightarrow> (Some e, nothing)
              | None \<Rightarrow> createLoop listing o1 fs base (to_files o1) nothing))"

end
