(* ===== verification/TarRound.thy ===== *)
theory TarRound
  imports TarCreate
begin

text \<open>
  What \<open>tar -c\<close> makes of a directory, \<open>tar -x\<close> turns back into it: the walk visits every node once and
  parents first, and the extraction of such a list rebuilds the nodes under the new root.
\<close>

section \<open>Names\<close>

lemma splitByte_word: "c \<notin> set w \<Longrightarrow> splitByte c w = [w]"
  by (induction w) auto

lemma splitByte_sep: "c \<notin> set w \<Longrightarrow> splitByte c (w @ c # rest) = w # splitByte c rest"
  by (induction w) auto

definition noSlash :: "path \<Rightarrow> bool" where
  "noSlash p \<longleftrightarrow> (\<forall>c \<in> set p. CHR ''/'' \<notin> set c)"

lemma joinStrings_Cons: "p \<noteq> [] \<Longrightarrow> joinStrings (c # p) sep = c @ sep @ joinStrings p sep"
  by (cases p) simp_all

lemma joinStrings_snoc: "p \<noteq> [] \<Longrightarrow> joinStrings (p @ [c]) sep = joinStrings p sep @ sep @ c"
  by (induction p rule: induct_list012) (simp_all add: joinStrings_Cons)

lemma parts_join: "p \<noteq> [] \<Longrightarrow> noSlash p \<Longrightarrow> parts (joinStrings p ''/'') = p"
  unfolding parts_def
proof (induction p)
  case (Cons c p)
  then show ?case by (cases p) (auto simp: noSlash_def splitByte_word splitByte_sep joinStrings_Cons)
qed simp

lemma parts_join_slash: "p \<noteq> [] \<Longrightarrow> noSlash p \<Longrightarrow> parts (joinStrings p ''/'' @ ''/'') = p @ [[]]"
  unfolding parts_def
proof (induction p)
  case (Cons c p)
  then show ?case by (cases p) (auto simp: noSlash_def splitByte_sep joinStrings_Cons)
qed simp

lemma cleanLoop_clean: "cleanPath p \<Longrightarrow> cleanLoop out (p @ rest) = cleanLoop (rev p @ out) rest"
  by (induction p arbitrary: out) simp_all

lemma cleanRooted_clean: "cleanPath p \<Longrightarrow> cleanRooted out p = rev out @ p"
  by (induction p arbitrary: out) simp_all

lemma isAbs_join: "p \<noteq> [] \<Longrightarrow> noSlash p \<Longrightarrow> cleanPath p \<Longrightarrow> \<not> isAbs (joinStrings p ''/'' @ t)"
  by (cases p; cases "hd p"; cases "tl p")
    (auto simp: isAbs_def hasPrefix_def noSlash_def)

lemma hasSuffix_byte: "hasSuffix s [c] \<longleftrightarrow> s \<noteq> [] \<and> last s = c"
  by (cases s rule: rev_cases) (auto simp: hasSuffix_def)

lemma join_last: "c \<noteq> [] \<Longrightarrow> last (joinStrings (q @ [c]) sep) = last c"
  by (cases "q = []") (simp_all add: joinStrings_snoc)

lemma join_no_suffix: "p \<noteq> [] \<Longrightarrow> noSlash p \<Longrightarrow> cleanPath p \<Longrightarrow> \<not> hasSuffix (joinStrings p ''/'') ''/''"
proof (cases p rule: rev_cases)
  case (snoc q c)
  assume p: "noSlash p" "cleanPath p"
  then have c: "c \<noteq> []" "CHR ''/'' \<notin> set c" using snoc by (simp_all add: noSlash_def)
  then have "last c \<noteq> CHR ''/''" using last_in_set by metis
  then show ?thesis using join_last [OF c(1), of q "''/''"] snoc by (simp add: hasSuffix_byte)
qed simp

section \<open>The walk over a tree\<close>

definition nodeAt :: "files \<Rightarrow> path \<Rightarrow> path \<Rightarrow> node option" where
  "nodeAt fs src q = fl_nodes fs (src @ q)"

text \<open>A tree of directories and files with the entries that \<open>listing\<close> gives, of at most \<open>d\<close> levels.\<close>

definition plainTree :: "(path \<Rightarrow> string list option) \<Rightarrow> files \<Rightarrow> path \<Rightarrow> bool" where
  "plainTree listing fs src \<longleftrightarrow>
     plainDir fs src \<and> cleanPath src \<and> fileTree fs \<and>
     (\<forall>q n. nodeAt fs src q = Some n \<longrightarrow>
        cleanPath q \<and> noSlash q \<and> length q < maxDepth \<and>
        (case n of
           Dir m \<Rightarrow> m \<le> 4095 \<and>
             (\<exists>es. listing (src @ q) = Some es \<and> distinct es \<and> set es = {c. nodeAt fs src (q @ [c]) \<noteq> None})
         | File i \<Rightarrow> snd (fl_inodes fs i) \<le> 4095
         | Link _ \<Rightarrow> False))"

fun treePaths :: "nat \<Rightarrow> (path \<Rightarrow> string list option) \<Rightarrow> files \<Rightarrow> path \<Rightarrow> path \<Rightarrow> path list" where
  "treePaths 0 listing fs src q = []"
| "treePaths (Suc d) listing fs src q =
     q # (case nodeAt fs src q of
            Some (Dir _) \<Rightarrow>
              (case listing (src @ q) of
                 Some es \<Rightarrow> concat (map (\<lambda>e. treePaths d listing fs src (q @ [e])) es)
               | None \<Rightarrow> [])
          | _ \<Rightarrow> [])"

definition memberAt :: "files \<Rightarrow> path \<Rightarrow> string \<Rightarrow> path \<Rightarrow> member" where
  "memberAt fs src name q = headerOf fs (the (nodeAt fs src q)) (joinStrings (name # q) ''/'')"

lemma plainTreeD:
  assumes "plainTree listing fs src"
  shows "plainDir fs src" "cleanPath src" "fileTree fs"
    "nodeAt fs src q = Some n \<Longrightarrow> cleanPath q"
    "nodeAt fs src q = Some n \<Longrightarrow> noSlash q"
    "nodeAt fs src q = Some n \<Longrightarrow> length q < maxDepth"
    "nodeAt fs src q = Some (Dir m) \<Longrightarrow> m \<le> 4095"
    "nodeAt fs src q = Some (File i) \<Longrightarrow> snd (fl_inodes fs i) \<le> 4095"
    "nodeAt fs src q \<noteq> Some (Link l)"
    "nodeAt fs src q = Some (Dir m) \<Longrightarrow>
       \<exists>es. listing (src @ q) = Some es \<and> distinct es \<and> set es = {c. nodeAt fs src (q @ [c]) \<noteq> None}"
  using assms unfolding plainTree_def by (force split: node.splits)+

lemma plainTree_parent:
  assumes "plainTree listing fs src" "nodeAt fs src (q @ [c]) \<noteq> None"
  shows "\<exists>m. nodeAt fs src q = Some (Dir m)"
  using assms fileTree_parent [OF plainTreeD(3) [OF assms(1)], of "src @ q" c] by (auto simp: nodeAt_def)

lemma plainTree_plain:
  assumes t: "plainTree listing fs src"
  shows "nodeAt fs src q = Some (Dir m) \<Longrightarrow> plainDir fs (src @ q)"
proof (induction q arbitrary: m rule: rev_induct)
  case Nil
  then show ?case using plainTreeD(1) [OF t] by simp
next
  case (snoc c q)
  then obtain k where "nodeAt fs src q = Some (Dir k)" using plainTree_parent [OF t, of q c] by auto
  from snoc.IH [OF this] snoc.prems show ?case
    by (simp add: plainDir_snoc nodeAt_def flip: append_assoc)
qed

lemma plainTree_butlast:
  assumes t: "plainTree listing fs src" and q: "nodeAt fs src q = Some n"
  shows "plainDir fs (butlast (src @ q))"
proof (cases q rule: rev_cases)
  case Nil
  then show ?thesis using plainTreeD(1) [OF t] plainDir_butlast by simp
next
  case (snoc p c)
  obtain m where "nodeAt fs src p = Some (Dir m)" using plainTree_parent [OF t, of p c] q snoc by auto
  from plainTree_plain [OF t this] show ?thesis using snoc by (simp add: butlast_append)
qed

lemma lstatRaw_tree:
  assumes t: "plainTree listing fs src" and q: "nodeAt fs src q = Some n"
  shows "lstatRaw fs (src @ q) = Found n"
proof -
  have c: "cleanPath (src @ q)" using plainTreeD(2) [OF t] plainTreeD(4) [OF t q] by simp
  show ?thesis
  proof (cases "src @ q = []")
    case True
    then show ?thesis
      using q plainTreeD(3) [OF t]
      by (auto simp: lstatRaw_def statNode_def follow_def nodeAt_def)
  next
    case False
    then have "last (src @ q) \<in> set (src @ q)" by (rule last_in_set)
    then have "last (src @ q) \<notin> {[], ''.'', ''..''}" using c unfolding cleanPath_def by blast
    then show ?thesis
      using False lstat_plain [OF plainTree_butlast [OF t q] c] q
      by (simp only: lstatRaw_def nodeAt_def if_False simp_thms option.case)
  qed
qed

lemma addTarEntry_all:
  "to_excludes o1 = [] \<Longrightarrow> \<exists>w2. addTarEntry o1 fs n name w = (False, w2) \<and> cr_members w2 = cr_members w @ [headerOf fs n name]"
  by (simp add: addTarEntry_def excluded_def Let_def)

lemma addTarPath_tree:
  assumes t: "plainTree listing fs src" and o1: "to_excludes o1 = []"
  shows "nodeAt fs src q \<noteq> None \<Longrightarrow> \<forall>r. nodeAt fs src (q @ r) \<noteq> None \<longrightarrow> length r < d \<Longrightarrow>
    \<exists>w2. addTarPath d listing o1 fs (src @ q) (joinStrings (name # q) ''/'') w = (None, w2) \<and>
      cr_members w2 = cr_members w @ map (memberAt fs src name) (treePaths d listing fs src q)"
proof (induction d arbitrary: q w)
  case 0
  then show ?case using "0.prems"(2) [rule_format, of "[]"] by simp
next
  case (Suc d)
  obtain n where n: "nodeAt fs src q = Some n" using Suc.prems(1) by auto
  obtain w1 where w1: "addTarEntry o1 fs n (joinStrings (name # q) ''/'') w = (False, w1)"
    "cr_members w1 = cr_members w @ [memberAt fs src name q]"
    using addTarEntry_all [of o1 fs n "joinStrings (name # q) ''/''" w] o1 n by (auto simp: memberAt_def)
  show ?case
  proof (cases "\<exists>m. n = Dir m")
    case False
    then show ?thesis
      using n w1 lstatRaw_tree [OF t n] plainTreeD(9) [OF t, of q] by (cases n) simp_all
  next
    case True
    then obtain m where m: "nodeAt fs src q = Some (Dir m)" using n by auto
    obtain es where es: "listing (src @ q) = Some es" "set es = {c. nodeAt fs src (q @ [c]) \<noteq> None}"
      using plainTreeD(10) [OF t m] by auto
    have clean: "cleanPath (src @ q)" using plainTreeD(2) [OF t] plainTreeD(4) [OF t n] by simp
    have children: "\<exists>w2. addTarEntries d listing o1 fs (src @ q) (joinStrings (name # q) ''/'') cs v = (None, w2) \<and>
        cr_members w2 = cr_members v @
          map (memberAt fs src name) (concat (map (\<lambda>e. treePaths d listing fs src (q @ [e])) cs))"
      if "set cs \<subseteq> set es" for cs v
      using that
    proof (induction cs arbitrary: v)
      case (Cons c cs)
      have c: "nodeAt fs src (q @ [c]) \<noteq> None" using Cons.prems es by auto
      have "cleanPath [c]" using plainTreeD(4) [OF t, of "q @ [c]"] c by auto
      then have "cleanRooted [] ((src @ q) @ [c]) = src @ q @ [c]" using clean by (subst cleanRooted_clean) simp_all
      moreover have "joinStrings (name # q) ''/'' @ ''/'' @ c = joinStrings (name # q @ [c]) ''/''"
        using joinStrings_snoc [of "name # q" c "''/''"] by simp
      moreover have "\<forall>r. nodeAt fs src ((q @ [c]) @ r) \<noteq> None \<longrightarrow> length r < d"
      proof (intro allI impI)
        fix r assume "nodeAt fs src ((q @ [c]) @ r) \<noteq> None"
        then show "length r < d" using Suc.prems(2) [rule_format, of "c # r"] by simp
      qed
      then obtain v1 where "addTarPath d listing o1 fs (src @ q @ [c]) (joinStrings (name # q @ [c]) ''/'') v = (None, v1)"
        "cr_members v1 = cr_members v @ map (memberAt fs src name) (treePaths d listing fs src (q @ [c]))"
        using Suc.IH [of "q @ [c]" v] c by auto
      moreover obtain w2 where "addTarEntries d listing o1 fs (src @ q) (joinStrings (name # q) ''/'') cs v1 = (None, w2)"
        "cr_members w2 = cr_members v1 @
          map (memberAt fs src name) (concat (map (\<lambda>e. treePaths d listing fs src (q @ [e])) cs))"
        using Cons by auto
      ultimately show ?case by simp
    qed simp
    show ?thesis
      using children [of es w1] w1 lstatRaw_tree [OF t n] True m n es(1) follow_plain [OF plainTree_plain [OF t m] clean]
      by auto
  qed
qed

section \<open>Every node once, parents first\<close>

lemma treePaths_below: "p \<in> set (treePaths d listing fs src q) \<Longrightarrow> prefix q p"
proof (induction d arbitrary: q)
  case (Suc d)
  from Suc.prems consider "p = q" | e where "p \<in> set (treePaths d listing fs src (q @ [e]))"
    by (auto split: option.splits node.splits)
  then show ?case
  proof cases
    case 2
    from Suc.IH [OF this] show ?thesis by (rule append_prefixD)
  qed simp
qed simp

lemma treePaths_set:
  assumes t: "plainTree listing fs src"
  shows "nodeAt fs src q \<noteq> None \<Longrightarrow> \<forall>r. nodeAt fs src (q @ r) \<noteq> None \<longrightarrow> length r < d \<Longrightarrow>
    set (treePaths d listing fs src q) = {p. prefix q p \<and> nodeAt fs src p \<noteq> None}"
proof (induction d arbitrary: q)
  case 0
  then show ?case using "0.prems"(2) [rule_format, of "[]"] by simp
next
  case (Suc d)
  obtain n where n: "nodeAt fs src q = Some n" using Suc.prems(1) by auto
  have up: "nodeAt fs src (q @ [c]) \<noteq> None \<and> (\<exists>m. n = Dir m)" if "nodeAt fs src (q @ c # r) \<noteq> None" for c r
    using that
  proof (induction r rule: rev_induct)
    case Nil
    then show ?case using plainTree_parent [OF t, of q c] n by auto
  next
    case (snoc a r)
    then show ?case using plainTree_parent [OF t, of "q @ c # r" a] by auto
  qed
  show ?case
  proof (cases "\<exists>m. n = Dir m")
    case False
    then have "{p. prefix q p \<and> nodeAt fs src p \<noteq> None} = {q}"
      using up n by (auto simp: prefix_def) (metis neq_Nil_conv)
    then show ?thesis using n False by (cases n) simp_all
  next
    case True
    then obtain m where m: "n = Dir m" by auto
    obtain es where es: "listing (src @ q) = Some es" "set es = {c. nodeAt fs src (q @ [c]) \<noteq> None}"
      using plainTreeD(10) [OF t n [unfolded m]] by auto
    have IH: "set (treePaths d listing fs src (q @ [e])) = {p. prefix (q @ [e]) p \<and> nodeAt fs src p \<noteq> None}"
      if "e \<in> set es" for e
    proof (rule Suc.IH)
      show "nodeAt fs src (q @ [e]) \<noteq> None" using that es by simp
      show "\<forall>r. nodeAt fs src ((q @ [e]) @ r) \<noteq> None \<longrightarrow> length r < d"
      proof (intro allI impI)
        fix r assume "nodeAt fs src ((q @ [e]) @ r) \<noteq> None"
        then show "length r < d" using Suc.prems(2) [rule_format, of "e # r"] by simp
      qed
    qed
    have "set (treePaths (Suc d) listing fs src q) =
      insert q (\<Union>e \<in> set es. {p. prefix (q @ [e]) p \<and> nodeAt fs src p \<noteq> None})"
      using n m es(1) IH by simp
    also have "\<dots> = {p. prefix q p \<and> nodeAt fs src p \<noteq> None}" (is "?l = ?r")
    proof (rule set_eqI)
      fix p
      show "p \<in> ?l \<longleftrightarrow> p \<in> ?r"
      proof
        assume "p \<in> ?r"
        then obtain r where "p = q @ r" "nodeAt fs src p \<noteq> None" by (auto simp: prefix_def)
        then show "p \<in> ?l" using up es(2) by (cases r) auto
      qed (use n append_prefixD in auto)
    qed
    finally show ?thesis .
  qed
qed

lemma treePaths_distinct:
  assumes t: "plainTree listing fs src"
  shows "distinct (treePaths d listing fs src q)"
proof (induction d arbitrary: q)
  case (Suc d)
  have "distinct (concat (map (\<lambda>e. treePaths d listing fs src (q @ [e])) es))" if "distinct es" for es
    using that
  proof (induction es)
    case (Cons e es)
    have "set (treePaths d listing fs src (q @ [e])) \<inter> set (treePaths d listing fs src (q @ [f])) = {}"
      if "f \<in> set es" for f
    proof -
      have "e \<noteq> f" using that Cons.prems by auto
      then show ?thesis
        by (auto dest!: treePaths_below simp: prefix_def)
    qed
    then show ?case using Cons Suc.IH by auto
  qed simp
  moreover have "q \<notin> set (treePaths d listing fs src (q @ [e]))" for e
    by (auto dest!: treePaths_below simp: prefix_def)
  ultimately show ?case
    using plainTreeD(10) [OF t, of q] by (auto split: option.splits node.splits)
qed simp

fun topDown :: "path set \<Rightarrow> path list \<Rightarrow> bool" where
  "topDown seen [] = True"
| "topDown seen (p # ps) \<longleftrightarrow> p \<noteq> [] \<and> butlast p \<in> seen \<and> topDown (insert p seen) ps"

lemma topDown_append: "topDown seen (a @ b) \<longleftrightarrow> topDown seen a \<and> topDown (seen \<union> set a) b"
  by (induction a arbitrary: seen) simp_all

lemma topDown_mono: "topDown seen a \<Longrightarrow> seen \<subseteq> more_seen \<Longrightarrow> topDown more_seen a"
  by (induction a arbitrary: seen more_seen) (auto, blast)

lemma treePaths_topDown: "q \<noteq> [] \<Longrightarrow> butlast q \<in> seen \<Longrightarrow> topDown seen (treePaths d listing fs src q)"
proof (induction d arbitrary: q seen)
  case (Suc d)
  have "topDown seen (concat (map (\<lambda>e. treePaths d listing fs src (q @ [e])) es))" if "q \<in> seen" for es seen
    using that
  proof (induction es arbitrary: seen)
    case (Cons e es)
    then show ?case using Suc.IH [of "q @ [e]" seen] by (simp add: topDown_append)
  qed simp
  then show ?case using Suc.prems by (auto split: option.splits node.splits)
qed simp

lemma treePaths_top: "topDown {[]} (tl (treePaths d listing fs src []))"
proof (cases d)
  case (Suc k)
  have "topDown seen (concat (map (\<lambda>e. treePaths k listing fs src [e]) es))" if "[] \<in> seen" for es seen
    using that
  proof (induction es arbitrary: seen)
    case (Cons e es)
    then show ?case using treePaths_topDown [of "[e]" seen k] by (simp add: topDown_append)
  qed simp
  then show ?thesis using Suc by (auto split: option.splits node.splits)
qed simp

section \<open>Rebuilding the tree\<close>

lemma ensureParents_plain:
  "plainDir fs (cur @ cs) \<Longrightarrow> cleanPath (cur @ cs) \<Longrightarrow> ensureParents cur cs fs = (None, fs)"
proof (induction cs arbitrary: cur)
  case (Cons c cs)
  have p: "plainDir fs ((cur @ [c]) @ cs)" using Cons.prems(1) by simp
  then have q: "plainDir fs (cur @ [c])" by (rule plainDir_append)
  then have "\<exists>m. fl_nodes fs (cur @ [c]) = Some (Dir m)" by (simp add: plainDir_snoc)
  then have "\<exists>m. lstatAt fs (cur @ [c]) = Found (Dir m)"
    using lstat_plain [of fs "cur @ [c]"] plainDir_butlast [OF q] Cons.prems(2) by auto
  then show ?case using Cons.IH [OF p] Cons.prems(2) by auto
qed simp

lemma ensureTarParents_plain:
  assumes "plainDir fs (butlast (root @ name # p))" "cleanPath (root @ name # p)"
  shows "ensureTarParents root (root @ name # p) fs = (None, fs)"
proof -
  have b: "butlast (root @ name # p) = root @ butlast (name # p)" by (simp add: butlast_append)
  show ?thesis
    using ensureParents_plain [of fs root "butlast (name # p)"] assms cleanPath_butlast [OF assms(2)]
    unfolding ensureTarParents_def b relPath_below by simp
qed

definition nodeSize :: "files \<Rightarrow> node option \<Rightarrow> nat" where
  "nodeSize fs n = (case n of Some (File i) \<Rightarrow> length (fst (fl_inodes fs i)) | _ \<Rightarrow> 0)"

text \<open>The part \<open>ps\<close> of the tree at \<open>src\<close> is rebuilt at \<open>root\<close>, but for the modes of its directories.\<close>

definition rebuilt :: "files \<Rightarrow> path \<Rightarrow> path \<Rightarrow> string \<Rightarrow> path set \<Rightarrow> tarState \<Rightarrow> bool" where
  "rebuilt fs src root name ps st \<longleftrightarrow>
     plainDir (ts_files st) root \<and>
     (\<forall>q m. q \<in> ps \<longrightarrow> nodeAt fs src q = Some (Dir m) \<longrightarrow> plainDir (ts_files st) (root @ name # q)) \<and>
     (\<forall>q i. q \<in> ps \<longrightarrow> nodeAt fs src q = Some (File i) \<longrightarrow>
        (\<exists>j. fl_nodes (ts_files st) (root @ name # q) = Some (File j) \<and> j < fl_next (ts_files st) \<and>
             fl_inodes (ts_files st) j = fl_inodes fs i)) \<and>
     (\<forall>q. q \<notin> ps \<longrightarrow> fl_nodes (ts_files st) (root @ name # q) = None) \<and>
     set (ts_directories st) = {(root @ name # q, m) | q m. q \<in> ps \<and> nodeAt fs src q = Some (Dir m)} \<and>
     distinct (map fst (ts_directories st)) \<and>
     ts_extracted st = int (\<Sum>q \<in> ps. nodeSize fs (nodeAt fs src q)) \<and> ts_status st = 0"

lemma rebuilt_file:
  "rebuilt fs src root name ps st \<Longrightarrow> q \<in> ps \<Longrightarrow> nodeAt fs src q = Some (File i) \<Longrightarrow>
     \<exists>j. fl_nodes (ts_files st) (root @ name # q) = Some (File j) \<and> j < fl_next (ts_files st) \<and>
       fl_inodes (ts_files st) j = fl_inodes fs i"
  unfolding rebuilt_def by (elim conjE) blast

lemma rebuilt_start:
  assumes "plainDir fs0 root" "\<forall>q. fl_nodes fs0 (root @ name # q) = None"
  shows "rebuilt fs src root name {} (tarStart fs0)"
  using assms by (simp add: rebuilt_def tarStart_def)

lemma rebuilt_stdout [simp]: "rebuilt fs src root name ps (st\<lparr>ts_stdout := out\<rparr>) = rebuilt fs src root name ps st"
  by (simp add: rebuilt_def)

definition extractsAll :: "tarOptions \<Rightarrow> bool" where
  "extractsAll o1 \<longleftrightarrow> to_files o1 = [] \<and> to_excludes o1 = [] \<and> to_strip o1 = 0 \<and> \<not> to_toStdout o1"

lemma tarMember_all:
  "extractsAll o1 \<Longrightarrow> mb_name m \<noteq> [] \<Longrightarrow> tarMember o1 root m st = extractMember o1 root (mb_name m) m st"
  by (simp add: tarMember_def extractsAll_def selects_def excluded_def tarStripComponents_def)

lemma memberAt_target:
  assumes p: "cleanPath (name # p)" "noSlash (name # p)"
  shows "safeTarTarget root (mb_name (memberAt fs src name p)) = Inr (root @ name # p) \<and> mb_name (memberAt fs src name p) \<noteq> []"
proof -
  let ?j = "joinStrings (name # p) ''/''"
  have ne: "?j \<noteq> []" using p(1) by (cases p; cases name) simp_all
  have names: "mb_name (memberAt fs src name p) = ?j \<or> mb_name (memberAt fs src name p) = ?j @ ''/''"
    by (simp add: memberAt_def headerOf_def split: node.splits)
  have loc: "isLocal (name # p)" using p(1) by (simp add: isLocal_def)
  have esc: "\<not> escapes root (root @ name # p)" using p(1) by (simp add: escapes_def)
  have c1: "cleanLoop [] (parts ?j) = name # p"
    using parts_join [OF _ p(2)] cleanLoop_clean [OF p(1), of "[]" "[]"] by simp
  have c2: "cleanLoop [] (parts (?j @ ''/'')) = name # p"
    using parts_join_slash [OF _ p(2)] cleanLoop_clean [OF p(1), of "[]" "[[]]"] by simp
  have "\<not> isAbs ?j" "\<not> isAbs (?j @ ''/'')"
    using isAbs_join [OF _ p(2,1), of "[]"] isAbs_join [OF _ p(2,1), of "''/''"] by simp_all
  then show ?thesis
    using names c1 c2 loc esc ne by (auto simp: safeTarTarget_def Let_def)
qed

lemma rebuilt_directory:
  assumes st: "rebuilt fs src root name ps st" and p: "p \<notin> ps" "nodeAt fs src p = Some (Dir m)" "finite ps"
    and c: "cleanPath (root @ name # p)" and up: "plainDir (ts_files st) (butlast (root @ name # p))"
  shows "\<exists>st2. extractDirectory root (root @ name # p) m st = (None, st2) \<and> rebuilt fs src root name (insert p ps) st2"
proof -
  let ?t = "root @ name # p" let ?fx = "ts_files st"
  let ?fs2 = "?fx\<lparr>fl_nodes := (fl_nodes ?fx)(?t \<mapsto> Dir 448)\<rparr>"
  let ?st2 = "st\<lparr>ts_files := ?fs2, ts_directories := ts_directories st @ [(?t, m)]\<rparr>"
  have none: "fl_nodes ?fx ?t = None" using st p(1) by (simp add: rebuilt_def)
  have run: "extractDirectory root ?t m st = (None, ?st2)"
    using lstat_plain [OF up c] mkdirAll_missing [OF up c none, of 448] none
    by (simp add: extractDirectory_def afterParents_def ensureTarParents_plain [OF up c])
  have keep: "plainDir ?fx q \<Longrightarrow> plainDir ?fs2 q" for q
    using stays_put [of root ?t ?fx "Dir 448"] none by (auto intro: stays_plain)
  have new: "plainDir ?fs2 ?t"
  proof -
    have "?t = butlast ?t @ [last ?t]" by (rule append_butlast_last_id [symmetric]) simp
    then show ?thesis using keep [OF up] plainDir_snoc [of ?fs2 "butlast ?t" "last ?t"] by simp
  qed
  have "rebuilt fs src root name (insert p ps) ?st2"
    unfolding rebuilt_def
  proof (intro conjI allI impI)
    show "plainDir (ts_files ?st2) root" using st keep by (simp add: rebuilt_def)
  next
    fix q k assume "q \<in> insert p ps" "nodeAt fs src q = Some (Dir k)"
    then show "plainDir (ts_files ?st2) (root @ name # q)" using st keep new by (auto simp: rebuilt_def)
  next
    fix q i assume q: "q \<in> insert p ps" "nodeAt fs src q = Some (File i)"
    then have "q \<noteq> p" using p(2) by auto
    then show "\<exists>j. fl_nodes (ts_files ?st2) (root @ name # q) = Some (File j) \<and> j < fl_next (ts_files ?st2) \<and>
             fl_inodes (ts_files ?st2) j = fl_inodes fs i"
      using st q by (auto simp: rebuilt_def)
  next
    fix q assume "q \<notin> insert p ps"
    then show "fl_nodes (ts_files ?st2) (root @ name # q) = None" using st by (auto simp: rebuilt_def)
  next
    show "set (ts_directories ?st2) = {(root @ name # q, k) | q k. q \<in> insert p ps \<and> nodeAt fs src q = Some (Dir k)}"
      using st p(2) by (auto simp: rebuilt_def)
  next
    have "fst ` set (ts_directories st) \<subseteq> {root @ name # q | q. q \<in> ps}"
      using st by (auto simp: rebuilt_def)
    then have "?t \<notin> fst ` set (ts_directories st)" using p(1) by auto
    then show "distinct (map fst (ts_directories ?st2))" using st by (simp add: rebuilt_def)
  next
    show "ts_extracted ?st2 = int (\<Sum>q \<in> insert p ps. nodeSize fs (nodeAt fs src q))"
      using st p by (simp add: rebuilt_def nodeSize_def)
  qed (use st in \<open>simp add: rebuilt_def\<close>)
  then show ?thesis using run by blast
qed

lemma rebuilt_regular:
  assumes st: "rebuilt fs src root name ps st" and p: "p \<notin> ps" "nodeAt fs src p = Some (File i)" "finite ps"
    and c: "cleanPath (root @ name # p)" and up: "plainDir (ts_files st) (butlast (root @ name # p))"
    and m: "mb_size m = int (length (fst (fl_inodes fs i)))" "mb_mode m = int (snd (fl_inodes fs i))"
      "mb_data m = fst (fl_inodes fs i)"
    and fits: "int (\<Sum>q \<in> insert p ps. nodeSize fs (nodeAt fs src q)) \<le> maxTarBytes"
  shows "\<exists>st2. extractRegular o1 root (root @ name # p) m st = (None, st2) \<and> rebuilt fs src root name (insert p ps) st2"
proof -
  let ?t = "root @ name # p" let ?fx = "ts_files st" let ?j = "fl_next (ts_files st)"
  let ?fs1 = "?fx\<lparr>fl_nodes := (fl_nodes ?fx)(?t \<mapsto> File ?j)\<rparr>"
  let ?fs2 = "?fs1\<lparr>fl_inodes := (fl_inodes ?fx)(?j := fl_inodes fs i), fl_next := Suc ?j\<rparr>"
  let ?st2 = "st\<lparr>ts_extracted := ts_extracted st + mb_size m, ts_files := ?fs2\<rparr>"
  have none: "fl_nodes ?fx ?t = None" using st p(1) by (simp add: rebuilt_def)
  have z: "ts_extracted st + mb_size m = int (\<Sum>q \<in> insert p ps. nodeSize fs (nodeAt fs src q))"
    using st p m(1) by (simp add: rebuilt_def nodeSize_def)
  have inst: "install True ?t (File ?j) ?fx = Some ?fs1" using install_plain [OF up c] none by simp
  have run: "extractRegular o1 root ?t m st = (None, ?st2)"
    using lstat_plain [OF up c] none z fits m inst
    by (simp add: extractRegular_def afterParents_def ensureTarParents_plain [OF up c] extractTarRegular_def withFiles_def Let_def)
  have keep: "plainDir ?fx q \<Longrightarrow> plainDir ?fs2 q" for q
    using none by (auto simp: plainDir_def)
  have "rebuilt fs src root name (insert p ps) ?st2"
    unfolding rebuilt_def
  proof (intro conjI allI impI)
    show "plainDir (ts_files ?st2) root" using st keep by (simp add: rebuilt_def)
  next
    fix q k assume "q \<in> insert p ps" "nodeAt fs src q = Some (Dir k)"
    then show "plainDir (ts_files ?st2) (root @ name # q)" using st keep p(2) by (auto simp: rebuilt_def)
  next
    fix q k assume q: "q \<in> insert p ps" "nodeAt fs src q = Some (File k)"
    show "\<exists>j. fl_nodes (ts_files ?st2) (root @ name # q) = Some (File j) \<and> j < fl_next (ts_files ?st2) \<and>
             fl_inodes (ts_files ?st2) j = fl_inodes fs k"
    proof (cases "q = p")
      case True
      then show ?thesis using q p(2) by simp
    next
      case False
      then obtain j where "fl_nodes ?fx (root @ name # q) = Some (File j)" "j < ?j" "fl_inodes ?fx j = fl_inodes fs k"
        using rebuilt_file [OF st, of q k] q by auto
      then show ?thesis using False by auto
    qed
  next
    fix q assume "q \<notin> insert p ps"
    then show "fl_nodes (ts_files ?st2) (root @ name # q) = None" using st by (auto simp: rebuilt_def)
  next
    show "set (ts_directories ?st2) = {(root @ name # q, k) | q k. q \<in> insert p ps \<and> nodeAt fs src q = Some (Dir k)}"
      using st p(2) by (auto simp: rebuilt_def)
  next
    show "ts_extracted ?st2 = int (\<Sum>q \<in> insert p ps. nodeSize fs (nodeAt fs src q))" using z by simp
  qed (use st in \<open>simp_all add: rebuilt_def\<close>)
  then show ?thesis using run by blast
qed

lemma rebuilt_step:
  assumes t: "plainTree listing fs src" and st: "rebuilt fs src root name ps st"
    and p: "p \<notin> ps" "nodeAt fs src p \<noteq> None" "finite ps"
    and parent: "p = [] \<or> butlast p \<in> ps"
    and c: "cleanPath root" "cleanPath [name]" "noSlash [name]" and o1: "extractsAll o1"
    and fits: "int (\<Sum>q \<in> insert p ps. nodeSize fs (nodeAt fs src q)) \<le> maxTarBytes"
  shows "\<exists>st2. tarMember o1 root (memberAt fs src name p) st = (None, st2) \<and> rebuilt fs src root name (insert p ps) st2"
proof -
  obtain n where n: "nodeAt fs src p = Some n" using p(2) by auto
  have clean: "cleanPath (root @ name # p)" "noSlash (name # p)"
    using c plainTreeD(4,5) [OF t n] by (simp_all add: noSlash_def)
  have up: "plainDir (ts_files st) (butlast (root @ name # p))"
  proof (cases p rule: rev_cases)
    case Nil
    then show ?thesis using st by (simp add: rebuilt_def butlast_append)
  next
    case (snoc q e)
    then obtain m where "nodeAt fs src q = Some (Dir m)" using plainTree_parent [OF t, of q e] p(2) by auto
    then show ?thesis using st parent snoc by (auto simp: rebuilt_def butlast_append)
  qed
  note target = memberAt_target [of name p root fs src] 
  have tm: "tarMember o1 root (memberAt fs src name p) st =
      extractMember o1 root (mb_name (memberAt fs src name p)) (memberAt fs src name p) st"
    using tarMember_all [OF o1] target clean by simp
  define st1 where "st1 = (if to_verbose o1
    then st\<lparr>ts_stdout := ts_stdout st @ mb_name (memberAt fs src name p) @ [CHR 0x0A]\<rparr> else st)"
  have st1: "rebuilt fs src root name ps st1" "ts_files st1 = ts_files st" using st by (simp_all add: st1_def)
  show ?thesis
  proof (cases n)
    case (Dir m)
    have d: "nodeAt fs src p = Some (Dir m)" using n Dir by simp
    have h: "mb_kind (memberAt fs src name p) = DirMember" "mb_mode (memberAt fs src name p) = int m"
      using d by (simp_all add: memberAt_def headerOf_def)
    have "extractMember o1 root (mb_name (memberAt fs src name p)) (memberAt fs src name p) st =
        extractDirectory root (root @ name # p) m st1"
      using target clean plainTreeD(7) [OF t d] by (simp add: extractMember_def h Let_def flip: st1_def)
    then show ?thesis
      using rebuilt_directory [OF st1(1) p(1) d p(3) clean(1)] up st1(2) tm by simp
  next
    case (File i)
    have f: "nodeAt fs src p = Some (File i)" using n File by simp
    have h: "mb_kind (memberAt fs src name p) = RegularMember"
      "mb_mode (memberAt fs src name p) = int (snd (fl_inodes fs i))"
      "mb_size (memberAt fs src name p) = int (length (fst (fl_inodes fs i)))"
      "mb_data (memberAt fs src name p) = fst (fl_inodes fs i)"
      using f by (simp_all add: memberAt_def headerOf_def)
    have "extractMember o1 root (mb_name (memberAt fs src name p)) (memberAt fs src name p) st =
        extractRegular o1 root (root @ name # p) (memberAt fs src name p) st1"
      using target clean plainTreeD(8) [OF t f] by (simp add: extractMember_def h Let_def flip: st1_def)
    then show ?thesis
      using rebuilt_regular [OF st1(1) p(1) f p(3) clean(1) _ h(3,2,4) fits] up st1(2) tm by simp
  next
    case (Link l)
    then show ?thesis using plainTreeD(9) [OF t] n by simp
  qed
qed

lemma extractLoop_member: "tarMember o1 root m st = (None, st2) \<Longrightarrow>
    extractLoop o1 root (m # ms) intact st = extractLoop o1 root ms intact st2"
  by simp

lemma rebuilt_loop:
  assumes t: "plainTree listing fs src"
    and c: "cleanPath root" "cleanPath [name]" "noSlash [name]" and o1: "extractsAll o1"
  shows "rebuilt fs src root name ps st \<Longrightarrow> finite ps \<Longrightarrow> topDown ps qs \<Longrightarrow> distinct qs \<Longrightarrow> ps \<inter> set qs = {} \<Longrightarrow>
    \<forall>q \<in> set qs. nodeAt fs src q \<noteq> None \<Longrightarrow>
    int (\<Sum>q \<in> ps \<union> set qs. nodeSize fs (nodeAt fs src q)) \<le> maxTarBytes \<Longrightarrow>
    \<exists>st2. extractLoop o1 root (map (memberAt fs src name) qs) True st =
        withFiles st2 (setModes (rev (ts_directories st2)) (ts_files st2)) \<and>
      rebuilt fs src root name (ps \<union> set qs) st2"
proof (induction qs arbitrary: ps st)
  case (Cons q qs)
  have "(\<Sum>q \<in> insert q ps. nodeSize fs (nodeAt fs src q)) \<le> (\<Sum>q \<in> ps \<union> set (q # qs). nodeSize fs (nodeAt fs src q))"
    using Cons.prems(2) by (intro sum_mono2) auto
  then have "int (\<Sum>q \<in> insert q ps. nodeSize fs (nodeAt fs src q)) \<le> maxTarBytes"
    using Cons.prems(7) by linarith
  then obtain st1 where s: "tarMember o1 root (memberAt fs src name q) st = (None, st1)"
    "rebuilt fs src root name (insert q ps) st1"
    using rebuilt_step [OF t Cons.prems(1) _ _ Cons.prems(2) _ c o1, of q] Cons.prems by auto
  have "\<exists>st2. extractLoop o1 root (map (memberAt fs src name) qs) True st1 =
        withFiles st2 (setModes (rev (ts_directories st2)) (ts_files st2)) \<and>
      rebuilt fs src root name (insert q ps \<union> set qs) st2"
    by (rule Cons.IH) (use Cons.prems s(2) in auto)
  then show ?case using extractLoop_member [OF s(1)] by simp
qed (intro exI conjI; simp)

lemma setModes_exact:
  "\<forall>(p, m) \<in> set ds. plainDir fs p \<and> cleanPath p \<Longrightarrow> distinct (map fst ds) \<Longrightarrow>
    \<exists>fs2. setModes ds fs = (None, fs2) \<and> fl_inodes fs2 = fl_inodes fs \<and>
      (\<forall>p. fl_nodes fs2 p = (case map_of ds p of Some m \<Rightarrow> Some (Dir m) | None \<Rightarrow> fl_nodes fs p))"
proof (induction ds arbitrary: fs)
  case (Cons d ds)
  obtain p m where d: "d = (p, m)" by (rule prod.exhaust)
  let ?fs1 = "fs\<lparr>fl_nodes := (fl_nodes fs)(p \<mapsto> Dir m)\<rparr>"
  have p: "plainDir fs p" "cleanPath p" using Cons.prems(1) d by auto
  have ch: "chmod p m fs = Some ?fs1"
    using plainDir_node [OF p(1)] by (auto simp: chmod_def follow_plain [OF p])
  have "plainDir ?fs1 q" if "plainDir fs q" for q using that by (auto simp: plainDir_def)
  then have "\<forall>(p, m) \<in> set ds. plainDir ?fs1 p \<and> cleanPath p" using Cons.prems(1) by auto
  moreover have "p \<notin> fst ` set ds" "distinct (map fst ds)" using Cons.prems(2) d by auto
  ultimately obtain fs2 where "setModes ds ?fs1 = (None, fs2)" "fl_inodes fs2 = fl_inodes fs"
    "\<forall>q. fl_nodes fs2 q = (case map_of ds q of Some m \<Rightarrow> Some (Dir m) | None \<Rightarrow> fl_nodes ?fs1 q)"
    using Cons.IH [of ?fs1] by auto
  moreover have "map_of ds p = None" using \<open>p \<notin> fst ` set ds\<close> by (simp add: map_of_eq_None_iff)
  ultimately show ?case by (auto simp: d ch split: option.splits)
qed simp

text \<open>Two nodes hold the same: the mode, or the contents and the mode.\<close>

definition sameNode :: "files \<Rightarrow> node option \<Rightarrow> files \<Rightarrow> node option \<Rightarrow> bool" where
  "sameNode fs a fs2 b \<longleftrightarrow>
     (case (a, b) of
        (None, None) \<Rightarrow> True
      | (Some (Dir m), Some (Dir k)) \<Rightarrow> m = k
      | (Some (File i), Some (File j)) \<Rightarrow> fl_inodes fs i = fl_inodes fs2 j
      | (Some (Link l), Some (Link k)) \<Rightarrow> l = k
      | _ \<Rightarrow> False)"

lemma rebuilt_all:
  assumes t: "plainTree listing fs src" and c: "cleanPath root" "cleanPath [name]"
    and st: "rebuilt fs src root name {q. nodeAt fs src q \<noteq> None} st"
  shows "\<exists>fs2. setModes (rev (ts_directories st)) (ts_files st) = (None, fs2) \<and>
    (\<forall>q. sameNode fs (nodeAt fs src q) fs2 (fl_nodes fs2 (root @ name # q)))"
proof -
  let ?ds = "rev (ts_directories st)"
  have ds: "set ?ds = {(root @ name # q, m) | q m. nodeAt fs src q = Some (Dir m)}" "distinct (map fst ?ds)"
    using st by (auto simp: rebuilt_def simp flip: rev_map)
  have "\<forall>(p, m) \<in> set ?ds. plainDir (ts_files st) p \<and> cleanPath p"
    unfolding ds(1) using st c plainTreeD(4) [OF t] by (auto simp: rebuilt_def)
  from setModes_exact [OF this ds(2)] obtain fs2 where r: "setModes ?ds (ts_files st) = (None, fs2)"
    "fl_inodes fs2 = fl_inodes (ts_files st)"
    "\<And>p. fl_nodes fs2 p = (case map_of ?ds p of Some m \<Rightarrow> Some (Dir m) | None \<Rightarrow> fl_nodes (ts_files st) p)"
    by auto
  have dir: "map_of ?ds (root @ name # q) = Some m" if "nodeAt fs src q = Some (Dir m)" for q m
    using that ds by (intro map_of_is_SomeI) auto
  have other: "map_of ?ds (root @ name # q) = None" if "\<forall>m. nodeAt fs src q \<noteq> Some (Dir m)" for q
  proof -
    have "root @ name # q \<notin> fst ` set ?ds" unfolding ds(1) using that by auto
    then show ?thesis by (simp add: map_of_eq_None_iff)
  qed
  have "sameNode fs (nodeAt fs src q) fs2 (fl_nodes fs2 (root @ name # q))" for q
  proof (cases "nodeAt fs src q")
    case None
    then show ?thesis using st other [of q] r(3) by (simp add: sameNode_def rebuilt_def)
  next
    case (Some n)
    show ?thesis
    proof (cases n)
      case (Dir m)
      then show ?thesis using Some dir [of q m] r(3) by (simp add: sameNode_def)
    next
      case (File i)
      then obtain j where "fl_nodes (ts_files st) (root @ name # q) = Some (File j)"
        "fl_inodes (ts_files st) j = fl_inodes fs i"
        using rebuilt_file [OF st, of q i] Some by auto
      then show ?thesis using Some File other [of q] r(2,3) by (simp add: sameNode_def)
    qed (use Some plainTreeD(9) [OF t, of q] in auto)
  qed
  then show ?thesis using r(1) by blast
qed

section \<open>The round trip\<close>

lemma createTar_tree:
  assumes t: "plainTree listing fs (absPath cwd (to_directory o1) @ [name])"
    and o1: "to_archive o1 = ''-''" "to_files o1 = [name]" "to_excludes o1 = []" and c: "noSlash [name]"
  shows "fst (createTar listing o1 fs cwd) = None \<and>
    cr_members (snd (createTar listing o1 fs cwd)) =
      map (memberAt fs (absPath cwd (to_directory o1) @ [name]) name)
        (treePaths maxDepth listing fs (absPath cwd (to_directory o1) @ [name]) [])"
proof -
  let ?base = "absPath cwd (to_directory o1)" let ?src = "?base @ [name]"
  have top: "nodeAt fs ?src [] \<noteq> None" using plainDir_node [OF plainTreeD(1) [OF t]] by (auto simp: nodeAt_def)
  have clean: "cleanPath [name]" "cleanPath ?base" using plainTreeD(2) [OF t] by simp_all
  have ps: "parts name = [name]" using c by (simp add: parts_def noSlash_def splitByte_word)
  have "\<not> isAbs name" using isAbs_join [of "[name]" "[]"] c clean by simp
  then have names: "operandSource ?base name = ?src" "archiveName o1 name = name"
    using clean cleanRooted_clean [of "?base @ [name]" "[]"]
    by (simp_all add: operandSource_def archiveName_def pathName_def ps)
  have "\<forall>r. nodeAt fs ?src ([] @ r) \<noteq> None \<longrightarrow> length r < maxDepth" using plainTreeD(6) [OF t] by auto
  from addTarPath_tree [OF t o1(3) top this, of name "\<lparr>cr_members = [], cr_listed = []\<rparr>"]
  obtain w2 where "addTarPath maxDepth listing o1 fs ?src name \<lparr>cr_members = [], cr_listed = []\<rparr> = (None, w2)"
    "cr_members w2 = map (memberAt fs ?src name) (treePaths maxDepth listing fs ?src [])"
    by auto
  then show ?thesis
    by (simp add: createTar_def Let_def validateTarCreateSources_def createArchiveOutput_def o1 names)
qed

lemma tree_extracts:
  assumes t: "plainTree listing fs src" and c: "cleanPath [name]" "noSlash [name]"
    and root: "cleanPath root" "plainDir fs0 root" "\<forall>q. fl_nodes fs0 (root @ name # q) = None"
    and o2: "extractsAll o2"
    and fits: "(\<Sum>q | nodeAt fs src q \<noteq> None. nodeSize fs (nodeAt fs src q)) \<le> 64 * 2 ^ 30"
  shows "\<exists>st. extractTar o2 root (map (memberAt fs src name) (treePaths maxDepth listing fs src [])) True fs0 = (None, st) \<and>
    ts_status st = 0 \<and>
    (\<forall>q. sameNode fs (nodeAt fs src q) (ts_files st) (fl_nodes (ts_files st) (root @ name # q)))"
proof -
  let ?ps = "treePaths maxDepth listing fs src []"
  have top: "nodeAt fs src [] \<noteq> None" using plainDir_node [OF plainTreeD(1) [OF t]] by (auto simp: nodeAt_def)
  have "\<forall>r. nodeAt fs src ([] @ r) \<noteq> None \<longrightarrow> length r < maxDepth" using plainTreeD(6) [OF t] by auto
  from treePaths_set [OF t top this] have ps: "set ?ps = {q. nodeAt fs src q \<noteq> None}" by simp
  have split: "?ps = [] # tl ?ps" by (simp add: maxDepth_def numeral_eq_Suc)
  have distinct: "distinct ([] # tl ?ps)" using treePaths_distinct [OF t, of maxDepth "[]"] split by metis
  have set: "insert [] (set (tl ?ps)) = {q. nodeAt fs src q \<noteq> None}" using ps split by (metis list.simps(15))
  have fin: "finite {q. nodeAt fs src q \<noteq> None}" using ps by (metis List.finite_set)
  have all: "int (\<Sum>q \<in> insert [] (set (tl ?ps)). nodeSize fs (nodeAt fs src q)) \<le> maxTarBytes"
    unfolding set maxTarBytes_def by (rule order_trans [OF of_nat_mono [OF fits]]) simp
  have "(\<Sum>q \<in> insert [] {}. nodeSize fs (nodeAt fs src q)) \<le> (\<Sum>q \<in> insert [] (set (tl ?ps)). nodeSize fs (nodeAt fs src q))"
    by (intro sum_mono2) auto
  then have "int (\<Sum>q \<in> insert [] {}. nodeSize fs (nodeAt fs src q)) \<le> maxTarBytes" using all by linarith
  then obtain st1 where s: "tarMember o2 root (memberAt fs src name []) (tarStart fs0) = (None, st1)"
    "rebuilt fs src root name {[]} st1"
    using rebuilt_step [OF t rebuilt_start [OF root(2,3)] _ top _ _ root(1) c o2] by auto
  have "\<exists>st2. extractLoop o2 root (map (memberAt fs src name) (tl ?ps)) True st1 =
        withFiles st2 (setModes (rev (ts_directories st2)) (ts_files st2)) \<and>
      rebuilt fs src root name ({[]} \<union> set (tl ?ps)) st2"
    by (rule rebuilt_loop [OF t root(1) c o2 s(2)])
      (use distinct set all treePaths_top [of maxDepth listing fs src] in auto)
  then obtain st2 where l: "extractLoop o2 root (map (memberAt fs src name) (tl ?ps)) True st1 =
        withFiles st2 (setModes (rev (ts_directories st2)) (ts_files st2))"
    and r: "rebuilt fs src root name {q. nodeAt fs src q \<noteq> None} st2" using set by auto
  from rebuilt_all [OF t root(1) c(1) r] obtain fs2 where fs2: "setModes (rev (ts_directories st2)) (ts_files st2) = (None, fs2)"
    "\<forall>q. sameNode fs (nodeAt fs src q) fs2 (fl_nodes fs2 (root @ name # q))" by auto
  have "extractTar o2 root (map (memberAt fs src name) ?ps) True fs0 = (None, st2\<lparr>ts_files := fs2\<rparr>)"
    using mkdirAll_exists [OF root(2,1), of 493] l fs2(1)
    by (subst split) (simp add: extractTar_def s(1) withFiles_def)
  then show ?thesis using fs2(2) r by (simp add: rebuilt_def)
qed

text \<open>A directory \<open>/s\<close> with one file and one empty directory, and an empty directory \<open>/r\<close>.\<close>

definition roundDisk :: files where
  "roundDisk =
     \<lparr>fl_nodes = [[] \<mapsto> Dir 493, [''r''] \<mapsto> Dir 493, [''s''] \<mapsto> Dir 488, [''s'', ''f''] \<mapsto> File 0,
        [''s'', ''e''] \<mapsto> Dir 448],
      fl_inodes = (\<lambda>i. (''key'', 256)), fl_next = 1\<rparr>"

definition roundListing :: "path \<Rightarrow> string list option" where
  "roundListing p =
     (if p = [''s''] then Some [''f'', ''e''] else if p = [] then Some [''r'', ''s'']
      else if p = [''r''] \<or> p = [''s'', ''e''] then Some [] else None)"

lemma roundDisk_nodes:
  "nodeAt roundDisk [''s''] q =
     (if q = [] then Some (Dir 488) else if q = [''f''] then Some (File 0)
      else if q = [''e''] then Some (Dir 448) else None)"
  by (cases q) (simp_all add: nodeAt_def roundDisk_def)

lemma roundDisk_tree: "plainTree roundListing roundDisk [''s'']"
proof -
  have "fileTree roundDisk"
    by (auto simp: fileTree_def roundDisk_def append_eq_Cons_conv split: if_splits)
  moreover have "plainDir roundDisk [''s'']"
    using plainDir_snoc [of roundDisk "[]" "''s''"] by (simp add: plainDir_Nil roundDisk_def)
  moreover have "snd (fl_inodes roundDisk i) = 256" for i by (simp add: roundDisk_def)
  ultimately show ?thesis
    by (auto simp: plainTree_def roundDisk_nodes roundListing_def noSlash_def maxDepth_def split: if_splits)
qed

text \<open>C3 (round trip): what \<open>tar -c\<close> makes of a directory tree, \<open>tar -x\<close> turns back into the same tree:
  every directory with its entries and its mode, every file with its contents and its mode, and nothing
  else, whatever the order in which the directories list their entries, and under any options that leave
  no member out.  The tree consists of directories and regular files, the directory to extract into is
  reached without symbolic links and has no entry of that name, and the data is within the limit of an
  extraction.\<close>

theorem tar_roundtrip:
  assumes "plainTree listing fs (absPath cwd (to_directory o1) @ [name])" "noSlash [name]"
    and "to_archive o1 = ''-''" "to_files o1 = [name]" "to_excludes o1 = []"
    and "cleanPath root" "plainDir fs0 root" "\<forall>q. fl_nodes fs0 (root @ name # q) = None"
    and "extractsAll o2"
    and "(\<Sum>q | nodeAt fs (absPath cwd (to_directory o1) @ [name]) q \<noteq> None.
            nodeSize fs (nodeAt fs (absPath cwd (to_directory o1) @ [name]) q)) \<le> 64 * 2 ^ 30"
  shows "let made = createTar listing o1 fs cwd;
             r = extractTar o2 root (cr_members (snd made)) True fs0;
             fs2 = ts_files (snd r)
    in fst made = None \<and> fst r = None \<and> tarExtractStatus o2 r = 0 \<and>
      (\<forall>q. sameNode fs (nodeAt fs (absPath cwd (to_directory o1) @ [name]) q) fs2 (fl_nodes fs2 (root @ name # q)))"
proof -
  have "cleanPath [name]" using plainTreeD(2) [OF assms(1)] by simp
  then show ?thesis
    using createTar_tree [OF assms(1,3-5,2)] tree_extracts [OF assms(1) _ assms(2,6-10)] assms(9)
    by (auto simp: Let_def tarExtractStatus_def extractsAll_def)
qed

theorem tar_roundtrip_witness:
  "let made = createTar roundListing (tarDefaults\<lparr>to_directory := ''/'', to_files := [''s'']\<rparr>) roundDisk [];
       r = extractTar tarDefaults [''r''] (cr_members (snd made)) True roundDisk;
       fs2 = ts_files (snd r)
   in fst made = None \<and> fst r = None \<and> tarExtractStatus tarDefaults r = 0 \<and>
      (\<forall>q. sameNode roundDisk
        (nodeAt roundDisk (absPath [] (to_directory (tarDefaults\<lparr>to_directory := ''/'', to_files := [''s'']\<rparr>)) @ [''s'']) q)
        fs2 (fl_nodes fs2 ([''r''] @ ''s'' # q)))"
proof (rule tar_roundtrip)
  let ?o1 = "tarDefaults\<lparr>to_directory := ''/'', to_files := [''s'']\<rparr>"
  have base: "absPath [] (to_directory ?o1) @ [''s''] = [''s'']"
    by (simp add: absPath_def isAbs_def hasPrefix_def parts_def)
  show "plainTree roundListing roundDisk (absPath [] (to_directory ?o1) @ [''s''])"
    unfolding base by (rule roundDisk_tree)
  have "{q. nodeAt roundDisk [''s''] q \<noteq> None} = {[], [''f''], [''e'']}" by (auto simp: roundDisk_nodes)
  then show "(\<Sum>q | nodeAt roundDisk (absPath [] (to_directory ?o1) @ [''s'']) q \<noteq> None.
      nodeSize roundDisk (nodeAt roundDisk (absPath [] (to_directory ?o1) @ [''s'']) q)) \<le> 64 * 2 ^ 30"
    unfolding base by (simp add: nodeSize_def roundDisk_nodes) (simp add: roundDisk_def)
  show "plainDir roundDisk [''r'']"
    using plainDir_snoc [of roundDisk "[]" "''r''"] by (simp add: plainDir_Nil roundDisk_def)
  show "\<forall>q. fl_nodes roundDisk ([''r''] @ ''s'' # q) = None" by (simp add: roundDisk_def)
qed (simp_all add: tarDefaults_def noSlash_def extractsAll_def)

end
