(* ===== verification/TarStaged.thy ===== *)
theory TarStaged
  imports TarRound
begin

text \<open>
  What the check of symbolic links does not see: an archive whose links stay inside as long as the other
  one is not there, followed member by member on an arbitrary file system.
\<close>

lemma parts_staged [simp]:
  "parts ''a/l'' = [''a'', ''l'']" "parts ''a/d'' = [''a'', ''d'']" "parts ''d/..'' = [''d'', ''..'']"
  "parts ''..'' = [''..'']" "parts ''copy'' = [''copy'']"
  by (simp_all add: parts_def)

lemma parts_secret: "CHR ''/'' \<notin> set s \<Longrightarrow> parts (''a/l/'' @ s) = [''a'', ''l'', s]"
  using splitByte_sep [of "CHR ''/''" "''a''"] splitByte_sep [of "CHR ''/''" "''l''" s]
  by (simp add: parts_def splitByte_word)

lemma escapes_below: "cleanPath p \<Longrightarrow> \<not> escapes root (root @ p)"
  using relPath_below [of root p] by (cases p) (simp_all add: escapes_def)

lemma target_below:
  assumes "\<not> isAbs name" "parts name = p" "cleanPath p"
  shows "safeTarTarget root name = Inr (root @ p)"
  using assms cleanLoop_clean [of p "[]" "[]"] escapes_below [of p root]
  by (cases p) (simp_all add: safeTarTarget_def isLocal_def)

lemma walk_to:
  "plainDir fs p \<Longrightarrow> cleanPath p \<Longrightarrow> resolveFrom fs k [] (p @ rest) = resolveFrom fs k p rest"
  using walk_plain [of fs "[]" p k rest] by simp

lemma evalSymlinks_plain: "plainDir fs p \<Longrightarrow> cleanPath p \<Longrightarrow> evalSymlinks fs p = At p"
  by (simp add: evalSymlinks_def walk_plain_all)

lemma evalSymlinks_none:
  "plainDir fs p \<Longrightarrow> cleanPath (p @ [c]) \<Longrightarrow> fl_nodes fs (p @ [c]) = None \<Longrightarrow> evalSymlinks fs (p @ [c]) = NotThere"
  by (simp add: evalSymlinks_def walk_to)

text \<open>A link below the root is made when its target leads nowhere else yet.\<close>

lemma extractSymlink_made:
  assumes dir: "plainDir fs root" "plainDir fs base" "cleanPath (base @ [c])"
    and free: "fl_nodes fs (base @ [c]) = None" and base: "base = root @ b"
    and lexical: "\<not> isAbs link" "isLocal (cleanLoop [] (cleanLoop [] (butlast (parts name)) @ parts link))"
    and inside: "\<not> escapes root (resolveArchiveLink fs base (parts link))" and link: "link \<noteq> []"
    and m: "mb_link m = link"
    and parents: "ensureTarParents root (base @ [c]) (ts_files st) = (None, fs)"
  shows "extractSymlink o1 root (base @ [c]) name m st =
    (None, st\<lparr>ts_files := fs\<lparr>fl_nodes := (fl_nodes fs)(base @ [c] \<mapsto> Link link)\<rparr>\<rparr>)"
proof -
  have clean: "cleanPath root" "cleanPath base" using dir(3) base by simp_all
  have "validateTarSymlink root (base @ [c]) name link fs = None"
    using lexical inside dir clean by (simp add: validateTarSymlink_def evalSymlinks_plain)
  moreover have "lstatAt fs (base @ [c]) = Missing"
    using lstat_plain [of fs "base @ [c]"] dir free by simp
  moreover have "install True (base @ [c]) (Link link) fs =
      Some (fs\<lparr>fl_nodes := (fl_nodes fs)(base @ [c] \<mapsto> Link link)\<rparr>)"
    using install_plain [of fs "base @ [c]"] dir free by simp
  ultimately show ?thesis
    using link m parents by (simp add: extractSymlink_def afterParents_def extractTarSymlink_def withFiles_def)
qed

lemma plainDir_put:
  "plainDir fs p \<Longrightarrow> fl_nodes fs q = None \<Longrightarrow> plainDir (fs\<lparr>fl_nodes := (fl_nodes fs)(q \<mapsto> n)\<rparr>) p"
  by (fastforce simp: plainDir_def)

lemma plainDir_new:
  "plainDir fs p \<Longrightarrow> fl_nodes fs (p @ [c]) = None \<Longrightarrow>
   plainDir (fs\<lparr>fl_nodes := (fl_nodes fs)(p @ [c] \<mapsto> Dir m)\<rparr>) (p @ [c])"
  by (simp add: plainDir_snoc plainDir_put)

lemma parents_made:
  assumes "plainDir fs root" "cleanPath (root @ [c])" "fl_nodes fs (root @ [c]) = None"
  shows "ensureTarParents root ((root @ [c]) @ [x]) fs =
    (None, fs\<lparr>fl_nodes := (fl_nodes fs)(root @ [c] \<mapsto> Dir 448)\<rparr>)"
proof -
  have "butlast ((root @ [c]) @ [x]) = root @ [c]" by (simp only: butlast_snoc)
  then show ?thesis
    using assms by (simp add: ensureTarParents_def lstat_plain install_plain)
qed

lemma parents_there:
  assumes "plainDir fs (root @ p)" "cleanPath (root @ p)"
  shows "ensureTarParents root ((root @ p) @ [x]) fs = (None, fs)"
proof -
  have "butlast ((root @ p) @ [x]) = root @ p" by (simp only: butlast_snoc)
  then show ?thesis
    using ensureParents_plain [OF assms] by (simp add: ensureTarParents_def)
qed

text \<open>With both links in place the first one leads to the parent of the root.\<close>

lemma links_lead_up:
  assumes "plainDir f (root @ [''a''])" "cleanPath root" "2 \<le> k"
    and "fl_nodes f ((root @ [''a'']) @ [''l'']) = Some (Link ''d/..'')"
      "fl_nodes f ((root @ [''a'']) @ [''d'']) = Some (Link ''..'')"
  shows "resolveFrom f k [] (root @ ''a'' # ''l'' # rest) = resolveFrom f (k - 2) (butlast root) rest"
proof -
  let ?a = "root @ [''a'']"
  have "resolveFrom f k [] (?a @ ''l'' # rest) = resolveFrom f k ?a (''l'' # rest)"
    using assms by (intro walk_to) simp_all
  also have "\<dots> = resolveFrom f (k - 1) ?a (''d'' # ''..'' # rest)"
    using assms by (simp add: isAbs_def hasPrefix_def)
  also have "\<dots> = resolveFrom f (k - 1 - 1) ?a (''..'' # ''..'' # rest)"
    using assms by (simp add: isAbs_def hasPrefix_def)
  finally show ?thesis by (simp add: butlast_append numeral_2_eq_2)
qed

text \<open>One member of the archive that only adds a link.\<close>

definition follows_on :: "files \<Rightarrow> tarState \<Rightarrow> bool" where
  "follows_on fs st \<longleftrightarrow> ts_files st = fs \<and> ts_directories st = [] \<and> ts_status st = 0"

lemma member_step:
  assumes "extractsAll o1" "safeTarTarget root (mb_name m) = Inr target" "mb_name m \<noteq> []"
    "0 \<le> mb_mode m" "mb_mode m \<le> 4095" "follows_on f st"
    and "\<And>st. follows_on f st \<Longrightarrow>
      mb_kind m = SymlinkMember \<and> extractSymlink o1 root target (mb_name m) m st = (None, st\<lparr>ts_files := g\<rparr>) \<or>
      mb_kind m = HardLinkMember \<and> extractHardLink root target m st = (None, st\<lparr>ts_files := g\<rparr>)"
  shows "\<exists>st2. tarMember o1 root m st = (None, st2) \<and> follows_on g st2"
  using assms(1-6) assms(7) [of st] assms(7) [of "st\<lparr>ts_stdout := ts_stdout st @ mb_name m @ [CHR 0x0A]\<rparr>"]
  by (auto simp: tarMember_all extractMember_def follows_on_def)

section \<open>The three members\<close>

definition emptyDir :: "files \<Rightarrow> path \<Rightarrow> bool" where
  "emptyDir fs root \<longleftrightarrow> cleanPath root \<and> plainDir fs root \<and> (\<forall>q. q \<noteq> [] \<longrightarrow> fl_nodes fs (root @ q) = None)"

text \<open>The file systems the extraction goes through: the directory \<open>a\<close>, the two links, the hard link.\<close>

definition withDir :: "path \<Rightarrow> files \<Rightarrow> files" where
  "withDir root fs = fs\<lparr>fl_nodes := (fl_nodes fs)(root @ [''a''] \<mapsto> Dir 448)\<rparr>"

definition withFirst :: "path \<Rightarrow> files \<Rightarrow> files" where
  "withFirst root fs =
     (let f = withDir root fs in f\<lparr>fl_nodes := (fl_nodes f)((root @ [''a'']) @ [''l''] \<mapsto> Link ''d/..'')\<rparr>)"

definition withSecond :: "path \<Rightarrow> files \<Rightarrow> files" where
  "withSecond root fs =
     (let f = withFirst root fs in f\<lparr>fl_nodes := (fl_nodes f)((root @ [''a'']) @ [''d''] \<mapsto> Link ''..'')\<rparr>)"

definition withCopy :: "path \<Rightarrow> nat \<Rightarrow> files \<Rightarrow> files" where
  "withCopy root i fs =
     (let f = withSecond root fs in f\<lparr>fl_nodes := (fl_nodes f)(root @ [''copy''] \<mapsto> File i)\<rparr>)"

lemmas staged_disks = withDir_def withFirst_def withSecond_def withCopy_def Let_def

lemma staged_free:
  assumes "emptyDir fs root"
  shows "fl_nodes fs (root @ [''a'']) = None" "fl_nodes (withDir root fs) ((root @ [''a'']) @ [''l'']) = None"
    "fl_nodes (withDir root fs) ((root @ [''a'']) @ [''d'']) = None"
    "fl_nodes (withFirst root fs) ((root @ [''a'']) @ [''d'']) = None"
    "fl_nodes (withSecond root fs) (root @ [''copy'']) = None"
  using assms by (simp_all add: staged_disks emptyDir_def)

lemma staged_plain:
  assumes "emptyDir fs root"
  shows "plainDir (withDir root fs) root" "plainDir (withDir root fs) (root @ [''a''])"
    "plainDir (withFirst root fs) root" "plainDir (withFirst root fs) (root @ [''a''])"
    "plainDir (withSecond root fs) root" "plainDir (withSecond root fs) (root @ [''a''])"
    "plainDir (withCopy root i fs) (root @ [''a''])"
proof -
  note free = staged_free [OF assms]
  show d: "plainDir (withDir root fs) root" "plainDir (withDir root fs) (root @ [''a''])"
    using assms free plainDir_put plainDir_new by (simp_all add: withDir_def emptyDir_def)
  show f: "plainDir (withFirst root fs) root" "plainDir (withFirst root fs) (root @ [''a''])"
    using d free plainDir_put by (simp_all add: withFirst_def Let_def)
  show g: "plainDir (withSecond root fs) root" "plainDir (withSecond root fs) (root @ [''a''])"
    using f free plainDir_put by (simp_all add: withSecond_def Let_def)
  show "plainDir (withCopy root i fs) (root @ [''a''])"
    using g free plainDir_put by (simp add: withCopy_def Let_def)
qed

lemma first_link_accepted:
  assumes e: "emptyDir fs root" and st: "follows_on fs st"
    and m: "mb_name m = ''a/l''" "mb_link m = ''d/..''"
  shows "extractSymlink o1 root ((root @ [''a'']) @ [''l'']) (mb_name m) m st =
    (None, st\<lparr>ts_files := withFirst root fs\<rparr>)"
proof -
  note plain = staged_plain [OF e] and free = staged_free [OF e]
  have R: "cleanPath root" "plainDir fs root" using e by (simp_all add: emptyDir_def)
  have none: "evalSymlinks (withDir root fs) ((root @ [''a'']) @ [''d'']) = NotThere"
    by (rule evalSymlinks_none) (use plain free R in simp_all)
  show ?thesis
    unfolding withFirst_def Let_def
  proof (rule extractSymlink_made [where b = "[''a'']"])
    show "\<not> escapes root (resolveArchiveLink (withDir root fs) (root @ [''a'']) (parts ''d/..''))"
      using none escapes_below [of "[''a'']" root] by (simp add: butlast_append)
    show "ensureTarParents root ((root @ [''a'']) @ [''l'']) (ts_files st) = (None, withDir root fs)"
      using parents_made [OF R(2)] R(1) free st by (simp add: withDir_def follows_on_def)
  qed (use plain R free m in \<open>simp_all add: isAbs_def hasPrefix_def isLocal_def\<close>)
qed

lemma second_link_accepted:
  assumes e: "emptyDir fs root" and st: "follows_on (withFirst root fs) st"
    and m: "mb_name m = ''a/d''" "mb_link m = ''..''"
  shows "extractSymlink o1 root ((root @ [''a'']) @ [''d'']) (mb_name m) m st =
    (None, st\<lparr>ts_files := withSecond root fs\<rparr>)"
proof -
  note plain = staged_plain [OF e] and free = staged_free [OF e]
  have R: "cleanPath root" using e by (simp add: emptyDir_def)
  show ?thesis
    unfolding withSecond_def Let_def
  proof (rule extractSymlink_made [where b = "[''a'']"])
    show "\<not> escapes root (resolveArchiveLink (withFirst root fs) (root @ [''a'']) (parts ''..''))"
      using escapes_below [of "[]" root] by simp
    show "ensureTarParents root ((root @ [''a'']) @ [''d'']) (ts_files st) = (None, withFirst root fs)"
      using parents_there [OF plain(4)] R st by (simp add: follows_on_def)
  qed (use plain R free m in \<open>simp_all add: isAbs_def hasPrefix_def isLocal_def\<close>)
qed

lemma outside_seen:
  assumes e: "emptyDir fs root" and s: "fl_nodes fs (butlast root @ [s]) = Some (File i)"
  shows "lstatAt (withSecond root fs) (root @ [''a'', ''l'', s]) = Found (File i)"
proof -
  note plain = staged_plain [OF e]
  have R: "cleanPath root" using e by (simp add: emptyDir_def)
  have links: "fl_nodes (withSecond root fs) ((root @ [''a'']) @ [''l'']) = Some (Link ''d/..'')"
      "fl_nodes (withSecond root fs) ((root @ [''a'']) @ [''d'']) = Some (Link ''..'')"
    by (simp_all add: staged_disks)
  have there: "fl_nodes (withSecond root fs) q = fl_nodes fs q" if "\<forall>t. t \<noteq> [] \<longrightarrow> q \<noteq> root @ t" for q
    using that by (auto simp: staged_disks)
  have "butlast root @ [s] \<noteq> root @ t" if "t \<noteq> []" for t
    using s e that by (metis emptyDir_def option.distinct(1))
  then have "fl_nodes (withSecond root fs) (butlast root @ [s]) = Some (File i)" using there s by simp
  moreover obtain k where "fl_nodes (withSecond root fs) (butlast root) = Some (Dir k)"
    using plainDir_node [OF plainDir_butlast [OF plain(5)]] by blast
  ultimately show ?thesis
    using links_lead_up [OF plain(6) R _ links, of maxLinks "[]"]
    by (simp add: lstatAt_def locate_def follow_def butlast_append maxLinks_def)
qed

lemma copy_accepted:
  assumes e: "emptyDir fs root" and st: "follows_on (withSecond root fs) st"
    and s: "fl_nodes fs (butlast root @ [s]) = Some (File i)" "cleanPath [s]" "CHR ''/'' \<notin> set s"
    and m: "mb_link m = ''a/l/'' @ s"
  shows "extractHardLink root (root @ [''copy'']) m st = (None, st\<lparr>ts_files := withCopy root i fs\<rparr>)"
proof -
  note plain = staged_plain [OF e] and free = staged_free [OF e]
  have R: "cleanPath root" using e by (simp add: emptyDir_def)
  have "safeTarTarget root (''a/l/'' @ s) = Inr (root @ [''a'', ''l'', s])"
    using target_below [of "''a/l/'' @ s" _ root] s parts_secret by (simp add: isAbs_def hasPrefix_def)
  moreover have "ensureTarParents root (root @ [''copy'']) (withSecond root fs) = (None, withSecond root fs)"
    using parents_there [of _ root "[]" "''copy''"] plain(5) R by simp
  moreover have "install False (root @ [''copy'']) (File i) (withSecond root fs) = Some (withCopy root i fs)"
    using install_plain [of _ "root @ [''copy'']"] plain(5) R free by (simp add: withCopy_def Let_def)
  ultimately show ?thesis
    using st outside_seen [OF e s(1)] m by (simp add: extractHardLink_def afterParents_def follows_on_def)
qed

lemma staged_run:
  assumes all: "extractsAll o1" and e: "emptyDir fs root"
    and s: "fl_nodes fs (butlast root @ [s]) = Some (File i)" "cleanPath [s]" "CHR ''/'' \<notin> set s"
  shows "\<exists>st. extractTar o1 root (stagedArchive s) True fs = (None, st) \<and> follows_on (withCopy root i fs) st"
proof -
  let ?ms = "stagedArchive s"
  have targets: "safeTarTarget root ''a/l'' = Inr ((root @ [''a'']) @ [''l''])"
      "safeTarTarget root ''a/d'' = Inr ((root @ [''a'']) @ [''d''])"
      "safeTarTarget root ''copy'' = Inr (root @ [''copy''])"
    using target_below [of "''a/l''" _ root] target_below [of "''a/d''" _ root] target_below [of "''copy''" _ root]
    by (simp_all add: isAbs_def hasPrefix_def)
  have "\<exists>st. tarMember o1 root (?ms ! 0) (tarStart fs) = (None, st) \<and> follows_on (withFirst root fs) st"
    by (rule member_step [OF all, of _ _ "(root @ [''a'']) @ [''l'']" fs])
      (use targets first_link_accepted [OF e] in \<open>simp_all add: stagedArchive_def follows_on_def tarStart_def\<close>)
  moreover have "\<exists>st. tarMember o1 root (?ms ! 1) st1 = (None, st) \<and> follows_on (withSecond root fs) st"
    if "follows_on (withFirst root fs) st1" for st1
    by (rule member_step [OF all, of _ _ "(root @ [''a'']) @ [''d'']" "withFirst root fs"])
      (use targets second_link_accepted [OF e] that in \<open>simp_all add: stagedArchive_def\<close>)
  moreover have "\<exists>st. tarMember o1 root (?ms ! 2) st1 = (None, st) \<and> follows_on (withCopy root i fs) st"
    if "follows_on (withSecond root fs) st1" for st1
    by (rule member_step [OF all, of _ _ "root @ [''copy'']" "withSecond root fs"])
      (use targets copy_accepted [OF e _ s] that in \<open>simp_all add: stagedArchive_def\<close>)
  ultimately obtain st1 st2 st3 where "tarMember o1 root (?ms ! 0) (tarStart fs) = (None, st1)"
      "tarMember o1 root (?ms ! 1) st1 = (None, st2)" "tarMember o1 root (?ms ! 2) st2 = (None, st3)"
      "follows_on (withCopy root i fs) st3"
    by metis
  moreover have "mkdirAll root 493 fs = Some fs" using e by (simp add: mkdirAll_exists emptyDir_def)
  ultimately show ?thesis
    by (simp add: extractTar_def stagedArchive_def withFiles_def follows_on_def)
qed

text \<open>C4 (error): an archive of three members reaches files outside the extraction directory.  On every
  file system, in every empty directory without links on the way to it, the symbolic link \<open>a/l\<close> to
  \<open>d/..\<close> is accepted while \<open>a/d\<close> is not there, then \<open>a/d\<close> to \<open>..\<close> is accepted, and from then on
  \<open>a/l\<close> leads to the parent of the extraction directory.  A hard link to \<open>a/l/s\<close> then makes a file \<open>s\<close>
  that lies there the file of a name inside, although the code wants the target to be an extracted file,
  and the extraction succeeds.\<close>

theorem staged_links_reach_outside:
  assumes all: "extractsAll o1" and e: "emptyDir fs root"
    and s: "fl_nodes fs (butlast root @ [s]) = Some (File i)" "cleanPath [s]" "CHR ''/'' \<notin> set s"
  shows "let res = extractTar o1 root (stagedArchive s) True fs; fs2 = ts_files (snd res)
    in fst res = None \<and> tarExtractStatus o1 res = 0 \<and>
       evalSymlinks fs2 (root @ [''a'', ''l'']) = At (butlast root) \<and>
       fl_nodes fs2 (root @ [''copy'']) = Some (File i)"
proof -
  from staged_run [OF all e s] obtain st where
    run: "extractTar o1 root (stagedArchive s) True fs = (None, st)" and st: "follows_on (withCopy root i fs) st"
    by blast
  have "cleanPath root" using e by (simp add: emptyDir_def)
  then have "evalSymlinks (withCopy root i fs) (root @ [''a'', ''l'']) = At (butlast root)"
    using links_lead_up [of "withCopy root i fs" root maxEvalLinks "[]"] staged_plain(7) [OF e, of i]
    by (simp add: evalSymlinks_def maxEvalLinks_def staged_disks)
  moreover have "fl_nodes (withCopy root i fs) (root @ [''copy'']) = Some (File i)" by (simp add: staged_disks)
  ultimately show ?thesis
    using run st all by (simp add: follows_on_def tarExtractStatus_def extractsAll_def)
qed

theorem staged_links_reach_outside_witness:
  "let res = extractTar tarDefaults [''r''] (stagedArchive ''secret'') True extractionDisk; fs2 = ts_files (snd res)
    in fst res = None \<and> tarExtractStatus tarDefaults res = 0 \<and>
       evalSymlinks fs2 ([''r''] @ [''a'', ''l'']) = At (butlast [''r'']) \<and>
       fl_nodes fs2 ([''r''] @ [''copy'']) = Some (File 0)"
  by (rule staged_links_reach_outside)
    (use extractionDisk_plain in \<open>simp_all add: extractsAll_def tarDefaults_def emptyDir_def extractionDisk_def\<close>)

end
