(* ===== verification/CpioFormat.thy ===== *)
theory CpioFormat
  imports GoLib
begin

text \<open>
  The four header layouts of \<open>cpio_linux.go\<close>: two hexadecimal ones, the octal one of POSIX and the binary
  one.  An archive is a string of bytes; a reader takes what is left of it and returns what it leaves.
  Bytes that \<open>bufio\<close> may still hold beyond the end of the input are taken as not matching a magic.
\<close>

section \<open>Headers\<close>

datatype cpioFormat = Newc | Crc | Odc | Bin

record cpioHeader =
  ch_ino :: u64
  ch_mode :: u64
  ch_uid :: u64
  ch_gid :: u64
  ch_nlink :: u64
  ch_mtime :: u64
  ch_size :: u64
  ch_devMajor :: u64
  ch_devMinor :: u64
  ch_rdevMajor :: u64
  ch_rdevMinor :: u64
  ch_check :: u64
  ch_name :: string

definition cpioMaxNameBytes :: nat where
  "cpioMaxNameBytes = 65536"

definition hexMagic :: "cpioFormat \<Rightarrow> string" where
  "hexMagic f = (if f = Crc then ''070702'' else ''070701'')"

definition odcMagic :: string where
  "odcMagic = ''070707''"

definition binMagic :: u64 where
  "binMagic = 29127"

definition nul :: char where
  "nul = CHR 0x00"

definition cpioDataAlign :: "cpioFormat \<Rightarrow> nat" where
  "cpioDataAlign f = (case f of Odc \<Rightarrow> 1 | Bin \<Rightarrow> 2 | _ \<Rightarrow> 4)"

definition cpioGap :: "nat \<Rightarrow> nat \<Rightarrow> nat" where
  "cpioGap align n = (align - n mod align) mod align"

definition cpioPadding :: "cpioFormat \<Rightarrow> nat \<Rightarrow> string" where
  "cpioPadding f n = replicate (cpioGap (cpioDataAlign f) n) nul"

section \<open>Printing numbers\<close>

text \<open>The verbs \<open>%0<w>o\<close> and \<open>%0<w>X\<close>.\<close>

definition upperDigit :: "nat \<Rightarrow> char" where
  "upperDigit d = (if d < 10 then chr (48 + d) else chr (55 + d))"

function showBase :: "nat \<Rightarrow> nat \<Rightarrow> string" where
  "showBase b n = (if b < 2 \<or> n < b then [upperDigit n] else showBase b (n div b) @ [upperDigit (n mod b)])"
  by pat_completeness auto
termination by (relation "measure snd") auto

declare showBase.simps [simp del]

definition zeroPadded :: "nat \<Rightarrow> nat \<Rightarrow> nat \<Rightarrow> string" where
  "zeroPadded b w n = replicate (w - length (showBase b n)) (CHR ''0'') @ showBase b n"

section \<open>Writing\<close>

definition twoBytes :: "u64 \<Rightarrow> string" where
  "twoBytes v = [chr (unat v mod 256), chr (unat (drop_bit 8 v) mod 256)]"

definition joinDev :: "u64 \<Rightarrow> u64 \<Rightarrow> u64" where
  "joinDev maj mnr = push_bit 8 maj OR mnr"

definition binValues :: "cpioHeader \<Rightarrow> u64 \<Rightarrow> u64 list" where
  "binValues h nameSize =
     [binMagic, joinDev (ch_devMajor h) (ch_devMinor h), ch_ino h, ch_mode h, ch_uid h, ch_gid h, ch_nlink h,
      joinDev (ch_rdevMajor h) (ch_rdevMinor h), drop_bit 16 (ch_mtime h), ch_mtime h AND 0xFFFF, nameSize,
      drop_bit 16 (ch_size h), ch_size h AND 0xFFFF]"

definition octal6 :: "u64 \<Rightarrow> string" where
  "octal6 v = zeroPadded 8 6 (unat (v AND 0x3FFFF))"

definition octal11 :: "u64 \<Rightarrow> string" where
  "octal11 v = zeroPadded 8 11 (unat (v AND 0x1FFFFFFFF))"

definition odcFields :: "cpioHeader \<Rightarrow> u64 \<Rightarrow> string list" where
  "odcFields h nameSize =
     [octal6 (joinDev (ch_devMajor h) (ch_devMinor h)), octal6 (ch_ino h), octal6 (ch_mode h), octal6 (ch_uid h),
      octal6 (ch_gid h), octal6 (ch_nlink h), octal6 (joinDev (ch_rdevMajor h) (ch_rdevMinor h)),
      octal11 (ch_mtime h), octal6 nameSize, octal11 (ch_size h)]"

definition hexValues :: "cpioHeader \<Rightarrow> u64 \<Rightarrow> u64 list" where
  "hexValues h nameSize =
     [ch_ino h, ch_mode h, ch_uid h, ch_gid h, ch_nlink h, ch_mtime h, ch_size h, ch_devMajor h, ch_devMinor h,
      ch_rdevMajor h, ch_rdevMinor h, nameSize, ch_check h]"

definition hex8 :: "u64 \<Rightarrow> string" where
  "hex8 v = zeroPadded 16 8 (unat (v AND 0xFFFFFFFF))"

text \<open>\<open>None\<close> is the error of a name that is empty or too long.\<close>

definition writeCpioHeader :: "cpioFormat \<Rightarrow> cpioHeader \<Rightarrow> string option" where
  "writeCpioHeader f h =
     (if ch_name h = [] \<or> cpioMaxNameBytes < length (ch_name h) + 1 then None
      else
        let nameSize = length (ch_name h) + 1
        in Some (case f of
             Bin \<Rightarrow> concat (map twoBytes (binValues h (of_nat nameSize))) @ ch_name h @ [nul] @ cpioPadding f (26 + nameSize)
           | Odc \<Rightarrow> odcMagic @ concat (odcFields h (of_nat nameSize)) @ ch_name h @ [nul]
           | _ \<Rightarrow> hexMagic f @ concat (map hex8 (hexValues h (of_nat nameSize))) @ ch_name h @ [nul] @
                  cpioPadding f (110 + nameSize)))"

section \<open>Reading\<close>

datatype cpioFailure =
  EndOfInput | PrematureEnd | BadMagic | InvalidHeader | InvalidNameLength | UnterminatedName | InvalidName

definition takeFull :: "nat \<Rightarrow> string \<Rightarrow> cpioFailure + string \<times> string" where
  "takeFull n input = (if length input < n then Inl PrematureEnd else Inr (take n input, drop n input))"

text \<open>The fields of a header, one width after another.\<close>

fun cutWidths :: "nat list \<Rightarrow> string \<Rightarrow> string list" where
  "cutWidths [] s = []"
| "cutWidths (w # ws) s = take w s # cutWidths ws (drop w s)"

fun parseFields :: "(string \<Rightarrow> nat option) \<Rightarrow> string list \<Rightarrow> u64 list option" where
  "parseFields p [] = Some []"
| "parseFields p (s # ss) =
     (case p s of
        None \<Rightarrow> None
      | Some n \<Rightarrow> map_option (\<lambda>ns. of_nat n # ns) (parseFields p ss))"

definition readCpioName :: "string \<Rightarrow> cpioHeader \<Rightarrow> u64 \<Rightarrow> nat \<Rightarrow> nat \<Rightarrow> cpioFailure + cpioHeader \<times> string" where
  "readCpioName input h nameSize headerSize align =
     (if nameSize = 0 \<or> cpioMaxNameBytes < unat nameSize then Inl InvalidNameLength
      else case takeFull (unat nameSize) input of
        Inl e \<Rightarrow> Inl e
      | Inr (name, input) \<Rightarrow>
          if last name \<noteq> nul then Inl UnterminatedName
          else if butlast name = [] \<or> nul \<in> set (butlast name) then Inl InvalidName
          else (case takeFull (cpioGap align (headerSize + unat nameSize)) input of
            Inl e \<Rightarrow> Inl e
          | Inr (_, input) \<Rightarrow> Inr (h\<lparr>ch_name := butlast name\<rparr>, input)))"

definition readCpioHexHeader :: "string \<Rightarrow> cpioFailure + cpioHeader \<times> string" where
  "readCpioHexHeader input =
     (case takeFull 110 input of
        Inl e \<Rightarrow> Inl e
      | Inr (header, input) \<Rightarrow>
          (case parseFields (\<lambda>s. parseUint s 16 32) (cutWidths (replicate 13 8) (drop 6 header)) of
             None \<Rightarrow> Inl InvalidHeader
           | Some v \<Rightarrow>
               readCpioName input
                 \<lparr>ch_ino = v ! 0, ch_mode = v ! 1, ch_uid = v ! 2, ch_gid = v ! 3, ch_nlink = v ! 4, ch_mtime = v ! 5,
                  ch_size = v ! 6, ch_devMajor = v ! 7, ch_devMinor = v ! 8, ch_rdevMajor = v ! 9,
                  ch_rdevMinor = v ! 10, ch_check = v ! 12, ch_name = []\<rparr> (v ! 11) 110 4))"

definition odcWidths :: "nat list" where
  "odcWidths = [6, 6, 6, 6, 6, 6, 6, 11, 6, 11]"

definition readCpioOdcHeader :: "string \<Rightarrow> cpioFailure + cpioHeader \<times> string" where
  "readCpioOdcHeader input =
     (case takeFull 76 input of
        Inl e \<Rightarrow> Inl e
      | Inr (header, input) \<Rightarrow>
          (case parseFields (\<lambda>s. parseUint (trimSpace s) 8 64) (cutWidths odcWidths (drop 6 header)) of
             None \<Rightarrow> Inl InvalidHeader
           | Some v \<Rightarrow>
               readCpioName input
                 \<lparr>ch_ino = v ! 1, ch_mode = v ! 2, ch_uid = v ! 3, ch_gid = v ! 4, ch_nlink = v ! 5, ch_mtime = v ! 7,
                  ch_size = v ! 9, ch_devMajor = drop_bit 8 (v ! 0), ch_devMinor = v ! 0 AND 0xFF,
                  ch_rdevMajor = drop_bit 8 (v ! 6), ch_rdevMinor = v ! 6 AND 0xFF, ch_check = 0, ch_name = []\<rparr>
                 (v ! 8) 76 1))"

definition fromTwoBytes :: "string \<Rightarrow> u64" where
  "fromTwoBytes s = of_nat (ord (s ! 0)) OR push_bit 8 (of_nat (ord (s ! 1)))"

definition readCpioBinHeader :: "string \<Rightarrow> cpioFailure + cpioHeader \<times> string" where
  "readCpioBinHeader input =
     (case takeFull 26 input of
        Inl e \<Rightarrow> Inl e
      | Inr (header, input) \<Rightarrow>
          let v = map fromTwoBytes (cutWidths (replicate 13 2) header)
          in readCpioName input
               \<lparr>ch_ino = v ! 2, ch_mode = v ! 3, ch_uid = v ! 4, ch_gid = v ! 5, ch_nlink = v ! 6,
                ch_mtime = push_bit 16 (v ! 8) OR v ! 9, ch_size = push_bit 16 (v ! 11) OR v ! 12,
                ch_devMajor = drop_bit 8 (v ! 1), ch_devMinor = v ! 1 AND 0xFF,
                ch_rdevMajor = drop_bit 8 (v ! 7), ch_rdevMinor = v ! 7 AND 0xFF, ch_check = 0, ch_name = []\<rparr>
               (v ! 10) 26 2)"

definition withFormat :: "cpioFormat \<Rightarrow> cpioFailure + cpioHeader \<times> string \<Rightarrow> cpioFailure + cpioHeader \<times> cpioFormat \<times> string" where
  "withFormat f r = (case r of Inl e \<Rightarrow> Inl e | Inr (h, input) \<Rightarrow> Inr (h, f, input))"

definition readCpioHeader :: "string \<Rightarrow> cpioFailure + cpioHeader \<times> cpioFormat \<times> string" where
  "readCpioHeader input =
     (if length input < 2 then Inl EndOfInput
      else if take 6 input = hexMagic Newc then withFormat Newc (readCpioHexHeader input)
      else if take 6 input = hexMagic Crc then withFormat Crc (readCpioHexHeader input)
      else if take 6 input = odcMagic then withFormat Odc (readCpioOdcHeader input)
      else if fromTwoBytes input = binMagic then withFormat Bin (readCpioBinHeader input)
      else Inl BadMagic)"

end
