(* ===== verification/CpioRun.thy ===== *)
theory CpioRun
  imports CpioFormat TarCreate TextIO
begin

text \<open>
  The command \<open>cpio\<close> of \<open>cpio_linux.go\<close>: its options, what \<open>cpio -o\<close> writes for a list of paths, and the
  reading of an archive by \<open>cpio -i\<close> and \<open>cpio -t\<close>.  The file system is the one of \<open>tar\<close>; what \<open>stat\<close>
  gives for a path, whether a file is at least as new as a member and whether a directory is empty are
  parameters.  The state of a reading is that of \<open>tar\<close>, with status 2 for the failure of a member.
\<close>

section \<open>Options\<close>

record cpioOptions =
  cp_operation :: char
  cp_format :: cpioFormat
  cp_archive :: string
  cp_outputDir :: string
  cp_blockSize :: nat
  cp_verbose :: bool
  cp_quiet :: bool
  cp_makeDirs :: bool
  cp_unlink :: bool
  cp_keepTimes :: bool
  cp_toStdout :: bool
  cp_nullNames :: bool
  cp_dereference :: bool
  cp_nonMatching :: bool
  cp_link :: bool
  cp_absolute :: bool
  cp_patterns :: "string list"

definition cpioDefaults :: cpioOptions where
  "cpioDefaults =
     \<lparr>cp_operation = noChoice, cp_format = Newc, cp_archive = ''-'', cp_outputDir = ''.'', cp_blockSize = 512,
      cp_verbose = False, cp_quiet = False, cp_makeDirs = False, cp_unlink = False, cp_keepTimes = False,
      cp_toStdout = False, cp_nullNames = False, cp_dereference = False, cp_nonMatching = False, cp_link = False,
      cp_absolute = False, cp_patterns = []\<rparr>"

definition parseCpioFormat :: "string \<Rightarrow> cpioFormat option" where
  "parseCpioFormat s =
     (let t = toLower s
      in if t = ''newc'' then Some Newc else if t = ''crc'' then Some Crc
         else if t = ''odc'' then Some Odc else if t = ''bin'' then Some Bin else None)"

text \<open>The exit status of a rejected command line, or the options and the operands.\<close>

definition setOperation :: "char \<Rightarrow> cpioOptions \<Rightarrow> nat + cpioOptions" where
  "setOperation c o1 =
     (if cp_operation o1 \<noteq> noChoice \<and> cp_operation o1 \<noteq> c then Inl 2 else Inr (o1\<lparr>cp_operation := c\<rparr>))"

definition cpioValue :: "string option \<Rightarrow> string list \<Rightarrow> (string \<Rightarrow> nat + cpioOptions) \<Rightarrow> nat + cpioOptions \<times> string list" where
  "cpioValue given rest k =
     (case given of
        Some v \<Rightarrow> map_sum id (\<lambda>o2. (o2, rest)) (k v)
      | None \<Rightarrow> (case rest of [] \<Rightarrow> Inl 64 | v # rest \<Rightarrow> map_sum id (\<lambda>o2. (o2, rest)) (k v)))"

definition cpioFlag :: "string \<Rightarrow> cpioOptions \<Rightarrow> cpioOptions option" where
  "cpioFlag name o1 =
     (if name \<in> {''-v'', ''--verbose''} then Some (o1\<lparr>cp_verbose := True\<rparr>)
      else if name = ''--quiet'' then Some (o1\<lparr>cp_quiet := True\<rparr>)
      else if name = ''-c'' then Some (o1\<lparr>cp_format := Odc\<rparr>)
      else if name = ''-B'' then Some (o1\<lparr>cp_blockSize := 5120\<rparr>)
      else if name \<in> {''-d'', ''--make-directories''} then Some (o1\<lparr>cp_makeDirs := True\<rparr>)
      else if name \<in> {''-u'', ''--unconditional''} then Some (o1\<lparr>cp_unlink := True\<rparr>)
      else if name \<in> {''-m'', ''--preserve-modification-time''} then Some (o1\<lparr>cp_keepTimes := True\<rparr>)
      else if name = ''--to-stdout'' then Some (o1\<lparr>cp_toStdout := True\<rparr>)
      else if name \<in> {''-0'', ''--null''} then Some (o1\<lparr>cp_nullNames := True\<rparr>)
      else if name \<in> {''-L'', ''--dereference''} then Some (o1\<lparr>cp_dereference := True\<rparr>)
      else if name \<in> {''-f'', ''--nonmatching''} then Some (o1\<lparr>cp_nonMatching := True\<rparr>)
      else if name \<in> {''-l'', ''--link''} then Some (o1\<lparr>cp_link := True\<rparr>)
      else if name = ''--absolute-filenames'' then Some (o1\<lparr>cp_absolute := True\<rparr>)
      else if name = ''--no-absolute-filenames'' then Some (o1\<lparr>cp_absolute := False\<rparr>)
      else if name \<in> {''-a'', ''--reset-access-time'', ''--no-preserve-owner'', ''-V'', ''--dot''} then Some o1
      else None)"

text \<open>The paths to archive, or the patterns of a file; \<open>None\<close> is a line that is too long.\<close>

definition cpioInputNames :: "bool \<Rightarrow> string \<Rightarrow> string list option" where
  "cpioInputNames nullNames content =
     (if nullNames then Some [n \<leftarrow> splitByte nul content. n \<noteq> []]
      else case scanLines content of (ls, good) \<Rightarrow>
        if good then Some [n \<leftarrow> map (\<lambda>l. trimSuffix l [CHR 0x0D]) ls. n \<noteq> []] else None)"

text \<open>\<open>readPatterns\<close> gives the patterns in a file.  The words that a cluster is split into stand for the bytes of
  its letters, which are ASCII.\<close>

definition cpioOption ::
  "(string \<Rightarrow> string list option) \<Rightarrow> string \<Rightarrow> string option \<Rightarrow> string list \<Rightarrow> cpioOptions \<Rightarrow>
     (nat + cpioOptions \<times> string list) option" where
  "cpioOption readPatterns name given rest o1 =
     (let plain = (\<lambda>r. Some (map_sum id (\<lambda>o2. (o2, rest)) r))
      in if name \<in> {''-o'', ''--create''} then plain (setOperation (CHR ''o'') o1)
         else if name \<in> {''-i'', ''--extract''} then
           plain (if cp_operation o1 = CHR ''t'' then Inr o1 else setOperation (CHR ''i'') o1)
         else if name \<in> {''-t'', ''--list''} then
           plain (if cp_operation o1 \<in> {CHR ''o'', CHR ''p''} then Inl 2 else Inr (o1\<lparr>cp_operation := CHR ''t''\<rparr>))
         else if name \<in> {''-p'', ''--pass-through''} then plain (setOperation (CHR ''p'') o1)
         else if name \<in> {''-F'', ''--file'', ''-I'', ''-O''} then
           Some (cpioValue given rest (\<lambda>v. Inr (o1\<lparr>cp_archive := v\<rparr>)))
         else if name \<in> {''-H'', ''--format''} then
           Some (cpioValue given rest (\<lambda>v. case parseCpioFormat v of
             None \<Rightarrow> Inl 2 | Some f \<Rightarrow> Inr (o1\<lparr>cp_format := f\<rparr>)))
         else if name \<in> {''-C'', ''--io-size'', ''--block-size''} then
           Some (cpioValue given rest (\<lambda>v. case parseUint v 10 32 of
             None \<Rightarrow> Inl 2
           | Some n \<Rightarrow> if n = 0 then Inl 2
                       else Inr (o1\<lparr>cp_blockSize := (if name = ''--block-size'' then n * 512 else n)\<rparr>)))
         else if name \<in> {''-E'', ''--pattern-file''} then
           Some (cpioValue given rest (\<lambda>v. case readPatterns v of
             None \<Rightarrow> Inl 2 | Some ps \<Rightarrow> Inr (o1\<lparr>cp_patterns := cp_patterns o1 @ ps\<rparr>)))
         else if name \<in> {''-R'', ''--owner''} then Some (cpioValue given rest (\<lambda>v. Inr o1))
         else (case cpioFlag name o1 of None \<Rightarrow> None | Some o2 \<Rightarrow> plain (Inr o2)))"

fun cpioArguments ::
  "(string \<Rightarrow> string list option) \<Rightarrow> nat \<Rightarrow> string list \<Rightarrow> cpioOptions \<Rightarrow> string list \<Rightarrow> nat + cpioOptions \<times> string list" where
  "cpioArguments readPatterns 0 args o1 operands = Inr (o1, operands)"
| "cpioArguments readPatterns (Suc n) [] o1 operands = Inr (o1, operands)"
| "cpioArguments readPatterns (Suc n) (arg # rest) o1 operands =
     (let eq = (if hasPrefix arg ''--'' then indexByte arg (CHR ''='') else None);
          name = (case eq of None \<Rightarrow> arg | Some i \<Rightarrow> take i arg);
          given = map_option (\<lambda>i. drop (i + 1) arg) eq
      in case cpioOption readPatterns name given rest o1 of
           Some (Inl status) \<Rightarrow> Inl status
         | Some (Inr (o2, rest2)) \<Rightarrow> cpioArguments readPatterns n rest2 o2 operands
         | None \<Rightarrow>
             if name = ''--'' then Inr (o1, operands @ rest)
             else if 1 < length arg \<and> hd arg = CHR ''-'' then
               (if hasPrefix arg ''--'' then Inl 64
                else if 2 < length arg then
                  cpioArguments readPatterns n (take 2 arg # map (\<lambda>c. [CHR ''-'', c]) (drop 2 arg) @ rest) o1 operands
                else Inl 64)
             else cpioArguments readPatterns n rest o1 (operands @ [arg]))"

text \<open>Twice the bytes of the arguments and one round for each are enough: a cluster is split once, into words
  that are not split again.\<close>

definition parseCpioOptions :: "(string \<Rightarrow> string list option) \<Rightarrow> string list \<Rightarrow> nat + cpioOptions" where
  "parseCpioOptions readPatterns args =
     (case cpioArguments readPatterns (2 * length (concat args) + length args) args cpioDefaults [] of
        Inl status \<Rightarrow> Inl status
      | Inr (o1, operands) \<Rightarrow>
          if cp_operation o1 = noChoice then Inl 2
          else if cp_operation o1 = CHR ''p'' then
            (if length operands \<noteq> 1 then Inl 2 else Inr (o1\<lparr>cp_outputDir := hd operands\<rparr>))
          else if cp_operation o1 \<in> {CHR ''i'', CHR ''t''} then Inr (o1\<lparr>cp_patterns := cp_patterns o1 @ operands\<rparr>)
          else if operands \<noteq> [] then Inl 2 else Inr o1)"

section \<open>Writing an archive\<close>

datatype statKind = StatDirectory | StatSymlink | StatRegular | StatOther

text \<open>\<open>ct_data\<close> is the target of a symbolic link or what a file holds when it is read.\<close>

record cpioStat =
  ct_kind :: statKind
  ct_ino :: u64
  ct_mode :: u64
  ct_uid :: u64
  ct_gid :: u64
  ct_nlink :: u64
  ct_mtime :: u64
  ct_dev :: u64
  ct_rdev :: u64
  ct_size :: u64
  ct_data :: string
  ct_readable :: bool

definition deviceMajor :: "u64 \<Rightarrow> u64" where
  "deviceMajor d = drop_bit 8 d AND 0xFFF"

definition deviceMinor :: "u64 \<Rightarrow> u64" where
  "deviceMinor d = (d AND 0xFF) OR (drop_bit 12 d AND 0xFFF00)"

definition cpioMemberName :: "string \<Rightarrow> string" where
  "cpioMemberName name =
     (if isAbs name then joinStrings (cleanRooted [] (parts name)) ''/'' else pathName ''.'' (cleanLoop [] (parts name)))"

definition cpioChecksum :: "string \<Rightarrow> u64" where
  "cpioChecksum s = sum_list (map (\<lambda>c. of_nat (ord c)) s) AND 0xFFFFFFFF"

definition memberHeader :: "cpioFormat \<Rightarrow> cpioStat \<Rightarrow> string \<Rightarrow> cpioHeader" where
  "memberHeader f s name =
     (let linkOrFile = (ct_kind s = StatSymlink \<or> ct_kind s = StatRegular)
      in \<lparr>ch_ino = ct_ino s, ch_mode = ct_mode s, ch_uid = ct_uid s, ch_gid = ct_gid s, ch_nlink = ct_nlink s,
          ch_mtime = ct_mtime s,
          ch_size = (case ct_kind s of StatSymlink \<Rightarrow> of_nat (length (ct_data s)) | StatRegular \<Rightarrow> ct_size s | _ \<Rightarrow> 0),
          ch_devMajor = deviceMajor (ct_dev s), ch_devMinor = deviceMinor (ct_dev s),
          ch_rdevMajor = deviceMajor (ct_rdev s), ch_rdevMinor = deviceMinor (ct_rdev s),
          ch_check = (if f = Crc \<and> linkOrFile then cpioChecksum (ct_data s) else 0), ch_name = name\<rparr>)"

text \<open>Whether the path was archived, and the archive so far.\<close>

definition writeCpioPath :: "cpioOptions \<Rightarrow> (bool \<Rightarrow> string \<Rightarrow> cpioStat option) \<Rightarrow> string \<Rightarrow> string \<Rightarrow> string \<Rightarrow> bool \<times> string" where
  "writeCpioPath o1 look path name out =
     (case look (cp_dereference o1) path of
        None \<Rightarrow> (False, out)
      | Some s \<Rightarrow>
          let h = memberHeader (cp_format o1) s name; file = (ct_kind s = StatRegular)
          in if file \<and> 0xFFFFFFFF < ct_size s then (False, out)
             else if file \<and> \<not> ct_readable s then (False, out)
             else (case writeCpioHeader (cp_format o1) h of
               None \<Rightarrow> (False, out)
             | Some header \<Rightarrow>
                 let out = out @ header; size_now = unat (ch_size h);
                     content = (if ct_kind s = StatSymlink \<or> file then ct_data s else [])
                 in if file \<and> cp_format o1 \<noteq> Crc \<and> length content < size_now then (False, out @ content)
                    else (True, out @ (if file \<and> cp_format o1 \<noteq> Crc then take size_now content else content) @
                                cpioPadding (cp_format o1) size_now)))"

fun writeCpioPaths :: "cpioOptions \<Rightarrow> (bool \<Rightarrow> string \<Rightarrow> cpioStat option) \<Rightarrow> string list \<Rightarrow> bool \<Rightarrow> string \<Rightarrow> bool \<times> string" where
  "writeCpioPaths o1 look [] failed out = (failed, out)"
| "writeCpioPaths o1 look (p # ps) failed out =
     (case writeCpioPath o1 look p (cpioMemberName p) out of (good, out) \<Rightarrow>
        writeCpioPaths o1 look ps (failed \<or> \<not> good) out)"

definition cpioTrailer :: string where
  "cpioTrailer = ''TRAILER!!!''"

definition trailerHeader :: cpioHeader where
  "trailerHeader =
     \<lparr>ch_ino = 0, ch_mode = 0, ch_uid = 0, ch_gid = 0, ch_nlink = 1, ch_mtime = 0, ch_size = 0, ch_devMajor = 0,
      ch_devMinor = 0, ch_rdevMajor = 0, ch_rdevMinor = 0, ch_check = 0, ch_name = cpioTrailer\<rparr>"

text \<open>The archive, rounded out to whole blocks, and whether everything went into it.  This is the part after the
  output has been opened; with an archive named on the command line the code first checks the operands
  against it (\<open>validateTarCreateSources\<close> of \<open>TarCreate\<close>) and creates it, with standard output it does neither.\<close>

definition createCpio :: "cpioOptions \<Rightarrow> (bool \<Rightarrow> string \<Rightarrow> cpioStat option) \<Rightarrow> string list \<Rightarrow> bool \<times> string" where
  "createCpio o1 look paths =
     (case writeCpioPaths o1 look paths False [] of (failed, out) \<Rightarrow>
        (case writeCpioHeader (cp_format o1) trailerHeader of
           None \<Rightarrow> (False, out)
         | Some header \<Rightarrow>
             let out = out @ header
             in (\<not> failed, out @ replicate (cpioGap (cp_blockSize o1) (length out)) nul)))"

definition reportBlocks :: "cpioOptions \<Rightarrow> nat \<Rightarrow> string" where
  "reportBlocks o1 n =
     (if cp_quiet o1 then []
      else let blocks = (n + cp_blockSize o1 - 1) div cp_blockSize o1
           in if blocks = 1 then ''1 block'' @ [CHR 0x0A] else showDec blocks @ '' blocks'' @ [CHR 0x0A])"

section \<open>Reading an archive\<close>

record cpioHost =
  hc_upToDate :: "files \<Rightarrow> path \<Rightarrow> u64 \<Rightarrow> bool"
  hc_isEmpty :: "files \<Rightarrow> path \<Rightarrow> bool"
  hc_longLine :: "cpioHeader \<Rightarrow> string \<Rightarrow> string"

definition cpioSelected :: "cpioOptions \<Rightarrow> string \<Rightarrow> bool" where
  "cpioSelected o1 name \<longleftrightarrow>
     cp_patterns o1 = [] \<or> list_ex (\<lambda>p. tarPatternMatch p name) (cp_patterns o1) \<noteq> cp_nonMatching o1"

text \<open>Whether there was enough to skip, and what is left.\<close>

definition skipCpioAlign :: "nat \<Rightarrow> nat \<Rightarrow> string \<Rightarrow> bool \<times> string" where
  "skipCpioAlign align n input = (cpioGap align n \<le> length input, drop (cpioGap align n) input)"

definition skipCpioData :: "cpioFormat \<Rightarrow> nat \<Rightarrow> string \<Rightarrow> bool \<times> string" where
  "skipCpioData f n input =
     (if length input < n then (False, []) else skipCpioAlign (cpioDataAlign f) n (drop n input))"

text \<open>\<open>os.Remove\<close>, whose failure is ignored.\<close>

definition removeNode :: "cpioHost \<Rightarrow> path \<Rightarrow> files \<Rightarrow> files" where
  "removeNode h p fs =
     (case locate fs p of
        At q \<Rightarrow>
          (case fl_nodes fs q of
             None \<Rightarrow> fs
           | Some (Dir _) \<Rightarrow> if q \<noteq> [] \<and> hc_isEmpty h fs q then fs\<lparr>fl_nodes := (fl_nodes fs)(q := None)\<rparr> else fs
           | Some _ \<Rightarrow> fs\<lparr>fl_nodes := (fl_nodes fs)(q := None)\<rparr>)
      | _ \<Rightarrow> fs)"

text \<open>A member that was extracted or not, the input after it, and the state.\<close>

type_synonym extracted = "bool \<times> string \<times> tarState"

definition extractArchiveRegular :: "path \<Rightarrow> path \<Rightarrow> nat \<Rightarrow> nat \<Rightarrow> string \<Rightarrow> tarState \<Rightarrow> extracted" where
  "extractArchiveRegular root target n mode input st =
     (case ensureTarParents root target (ts_files st) of
        (Some _, fs) \<Rightarrow> (False, input, st\<lparr>ts_files := fs\<rparr>)
      | (None, fs) \<Rightarrow>
          let st = st\<lparr>ts_files := fs\<rparr>;
              extract =
                (if length input < n then (False, [], st)
                 else (case extractTarRegular target input n mode fs of
                   (Some _, fs) \<Rightarrow> (False, drop n input, st\<lparr>ts_files := fs\<rparr>)
                 | (None, fs) \<Rightarrow> (True, drop n input, st\<lparr>ts_files := fs\<rparr>)))
          in (case lstatAt fs target of
               Found (File _) \<Rightarrow> extract
             | Found _ \<Rightarrow> (False, input, st)
             | Missing \<Rightarrow> extract
             | StatError \<Rightarrow> (False, input, st)))"

definition extractCpioSymlink :: "cpioHost \<Rightarrow> cpioOptions \<Rightarrow> path \<Rightarrow> path \<Rightarrow> cpioHeader \<Rightarrow> string \<Rightarrow> tarState \<Rightarrow> extracted" where
  "extractCpioSymlink h o1 root target header input st =
     (let n = unat (ch_size header)
      in if 4096 < n then (False, input, st)
         else if length input < n then (False, [], st)
         else
           let link = take n input; input = drop n input
           in case validateTarSymlink root target (ch_name header) link (ts_files st) of
                Some _ \<Rightarrow> (False, input, st)
              | None \<Rightarrow>
                  let fs = (if cp_unlink o1 then removeNode h target (ts_files st) else ts_files st);
                      st = st\<lparr>ts_files := fs\<rparr>
                  in if link = [] \<or> nul \<in> set link then (False, input, st)
                     else (case install False target (Link link) fs of
                       None \<Rightarrow> (False, input, st)
                     | Some fs \<Rightarrow> (True, input, st\<lparr>ts_files := fs\<rparr>)))"

definition extractCpioDirectory :: "path \<Rightarrow> nat \<Rightarrow> string \<Rightarrow> tarState \<Rightarrow> extracted" where
  "extractCpioDirectory target mode input st =
     (let add = (\<lambda>fs. (True, input, st\<lparr>ts_files := fs, ts_directories := ts_directories st @ [(target, mode)]\<rparr>))
      in case lstatAt (ts_files st) target of
           Found (Dir _) \<Rightarrow> add (ts_files st)
         | Found _ \<Rightarrow> (False, input, st)
         | _ \<Rightarrow> (case install False target (Dir 448) (ts_files st) of
             None \<Rightarrow> (False, input, st)
           | Some fs \<Rightarrow> add fs))"

definition modeType :: "cpioHeader \<Rightarrow> u64" where
  "modeType header = ch_mode header AND 0xF000"

definition modeBits :: "u64 \<Rightarrow> cpioHeader \<Rightarrow> nat" where
  "modeBits m header = unat (ch_mode header AND m)"

text \<open>The body of \<open>extractCpioMember\<close> after the checks.\<close>

definition extractCpioKind ::
  "cpioHost \<Rightarrow> cpioOptions \<Rightarrow> cpioFormat \<Rightarrow> path \<Rightarrow> path \<Rightarrow> cpioHeader \<Rightarrow> string \<Rightarrow> tarState \<Rightarrow> extracted" where
  "extractCpioKind h o1 f root target header input st =
     (let n = unat (ch_size header)
      in if modeType header = 0x4000 then extractCpioDirectory target (modeBits 0xFFF header) input st
         else if modeType header = 0x8000 then
           (let st = (if cp_unlink o1 then st\<lparr>ts_files := removeNode h target (ts_files st)\<rparr> else st)
            in case extractArchiveRegular root target n (modeBits 0x1FF header) input st of
                 (False, input, st) \<Rightarrow> (False, input, st)
               | (True, input, st) \<Rightarrow>
                   (case skipCpioAlign (cpioDataAlign f) n input of
                      (False, input) \<Rightarrow> (False, input, st)
                    | (True, input) \<Rightarrow> (True, input, st\<lparr>ts_extracted := ts_extracted st + int n\<rparr>)))
         else if modeType header = 0xA000 then
           (case extractCpioSymlink h o1 root target header input st of (good, input, st) \<Rightarrow>
              (case skipCpioAlign (cpioDataAlign f) n input of (aligned, input) \<Rightarrow> (good \<and> aligned, input, st)))
         else (False, snd (skipCpioData f n input), st))"

definition extractCpioMember ::
  "cpioHost \<Rightarrow> cpioOptions \<Rightarrow> cpioFormat \<Rightarrow> path \<Rightarrow> cpioHeader \<Rightarrow> string \<Rightarrow> tarState \<Rightarrow> extracted" where
  "extractCpioMember h o1 f root header input st =
     (let skipped = snd (skipCpioData f (unat (ch_size header)) input)
      in case safeTarTarget root (ch_name header) of
           Inl _ \<Rightarrow> (False, skipped, st)
         | Inr target \<Rightarrow>
             let proceed = (\<lambda>st.
               if \<not> cp_unlink o1 \<and> modeType header \<noteq> 0x4000 \<and>
                  (case lstatAt (ts_files st) target of
                     Found _ \<Rightarrow> hc_upToDate h (ts_files st) target (ch_mtime header) | _ \<Rightarrow> False)
               then (False, skipped, st)
               else extractCpioKind h o1 f root target header input st)
             in if cp_makeDirs o1 then
                  (case ensureTarParents root target (ts_files st) of
                     (Some _, fs) \<Rightarrow> (False, skipped, st\<lparr>ts_files := fs\<rparr>)
                   | (None, fs) \<Rightarrow> proceed (st\<lparr>ts_files := fs\<rparr>))
                else proceed st)"

definition printLine :: "string \<Rightarrow> tarState \<Rightarrow> tarState" where
  "printLine line st = st\<lparr>ts_stdout := ts_stdout st @ line @ [CHR 0x0A]\<rparr>"

definition listCpioMember ::
  "cpioHost \<Rightarrow> cpioOptions \<Rightarrow> cpioFormat \<Rightarrow> cpioHeader \<Rightarrow> string \<Rightarrow> tarState \<Rightarrow> extracted" where
  "listCpioMember h o1 f header input st =
     (let n = unat (ch_size header)
      in if \<not> cp_verbose o1 then
           (case skipCpioData f n input of (good, input) \<Rightarrow> (good, input, printLine (ch_name header) st))
         else if modeType header = 0xA000 \<and> n \<le> 4096 then
           (if length input < n then (False, [], st)
            else case skipCpioAlign (cpioDataAlign f) n (drop n input) of (good, rest) \<Rightarrow>
              (good, rest, printLine (hc_longLine h header (take n input)) st))
         else
           (case skipCpioData f n input of (good, input) \<Rightarrow> (good, input, printLine (hc_longLine h header []) st)))"

datatype cpioError = CpioHeaderError cpioFailure | CpioTooLarge | CpioPremature | CpioNoRoot | CpioDelayed

text \<open>One member: an error ends the reading.\<close>

definition readCpioMember ::
  "cpioHost \<Rightarrow> cpioOptions \<Rightarrow> path \<Rightarrow> cpioHeader \<Rightarrow> cpioFormat \<Rightarrow> string \<Rightarrow> tarState \<Rightarrow> cpioError option \<times> string \<times> tarState" where
  "readCpioMember h o1 root header f input st =
     (let n = unat (ch_size header);
          ending = (\<lambda>(good, input, st). (if good then None else Some CpioPremature, input, st))
      in if maxTarBytes - ts_extracted st < int n then (Some CpioTooLarge, input, st)
         else if \<not> cpioSelected o1 (ch_name header) then
           (case skipCpioData f n input of (good, input) \<Rightarrow> ending (good, input, st))
         else if cp_operation o1 = CHR ''t'' then ending (listCpioMember h o1 f header input st)
         else if cp_toStdout o1 then
           (let st = st\<lparr>ts_stdout := ts_stdout st @ take n input\<rparr>
            in case skipCpioData f n input of (good, input) \<Rightarrow> ending (good, input, st))
         else
           (case extractCpioMember h o1 f root header input st of (good, input, st) \<Rightarrow>
              (None, input, if good then st else st\<lparr>ts_status := 2\<rparr>)))"

fun cpioLoop :: "cpioHost \<Rightarrow> cpioOptions \<Rightarrow> path \<Rightarrow> nat \<Rightarrow> string \<Rightarrow> tarState \<Rightarrow> cpioError option \<times> tarState" where
  "cpioLoop h o1 root 0 input st = (Some CpioPremature, st)"
| "cpioLoop h o1 root (Suc n) input st =
     (case readCpioHeader input of
        Inl EndOfInput \<Rightarrow> (Some CpioPremature, st)
      | Inl e \<Rightarrow> (Some (CpioHeaderError e), st)
      | Inr (header, f, input) \<Rightarrow>
          if ch_name header = cpioTrailer then (None, st)
          else (case readCpioMember h o1 root header f input st of
            (Some e, input, st) \<Rightarrow> (Some e, st)
          | (None, input, st) \<Rightarrow> cpioLoop h o1 root n input st))"

text \<open>The failures of \<open>Chmod\<close> are ignored.\<close>

fun restoreCpioDirectories :: "(path \<times> nat) list \<Rightarrow> files \<Rightarrow> files" where
  "restoreCpioDirectories [] fs = fs"
| "restoreCpioDirectories ((p, mode) # ds) fs =
     restoreCpioDirectories ds (case chmod p mode fs of None \<Rightarrow> fs | Some fs \<Rightarrow> fs)"

definition readCpio :: "cpioHost \<Rightarrow> cpioOptions \<Rightarrow> path \<Rightarrow> string \<Rightarrow> files \<Rightarrow> cpioError option \<times> tarState" where
  "readCpio h o1 root input fs =
     (let extracting = (cp_operation o1 = CHR ''i'' \<and> \<not> cp_toStdout o1)
      in case (if extracting then mkdirAll root 493 fs else Some fs) of
           None \<Rightarrow> (Some CpioNoRoot, tarStart fs)
         | Some fs \<Rightarrow>
             (case cpioLoop h o1 root (length input) input (tarStart fs) of
                (Some e, st) \<Rightarrow> (Some e, st)
              | (None, st) \<Rightarrow>
                  let st = st\<lparr>ts_files := restoreCpioDirectories (rev (ts_directories st)) (ts_files st)\<rparr>
                  in (if ts_status st \<noteq> 0 then Some CpioDelayed else None, st)))"

end
