(* ===== verification/CpioRound.thy ===== *)
theory CpioRound
  imports CpioFormat
begin

text \<open>
  Reading a header that was written: \<open>narrow\<close> is what the fields of a layout keep of a header, and
  \<open>header_reads_back\<close> shows that exactly this comes back, with the rest of the archive untouched.
\<close>

section \<open>Numbers\<close>

fun digitsOf :: "nat \<Rightarrow> nat \<Rightarrow> nat \<Rightarrow> string" where
  "digitsOf b 0 n = []"
| "digitsOf b (Suc w) n = digitsOf b w (n div b) @ [upperDigit (n mod b)]"

lemma length_digitsOf [simp]: "length (digitsOf b w n) = w"
  by (induction w arbitrary: n) simp_all

lemma upperDigit_zero [simp]: "upperDigit 0 = CHR ''0''"
  using chr_ord [of "CHR ''0''"] by (simp add: upperDigit_def ord_def)

lemma digitsOf_zero: "digitsOf b w 0 = replicate w (CHR ''0'')"
  by (induction w) (simp_all add: replicate_append_same)

lemma zeroPadded_digits: "1 < b \<Longrightarrow> n < b ^ Suc w \<Longrightarrow> zeroPadded b (Suc w) n = digitsOf b (Suc w) n"
proof (induction w arbitrary: n)
  case 0
  then show ?case by (simp add: zeroPadded_def showBase.simps [of b n])
next
  case (Suc w)
  show ?case
  proof (cases "n < b")
    case True
    then show ?thesis
      by (simp add: zeroPadded_def showBase.simps [of b n] digitsOf_zero replicate_append_same [symmetric])
  next
    case False
    have "n div b < b ^ Suc w" using Suc.prems by (simp add: less_mult_imp_div_less mult.commute)
    from Suc.IH [OF Suc.prems(1) this] show ?thesis
      using False Suc.prems(1) by (simp add: zeroPadded_def showBase.simps [of b n])
  qed
qed

lemma digitVal_upperDigit: "d < 36 \<Longrightarrow> digitVal (upperDigit d) = Some d"
  by (auto simp: digitVal_def upperDigit_def Let_def)

lemma parse_digitsOf:
  "1 < b \<Longrightarrow> b \<le> 36 \<Longrightarrow> n < b ^ w \<Longrightarrow> n \<le> m \<Longrightarrow> parseDigits False b m 0 (digitsOf b w n) = Some n"
proof (induction w arbitrary: n)
  case (Suc w)
  have d: "n mod b < b" "n mod b < 36" using Suc.prems less_le_trans [of "n mod b" b 36] by simp_all
  have "n div b < b ^ w" using Suc.prems(1,3) by (simp add: less_mult_imp_div_less mult.commute)
  moreover have "n div b \<le> m" using Suc.prems(4) by (meson div_le_dividend le_trans)
  ultimately show ?case
    using Suc.IH [of "n div b"] Suc.prems d
    by (simp add: parseDigits_append digitVal_upperDigit [OF d(2)] not_le)
qed simp

lemma parseUint_digitsOf:
  assumes "1 < b" "b \<le> 36" "n < b ^ Suc w" "n < 2 ^ k"
  shows "parseUint (digitsOf b (Suc w) n) b k = Some n"
proof -
  have "n \<le> 2 ^ k - 1" using assms(4) by simp
  from parse_digitsOf [OF assms(1-3) this] show ?thesis
    using assms(1) by (simp add: parseUint_def)
qed

lemma upperDigit_noSpace: "d < 36 \<Longrightarrow> \<not> isSpaceByte (upperDigit d)"
  by (auto simp: isSpaceByte_def upperDigit_def)

lemma digitsOf_noSpace: "c \<in> set (digitsOf b w n) \<Longrightarrow> 1 < b \<Longrightarrow> b \<le> 36 \<Longrightarrow> \<not> isSpaceByte c"
proof (induction w arbitrary: n)
  case (Suc w)
  have "n mod b < 36" using Suc.prems less_le_trans [of "n mod b" b 36] by simp
  then show ?case using Suc upperDigit_noSpace by auto
qed simp

lemma trimSpace_none: "\<forall>c \<in> set s. \<not> isSpaceByte c \<Longrightarrow> trimSpace s = s"
proof -
  assume s: "\<forall>c \<in> set s. \<not> isSpaceByte c"
  have "dropWhile isSpaceByte t = t" if "set t = set s" for t using s that by (cases t) auto
  then show ?thesis by (simp add: trimSpace_def)
qed

section \<open>Fields\<close>

lemma cutWidths_concat: "cutWidths (map length xs) (concat xs @ rest) = xs"
  by (induction xs arbitrary: rest) simp_all

lemma parseFields_all: "\<forall>n \<in> set ns. p (f n) = Some n \<Longrightarrow> parseFields p (map f ns) = Some (map of_nat ns)"
  by (induction ns) simp_all

lemma masks: "(0xFFFF :: u64) = mask 16" "(0xFFFFFFFF :: u64) = mask 32" "(0x3FFFF :: u64) = mask 18"
    "(0x1FFFFFFFF :: u64) = mask 33" "(0xFF :: u64) = mask 8"
  by (simp_all add: mask_eq_exp_minus_1)

lemma unat_masked: "unat (v AND mask k :: u64) < 2 ^ k"
  by (simp add: unsigned_take_bit_eq flip: take_bit_eq_mask)

lemma hex8_read: "length (hex8 v) = 8 \<and> parseUint (hex8 v) 16 32 = Some (unat (v AND 0xFFFFFFFF))"
proof -
  have "unat (v AND 0xFFFFFFFF) < 2 ^ 32" unfolding masks by (rule unat_masked)
  then have b: "unat (v AND 0xFFFFFFFF) < 16 ^ Suc 7" by simp
  then have "hex8 v = digitsOf 16 (Suc 7) (unat (v AND 0xFFFFFFFF))"
    unfolding hex8_def using zeroPadded_digits [of 16 _ 7] by simp
  then show ?thesis using parseUint_digitsOf [of 16 _ 7 32, OF _ _ b] b by (simp del: digitsOf.simps)
qed

lemma octal_read:
  assumes "n < 8 ^ Suc w" "Suc w \<le> 21"
  shows "length (zeroPadded 8 (Suc w) n) = Suc w \<and> parseUint (trimSpace (zeroPadded 8 (Suc w) n)) 8 64 = Some n"
proof -
  have d: "zeroPadded 8 (Suc w) n = digitsOf 8 (Suc w) n" using zeroPadded_digits [of 8 n w] assms by simp
  have "(8 :: nat) ^ Suc w \<le> 8 ^ 21" using assms(2) by (intro power_increasing) simp_all
  then have "n < 2 ^ 64" using assms(1) by simp
  moreover have "trimSpace (digitsOf 8 (Suc w) n) = digitsOf 8 (Suc w) n"
    by (intro trimSpace_none ballI) (erule digitsOf_noSpace; simp)
  ultimately show ?thesis unfolding d using parseUint_digitsOf [of 8 n w 64] assms(1) by simp
qed

lemma octal6_read: "length (octal6 v) = 6 \<and> parseUint (trimSpace (octal6 v)) 8 64 = Some (unat (v AND 0x3FFFF))"
proof -
  have "unat (v AND 0x3FFFF) < 2 ^ 18" unfolding masks by (rule unat_masked)
  then show ?thesis using octal_read [of "unat (v AND 0x3FFFF)" 5] by (simp add: octal6_def)
qed

lemma octal11_read: "length (octal11 v) = 11 \<and> parseUint (trimSpace (octal11 v)) 8 64 = Some (unat (v AND 0x1FFFFFFFF))"
proof -
  have "unat (v AND 0x1FFFFFFFF) < 2 ^ 33" unfolding masks by (rule unat_masked)
  then show ?thesis using octal_read [of "unat (v AND 0x1FFFFFFFF)" 10] by (simp add: octal11_def)
qed

lemma of_nat_low: "of_nat (unat (v :: u64) mod 256) = (take_bit 8 v :: u64)"
proof -
  have "unat v mod 256 = unat (take_bit 8 v)" by (subst unsigned_take_bit_eq) (simp add: take_bit_eq_mod)
  then show ?thesis by simp
qed

lemma fromTwoBytes_twoBytes: "fromTwoBytes (twoBytes v) = v AND 0xFFFF"
proof -
  have "take_bit 8 v OR push_bit 8 (take_bit 8 (drop_bit 8 v)) = take_bit 16 v"
    by (rule bit_word_eqI) (auto simp: bit_simps)
  then show ?thesis
    unfolding fromTwoBytes_def twoBytes_def masks by (simp add: of_nat_low take_bit_eq_mask)
qed

section \<open>What a layout keeps\<close>

definition narrow :: "cpioFormat \<Rightarrow> cpioHeader \<Rightarrow> cpioHeader" where
  "narrow f h =
     (case f of
        Odc \<Rightarrow>
          \<lparr>ch_ino = ch_ino h AND 0x3FFFF, ch_mode = ch_mode h AND 0x3FFFF, ch_uid = ch_uid h AND 0x3FFFF,
           ch_gid = ch_gid h AND 0x3FFFF, ch_nlink = ch_nlink h AND 0x3FFFF, ch_mtime = ch_mtime h AND 0x1FFFFFFFF,
           ch_size = ch_size h AND 0x1FFFFFFFF,
           ch_devMajor = drop_bit 8 (joinDev (ch_devMajor h) (ch_devMinor h) AND 0x3FFFF),
           ch_devMinor = (joinDev (ch_devMajor h) (ch_devMinor h) AND 0x3FFFF) AND 0xFF,
           ch_rdevMajor = drop_bit 8 (joinDev (ch_rdevMajor h) (ch_rdevMinor h) AND 0x3FFFF),
           ch_rdevMinor = (joinDev (ch_rdevMajor h) (ch_rdevMinor h) AND 0x3FFFF) AND 0xFF,
           ch_check = 0, ch_name = ch_name h\<rparr>
      | Bin \<Rightarrow>
          \<lparr>ch_ino = ch_ino h AND 0xFFFF, ch_mode = ch_mode h AND 0xFFFF, ch_uid = ch_uid h AND 0xFFFF,
           ch_gid = ch_gid h AND 0xFFFF, ch_nlink = ch_nlink h AND 0xFFFF,
           ch_mtime = push_bit 16 (drop_bit 16 (ch_mtime h) AND 0xFFFF) OR (ch_mtime h AND 0xFFFF),
           ch_size = push_bit 16 (drop_bit 16 (ch_size h) AND 0xFFFF) OR (ch_size h AND 0xFFFF),
           ch_devMajor = drop_bit 8 (joinDev (ch_devMajor h) (ch_devMinor h) AND 0xFFFF),
           ch_devMinor = (joinDev (ch_devMajor h) (ch_devMinor h) AND 0xFFFF) AND 0xFF,
           ch_rdevMajor = drop_bit 8 (joinDev (ch_rdevMajor h) (ch_rdevMinor h) AND 0xFFFF),
           ch_rdevMinor = (joinDev (ch_rdevMajor h) (ch_rdevMinor h) AND 0xFFFF) AND 0xFF,
           ch_check = 0, ch_name = ch_name h\<rparr>
      | _ \<Rightarrow>
          \<lparr>ch_ino = ch_ino h AND 0xFFFFFFFF, ch_mode = ch_mode h AND 0xFFFFFFFF, ch_uid = ch_uid h AND 0xFFFFFFFF,
           ch_gid = ch_gid h AND 0xFFFFFFFF, ch_nlink = ch_nlink h AND 0xFFFFFFFF,
           ch_mtime = ch_mtime h AND 0xFFFFFFFF, ch_size = ch_size h AND 0xFFFFFFFF,
           ch_devMajor = ch_devMajor h AND 0xFFFFFFFF, ch_devMinor = ch_devMinor h AND 0xFFFFFFFF,
           ch_rdevMajor = ch_rdevMajor h AND 0xFFFFFFFF, ch_rdevMinor = ch_rdevMinor h AND 0xFFFFFFFF,
           ch_check = ch_check h AND 0xFFFFFFFF, ch_name = ch_name h\<rparr>)"

definition goodName :: "cpioFormat \<Rightarrow> string \<Rightarrow> bool" where
  "goodName f name \<longleftrightarrow> name \<noteq> [] \<and> nul \<notin> set name \<and> length name + 1 \<le> (if f = Bin then 65535 else cpioMaxNameBytes)"

lemma takeFull_exact: "takeFull (length a) (a @ b) = Inr (a, b)"
  by (simp add: takeFull_def)

lemma readCpioName_written:
  assumes "name \<noteq> []" "nul \<notin> set name" "unat ns = length name + 1" "length name + 1 \<le> cpioMaxNameBytes"
    "length pad = cpioGap align (hs + (length name + 1))"
  shows "readCpioName (name @ nul # pad @ rest) h ns hs align = Inr (h\<lparr>ch_name := name\<rparr>, rest)"
proof -
  have "ns \<noteq> 0" using assms(3) by auto
  moreover have "takeFull (unat ns) (name @ nul # pad @ rest) = Inr (name @ [nul], pad @ rest)"
    using takeFull_exact [of "name @ [nul]" "pad @ rest"] assms(3) by simp
  moreover have "takeFull (cpioGap align (hs + unat ns)) (pad @ rest) = Inr (pad, rest)"
    using takeFull_exact [of pad rest] assms(3,5) by simp
  ultimately show ?thesis using assms by (simp add: readCpioName_def)
qed

lemma nameSize: "length name + 1 \<le> cpioMaxNameBytes \<Longrightarrow> unat (of_nat (length name + 1) :: u64) = length name + 1"
  by (simp add: unsigned_of_nat take_bit_nat_eq_self cpioMaxNameBytes_def del: of_nat_add of_nat_Suc)

lemma masked_small: "unat (v :: u64) < 2 ^ k \<Longrightarrow> v AND mask k = v"
  by (metis take_bit_eq_mask unsigned_take_bit_eq take_bit_nat_eq_self word_unat_eq_iff)

lemma hex_reads_back:
  assumes f: "f \<noteq> Odc" "f \<noteq> Bin" and n: "goodName f (ch_name h)"
    and w: "writeCpioHeader f h = Some out"
  shows "readCpioHexHeader (out @ rest) = Inr (narrow f h, rest)"
proof -
  let ?ns = "of_nat (length (ch_name h) + 1) :: u64"
  let ?pad = "cpioPadding f (110 + (length (ch_name h) + 1))"
  let ?fs = "map hex8 (hexValues h ?ns)"
  have len: "length (ch_name h) + 1 \<le> cpioMaxNameBytes" using n f by (auto simp: goodName_def)
  have ns: "unat ?ns = length (ch_name h) + 1" by (rule nameSize [OF len])
  have nsm: "?ns AND 0xFFFFFFFF = ?ns"
    unfolding masks by (rule masked_small) (use ns len in \<open>simp add: cpioMaxNameBytes_def\<close>)
  have out: "out = (hexMagic f @ concat ?fs) @ ch_name h @ nul # ?pad"
    using w f by (auto simp: writeCpioHeader_def Let_def split: cpioFormat.splits if_splits)
  have l: "map length ?fs = replicate 13 8" using hex8_read by (simp add: hexValues_def numeral_eq_Suc)
  then have "length (hexMagic f @ concat ?fs) = 110" by (simp add: length_concat hexMagic_def numeral_eq_Suc)
  then have r: "takeFull 110 (out @ rest) = Inr (hexMagic f @ concat ?fs, ch_name h @ nul # ?pad @ rest)"
    using takeFull_exact [of "hexMagic f @ concat ?fs"] by (simp add: out)
  have c: "cutWidths (replicate 13 8) (drop 6 (hexMagic f @ concat ?fs)) = ?fs"
    using cutWidths_concat [of ?fs "[]"] unfolding l by (simp add: hexMagic_def)
  have p: "parseFields (\<lambda>s. parseUint s 16 32) ?fs = Some (map (\<lambda>v. v AND 0xFFFFFFFF) (hexValues h ?ns))"
    using hex8_read by (simp add: hexValues_def)
  have "readCpioName (ch_name h @ nul # ?pad @ rest) h2 ?ns 110 4 = Inr (h2\<lparr>ch_name := ch_name h\<rparr>, rest)" for h2
    using readCpioName_written [OF _ _ ns len, of ?pad 4 110] n f
    by (cases f) (simp_all add: goodName_def cpioPadding_def cpioDataAlign_def)
  then show ?thesis
    unfolding readCpioHexHeader_def r sum.case prod.case c p option.case
    using f nsm by (cases f) (simp_all add: hexValues_def narrow_def numeral_eq_Suc)
qed

lemma odc_reads_back:
  assumes n: "goodName Odc (ch_name h)" and w: "writeCpioHeader Odc h = Some out"
  shows "readCpioOdcHeader (out @ rest) = Inr (narrow Odc h, rest)"
proof -
  let ?ns = "of_nat (length (ch_name h) + 1) :: u64"
  let ?fs = "odcFields h ?ns"
  have len: "length (ch_name h) + 1 \<le> cpioMaxNameBytes" using n by (auto simp: goodName_def)
  have ns: "unat ?ns = length (ch_name h) + 1" by (rule nameSize [OF len])
  have nsm: "?ns AND 0x3FFFF = ?ns"
    unfolding masks by (rule masked_small) (use ns len in \<open>simp add: cpioMaxNameBytes_def\<close>)
  have out: "out = (odcMagic @ concat ?fs) @ ch_name h @ nul # []"
    using w by (auto simp: writeCpioHeader_def Let_def split: if_splits)
  have l: "map length ?fs = odcWidths" using octal6_read octal11_read by (simp add: odcFields_def odcWidths_def)
  have "length (concat ?fs) = sum_list (map length ?fs)" by (rule length_concat)
  then have "length (odcMagic @ concat ?fs) = 76" unfolding l by (simp add: odcWidths_def odcMagic_def)
  then have r: "takeFull 76 (out @ rest) = Inr (odcMagic @ concat ?fs, ch_name h @ nul # rest)"
    using takeFull_exact [of "odcMagic @ concat ?fs"] by (simp add: out)
  have c: "cutWidths odcWidths (drop 6 (odcMagic @ concat ?fs)) = ?fs"
    using cutWidths_concat [of ?fs "[]"] unfolding l by (simp add: odcMagic_def)
  have "readCpioName (ch_name h @ nul # rest) h2 ?ns 76 1 = Inr (h2\<lparr>ch_name := ch_name h\<rparr>, rest)" for h2
    using readCpioName_written [OF _ _ ns len, of "[]" 1 76] n by (simp add: goodName_def cpioGap_def)
  then show ?thesis
    unfolding readCpioOdcHeader_def r sum.case prod.case c
    using nsm octal6_read octal11_read by (simp add: odcFields_def narrow_def numeral_eq_Suc)
qed

lemma bin_reads_back:
  assumes n: "goodName Bin (ch_name h)" and w: "writeCpioHeader Bin h = Some out"
  shows "readCpioBinHeader (out @ rest) = Inr (narrow Bin h, rest)"
proof -
  let ?ns = "of_nat (length (ch_name h) + 1) :: u64"
  let ?pad = "cpioPadding Bin (26 + (length (ch_name h) + 1))"
  let ?fs = "map twoBytes (binValues h ?ns)"
  have len: "length (ch_name h) + 1 \<le> cpioMaxNameBytes" using n by (auto simp: goodName_def cpioMaxNameBytes_def)
  have ns: "unat ?ns = length (ch_name h) + 1" by (rule nameSize [OF len])
  have nsm: "?ns AND 0xFFFF = ?ns"
    unfolding masks by (rule masked_small) (use ns n in \<open>simp add: goodName_def\<close>)
  have out: "out = concat ?fs @ ch_name h @ nul # ?pad"
    using w by (auto simp: writeCpioHeader_def Let_def split: if_splits)
  have "length (twoBytes v) = 2" for v by (simp add: twoBytes_def)
  then have l: "map length ?fs = replicate 13 2" by (simp add: binValues_def numeral_eq_Suc)
  then have "length (concat ?fs) = 26" by (simp add: length_concat numeral_eq_Suc)
  then have r: "takeFull 26 (out @ rest) = Inr (concat ?fs, ch_name h @ nul # ?pad @ rest)"
    using takeFull_exact [of "concat ?fs"] by (simp add: out)
  have c: "map fromTwoBytes (cutWidths (replicate 13 2) (concat ?fs)) = map (\<lambda>v. v AND 0xFFFF) (binValues h ?ns)"
    using cutWidths_concat [of ?fs "[]"] unfolding l by (simp add: fromTwoBytes_twoBytes)
  have "readCpioName (ch_name h @ nul # ?pad @ rest) h2 ?ns 26 2 = Inr (h2\<lparr>ch_name := ch_name h\<rparr>, rest)" for h2
    using readCpioName_written [OF _ _ ns len, of ?pad 2 26] n
    by (simp add: goodName_def cpioPadding_def cpioDataAlign_def)
  then show ?thesis
    unfolding readCpioBinHeader_def r sum.case prod.case c Let_def
    using nsm by (simp add: binValues_def narrow_def numeral_eq_Suc and.assoc)
qed

lemma bin_magic:
  assumes "writeCpioHeader Bin h = Some out"
  shows "take 2 (out @ rest) = twoBytes binMagic" "2 \<le> length out"
  using assms by (auto simp: writeCpioHeader_def Let_def binValues_def twoBytes_def split: if_splits)

lemma binMagic_bytes: "twoBytes binMagic = [chr 199, chr 113]"
  by (simp add: twoBytes_def binMagic_def)

lemma narrow_reads_back:
  assumes n: "goodName f (ch_name h)"
  shows "\<exists>out. writeCpioHeader f h = Some out \<and> readCpioHeader (out @ rest) = Inr (narrow f h, f, rest)"
proof -
  have len: "length (ch_name h) + 1 \<le> cpioMaxNameBytes"
    using n by (auto simp: goodName_def cpioMaxNameBytes_def split: if_splits)
  then obtain out where w: "writeCpioHeader f h = Some out"
    using n by (auto simp: writeCpioHeader_def goodName_def Let_def)
  have hex: "take 6 (out @ rest) = hexMagic f \<and> 6 \<le> length out" if "f = Newc \<or> f = Crc"
    using w that by (auto simp: writeCpioHeader_def Let_def hexMagic_def split: if_splits)
  have odc: "take 6 (out @ rest) = odcMagic \<and> 6 \<le> length out" if "f = Odc"
    using w that by (auto simp: writeCpioHeader_def Let_def odcMagic_def split: if_splits)
  have "readCpioHeader (out @ rest) = Inr (narrow f h, f, rest)"
  proof (cases f)
    case Bin
    have two: "take 2 (out @ rest) = [chr 199, chr 113]" "2 \<le> length out"
      using bin_magic(1) [of h out rest] bin_magic(2) [of h out] w Bin binMagic_bytes by simp_all
    then obtain tl where o: "out @ rest = chr 199 # chr 113 # tl"
      by (cases "out @ rest"; cases "tl (out @ rest)") auto
    have "chr 199 \<noteq> CHR ''0''" using ord_chr [of 199] by (auto simp: ord_def simp del: ord_chr)
    then have "take 6 (out @ rest) \<noteq> CHR ''0'' # s" for s unfolding o by simp
    then have no: "take 6 (out @ rest) \<noteq> hexMagic g" "take 6 (out @ rest) \<noteq> odcMagic" for g
      by (simp_all add: hexMagic_def odcMagic_def)
    have "fromTwoBytes (out @ rest) = fromTwoBytes [chr 199, chr 113]" unfolding o by (simp add: fromTwoBytes_def)
    then have "fromTwoBytes (out @ rest) = binMagic"
      using fromTwoBytes_twoBytes [of binMagic] binMagic_bytes by (simp add: binMagic_def)
    then show ?thesis
      using no two(2) bin_reads_back [of h out rest] n w Bin by (simp add: readCpioHeader_def withFormat_def)
  qed (use hex odc hex_reads_back [OF _ _ n w, of rest] odc_reads_back [of h out rest] n w in
      \<open>auto simp: readCpioHeader_def withFormat_def hexMagic_def odcMagic_def\<close>)
  then show ?thesis using w by blast
qed

text \<open>The values each layout has room for.\<close>

definition fitsLayout :: "cpioFormat \<Rightarrow> cpioHeader \<Rightarrow> bool" where
  "fitsLayout f h =
     (case f of
        Odc \<Rightarrow>
          ch_ino h < 0x40000 \<and> ch_mode h < 0x40000 \<and> ch_uid h < 0x40000 \<and> ch_gid h < 0x40000 \<and> ch_nlink h < 0x40000 \<and>
          ch_mtime h < 0x200000000 \<and> ch_size h < 0x200000000 \<and> ch_devMajor h < 0x400 \<and> ch_devMinor h < 0x100 \<and>
          ch_rdevMajor h < 0x400 \<and> ch_rdevMinor h < 0x100 \<and> ch_check h = 0
      | Bin \<Rightarrow>
          ch_ino h < 0x10000 \<and> ch_mode h < 0x10000 \<and> ch_uid h < 0x10000 \<and> ch_gid h < 0x10000 \<and> ch_nlink h < 0x10000 \<and>
          ch_mtime h < 0x100000000 \<and> ch_size h < 0x100000000 \<and> ch_devMajor h < 0x100 \<and> ch_devMinor h < 0x100 \<and>
          ch_rdevMajor h < 0x100 \<and> ch_rdevMinor h < 0x100 \<and> ch_check h = 0
      | _ \<Rightarrow>
          (\<forall>v \<in> {ch_ino h, ch_mode h, ch_uid h, ch_gid h, ch_nlink h, ch_mtime h, ch_size h, ch_devMajor h,
             ch_devMinor h, ch_rdevMajor h, ch_rdevMinor h, ch_check h}. v < 0x100000000))"

lemma word_below: "(v :: u64) < w \<Longrightarrow> unat w \<le> 2 ^ k \<Longrightarrow> v AND mask k = v"
  by (rule masked_small) (simp add: word_less_nat_alt)

lemma joined_back:
  fixes maj mnr :: u64
  assumes "maj AND mask j = maj" "mnr AND mask 8 = mnr" "j + 8 = k" "k \<le> 64"
  shows "drop_bit 8 (joinDev maj mnr AND mask k) = maj" "(joinDev maj mnr AND mask k) AND mask 8 = mnr"
proof -
  have "drop_bit 8 (joinDev (maj AND mask j) (mnr AND mask 8) AND mask k) = maj AND mask j"
    by (rule bit_word_eqI) (use assms(3,4) in \<open>auto simp: joinDev_def bit_simps\<close>)
  then show "drop_bit 8 (joinDev maj mnr AND mask k) = maj" using assms by simp
  have "(joinDev (maj AND mask j) (mnr AND mask 8) AND mask k) AND mask 8 = mnr AND mask 8"
    by (rule bit_word_eqI) (use assms(3,4) in \<open>auto simp: joinDev_def bit_simps\<close>)
  then show "(joinDev maj mnr AND mask k) AND mask 8 = mnr" using assms by simp
qed

lemma halves_back:
  fixes v :: u64
  assumes "v AND mask 32 = v"
  shows "push_bit 16 (drop_bit 16 v AND mask 16) OR (v AND mask 16) = v"
proof -
  have "push_bit 16 (drop_bit 16 (v AND mask 32) AND mask 16) OR ((v AND mask 32) AND mask 16) = v AND mask 32"
    by (rule bit_word_eqI) (auto simp: bit_simps)
  then show ?thesis using assms by simp
qed

lemma narrow_fits: "fitsLayout f h \<Longrightarrow> narrow f h = h"
proof -
  assume fits: "fitsLayout f h"
  note below = word_below [of _ "0x100000000" 32] word_below [of _ "0x40000" 18] word_below [of _ "0x200000000" 33]
    word_below [of _ "0x400" 10] word_below [of _ "0x100" 8] word_below [of _ "0x10000" 16]
  show ?thesis
    using fits
    by (cases f; cases h)
      (simp_all add: fitsLayout_def narrow_def masks below joined_back [of _ 10 _ 18] joined_back [of _ 8 _ 16] halves_back
        del: drop_bit_and push_bit_and)
qed

text \<open>A directory of a small disk.\<close>

definition exampleHeader :: cpioHeader where
  "exampleHeader =
     \<lparr>ch_ino = 2, ch_mode = 16877, ch_uid = 0, ch_gid = 0, ch_nlink = 3, ch_mtime = 1700000000, ch_size = 0,
      ch_devMajor = 8, ch_devMinor = 1, ch_rdevMajor = 0, ch_rdevMinor = 0, ch_check = 0, ch_name = ''a''\<rparr>"

text \<open>C10 (round trip): in each of the four layouts, a header whose values the layout has room for is read back
  as it was written, with its layout recognised from its first bytes and whatever follows left in the
  input.\<close>

theorem cpio_header_roundtrip:
  assumes "fitsLayout f h" "goodName f (ch_name h)"
  shows "\<exists>out. writeCpioHeader f h = Some out \<and> readCpioHeader (out @ rest) = Inr (h, f, rest)"
  using narrow_reads_back [OF assms(2), of rest] narrow_fits [OF assms(1)] by simp

theorem cpio_header_roundtrip_witness:
  "\<exists>out. writeCpioHeader Bin exampleHeader = Some out \<and> readCpioHeader (out @ ''rest'') = Inr (exampleHeader, Bin, ''rest'')"
  by (rule cpio_header_roundtrip) (simp_all add: exampleHeader_def fitsLayout_def goodName_def nul_def)

end
