(* ===== verification/CpioProps.thy ===== *)
theory CpioProps
  imports CpioRun CpioRound
begin

text \<open>
  What \<open>cpio -i\<close> may touch: with \<open>-d\<close> and without \<open>-u\<close> it keeps to its directory as \<open>tar\<close> does; without
  \<open>-d\<close> an archive can reach outside.  And what \<open>cpio -o\<close> wrote, \<open>cpio -t\<close> lists.
\<close>

section \<open>Extraction that checks the parents\<close>

lemma plain_target:
  assumes "plainDir fs (butlast p)" "\<exists>m. fl_nodes fs p = Some (Dir m)"
  shows "plainDir fs p"
  using assms by (cases p rule: rev_cases) (auto simp: plainDir_snoc plainDir_Nil)

lemma safeState_plain: "safeState root fs0 st \<Longrightarrow> plainDir (ts_files st) root"
  by (simp add: safeState_def)

lemma extractArchiveRegular_safe:
  assumes st: "safeState root fs0 st" and root: "cleanPath root" and rel: "cleanPath rel"
  shows "safeState root fs0 (snd (snd (extractArchiveRegular root (root @ rel) n mode input st)))"
proof -
  obtain e fs where r: "ensureTarParents root (root @ rel) (ts_files st) = (e, fs)" by (rule prod.exhaust)
  from ensureTarParents_safe [OF safeState_plain [OF st] root rel r]
  have s: "stays root (ts_files st) fs" and up: "e = None \<longrightarrow> plainDir fs (butlast (root @ rel))" by auto
  have s1: "safeState root fs0 (st\<lparr>ts_files := fs\<rparr>)" by (rule safeState_step [OF st s])
  show ?thesis
  proof (cases e)
    case None
    obtain e2 fs2 where x: "extractTarRegular (root @ rel) input n mode fs = (e2, fs2)" by (rule prod.exhaust)
    have "stays root fs fs2"
      using extractTarRegular_stays [of fs "root @ rel" root input n mode] up None x root rel by simp
    then have "safeState root fs0 (st\<lparr>ts_files := fs2\<rparr>)"
      using safeState_step [OF s1, of fs2] by simp
    then show ?thesis
      using s1 None by (cases e2) (auto simp: extractArchiveRegular_def r x Let_def split: stat.splits node.splits)
  qed (use s1 in \<open>simp add: extractArchiveRegular_def r\<close>)
qed

lemma extractCpioSymlink_safe:
  assumes st: "safeState root fs0 st" and up: "plainDir (ts_files st) (butlast (root @ rel))"
    and c: "cleanPath (root @ rel)" and o1: "\<not> cp_unlink o1"
  shows "safeState root fs0 (snd (snd (extractCpioSymlink h o1 root (root @ rel) header input st)))"
proof -
  have "safeState root fs0 (st\<lparr>ts_files := fs\<rparr>)"
    if "install False (root @ rel) (Link l) (ts_files st) = Some fs" for l fs
    using safeState_step [OF st] stays_install [OF up c _ that, of root] by simp
  then show ?thesis
    using st o1 by (auto simp: extractCpioSymlink_def Let_def split: option.splits)
qed

lemma extractCpioDirectory_safe:
  assumes st: "safeState root fs0 st" and up: "plainDir (ts_files st) (butlast (root @ rel))"
    and c: "cleanPath (root @ rel)"
  shows "safeState root fs0 (snd (snd (extractCpioDirectory (root @ rel) mode input st)))"
proof -
  have add: "safeState root fs0 (st\<lparr>ts_files := fs, ts_directories := ts_directories st @ [(root @ rel, mode)]\<rparr>)"
    if "stays root (ts_files st) fs" "\<exists>m. fl_nodes fs (root @ rel) = Some (Dir m)" for fs
    using safeState_step [OF st that(1)] plain_target [OF stays_plain [OF that(1) up] that(2)] c
    by (auto simp: safeState_def)
  show ?thesis
  proof (cases "fl_nodes (ts_files st) (root @ rel)")
    case None
    then show ?thesis
      using lstat_plain [OF up c] add [of "ts_files st\<lparr>fl_nodes := (fl_nodes (ts_files st))(root @ rel \<mapsto> Dir 448)\<rparr>"]
        install_plain [OF up c, of False "Dir 448"] stays_put [of root "root @ rel" "ts_files st" "Dir 448"]
      by (simp add: extractCpioDirectory_def)
  next
    case (Some n)
    then show ?thesis
      using lstat_plain [OF up c] add [of "ts_files st"] st
      by (cases n) (simp_all add: extractCpioDirectory_def Let_def)
  qed
qed

lemma extractCpioKind_safe:
  assumes st: "safeState root fs0 st" and up: "plainDir (ts_files st) (butlast (root @ rel))"
    and c: "cleanPath root" "cleanPath rel" and o1: "\<not> cp_unlink o1"
  shows "safeState root fs0 (snd (snd (extractCpioKind h o1 f root (root @ rel) header input st)))"
proof -
  have cc: "cleanPath (root @ rel)" using c by simp
  let ?n = "unat (ch_size header)"
  have "safeState root fs0 (snd (snd (extractCpioSymlink h o1 root (root @ rel) header input st)))"
    by (rule extractCpioSymlink_safe [OF st up cc o1])
  moreover have "safeState root fs0 (snd (snd (extractArchiveRegular root (root @ rel) ?n (modeBits 0x1FF header) input st)))"
    by (rule extractArchiveRegular_safe [OF st c])
  moreover have "safeState root fs0 (snd (snd (extractCpioDirectory (root @ rel) (modeBits 0xFFF header) input st)))"
    by (rule extractCpioDirectory_safe [OF st up cc])
  ultimately show ?thesis
    using st o1 by (auto simp: extractCpioKind_def Let_def split: prod.splits bool.splits)
qed

lemma extractCpioMember_safe:
  assumes st: "safeState root fs0 st" and c: "cleanPath root" and o1: "cp_makeDirs o1" "\<not> cp_unlink o1"
  shows "safeState root fs0 (snd (snd (extractCpioMember h o1 f root header input st)))"
proof (cases "safeTarTarget root (ch_name header)")
  case (Inr target)
  then obtain rel where t: "target = root @ rel" "cleanPath rel" by (rule safeTarTarget_below)
  obtain e fs where r: "ensureTarParents root (root @ rel) (ts_files st) = (e, fs)" by (rule prod.exhaust)
  from ensureTarParents_safe [OF safeState_plain [OF st] c t(2) r]
  have s: "stays root (ts_files st) fs" and up: "e = None \<longrightarrow> plainDir fs (butlast (root @ rel))" by auto
  have s1: "safeState root fs0 (st\<lparr>ts_files := fs\<rparr>)" by (rule safeState_step [OF st s])
  show ?thesis
    using s1 up extractCpioKind_safe [OF s1 _ c t(2) o1(2)] o1
    by (cases e) (auto simp: extractCpioMember_def Inr t(1) r Let_def)
qed (use st in \<open>simp add: extractCpioMember_def Let_def\<close>)

lemma listCpioMember_state: "\<exists>out. snd (snd (listCpioMember h o1 f header input st)) = st\<lparr>ts_stdout := out\<rparr>"
  by (cases st) (auto simp: listCpioMember_def printLine_def Let_def split: prod.splits)

lemma readCpioMember_safe:
  assumes st: "safeState root fs0 st" and c: "cleanPath root" and o1: "cp_makeDirs o1" "\<not> cp_unlink o1"
  shows "safeState root fs0 (snd (snd (readCpioMember h o1 root header f input st)))"
proof -
  have "safeState root fs0 (snd (snd (listCpioMember h o1 f header input st)))"
    using listCpioMember_state [of h o1 f header input st] st by auto
  then show ?thesis
    using extractCpioMember_safe [OF st c o1, of h f header input] st
    by (auto simp: readCpioMember_def Let_def split: prod.splits)
qed

lemma cpioLoop_safe:
  "safeState root fs0 st \<Longrightarrow> cleanPath root \<Longrightarrow> cp_makeDirs o1 \<Longrightarrow> \<not> cp_unlink o1 \<Longrightarrow>
     safeState root fs0 (snd (cpioLoop h o1 root n input st))"
proof (induction n arbitrary: input st)
  case (Suc n)
  show ?case
  proof (cases "readCpioHeader input")
    case (Inl e)
    then show ?thesis using Suc.prems(1) by (cases e) simp_all
  next
    case (Inr r)
    obtain header f rest where r: "r = (header, f, rest)" by (cases r)
    obtain e input2 st2 where m: "readCpioMember h o1 root header f rest st = (e, input2, st2)" by (cases "readCpioMember h o1 root header f rest st")
    have "safeState root fs0 st2" using readCpioMember_safe [OF Suc.prems, of h header f rest] m by simp
    then show ?thesis using Suc Inr r m by (cases e) auto
  qed
qed simp

lemma restore_stays:
  "\<forall>(p, m) \<in> set ds. prefix root p \<and> cleanPath p \<and> plainDir fs p \<Longrightarrow> stays root fs (restoreCpioDirectories ds fs)"
proof (induction ds arbitrary: fs)
  case (Cons d ds)
  obtain p mode where d: "d = (p, mode)" by (rule prod.exhaust)
  obtain fs1 where ch: "chmod p mode fs = Some fs1" and s: "stays root fs fs1"
    using chmod_stays [of fs p root mode] Cons.prems d by auto
  have "stays root fs1 (restoreCpioDirectories ds fs1)"
    by (rule Cons.IH) (use Cons.prems stays_plain [OF s] in auto)
  then show ?case using stays_trans [OF s] by (simp add: d ch)
qed simp

lemma readCpio_stays:
  assumes c: "cleanPath root" "plainDir fs root" and o1: "cp_makeDirs o1" "\<not> cp_unlink o1"
  shows "stays root fs (ts_files (snd (readCpio h o1 root input fs)))"
proof -
  obtain e st where l: "cpioLoop h o1 root (length input) input (tarStart fs) = (e, st)" by (rule prod.exhaust)
  have "safeState root fs (tarStart fs)" using c by (simp add: safeState_def tarStart_def)
  from cpioLoop_safe [OF this c(1) o1, of h "length input" input] have st: "safeState root fs st" using l by simp
  then have "\<forall>(p, m) \<in> set (rev (ts_directories st)). prefix root p \<and> cleanPath p \<and> plainDir (ts_files st) p"
    by (auto simp: safeState_def)
  from stays_trans [OF _ restore_stays [OF this]] st
  have "stays root fs (restoreCpioDirectories (rev (ts_directories st)) (ts_files st))" by (auto simp: safeState_def)
  then show ?thesis
    using st mkdirAll_exists [OF c(2,1), of 493] l
    by (cases e) (auto simp: readCpio_def Let_def safeState_def)
qed

section \<open>Listing what was written\<close>

lemma narrow_name_size:
  assumes "ch_size h < 0x100000000"
  shows "ch_name (narrow f h) = ch_name h \<and> ch_size (narrow f h) = ch_size h"
proof -
  have "ch_size h AND mask 32 = ch_size h" "ch_size h AND mask 33 = ch_size h"
    using word_below [OF assms, of 32] word_below [of "ch_size h" "0x100000000" 33] assms by simp_all
  then show ?thesis
    using halves_back [of "ch_size h"] by (cases f) (simp_all add: narrow_def masks del: drop_bit_and push_bit_and)
qed

text \<open>A path that goes into an archive whole.\<close>

definition archivable :: "cpioOptions \<Rightarrow> (bool \<Rightarrow> string \<Rightarrow> cpioStat option) \<Rightarrow> string \<Rightarrow> bool" where
  "archivable o1 look path \<longleftrightarrow>
     goodName (cp_format o1) (cpioMemberName path) \<and> cpioMemberName path \<noteq> cpioTrailer \<and>
     (\<exists>s. look (cp_dereference o1) path = Some s \<and>
        (ct_kind s = StatRegular \<longrightarrow> ct_readable s \<and> unat (ct_size s) = length (ct_data s)) \<and>
        length (ct_data s) < 2 ^ 32)"

lemma writeCpioPath_whole:
  assumes "archivable o1 look path"
  shows "\<exists>h content header.
    writeCpioPath o1 look path (cpioMemberName path) out = (True, out @ header @ content @ cpioPadding (cp_format o1) (length content)) \<and>
    writeCpioHeader (cp_format o1) h = Some header \<and> ch_name h = cpioMemberName path \<and>
    unat (ch_size h) = length content \<and> ch_size h < 0x100000000"
proof -
  let ?f = "cp_format o1" let ?name = "cpioMemberName path"
  from assms obtain s where s: "look (cp_dereference o1) path = Some s"
    "ct_kind s = StatRegular \<Longrightarrow> ct_readable s \<and> unat (ct_size s) = length (ct_data s)" "length (ct_data s) < 2 ^ 32"
    and n: "goodName ?f ?name" by (auto simp: archivable_def)
  let ?h = "memberHeader ?f s ?name"
  let ?content = "if ct_kind s = StatSymlink \<or> ct_kind s = StatRegular then ct_data s else []"
  have size: "unat (ch_size ?h) = length ?content"
    using s(2,3) by (cases "ct_kind s") (simp_all add: memberHeader_def Let_def unsigned_of_nat take_bit_nat_eq_self)
  then have small: "ch_size ?h < 0x100000000" using s(3) by (auto simp: word_less_nat_alt)
  have notbig: "ct_kind s = StatRegular \<Longrightarrow> \<not> 0xFFFFFFFF < ct_size s"
    using s(2,3) by (auto simp: word_less_nat_alt)
  obtain header where w: "writeCpioHeader ?f ?h = Some header"
    using narrow_reads_back [of ?f ?h "[]"] n by (auto simp: memberHeader_def Let_def)
  have "writeCpioPath o1 look path ?name out = (True, out @ header @ ?content @ cpioPadding ?f (length ?content))"
    using s(1,2) notbig size w by (auto simp: writeCpioPath_def Let_def)
  moreover have "ch_name ?h = ?name" by (simp add: memberHeader_def Let_def)
  ultimately show ?thesis using w size small by blast
qed

lemma skip_whole: "skipCpioData f (length content) (content @ cpioPadding f (length content) @ rest) = (True, rest)"
  by (simp add: skipCpioData_def skipCpioAlign_def cpioPadding_def)

lemma cpioLoop_lists:
  assumes o1: "cp_operation o1 = CHR ''t''" "\<not> cp_verbose o1" "cp_patterns o1 = []"
    and w: "writeCpioHeader f h = Some header" "goodName f (ch_name h)" "ch_name h \<noteq> cpioTrailer"
      "unat (ch_size h) = length content" "ch_size h < 0x100000000"
    and x: "ts_extracted st = 0"
  shows "cpioLoop host o1 root (Suc n) (header @ content @ cpioPadding f (length content) @ rest) st =
    cpioLoop host o1 root n rest (printLine (ch_name h) st)"
proof -
  let ?r = "content @ cpioPadding f (length content) @ rest"
  have hd: "readCpioHeader (header @ ?r) = Inr (narrow f h, f, ?r)"
    using narrow_reads_back [OF w(2), of ?r] w(1) by auto
  have ns: "ch_name (narrow f h) = ch_name h" "ch_size (narrow f h) = ch_size h"
    using narrow_name_size [OF w(5)] by simp_all
  have "length content < 2 ^ 32" using w(4,5) by (simp add: word_less_nat_alt)
  then have "\<not> maxTarBytes < int (length content)" by (simp add: maxTarBytes_def)
  then have "readCpioMember host o1 root (narrow f h) f ?r st = (None, rest, printLine (ch_name h) st)"
    using o1 x skip_whole [of f content rest]
    by (simp add: readCpioMember_def cpioSelected_def listCpioMember_def ns w(4) Let_def)
  then show ?thesis using hd w(3) ns(1) by simp
qed

lemma writeCpioPaths_list:
  assumes t: "cp_operation o2 = CHR ''t''" "\<not> cp_verbose o2" "cp_patterns o2 = []"
  shows "\<forall>p \<in> set ps. archivable o1 look p \<Longrightarrow>
    \<exists>body. writeCpioPaths o1 look ps False out = (False, out @ body) \<and> length ps \<le> length body \<and>
      (\<forall>st n rest. ts_extracted st = 0 \<longrightarrow>
        cpioLoop host o2 root (length ps + n) (body @ rest) st =
          cpioLoop host o2 root n rest (st\<lparr>ts_stdout := ts_stdout st @ concat (map (\<lambda>p. cpioMemberName p @ [CHR 0x0A]) ps)\<rparr>))"
proof (induction ps arbitrary: out)
  case Nil
  then show ?case by simp
next
  case (Cons p ps)
  have a: "archivable o1 look p" using Cons.prems by simp
  from writeCpioPath_whole [OF a, of out] obtain h content header where w:
    "writeCpioPath o1 look p (cpioMemberName p) out = (True, out @ header @ content @ cpioPadding (cp_format o1) (length content))"
    "writeCpioHeader (cp_format o1) h = Some header" "ch_name h = cpioMemberName p"
    "unat (ch_size h) = length content" "ch_size h < 0x100000000" by blast
  let ?one = "header @ content @ cpioPadding (cp_format o1) (length content)"
  have ne: "1 \<le> length header"
    using w(2) by (auto simp: writeCpioHeader_def Let_def hexMagic_def odcMagic_def binValues_def twoBytes_def
        split: cpioFormat.splits if_splits)
  from Cons.IH [of "out @ ?one"] Cons.prems obtain body where b:
    "writeCpioPaths o1 look ps False (out @ ?one) = (False, (out @ ?one) @ body)" "length ps \<le> length body"
    "\<And>st n rest. ts_extracted st = 0 \<Longrightarrow> cpioLoop host o2 root (length ps + n) (body @ rest) st =
        cpioLoop host o2 root n rest (st\<lparr>ts_stdout := ts_stdout st @ concat (map (\<lambda>p. cpioMemberName p @ [CHR 0x0A]) ps)\<rparr>)"
    by auto
  have names: "goodName (cp_format o1) (ch_name h)" "ch_name h \<noteq> cpioTrailer" using a w(3) by (auto simp: archivable_def)
  have "cpioLoop host o2 root (length (p # ps) + n) ((?one @ body) @ rest) st =
      cpioLoop host o2 root n rest (st\<lparr>ts_stdout := ts_stdout st @ concat (map (\<lambda>p. cpioMemberName p @ [CHR 0x0A]) (p # ps))\<rparr>)"
    if "ts_extracted st = 0" for st n rest
    using cpioLoop_lists [OF t w(2) names w(4,5) that, of host root "length ps + n" "body @ rest"]
      b(3) [of "printLine (cpioMemberName p) st" n rest] that w(3)
    by (simp add: printLine_def)
  then show ?case
    using w(1) b(1,2) ne by (intro exI [of _ "?one @ body"]) simp
qed

lemma cpioLoop_member:
  assumes "writeCpioHeader f m = Some header" "goodName f (ch_name m)" "ch_name m \<noteq> cpioTrailer" "fitsLayout f m"
    and "readCpioMember h o1 root m f (content @ rest) st = (None, rest, st2)"
  shows "cpioLoop h o1 root (Suc n) (header @ content @ rest) st = cpioLoop h o1 root n rest st2"
  using narrow_reads_back [OF assms(2), of "content @ rest"] narrow_fits [OF assms(4)] assms by auto

lemma cpioLoop_trailer:
  assumes "writeCpioHeader f trailerHeader = Some header"
  shows "cpioLoop h o1 root (Suc n) (header @ rest) st = (None, st)"
proof -
  have "goodName f cpioTrailer" by (simp add: goodName_def cpioTrailer_def nul_def cpioMaxNameBytes_def)
  moreover have "ch_size trailerHeader < 0x100000000" by (simp add: trailerHeader_def)
  ultimately show ?thesis
    using narrow_reads_back [of f trailerHeader rest] narrow_name_size [of trailerHeader f] assms
    by (auto simp: trailerHeader_def)
qed

section \<open>Properties\<close>

definition plainHost :: cpioHost where
  "plainHost = \<lparr>hc_upToDate = (\<lambda>fs p t. False), hc_isEmpty = (\<lambda>fs p. False), hc_longLine = (\<lambda>h l. ch_name h)\<rparr>"

text \<open>Two directories side by side, one of them private.\<close>

definition homeDisk :: files where
  "homeDisk =
     \<lparr>fl_nodes = [[] \<mapsto> Dir 493, [''r''] \<mapsto> Dir 493, [''home''] \<mapsto> Dir 448],
      fl_inodes = (\<lambda>i. ([], 0)), fl_next = 0\<rparr>"

text \<open>An archive of two symbolic links and a directory.\<close>

definition attackHeader :: "string \<Rightarrow> u64 \<Rightarrow> string \<Rightarrow> cpioHeader" where
  "attackHeader name mode content =
     trailerHeader\<lparr>ch_name := name, ch_mode := mode, ch_size := of_nat (length content)\<rparr>"

definition attackMember :: "string \<Rightarrow> u64 \<Rightarrow> string \<Rightarrow> string" where
  "attackMember name mode content =
     the (writeCpioHeader Bin (attackHeader name mode content)) @ content @ cpioPadding Bin (length content)"

definition attackArchive :: string where
  "attackArchive =
     attackMember ''x'' 0xA1FF ''d/..'' @ attackMember ''d'' 0xA1FF ''.'' @ attackMember ''x/home'' 0x41FF [] @
     attackMember cpioTrailer 0 []"

definition extracting :: "cpioOptions" where
  "extracting = cpioDefaults\<lparr>cp_operation := CHR ''i''\<rparr>"

lemma attack_step:
  assumes n: "name \<noteq> []" "nul \<notin> set name" "length name < 100" "name \<noteq> cpioTrailer"
    and fits: "length content < 100" "mode < 0x10000"
    and r: "readCpioMember plainHost extracting [''r''] (attackHeader name mode content) Bin
        ((content @ cpioPadding Bin (length content)) @ rest) st = (None, rest, st2)"
  shows "cpioLoop plainHost extracting [''r''] (Suc n) (attackMember name mode content @ rest) st =
    cpioLoop plainHost extracting [''r''] n rest st2"
proof -
  let ?m = "attackHeader name mode content"
  have g: "goodName Bin (ch_name ?m)" using n by (simp add: goodName_def attackHeader_def)
  have "(of_nat (length content) :: u64) < 0x100000000"
    using fits(1) by (simp add: word_less_nat_alt unsigned_of_nat take_bit_nat_eq_self)
  then have f: "fitsLayout Bin ?m" using fits(2) by (simp add: fitsLayout_def attackHeader_def trailerHeader_def)
  obtain header where w: "writeCpioHeader Bin ?m = Some header" using narrow_reads_back [OF g, of "[]"] by auto
  have "ch_name ?m \<noteq> cpioTrailer" using n(4) by (simp add: attackHeader_def)
  from cpioLoop_member [OF w g this f r] show ?thesis by (simp add: attackMember_def w)
qed

text \<open>The file system after the first link and after the second.\<close>

definition linkedDisk :: files where
  "linkedDisk = homeDisk\<lparr>fl_nodes := (fl_nodes homeDisk)([''r'', ''x''] \<mapsto> Link ''d/..'')\<rparr>"

definition openDisk :: files where
  "openDisk = linkedDisk\<lparr>fl_nodes := (fl_nodes linkedDisk)([''r'', ''d''] \<mapsto> Link ''.'')\<rparr>"

lemmas member_defs = readCpioMember_def extractCpioMember_def extractCpioKind_def extractCpioSymlink_def
  extractCpioDirectory_def modeType_def modeBits_def attackHeader_def trailerHeader_def extracting_def cpioDefaults_def
  cpioSelected_def maxTarBytes_def tarStart_def skipCpioAlign_def skipCpioData_def cpioPadding_def cpioGap_def
  cpioDataAlign_def Let_def

lemmas path_defs = safeTarTarget_def isAbs_def hasPrefix_def parts_def isLocal_def escapes_def validateTarSymlink_def
  evalSymlinks_def follow_def locate_def lstatAt_def install_def maxEvalLinks_def maxLinks_def

lemma first_link:
  "readCpioMember plainHost extracting [''r''] (attackHeader ''x'' 0xA1FF ''d/..'') Bin
      ((''d/..'' @ cpioPadding Bin (length ''d/..'')) @ rest) (tarStart homeDisk) = (None, rest, tarStart linkedDisk)"
  by (simp add: member_defs path_defs linkedDisk_def homeDisk_def nul_def)

lemma second_link:
  "readCpioMember plainHost extracting [''r''] (attackHeader ''d'' 0xA1FF ''.'') Bin
      ((''.'' @ cpioPadding Bin (length ''.'')) @ rest) (tarStart linkedDisk) = (None, rest, tarStart openDisk)"
  by (simp add: member_defs path_defs openDisk_def linkedDisk_def homeDisk_def nul_def)

lemma directory_outside:
  "readCpioMember plainHost extracting [''r''] (attackHeader ''x/home'' 0x41FF []) Bin
      (([] @ cpioPadding Bin (length [])) @ rest) (tarStart openDisk) =
     (None, rest, (tarStart openDisk)\<lparr>ts_directories := [([''r'', ''x'', ''home''], 511)]\<rparr>)"
  by (simp add: member_defs path_defs openDisk_def linkedDisk_def homeDisk_def nul_def)

text \<open>C6 (safety): with \<open>-d\<close> and without \<open>-u\<close>, whatever the bytes of an archive are, \<open>cpio -i\<close> into a directory
  reached without symbolic links changes no name outside it, overwrites no file that was there before and
  turns no directory into something else, also when it stops at an error or goes on after a member
  failed.\<close>

theorem cpio_extraction_stays_inside:
  assumes "cleanPath root" "plainDir fs root" "cp_makeDirs o1" "\<not> cp_unlink o1"
  shows "let fs2 = ts_files (snd (readCpio h o1 root input fs)) in
    (\<forall>q. \<not> prefix root q \<longrightarrow> fl_nodes fs2 q = fl_nodes fs q) \<and>
    (\<forall>i < fl_next fs. fl_inodes fs2 i = fl_inodes fs i) \<and>
    (\<forall>q m. fl_nodes fs q = Some (Dir m) \<longrightarrow> (\<exists>m2. fl_nodes fs2 q = Some (Dir m2)))"
  using readCpio_stays [OF assms, of h input] by (simp add: stays_def Let_def)

theorem cpio_extraction_stays_inside_witness:
  "let fs2 = ts_files (snd (readCpio plainHost (extracting\<lparr>cp_makeDirs := True\<rparr>) [''r''] attackArchive extractionDisk)) in
    (\<forall>q. \<not> prefix [''r''] q \<longrightarrow> fl_nodes fs2 q = fl_nodes extractionDisk q) \<and>
    (\<forall>i < fl_next extractionDisk. fl_inodes fs2 i = fl_inodes extractionDisk i) \<and>
    (\<forall>q m. fl_nodes extractionDisk q = Some (Dir m) \<longrightarrow> (\<exists>m2. fl_nodes fs2 q = Some (Dir m2)))"
  by (rule cpio_extraction_stays_inside [OF extractionDisk_plain]) (simp_all add: extracting_def cpioDefaults_def)

text \<open>C7 (error): without \<open>-d\<close> the parents of a member are not checked, and an archive that needs nothing but
  an empty directory to be extracted into reaches out of it: the link \<open>x\<close> to \<open>d/..\<close> is accepted while
  \<open>d\<close> is not there, then \<open>d\<close> to \<open>.\<close> is accepted, and the directory member \<open>x/home\<close> sets the mode of
  the private directory beside the root to 0777; \<open>cpio -i\<close> reports success.\<close>

theorem cpio_opens_directory_outside:
  "let r = readCpio plainHost extracting [''r''] attackArchive homeDisk
   in fst r = None \<and> fl_nodes homeDisk [''home''] = Some (Dir 448) \<and>
      fl_nodes (ts_files (snd r)) [''home''] = Some (Dir 511)"
proof -
  let ?loop = "cpioLoop plainHost extracting [''r'']"
  let ?opened = "(tarStart openDisk)\<lparr>ts_directories := [([''r'', ''x'', ''home''], 511)]\<rparr>"
  have one: "?loop (Suc n) (attackMember ''x'' 0xA1FF ''d/..'' @ rest) (tarStart homeDisk) = ?loop n rest (tarStart linkedDisk)" for n rest
    by (rule attack_step [OF _ _ _ _ _ _ first_link]) (simp_all add: nul_def cpioTrailer_def)
  have two: "?loop (Suc n) (attackMember ''d'' 0xA1FF ''.'' @ rest) (tarStart linkedDisk) = ?loop n rest (tarStart openDisk)" for n rest
    by (rule attack_step [OF _ _ _ _ _ _ second_link]) (simp_all add: nul_def cpioTrailer_def)
  have three: "?loop (Suc n) (attackMember ''x/home'' 0x41FF [] @ rest) (tarStart openDisk) = ?loop n rest ?opened" for n rest
    by (rule attack_step [OF _ _ _ _ _ _ directory_outside]) (simp_all add: nul_def cpioTrailer_def)
  obtain header where w: "writeCpioHeader Bin trailerHeader = Some header"
    using narrow_reads_back [of Bin trailerHeader "[]"]
    by (auto simp: goodName_def trailerHeader_def cpioTrailer_def nul_def)
  have trailer: "attackMember cpioTrailer 0 [] = header @ []"
    using w by (simp add: attackMember_def attackHeader_def trailerHeader_def cpioPadding_def cpioGap_def cpioDataAlign_def)
  have "4 \<le> length attackArchive"
    by (simp add: attackArchive_def attackMember_def writeCpioHeader_def attackHeader_def cpioTrailer_def
        cpioMaxNameBytes_def Let_def)
  then obtain n where n: "length attackArchive = Suc (Suc (Suc (Suc n)))"
    using less_iff_Suc_add [of 3 "length attackArchive"] by (auto simp: numeral_eq_Suc)
  have loop: "?loop (length attackArchive) attackArchive (tarStart homeDisk) = (None, ?opened)"
    unfolding n unfolding attackArchive_def by (simp only: one two three trailer cpioLoop_trailer [OF w])
  have "mkdirAll [''r''] 493 homeDisk = Some homeDisk"
    by (simp add: mkdirAll.simps follow_def homeDisk_def maxLinks_def)
  then have "readCpio plainHost extracting [''r''] attackArchive homeDisk =
      (None, ?opened\<lparr>ts_files := restoreCpioDirectories [([''r'', ''x'', ''home''], 511)] openDisk\<rparr>)"
    using loop by (simp add: readCpio_def extracting_def cpioDefaults_def tarStart_def Let_def)
  moreover have "chmod [''r'', ''x'', ''home''] 511 openDisk =
      Some (openDisk\<lparr>fl_nodes := (fl_nodes openDisk)([''home''] \<mapsto> Dir 511)\<rparr>)"
    by (simp add: chmod_def path_defs openDisk_def linkedDisk_def homeDisk_def)
  ultimately show ?thesis by (simp add: homeDisk_def)
qed

text \<open>C11 (round trip): in every layout, \<open>cpio -o\<close> takes any list of archivable paths without a failure and
  \<open>cpio -t\<close> lists the archive as exactly the names of the members in order, and ends without an error:
  the contents, their padding and the final block are stepped over.\<close>

theorem cpio_lists_what_it_archived:
  assumes "\<forall>p \<in> set paths. archivable o1 look p"
    and "cp_operation o2 = CHR ''t''" "\<not> cp_verbose o2" "cp_patterns o2 = []"
  shows "let made = createCpio o1 look paths; r = readCpio h o2 root (snd made) fs
    in fst made \<and> fst r = None \<and>
       ts_stdout (snd r) = concat (map (\<lambda>p. cpioMemberName p @ [CHR 0x0A]) paths)"
proof -
  let ?lines = "concat (map (\<lambda>p. cpioMemberName p @ [CHR 0x0A]) paths)"
  from writeCpioPaths_list [OF assms(2-4,1), where out = "[]" and host = h and root = root]
  obtain body where b: "writeCpioPaths o1 look paths False [] = (False, body)" "length paths \<le> length body"
    "\<And>st n rest. ts_extracted st = 0 \<Longrightarrow> cpioLoop h o2 root (length paths + n) (body @ rest) st =
        cpioLoop h o2 root n rest (st\<lparr>ts_stdout := ts_stdout st @ ?lines\<rparr>)" by auto
  have "goodName (cp_format o1) (ch_name trailerHeader)"
    by (simp add: goodName_def trailerHeader_def cpioTrailer_def nul_def cpioMaxNameBytes_def)
  from narrow_reads_back [OF this, of "[]"] obtain header where w: "writeCpioHeader (cp_format o1) trailerHeader = Some header"
    by auto
  have ne: "1 \<le> length header"
    using w by (auto simp: writeCpioHeader_def Let_def hexMagic_def odcMagic_def binValues_def twoBytes_def
        split: cpioFormat.splits if_splits)
  let ?pad = "replicate (cpioGap (cp_blockSize o1) (length (body @ header))) nul"
  have made: "createCpio o1 look paths = (True, body @ header @ ?pad)"
    by (simp add: createCpio_def b(1) w Let_def)
  obtain n where n: "length (body @ header @ ?pad) = length paths + Suc n"
    using b(2) ne less_iff_Suc_add [of "length paths" "length (body @ header @ ?pad)"] by auto
  have "cpioLoop h o2 root (length (body @ header @ ?pad)) (body @ header @ ?pad) (tarStart fs) =
      (None, (tarStart fs)\<lparr>ts_stdout := ?lines\<rparr>)"
    unfolding n using b(3) [of "tarStart fs" "Suc n" "header @ ?pad"] cpioLoop_trailer [OF w]
    by (simp add: tarStart_def)
  then show ?thesis
    unfolding made using assms(2) by (simp add: readCpio_def Let_def tarStart_def del: cpioLoop.simps)
qed

definition exampleLook :: "bool \<Rightarrow> string \<Rightarrow> cpioStat option" where
  "exampleLook deref path =
     (if path = ''./a''
      then Some \<lparr>ct_kind = StatRegular, ct_ino = 2, ct_mode = 0x81A4, ct_uid = 0, ct_gid = 0, ct_nlink = 1, ct_mtime = 1,
                 ct_dev = 0x801, ct_rdev = 0, ct_size = 3, ct_data = ''abc'', ct_readable = True\<rparr>
      else None)"

theorem cpio_lists_what_it_archived_witness:
  "let made = createCpio (cpioDefaults\<lparr>cp_format := Crc\<rparr>) exampleLook [''./a''];
       r = readCpio plainHost (cpioDefaults\<lparr>cp_operation := CHR ''t''\<rparr>) [] (snd made) homeDisk
   in fst made \<and> fst r = None \<and> ts_stdout (snd r) = concat (map (\<lambda>p. cpioMemberName p @ [CHR 0x0A]) [''./a''])"
proof (rule cpio_lists_what_it_archived)
  have "cpioMemberName ''./a'' = ''a''"
    by (simp add: cpioMemberName_def isAbs_def hasPrefix_def pathName_def parts_def)
  then show "\<forall>p \<in> set [''./a'']. archivable (cpioDefaults\<lparr>cp_format := Crc\<rparr>) exampleLook p"
    by (simp add: archivable_def goodName_def cpioTrailer_def nul_def cpioMaxNameBytes_def cpioDefaults_def exampleLook_def)
qed (simp_all add: cpioDefaults_def)

end
