(* ===== verification/Unzip.thy ===== *)
theory Unzip
  imports CpioProps
begin

text \<open>
  The command \<open>unzip\<close> of \<open>zip.go\<close>: options, selection, listing, testing and extraction.  The members are
  what \<open>archive/zip\<close> makes of the archive: \<open>zm_opens\<close> says whether a member can be opened, \<open>zm_data\<close> is what its
  reader delivers and \<open>zm_sound\<close> whether it then ends without an error (a wrong length or checksum is reported
  only there).  Where an error is printed the word \<open>error\<close> stands for it.  The state is that of \<open>tar\<close>:
  \<open>ts_matched\<close> collects the names of the selected members and \<open>ts_stdout\<close> what is printed.  Widths count bytes, as for ASCII names.
\<close>

section \<open>Options\<close>

record unzipOptions =
  uz_archive :: string
  uz_directory :: string
  uz_list :: bool
  uz_verboseList :: bool
  uz_test :: bool
  uz_pipe :: bool
  uz_overwrite :: bool
  uz_never :: bool
  uz_junk :: bool
  uz_quiet :: nat
  uz_members :: "string list"
  uz_excludes :: "string list"

definition unzipDefaults :: unzipOptions where
  "unzipDefaults =
     \<lparr>uz_archive = [], uz_directory = ''.'', uz_list = False, uz_verboseList = False, uz_test = False, uz_pipe = False,
      uz_overwrite = False, uz_never = False, uz_junk = False, uz_quiet = 0, uz_members = [], uz_excludes = []\<rparr>"

definition unzipOperand :: "bool \<Rightarrow> string \<Rightarrow> unzipOptions \<Rightarrow> unzipOptions" where
  "unzipOperand excluding arg o1 =
     (if uz_archive o1 = [] then o1\<lparr>uz_archive := arg\<rparr>
      else if excluding then o1\<lparr>uz_excludes := uz_excludes o1 @ [arg]\<rparr>
      else o1\<lparr>uz_members := uz_members o1 @ [arg]\<rparr>)"

text \<open>The letters of a cluster; \<open>None\<close> is an invalid option.\<close>

fun unzipLetters :: "string \<Rightarrow> unzipOptions \<Rightarrow> unzipOptions option" where
  "unzipLetters [] o1 = Some o1"
| "unzipLetters (c # cs) o1 =
     (if c = CHR ''l'' then unzipLetters cs (o1\<lparr>uz_list := True\<rparr>)
      else if c = CHR ''v'' then unzipLetters cs (o1\<lparr>uz_list := True, uz_verboseList := True\<rparr>)
      else if c = CHR ''t'' then unzipLetters cs (o1\<lparr>uz_test := True\<rparr>)
      else if c = CHR ''p'' then unzipLetters cs (o1\<lparr>uz_pipe := True, uz_quiet := 2\<rparr>)
      else if c = CHR ''c'' then unzipLetters cs (o1\<lparr>uz_pipe := True\<rparr>)
      else if c = CHR ''o'' then unzipLetters cs (o1\<lparr>uz_overwrite := True, uz_never := False\<rparr>)
      else if c = CHR ''n'' then unzipLetters cs (o1\<lparr>uz_never := True, uz_overwrite := False\<rparr>)
      else if c = CHR ''j'' then unzipLetters cs (o1\<lparr>uz_junk := True\<rparr>)
      else if c = CHR ''q'' then unzipLetters cs (o1\<lparr>uz_quiet := uz_quiet o1 + 1\<rparr>)
      else if c \<in> set ''abCKLUXVWD'' then unzipLetters cs o1
      else None)"

fun unzipArguments :: "bool \<Rightarrow> string list \<Rightarrow> unzipOptions \<Rightarrow> unzipOptions option" where
  "unzipArguments excluding [] o1 = Some o1"
| "unzipArguments excluding (arg # rest) o1 =
     (if arg = ''--'' then Some (fold (unzipOperand excluding) rest o1)
      else if 1 < length arg \<and> hd arg = CHR ''-'' then
        (if arg = ''-x'' then unzipArguments True rest o1
         else if arg = ''-d'' then
           (case rest of [] \<Rightarrow> None | d # rest \<Rightarrow> unzipArguments excluding rest (o1\<lparr>uz_directory := d\<rparr>))
         else case unzipLetters (tl arg) o1 of None \<Rightarrow> None | Some o2 \<Rightarrow> unzipArguments excluding rest o2)
      else unzipArguments excluding rest (unzipOperand excluding arg o1))"

definition parseUnzipOptions :: "string list \<Rightarrow> unzipOptions option" where
  "parseUnzipOptions args =
     (case unzipArguments False args unzipDefaults of
        None \<Rightarrow> None
      | Some o1 \<Rightarrow> if uz_archive o1 = [] \<or> uz_archive o1 = ''-'' then None else Some o1)"

section \<open>Members\<close>

datatype zipKind = ZipDirectory | ZipSymlink | ZipRegular | ZipOther

record zipMember =
  zm_name :: string
  zm_kind :: zipKind
  zm_mode :: nat
  zm_size :: u64
  zm_packed :: u64
  zm_stored :: bool
  zm_method :: string
  zm_stamp :: string
  zm_check :: string
  zm_opens :: bool
  zm_data :: string
  zm_sound :: bool

definition unzipSelects :: "unzipOptions \<Rightarrow> string \<Rightarrow> bool" where
  "unzipSelects o1 name \<longleftrightarrow>
     \<not> list_ex (\<lambda>p. tarPatternMatch p name) (uz_excludes o1) \<and>
     (uz_members o1 = [] \<or> list_ex (\<lambda>p. tarPatternMatch p name \<or> p = name) (uz_members o1))"

definition cleanString :: "bool \<Rightarrow> string list \<Rightarrow> string" where
  "cleanString rooted ps =
     (if rooted then CHR ''/'' # joinStrings (cleanRooted [] ps) ''/'' else pathName ''.'' (cleanLoop [] ps))"

text \<open>\<open>path.Join\<close> of the directory and the name, and \<open>path.Base\<close>.\<close>

definition reportName :: "unzipOptions \<Rightarrow> string \<Rightarrow> string" where
  "reportName o1 name =
     (if uz_directory o1 = ''.'' \<or> uz_directory o1 = [] then name
      else cleanString (isAbs (uz_directory o1)) (parts (uz_directory o1) @ parts name) @
           (if hasSuffix name ''/'' then ''/'' else []))"

definition pathBase :: "string \<Rightarrow> string" where
  "pathBase s =
     (if s = [] then ''.''
      else let t = trimRightByte (CHR ''/'') s in if t = [] then ''/'' else last (parts t))"

definition alignRight :: "nat \<Rightarrow> string \<Rightarrow> string" where
  "alignRight w s = replicate (w - length s) (CHR '' '') @ s"

definition alignLeft :: "nat \<Rightarrow> string \<Rightarrow> string" where
  "alignLeft w s = s @ replicate (w - length s) (CHR '' '')"

definition reportLine :: "string \<Rightarrow> string \<Rightarrow> string" where
  "reportLine verb name = alignRight 8 verb @ ''ing: '' @ alignLeft 22 name @ ''  ''"

definition zipReport :: "unzipOptions \<Rightarrow> string \<Rightarrow> string \<Rightarrow> tarState \<Rightarrow> tarState" where
  "zipReport o1 verb name st =
     (if 0 < uz_quiet o1 then st
      else if hasSuffix name ''/'' then printLine (alignRight 8 verb @ ''ing: '' @ name) st
      else printLine (reportLine verb name) st)"

definition zipVerb :: "zipMember \<Rightarrow> string" where
  "zipVerb m = (if zm_stored m then ''extract'' else ''inflat'')"

section \<open>Listing and testing\<close>

definition zipRatio :: "u64 \<Rightarrow> u64 \<Rightarrow> string" where
  "zipRatio plain packed =
     (if plain = 0 then ''0''
      else showDec (unat (((plain - packed) * 100 + plain div 2) div plain)))"

fun listMembers :: "unzipOptions \<Rightarrow> zipMember list \<Rightarrow> u64 \<times> u64 \<times> nat \<Rightarrow> tarState \<Rightarrow> (u64 \<times> u64 \<times> nat) \<times> tarState" where
  "listMembers o1 [] sums st = (sums, st)"
| "listMembers o1 (m # ms) (plain, packed, n) st =
     (if \<not> unzipSelects o1 (zm_name m) then listMembers o1 ms (plain, packed, n) st
      else
        let line =
          (if \<not> uz_verboseList o1 then
             alignRight 9 (showDec (unat (zm_size m))) @ ''  '' @ zm_stamp m @ ''   '' @ zm_name m
           else
             alignRight 8 (showDec (unat (zm_size m))) @ ''  '' @ alignLeft 6 (zm_method m) @ '' '' @
             alignRight 8 (showDec (unat (zm_packed m))) @ '' '' @ alignRight 3 (zipRatio (zm_size m) (zm_packed m)) @ ''% '' @
             zm_stamp m @ '' '' @ zm_check m @ ''  '' @ zm_name m)
        in listMembers o1 ms (plain + zm_size m, packed + zm_packed m, n + 1)
             (printLine line (st\<lparr>ts_matched := List.insert (zm_name m) (ts_matched st)\<rparr>)))"

definition notMatched :: "unzipOptions \<Rightarrow> tarState \<Rightarrow> bool" where
  "notMatched o1 st \<longleftrightarrow> ts_matched st = [] \<and> uz_members o1 \<noteq> []"

definition listZip :: "unzipOptions \<Rightarrow> zipMember list \<Rightarrow> tarState \<Rightarrow> nat \<times> tarState" where
  "listZip o1 ms st =
     (let st = (if uz_verboseList o1
                then printLine ''--------  ------  ------- ---- ---------- ----- --------  ----''
                       (printLine '' Length   Method    Size  Cmpr    Date    Time   CRC-32   Name'' st)
                else printLine ''---------  ---------- -----   ----''
                       (printLine ''  Length      Date    Time    Name'' st))
      in case listMembers o1 ms (0, 0, 0) st of ((plain, packed, n), st) \<Rightarrow>
        let noun = (if n = 1 then ''file'' else ''files'');
            st = (if uz_verboseList o1
                  then printLine (alignRight 8 (showDec (unat plain)) @ ''         '' @ alignRight 8 (showDec (unat packed)) @ '' '' @
                           alignRight 3 (zipRatio plain packed) @ ''%                            '' @ showDec n @ '' '' @ noun)
                         (printLine ''--------          -------  ---                            -------'' st)
                  else printLine (alignRight 9 (showDec (unat plain)) @ ''                     '' @ showDec n @ '' '' @ noun)
                         (printLine ''---------                     -------'' st))
        in (if notMatched o1 st then 11 else 0, st))"

text \<open>Whether a member can be read through.\<close>

definition memberReads :: "zipMember \<Rightarrow> bool" where
  "memberReads m \<longleftrightarrow> zm_opens m \<and> zm_sound m"

fun testMembers :: "unzipOptions \<Rightarrow> zipMember list \<Rightarrow> nat \<Rightarrow> tarState \<Rightarrow> nat \<times> tarState" where
  "testMembers o1 [] status st = (status, st)"
| "testMembers o1 (m # ms) status st =
     (if \<not> unzipSelects o1 (zm_name m) then testMembers o1 ms status st
      else
        let st = st\<lparr>ts_matched := List.insert (zm_name m) (ts_matched st)\<rparr>
        in if \<not> memberReads m then testMembers o1 ms 2 (printLine (''    testing: '' @ alignLeft 22 (zm_name m) @ ''   error'') st)
           else testMembers o1 ms status
                  (if uz_quiet o1 < 1 then printLine (''    testing: '' @ alignLeft 22 (zm_name m) @ ''   OK'') st else st))"

definition testZip :: "unzipOptions \<Rightarrow> zipMember list \<Rightarrow> tarState \<Rightarrow> nat \<times> tarState" where
  "testZip o1 ms st =
     (case testMembers o1 ms 0 st of (status, st) \<Rightarrow>
        (status,
         if status = 0 \<and> uz_quiet o1 < 2
         then printLine (''No errors detected in compressed data of '' @ uz_archive o1 @ ''.'') st else st))"

section \<open>Extraction\<close>

definition extractZipSymlink :: "path \<Rightarrow> path \<Rightarrow> zipMember \<Rightarrow> tarState \<Rightarrow> bool \<times> tarState" where
  "extractZipSymlink root target m st =
     (if \<not> zm_opens m \<or> \<not> zm_sound m \<or> 4096 < length (zm_data m) then (False, st)
      else case ensureTarParents root target (ts_files st) of
        (Some _, fs) \<Rightarrow> (False, st\<lparr>ts_files := fs\<rparr>)
      | (None, fs) \<Rightarrow>
          let st = st\<lparr>ts_files := fs\<rparr>; link = zm_data m
          in if validateTarSymlink root target (zm_name m) link fs \<noteq> None then (False, st)
             else (case lstatAt fs target of
               Missing \<Rightarrow>
                 if link = [] \<or> nul \<in> set link then (False, st)
                 else (case install False target (Link link) fs of
                   None \<Rightarrow> (False, st)
                 | Some fs \<Rightarrow> (True, st\<lparr>ts_files := fs\<rparr>))
             | _ \<Rightarrow> (False, st)))"

definition extractZipDirectory :: "unzipOptions \<Rightarrow> path \<Rightarrow> path \<Rightarrow> string \<Rightarrow> zipMember \<Rightarrow> tarState \<Rightarrow> bool \<times> tarState" where
  "extractZipDirectory o1 root target name m st =
     (case ensureTarParents root target (ts_files st) of
        (Some _, fs) \<Rightarrow> (False, st\<lparr>ts_files := fs\<rparr>)
      | (None, fs) \<Rightarrow>
          let st = st\<lparr>ts_files := fs\<rparr>;
              make =
                (case mkdirAll target 448 fs of
                   None \<Rightarrow> (False, st)
                 | Some fs \<Rightarrow>
                     (True, zipReport o1 ''creat'' (reportName o1 name)
                       (st\<lparr>ts_files := fs, ts_directories := ts_directories st @ [(target, zm_mode m mod 512)]\<rparr>)))
          in (case lstatAt fs target of
               Found (Dir _) \<Rightarrow> make
             | Found _ \<Rightarrow> (False, st)
             | _ \<Rightarrow> make))"

definition extractZipRegular :: "unzipOptions \<Rightarrow> path \<Rightarrow> path \<Rightarrow> string \<Rightarrow> zipMember \<Rightarrow> tarState \<Rightarrow> bool \<times> tarState" where
  "extractZipRegular o1 root target name m st =
     (if (case lstatAt (ts_files st) target of Found _ \<Rightarrow> True | _ \<Rightarrow> False) \<and> \<not> uz_overwrite o1 then (True, st)
      else if \<not> zm_opens m then (False, st)
      else case extractArchiveRegular root target (unat (zm_size m)) (zm_mode m mod 512) (zm_data m)
                  (zipReport o1 (zipVerb m) (reportName o1 name) st) of
        (False, _, st) \<Rightarrow> (False, st)
      | (True, _, st) \<Rightarrow> (True, st\<lparr>ts_extracted := ts_extracted st + int (unat (zm_size m))\<rparr>))"

text \<open>\<open>-p\<close> and \<open>-c\<close>.\<close>

definition pipeMember :: "unzipOptions \<Rightarrow> string \<Rightarrow> zipMember \<Rightarrow> tarState \<Rightarrow> bool \<times> tarState" where
  "pipeMember o1 name m st =
     (let talk = (\<lambda>line st. if uz_quiet o1 < 1 then printLine line st else st);
          st = talk (reportLine (zipVerb m) (reportName o1 name)) st
      in if hasSuffix (zm_name m) ''/'' then (True, talk [] st)
         else if \<not> zm_opens m then (False, st)
         else
           let st = st\<lparr>ts_stdout := ts_stdout st @ zm_data m\<rparr>
           in if \<not> zm_sound m then (False, st) else (True, talk [] st))"

text \<open>One selected member.\<close>

definition extractZipMember :: "unzipOptions \<Rightarrow> path \<Rightarrow> zipMember \<Rightarrow> tarState \<Rightarrow> bool \<times> tarState" where
  "extractZipMember o1 root m st =
     (if maxTarBytes - ts_extracted st < int (unat (zm_size m)) then (False, st)
      else if uz_junk o1 \<and> hasSuffix (zm_name m) ''/'' then (True, st)
      else
        let name = (if uz_junk o1 then pathBase (zm_name m) else zm_name m)
        in if uz_pipe o1 then pipeMember o1 name m st
           else (case safeTarTarget root name of
             Inl _ \<Rightarrow> (False, st)
           | Inr target \<Rightarrow>
               if zm_kind m = ZipDirectory \<or> hasSuffix (zm_name m) ''/'' then extractZipDirectory o1 root target name m st
               else (case zm_kind m of
                 ZipSymlink \<Rightarrow> extractZipSymlink root target m st
               | ZipRegular \<Rightarrow> extractZipRegular o1 root target name m st
               | _ \<Rightarrow> (False, st))))"

fun extractZipLoop :: "unzipOptions \<Rightarrow> path \<Rightarrow> zipMember list \<Rightarrow> tarState \<Rightarrow> bool \<times> tarState" where
  "extractZipLoop o1 root [] st =
     (case setModes (rev (ts_directories st)) (ts_files st) of (e, fs) \<Rightarrow> (e = None, st\<lparr>ts_files := fs\<rparr>))"
| "extractZipLoop o1 root (m # ms) st =
     (if \<not> unzipSelects o1 (zm_name m) then extractZipLoop o1 root ms st
      else case extractZipMember o1 root m (st\<lparr>ts_matched := List.insert (zm_name m) (ts_matched st)\<rparr>) of
        (False, st) \<Rightarrow> (False, st)
      | (True, st) \<Rightarrow> extractZipLoop o1 root ms st)"

definition extractZip :: "unzipOptions \<Rightarrow> path \<Rightarrow> zipMember list \<Rightarrow> tarState \<Rightarrow> bool \<times> tarState" where
  "extractZip o1 root ms st =
     (case mkdirAll root 493 (ts_files st) of
        None \<Rightarrow> (False, st)
      | Some fs \<Rightarrow> extractZipLoop o1 root ms (st\<lparr>ts_files := fs\<rparr>))"

definition caution :: "string \<Rightarrow> string" where
  "caution p = ''caution: filename not matched:  '' @ p"

text \<open>The exit status and the state; \<open>None\<close> is an archive that cannot be opened.\<close>

definition runUnzip :: "unzipOptions \<Rightarrow> path \<Rightarrow> zipMember list option \<Rightarrow> files \<Rightarrow> nat \<times> tarState" where
  "runUnzip o1 root archive fs =
     (case archive of
        None \<Rightarrow> (9, tarStart fs)
      | Some ms \<Rightarrow>
          let st = (if uz_quiet o1 < 1 then printLine (''Archive:  '' @ uz_archive o1) (tarStart fs) else tarStart fs)
          in if uz_list o1 then listZip o1 ms st
             else if uz_test o1 then testZip o1 ms st
             else (case extractZip o1 root ms st of
               (False, st) \<Rightarrow> (2, st)
             | (True, st) \<Rightarrow>
                 if notMatched o1 st then (11, fold (\<lambda>p. printLine (caution p)) (uz_members o1) st) else (0, st)))"

end
