(* ===== verification/UnzipProps.thy ===== *)
theory UnzipProps
  imports Unzip
begin

text \<open>
  What \<open>unzip\<close> may touch, and the percentage it prints for a member that grew.
\<close>

lemma printLine_safe [simp]: "safeState root fs0 (printLine l st) = safeState root fs0 st"
  by (simp add: printLine_def)

lemma zipReport_safe [simp]: "safeState root fs0 (zipReport o1 v n st) = safeState root fs0 st"
  by (simp add: zipReport_def)

lemma zipReport_dirs: "ts_files (zipReport o1 v n st) = ts_files st"
  by (simp add: zipReport_def printLine_def)

lemma extractZipSymlink_safe:
  assumes st: "safeState root fs0 st" and root: "cleanPath root" and rel: "cleanPath rel"
  shows "safeState root fs0 (snd (extractZipSymlink root (root @ rel) m st))"
proof -
  obtain e fs where r: "ensureTarParents root (root @ rel) (ts_files st) = (e, fs)" by (rule prod.exhaust)
  from ensureTarParents_safe [OF safeState_plain [OF st] root rel r]
  have s: "stays root (ts_files st) fs" and up: "e = None \<longrightarrow> plainDir fs (butlast (root @ rel))" by auto
  have s1: "safeState root fs0 (st\<lparr>ts_files := fs\<rparr>)" by (rule safeState_step [OF st s])
  have "safeState root fs0 (st\<lparr>ts_files := fs2\<rparr>)"
    if "e = None" "install False (root @ rel) (Link l) fs = Some fs2" for l fs2
    using safeState_step [OF s1, of fs2] stays_install [of fs "root @ rel" root False "Link l" fs2] up that root rel by simp
  then show ?thesis
    using st s1 by (cases e) (auto simp: extractZipSymlink_def r Let_def split: stat.splits option.splits)
qed

lemma extractZipDirectory_safe:
  assumes st: "safeState root fs0 st" and root: "cleanPath root" and rel: "cleanPath rel"
  shows "safeState root fs0 (snd (extractZipDirectory o1 root (root @ rel) name m st))"
proof -
  let ?t = "root @ rel"
  obtain e fs where r: "ensureTarParents root ?t (ts_files st) = (e, fs)" by (rule prod.exhaust)
  from ensureTarParents_safe [OF safeState_plain [OF st] root rel r]
  have s: "stays root (ts_files st) fs" and up: "e = None \<longrightarrow> plainDir fs (butlast ?t)" by auto
  have s1: "safeState root fs0 (st\<lparr>ts_files := fs\<rparr>)" by (rule safeState_step [OF st s])
  have c: "cleanPath ?t" using root rel by simp
  have add: "safeState root fs0 (st\<lparr>ts_files := fs2, ts_directories := ts_directories st @ [(?t, d)]\<rparr>)"
    if "e = None" "stays root fs fs2" "\<exists>k. fl_nodes fs2 ?t = Some (Dir k)" for fs2 d
  proof -
    have "plainDir fs2 ?t" using plain_target [OF stays_plain [OF that(2)] that(3)] up that(1) by simp
    then show ?thesis using safeState_step [OF s1, of fs2] that(2) c by (auto simp: safeState_def)
  qed
  show ?thesis
  proof (cases e)
    case None
    then have u: "plainDir fs (butlast ?t)" using up by simp
    note at = lstat_plain [OF u c]
    show ?thesis
    proof (cases "fl_nodes fs ?t")
      case free: None
      have "stays root fs (fs\<lparr>fl_nodes := (fl_nodes fs)(?t \<mapsto> Dir 448)\<rparr>)" by (intro stays_put) (simp_all add: free)
      from add [OF None this] show ?thesis
        using None at free mkdirAll_missing [OF u c free, of 448] by (simp add: extractZipDirectory_def r Let_def)
    next
      case (Some n)
      show ?thesis
      proof (cases "\<exists>k. n = Dir k")
        case True
        then have "plainDir fs ?t" using plain_target [OF u] Some by simp
        from mkdirAll_exists [OF this c, of 448] add [OF None stays_refl, of "zm_mode m mod 512"] show ?thesis
          using None at Some True by (auto simp: extractZipDirectory_def r Let_def)
      qed (use None at Some s1 in \<open>auto simp: extractZipDirectory_def r Let_def split: node.splits\<close>)
    qed
  qed (use s1 in \<open>simp add: extractZipDirectory_def r\<close>)
qed

lemma extractZipRegular_safe:
  assumes st: "safeState root fs0 st" and root: "cleanPath root" and rel: "cleanPath rel"
  shows "safeState root fs0 (snd (extractZipRegular o1 root (root @ rel) name m st))"
proof -
  have "safeState root fs0 (snd (snd (extractArchiveRegular root (root @ rel) n d input
      (zipReport o1 (zipVerb m) (reportName o1 name) st))))" for n d input
    by (rule extractArchiveRegular_safe [OF _ root rel]) (simp add: st)
  then show ?thesis
    using st by (simp add: extractZipRegular_def split: prod.splits bool.splits) (metis snd_conv)
qed

lemma pipeMember_safe: "safeState root fs0 st \<Longrightarrow> safeState root fs0 (snd (pipeMember o1 name m st))"
  by (simp add: pipeMember_def Let_def)

lemma extractZipMember_safe:
  assumes st: "safeState root fs0 st" and root: "cleanPath root"
  shows "safeState root fs0 (snd (extractZipMember o1 root m st))"
proof -
  have "safeState root fs0 (snd (case safeTarTarget root name of
             Inl _ \<Rightarrow> (False, st)
           | Inr target \<Rightarrow>
               if zm_kind m = ZipDirectory \<or> hasSuffix (zm_name m) ''/'' then extractZipDirectory o1 root target name m st
               else (case zm_kind m of
                 ZipSymlink \<Rightarrow> extractZipSymlink root target m st
               | ZipRegular \<Rightarrow> extractZipRegular o1 root target name m st
               | _ \<Rightarrow> (False, st))))" for name
  proof (cases "safeTarTarget root name")
    case (Inr target)
    then obtain rel where t: "target = root @ rel" "cleanPath rel" by (rule safeTarTarget_below)
    show ?thesis
      unfolding Inr sum.case t(1)
      using st extractZipDirectory_safe [OF st root t(2)] extractZipSymlink_safe [OF st root t(2)]
        extractZipRegular_safe [OF st root t(2)]
      by (auto split: zipKind.splits)
  qed (use st in simp)
  then show ?thesis using st pipeMember_safe [OF st] by (simp add: extractZipMember_def Let_def)
qed

lemma extractZipLoop_safe:
  "safeState root fs0 st \<Longrightarrow> cleanPath root \<Longrightarrow> stays root fs0 (ts_files (snd (extractZipLoop o1 root ms st)))"
proof (induction ms arbitrary: st)
  case Nil
  have "\<forall>(p, m) \<in> set (rev (ts_directories st)). prefix root p \<and> cleanPath p \<and> plainDir (ts_files st) p"
    using Nil by (auto simp: safeState_def)
  from stays_trans [OF _ setModes_stays [OF this]] Nil show ?case
    by (auto simp: safeState_def split: prod.splits)
next
  case (Cons m ms)
  let ?st = "st\<lparr>ts_matched := List.insert (zm_name m) (ts_matched st)\<rparr>"
  obtain good st1 where r: "extractZipMember o1 root m ?st = (good, st1)" by (rule prod.exhaust)
  have s1: "safeState root fs0 st1" using extractZipMember_safe [of root fs0 ?st o1 m] Cons.prems r by simp
  show ?case using Cons.IH [OF Cons.prems] Cons.IH [OF s1 Cons.prems(2)] s1
    by (cases good) (simp_all add: r safeState_def)
qed

lemma testMembers_files: "ts_files (snd (testMembers o1 ms status st)) = ts_files st"
  by (induction ms arbitrary: status st) (simp_all add: Let_def printLine_def)

lemma listMembers_files: "ts_files (snd (listMembers o1 ms sums st)) = ts_files st"
  by (induction ms arbitrary: sums st) (auto simp: Let_def printLine_def)

lemma listZip_files: "ts_files (snd (listZip o1 ms st)) = ts_files st"
proof -
  have "ts_files (snd (listMembers o1 ms (0, 0, 0) (printLine a (printLine b st)))) = ts_files st" for a b
    by (simp add: listMembers_files) (simp add: printLine_def)
  moreover have "ts_files (printLine a s) = ts_files s" for a s by (simp add: printLine_def)
  ultimately show ?thesis unfolding listZip_def Let_def by (auto split: prod.split) (metis snd_conv)+
qed

lemma runUnzip_stays:
  assumes c: "cleanPath root" "plainDir fs root"
  shows "stays root fs (ts_files (snd (runUnzip o1 root archive fs)))"
proof (cases archive)
  case (Some ms)
  define st where "st = (if uz_quiet o1 < 1 then printLine (''Archive:  '' @ uz_archive o1) (tarStart fs) else tarStart fs)"
  have fs: "ts_files st = fs" by (simp add: st_def printLine_def tarStart_def)
  have st: "safeState root fs st" using c by (simp add: st_def) (simp add: safeState_def tarStart_def)
  have printed: "ts_files (fold (\<lambda>p. printLine (caution p)) ps st2) = ts_files st2" for ps st2
    by (induction ps arbitrary: st2) (simp_all add: printLine_def)
  have "ts_files (snd (testZip o1 ms st)) = fs"
    using testMembers_files [of o1 ms 0 st] fs
    by (cases "testMembers o1 ms 0 st") (simp add: testZip_def printLine_def)
  moreover have "ts_files (snd (listZip o1 ms st)) = fs" by (simp add: listZip_files fs)
  moreover have "stays root fs (ts_files (snd (extractZip o1 root ms st)))"
    using extractZipLoop_safe [OF st c(1), of o1 ms] mkdirAll_exists [OF c(2,1), of 493] fs
    by (cases st) (simp add: extractZip_def)
  moreover have "runUnzip o1 root archive fs =
      (if uz_list o1 then listZip o1 ms st
       else if uz_test o1 then testZip o1 ms st
       else (case extractZip o1 root ms st of
          (False, st) \<Rightarrow> (2, st)
        | (True, st) \<Rightarrow>
            if notMatched o1 st then (11, fold (\<lambda>p. printLine (caution p)) (uz_members o1) st) else (0, st)))"
    by (simp only: runUnzip_def Some option.case st_def Let_def)
  ultimately show ?thesis
    by (cases "extractZip o1 root ms st") (simp add: printed split: bool.split)
qed (simp add: runUnzip_def tarStart_def)

text \<open>C8 (safety): whatever an archive holds and whatever options are given, \<open>unzip\<close> into a directory reached
  without symbolic links changes no name outside it, overwrites no file that was there before and turns no
  directory into something else.\<close>

theorem unzip_stays_inside:
  assumes "cleanPath root" "plainDir fs root"
  shows "let fs2 = ts_files (snd (runUnzip o1 root archive fs)) in
    (\<forall>q. \<not> prefix root q \<longrightarrow> fl_nodes fs2 q = fl_nodes fs q) \<and>
    (\<forall>i < fl_next fs. fl_inodes fs2 i = fl_inodes fs i) \<and>
    (\<forall>q m. fl_nodes fs q = Some (Dir m) \<longrightarrow> (\<exists>m2. fl_nodes fs2 q = Some (Dir m2)))"
  using runUnzip_stays [OF assms, of o1 archive] by (simp add: stays_def Let_def)

definition exampleZip :: "zipMember list" where
  "exampleZip =
     [\<lparr>zm_name = ''x'', zm_kind = ZipSymlink, zm_mode = 511, zm_size = 4, zm_packed = 4, zm_stored = True,
       zm_method = ''Stored'', zm_stamp = [], zm_check = [], zm_opens = True, zm_data = ''d/..'', zm_sound = True\<rparr>,
      \<lparr>zm_name = ''x/secret'', zm_kind = ZipRegular, zm_mode = 420, zm_size = 1, zm_packed = 1, zm_stored = True,
       zm_method = ''Stored'', zm_stamp = [], zm_check = [], zm_opens = True, zm_data = ''a'', zm_sound = True\<rparr>]"

theorem unzip_stays_inside_witness:
  "let fs2 = ts_files (snd (runUnzip unzipDefaults [''r''] (Some exampleZip) extractionDisk)) in
    (\<forall>q. \<not> prefix [''r''] q \<longrightarrow> fl_nodes fs2 q = fl_nodes extractionDisk q) \<and>
    (\<forall>i < fl_next extractionDisk. fl_inodes fs2 i = fl_inodes extractionDisk i) \<and>
    (\<forall>q m. fl_nodes extractionDisk q = Some (Dir m) \<longrightarrow> (\<exists>m2. fl_nodes fs2 q = Some (Dir m2)))"
  by (rule unzip_stays_inside [OF extractionDisk_plain])

lemma grown_member_ratio: "zipRatio 10 12 = ''1844674407370955142''"
proof -
  have "map digitChar [0, 1, 2, 3, 4, 5, 6, 7, 8, 9] = ''0123456789''" by code_simp
  moreover have "(((10 :: u64) - 12) * 100 + 10 div 2) div 10 = 1844674407370955142" by (simp add: word_eq_iff_unsigned)
  ultimately show ?thesis by (simp add: zipRatio_def showDec.simps)
qed

text \<open>A member whose reader ends with an error is reported by \<open>-t\<close> \<dots>\<close>

lemma testMembers_status: "status = 2 \<Longrightarrow> fst (testMembers o1 ms status st) = 2"
  by (induction ms arbitrary: st) (simp_all add: Let_def)

lemma testMembers_reports:
  "m \<in> set ms \<Longrightarrow> unzipSelects o1 (zm_name m) \<Longrightarrow> \<not> memberReads m \<Longrightarrow> fst (testMembers o1 ms status st) = 2"
  by (induction ms arbitrary: status st) (auto simp: Let_def testMembers_status)

text \<open>C9 (error): the checksum of a regular member plays no part in its extraction.  \<open>unzip -t\<close> ends with status 2
  when the reader of a selected member ends with an error; extracting a regular member does the same, with the same
  result, whether its reader ends with that error or not, because \<open>io.CopyN\<close> reads no further than the size of the
  member and drops an error that comes with its last byte.\<close>

theorem damaged_member_extracted:
  assumes "m \<in> set ms" "unzipSelects o1 (zm_name m)" "zm_kind m = ZipRegular" "\<not> zm_sound m"
  shows "fst (testZip o1 ms st) = 2 \<and>
    (\<not> uz_pipe o1 \<longrightarrow> extractZipMember o1 root m st = extractZipMember o1 root (m\<lparr>zm_sound := True\<rparr>) st)"
proof -
  have "fst (testMembers o1 ms 0 st) = 2"
    by (rule testMembers_reports [OF assms(1,2)]) (simp add: memberReads_def assms(4))
  then have "fst (testZip o1 ms st) = 2" by (cases "testMembers o1 ms 0 st") (simp add: testZip_def)
  moreover let ?m = "m\<lparr>zm_sound := True\<rparr>"
  have same: "zipVerb ?m = zipVerb m" "zm_opens ?m = zm_opens m" "zm_size ?m = zm_size m" "zm_mode ?m = zm_mode m"
    "zm_data ?m = zm_data m" "zm_name ?m = zm_name m" "zm_kind ?m = zm_kind m" by (simp_all add: zipVerb_def)
  have same2: "extractZipDirectory o1 root t name ?m st = extractZipDirectory o1 root t name m st"
    and same3: "extractZipRegular o1 root t name ?m st = extractZipRegular o1 root t name m st" for t name
    unfolding extractZipDirectory_def extractZipRegular_def same by (rule refl)+
  have "extractZipMember o1 root ?m st = extractZipMember o1 root m st" if "\<not> uz_pipe o1"
    using that unfolding extractZipMember_def same same2 same3 assms(3) zipKind.case by (simp add: Let_def)
  ultimately show ?thesis by simp
qed

definition damagedMember :: zipMember where
  "damagedMember = \<lparr>zm_name = ''f'', zm_kind = ZipRegular, zm_mode = 420, zm_size = 1, zm_packed = 1, zm_stored = True,
     zm_method = ''Stored'', zm_stamp = [], zm_check = [], zm_opens = True, zm_data = ''a'', zm_sound = False\<rparr>"

theorem damaged_member_extracted_witness:
  "fst (testZip unzipDefaults [damagedMember] (tarStart extractionDisk)) = 2 \<and>
   extractZipMember unzipDefaults [''r''] damagedMember (tarStart extractionDisk) =
   extractZipMember unzipDefaults [''r''] (damagedMember\<lparr>zm_sound := True\<rparr>) (tarStart extractionDisk) \<and>
   fst (runUnzip unzipDefaults [''r''] (Some [damagedMember]) extractionDisk) = 0"
proof -
  have "unzipSelects unzipDefaults (zm_name damagedMember)" "zm_kind damagedMember = ZipRegular"
    "\<not> zm_sound damagedMember" "\<not> uz_pipe unzipDefaults"
    "fst (runUnzip unzipDefaults [''r''] (Some [damagedMember]) extractionDisk) = 0"
    by code_simp+
  then show ?thesis
    using damaged_member_extracted [of damagedMember "[damagedMember]" unzipDefaults "tarStart extractionDisk" "[''r'']"]
    by simp
qed

end
