(* ===== verification/Spec2Isabelle.thy ===== *)
theory Spec2Isabelle
  imports SessionInv Cut Tr TestCmd Quote Tabs XzSafe ZstdSafe CompressFiles TarStaged UnzipProps
begin

text \<open>
  A verification library of \<open>ba6\<close>, one Go binary that answers to the names of many Unix commands.  \<open>main.go\<close>
  dispatches on the name; each command parses its own words, works on files, streams or a block device, and
  returns an exit status.  Modelled are the commands whose logic is their own: the partition editor \<open>cfdisk\<close>, the
  archivers \<open>tar\<close>, \<open>cpio\<close> and \<open>unzip\<close>, the compressors \<open>bzip2\<close>, \<open>xz\<close> and \<open>zstd\<close>, and the text tools \<open>cut\<close>,
  \<open>tr\<close>, \<open>expand\<close>, \<open>unexpand\<close> and \<open>test\<close>.  File and function names below are those under \<open>src/\<close>; definitions keep
  the names of the functions they model.

  \<^bold>\<open>How the code is read.\<close>  Go integers are words of their width (\<open>u8\<close> to \<open>u64\<close>) where they can wrap around, and
  \<open>nat\<close> or \<open>int\<close> where a guard of the code keeps them small; a string or byte slice is a list.  A function that can
  fail returns a sum or an option; one that can also panic (an index out of range, a negative slice bound) returns
  \<open>codec\<close>, whose constructors are \<open>Ret\<close>, \<open>Bad\<close> and \<open>Panic\<close>, or \<open>None\<close> where nothing else needs that value.
  State is a record that is passed along.  What the code leaves to other packages or to the kernel is an argument:
  the answers of \<open>stat\<close>, \<open>archive/tar\<close>, \<open>archive/zip\<close> and \<open>compress/bzip2\<close>, the random bytes of a GUID.

  \<^bold>\<open>Shared theories.\<close>
  \<^item> \<open>GoLib\<close>: characters, \<open>strings\<close>, \<open>strconv\<close>, number formats; every other theory rests on it.
  \<^item> \<open>TextIO\<close>: UTF-8, separators, \<open>newLineScanner\<close> and \<open>openInput\<close> of \<open>util.go\<close>, the input and output of a command.
  \<^item> \<open>Quote\<close>: \<open>expandShortOptions\<close>, shell quoting and symbolic modes of \<open>util.go\<close>.  \<open>shellWord\<close> is how bash reads a
    literal word, braces that it may expand excluded.
  \<^item> \<open>ByteCodec\<close>: slices, the accessors of \<open>encoding/binary\<close> with the locale \<open>byte_field\<close> (interpreted as \<open>u16\<close>,
    \<open>u32\<close> and \<open>u64\<close>: a field reads back what was put there and leaves the others alone), CRC-32, the block device.
  \<^item> \<open>Codec\<close>: the monad of the decoders and the judgement \<open>codecOk\<close>, that a call panics never and returns only
    results with a property.

  \<^bold>\<open>The partition editor\<close> (\<open>cfdisk_linux.go\<close>, \<open>cfdisk_extended_linux.go\<close>, \<open>cfdisk_gpt_linux.go\<close>, and what
  \<open>recovery_linux.go\<close> lends them).
  \<^item> \<open>Extents\<close>: half-open extents and the locale \<open>disk_allocator\<close>, the contract of a table that offers free space: the
    regions it offers are exactly the gaps, and filling one keeps the table valid.  \<open>Mbr\<close>, \<open>Ebr\<close> and \<open>Gpt\<close> interpret
    it (\<open>mbr_alloc\<close>, \<open>ebr_alloc\<close>, \<open>gpt_alloc\<close>).
  \<^item> \<open>Mbr\<close>: the four slots of a DOS table; the validator, which compares neighbours, against the specification that
    all partitions lie on the disk and are pairwise disjoint.
  \<^item> \<open>Ebr\<close>: the chain of boot records of logical partitions.  Reading stops after 256 records
    as the loop of the code does, with the error \<open>ChainTooLong\<close>.
  \<^item> \<open>Gpt\<close>, \<open>GptText\<close>: geometry, headers, checksums, entries, and the write as a sequence of steps.  A device may fail
    at any step and power may fail at any byte; the invariant is that one complete copy remains.
  \<^item> \<open>Sfdisk\<close>: the dump of a table and the script parser that reads it back.
  \<^item> \<open>Session\<close>, \<open>SessionInv\<close>: the state of the editor, one definition per key, the prompt, the checks before a write and
    the loop.  The disk that is open (\<open>w_disk\<close>) and what a path leads to (\<open>w_at\<close>) are told apart: the checks read the
    open disk as the code reads its descriptor, a write and a dump go to what the path leads to, which may be that disk,
    as they open the path again.  Every index of the handlers into a slice or array has its panic.  A property of every
    outcome is \<open>outcomeAll\<close>.  The locales \<open>session_view\<close>, \<open>session_quiet\<close>, \<open>session_edit\<close> and \<open>session_locked\<close> name the
    elementary changes a property must survive; the interpretations \<open>tame\<close>, \<open>labels\<close>, \<open>quiet\<close> and \<open>untouched\<close> give the
    invariants of all keys at once.  The input is the list of events of one session up to its end,
    so that the loop of the model always ends; that is no claim about the code.

  \<^bold>\<open>Archives\<close> (\<open>archive.go\<close>, \<open>cpio_linux.go\<close>, \<open>zip.go\<close>).
  \<^item> \<open>Archive\<close>: the file system as a map from paths to nodes, with inodes for the contents, path resolution through
    symbolic links, the system calls that extraction uses, and the guards \<open>safeTarTarget\<close>, \<open>ensureTarParents\<close>,
    \<open>validateTarSymlink\<close> with the links they follow.  Names of temporary files are left out: a temporary file that
    is renamed into place is a new inode.
  \<^item> \<open>TarRun\<close>, \<open>TarSafe\<close>, \<open>TarProps\<close>: options, selection and the extraction of members.  \<open>stays root fs fs'\<close> says that
    nothing outside \<open>root\<close> changed and no file that existed before was written; \<open>safeState\<close> carries it through a run.  The
    locale \<open>extraction_invariant\<close> lists what an invariant of all members has to survive; \<open>tree\<close> (every entry has a
    directory above it) and \<open>limit\<close> (64 GiB of contents) interpret it.  \<open>TarStaged\<close> follows an archive whose links lead
    out of the directory, on an arbitrary file system.
  \<^item> \<open>TarCreate\<close>, \<open>TarRound\<close>: the walk that makes an archive, and that extraction undoes it.
  \<^item> \<open>CpioFormat\<close>, \<open>CpioRound\<close>, \<open>CpioRun\<close>, \<open>CpioProps\<close>: the four header layouts to the byte, and copy-out, copy-in and
    listing.  \<open>cpio\<close> and \<open>unzip\<close> use the guards and the regular-file writer that \<open>tar\<close>'s lemmas are about.
  \<^item> \<open>Unzip\<close>, \<open>UnzipProps\<close>: options, listing, testing, piping and extraction.

  \<^bold>\<open>Compression\<close> (\<open>bzip2_writer.go\<close>, \<open>xz_raw.go\<close>, \<open>lzma.go\<close>, \<open>zstd_raw.go\<close>, \<open>zstd_decode.go\<close>, \<open>xxhash64.go\<close>,
  \<open>compression.go\<close>).
  \<^item> \<open>Bz2\<close> is the compressor; \<open>Bz2Ref\<close> a strict reader written from the format, used only as a
    specification, which takes code lengths of 1 to 20 bits and complete codes only; \<open>Bz2Sort\<close> shows
    that prefix doubling sorts the rotations; \<open>Bz2Stages\<close>, \<open>Bz2Bits\<close>, \<open>Bz2Codes\<close> and \<open>Bz2Round\<close> undo the stages one by one.
  \<^item> \<open>Lzma\<close>, \<open>Lzma2\<close>, \<open>Xz\<close>: the decoder and the storing writer; \<open>XzRound\<close> the round trip; \<open>XzSafe\<close> the bounds of every
    index for every input.
  \<^item> \<open>Fse\<close>, \<open>Huf\<close>, \<open>ZstdBlock\<close>, \<open>ZstdFrame\<close>, \<open>Xxh64\<close>: the same for Zstandard, with \<open>ZstdRound\<close> and \<open>ZstdSafe\<close>; the one input
    that makes the decoder panic is characterised.
  \<^item> \<open>Compress\<close>, \<open>CompressFiles\<close>: the commands on files.  The locale \<open>stream_codec\<close> is the law that decompression undoes
    compression and \<open>named_codec\<close> adds the suffix of the command; \<open>xz\<close>, \<open>zstd\<close> and \<open>bzip2\<close> interpret it, the last with
    the reference reader in place of \<open>compress/bzip2\<close>, of which a property about files asks that it decodes what the
    reference reader accepts.  The facts about files are that an input disappears only when its
    output is in place, and that a failure changes nothing.

  \<^bold>\<open>Text tools.\<close>  \<open>Cut\<close> (\<open>cut.go\<close>), \<open>Tr\<close> (\<open>tr.go\<close>), \<open>Tabs\<close> (\<open>expand.go\<close>, \<open>unexpand.go\<close>) and \<open>TestCmd\<close> (\<open>testcmd.go\<close>): command
  lines, errors and filters.  The parser of \<open>test\<close> is compared with a grammar.

  \<^bold>\<open>Recursion, bounds and fuel.\<close>  Most loops end by a measure on what is left to read or write.  Counters exist where the code
  has none that decreases:
  \<^item> the parser of \<open>test\<close>: its fuel is linear in the number of words; \<open>need\<close> says how much each routine wants, and that
    the parser returns is part of the property about it;
  \<^item> the words of \<open>tar\<close> and \<open>cpio\<close>: a round takes a word at least, so their number is enough;
  \<^item> \<open>cpioLoop\<close>: a member takes a header at least, so the length of the input is enough;
  \<^item> the walk of \<open>tar -c\<close>: \<open>maxDepth\<close> is 4096 levels, more than the longest path the kernel takes;
  \<^item> path resolution: 40 links as in the kernel, 255 as in \<open>filepath.EvalSymlinks\<close>, and an error beyond;
  \<^item> the blocks of the reference reader: the number of bits, as a block takes more than one.

  \<^bold>\<open>Not modelled.\<close>  Texts of help, usage and most diagnostics; times, owners and extended attributes; the drawing of screens;
  \<open>sfdisk\<close> around its script parser; the pass-through mode of \<open>cpio\<close>; the creation of zip archives (deflate is the standard
  library's); the encoding inside \<open>archive/tar\<close> and \<open>archive/zip\<close>.  Of the remaining commands, some wrap kernel interfaces
  (network, processes, modules, accounts, mounts and file systems), some rest on Go's \<open>regexp\<close>, \<open>time\<close> or floating point
  numbers (\<open>grep\<close>, \<open>sed\<close>, \<open>awk\<close>, \<open>find\<close>, \<open>date\<close>, \<open>sort\<close>), and others copy bytes with a table of options.
\<close>

end
